(* ===== verification/Prelude.thy ===== *)
theory Prelude
  imports Main "HOL-Library.Word" "HOL-Library.Monad_Syntax" "HOL-Library.Signed_Division"
begin

text \<open>
  Shared vocabulary of the development: the integer types of \<^verbatim>\<open>types.h\<close>, assertions and
  fatal errors as the \<open>None\<close> result of the option monad, the C conversions that lose bits,
  the build-time parameters of \<^verbatim>\<open>parameters.h\<close>, counted loops with an aborting body, and the
  lemma collections the component theories extend.
\<close>

unbundle bit_operations_syntax

section \<open>Integer types and conversions\<close>

text \<open>
  \<^verbatim>\<open>Seqno\<close> and \<^verbatim>\<open>View\<close> are \<^verbatim>\<open>long long\<close>: signed overflow is undefined in C++, so no
  run of a well-defined execution wraps them and they are mathematical integers here. The places
  where the code narrows a \<^verbatim>\<open>Seqno\<close> to \<^verbatim>\<open>int\<close> use \<open>to_int32\<close>. \<^verbatim>\<open>Request_id\<close> is unsigned
  and does wrap, so it is a 64-bit word.
\<close>

type_synonym seqno = int
type_synonym view = int
type_synonym request_id = "64 word"

definition to_int32 :: "int \<Rightarrow> int" where
  "to_int32 x = signed_take_bit 31 x"

definition to_int16 :: "int \<Rightarrow> int" where
  "to_int16 x = signed_take_bit 15 x"

definition Seqno_max :: seqno where
  "Seqno_max = 9223372036854775807"

definition View_max :: view where
  "View_max = 9223372036854775807"

lemma to_int32_id: "- 2147483648 \<le> x \<Longrightarrow> x < 2147483648 \<Longrightarrow> to_int32 x = x"
  by (simp add: to_int32_def signed_take_bit_int_eq_self)

lemma to_int16_id: "- 32768 \<le> x \<Longrightarrow> x < 32768 \<Longrightarrow> to_int16 x = x"
  by (simp add: to_int16_def signed_take_bit_int_eq_self)

lemma to_int32_range: "- 2147483648 \<le> to_int32 x \<and> to_int32 x < 2147483648"
  using signed_take_bit_int_greater_eq_minus_exp [of 31 x] signed_take_bit_int_less_exp [of 31 x]
  by (simp add: to_int32_def)

lemma to_int32_cong: "to_int32 x mod 4294967296 = x mod 4294967296"
proof -
  have "take_bit 32 (signed_take_bit 31 x) = take_bit 32 x"
    by (simp add: take_bit_signed_take_bit)
  then show ?thesis by (simp add: to_int32_def take_bit_eq_mod)
qed

section \<open>Assertions and fatal errors\<close>

text \<open>
  \<^verbatim>\<open>th_assert\<close> and \<^verbatim>\<open>th_fail\<close> of \<^verbatim>\<open>th_assert.h\<close> end the process when the build does
  not define \<^verbatim>\<open>NDEBUG\<close> (the build files do not). An operation that may end the process has an
  option type: \<open>None\<close> is the aborted run.
\<close>

definition th_assert :: "bool \<Rightarrow> unit option" where
  "th_assert b = (if b then Some () else None)"

definition th_fail :: "'a option" where
  "th_fail = None"

lemma th_assert_bind [simp]:
  "(th_assert b \<bind> f) = (if b then f () else None)"
  by (simp add: th_assert_def)

lemma th_assert_simps [simp]: "th_assert True = Some ()" "th_assert False = None"
  by (simp_all add: th_assert_def)

section \<open>Build parameters\<close>

text \<open>
  The compile-time constants of \<^verbatim>\<open>parameters.h\<close> and the sizes of \<^verbatim>\<open>Message.h\<close> that depend
  on them. \<open>build_ok\<close> states what the headers demand of them: a positive checkpoint interval (the
  \<^verbatim>\<open>static_assert\<close>), a window larger than the interval, and a window that is a power of two
  because \<^verbatim>\<open>Log\<close> masks with \<^verbatim>\<open>max_size - 1\<close>.
\<close>

record build =
  max_out :: int
  checkpoint_interval :: int
  Max_num_replicas :: int
  max_num_clients :: int

definition default_build :: build where
  "default_build = \<lparr>max_out = 256, checkpoint_interval = 128, Max_num_replicas = 32,
     max_num_clients = 1\<rparr>"

definition build_ok :: "build \<Rightarrow> bool" where
  "build_ok b \<longleftrightarrow> 0 < checkpoint_interval b \<and> checkpoint_interval b < max_out b \<and>
     checkpoint_interval b dvd max_out b \<and> 0 < Max_num_replicas b \<and>
     (\<exists>k < 31. max_out b = 2 ^ k)"

lemma default_build_ok: "build_ok default_build"
  unfolding build_ok_def default_build_def
  by (auto intro!: exI [of _ 8])

section \<open>Counted loops\<close>

text \<open>\<open>fold_opt f xs s\<close> runs the body \<open>f\<close> on the elements of \<open>xs\<close> in order and stops with
  \<open>None\<close> as soon as the body aborts.\<close>

fun fold_opt :: "('x \<Rightarrow> 's \<Rightarrow> 's option) \<Rightarrow> 'x list \<Rightarrow> 's \<Rightarrow> 's option" where
  "fold_opt f [] s = Some s"
| "fold_opt f (x # xs) s = do { s' \<leftarrow> f x s; fold_opt f xs s' }"

text \<open>The steps of a program that returned.\<close>

lemma bind_SomeE:
  assumes "(x \<bind> f) = Some y"
  obtains a where "x = Some a" "f a = Some y"
  using assms by (cases x) auto

lemma if_SomeE:
  assumes "(if b then x else y) = Some z"
  obtains "b" "x = Some z" | "\<not> b" "y = Some z"
  using assms by (cases b) auto

lemma fold_opt_cong [fundef_cong]:
  "xs = ys \<Longrightarrow> s = t \<Longrightarrow> (\<And>x u. x \<in> set ys \<Longrightarrow> f x u = g x u) \<Longrightarrow> fold_opt f xs s = fold_opt g ys t"
proof (induction ys arbitrary: xs s t)
  case (Cons y ys)
  then show ?case by (cases "g y t") auto
qed simp

lemma fold_opt_append: "fold_opt f (xs @ ys) s = (fold_opt f xs s \<bind> fold_opt f ys)"
  by (induction xs arbitrary: s) (auto split: Option.bind_splits)

lemma fold_opt_inv:
  assumes "fold_opt f xs s = Some s'" and "P s"
    and "\<And>x s s'. x \<in> set xs \<Longrightarrow> P s \<Longrightarrow> f x s = Some s' \<Longrightarrow> P s'"
  shows "P s'"
  using assms
proof (induction xs arbitrary: s)
  case Nil
  then show ?case by simp
next
  case (Cons x xs)
  then obtain t where "f x s = Some t" "fold_opt f xs t = Some s'"
    by (auto split: Option.bind_splits)
  with Cons show ?case by (metis list.set_intros)
qed

lemma fold_opt_total:
  assumes "P s" and "\<And>x s. x \<in> set xs \<Longrightarrow> P s \<Longrightarrow> \<exists>s'. f x s = Some s' \<and> P s'"
  shows "\<exists>s'. fold_opt f xs s = Some s' \<and> P s'"
  using assms
proof (induction xs arbitrary: s)
  case Nil
  then show ?case by simp
next
  case (Cons x xs)
  then obtain t where t: "f x s = Some t" "P t" by (meson list.set_intros(1))
  with Cons have "\<exists>s'. fold_opt f xs t = Some s' \<and> P s'" by (meson list.set_intros(2))
  with t show ?case by simp
qed

section \<open>Array access\<close>

text \<open>Reading or writing an array out of its bounds is undefined behaviour; \<open>arr_get\<close> and
  \<open>arr_set\<close> make it \<open>None\<close>, like an aborted run.\<close>

definition arr_get :: "'a list \<Rightarrow> nat \<Rightarrow> 'a option" where
  "arr_get xs i = (if i < length xs then Some (xs ! i) else None)"

definition arr_set :: "'a list \<Rightarrow> nat \<Rightarrow> 'a \<Rightarrow> 'a list option" where
  "arr_set xs i v = (if i < length xs then Some (xs[i := v]) else None)"

named_theorems inv_simps \<open>representation invariants unfolded\<close>
named_theorems op_simps \<open>operations unfolded\<close>

section \<open>Shared arithmetic\<close>

lemma and_mask_mod: "(s::int) AND (2 ^ k - 1) = s mod 2 ^ k"
  by (simp add: mask_eq_exp_minus_1 [symmetric] take_bit_eq_mask [symmetric] take_bit_eq_mod)

lemma mod_inj_window:
  fixes a b h k :: int
  assumes "h \<le> a" "a < h + k" "h \<le> b" "b < h + k" "a mod k = b mod k"
  shows "a = b"
proof -
  have "k dvd a - b" using assms(5) by (simp add: mod_eq_dvd_iff)
  moreover have "\<bar>a - b\<bar> < k" using assms(1-4) by linarith
  ultimately have "a - b = 0" using zdvd_not_zless [of "\<bar>a - b\<bar>" k] by auto
  then show ?thesis by simp
qed

end
