(* ===== verification/Bitmap.thy ===== *)
theory Bitmap
  imports Prelude
begin

text \<open>
  The bit vector of \<^verbatim>\<open>Bitmap.h\<close>: an array of 64-bit chunks (\<^verbatim>\<open>unsigned long\<close> on the LP64
  hosts the library is built for) and its iterator, and the \<^verbatim>\<open>char[]\<close> bit operations used by the
  messages. Certificates keep the replicas they heard from in one of these, the state manager its
  copy-on-write bits. The abstraction is the finite set \<open>bm_set\<close>; the locale \<open>finite_bits\<close> is the
  contract the clients use, interpreted on the concrete operations at the end.
\<close>

section \<open>The class\<close>

record bitmap =
  num :: nat
  chunks :: "64 word list"
  nc :: nat

definition ChunkBits :: nat where
  "ChunkBits = 64"

definition Bitmap_new :: "nat \<Rightarrow> bool \<Rightarrow> bitmap" where
  "Bitmap_new sz value =
     (let n = (sz + ChunkBits - 1) div ChunkBits
      in \<lparr>num = sz, chunks = replicate n (if value then NOT 0 else 0), nc = n\<rparr>)"

definition Bitmap_copy :: "bitmap \<Rightarrow> bitmap \<Rightarrow> bitmap" where
  "Bitmap_copy this other =
     this\<lparr>num := num other,
          chunks := map (\<lambda>i. chunks other ! i) [0..<nc other], nc := nc other\<rparr>"

definition bitSelector :: "nat \<Rightarrow> 64 word" where
  "bitSelector i = push_bit (i mod ChunkBits) 1"

definition valBitSelector :: "nat \<Rightarrow> bool \<Rightarrow> 64 word" where
  "valBitSelector i val = push_bit (i mod ChunkBits) (of_bool val)"

definition bm_clear :: "bitmap \<Rightarrow> bitmap" where
  "bm_clear b = b\<lparr>chunks := map (\<lambda>i. 0) [0..<nc b]\<rparr>"

definition setAll :: "bitmap \<Rightarrow> bitmap" where
  "setAll b = b\<lparr>chunks := map (\<lambda>i. NOT 0) [0..<nc b]\<rparr>"

definition bm_test :: "bitmap \<Rightarrow> nat \<Rightarrow> bool option" where
  "bm_test b i = do {
     th_assert (i < num b);
     w \<leftarrow> arr_get (chunks b) (i div ChunkBits);
     Some (w AND bitSelector i \<noteq> 0) }"

definition bm_insert :: "bitmap \<Rightarrow> nat \<Rightarrow> bitmap option" where
  "bm_insert b i = do {
     th_assert (i < num b);
     w \<leftarrow> arr_get (chunks b) (i div ChunkBits);
     cs \<leftarrow> arr_set (chunks b) (i div ChunkBits) (w OR bitSelector i);
     Some (b\<lparr>chunks := cs\<rparr>) }"

definition bm_reset :: "bitmap \<Rightarrow> nat \<Rightarrow> bitmap option" where
  "bm_reset b i = do {
     th_assert (i < num b);
     w \<leftarrow> arr_get (chunks b) (i div ChunkBits);
     cs \<leftarrow> arr_set (chunks b) (i div ChunkBits) (w AND NOT (bitSelector i));
     Some (b\<lparr>chunks := cs\<rparr>) }"

definition bm_assign :: "bitmap \<Rightarrow> nat \<Rightarrow> bool \<Rightarrow> bitmap option" where
  "bm_assign b i val = do {
     th_assert (i < num b);
     w \<leftarrow> arr_get (chunks b) (i div ChunkBits);
     cs \<leftarrow> arr_set (chunks b) (i div ChunkBits) (w AND NOT (bitSelector i));
     w' \<leftarrow> arr_get cs (i div ChunkBits);
     cs' \<leftarrow> arr_set cs (i div ChunkBits) (w' OR valBitSelector i val);
     Some (b\<lparr>chunks := cs'\<rparr>) }"

definition setRange :: "bitmap \<Rightarrow> nat \<Rightarrow> nat \<Rightarrow> bitmap option" where
  "setRange b mn mx = do {
     th_assert (mn < num b \<and> mx < num b);
     fold_opt (\<lambda>i b. bm_insert b i) [mn..<mx] b }"

definition resetRange :: "bitmap \<Rightarrow> nat \<Rightarrow> nat \<Rightarrow> bitmap option" where
  "resetRange b mn mx = do {
     th_assert (mn < num b \<and> mx < num b);
     fold_opt (\<lambda>i b. bm_reset b i) [mn..<mx] b }"

definition total_set :: "bitmap \<Rightarrow> nat option" where
  "total_set b =
     fold_opt (\<lambda>i r. do { t \<leftarrow> bm_test b i; Some (if t then r + 1 else r) }) [0..<num b] 0"

definition bm_equal :: "bitmap \<Rightarrow> bitmap \<Rightarrow> bool" where
  "bm_equal b other \<longleftrightarrow>
     num b = num other \<and> (\<forall>i \<in> set [0..<nc b]. chunks b ! i = chunks other ! i)"

definition all_zero :: "bitmap \<Rightarrow> bool" where
  "all_zero b \<longleftrightarrow> (\<forall>i \<in> set [0..<nc b]. chunks b ! i = 0)"

section \<open>The iterator\<close>

record bm_iter =
  it_value :: bool
  it_index :: nat
  ignoreValue :: "64 word"

definition Iter_new :: "bool \<Rightarrow> bm_iter" where
  "Iter_new v = \<lparr>it_value = v, it_index = 0, ignoreValue = (if v then 0 else NOT 0)\<rparr>"

text \<open>\<open>Iter_get b it\<close> is \<^verbatim>\<open>Iter::get\<close>: the next index, or none left, with the advanced
  iterator; a whole chunk of ignored bits is skipped in one step.\<close>

function Iter_get :: "bitmap \<Rightarrow> bm_iter \<Rightarrow> (nat option \<times> bm_iter) option" where
  "Iter_get b it =
     (if it_index it < num b then do {
        w \<leftarrow> arr_get (chunks b) (it_index it div ChunkBits);
        if w = ignoreValue it then Iter_get b (it\<lparr>it_index := it_index it + ChunkBits\<rparr>)
        else do {
          this_value \<leftarrow> bm_test b (it_index it);
          if this_value = it_value it
          then Some (Some (it_index it), it\<lparr>it_index := it_index it + 1\<rparr>)
          else Iter_get b (it\<lparr>it_index := it_index it + 1\<rparr>) } }
      else Some (None, it))"
  by pat_completeness auto
termination
  by (relation "measure (\<lambda>(b, it). num b - it_index it)") (auto simp: ChunkBits_def)

declare Iter_get.simps [simp del]

section \<open>Saving to a stream\<close>

text \<open>
  \<^verbatim>\<open>encode\<close> writes \<^verbatim>\<open>num\<close>, \<^verbatim>\<open>nc\<close> and \<^verbatim>\<open>nc\<close> items of \<^verbatim>\<open>sizeof(Uint)\<close> bytes taken from the
  chunk array. The stream is a list of 32-bit items; a little-endian chunk is two of them.
  \<open>new\<close> leaves the chunks of \<^verbatim>\<open>decode\<close> uninitialised: \<open>junk\<close> is what the memory held.
\<close>

definition chunk_items :: "64 word list \<Rightarrow> 32 word list" where
  "chunk_items cs = concat (map (\<lambda>c. [ucast c, ucast (drop_bit 32 c)]) cs)"

definition bm_encode :: "bitmap \<Rightarrow> 32 word list" where
  "bm_encode b = word_of_nat (num b) # word_of_nat (nc b) # take (nc b) (chunk_items (chunks b))"

fun items_chunks :: "32 word list \<Rightarrow> 64 word list" where
  "items_chunks (lo # hi # ws) = (ucast lo OR push_bit 32 (ucast hi)) # items_chunks ws"
| "items_chunks _ = []"

definition bm_decode :: "(nat \<Rightarrow> 64 word list) \<Rightarrow> 32 word list \<Rightarrow> bitmap \<times> bool \<times> 32 word list" where
  "bm_decode junk inp =
     (let n = unat (inp ! 0); c = unat (inp ! 1);
          body = take c (drop 2 inp);
          items = body @ drop (length body) (chunk_items (junk c));
          ok = (length (take 2 inp) + length body = 2 + c \<and> n \<le> c * ChunkBits)
      in (\<lparr>num = n, chunks = items_chunks items, nc = c\<rparr>, ok, drop (2 + c) inp))"

section \<open>Bits of a char array\<close>

definition Bits_set :: "8 word list \<Rightarrow> nat \<Rightarrow> 8 word list option" where
  "Bits_set bmap i = do {
     byte \<leftarrow> arr_get bmap (i div 8);
     arr_set bmap (i div 8) (byte OR push_bit (i mod 8) 1) }"

definition Bits_reset :: "8 word list \<Rightarrow> nat \<Rightarrow> 8 word list option" where
  "Bits_reset bmap i = do {
     byte \<leftarrow> arr_get bmap (i div 8);
     arr_set bmap (i div 8) (byte AND NOT (push_bit (i mod 8) 1)) }"

definition Bits_test :: "8 word list \<Rightarrow> nat \<Rightarrow> bool option" where
  "Bits_test bmap i = do {
     byte \<leftarrow> arr_get bmap (i div 8);
     Some (byte AND push_bit (i mod 8) 1 \<noteq> 0) }"

section \<open>The contract\<close>

text \<open>What a client of a bit vector over \<open>0..<n\<close> relies on.\<close>

locale finite_bits =
  fixes test :: "'b \<Rightarrow> nat \<Rightarrow> bool option"
    and insert_bit :: "'b \<Rightarrow> nat \<Rightarrow> 'b option"
    and reset_bit :: "'b \<Rightarrow> nat \<Rightarrow> 'b option"
    and clear_bits :: "'b \<Rightarrow> 'b"
    and bits :: "'b \<Rightarrow> nat set"
    and bound :: "'b \<Rightarrow> nat"
    and invar :: "'b \<Rightarrow> bool"
  assumes test_bits: "invar b \<Longrightarrow> i < bound b \<Longrightarrow> test b i = Some (i \<in> bits b)"
    and insert_ok: "invar b \<Longrightarrow> i < bound b \<Longrightarrow>
      \<exists>b'. insert_bit b i = Some b' \<and> invar b' \<and> bound b' = bound b \<and> bits b' = insert i (bits b)"
    and reset_ok: "invar b \<Longrightarrow> i < bound b \<Longrightarrow>
      \<exists>b'. reset_bit b i = Some b' \<and> invar b' \<and> bound b' = bound b \<and> bits b' = bits b - {i}"
    and clear_ok: "invar b \<Longrightarrow>
      invar (clear_bits b) \<and> bound (clear_bits b) = bound b \<and> bits (clear_bits b) = {}"
    and bits_bound: "invar b \<Longrightarrow> bits b \<subseteq> {..<bound b}"
begin

lemma finite_bits: "invar b \<Longrightarrow> finite (bits b)"
  by (rule finite_subset [OF bits_bound]) simp_all

lemma card_bits: "invar b \<Longrightarrow> card (bits b) \<le> bound b"
  using card_mono [OF finite_lessThan bits_bound [of b]] by simp

lemma insert_then_test:
  assumes "invar b" "i < bound b" "j < bound b" "insert_bit b i = Some b'"
  shows "test b' j = Some (j = i \<or> j \<in> bits b)"
proof -
  have "invar b'" "bound b' = bound b" "bits b' = insert i (bits b)"
    using insert_ok [OF assms(1,2)] assms(4) by auto
  then show ?thesis using test_bits [of b' j] assms(3) by simp
qed

lemma insert_range:
  assumes "invar b" "set is \<subseteq> {..<bound b}"
  shows "\<exists>b'. fold_opt (\<lambda>i b. insert_bit b i) is b = Some b' \<and> invar b' \<and> bound b' = bound b \<and>
    bits b' = bits b \<union> set is"
  using assms
proof (induction "is" arbitrary: b)
  case Nil
  then show ?case by simp
next
  case (Cons i "is")
  then obtain c where c: "insert_bit b i = Some c" "invar c" "bound c = bound b"
    "bits c = insert i (bits b)" using insert_ok [of b i] by auto
  with Cons have "\<exists>b'. fold_opt (\<lambda>i b. insert_bit b i) is c = Some b' \<and> invar b' \<and>
      bound b' = bound c \<and> bits b' = bits c \<union> set is"
    by (intro Cons.IH) auto
  with c show ?case by auto
qed

lemma reset_range:
  assumes "invar b" "set is \<subseteq> {..<bound b}"
  shows "\<exists>b'. fold_opt (\<lambda>i b. reset_bit b i) is b = Some b' \<and> invar b' \<and> bound b' = bound b \<and>
    bits b' = bits b - set is"
  using assms
proof (induction "is" arbitrary: b)
  case Nil
  then show ?case by simp
next
  case (Cons i "is")
  then obtain c where c: "reset_bit b i = Some c" "invar c" "bound c = bound b"
    "bits c = bits b - {i}" using reset_ok [of b i] by auto
  with Cons have "\<exists>b'. fold_opt (\<lambda>i b. reset_bit b i) is c = Some b' \<and> invar b' \<and>
      bound b' = bound c \<and> bits b' = bits c - set is"
    by (intro Cons.IH) auto
  with c show ?case by auto
qed

end

section \<open>Invariant and abstraction\<close>

definition bm_set :: "bitmap \<Rightarrow> nat set" where
  "bm_set b = {i. i < num b \<and> bit (chunks b ! (i div ChunkBits)) (i mod ChunkBits)}"

text \<open>The chunk array has exactly the chunks \<^verbatim>\<open>num\<close> needs, and the index arithmetic of the
  iterator does not pass 32 bits.\<close>

definition bm_ok :: "bitmap \<Rightarrow> bool" where
  "bm_ok b \<longleftrightarrow> length (chunks b) = nc b \<and> nc b = (num b + ChunkBits - 1) div ChunkBits \<and>
     num b + ChunkBits \<le> 2 ^ 32"

lemma chunk_index: "bm_ok b \<Longrightarrow> i < num b \<Longrightarrow> i div ChunkBits < length (chunks b)"
  by (auto simp: bm_ok_def ChunkBits_def)

lemma bit_bitSelector: "bit (bitSelector i) j \<longleftrightarrow> j = i mod 64"
  by (auto simp: bitSelector_def ChunkBits_def bit_simps)

lemma bit_valBitSelector: "bit (valBitSelector i v) j \<longleftrightarrow> v \<and> j = i mod 64"
  by (auto simp: valBitSelector_def ChunkBits_def bit_simps)

lemma bm_set_update:
  assumes "bm_ok b" "i < num b"
    and "\<And>j. j < 64 \<Longrightarrow> bit w j = (if j = i mod 64 then v else bit (chunks b ! (i div 64)) j)"
  shows "bm_set (b\<lparr>chunks := (chunks b)[i div 64 := w]\<rparr>) =
    (if v then insert i (bm_set b) else bm_set b - {i})"
proof -
  have len: "i div 64 < length (chunks b)" using chunk_index [OF assms(1,2)] by (simp add: ChunkBits_def)
  have eq: "(j div 64 = i div 64 \<and> j mod 64 = i mod 64) = (j = i)" for j
    by (metis div_mult_mod_eq)
  have upd: "j < num b \<Longrightarrow>
      bit ((chunks b)[i div 64 := w] ! (j div 64)) (j mod 64) =
      (if j = i then v else bit (chunks b ! (j div 64)) (j mod 64))" for j
    using len eq [of j] assms(3) [of "j mod 64"] by (auto simp: nth_list_update)
  show ?thesis
    using upd assms(2) by (auto simp: bm_set_def ChunkBits_def split: if_splits)
qed

lemma bm_test_set:
  assumes "bm_ok b" "i < num b"
  shows "bm_test b i = Some (i \<in> bm_set b)"
  using chunk_index [OF assms] assms(2) bit_iff_and_push_bit_not_eq_0
    [of "chunks b ! (i div 64)" "i mod 64"]
  by (simp add: bm_test_def arr_get_def bm_set_def bitSelector_def ChunkBits_def)

lemma bm_ok_chunks: "bm_ok b \<Longrightarrow> length cs = length (chunks b) \<Longrightarrow> bm_ok (b\<lparr>chunks := cs\<rparr>)"
  by (simp add: bm_ok_def)

lemma bm_insert_ok:
  assumes "bm_ok b" "i < num b"
  shows "\<exists>b'. bm_insert b i = Some b' \<and> bm_ok b' \<and> num b' = num b \<and> bm_set b' = insert i (bm_set b)"
proof -
  let ?w = "chunks b ! (i div 64) OR bitSelector i"
  have "bm_set (b\<lparr>chunks := (chunks b)[i div 64 := ?w]\<rparr>) = insert i (bm_set b)"
    using bm_set_update [OF assms, of ?w True] by (simp add: bit_or_iff bit_bitSelector)
  moreover have "bm_insert b i = Some (b\<lparr>chunks := (chunks b)[i div 64 := ?w]\<rparr>)"
    using chunk_index [OF assms] assms(2)
    by (simp add: bm_insert_def arr_get_def arr_set_def ChunkBits_def)
  ultimately show ?thesis using bm_ok_chunks [OF assms(1)] by simp
qed

lemma bm_reset_ok:
  assumes "bm_ok b" "i < num b"
  shows "\<exists>b'. bm_reset b i = Some b' \<and> bm_ok b' \<and> num b' = num b \<and> bm_set b' = bm_set b - {i}"
proof -
  let ?w = "chunks b ! (i div 64) AND NOT (bitSelector i)"
  have "bm_set (b\<lparr>chunks := (chunks b)[i div 64 := ?w]\<rparr>) = bm_set b - {i}"
    using bm_set_update [OF assms, of ?w False]
    by (simp add: bit_and_iff bit_not_iff bit_bitSelector)
  moreover have "bm_reset b i = Some (b\<lparr>chunks := (chunks b)[i div 64 := ?w]\<rparr>)"
    using chunk_index [OF assms] assms(2)
    by (simp add: bm_reset_def arr_get_def arr_set_def ChunkBits_def)
  ultimately show ?thesis using bm_ok_chunks [OF assms(1)] by simp
qed

lemma bm_assign_ok:
  assumes "bm_ok b" "i < num b"
  shows "\<exists>b'. bm_assign b i v = Some b' \<and> bm_ok b' \<and> num b' = num b \<and>
    bm_set b' = (if v then insert i (bm_set b) else bm_set b - {i})"
proof -
  let ?w = "(chunks b ! (i div 64) AND NOT (bitSelector i)) OR valBitSelector i v"
  have "bm_set (b\<lparr>chunks := (chunks b)[i div 64 := ?w]\<rparr>) =
      (if v then insert i (bm_set b) else bm_set b - {i})"
    by (rule bm_set_update [OF assms])
      (auto simp: bit_or_iff bit_and_iff bit_not_iff bit_bitSelector bit_valBitSelector)
  moreover have "bm_assign b i v = Some (b\<lparr>chunks := (chunks b)[i div 64 := ?w]\<rparr>)"
    using chunk_index [OF assms] assms(2)
    by (simp add: bm_assign_def arr_get_def arr_set_def ChunkBits_def)
  ultimately show ?thesis using bm_ok_chunks [OF assms(1)] by simp
qed

lemma bm_clear_ok: "bm_ok b \<Longrightarrow> bm_ok (bm_clear b) \<and> num (bm_clear b) = num b \<and> bm_set (bm_clear b) = {}"
  using chunk_index by (fastforce simp: bm_ok_def bm_clear_def bm_set_def ChunkBits_def)

lemma setAll_ok: "bm_ok b \<Longrightarrow> bm_ok (setAll b) \<and> num (setAll b) = num b \<and> bm_set (setAll b) = {..<num b}"
  using chunk_index by (fastforce simp: bm_ok_def setAll_def bm_set_def ChunkBits_def)

lemma Bitmap_new_ok:
  assumes "sz + ChunkBits \<le> 2 ^ 32"
  shows "bm_ok (Bitmap_new sz v) \<and> num (Bitmap_new sz v) = sz \<and>
    bm_set (Bitmap_new sz v) = (if v then {..<sz} else {})"
proof -
  have "i < sz \<Longrightarrow> i div 64 < (sz + 64 - 1) div 64" for i by auto
  then show ?thesis
    using assms by (auto simp: bm_ok_def Bitmap_new_def Let_def bm_set_def ChunkBits_def)
qed

interpretation bm: finite_bits bm_test bm_insert bm_reset bm_clear bm_set num bm_ok
proof unfold_locales
  show "bm_set b \<subseteq> {..<num b}" for b by (auto simp: bm_set_def)
qed (simp_all add: bm_test_set bm_insert_ok bm_reset_ok bm_clear_ok)

section \<open>Derived operations\<close>

lemma total_set_loop:
  assumes "bm_ok b" "set is \<subseteq> {..<num b}" "distinct is"
  shows "fold_opt (\<lambda>i r. do { t \<leftarrow> bm_test b i; Some (if t then r + 1 else r) }) is r =
    Some (r + card (bm_set b \<inter> set is))"
  using assms(2,3)
proof (induction "is" arbitrary: r)
  case Nil
  then show ?case by simp
next
  case (Cons i "is")
  have "bm_set b \<inter> set (i # is) =
      (if i \<in> bm_set b then insert i (bm_set b \<inter> set is) else bm_set b \<inter> set is)" by auto
  with Cons bm_test_set [OF assms(1), of i] show ?case by simp
qed

text \<open>\<open>total_set\<close> counts the members.\<close>

lemma total_set_card: "bm_ok b \<Longrightarrow> total_set b = Some (card (bm_set b))"
proof -
  assume ok: "bm_ok b"
  then have "bm_set b \<inter> set [0..<num b] = bm_set b" using bm.bits_bound [of b] by auto
  then show ?thesis using total_set_loop [OF ok, of "[0..<num b]" 0]
    by (simp add: total_set_def lessThan_atLeast0)
qed

text \<open>\<open>all_zero\<close> is emptiness, provided no bit is set past \<^verbatim>\<open>num\<close> (\<^verbatim>\<open>setAll\<close> and the
  constructor with \<open>True\<close> set such bits; nothing else does).\<close>

definition bm_tight :: "bitmap \<Rightarrow> bool" where
  "bm_tight b \<longleftrightarrow> (\<forall>i j. i < nc b \<longrightarrow> bit (chunks b ! i) j \<longrightarrow> i * 64 + j < num b)"

lemma all_zero_iff:
  assumes "bm_ok b" "bm_tight b"
  shows "all_zero b \<longleftrightarrow> bm_set b = {}"
proof
  assume "all_zero b"
  with chunk_index [OF assms(1)] assms(1) show "bm_set b = {}"
    by (fastforce simp: all_zero_def bm_set_def bm_ok_def)
next
  assume empty: "bm_set b = {}"
  have "\<not> bit (chunks b ! i) j" if "i < nc b" for i j
  proof
    assume *: "bit (chunks b ! i) j"
    then have "j < 64" using bit_imp_le_length by fastforce
    with * that assms(2) have "i * 64 + j \<in> bm_set b"
      by (auto simp: bm_set_def bm_tight_def ChunkBits_def)
    with empty show False by simp
  qed
  then show "all_zero b" by (auto simp: all_zero_def intro: bit_eqI)
qed

section \<open>What the iterator yields\<close>

text \<open>The indices an iterator still has to yield: those with the wanted value from its position
  on. A chunk can equal the ignored value only when the position is at its start, because the
  earlier positions of a chunk were left one by one.\<close>

definition wanted :: "bitmap \<Rightarrow> bool \<Rightarrow> nat set" where
  "wanted b v = (if v then bm_set b else {..<num b} - bm_set b)"

definition it_ok :: "bm_iter \<Rightarrow> bool" where
  "it_ok it \<longleftrightarrow> ignoreValue it = (if it_value it then 0 else NOT 0)"

lemma ignored_chunk:
  assumes "bm_ok b" "it_ok it" "chunks b ! (i div 64) = ignoreValue it" "j div 64 = i div 64"
  shows "j \<notin> wanted b (it_value it)"
proof -
  have "j mod 64 < 64" by simp
  with assms show ?thesis
    by (auto simp: wanted_def bm_set_def it_ok_def ChunkBits_def bit_not_iff split: if_splits)
qed

lemma same_chunk:
  assumes "(i::nat) mod 64 = 0" "i \<le> j" "j < i + 64"
  shows "j div 64 = i div 64"
proof -
  obtain q where q: "i = 64 * q" using assms(1) by auto
  obtain k where k: "j = i + k" using assms(2) le_Suc_ex by blast
  then have "k < 64" using assms(3) by simp
  then show ?thesis by (simp add: q k)
qed

lemma next_position:
  assumes "chunks b ! (i div 64) \<noteq> w"
  shows "(i + 1) mod 64 = 0 \<or> chunks b ! ((i + 1) div 64) \<noteq> w"
proof (cases "(i + 1) mod 64 = 0")
  case False
  then have "(i + 1) div 64 = i div 64" by (simp add: div_Suc)
  with assms show ?thesis by simp
qed simp

text \<open>What one call promises: the least wanted index from the position on, and a position from
  which the next call may start.\<close>

definition at_start :: "bitmap \<Rightarrow> bm_iter \<Rightarrow> bool" where
  "at_start b it \<longleftrightarrow>
     it_index it mod 64 = 0 \<or> chunks b ! (it_index it div 64) \<noteq> ignoreValue it"

fun iter_post :: "bitmap \<Rightarrow> bm_iter \<Rightarrow> (nat option \<times> bm_iter) option \<Rightarrow> bool" where
  "iter_post b it None = False"
| "iter_post b it (Some (None, it')) \<longleftrightarrow> wanted b (it_value it) \<inter> {it_index it..} = {}"
| "iter_post b it (Some (Some i, it')) \<longleftrightarrow>
     i \<in> wanted b (it_value it) \<and> wanted b (it_value it) \<inter> {it_index it..<i} = {} \<and>
     it_index it \<le> i \<and> it' = it\<lparr>it_index := i + 1\<rparr> \<and> at_start b it'"

lemma iter_post_skip:
  assumes "iter_post b (it\<lparr>it_index := k\<rparr>) r" "it_index it \<le> k"
    and "wanted b (it_value it) \<inter> {it_index it..<k} = {}"
  shows "iter_post b it r"
proof (cases "(b, it, r)" rule: iter_post.cases)
  case (2 b' it0 it')
  with assms have "wanted b (it_value it) \<inter> {k..} = {}" by simp
  moreover have "{it_index it..} = {it_index it..<k} \<union> {k..}" using assms(2) by auto
  ultimately show ?thesis using assms(3) 2 by (simp add: Int_Un_distrib)
next
  case (3 b' it0 i it')
  with assms have k: "wanted b (it_value it) \<inter> {k..<i} = {}" "k \<le> i" by simp_all
  moreover have "{it_index it..<i} = {it_index it..<k} \<union> {k..<i}" using assms(2) k(2) by auto
  ultimately show ?thesis using assms 3 by (auto simp: Int_Un_distrib)
qed (use assms in simp)

lemma Iter_get_spec:
  assumes "bm_ok b" "it_ok it" "at_start b it"
  shows "iter_post b it (Iter_get b it)"
  using assms
proof (induction b it rule: Iter_get.induct)
  case (1 b it)
  note ok = 1(3,4,5)
  let ?i = "it_index it"
  note unfold = Iter_get.simps [of b it]
  show ?case
  proof (cases "?i < num b")
    case False
    then have "wanted b (it_value it) \<inter> {?i..} = {}"
      by (auto simp: wanted_def bm_set_def)
    with False show ?thesis by (simp add: unfold)
  next
    case True
    have w: "arr_get (chunks b) (?i div ChunkBits) = Some (chunks b ! (?i div 64))"
      using chunk_index [OF ok(1) True] by (simp add: arr_get_def ChunkBits_def)
    have t: "bm_test b ?i = Some (?i \<in> bm_set b)" by (rule bm_test_set [OF ok(1) True])
    have wi: "?i \<in> wanted b (it_value it) \<longleftrightarrow> (?i \<in> bm_set b) = it_value it"
      using True by (auto simp: wanted_def)
    show ?thesis
    proof (cases "chunks b ! (?i div 64) = ignoreValue it")
      case skip: True
      with ok(3) have al: "?i mod 64 = 0" by (simp add: at_start_def)
      let ?it = "it\<lparr>it_index := ?i + 64\<rparr>"
      have none: "wanted b (it_value it) \<inter> {?i..<?i + 64} = {}"
        using ignored_chunk [OF ok(1,2) skip same_chunk [OF al]] by auto
      have eq: "Iter_get b it = Iter_get b ?it"
        using True skip w unfolding unfold by (simp add: ChunkBits_def)
      have pre: "it_ok ?it" "at_start b ?it" using ok(2) al by (simp_all add: it_ok_def at_start_def)
      have "iter_post b ?it (Iter_get b ?it)"
        using 1(1) [OF True w skip, unfolded ChunkBits_def, OF ok(1) pre] .
      then show ?thesis unfolding eq by (rule iter_post_skip) (use none in simp_all)
    next
      case noskip: False
      have nx: "at_start b (it\<lparr>it_index := ?i + 1\<rparr>)"
        using next_position [OF noskip] by (simp add: at_start_def)
      show ?thesis
      proof (cases "(?i \<in> bm_set b) = it_value it")
        case hit: True
        then show ?thesis using True noskip wi nx by (simp add: unfold w t)
      next
        case miss: False
        let ?it = "it\<lparr>it_index := ?i + 1\<rparr>"
        have eq: "Iter_get b it = Iter_get b ?it"
          using True noskip miss by (simp add: unfold w t)
        have none: "wanted b (it_value it) \<inter> {?i..<?i + 1} = {}"
          using wi miss by auto
        have pre: "it_ok ?it" using ok(2) by (simp add: it_ok_def)
        have "iter_post b ?it (Iter_get b ?it)"
          using 1(2) [OF True w noskip t miss ok(1) pre nx] .
        then show ?thesis unfolding eq by (rule iter_post_skip) (use none in simp_all)
      qed
    qed
  qed
qed

text \<open>The loop \<^verbatim>\<open>while (iter.get(i))\<close> of the clients, with the number of calls bounded by
  \<open>fuel\<close>; \<open>num b + 1\<close> calls always reach the end.\<close>

fun Iter_all :: "nat \<Rightarrow> bitmap \<Rightarrow> bm_iter \<Rightarrow> nat list option" where
  "Iter_all 0 b it = None"
| "Iter_all (Suc fuel) b it =
     (case Iter_get b it of
        None \<Rightarrow> None
      | Some (None, it') \<Rightarrow> Some []
      | Some (Some i, it') \<Rightarrow> map_option ((#) i) (Iter_all fuel b it'))"

lemma finite_wanted [simp]: "finite (wanted b v)"
  by (rule finite_subset [of _ "{..<num b}"]) (auto simp: wanted_def bm_set_def)

lemma sorted_list_of_set_Cons:
  assumes "finite A" "\<And>x. x \<in> A \<Longrightarrow> i < x"
  shows "sorted_list_of_set (insert i A) = i # sorted_list_of_set A"
proof -
  have "sorted_list_of_set (set (i # sorted_list_of_set A)) = i # sorted_list_of_set A"
    by (rule sorted_list_of_set.idem_if_sorted_distinct) (use assms in \<open>auto simp: less_imp_le\<close>)
  then show ?thesis using assms(1) by simp
qed

lemma Iter_all_from:
  assumes "bm_ok b" "it_ok it" "at_start b it"
    and "card (wanted b (it_value it) \<inter> {it_index it..}) < fuel"
  shows "Iter_all fuel b it = Some (sorted_list_of_set (wanted b (it_value it) \<inter> {it_index it..}))"
  using assms
proof (induction fuel arbitrary: it)
  case 0
  then show ?case by simp
next
  case (Suc fuel)
  let ?W = "wanted b (it_value it)"
  have post: "iter_post b it (Iter_get b it)" using Iter_get_spec Suc.prems by blast
  show ?case
  proof (cases "(b, it, Iter_get b it)" rule: iter_post.cases)
    case (2 b' it0 it')
    with post show ?thesis by auto
  next
    case (3 b' it0 i it')
    then have g: "Iter_get b it = Some (Some i, it')" by auto
    from post [unfolded g iter_post.simps] have i: "i \<in> ?W" "?W \<inter> {it_index it..<i} = {}" "it_index it \<le> i"
      "it' = it\<lparr>it_index := i + 1\<rparr>" "at_start b it'" by blast+
    have W: "?W \<inter> {it_index it..} = insert i (?W \<inter> {i + 1..})"
    proof -
      have "{it_index it..} = {it_index it..<i} \<union> insert i {i + 1..}" using i(3) by auto
      then show ?thesis using i(1,2) by (auto simp: Int_Un_distrib)
    qed
    have "card (?W \<inter> {i + 1..}) < fuel" using Suc.prems(4) by (simp add: W)
    then have "Iter_all fuel b it' = Some (sorted_list_of_set (?W \<inter> {i + 1..}))"
      using Suc.IH [of it'] Suc.prems i by (simp add: it_ok_def)
    moreover have "sorted_list_of_set (?W \<inter> {it_index it..}) =
        i # sorted_list_of_set (?W \<inter> {i + 1..})"
      unfolding W by (rule sorted_list_of_set_Cons) auto
    ultimately show ?thesis by (simp add: g)
  qed (use post in simp)
qed

lemma Iter_all_sorted:
  assumes "bm_ok b"
  shows "Iter_all (num b + 1) b (Iter_new v) = Some (sorted_list_of_set (wanted b v))"
proof -
  have "card (wanted b v) \<le> card {..<num b}"
    by (rule card_mono) (auto simp: wanted_def bm_set_def)
  then show ?thesis
    using Iter_all_from [OF assms, of "Iter_new v" "num b + 1"]
    by (simp add: Iter_new_def it_ok_def at_start_def)
qed

end
