(* ===== verification/Seq_Log.thy ===== *)
theory Seq_Log
  imports Prelude
begin

text \<open>
  The circular log \<^verbatim>\<open>Log<T>\<close> of \<^verbatim>\<open>Log.h\<close> and \<^verbatim>\<open>Log.t\<close>, in which a replica keeps one
  certificate per sequence number of its window. The locale \<open>seq_window\<close> is the contract of a log
  with a moving window; it is interpreted on \<^verbatim>\<open>Log\<close> here and on \<^verbatim>\<open>CheckpointLog\<close> in its own
  theory. The element type and its \<^verbatim>\<open>clear()\<close> are parameters, as in the C++ template.
\<close>

section \<open>The contract of a windowed log\<close>

text \<open>
  \<open>lookup l n\<close> is the entry of sequence number \<open>n\<close>, absent outside the window \<open>lo l ..< lo l + size l\<close>
  and for numbers that are not keys. Moving the window up to \<open>h\<close> keeps the entries that stay
  inside and every entry that newly enters the window is blank. \<open>lim\<close> bounds the sequence numbers
  for which the promise is made.
\<close>

locale seq_window =
  fixes lookup :: "'l \<Rightarrow> int \<Rightarrow> 'a option"
    and put :: "'l \<Rightarrow> int \<Rightarrow> 'a \<Rightarrow> 'l option"
    and trunc :: "'l \<Rightarrow> int \<Rightarrow> 'l option"
    and lo :: "'l \<Rightarrow> int"
    and size :: "'l \<Rightarrow> int"
    and key :: "int \<Rightarrow> bool"
    and invar :: "'l \<Rightarrow> bool"
    and blank :: "'a \<Rightarrow> bool"
    and lim :: int
  assumes lookup_iff: "invar l \<Longrightarrow>
      lookup l n \<noteq> None \<longleftrightarrow> key n \<and> lo l \<le> n \<and> n < lo l + size l"
    and put_ok: "invar l \<Longrightarrow> lookup l n \<noteq> None \<Longrightarrow>
      \<exists>l'. put l n x = Some l' \<and> invar l' \<and> lo l' = lo l \<and> size l' = size l \<and>
        lookup l' = (lookup l)(n \<mapsto> x)"
    and trunc_ok: "invar l \<Longrightarrow> key h \<Longrightarrow> lo l \<le> h \<Longrightarrow> h \<le> lim \<Longrightarrow>
      \<exists>l'. trunc l h = Some l' \<and> invar l' \<and> lo l' = h \<and> size l' = size l \<and>
        (\<forall>n. h \<le> n \<and> n < lo l + size l \<longrightarrow> lookup l' n = lookup l n) \<and>
        (\<forall>n x. lo l + size l \<le> n \<and> lookup l' n = Some x \<longrightarrow> blank x)"
begin

lemma put_then_lookup:
  assumes "invar l" "lookup l n \<noteq> None" "put l n x = Some l'"
  shows "lookup l' m = (if m = n then Some x else lookup l m)"
  using put_ok [OF assms(1,2), of x] assms(3) by auto

text \<open>An entry written before the window moves is still there afterwards, unless its number was
  dropped.\<close>

lemma put_trunc_lookup:
  assumes "invar l" "lookup l n \<noteq> None" "put l n x = Some l'" "trunc l' h = Some l''"
    and "key h" "lo l \<le> h" "h \<le> n" "h \<le> lim"
  shows "lookup l'' n = Some x"
proof -
  have p: "invar l'" "lo l' = lo l" "size l' = size l" "lookup l' = (lookup l)(n \<mapsto> x)"
    using put_ok [OF assms(1,2), of x] assms(3) by auto
  have "n < lo l + size l" using lookup_iff assms(1,2) by blast
  moreover have "\<forall>m. h \<le> m \<and> m < lo l' + size l' \<longrightarrow> lookup l'' m = lookup l' m"
    using trunc_ok [OF p(1) assms(5) _ assms(8)] assms(4,6) p(2) by auto
  ultimately show ?thesis using p assms(7) by auto
qed

text \<open>After two moves every entry of the window was either there before the first or is blank.\<close>

lemma trunc_trunc_old_or_blank:
  assumes "invar l" "trunc l h = Some l'" "trunc l' k = Some l''"
    and "key h" "key k" "lo l \<le> h" "h \<le> k" "k \<le> lim" and "lookup l'' n = Some x"
  shows "lookup l n = Some x \<or> blank x"
proof -
  have t1: "invar l'" "lo l' = h" "size l' = size l"
    "\<And>m. h \<le> m \<Longrightarrow> m < lo l + size l \<Longrightarrow> lookup l' m = lookup l m"
    "\<And>m y. lo l + size l \<le> m \<Longrightarrow> lookup l' m = Some y \<Longrightarrow> blank y"
    using trunc_ok [OF assms(1,4,6)] assms(2,7,8) by auto
  have t2: "invar l''" "lo l'' = k" "size l'' = size l'"
    "\<And>m. k \<le> m \<Longrightarrow> m < lo l' + size l' \<Longrightarrow> lookup l'' m = lookup l' m"
    "\<And>m y. lo l' + size l' \<le> m \<Longrightarrow> lookup l'' m = Some y \<Longrightarrow> blank y"
    using trunc_ok [OF t1(1) assms(5) _ assms(8)] assms(3,7) t1(2) by auto
  have "k \<le> n" using lookup_iff [OF t2(1), of n] assms(9) t2(2) by auto
  then show ?thesis
    using t1 t2 assms(7,9) by (metis le_less_linear order_trans)
qed

end

section \<open>The class\<close>

record 'a log =
  head :: seqno
  max_size :: int
  elems :: "'a list"
  mask :: seqno

definition Log_new :: "'a \<Rightarrow> int \<Rightarrow> seqno \<Rightarrow> 'a log" where
  "Log_new fresh sz h = \<lparr>head = h, max_size = sz, elems = replicate (nat sz) fresh, mask = sz - 1\<rparr>"

definition log_mod :: "'a log \<Rightarrow> seqno \<Rightarrow> nat" where
  "log_mod l s = nat (s AND mask l)"

definition log_within_range :: "'a log \<Rightarrow> seqno \<Rightarrow> bool" where
  "log_within_range l n \<longleftrightarrow> n \<ge> head l \<and> n < head l + max_size l"

definition head_seqno :: "'a log \<Rightarrow> seqno" where
  "head_seqno l = head l"

definition log_max_seqno :: "'a log \<Rightarrow> seqno" where
  "log_max_seqno l = head l + max_size l - 1"

text \<open>\<^verbatim>\<open>fetch\<close> returns a reference: \<open>log_fetch\<close> reads through it and \<open>log_put\<close> writes through it.\<close>

definition log_fetch :: "'a log \<Rightarrow> seqno \<Rightarrow> 'a option" where
  "log_fetch l n = do {
     th_assert (log_within_range l n);
     arr_get (elems l) (log_mod l n) }"

definition log_put :: "'a log \<Rightarrow> seqno \<Rightarrow> 'a \<Rightarrow> 'a log option" where
  "log_put l n x = do {
     th_assert (log_within_range l n);
     es \<leftarrow> arr_set (elems l) (log_mod l n) x;
     Some (l\<lparr>elems := es\<rparr>) }"

definition log_clear :: "('a \<Rightarrow> 'a) \<Rightarrow> 'a log \<Rightarrow> seqno \<Rightarrow> 'a log" where
  "log_clear clr l h = l\<lparr>elems := map (\<lambda>i. clr (elems l ! i)) [0..<nat (max_size l)], head := h\<rparr>"

text \<open>The loop counter and its limit are \<^verbatim>\<open>int\<close>: both sequence numbers lose their high bits.\<close>

fun clear_from :: "('a \<Rightarrow> 'a) \<Rightarrow> 'a log \<Rightarrow> int list \<Rightarrow> 'a log" where
  "clear_from clr l [] = l"
| "clear_from clr l (i # is) =
     clear_from clr (l\<lparr>elems := (elems l)[log_mod l i := clr (elems l ! log_mod l i)]\<rparr>) is"

definition log_truncate :: "('a \<Rightarrow> 'a) \<Rightarrow> 'a log \<Rightarrow> seqno \<Rightarrow> 'a log" where
  "log_truncate clr l new_head =
     (if new_head \<le> head l then l
      else let jump = new_head - head l \<ge> max_size l;
               i = (if jump then 0 else to_int32 (head l));
               mx = (if jump then to_int32 (max_size l) else to_int32 new_head)
           in (clear_from clr l [i..mx - 1])\<lparr>head := new_head\<rparr>)"

section \<open>Invariant\<close>

definition log_ok :: "'a log \<Rightarrow> bool" where
  "log_ok l \<longleftrightarrow> (\<exists>k < 31. max_size l = 2 ^ k) \<and> length (elems l) = nat (max_size l) \<and>
     mask l = max_size l - 1"

lemma Log_new_ok: "k < 31 \<Longrightarrow> log_ok (Log_new fresh (2 ^ k) h)"
  by (auto simp: log_ok_def Log_new_def)

lemma log_ok_pos: "log_ok l \<Longrightarrow> 0 < max_size l \<and> max_size l < 2147483648"
proof -
  assume "log_ok l"
  then obtain k where k: "k < 31" "max_size l = 2 ^ k" by (auto simp: log_ok_def)
  then have "(2::int) ^ k < 2 ^ 31" by (intro power_strict_increasing) auto
  then show ?thesis using k by simp
qed

text \<open>The mask is the remainder modulo the size, so the window maps one to one to the slots.\<close>

lemma log_mod_eq: "log_ok l \<Longrightarrow> log_mod l n = nat (n mod max_size l)"
  using and_mask_mod [of n] by (auto simp: log_ok_def log_mod_def)

lemma log_mod_less: "log_ok l \<Longrightarrow> log_mod l n < length (elems l)"
  using log_ok_pos [of l] by (simp add: log_mod_eq log_ok_def)

lemma log_mod_inj:
  assumes "log_ok l" "log_within_range l n" "log_within_range l m" "log_mod l n = log_mod l m"
  shows "n = m"
proof -
  have "n mod max_size l = m mod max_size l"
    using assms(4) log_ok_pos [OF assms(1)] by (simp add: log_mod_eq [OF assms(1)] nat_eq_iff)
  then show ?thesis
    using mod_inj_window [of "head l" n "max_size l" m] assms(2,3)
    by (auto simp: log_within_range_def)
qed

lemma log_ok_elems: "log_ok l \<Longrightarrow> length es = length (elems l) \<Longrightarrow> log_ok (l\<lparr>elems := es\<rparr>)"
  by (simp add: log_ok_def)

lemma log_ok_head: "log_ok l \<Longrightarrow> log_ok (l\<lparr>head := h\<rparr>)"
  by (simp add: log_ok_def)

lemma log_mod_update [simp]: "log_mod (l\<lparr>elems := es\<rparr>) = log_mod l" "log_mod (l\<lparr>head := h\<rparr>) = log_mod l"
  by (simp_all add: log_mod_def fun_eq_iff)

lemma log_fetch_iff: "log_ok l \<Longrightarrow> log_fetch l n \<noteq> None \<longleftrightarrow> log_within_range l n"
  using log_mod_less [of l n] by (simp add: log_fetch_def arr_get_def)

lemma log_put_ok:
  assumes "log_ok l" "log_within_range l n"
  shows "\<exists>l'. log_put l n x = Some l' \<and> log_ok l' \<and> head l' = head l \<and> max_size l' = max_size l \<and>
    log_fetch l' = (log_fetch l)(n \<mapsto> x)"
proof -
  let ?l = "l\<lparr>elems := (elems l)[log_mod l n := x]\<rparr>"
  have "log_put l n x = Some ?l"
    using assms log_mod_less by (simp add: log_put_def arr_set_def)
  moreover have "log_fetch ?l m = ((log_fetch l)(n \<mapsto> x)) m" for m
    using assms log_mod_inj [OF assms(1,2), of m] log_mod_less [OF assms(1)]
    by (auto simp: log_fetch_def arr_get_def log_within_range_def nth_list_update)
  ultimately show ?thesis using log_ok_elems [OF assms(1)] by auto
qed

section \<open>Truncation\<close>

lemma clear_from_frame [simp]:
  "head (clear_from clr l is) = head l" "max_size (clear_from clr l is) = max_size l"
  "length (elems (clear_from clr l is)) = length (elems l)" "mask (clear_from clr l is) = mask l"
  by (induction clr l "is" rule: clear_from.induct) simp_all

lemma log_ok_clear_from: "log_ok l \<Longrightarrow> log_ok (clear_from clr l is)"
  by (simp add: log_ok_def)

lemma clear_from_keep:
  "j \<notin> log_mod l ` set is \<Longrightarrow> elems (clear_from clr l is) ! j = elems l ! j"
  by (induction clr l "is" rule: clear_from.induct) auto

lemma clear_from_hit:
  assumes "j \<in> log_mod l ` set is" "j < length (elems l)"
  shows "\<exists>y. elems (clear_from clr l is) ! j = clr y"
  using assms
proof (induction clr l "is" rule: clear_from.induct)
  case (2 clr l i "is")
  show ?case
  proof (cases "j \<in> log_mod l ` set is")
    case True
    with 2 show ?thesis by simp
  next
    case False
    with 2(2,3) have "log_mod l i = j" by auto
    with False 2(3) show ?thesis by (auto simp: clear_from_keep)
  qed
qed simp

text \<open>Clearing the counters \<open>a..b-1\<close> clears exactly the slots of a range of sequence numbers that
  differs from it by a multiple of \<open>2 ^ 32\<close>.\<close>

lemma log_mod_cong:
  assumes "log_ok l" "i mod 4294967296 = n mod 4294967296"
  shows "log_mod l i = log_mod l n"
proof -
  obtain k where k: "k < 31" "max_size l = 2 ^ k" using assms(1) by (auto simp: log_ok_def)
  have "(2::int) ^ k dvd 2 ^ 32" using k(1) by (intro le_imp_power_dvd) simp
  then have d: "(2::int) ^ k dvd 4294967296" by simp
  have "i mod 2 ^ k = i mod 4294967296 mod 2 ^ k" "n mod 2 ^ k = n mod 4294967296 mod 2 ^ k"
    by (simp_all add: mod_mod_cancel [OF d])
  with assms(2) have "i mod 2 ^ k = n mod 2 ^ k" by simp
  then show ?thesis by (simp add: log_mod_eq [OF assms(1)] k(2))
qed

definition same_lap :: "seqno \<Rightarrow> seqno \<Rightarrow> bool" where
  "same_lap a b \<longleftrightarrow> to_int32 b - to_int32 a = b - a"

lemma same_lap_small: "0 \<le> a \<Longrightarrow> a \<le> b \<Longrightarrow> b < 2147483648 \<Longrightarrow> same_lap a b"
  by (simp add: same_lap_def to_int32_id)

lemma to_int32_shift: "(to_int32 a + d) mod 4294967296 = (a + d) mod 4294967296"
  using to_int32_cong [of a] by (metis mod_add_left_eq)

lemma counter_slots:
  assumes "log_ok l" "same_lap a b"
  shows "log_mod l ` set [to_int32 a..to_int32 b - 1] = log_mod l ` {a..<b}"
proof -
  have c: "log_mod l (to_int32 a + d) = log_mod l (a + d)" for d
    by (rule log_mod_cong [OF assms(1) to_int32_shift])
  have b: "to_int32 b = to_int32 a + (b - a)" using assms(2) by (simp add: same_lap_def)
  have s1: "set [to_int32 a..to_int32 b - 1] = (\<lambda>d. to_int32 a + d) ` {0..<b - a}"
    by (auto simp: b image_iff intro!: bexI [where x = "x - to_int32 a" for x])
  have s2: "{a..<b} = (\<lambda>d. a + d) ` {0..<b - a}"
    by (auto simp: image_iff intro!: bexI [where x = "x - a" for x])
  show ?thesis unfolding s1 s2 image_image c ..
qed

lemma all_slots:
  assumes "log_ok l"
  shows "log_mod l ` set [0..to_int32 (max_size l) - 1] = {..<length (elems l)}"
proof -
  have m: "0 < max_size l" "to_int32 (max_size l) = max_size l"
    using log_ok_pos [OF assms] by (simp_all add: to_int32_id)
  have len: "length (elems l) = nat (max_size l)" using assms by (simp add: log_ok_def)
  have id: "log_mod l (int j) = j" if "j < nat (max_size l)" for j
    using that m(1) by (simp add: log_mod_eq [OF assms])
  show ?thesis
  proof
    show "log_mod l ` set [0..to_int32 (max_size l) - 1] \<subseteq> {..<length (elems l)}"
      using log_mod_less [OF assms] by auto
    show "{..<length (elems l)} \<subseteq> log_mod l ` set [0..to_int32 (max_size l) - 1]"
    proof
      fix j assume "j \<in> {..<length (elems l)}"
      then have "j < nat (max_size l)" by (simp add: len)
      then show "j \<in> log_mod l ` set [0..to_int32 (max_size l) - 1]"
        using id [of j] m by (intro image_eqI [of _ _ "int j"]) auto
    qed
  qed
qed

lemma log_truncate_keeps:
  assumes "log_ok l" "same_lap (head l) h" "h \<le> n" "log_within_range l n" "head l \<le> h"
  shows "elems (log_truncate clr l h) ! log_mod l n = elems l ! log_mod l n"
proof (cases "h = head l")
  case True
  then show ?thesis by (simp add: log_truncate_def)
next
  case False
  then have nj: "\<not> h - head l \<ge> max_size l" "head l < h"
    using assms(3-5) by (auto simp: log_within_range_def)
  have "log_mod l n \<notin> log_mod l ` {head l..<h}"
  proof
    assume "log_mod l n \<in> log_mod l ` {head l..<h}"
    then obtain m where m: "log_mod l n = log_mod l m" "head l \<le> m" "m < h" by auto
    then have "log_within_range l m" using assms(3,4) by (auto simp: log_within_range_def)
    with m assms log_mod_inj have "n = m" by blast
    with m assms(3) show False by simp
  qed
  then show ?thesis
    using nj clear_from_keep [of "log_mod l n" l "[to_int32 (head l)..to_int32 h - 1]" clr]
      counter_slots [OF assms(1,2)]
    by (simp add: log_truncate_def Let_def)
qed

lemma log_truncate_clears:
  assumes "log_ok l" "same_lap (head l) h \<or> head l + max_size l \<le> h"
    and "head l + max_size l \<le> n" "n < h + max_size l" "head l < h"
  shows "\<exists>y. elems (log_truncate clr l h) ! log_mod l n = clr y"
proof (cases "h - head l \<ge> max_size l")
  case True
  then show ?thesis
    using assms(5) clear_from_hit [of "log_mod l n" l] all_slots [OF assms(1)]
      log_mod_less [OF assms(1)]
    by (simp add: log_truncate_def Let_def)
next
  case False
  then have lap: "same_lap (head l) h" using assms(2) by auto
  have "log_mod l n = log_mod l (n - max_size l)" using log_mod_eq [OF assms(1)] by simp
  moreover have "n - max_size l \<in> {head l..<h}" using assms(3,4) by auto
  ultimately have "log_mod l n \<in> log_mod l ` {head l..<h}" by blast
  then show ?thesis
    using assms(5) False clear_from_hit [of "log_mod l n" l] counter_slots [OF assms(1) lap]
      log_mod_less [OF assms(1)]
    by (simp add: log_truncate_def Let_def)
qed

lemma log_truncate_frame:
  assumes "log_ok l"
  shows "log_ok (log_truncate clr l h)" "max_size (log_truncate clr l h) = max_size l"
    "head (log_truncate clr l h) = max (head l) h"
    "log_mod (log_truncate clr l h) = log_mod l"
proof -
  have "log_ok ((clear_from clr l is)\<lparr>head := h\<rparr>)" for "is"
    by (intro log_ok_head log_ok_clear_from assms)
  then show "log_ok (log_truncate clr l h)" using assms by (simp add: log_truncate_def Let_def)
qed (auto simp: log_truncate_def Let_def log_mod_def fun_eq_iff max_def)

text \<open>The two halves as one law on entries.\<close>

lemma log_truncate_law:
  assumes "log_ok l" "head l \<le> h" "same_lap (head l) h \<or> head l + max_size l \<le> h"
  shows "h \<le> n \<Longrightarrow> n < head l + max_size l \<Longrightarrow> log_fetch (log_truncate clr l h) n = log_fetch l n"
    and "head l + max_size l \<le> n \<Longrightarrow> log_fetch (log_truncate clr l h) n = Some x \<Longrightarrow> \<exists>y. x = clr y"
proof -
  note fr = log_truncate_frame [OF assms(1), of clr h]
  have len: "length (elems (log_truncate clr l h)) = length (elems l)"
    using fr(1,2) assms(1) by (simp add: log_ok_def)
  {
    assume n: "h \<le> n" "n < head l + max_size l"
    then have "log_within_range l n" "log_within_range (log_truncate clr l h) n"
      using assms(2) fr by (auto simp: log_within_range_def)
    moreover have "same_lap (head l) h" using assms(3) n by auto
    ultimately show "log_fetch (log_truncate clr l h) n = log_fetch l n"
      using log_truncate_keeps [OF assms(1) _ n(1) _ assms(2)] fr(4) len
      by (simp add: log_fetch_def arr_get_def)
  next
    assume n: "head l + max_size l \<le> n" "log_fetch (log_truncate clr l h) n = Some x"
    then have "n < h + max_size l" "head l < h"
      using fr assms(2) by (auto simp: log_fetch_def log_within_range_def max_def split: if_splits)
    with n(1) obtain y where "elems (log_truncate clr l h) ! log_mod l n = clr y"
      using log_truncate_clears [OF assms(1,3)] by blast
    with n(2) fr(4) show "\<exists>y. x = clr y"
      by (intro exI [of _ y]) (simp add: log_fetch_def arr_get_def split: if_splits)
  }
qed

section \<open>Interpretation\<close>

text \<open>A log whose head stays below \<open>2 ^ 31\<close> meets the contract of a windowed log.\<close>

definition log_inv :: "'a log \<Rightarrow> bool" where
  "log_inv l \<longleftrightarrow> log_ok l \<and> 0 \<le> head l"

interpretation sl: seq_window log_fetch log_put "\<lambda>l h. Some (log_truncate clr l h)" head max_size
  "\<lambda>_. True" log_inv "\<lambda>x. \<exists>y. x = clr y" 2147483647
  for clr :: "'a \<Rightarrow> 'a"
proof unfold_locales
  fix l :: "'a log" and h
  assume l: "log_inv l" "head l \<le> h" "h \<le> 2147483647"
  then have "same_lap (head l) h" by (auto simp: log_inv_def intro!: same_lap_small)
  with l log_truncate_law [of l h _ clr] log_truncate_frame [of l clr h]
  show "\<exists>l'. Some (log_truncate clr l h) = Some l' \<and> log_inv l' \<and> head l' = h \<and>
      max_size l' = max_size l \<and>
      (\<forall>n. h \<le> n \<and> n < head l + max_size l \<longrightarrow> log_fetch l' n = log_fetch l n) \<and>
      (\<forall>n x. head l + max_size l \<le> n \<and> log_fetch l' n = Some x \<longrightarrow> (\<exists>y. x = clr y))"
    by (auto simp: log_inv_def)
next
  fix l :: "'a log" and n x
  assume "log_inv l" "log_fetch l n \<noteq> None"
  then show "\<exists>l'. log_put l n x = Some l' \<and> log_inv l' \<and> head l' = head l \<and>
      max_size l' = max_size l \<and> log_fetch l' = (log_fetch l)(n \<mapsto> x)"
    using log_put_ok [of l n x] log_fetch_iff [of l n] by (auto simp: log_inv_def)
next
  fix l :: "'a log" and n
  assume "log_inv l"
  then show "log_fetch l n \<noteq> None \<longleftrightarrow> True \<and> head l \<le> n \<and> n < head l + max_size l"
    unfolding log_inv_def using log_fetch_iff [of l n] by (simp only: log_within_range_def) auto
qed

section \<open>Properties\<close>

text \<open>C21: \<^verbatim>\<open>Log::truncate\<close> moves the window to the new head, keeps every entry whose sequence
  number stays inside the window and clears every entry that enters it, as long as the old and the
  new head lie in the same lap of the 32-bit loop counter (or the whole window is skipped).\<close>

theorem log_truncate_window:
  assumes "log_ok l" "head l \<le> h" "same_lap (head l) h \<or> head l + max_size l \<le> h"
  shows "log_ok (log_truncate clr l h) \<and> head (log_truncate clr l h) = h \<and>
    (\<forall>n. log_fetch (log_truncate clr l h) n \<noteq> None \<longleftrightarrow> h \<le> n \<and> n < h + max_size l) \<and>
    (\<forall>n. h \<le> n \<and> n < head l + max_size l \<longrightarrow>
       log_fetch (log_truncate clr l h) n = log_fetch l n) \<and>
    (\<forall>n x. head l + max_size l \<le> n \<and> log_fetch (log_truncate clr l h) n = Some x \<longrightarrow>
       (\<exists>y. x = clr y))"
proof -
  note fr = log_truncate_frame [OF assms(1), of clr h]
  have "\<forall>n. log_fetch (log_truncate clr l h) n \<noteq> None \<longleftrightarrow> h \<le> n \<and> n < h + max_size l"
    unfolding log_fetch_iff [OF fr(1)] log_within_range_def fr(2,3) using assms(2) by (simp add: max_def)
  moreover have "head (log_truncate clr l h) = h" using fr(3) assms(2) by (simp add: max_def)
  moreover have "\<forall>n x. head l + max_size l \<le> n \<and> log_fetch (log_truncate clr l h) n = Some x \<longrightarrow>
       (\<exists>y. x = clr y)"
    using log_truncate_law(2) [OF assms] by blast
  ultimately show ?thesis using fr(1) log_truncate_law(1) [OF assms] by blast
qed

theorem log_truncate_window_witness:
  "log_fetch (log_truncate (\<lambda>_. 0) (the (log_put (Log_new (0::nat) 4 1) 3 7)) 3) 3 = Some 7 \<and>
   log_ok (log_truncate (\<lambda>_. 0) (the (log_put (Log_new (0::nat) 4 1) 3 7)) 3)"
proof -
  let ?l = "the (log_put (Log_new (0::nat) 4 1) 3 7)"
  have l: "?l = \<lparr>head = 1, max_size = 4, elems = [0, 0, 0, 7], mask = 3\<rparr>"
    by (simp add: log_put_def Log_new_def log_within_range_def arr_set_def log_mod_def
        numeral_eq_Suc)
  have ok: "log_ok ?l" unfolding l log_ok_def by (auto intro!: exI [of _ 2])
  have h: "head ?l \<le> 3" "same_lap (head ?l) 3 \<or> head ?l + max_size ?l \<le> 3"
    unfolding l by (simp_all add: same_lap_def to_int32_id)
  have "log_fetch ?l 3 = Some 7"
    unfolding l by (simp add: log_fetch_def log_within_range_def arr_get_def log_mod_def numeral_eq_Suc)
  moreover have "log_fetch (log_truncate (\<lambda>_. 0) ?l 3) 3 = log_fetch ?l 3 \<and>
      log_ok (log_truncate (\<lambda>_. 0) ?l 3)"
    using log_truncate_window [OF ok h, of "\<lambda>_. 0"] unfolding l by simp
  ultimately show ?thesis by simp
qed

text \<open>When the window crosses sequence number \<open>2 ^ 31\<close> the narrowed loop counter makes
  \<^verbatim>\<open>Log::truncate\<close> clear nothing: the log keeps all its entries and the entry of the old head is
  returned for the sequence number that takes over its slot.\<close>

theorem log_truncate_lap_stale:
  assumes "log_ok l" "0 \<le> head l" "head l < 2147483648" "2147483648 \<le> h" "h < head l + max_size l"
  shows "log_truncate clr l h = l\<lparr>head := h\<rparr> \<and>
    log_fetch (log_truncate clr l h) (head l + max_size l) = log_fetch l (head l)"
proof -
  have sz: "0 < max_size l" "max_size l < 2147483648" using log_ok_pos [OF assms(1)] by auto
  have hd: "to_int32 (head l) = head l" using assms(2,3) by (simp add: to_int32_id)
  have "to_int32 h < 0"
  proof (rule ccontr)
    assume "\<not> to_int32 h < 0"
    then have "to_int32 h = to_int32 h mod 4294967296" using to_int32_range [of h] by simp
    also have "\<dots> = h" using to_int32_cong [of h] assms sz by simp
    finally show False using to_int32_range [of h] assms(4) by simp
  qed
  then have e: "[to_int32 (head l)..to_int32 h - 1] = []" using hd assms(2) by simp
  have t: "log_truncate clr l h = l\<lparr>head := h\<rparr>"
    using assms(3-5) unfolding log_truncate_def Let_def by (simp add: e del: upto.simps)
  have "log_mod l (head l + max_size l) = log_mod l (head l)" by (simp add: log_mod_eq [OF assms(1)])
  then show ?thesis
    unfolding t using assms(3-5) sz by (simp add: log_fetch_def log_within_range_def)
qed

theorem log_truncate_lap_stale_witness:
  "log_fetch (log_truncate (\<lambda>_. 0) \<lparr>head = 2147483647, max_size = 2, elems = [5, 6::nat], mask = 1\<rparr>
     2147483648) 2147483649 = Some 6"
proof -
  let ?l = "\<lparr>head = 2147483647, max_size = 2, elems = [5, 6::nat], mask = 1\<rparr>"
  have ok: "log_ok ?l" unfolding log_ok_def by (auto intro!: exI [of _ 1])
  have "log_fetch (log_truncate (\<lambda>_. 0) ?l 2147483648) (head ?l + max_size ?l) = log_fetch ?l (head ?l)"
    by (rule log_truncate_lap_stale [OF ok, THEN conjunct2]) simp_all
  then show ?thesis
    by (simp add: log_fetch_def log_within_range_def arr_get_def log_mod_def)
qed

end
