(* ===== verification/Checkpoint_Logs.thy ===== *)
theory Checkpoint_Logs
  imports Seq_Log
begin

text \<open>
  The two logs indexed by checkpoint: \<^verbatim>\<open>CheckpointLog\<close> (\<^verbatim>\<open>checkpoint_log.h\<close>, \<^verbatim>\<open>checkpoint_log.cc\<close>), which
  holds the certificates of checkpoint messages, and \<^verbatim>\<open>CheckpointRecordLog\<close>
  (\<^verbatim>\<open>checkpoint_record_log.h\<close>, \<^verbatim>\<open>checkpoint_record_log.cc\<close>), which holds the state copies and has one
  extra slot for the checkpoint being fetched. Both meet the contract \<open>seq_window\<close> with the multiples
  of the checkpoint interval as keys. The element type and its \<^verbatim>\<open>clear()\<close> are parameters.
\<close>

section \<open>Checkpoint certificates\<close>

record 'a clog =
  cl_head :: seqno
  cl_head_index :: int
  cl_certs :: "'a list"

definition clog_MAX_SIZE :: "build \<Rightarrow> int" where
  "clog_MAX_SIZE b = max_out b div checkpoint_interval b + 1"

definition CheckpointLog_new :: "build \<Rightarrow> 'a \<Rightarrow> 'a clog" where
  "CheckpointLog_new b fresh = \<lparr>cl_head = 0, cl_head_index = 0, cl_certs = replicate (nat (clog_MAX_SIZE b)) fresh\<rparr>"

definition clog_max_seqno :: "build \<Rightarrow> 'a clog \<Rightarrow> seqno" where
  "clog_max_seqno b l = cl_head l + max_out b"

definition clog_within_range :: "build \<Rightarrow> 'a clog \<Rightarrow> seqno \<Rightarrow> bool" where
  "clog_within_range b l n \<longleftrightarrow> n \<ge> cl_head l \<and> n \<le> clog_max_seqno b l"

definition certificate_index :: "build \<Rightarrow> 'a clog \<Rightarrow> seqno \<Rightarrow> nat" where
  "certificate_index b l n =
     nat ((cl_head_index l + (n - cl_head l) div checkpoint_interval b) mod clog_MAX_SIZE b)"

definition clog_clear :: "('a \<Rightarrow> 'a) \<Rightarrow> 'a clog \<Rightarrow> seqno \<Rightarrow> 'a clog option" where
  "clog_clear clr l h = do {
     th_assert (h \<ge> 0);
     Some (l\<lparr>cl_certs := map clr (cl_certs l), cl_head := h\<rparr>) }"

definition clog_fetch :: "build \<Rightarrow> 'a clog \<Rightarrow> seqno \<Rightarrow> 'a option" where
  "clog_fetch b l n = do {
     th_assert (clog_within_range b l n);
     th_assert (n mod checkpoint_interval b = 0);
     arr_get (cl_certs l) (certificate_index b l n) }"

definition clog_put :: "build \<Rightarrow> 'a clog \<Rightarrow> seqno \<Rightarrow> 'a \<Rightarrow> 'a clog option" where
  "clog_put b l n x = do {
     th_assert (clog_within_range b l n);
     th_assert (n mod checkpoint_interval b = 0);
     cs \<leftarrow> arr_set (cl_certs l) (certificate_index b l n) x;
     Some (l\<lparr>cl_certs := cs\<rparr>) }"

text \<open>The checkpoints that the loops of \<^verbatim>\<open>truncate\<close> visit: from \<open>head\<close> below \<open>new_head\<close> in steps of the
  interval.\<close>

definition checkpoints_from :: "build \<Rightarrow> seqno \<Rightarrow> seqno \<Rightarrow> seqno list" where
  "checkpoints_from b h h' =
     map (\<lambda>i. h + int i * checkpoint_interval b) [0..<nat ((h' - h + checkpoint_interval b - 1) div checkpoint_interval b)]"

definition clr_at :: "('a \<Rightarrow> 'a) \<Rightarrow> nat \<Rightarrow> 'a list \<Rightarrow> 'a list option" where
  "clr_at clr i xs = do { x \<leftarrow> arr_get xs i; arr_set xs i (clr x) }"

definition clog_truncate :: "build \<Rightarrow> ('a \<Rightarrow> 'a) \<Rightarrow> 'a clog \<Rightarrow> seqno \<Rightarrow> 'a clog option" where
  "clog_truncate b clr l new_head =
     (if new_head \<le> cl_head l then Some l
      else do {
        th_assert (new_head mod checkpoint_interval b = 0);
        if \<not> clog_within_range b l new_head then clog_clear clr l new_head
        else do {
          cs \<leftarrow> fold_opt (\<lambda>n. clr_at clr (certificate_index b l n)) (checkpoints_from b (cl_head l) new_head) (cl_certs l);
          Some (l\<lparr>cl_certs := cs, cl_head_index := int (certificate_index b l new_head), cl_head := new_head\<rparr>) } })"

section \<open>Checkpoint records\<close>

record 'a crlog =
  cr_head :: seqno
  cr_fetch_seqno :: seqno
  cr_head_index :: int
  cr_records :: "'a list"

definition crlog_MAX_SIZE :: "build \<Rightarrow> int" where
  "crlog_MAX_SIZE b = max_out b div checkpoint_interval b + 2"

definition CheckpointRecordLog_new :: "build \<Rightarrow> 'a \<Rightarrow> seqno \<Rightarrow> 'a crlog" where
  "CheckpointRecordLog_new b fresh h = \<lparr>cr_head = h, cr_fetch_seqno = - 1, cr_head_index = 0,
     cr_records = replicate (nat (crlog_MAX_SIZE b)) fresh\<rparr>"

definition crlog_within_range :: "build \<Rightarrow> 'a crlog \<Rightarrow> seqno \<Rightarrow> bool" where
  "crlog_within_range b l n \<longleftrightarrow> n \<ge> cr_head l \<and> n \<le> cr_head l + max_out b"

definition record_index :: "build \<Rightarrow> 'a crlog \<Rightarrow> seqno \<Rightarrow> nat" where
  "record_index b l n =
     (if n mod checkpoint_interval b \<noteq> 0 then nat (crlog_MAX_SIZE b - 1)
      else nat ((cr_head_index l + (n - cr_head l) div checkpoint_interval b) mod (crlog_MAX_SIZE b - 1)))"

definition crlog_clear :: "('a \<Rightarrow> 'a) \<Rightarrow> 'a crlog \<Rightarrow> seqno \<Rightarrow> 'a crlog" where
  "crlog_clear clr l h = l\<lparr>cr_records := map clr (cr_records l), cr_head := h, cr_head_index := 0\<rparr>"

definition crlog_slot :: "build \<Rightarrow> 'a crlog \<Rightarrow> seqno \<Rightarrow> nat option" where
  "crlog_slot b l n = do {
     th_assert (crlog_within_range b l n);
     if n mod checkpoint_interval b \<noteq> 0 then do {
       th_assert (cr_fetch_seqno l = n);
       Some (nat (crlog_MAX_SIZE b - 1)) }
     else Some (record_index b l n) }"

definition crlog_fetch :: "build \<Rightarrow> 'a crlog \<Rightarrow> seqno \<Rightarrow> 'a option" where
  "crlog_fetch b l n = do { i \<leftarrow> crlog_slot b l n; arr_get (cr_records l) i }"

definition crlog_put :: "build \<Rightarrow> 'a crlog \<Rightarrow> seqno \<Rightarrow> 'a \<Rightarrow> 'a crlog option" where
  "crlog_put b l n x = do {
     i \<leftarrow> crlog_slot b l n;
     rs \<leftarrow> arr_set (cr_records l) i x;
     Some (l\<lparr>cr_records := rs\<rparr>) }"

definition crlog_truncate :: "build \<Rightarrow> ('a \<Rightarrow> 'a) \<Rightarrow> 'a crlog \<Rightarrow> seqno \<Rightarrow> 'a crlog option" where
  "crlog_truncate b clr l new_head = do {
     th_assert (new_head mod checkpoint_interval b = 0);
     if new_head \<le> cr_head l then Some l
     else if \<not> crlog_within_range b l new_head then Some (crlog_clear clr l new_head)
     else do {
       rs \<leftarrow> fold_opt (\<lambda>n. clr_at clr (record_index b l n)) (checkpoints_from b (cr_head l) new_head) (cr_records l);
       rs' \<leftarrow> (if cr_fetch_seqno l < new_head then clr_at clr (nat (crlog_MAX_SIZE b - 1)) rs else Some rs);
       Some (l\<lparr>cr_records := rs', cr_head_index := int (record_index b l new_head), cr_head := new_head\<rparr>) } }"

definition set_fetch_seqno :: "build \<Rightarrow> ('a \<Rightarrow> 'a) \<Rightarrow> 'a crlog \<Rightarrow> seqno \<Rightarrow> 'a crlog option" where
  "set_fetch_seqno b clr l n = do {
     rs \<leftarrow> (if cr_fetch_seqno l \<noteq> - 1 then clr_at clr (nat (crlog_MAX_SIZE b - 1)) (cr_records l)
            else Some (cr_records l));
     Some (l\<lparr>cr_records := rs, cr_fetch_seqno := n\<rparr>) }"

section \<open>A ring of checkpoints\<close>

text \<open>The arithmetic both logs share. \<open>ring_slot ci k hi h n\<close> is the slot of checkpoint \<open>n\<close> in a ring of \<open>k\<close>
  slots whose head \<open>h\<close> sits in slot \<open>hi\<close>.\<close>

definition ring_slot :: "int \<Rightarrow> int \<Rightarrow> int \<Rightarrow> int \<Rightarrow> int \<Rightarrow> nat" where
  "ring_slot ci k hi h n = nat ((hi + (n - h) div ci) mod k)"

lemma ring_slot_less: "0 < k \<Longrightarrow> ring_slot ci k hi h n < nat k"
  by (simp add: ring_slot_def)

lemma ring_slot_move:
  assumes "0 < ci" "0 < k" "ci dvd h" "ci dvd h'" "ci dvd n"
  shows "ring_slot ci k (int (ring_slot ci k hi h h')) h' n = ring_slot ci k hi h n"
proof -
  obtain x y z where e: "h = ci * x" "h' = ci * y" "n = ci * z" using assms(3-5) by (auto elim!: dvdE)
  have d: "(h' - h) div ci = y - x" "(n - h') div ci = z - y" "(n - h) div ci = z - x"
    using assms(1) by (simp_all add: e flip: right_diff_distrib)
  have "((hi + (y - x)) mod k + (z - y)) mod k = (hi + (y - x) + (z - y)) mod k" by (rule mod_add_left_eq)
  also have "\<dots> = (hi + (z - x)) mod k" by (rule arg_cong [of _ _ "\<lambda>t. t mod k"]) simp
  finally show ?thesis using assms(2) by (simp add: ring_slot_def d)
qed

lemma ring_slot_inj:
  assumes "0 < ci" "ci dvd h" "ci dvd n" "ci dvd m" "h \<le> n" "h \<le> m" "n < h + k * ci" "m < h + k * ci" "0 < k"
    and "ring_slot ci k hi h n = ring_slot ci k hi h m"
  shows "n = m"
proof -
  obtain x where x: "h = ci * x" using assms(2) by (rule dvdE)
  obtain y where y: "n = ci * y" using assms(3) by (rule dvdE)
  obtain z where z: "m = ci * z" using assms(4) by (rule dvdE)
  note e = x y z
  have c: "ci * u < ci * v \<longleftrightarrow> u < v" "ci * u \<le> ci * v \<longleftrightarrow> u \<le> v" for u v
    by (rule mult_less_cancel_left_pos [OF assms(1)]) (rule mult_le_cancel_left_pos [OF assms(1)])
  have k: "h + k * ci = ci * (x + k)" unfolding x by (simp add: algebra_simps)
  have r: "x \<le> y" "x \<le> z" using assms(5,6) unfolding e c by auto
  have r': "y < x + k" "z < x + k" using assms(7,8) unfolding k unfolding y z c by auto
  have d: "(n - h) div ci = y - x" "(m - h) div ci = z - x"
    using assms(1) unfolding e by (simp_all flip: right_diff_distrib)
  have "nat ((hi + (y - x)) mod k) = nat ((hi + (z - x)) mod k)"
    using assms(10) unfolding ring_slot_def d .
  then have "(hi + (y - x)) mod k = (hi + (z - x)) mod k"
    using pos_mod_sign [OF assms(9)] by (metis eq_nat_nat_iff)
  then have "hi + (y - x) = hi + (z - x)"
    by (rule mod_inj_window [where h = hi, rotated 4]) (use r r' in linarith)+
  then show ?thesis unfolding y z by simp
qed

text \<open>A checkpoint that enters the window takes the slot of one that left it.\<close>

lemma ring_slot_wrap:
  assumes "0 < ci" "ci dvd h" "ci dvd n" "0 < k"
  shows "ring_slot ci k hi h n = ring_slot ci k hi h (n - k * ci)"
proof -
  have "(n - k * ci - h) div ci = (n - h) div ci - k"
  proof -
    have "n - k * ci - h = (n - h) + (- k) * ci" by simp
    then have "(n - k * ci - h) div ci = ((n - h) + (- k) * ci) div ci" by (rule arg_cong)
    also have "\<dots> = - k + (n - h) div ci" using assms(1) by (intro div_mult_self1) simp
    finally show ?thesis by simp
  qed
  then have "hi + (n - h) div ci = (hi + (n - k * ci - h) div ci) + k" by simp
  then show ?thesis unfolding ring_slot_def by (metis mod_add_self2)
qed

lemma checkpoints_from_set:
  assumes "0 < checkpoint_interval b" "checkpoint_interval b dvd h" "checkpoint_interval b dvd h'" "h \<le> h'"
  shows "set (checkpoints_from b h h') = {n. checkpoint_interval b dvd n \<and> h \<le> n \<and> n < h'}" (is "?A = ?B")
proof -
  let ?ci = "checkpoint_interval b"
  obtain x y where e: "h = ?ci * x" "h' = ?ci * y" using assms(2,3) by (auto elim!: dvdE)
  have "(h' - h + ?ci - 1) div ?ci = ((?ci - 1) + (y - x) * ?ci) div ?ci"
    by (rule arg_cong [of _ _ "\<lambda>t. t div ?ci"]) (simp add: e algebra_simps)
  also have "\<dots> = y - x" using assms(1) by (simp add: div_mult_self1)
  finally have A: "?A = (\<lambda>i. h + int i * ?ci) ` {0..<nat (y - x)}"
    by (simp add: checkpoints_from_def)
  show ?thesis
  proof
    show "?A \<subseteq> ?B" unfolding A
    proof clarify
      fix i assume "i \<in> {0..<nat (y - x)}"
      then have "x + int i < y" by auto
      then have "?ci * (x + int i) < ?ci * y" using assms(1) by simp
      then show "?ci dvd h + int i * ?ci \<and> h \<le> h + int i * ?ci \<and> h + int i * ?ci < h'"
        using assms(1,2) by (simp add: e algebra_simps)
    qed
    show "?B \<subseteq> ?A"
    proof clarify
      fix n assume n: "?ci dvd n" "h \<le> n" "n < h'"
      then obtain z where z: "n = ?ci * z" by (auto elim!: dvdE)
      have "x \<le> z" "z < y" using n(2,3) assms(1) by (simp_all add: e z)
      then have "n = h + int (nat (z - x)) * ?ci" "nat (z - x) \<in> {0..<nat (y - x)}"
        by (simp_all add: e z algebra_simps)
      then show "n \<in> ?A" unfolding A by blast
    qed
  qed
qed

lemma window_below_ring:
  fixes ci mo :: int
  assumes "0 < ci" "n \<le> h + mo"
  shows "n < h + (mo div ci + 1) * ci"
proof -
  have "mo < (mo div ci + 1) * ci"
    using pos_mod_bound [OF assms(1), of mo] div_mult_mod_eq [of mo ci] unfolding distrib_right by linarith
  then show ?thesis using assms(2) by simp
qed

lemma beyond_window_ring:
  fixes ci mo :: int
  assumes "0 < ci" "ci dvd h" "ci dvd n" "h + mo < n"
  shows "h + (mo div ci + 1) * ci \<le> n"
proof -
  obtain z where z: "n - h = ci * z" using dvd_diff [OF assms(3,2)] by (rule dvdE)
  have "ci * (mo div ci) \<le> mo"
    using pos_mod_sign [OF assms(1), of mo] mult_div_mod_eq [of ci mo] by linarith
  also have "\<dots> < ci * z" using assms(4) z by simp
  finally have "mo div ci < z" using mult_less_cancel_left_pos [OF assms(1)] by blast
  then have "(mo div ci + 1) * ci \<le> z * ci" using assms(1) by (intro mult_right_mono) auto
  then show ?thesis using z by (simp add: mult.commute)
qed

lemma ring_kept:
  assumes "0 < checkpoint_interval b" "checkpoint_interval b dvd h" "checkpoint_interval b dvd h'"
    "checkpoint_interval b dvd n" "h \<le> h'" "h' \<le> n" "n \<le> h + max_out b" "0 \<le> max_out b"
  shows "ring_slot (checkpoint_interval b) (clog_MAX_SIZE b) hi h n \<notin>
    ring_slot (checkpoint_interval b) (clog_MAX_SIZE b) hi h ` set (checkpoints_from b h h')"
proof
  let ?ci = "checkpoint_interval b" and ?k = "clog_MAX_SIZE b"
  assume "ring_slot ?ci ?k hi h n \<in> ring_slot ?ci ?k hi h ` set (checkpoints_from b h h')"
  then obtain m where m: "ring_slot ?ci ?k hi h n = ring_slot ?ci ?k hi h m" "?ci dvd m" "h \<le> m" "m < h'"
    using checkpoints_from_set [OF assms(1-3,5)] by auto
  have "n < h + ?k * ?ci" "m < h + ?k * ?ci"
    using window_below_ring [OF assms(1)] assms(6,7) m(4) by (simp_all add: clog_MAX_SIZE_def)
  moreover have "0 < ?k" using assms(1,8) by (simp add: clog_MAX_SIZE_def pos_imp_zdiv_nonneg_iff add_nonneg_pos)
  ultimately have "n = m"
    using ring_slot_inj [OF assms(1,2,4) m(2) _ m(3) _ _ _ m(1)] assms(5,6) by simp
  with m(4) assms(6) show False by simp
qed

lemma ring_reused:
  assumes "0 < checkpoint_interval b" "checkpoint_interval b dvd h" "checkpoint_interval b dvd h'"
    "checkpoint_interval b dvd n" "h \<le> h'" "h + max_out b < n" "n \<le> h' + max_out b" "0 \<le> max_out b"
  shows "ring_slot (checkpoint_interval b) (clog_MAX_SIZE b) hi h n \<in>
    ring_slot (checkpoint_interval b) (clog_MAX_SIZE b) hi h ` set (checkpoints_from b h h')"
proof (rule image_eqI)
  let ?ci = "checkpoint_interval b" and ?k = "clog_MAX_SIZE b"
  have k: "0 < ?k" using assms(1,8) by (simp add: clog_MAX_SIZE_def pos_imp_zdiv_nonneg_iff add_nonneg_pos)
  show "ring_slot ?ci ?k hi h n = ring_slot ?ci ?k hi h (n - ?k * ?ci)"
    by (rule ring_slot_wrap [OF assms(1,2,4) k])
  have "h + ?k * ?ci \<le> n" using beyond_window_ring [OF assms(1,2,4,6)] by (simp add: clog_MAX_SIZE_def)
  moreover have "n < h' + ?k * ?ci" using window_below_ring [OF assms(1,7)] by (simp add: clog_MAX_SIZE_def)
  ultimately show "n - ?k * ?ci \<in> set (checkpoints_from b h h')"
    using assms(4) by (simp add: checkpoints_from_set [OF assms(1-3,5)])
qed

lemma fold_clr_at:
  assumes "\<And>n. n \<in> set ns \<Longrightarrow> g n < length xs"
  shows "\<exists>ys. fold_opt (\<lambda>n. clr_at clr (g n)) ns xs = Some ys \<and> length ys = length xs \<and>
    (\<forall>j. j \<notin> g ` set ns \<longrightarrow> ys ! j = xs ! j) \<and>
    (\<forall>j < length xs. j \<in> g ` set ns \<longrightarrow> (\<exists>y. ys ! j = clr y))"
  using assms
proof (induction ns arbitrary: xs)
  case Nil
  then show ?case by simp
next
  case (Cons n ns)
  let ?xs = "xs[g n := clr (xs ! g n)]"
  have step: "clr_at clr (g n) xs = Some ?xs"
    using Cons.prems by (simp add: clr_at_def arr_get_def arr_set_def)
  obtain ys where ys: "fold_opt (\<lambda>n. clr_at clr (g n)) ns ?xs = Some ys" "length ys = length xs"
    "\<And>j. j \<notin> g ` set ns \<Longrightarrow> ys ! j = ?xs ! j"
    "\<And>j. j < length xs \<Longrightarrow> j \<in> g ` set ns \<Longrightarrow> \<exists>y. ys ! j = clr y"
    using Cons.IH [of ?xs] Cons.prems by auto
  have "\<exists>y. ys ! j = clr y" if "j < length xs" "j \<in> g ` set (n # ns)" for j
    using that ys(3,4) by (cases "j \<in> g ` set ns") auto
  moreover have "ys ! j = xs ! j" if "j \<notin> g ` set (n # ns)" for j
    using that ys(3) [of j] by auto
  ultimately show ?case using step ys(1,2) by auto
qed

section \<open>The logs meet the contract of a window\<close>

definition interval_ok :: "build \<Rightarrow> bool" where
  "interval_ok b \<longleftrightarrow> 0 < checkpoint_interval b \<and> 0 \<le> max_out b"

lemma build_ok_interval: "build_ok b \<Longrightarrow> interval_ok b"
  by (auto simp: build_ok_def interval_ok_def)

lemma MAX_SIZE_pos: "interval_ok b \<Longrightarrow> 0 < clog_MAX_SIZE b" "crlog_MAX_SIZE b = clog_MAX_SIZE b + 1"
  by (simp_all add: interval_ok_def clog_MAX_SIZE_def crlog_MAX_SIZE_def pos_imp_zdiv_nonneg_iff add_nonneg_pos)

definition clog_inv :: "build \<Rightarrow> 'a clog \<Rightarrow> bool" where
  "clog_inv b l \<longleftrightarrow> interval_ok b \<and> checkpoint_interval b dvd cl_head l \<and> 0 \<le> cl_head l \<and>
     length (cl_certs l) = nat (clog_MAX_SIZE b)"

lemma certificate_index_ring:
  "certificate_index b l n =
     ring_slot (checkpoint_interval b) (clog_MAX_SIZE b) (cl_head_index l) (cl_head l) n"
  by (simp add: certificate_index_def ring_slot_def)

lemma certificate_index_less: "clog_inv b l \<Longrightarrow> certificate_index b l n < length (cl_certs l)"
  using MAX_SIZE_pos(1) [of b] by (simp add: clog_inv_def certificate_index_ring ring_slot_less)

lemma certificate_index_inj:
  assumes "clog_inv b l" "clog_within_range b l n" "clog_within_range b l m"
    "checkpoint_interval b dvd n" "checkpoint_interval b dvd m"
    "certificate_index b l n = certificate_index b l m"
  shows "n = m"
proof -
  have i: "0 < checkpoint_interval b" "checkpoint_interval b dvd cl_head l" "0 < clog_MAX_SIZE b"
    using assms(1) MAX_SIZE_pos(1) [of b] by (auto simp: clog_inv_def interval_ok_def)
  have "n < cl_head l + clog_MAX_SIZE b * checkpoint_interval b"
    "m < cl_head l + clog_MAX_SIZE b * checkpoint_interval b"
    using window_below_ring [OF i(1)] assms(2,3)
    by (simp_all add: clog_within_range_def clog_max_seqno_def clog_MAX_SIZE_def)
  then show ?thesis
    using ring_slot_inj [OF i(1,2) assms(4,5) _ _ _ _ i(3)] assms(2,3,6)
    unfolding certificate_index_ring clog_within_range_def by blast
qed

lemma clog_fetch_eq:
  assumes "clog_inv b l"
  shows "clog_fetch b l n = (if checkpoint_interval b dvd n \<and> clog_within_range b l n
    then Some (cl_certs l ! certificate_index b l n) else None)"
  using certificate_index_less [OF assms, of n] by (simp add: clog_fetch_def arr_get_def dvd_eq_mod_eq_0)

lemma clog_put_law:
  assumes "clog_inv b l" "clog_fetch b l n \<noteq> None"
  shows "\<exists>l'. clog_put b l n x = Some l' \<and> clog_inv b l' \<and> cl_head l' = cl_head l \<and>
    clog_fetch b l' = (clog_fetch b l)(n \<mapsto> x)"
proof -
  let ?l = "l\<lparr>cl_certs := (cl_certs l)[certificate_index b l n := x]\<rparr>"
  have n: "checkpoint_interval b dvd n" "clog_within_range b l n"
    using assms by (auto simp: clog_fetch_eq split: if_splits)
  have fr: "clog_inv b ?l" "certificate_index b ?l = certificate_index b l" "clog_within_range b ?l = clog_within_range b l"
    using assms(1) by (auto simp: clog_inv_def certificate_index_def clog_within_range_def clog_max_seqno_def)
  have "clog_put b l n x = Some ?l"
    using n certificate_index_less [OF assms(1)] by (simp add: clog_put_def arr_set_def dvd_eq_mod_eq_0)
  moreover have "clog_fetch b ?l m = ((clog_fetch b l)(n \<mapsto> x)) m" for m
    unfolding clog_fetch_eq [OF fr(1)] fr(2,3)
    using certificate_index_inj [OF assms(1) n(2) _ n(1), of m] certificate_index_less [OF assms(1), of n] n
    by (auto simp: clog_fetch_eq [OF assms(1)] nth_list_update)
  ultimately show ?thesis using fr(1) by auto
qed

lemma clog_truncate_clear:
  assumes "clog_inv b l" "checkpoint_interval b dvd h" "cl_head l \<le> h" "\<not> clog_within_range b l h"
  shows "\<exists>l'. clog_truncate b clr l h = Some l' \<and> clog_inv b l' \<and> cl_head l' = h \<and>
    (\<forall>n x. clog_fetch b l' n = Some x \<longrightarrow> (\<exists>y. x = clr y))"
proof -
  let ?l = "l\<lparr>cl_certs := map clr (cl_certs l), cl_head := h\<rparr>"
  have h: "0 \<le> h" "cl_head l < h" using assms by (auto simp: clog_inv_def clog_within_range_def clog_max_seqno_def interval_ok_def)
  have inv': "clog_inv b ?l" using assms(1,2) h by (simp add: clog_inv_def)
  have "\<exists>y. x = clr y" if "clog_fetch b ?l n = Some x" for n x
    using that certificate_index_less [OF inv', of n] unfolding clog_fetch_eq [OF inv'] by (auto split: if_splits)
  moreover have "clog_truncate b clr l h = Some ?l"
    using assms(2,4) h by (simp add: clog_truncate_def clog_clear_def dvd_eq_mod_eq_0)
  ultimately show ?thesis using inv' by auto
qed

lemma clog_truncate_within:
  assumes "clog_inv b l" "checkpoint_interval b dvd h" "cl_head l < h" "clog_within_range b l h"
  shows "\<exists>l'. clog_truncate b clr l h = Some l' \<and> clog_inv b l' \<and> cl_head l' = h \<and>
    (\<forall>n. h \<le> n \<and> n \<le> cl_head l + max_out b \<longrightarrow> clog_fetch b l' n = clog_fetch b l n) \<and>
    (\<forall>n x. cl_head l + max_out b < n \<and> clog_fetch b l' n = Some x \<longrightarrow> (\<exists>y. x = clr y))"
proof -
  let ?ns = "checkpoints_from b (cl_head l) h"
  have b: "0 < checkpoint_interval b" "0 \<le> max_out b" "checkpoint_interval b dvd cl_head l" "0 < clog_MAX_SIZE b"
    using assms(1) MAX_SIZE_pos(1) [of b] by (auto simp: clog_inv_def interval_ok_def)
  note le = less_imp_le [OF assms(3)]
  obtain ys where ys: "fold_opt (\<lambda>n. clr_at clr (certificate_index b l n)) ?ns (cl_certs l) = Some ys"
    "length ys = length (cl_certs l)"
    "\<And>j. j \<notin> certificate_index b l ` set ?ns \<Longrightarrow> ys ! j = cl_certs l ! j"
    "\<And>j. j < length (cl_certs l) \<Longrightarrow> j \<in> certificate_index b l ` set ?ns \<Longrightarrow> \<exists>y. ys ! j = clr y"
    using fold_clr_at [of ?ns "certificate_index b l" "cl_certs l" clr] certificate_index_less [OF assms(1)] by auto
  define l' where "l' = l\<lparr>cl_certs := ys, cl_head_index := int (certificate_index b l h), cl_head := h\<rparr>"
  have t: "clog_truncate b clr l h = Some l'"
    using assms(2-4) ys(1) by (simp add: clog_truncate_def l'_def dvd_eq_mod_eq_0)
  have inv': "clog_inv b l'" and hd': "cl_head l' = h" and cs: "cl_certs l' = ys"
    using assms(1-3) ys(2) by (auto simp: clog_inv_def l'_def)
  have ix: "certificate_index b l' n = certificate_index b l n" if "checkpoint_interval b dvd n" for n
    using ring_slot_move [OF b(1,4,3) assms(2) that] by (simp add: certificate_index_ring l'_def)
  have wr: "clog_within_range b l' n \<longleftrightarrow> h \<le> n \<and> n \<le> h + max_out b" for n
    by (simp add: clog_within_range_def clog_max_seqno_def hd')
  have "clog_fetch b l' n = clog_fetch b l n" if n: "h \<le> n" "n \<le> cl_head l + max_out b" for n
  proof (cases "checkpoint_interval b dvd n")
    case True
    have "certificate_index b l n \<notin> certificate_index b l ` set ?ns"
      using ring_kept [OF b(1,3) assms(2) True le n b(2)] unfolding certificate_index_ring .
    then show ?thesis
      using True n assms(3) ys(3) unfolding clog_fetch_eq [OF assms(1)] clog_fetch_eq [OF inv'] wr
      by (simp add: ix cs clog_within_range_def clog_max_seqno_def)
  qed (simp add: clog_fetch_eq [OF assms(1)] clog_fetch_eq [OF inv'])
  moreover have "\<exists>y. x = clr y" if n: "cl_head l + max_out b < n" "clog_fetch b l' n = Some x" for n x
  proof -
    have k: "checkpoint_interval b dvd n" "n \<le> h + max_out b" "x = ys ! certificate_index b l n"
      using n(2) unfolding clog_fetch_eq [OF inv'] wr by (auto simp: ix cs split: if_splits)
    have "certificate_index b l n \<in> certificate_index b l ` set ?ns"
      using ring_reused [OF b(1,3) assms(2) k(1) le n(1) k(2) b(2)] unfolding certificate_index_ring .
    then show ?thesis using ys(4) [OF certificate_index_less [OF assms(1)]] k(3) by auto
  qed
  ultimately show ?thesis using t inv' hd' by blast
qed

interpretation ck: seq_window "clog_fetch b" "clog_put b" "clog_truncate b clr" cl_head "\<lambda>_. max_out b + 1"
  "\<lambda>n. checkpoint_interval b dvd n" "clog_inv b" "\<lambda>x. \<exists>y. x = clr y" lim
  for b and clr :: "'a \<Rightarrow> 'a" and lim
proof unfold_locales
  fix l :: "'a clog" and n
  assume "clog_inv b l"
  then show "clog_fetch b l n \<noteq> None \<longleftrightarrow>
      checkpoint_interval b dvd n \<and> cl_head l \<le> n \<and> n < cl_head l + (max_out b + 1)"
    by (auto simp: clog_fetch_eq clog_within_range_def clog_max_seqno_def)
next
  fix l :: "'a clog" and n x
  assume "clog_inv b l" "clog_fetch b l n \<noteq> None"
  from clog_put_law [OF this, of x]
  show "\<exists>l'. clog_put b l n x = Some l' \<and> clog_inv b l' \<and> cl_head l' = cl_head l \<and>
      max_out b + 1 = max_out b + 1 \<and> clog_fetch b l' = (clog_fetch b l)(n \<mapsto> x)" by auto
next
  fix l :: "'a clog" and h
  assume l: "clog_inv b l" "checkpoint_interval b dvd h" "cl_head l \<le> h"
  consider "h = cl_head l" | "\<not> clog_within_range b l h" | "cl_head l < h" "clog_within_range b l h"
    using l(3) by linarith
  then show "\<exists>l'. clog_truncate b clr l h = Some l' \<and> clog_inv b l' \<and> cl_head l' = h \<and>
      max_out b + 1 = max_out b + 1 \<and>
      (\<forall>n. h \<le> n \<and> n < cl_head l + (max_out b + 1) \<longrightarrow> clog_fetch b l' n = clog_fetch b l n) \<and>
      (\<forall>n x. cl_head l + (max_out b + 1) \<le> n \<and> clog_fetch b l' n = Some x \<longrightarrow> (\<exists>y. x = clr y))"
  proof cases
    case 1
    have "clog_fetch b l n = None" if "cl_head l + (max_out b + 1) \<le> n" for n
      using that by (auto simp: clog_fetch_eq [OF l(1)] clog_within_range_def clog_max_seqno_def)
    with 1 l(1) show ?thesis by (auto simp: clog_truncate_def)
  next
    case 2
    then have "cl_head l + max_out b < h" using l(3) by (auto simp: clog_within_range_def clog_max_seqno_def)
    with clog_truncate_clear [OF l 2, of clr] show ?thesis by auto
  next
    case 3
    have e: "n < cl_head l + (max_out b + 1) \<longleftrightarrow> n \<le> cl_head l + max_out b"
      "cl_head l + (max_out b + 1) \<le> n \<longleftrightarrow> cl_head l + max_out b < n" for n by auto
    from clog_truncate_within [OF l(1,2) 3, of clr] show ?thesis unfolding e by blast
  qed
qed

text \<open>The record log is the same ring with one more slot. \<open>ring_of\<close> forgets that slot; on the multiples of the
  interval the operations of the record log are those of the ring.\<close>

definition ring_of :: "build \<Rightarrow> 'a crlog \<Rightarrow> 'a clog" where
  "ring_of b l = \<lparr>cl_head = cr_head l, cl_head_index = cr_head_index l,
     cl_certs = take (nat (clog_MAX_SIZE b)) (cr_records l)\<rparr>"

definition crlog_inv :: "build \<Rightarrow> 'a crlog \<Rightarrow> bool" where
  "crlog_inv b l \<longleftrightarrow> interval_ok b \<and> checkpoint_interval b dvd cr_head l \<and> 0 \<le> cr_head l \<and>
     length (cr_records l) = nat (crlog_MAX_SIZE b)"

definition crlog_lookup :: "build \<Rightarrow> 'a crlog \<Rightarrow> seqno \<Rightarrow> 'a option" where
  "crlog_lookup b l n = (if checkpoint_interval b dvd n then crlog_fetch b l n else None)"

lemma ring_of_inv: "crlog_inv b l \<Longrightarrow> clog_inv b (ring_of b l)"
  using MAX_SIZE_pos [of b] by (auto simp: crlog_inv_def clog_inv_def ring_of_def)

lemma crlog_length: "crlog_inv b l \<Longrightarrow> length (cr_records l) = Suc (nat (clog_MAX_SIZE b))"
  using MAX_SIZE_pos [of b] by (auto simp: crlog_inv_def)

lemma extra_slot: "interval_ok b \<Longrightarrow> nat (crlog_MAX_SIZE b - 1) = nat (clog_MAX_SIZE b)"
  by (simp add: MAX_SIZE_pos)

lemma record_index_ring:
  "checkpoint_interval b dvd n \<Longrightarrow> record_index b l n = certificate_index b (ring_of b l) n"
  by (simp add: record_index_def certificate_index_def ring_of_def MAX_SIZE_pos dvd_eq_mod_eq_0)

lemma record_index_less:
  "crlog_inv b l \<Longrightarrow> checkpoint_interval b dvd n \<Longrightarrow> record_index b l n < nat (clog_MAX_SIZE b)"
  using MAX_SIZE_pos(1) [of b]
  by (simp add: crlog_inv_def record_index_ring certificate_index_ring ring_slot_less)

lemma crlog_range_ring: "crlog_within_range b l n \<longleftrightarrow> clog_within_range b (ring_of b l) n"
  by (simp add: crlog_within_range_def clog_within_range_def clog_max_seqno_def ring_of_def)

lemma crlog_lookup_ring:
  assumes "crlog_inv b l"
  shows "crlog_lookup b l n = clog_fetch b (ring_of b l) n"
proof (cases "checkpoint_interval b dvd n")
  case True
  have "crlog_fetch b l n = (if crlog_within_range b l n then Some (cr_records l ! record_index b l n) else None)"
    using True record_index_less [OF assms True] crlog_length [OF assms]
    by (simp add: crlog_fetch_def crlog_slot_def arr_get_def dvd_eq_mod_eq_0)
  moreover have "cl_certs (ring_of b l) ! record_index b l n = cr_records l ! record_index b l n"
    using record_index_less [OF assms True] by (simp add: ring_of_def)
  ultimately show ?thesis
    using True by (simp add: crlog_lookup_def clog_fetch_eq [OF ring_of_inv [OF assms]] crlog_range_ring record_index_ring)
qed (simp add: crlog_lookup_def clog_fetch_eq [OF ring_of_inv [OF assms]])

lemma fold_clr_at_take:
  assumes "\<And>n. n \<in> set ns \<Longrightarrow> g n < k" "k \<le> length xs"
  shows "fold_opt (\<lambda>n. clr_at clr (g n)) ns (take k xs) = map_option (take k) (fold_opt (\<lambda>n. clr_at clr (g n)) ns xs)"
  using assms
proof (induction ns arbitrary: xs)
  case (Cons n ns)
  have "g n < k" "g n < length xs" using Cons.prems(1) [of n] Cons.prems(2) by simp_all
  then have "clr_at clr (g n) (take k xs) = Some (take k (xs[g n := clr (xs ! g n)]))"
    "clr_at clr (g n) xs = Some (xs[g n := clr (xs ! g n)])"
    by (simp_all add: clr_at_def arr_get_def arr_set_def take_update_swap)
  with Cons show ?case by simp
qed simp

lemma clr_at_beyond:
  assumes "i < length xs" "k \<le> i"
  shows "\<exists>ys. (if c then clr_at clr i xs else Some xs) = Some ys \<and> length ys = length xs \<and> take k ys = take k xs"
  using assms by (cases c) (simp_all add: clr_at_def arr_get_def arr_set_def take_update_cancel)

lemma crlog_truncate_within:
  assumes "crlog_inv b l" "checkpoint_interval b dvd h" "cr_head l < h" "crlog_within_range b l h"
  shows "\<exists>l'. crlog_truncate b clr l h = Some l' \<and> crlog_inv b l' \<and>
    clog_truncate b clr (ring_of b l) h = Some (ring_of b l')"
proof -
  let ?ns = "checkpoints_from b (cr_head l) h" and ?k = "nat (clog_MAX_SIZE b)" and ?g = "record_index b l"
  have i: "interval_ok b" "0 < checkpoint_interval b" "checkpoint_interval b dvd cr_head l"
    using assms(1) by (auto simp: crlog_inv_def interval_ok_def)
  have ns: "checkpoint_interval b dvd n" if "n \<in> set ?ns" for n
    using that checkpoints_from_set [OF i(2,3) assms(2) less_imp_le [OF assms(3)]] by auto
  note len = crlog_length [OF assms(1)]
  have lt: "?g n < ?k" if "n \<in> set ?ns" for n using record_index_less [OF assms(1) ns [OF that]] .
  obtain rs where rs: "fold_opt (\<lambda>n. clr_at clr (?g n)) ?ns (cr_records l) = Some rs" "length rs = Suc ?k"
    using fold_clr_at [of ?ns ?g "cr_records l" clr] lt len by (metis less_SucI)
  have tk: "fold_opt (\<lambda>n. clr_at clr (?g n)) ?ns (take ?k (cr_records l)) = Some (take ?k rs)"
    using fold_clr_at_take [of ?ns ?g ?k "cr_records l" clr] lt len rs(1) by simp
  have cong: "fold_opt (\<lambda>n. clr_at clr (certificate_index b (ring_of b l) n)) ms xs =
      fold_opt (\<lambda>n. clr_at clr (?g n)) ms xs" if "set ms \<subseteq> set ?ns" for ms xs
    using that by (intro fold_opt_cong) (simp_all add: subset_iff record_index_ring [OF ns])
  obtain rs' where rs': "(if cr_fetch_seqno l < h then clr_at clr (nat (crlog_MAX_SIZE b - 1)) rs else Some rs) = Some rs'"
    "length rs' = Suc ?k" "take ?k rs' = take ?k rs"
    using clr_at_beyond [of "nat (crlog_MAX_SIZE b - 1)" rs ?k "cr_fetch_seqno l < h" clr] rs(2) extra_slot [OF i(1)]
    by auto
  define l' where "l' = l\<lparr>cr_records := rs', cr_head_index := int (?g h), cr_head := h\<rparr>"
  have "crlog_truncate b clr l h = Some l'"
    using assms(2-4) rs(1) rs'(1) by (simp add: crlog_truncate_def l'_def dvd_eq_mod_eq_0)
  moreover have "crlog_inv b l'"
    using assms(1-3) rs'(2) MAX_SIZE_pos [of b] by (auto simp: crlog_inv_def l'_def)
  moreover have "clog_truncate b clr (ring_of b l) h = Some (ring_of b l')"
    using assms(2-4) tk rs'(3) cong [of ?ns "take ?k (cr_records l)"] record_index_ring [OF assms(2), of l]
    by (simp add: clog_truncate_def crlog_range_ring dvd_eq_mod_eq_0) (simp add: ring_of_def l'_def)
  ultimately show ?thesis by blast
qed

lemma crlog_put_law:
  assumes "crlog_inv b l" "crlog_lookup b l n \<noteq> None"
  shows "\<exists>l'. crlog_put b l n x = Some l' \<and> crlog_inv b l' \<and> cr_head l' = cr_head l \<and>
    clog_put b (ring_of b l) n x = Some (ring_of b l')"
proof -
  have n: "checkpoint_interval b dvd n" "crlog_within_range b l n"
    using assms by (auto simp: crlog_lookup_ring clog_fetch_eq ring_of_inv crlog_range_ring split: if_splits)
  define l' where "l' = l\<lparr>cr_records := (cr_records l)[record_index b l n := x]\<rparr>"
  have lt: "record_index b l n < nat (clog_MAX_SIZE b)" by (rule record_index_less [OF assms(1) n(1)])
  have "crlog_put b l n x = Some l'" "crlog_inv b l'"
    using n lt crlog_length [OF assms(1)] assms(1)
    by (simp_all add: crlog_put_def crlog_slot_def arr_set_def l'_def dvd_eq_mod_eq_0 crlog_inv_def)
  moreover have "clog_put b (ring_of b l) n x = Some (ring_of b l')"
    using n lt crlog_length [OF assms(1)] record_index_ring [OF n(1), of l]
    by (simp add: clog_put_def crlog_range_ring arr_set_def dvd_eq_mod_eq_0)
      (simp add: ring_of_def l'_def take_update_swap)
  ultimately show ?thesis by (auto simp: l'_def)
qed

interpretation rk: seq_window "crlog_lookup b" "crlog_put b" "crlog_truncate b clr" cr_head "\<lambda>_. max_out b + 1"
  "\<lambda>n. checkpoint_interval b dvd n" "crlog_inv b" "\<lambda>x. \<exists>y. x = clr y" lim
  for b and clr :: "'a \<Rightarrow> 'a" and lim
proof unfold_locales
  fix l :: "'a crlog" and n
  assume l: "crlog_inv b l"
  then show "crlog_lookup b l n \<noteq> None \<longleftrightarrow>
      checkpoint_interval b dvd n \<and> cr_head l \<le> n \<and> n < cr_head l + (max_out b + 1)"
    using ck.lookup_iff [OF ring_of_inv [OF l], of n] by (simp add: crlog_lookup_ring) (simp add: ring_of_def)
next
  fix l :: "'a crlog" and n x
  assume l: "crlog_inv b l" "crlog_lookup b l n \<noteq> None"
  obtain l' where l': "crlog_put b l n x = Some l'" "crlog_inv b l'" "cr_head l' = cr_head l"
    "clog_put b (ring_of b l) n x = Some (ring_of b l')" using crlog_put_law [OF l, of x] by blast
  have "clog_fetch b (ring_of b l') = (clog_fetch b (ring_of b l))(n \<mapsto> x)"
    using ck.put_ok [OF ring_of_inv [OF l(1)], of n x] l(2) l'(4) by (simp add: crlog_lookup_ring [OF l(1)])
  then have "crlog_lookup b l' = (crlog_lookup b l)(n \<mapsto> x)"
    by (simp add: fun_eq_iff crlog_lookup_ring [OF l(1)] crlog_lookup_ring [OF l'(2)])
  with l' show "\<exists>l'. crlog_put b l n x = Some l' \<and> crlog_inv b l' \<and> cr_head l' = cr_head l \<and>
      max_out b + 1 = max_out b + 1 \<and> crlog_lookup b l' = (crlog_lookup b l)(n \<mapsto> x)" by blast
next
  fix l :: "'a crlog" and h
  assume l: "crlog_inv b l" "checkpoint_interval b dvd h" "cr_head l \<le> h" "h \<le> lim"
  let ?post = "\<lambda>l'. (\<forall>n. h \<le> n \<and> n < cr_head l + (max_out b + 1) \<longrightarrow> crlog_lookup b l' n = crlog_lookup b l n) \<and>
      (\<forall>n x. cr_head l + (max_out b + 1) \<le> n \<and> crlog_lookup b l' n = Some x \<longrightarrow> (\<exists>y. x = clr y))"
  have hd: "cl_head (ring_of b m) = cr_head m" for m :: "'a crlog" by (simp add: ring_of_def)
  consider "h = cr_head l" | "\<not> crlog_within_range b l h" "cr_head l < h" | "cr_head l < h" "crlog_within_range b l h"
    using l(3) by linarith
  then have "\<exists>l'. crlog_truncate b clr l h = Some l' \<and> crlog_inv b l' \<and> cr_head l' = h \<and> ?post l'"
  proof cases
    case 1
    have "crlog_lookup b l n = None" if "cr_head l + (max_out b + 1) \<le> n" for n
      using that ck.lookup_iff [OF ring_of_inv [OF l(1)], of n] by (auto simp: crlog_lookup_ring [OF l(1)] hd)
    with 1 l(1,2) show ?thesis by (auto simp: crlog_truncate_def dvd_eq_mod_eq_0)
  next
    case 2
    have t: "crlog_truncate b clr l h = Some (crlog_clear clr l h)"
      using 2 l(2) by (simp add: crlog_truncate_def dvd_eq_mod_eq_0)
    have i: "crlog_inv b (crlog_clear clr l h)" using l by (auto simp: crlog_clear_def crlog_inv_def)
    have "\<exists>y. x = clr y" if "crlog_lookup b (crlog_clear clr l h) n = Some x" for n x
      using that certificate_index_less [OF ring_of_inv [OF i], of n]
      unfolding crlog_lookup_ring [OF i] clog_fetch_eq [OF ring_of_inv [OF i]]
      by (auto simp: ring_of_def crlog_clear_def take_map split: if_splits)
    moreover have "cr_head l + max_out b < h" using 2 by (simp add: crlog_within_range_def)
    ultimately show ?thesis using t i by (auto simp: crlog_clear_def)
  next
    case 3
    obtain l' where l': "crlog_truncate b clr l h = Some l'" "crlog_inv b l'"
      "clog_truncate b clr (ring_of b l) h = Some (ring_of b l')"
      using crlog_truncate_within [OF l(1,2) 3] by blast
    have c: "cr_head l' = h \<and>
      (\<forall>n. h \<le> n \<and> n < cr_head l + (max_out b + 1) \<longrightarrow> clog_fetch b (ring_of b l') n = clog_fetch b (ring_of b l) n) \<and>
      (\<forall>n x. cr_head l + (max_out b + 1) \<le> n \<and> clog_fetch b (ring_of b l') n = Some x \<longrightarrow> (\<exists>y. x = clr y))"
      using ck.trunc_ok [OF ring_of_inv [OF l(1)] l(2) _ l(4), of clr] l(3) l'(3) by (simp add: hd)
    then have "?post l'" unfolding crlog_lookup_ring [OF l(1)] crlog_lookup_ring [OF l'(2)] by blast
    then show ?thesis using l'(1,2) c by blast
  qed
  then show "\<exists>l'. crlog_truncate b clr l h = Some l' \<and> crlog_inv b l' \<and> cr_head l' = h \<and>
      max_out b + 1 = max_out b + 1 \<and> ?post l'" by blast
qed

section \<open>Properties\<close>

lemma CheckpointLog_new_inv: "interval_ok b \<Longrightarrow> clog_inv b (CheckpointLog_new b fresh)"
  by (simp add: clog_inv_def CheckpointLog_new_def)

text \<open>C24: A certificate stored in the checkpoint log stays at its sequence number while the window moves: after
  any truncation to a checkpoint at or below it the log still returns it, and every certificate returned for
  a checkpoint that has just entered the window has been cleared.\<close>

theorem clog_put_truncate:
  assumes "clog_inv b l" "clog_put b l n x = Some l1"
    and "checkpoint_interval b dvd h" "cl_head l \<le> h" "h \<le> n"
  shows "\<exists>l2. clog_truncate b clr l1 h = Some l2 \<and> clog_inv b l2 \<and> cl_head l2 = h \<and> clog_fetch b l2 n = Some x \<and>
    (\<forall>m y. cl_head l + max_out b < m \<and> clog_fetch b l2 m = Some y \<longrightarrow> (\<exists>z. y = clr z))"
proof -
  have n: "clog_fetch b l n \<noteq> None"
    using assms(2) certificate_index_less [OF assms(1), of n]
    by (auto simp: clog_put_def clog_fetch_def arr_get_def arr_set_def split: if_splits)
  have l1: "clog_inv b l1" "cl_head l1 = cl_head l"
    using ck.put_ok [OF assms(1) n, of x] assms(2) by auto
  obtain l2 where l2: "clog_truncate b clr l1 h = Some l2" "clog_inv b l2" "cl_head l2 = h"
    "\<And>m y. cl_head l1 + (max_out b + 1) \<le> m \<and> clog_fetch b l2 m = Some y \<Longrightarrow> \<exists>z. y = clr z"
    using ck.trunc_ok [OF l1(1) assms(3), of h clr] assms(4) l1(2) by auto
  have "clog_fetch b l2 n = Some x"
    using ck.put_trunc_lookup [OF assms(1) n assms(2) l2(1) assms(3-5) order_refl] .
  moreover have "\<exists>z. y = clr z" if "cl_head l + max_out b < m" "clog_fetch b l2 m = Some y" for m y
    by (rule l2(4) [of m]) (use that l1(2) in auto)
  ultimately show ?thesis using l2(1-3) by blast
qed

theorem clog_put_truncate_witness:
  "\<exists>l1 l2. clog_put default_build (CheckpointLog_new default_build (0::nat)) 256 7 = Some l1 \<and>
     clog_truncate default_build (\<lambda>_. 0) l1 128 = Some l2 \<and> clog_fetch default_build l2 256 = Some 7"
proof -
  let ?l = "CheckpointLog_new default_build (0::nat)"
  have i: "clog_inv default_build ?l"
    by (rule CheckpointLog_new_inv [OF build_ok_interval [OF default_build_ok]])
  obtain l1 where p: "clog_put default_build ?l 256 7 = Some l1"
    by (simp add: clog_put_def clog_within_range_def clog_max_seqno_def arr_set_def certificate_index_def
        CheckpointLog_new_def default_build_def clog_MAX_SIZE_def)
  have h: "checkpoint_interval default_build dvd 128" "cl_head ?l \<le> 128" "(128::int) \<le> 256"
    by (simp_all add: default_build_def CheckpointLog_new_def)
  from clog_put_truncate [OF i p h, of "\<lambda>_. 0"] p show ?thesis by blast
qed

text \<open>The slot for the checkpoint being fetched is separate from the window of the record log: setting the
  fetched sequence number and writing to its record leave the record of every checkpoint as it is, and moving
  the window past it clears it.\<close>

theorem crlog_fetch_slot:
  assumes "crlog_inv b l" "set_fetch_seqno b clr l n = Some l1" "\<not> checkpoint_interval b dvd n"
    and "crlog_put b l1 n x = Some l2"
  shows "crlog_fetch b l2 n = Some x \<and> (\<forall>m. checkpoint_interval b dvd m \<longrightarrow> crlog_fetch b l2 m = crlog_fetch b l m) \<and>
    (\<forall>h l3. checkpoint_interval b dvd h \<and> n < h \<and> cr_head l < h \<and> crlog_truncate b clr l2 h = Some l3 \<longrightarrow>
      (\<exists>y. cr_records l3 ! nat (crlog_MAX_SIZE b - 1) = clr y))"
proof -
  have b: "interval_ok b" using assms(1) by (simp add: crlog_inv_def)
  let ?k = "nat (clog_MAX_SIZE b)"
  note ex = extra_slot [OF b] and len = crlog_length [OF assms(1)]
  obtain rs where rs0: "(if cr_fetch_seqno l \<noteq> - 1 then clr_at clr (nat (crlog_MAX_SIZE b - 1)) (cr_records l)
      else Some (cr_records l)) = Some rs" and rs: "l1 = l\<lparr>cr_records := rs, cr_fetch_seqno := n\<rparr>" "take ?k rs = take ?k (cr_records l)" "length rs = Suc ?k"
    using assms(2) len ex clr_at_beyond [of "nat (crlog_MAX_SIZE b - 1)" "cr_records l" ?k "cr_fetch_seqno l \<noteq> - 1" clr]
    unfolding set_fetch_seqno_def by force
  have wr: "crlog_within_range b l n"
    using assms(4) rs(1) by (auto simp: crlog_put_def crlog_slot_def crlog_within_range_def split: if_splits)
  have l2: "l2 = l\<lparr>cr_records := rs[?k := x], cr_fetch_seqno := n\<rparr>"
    using assms(3,4) rs(1,3) ex wr
    by (auto simp: crlog_put_def crlog_slot_def arr_set_def crlog_within_range_def dvd_eq_mod_eq_0)
  have i2: "crlog_inv b l2" using assms(1) rs(3) len by (simp add: crlog_inv_def l2)
  have "crlog_fetch b l2 n = Some x"
    using assms(3) rs(3) ex wr
    by (simp add: crlog_fetch_def crlog_slot_def arr_get_def l2 crlog_within_range_def dvd_eq_mod_eq_0)
  moreover have "ring_of b l2 = ring_of b l" using rs(2) by (simp add: ring_of_def l2 take_update_cancel)
  then have "crlog_fetch b l2 m = crlog_fetch b l m" if "checkpoint_interval b dvd m" for m
    using crlog_lookup_ring [OF i2, of m] crlog_lookup_ring [OF assms(1), of m] that by (simp add: crlog_lookup_def)
  moreover have "\<exists>y. cr_records l3 ! nat (crlog_MAX_SIZE b - 1) = clr y"
    if h: "checkpoint_interval b dvd h" "n < h" "cr_head l < h" "crlog_truncate b clr l2 h = Some l3" for h l3
  proof (cases "crlog_within_range b l2 h")
    case True
    then obtain ys zs where "clr_at clr ?k ys = Some zs" "cr_records l3 = zs"
      using h ex by (auto simp: crlog_truncate_def l2 dvd_eq_mod_eq_0 split: if_splits Option.bind_splits)
    then have "cr_records l3 ! ?k = clr (ys ! ?k)"
      by (auto simp: clr_at_def arr_get_def arr_set_def split: if_splits dest: sym)
    then show ?thesis unfolding ex by (rule exI)
  next
    case False
    then have "cr_records l3 = map clr (cr_records l2)"
      using h by (auto simp: crlog_truncate_def l2 crlog_clear_def dvd_eq_mod_eq_0)
    then have "cr_records l3 ! ?k = clr x" using rs(3) by (simp add: l2)
    then show ?thesis unfolding ex by (rule exI)
  qed
  ultimately show ?thesis by blast
qed

theorem crlog_fetch_slot_witness:
  "\<exists>l1 l2. set_fetch_seqno default_build (\<lambda>_. 0) (CheckpointRecordLog_new default_build (0::nat) 0) 5 = Some l1 \<and>
     crlog_put default_build l1 5 9 = Some l2 \<and> crlog_fetch default_build l2 5 = Some 9"
proof -
  let ?l = "CheckpointRecordLog_new default_build (0::nat) 0"
  have i: "crlog_inv default_build ?l"
    using build_ok_interval [OF default_build_ok] by (simp add: crlog_inv_def CheckpointRecordLog_new_def)
  obtain l1 where 1: "set_fetch_seqno default_build (\<lambda>_. 0) ?l 5 = Some l1" "l1 = ?l\<lparr>cr_fetch_seqno := 5\<rparr>"
    by (simp add: set_fetch_seqno_def CheckpointRecordLog_new_def)
  obtain l2 where 2: "crlog_put default_build l1 5 9 = Some l2"
    by (simp add: 1(2) crlog_put_def crlog_slot_def crlog_within_range_def arr_set_def CheckpointRecordLog_new_def
        default_build_def crlog_MAX_SIZE_def)
  have n: "\<not> checkpoint_interval default_build dvd 5" by (simp add: default_build_def)
  from crlog_fetch_slot [OF i 1(1) n 2] 1(1) 2 show ?thesis by blast
qed

end
