(* ===== verification/Auth.thy ===== *)
theory Auth
  imports Prelude
begin

text \<open>
  Message authentication: digest comparison (\<^verbatim>\<open>Digest.h\<close>), MAC comparison (\<^verbatim>\<open>hmac.cc\<close>) and
  the session keys of a principal (\<^verbatim>\<open>Principal.h\<close>, \<^verbatim>\<open>Principal.cc\<close>). The hash functions are
  MbedTLS code: the HMAC of a key and a byte string is the parameter \<open>H\<close>.
\<close>

type_synonym byte = "8 word"
type_synonym digest = "32 word list"
type_synonym key = "32 word list"

section \<open>Digests\<close>

definition num_words :: nat where
  "num_words = 8"

definition digest_zero :: digest where
  "digest_zero = replicate num_words 0"

definition is_zero :: "digest \<Rightarrow> bool" where
  "is_zero d \<longleftrightarrow> d ! 0 = 0"

definition digest_hash :: "digest \<Rightarrow> 32 word" where
  "digest_hash d = d ! 0"

definition digest_eq :: "digest \<Rightarrow> digest \<Rightarrow> bool" where
  "digest_eq d x =
     (let diff = fold (\<lambda>i df. df OR (d ! i XOR x ! i)) [0..<num_words] 0
      in drop_bit 63 ((ucast (diff XOR 0) :: 64 word) - 1) \<noteq> 0)"

section \<open>MACs\<close>

text \<open>
  \<^verbatim>\<open>Hmac::equal\<close> takes the bytes as \<^verbatim>\<open>char\<close>, whose signedness the platform chooses: before the
  exclusive or each byte is promoted to \<^verbatim>\<open>int\<close>, with sign extension when \<open>char\<close> is signed.
\<close>

definition char_int :: "bool \<Rightarrow> byte \<Rightarrow> 32 word" where
  "char_int sc b = (if sc then scast b else ucast b)"

definition hmac_equal :: "bool \<Rightarrow> byte list \<Rightarrow> byte list \<Rightarrow> nat \<Rightarrow> bool" where
  "hmac_equal sc mac1 mac2 len =
     (let diff = fold (\<lambda>i df. df OR (char_int sc (mac1 ! i) XOR char_int sc (mac2 ! i))) [0..<len] 0
      in drop_bit 31 ((diff XOR 0) - 1) \<noteq> (0 :: 32 word))"

record hmac =
  initialized :: bool
  hkey :: key

definition hmac_new :: "key \<Rightarrow> hmac" where
  "hmac_new junk = \<lparr>initialized = False, hkey = junk\<rparr>"

definition replace_key :: "hmac \<Rightarrow> key \<Rightarrow> hmac" where
  "replace_key h k = h\<lparr>initialized := True, hkey := k\<rparr>"

definition HMAC_size :: nat where
  "HMAC_size = 32"

definition hmac_equals :: "bool \<Rightarrow> (key \<Rightarrow> byte list \<Rightarrow> byte list) \<Rightarrow> hmac \<Rightarrow> byte list \<Rightarrow> byte list \<Rightarrow> bool" where
  "hmac_equals sc H h src other = hmac_equal sc (H (hkey h) src) other HMAC_size"

section \<open>Principals\<close>

record principal =
  pid :: int
  ssize :: int
  kin :: key
  kout :: key
  tstamp :: "64 word"
  my_tstamp :: int
  last_fetch :: request_id
  hmac_in :: hmac
  hmac_out :: hmac

text \<open>The constructor zeroes the first four words of each key and leaves the other four as the
  memory had them (\<open>jin\<close>, \<open>jout\<close>).\<close>

definition Principal_new :: "key \<Rightarrow> key \<Rightarrow> key \<Rightarrow> int \<Rightarrow> int \<Rightarrow> principal" where
  "Principal_new jin jout jh i sz =
     (let ki = replicate 4 0 @ drop 4 jin; ko = replicate 4 0 @ drop 4 jout
      in \<lparr>pid = i, ssize = sz, kin = ki, kout = ko, tstamp = 0, my_tstamp = 0, last_fetch = 0,
          hmac_in = hmac_new jh, hmac_out = replace_key (hmac_new jh) ko\<rparr>)"

definition set_in_key :: "principal \<Rightarrow> key \<Rightarrow> principal" where
  "set_in_key p k = p\<lparr>kin := k, hmac_in := replace_key (hmac_in p) k\<rparr>"

definition set_out_key :: "int \<Rightarrow> principal \<Rightarrow> key \<Rightarrow> 64 word \<Rightarrow> principal" where
  "set_out_key now p k t =
     (if t > tstamp p
      then p\<lparr>kout := k, hmac_out := replace_key (hmac_out p) k, tstamp := t, my_tstamp := now\<rparr>
      else p)"

definition is_stale :: "principal \<Rightarrow> int \<Rightarrow> bool" where
  "is_stale p tv \<longleftrightarrow> tv < my_tstamp p"

definition verify_mac :: "bool \<Rightarrow> (key \<Rightarrow> byte list \<Rightarrow> byte list) \<Rightarrow> byte list \<Rightarrow> byte list \<Rightarrow> hmac \<Rightarrow> bool" where
  "verify_mac sc H src mac h = (if \<not> initialized h then False else hmac_equals sc H h src mac)"

definition gen_mac :: "(key \<Rightarrow> byte list \<Rightarrow> byte list) \<Rightarrow> byte list \<Rightarrow> hmac \<Rightarrow> byte list" where
  "gen_mac H src h = H (hkey h) src"

definition verify_mac_in :: "bool \<Rightarrow> (key \<Rightarrow> byte list \<Rightarrow> byte list) \<Rightarrow> principal \<Rightarrow> byte list \<Rightarrow> byte list \<Rightarrow> bool" where
  "verify_mac_in sc H p src mac = verify_mac sc H src mac (hmac_in p)"

definition verify_mac_out :: "bool \<Rightarrow> (key \<Rightarrow> byte list \<Rightarrow> byte list) \<Rightarrow> principal \<Rightarrow> byte list \<Rightarrow> byte list \<Rightarrow> bool" where
  "verify_mac_out sc H p src mac = verify_mac sc H src mac (hmac_out p)"

definition gen_mac_in :: "(key \<Rightarrow> byte list \<Rightarrow> byte list) \<Rightarrow> principal \<Rightarrow> byte list \<Rightarrow> byte list" where
  "gen_mac_in H p src = gen_mac H src (hmac_in p)"

definition gen_mac_out :: "(key \<Rightarrow> byte list \<Rightarrow> byte list) \<Rightarrow> principal \<Rightarrow> byte list \<Rightarrow> byte list" where
  "gen_mac_out H p src = gen_mac H src (hmac_out p)"

section \<open>Constant-time comparison\<close>

lemma bit_fold_or:
  "bit (fold (\<lambda>i df. df OR g i) is d) j \<longleftrightarrow> bit d j \<or> (\<exists>i \<in> set is. bit (g i :: 'a::len word) j)"
  by (induction "is" arbitrary: d) (auto simp: bit_or_iff)

lemma fold_or_zero:
  "fold (\<lambda>i df. df OR g i) is 0 = (0 :: 'a::len word) \<longleftrightarrow> (\<forall>i \<in> set is. g i = 0)"
proof -
  have "fold (\<lambda>i df. df OR g i) is 0 = (0 :: 'a word) \<longleftrightarrow>
      (\<forall>j. \<not> bit (fold (\<lambda>i df. df OR g i) is 0) j)"
    by (auto intro: bit_eqI)
  also have "\<dots> \<longleftrightarrow> (\<forall>i \<in> set is. \<forall>j. \<not> bit (g i) j)" by (auto simp: bit_fold_or)
  also have "\<dots> \<longleftrightarrow> (\<forall>i \<in> set is. g i = 0)" by (auto intro: bit_eqI)
  finally show ?thesis .
qed

lemma xor_zero_iff: "(a XOR b = 0) \<longleftrightarrow> a = (b :: 'a::len word)"
  by (metis xor.assoc xor.right_neutral xor_self_eq xor.left_neutral)

lemma uint_drop: "uint (drop_bit n (w :: 'a::len word)) = uint w div 2 ^ n"
  unfolding unsigned_drop_bit_eq by (simp add: drop_bit_eq_div take_bit_int_eq_self uint_bounded)

lemma drop_bit_zero_iff: "drop_bit n (w :: 'a::len word) = 0 \<longleftrightarrow> uint w < 2 ^ n"
proof -
  have "drop_bit n w = 0 \<longleftrightarrow> uint w div 2 ^ n = 0"
    unfolding uint_drop [symmetric] by (rule uint_0_iff [symmetric])
  also have "\<dots> \<longleftrightarrow> uint w < 2 ^ n"
    using pos_imp_zdiv_pos_iff [of "2 ^ n" "uint w"] div_pos_pos_trivial [of "uint w" "2 ^ n"]
      uint_nonnegative [of w]
    by (cases "uint w < 2 ^ n") auto
  finally show ?thesis .
qed

lemma borrow64: "drop_bit 63 ((ucast (d :: 32 word) :: 64 word) - 1) \<noteq> 0 \<longleftrightarrow> d = 0"
proof (cases "d = 0")
  case False
  have "uint d < 2 ^ 32" using uint_bounded [of d] by simp
  moreover have "0 < uint d" using False uint_0_iff [of d] uint_nonnegative [of d] by linarith
  ultimately have "uint ((ucast d :: 64 word) - 1) = uint d - 1"
    by (simp add: uint_word_ariths unsigned_ucast_eq take_bit_int_eq_self)
  then have "drop_bit 63 ((ucast d :: 64 word) - 1) = 0"
    using \<open>uint d < 2 ^ 32\<close> unfolding drop_bit_zero_iff by simp
  with False show ?thesis by simp
qed simp

text \<open>The digest comparison without branches is equality of the digests.\<close>

lemma digest_eq_iff:
  assumes "length d = num_words" "length x = num_words"
  shows "digest_eq d x \<longleftrightarrow> d = x"
proof -
  have "digest_eq d x \<longleftrightarrow> (\<forall>i \<in> set [0..<num_words]. d ! i XOR x ! i = 0)"
    by (simp add: digest_eq_def Let_def borrow64 fold_or_zero)
  also have "\<dots> \<longleftrightarrow> d = x" using assms by (auto simp: xor_zero_iff list_eq_iff_nth_eq)
  finally show ?thesis .
qed

lemma borrow32: "drop_bit 31 ((d :: 32 word) - 1) \<noteq> 0 \<longleftrightarrow> d = 0 \<or> 2 ^ 31 < uint d"
proof (cases "d = 0")
  case False
  have "uint d < 2 ^ 32" using uint_bounded [of d] by simp
  moreover have "0 < uint d" using False uint_0_iff [of d] uint_nonnegative [of d] by linarith
  ultimately have "uint (d - 1) = uint d - 1"
    by (simp add: uint_word_ariths)
  then show ?thesis using False unfolding drop_bit_zero_iff by auto
qed simp

lemma bit_char_int: "bit (char_int sc b) j \<longleftrightarrow> j < 32 \<and> (bit b j \<or> sc \<and> 7 \<le> j \<and> bit b 7)"
proof (cases "sc")
  case True
  have "bit b (min j 7) \<longleftrightarrow> bit b j \<or> 7 \<le> j \<and> bit b 7"
    using bit_imp_le_length [of b j] by (auto simp: min_def)
  with True show ?thesis
    by (auto simp: char_int_def bit_simps min_def split: if_splits)
next
  case False
  then show ?thesis using bit_imp_le_length [of b j] by (auto simp: char_int_def bit_simps)
qed

lemma char_int_inj: "char_int sc a = char_int sc b \<longleftrightarrow> a = b"
proof
  assume eq: "char_int sc a = char_int sc b"
  have "bit a j = bit b j" if "j < 8" for j
    using eq that bit_char_int [of sc a j] bit_char_int [of sc b j] by (cases "j = 7") auto
  then show "a = b" by (auto intro: bit_word_eqI)
qed simp

lemma top_bit_half:
  assumes "0 \<le> x" "x < 2 ^ 32"
  shows "odd (x div 2 ^ 31) \<longleftrightarrow> (2::int) ^ 31 \<le> x"
proof (cases "x < 2 ^ 31")
  case False
  then have "x div 2 ^ 31 = (x - 2 ^ 31) div 2 ^ 31 + 1" using div_pos_geq [of "2 ^ 31" x] by simp
  moreover have "(x - 2 ^ 31) div 2 ^ 31 = 0" using assms False by (intro div_pos_pos_trivial) auto
  ultimately show ?thesis using False by simp
qed (use assms in simp)

lemma hmac_diff_top:
  fixes m1 m2 :: "byte list" and len :: nat and sc :: bool
  defines "diff \<equiv> fold (\<lambda>i df. df OR (char_int sc (m1 ! i) XOR char_int sc (m2 ! i))) [0..<len] 0"
  shows "2 ^ 31 < uint diff \<longleftrightarrow> sc \<and> (\<exists>i < len. bit (m1 ! i) 7 \<noteq> bit (m2 ! i) 7)"
proof -
  let ?P = "\<lambda>j. \<exists>i < len. bit (char_int sc (m1 ! i)) j \<noteq> bit (char_int sc (m2 ! i)) j"
  have bits: "bit diff j \<longleftrightarrow> ?P j" for j
    unfolding diff_def bit_fold_or by (auto simp: bit_xor_iff)
  have top: "bit (char_int sc b) j \<longleftrightarrow> sc \<and> bit b 7" if "8 \<le> j" "j < 32" for b j
    using bit_imp_le_length [of b j] that by (auto simp: bit_char_int)
  have b31: "bit diff 31 \<longleftrightarrow> sc \<and> (\<exists>i < len. bit (m1 ! i) 7 \<noteq> bit (m2 ! i) 7)"
    by (auto simp: bits top)
  have b30: "bit diff 31 \<Longrightarrow> bit diff 30"
    unfolding bits by (simp add: top)
  have half: "2 ^ 31 \<le> uint diff \<longleftrightarrow> bit diff 31"
  proof -
    have "bit diff 31 \<longleftrightarrow> bit (uint diff) 31" by (simp add: bit_uint_iff)
    then have "bit diff 31 \<longleftrightarrow> odd (uint diff div 2 ^ 31)" by (simp only: bit_iff_odd [of "uint diff"])
    moreover have "uint diff < 2 ^ 32" using uint_bounded [of diff] by simp
    ultimately show ?thesis using top_bit_half [of "uint diff"] uint_nonnegative [of diff] by simp
  qed
  have "uint diff \<noteq> 2 ^ 31" if "bit diff 31"
  proof
    assume "uint diff = 2 ^ 31"
    then have "\<not> bit (uint diff) 30" by (simp add: bit_iff_odd)
    then show False using b30 [OF that] by (simp add: bit_uint_iff)
  qed
  with half b31 show ?thesis by (auto simp: le_less)
qed

text \<open>What \<^verbatim>\<open>Hmac::equal\<close> decides, for either signedness of \<^verbatim>\<open>char\<close>.\<close>

lemma hmac_equal_iff:
  assumes "length m1 = len" "length m2 = len"
  shows "hmac_equal sc m1 m2 len \<longleftrightarrow> m1 = m2 \<or> sc \<and> (\<exists>i < len. bit (m1 ! i) 7 \<noteq> bit (m2 ! i) 7)"
proof -
  have "(\<forall>i \<in> set [0..<len]. char_int sc (m1 ! i) XOR char_int sc (m2 ! i) = 0) \<longleftrightarrow>
      (\<forall>i < len. m1 ! i = m2 ! i)"
    unfolding xor_zero_iff char_int_inj by auto
  also have "\<dots> \<longleftrightarrow> m1 = m2" using assms by (metis nth_equalityI)
  finally have "(\<forall>i \<in> set [0..<len]. char_int sc (m1 ! i) XOR char_int sc (m2 ! i) = 0) \<longleftrightarrow> m1 = m2" .
  moreover have "hmac_equal sc m1 m2 len \<longleftrightarrow>
      (\<forall>i \<in> set [0..<len]. char_int sc (m1 ! i) XOR char_int sc (m2 ! i) = 0) \<or>
      sc \<and> (\<exists>i < len. bit (m1 ! i) 7 \<noteq> bit (m2 ! i) 7)"
  proof -
    define diff where
      "diff = fold (\<lambda>i df. df OR (char_int sc (m1 ! i) XOR char_int sc (m2 ! i))) [0..<len] 0"
    have "hmac_equal sc m1 m2 len \<longleftrightarrow> drop_bit 31 (diff - 1) \<noteq> 0"
      unfolding hmac_equal_def Let_def diff_def by (simp only: xor.right_neutral)
    also have "\<dots> \<longleftrightarrow> diff = 0 \<or> 2 ^ 31 < uint diff" by (rule borrow32)
    also have "diff = 0 \<longleftrightarrow> (\<forall>i \<in> set [0..<len]. char_int sc (m1 ! i) XOR char_int sc (m2 ! i) = 0)"
      unfolding diff_def by (rule fold_or_zero)
    also have "2 ^ 31 < uint diff \<longleftrightarrow> sc \<and> (\<exists>i < len. bit (m1 ! i) 7 \<noteq> bit (m2 ! i) 7)"
      unfolding diff_def by (rule hmac_diff_top)
    finally show ?thesis .
  qed
  ultimately show ?thesis by (simp only:)
qed

section \<open>Properties\<close>

text \<open>\<^verbatim>\<open>Digest::operator==\<close>, written without branches over the words of two digests,
  holds exactly when the digests are equal.\<close>

theorem digest_eq_is_equality:
  assumes "length d = num_words" "length x = num_words"
  shows "digest_eq d x \<longleftrightarrow> d = x"
  by (rule digest_eq_iff [OF assms])

theorem digest_eq_is_equality_witness:
  "\<not> digest_eq digest_zero (digest_zero[3 := 5]) \<and> digest_eq digest_zero digest_zero"
  using digest_eq_is_equality [of digest_zero "digest_zero[3 := 5]"]
    digest_eq_is_equality [of digest_zero digest_zero]
  by (simp add: digest_zero_def num_words_def list_eq_iff_nth_eq exI [of _ 3])

text \<open>Where \<^verbatim>\<open>char\<close> is unsigned, a MAC is accepted exactly when it is the MAC of the message
  under the principal's key and the key was set.\<close>

theorem verify_mac_unsigned_char:
  assumes "length (H (hkey h) src) = HMAC_size" "length mac = HMAC_size"
  shows "verify_mac False H src mac h \<longleftrightarrow> initialized h \<and> mac = gen_mac H src h"
  using hmac_equal_iff [OF assms, of False]
  by (auto simp: verify_mac_def hmac_equals_def gen_mac_def)

theorem verify_mac_unsigned_char_witness:
  "\<not> verify_mac False (\<lambda>k s. replicate 32 0) [] (replicate 32 128)
     (replace_key (hmac_new []) [1])"
proof -
  have "(replicate 32 128 :: byte list) \<noteq> replicate 32 0" by (simp add: replicate_eq_replicate)
  then show ?thesis
    using verify_mac_unsigned_char [of "\<lambda>k s. replicate 32 0" "replace_key (hmac_new []) [1]" "[]"
        "replicate 32 128"]
    by (simp add: HMAC_size_def gen_mac_def)
qed

text \<open>C39: Where \<^verbatim>\<open>char\<close> is signed, sign extension makes \<^verbatim>\<open>Hmac::equal\<close> accept every MAC that
  differs from the right one in the top bit of some byte, so a MAC is accepted without the key.\<close>

theorem verify_mac_signed_char_forgery:
  assumes "initialized h" "length (H (hkey h) src) = HMAC_size" "length mac = HMAC_size"
    and "i < HMAC_size" "bit (mac ! i) 7 \<noteq> bit (gen_mac H src h ! i) 7"
  shows "mac \<noteq> gen_mac H src h \<and> verify_mac True H src mac h"
  using hmac_equal_iff [OF assms(2,3), of True] assms
  by (auto simp: verify_mac_def hmac_equals_def gen_mac_def)

theorem verify_mac_signed_char_forgery_witness:
  "verify_mac True (\<lambda>k s. replicate 32 0) [] (replicate 32 128) (replace_key (hmac_new []) [1])"
  using verify_mac_signed_char_forgery [of "replace_key (hmac_new []) [1]" "\<lambda>k s. replicate 32 0"
      "[]" "replicate 32 128" 0]
  by (simp add: HMAC_size_def gen_mac_def replace_key_def bit_numeral_rec)

end
