(* ===== verification/Regions.thy ===== *)
theory Regions
  imports Checkpoint_Logs Auth
begin

text \<open>
  The statically allocated message memory of the TinyBFT build: the scratch allocator
  (\<^verbatim>\<open>scratch_allocator.cc\<close>), the agreement region (\<^verbatim>\<open>agreement_region.cc\<close>), the checkpoint region
  (\<^verbatim>\<open>checkpoint_region.cc\<close>) and the special region (\<^verbatim>\<open>special_region.cc\<close>). A block is the byte array of one
  message; \<^verbatim>\<open>memcpy\<close> into it is \<open>None\<close> when it would write past the block. A message is given by the
  fields the regions read and by its contents.
\<close>

section \<open>Blocks\<close>

type_synonym block = "byte list"

definition memcpy :: "block \<Rightarrow> byte list \<Rightarrow> block option" where
  "memcpy blk bs = (if length bs \<le> length blk then Some (bs @ drop (length bs) blk) else None)"

definition store_block :: "block list \<Rightarrow> nat \<Rightarrow> byte list \<Rightarrow> block list option" where
  "store_block blks i bs = do {
     blk \<leftarrow> arr_get blks i;
     blk' \<leftarrow> memcpy blk bs;
     arr_set blks i blk' }"

definition arr_int :: "'a list \<Rightarrow> int \<Rightarrow> 'a option" where
  "arr_int xs i = (if i < 0 then None else arr_get xs (nat i))"

lemma memcpy_length: "memcpy blk bs = Some blk' \<Longrightarrow> length blk' = length blk \<and> take (length bs) blk' = bs"
  by (auto simp: memcpy_def split: if_splits)

lemma store_block_get:
  assumes "store_block blks i bs = Some blks'"
  shows "length blks' = length blks \<and> i < length blks \<and> length bs \<le> length (blks ! i) \<and>
    arr_get blks' i = Some (bs @ drop (length bs) (blks ! i)) \<and> (\<forall>j. j \<noteq> i \<longrightarrow> arr_get blks' j = arr_get blks j)"
  using assms by (auto simp: store_block_def arr_get_def arr_set_def memcpy_def split: if_splits)

section \<open>The scratch allocator\<close>

definition SLOTS :: nat where "SLOTS = 3"

record scratch =
  sc_region :: "byte list"
  sc_bitmap :: "8 word list"

definition scratch_new :: "nat \<Rightarrow> scratch" where
  "scratch_new Max_message_size = \<lparr>sc_region = replicate (SLOTS * Max_message_size) 0, sc_bitmap = replicate ((SLOTS + 7) div 8) 0\<rparr>"

text \<open>\<^verbatim>\<open>char map\<close> makes the byte signed; the arithmetic shift and the mask still read bit \<open>i % 8\<close>.\<close>

definition sc_get_bit :: "scratch \<Rightarrow> nat \<Rightarrow> int option" where
  "sc_get_bit s i = do {
     w \<leftarrow> arr_get (sc_bitmap s) (i div 8);
     Some (drop_bit (i mod 8) (sint w) AND 1) }"

definition sc_set_bit :: "scratch \<Rightarrow> nat \<Rightarrow> scratch option" where
  "sc_set_bit s i = do {
     w \<leftarrow> arr_get (sc_bitmap s) (i div 8);
     bs \<leftarrow> arr_set (sc_bitmap s) (i div 8) (w OR push_bit (i mod 8) 1);
     Some (s\<lparr>sc_bitmap := bs\<rparr>) }"

definition sc_unset_bit :: "scratch \<Rightarrow> nat \<Rightarrow> scratch option" where
  "sc_unset_bit s i = do {
     w \<leftarrow> arr_get (sc_bitmap s) (i div 8);
     bs \<leftarrow> arr_set (sc_bitmap s) (i div 8) (w AND NOT (push_bit (i mod 8) 1));
     Some (s\<lparr>sc_bitmap := bs\<rparr>) }"

text \<open>Addresses are offsets from \<^verbatim>\<open>scratch_region\<close>. The loop of \<^verbatim>\<open>malloc\<close> over the slots.\<close>

fun malloc_from :: "nat \<Rightarrow> scratch \<Rightarrow> nat list \<Rightarrow> (int \<times> scratch) option" where
  "malloc_from mx s [] = th_fail"
| "malloc_from mx s (i # is) = do {
     b \<leftarrow> sc_get_bit s i;
     if b = 0 then do {
       let s1 = s\<lparr>sc_region := take (i * mx) (sc_region s) @ replicate mx 0 @ drop (i * mx + mx) (sc_region s)\<rparr>;
       s2 \<leftarrow> sc_set_bit s1 i;
       Some (int (i * mx), s2) }
     else malloc_from mx s is }"

definition scratch_malloc :: "nat \<Rightarrow> scratch \<Rightarrow> nat \<Rightarrow> (int \<times> scratch) option" where
  "scratch_malloc Max_message_size s sz = do {
     th_assert (sz \<le> Max_message_size);
     malloc_from Max_message_size s [0..<SLOTS] }"

definition is_in_scratch :: "nat \<Rightarrow> int \<Rightarrow> bool" where
  "is_in_scratch Max_message_size p \<longleftrightarrow> p \<ge> 0 \<and> p < int (SLOTS * Max_message_size)"

definition scratch_free :: "nat \<Rightarrow> scratch \<Rightarrow> int \<Rightarrow> scratch option" where
  "scratch_free Max_message_size s p = do {
     th_assert (p \<ge> 0 \<and> p < int (length (sc_region s)));
     let i = nat p div Max_message_size;
     b \<leftarrow> sc_get_bit s i;
     th_assert (b \<noteq> 0);
     s' \<leftarrow> sc_unset_bit s i;
     b' \<leftarrow> sc_get_bit s' i;
     th_assert (b' = 0);
     Some s' }"

text \<open>The abstract allocator: the set of slots in use.\<close>

definition used_slots :: "scratch \<Rightarrow> nat set" where
  "used_slots s = {i. i < SLOTS \<and> bit (sc_bitmap s ! 0) i}"

definition scratch_inv :: "nat \<Rightarrow> scratch \<Rightarrow> bool" where
  "scratch_inv mx s \<longleftrightarrow> 0 < mx \<and> length (sc_region s) = SLOTS * mx \<and> length (sc_bitmap s) = 1"

lemma sint_bit_8: "i < 8 \<Longrightarrow> bit (sint (w :: 8 word)) i = bit w i"
  by (simp add: bit_sint_iff min_def)

lemma drop_bit_and_1: "drop_bit i x AND (1::int) = (if bit x i then 1 else 0)"
  by (simp only: and_one_eq mod_2_eq_odd bit_iff_odd_drop_bit of_bool_def)

lemma sc_get_bit_eq:
  "scratch_inv mx s \<Longrightarrow> i < SLOTS \<Longrightarrow> sc_get_bit s i = Some (if i \<in> used_slots s then 1 else 0)"
  by (simp add: sc_get_bit_def scratch_inv_def arr_get_def SLOTS_def drop_bit_and_1 sint_bit_8 used_slots_def)

lemma sc_set_bit_eq:
  assumes "scratch_inv mx s" "i < SLOTS"
  shows "\<exists>s'. sc_set_bit s i = Some s' \<and> scratch_inv mx s' \<and> used_slots s' = insert i (used_slots s) \<and> sc_region s' = sc_region s"
proof -
  obtain w where w: "sc_bitmap s = [w]" using assms(1) by (auto simp: scratch_inv_def length_Suc_conv)
  show ?thesis
    using assms w
    by (auto simp: sc_set_bit_def arr_get_def arr_set_def SLOTS_def scratch_inv_def used_slots_def bit_or_iff
        bit_exp_iff)
qed

lemma sc_unset_bit_eq:
  assumes "scratch_inv mx s" "i < SLOTS"
  shows "\<exists>s'. sc_unset_bit s i = Some s' \<and> scratch_inv mx s' \<and> used_slots s' = used_slots s - {i} \<and> sc_region s' = sc_region s"
proof -
  obtain w where w: "sc_bitmap s = [w]" using assms(1) by (auto simp: scratch_inv_def length_Suc_conv)
  show ?thesis
    using assms w
    by (auto simp: sc_unset_bit_def arr_get_def arr_set_def SLOTS_def scratch_inv_def used_slots_def bit_and_iff
        bit_not_iff bit_exp_iff)
qed

lemma malloc_from_spec:
  assumes "scratch_inv mx s" "set is \<subseteq> {..<SLOTS}"
  shows "(malloc_from mx s is = None \<longleftrightarrow> set is \<subseteq> used_slots s) \<and>
    (\<forall>p s'. malloc_from mx s is = Some (p, s') \<longrightarrow> (\<exists>i < SLOTS. p = int (i * mx) \<and> i \<notin> used_slots s \<and>
       scratch_inv mx s' \<and> used_slots s' = insert i (used_slots s) \<and> take mx (drop (i * mx) (sc_region s')) = replicate mx 0))"
  using assms(2)
proof (induction "is")
  case (Cons i "is")
  then have i: "i < SLOTS" by simp
  show ?case
  proof (cases "i \<in> used_slots s")
    case True
    with Cons show ?thesis by (simp add: sc_get_bit_eq [OF assms(1) i])
  next
    case False
    define s1 where "s1 = s\<lparr>sc_region := take (i * mx) (sc_region s) @ replicate mx 0 @ drop (i * mx + mx) (sc_region s)\<rparr>"
    have le: "i * mx + mx \<le> length (sc_region s)"
      using i assms(1) mult_le_mono1 [of "Suc i" SLOTS mx] by (simp add: scratch_inv_def)
    have s1: "scratch_inv mx s1" "used_slots s1 = used_slots s" using assms(1) le
      by (auto simp: s1_def scratch_inv_def used_slots_def)
    have z: "take mx (drop (i * mx) (sc_region s1)) = replicate mx 0" using le by (simp add: s1_def)
    obtain s2 where s2: "sc_set_bit s1 i = Some s2" "scratch_inv mx s2" "used_slots s2 = insert i (used_slots s)"
      "sc_region s2 = sc_region s1" using sc_set_bit_eq [OF s1(1) i] s1(2) by auto
    have "malloc_from mx s (i # is) = Some (int (i * mx), s2)"
      using False s2(1) by (simp add: sc_get_bit_eq [OF assms(1) i] s1_def Let_def)
    then show ?thesis using False s2 z i by auto
  qed
qed (simp add: th_fail_def)

text \<open>C25: The scratch allocator implements the set of slots in use. An allocation of a message of legal size
  succeeds exactly when one of the three slots is free; it returns the start of a slot that was not in use,
  zeroed, and only adds that slot to the set. Freeing any address inside a slot in use returns the slot, and
  freeing an address of a slot that is not in use aborts.\<close>

theorem scratch_allocator_slots:
  assumes "scratch_inv mx s" "sz \<le> mx"
  shows "(scratch_malloc mx s sz = None \<longleftrightarrow> used_slots s = {..<SLOTS}) \<and>
    (\<forall>p s'. scratch_malloc mx s sz = Some (p, s') \<longrightarrow>
       (\<exists>i < SLOTS. p = int (i * mx) \<and> i \<notin> used_slots s \<and> scratch_inv mx s' \<and> used_slots s' = insert i (used_slots s) \<and>
          take mx (drop (i * mx) (sc_region s')) = replicate mx 0)) \<and>
    (\<forall>i < SLOTS. \<forall>d < mx. (scratch_free mx s (int (i * mx + d)) = None \<longleftrightarrow> i \<notin> used_slots s) \<and>
       (\<forall>s'. scratch_free mx s (int (i * mx + d)) = Some s' \<longrightarrow> scratch_inv mx s' \<and> used_slots s' = used_slots s - {i}))"
proof -
  have sub: "used_slots s \<subseteq> {..<SLOTS}" by (auto simp: used_slots_def)
  have m: "scratch_malloc mx s sz = malloc_from mx s [0..<SLOTS]" using assms(2) by (simp add: scratch_malloc_def)
  note spec = malloc_from_spec [OF assms(1), of "[0..<SLOTS]"]
  have "(scratch_free mx s (int (i * mx + d)) = None \<longleftrightarrow> i \<notin> used_slots s) \<and>
       (\<forall>s'. scratch_free mx s (int (i * mx + d)) = Some s' \<longrightarrow> scratch_inv mx s' \<and> used_slots s' = used_slots s - {i})"
    if i: "i < SLOTS" "d < mx" for i d
  proof -
    have j: "nat (int (i * mx + d)) div mx = i" using i(2) by (simp flip: of_nat_mult of_nat_add)
    have "i * mx + d < SLOTS * mx" using i mult_le_mono1 [of "Suc i" SLOTS mx] by simp
    then have r: "int (i * mx + d) < int (length (sc_region s))"
      using assms(1) unfolding scratch_inv_def of_nat_less_iff by simp
    obtain s' where s': "sc_unset_bit s i = Some s'" "scratch_inv mx s'" "used_slots s' = used_slots s - {i}"
      using sc_unset_bit_eq [OF assms(1) i(1)] by blast
    show ?thesis
      using r s' sc_get_bit_eq [OF assms(1) i(1)] sc_get_bit_eq [OF s'(2) i(1)]
      unfolding scratch_free_def Let_def j by (cases "i \<in> used_slots s") auto
  qed
  moreover have "(scratch_malloc mx s sz = None) = (used_slots s = {..<SLOTS})"
    using spec sub unfolding m by (auto simp: atLeast0LessThan)
  ultimately show ?thesis using spec unfolding m by (auto simp: atLeast0LessThan)
qed

theorem scratch_allocator_slots_witness:
  "\<exists>s'. scratch_malloc 8 (scratch_new 8) 5 = Some (0, s') \<and> used_slots s' = {0} \<and> scratch_free 8 (scratch_new 8) 3 = None"
proof -
  have i: "scratch_inv 8 (scratch_new 8)" by (simp add: scratch_inv_def scratch_new_def SLOTS_def)
  have u: "used_slots (scratch_new 8) = {}" by (simp add: used_slots_def scratch_new_def SLOTS_def)
  note t = scratch_allocator_slots [OF i, of 5, simplified]
  have "\<forall>i < SLOTS. \<forall>d < 8. scratch_free 8 (scratch_new 8) (int (i * 8 + d)) = None \<longleftrightarrow> i \<notin> used_slots (scratch_new 8)"
    using t by simp
  then have "scratch_free 8 (scratch_new 8) (int (0 * 8 + 3)) = None \<longleftrightarrow> 0 \<notin> used_slots (scratch_new 8)"
    by (elim allE [of _ 0] allE [of _ 3] impE) (simp_all add: SLOTS_def)
  then have f: "scratch_free 8 (scratch_new 8) 3 = None" using u by simp
  have "(0::nat) \<in> {..<SLOTS}" by (simp add: SLOTS_def)
  then have "{} \<noteq> {..<SLOTS}" by blast
  then have "scratch_malloc 8 (scratch_new 8) 5 \<noteq> None" using t u by simp
  then obtain p s' where m: "scratch_malloc 8 (scratch_new 8) 5 = Some (p, s')" by auto
  then have "p = 0"
    by (auto simp: scratch_malloc_def SLOTS_def scratch_new_def upt_rec sc_get_bit_def arr_get_def sc_set_bit_def Let_def
        split: Option.bind_splits)
  with t m u have "used_slots s' = {0}" by auto
  with m \<open>p = 0\<close> f show ?thesis by auto
qed

section \<open>The agreement region\<close>

definition F_slots :: "build \<Rightarrow> nat" where
  "F_slots b = nat (Max_num_replicas b div 3 + 1)"

record agreement_slice =
  as_pp :: block
  as_prepares :: "block list"
  as_commits :: "block list"

record agreement_region =
  ar_slices :: "agreement_slice list"
  ar_head :: seqno
  ar_head_index :: int

text \<open>\<open>mx\<close>, \<open>psz\<close> and \<open>csz\<close> are the sizes of the three kinds of blocks: \<^verbatim>\<open>MAX_MESSAGE_SIZE\<close> and the sizes of a
  prepare and of a commit with its authenticator.\<close>

definition agreement_region_new :: "build \<Rightarrow> nat \<Rightarrow> nat \<Rightarrow> nat \<Rightarrow> agreement_region" where
  "agreement_region_new b mx psz csz =
     \<lparr>ar_slices = replicate (nat (max_out b))
        \<lparr>as_pp = replicate mx 0, as_prepares = replicate (F_slots b) (replicate psz 0),
         as_commits = replicate (F_slots b) (replicate csz 0)\<rparr>,
      ar_head = 1, ar_head_index = 0\<rparr>"

definition ar_max_seqno :: "build \<Rightarrow> agreement_region \<Rightarrow> seqno" where
  "ar_max_seqno b R = ar_head R + max_out b - 1"

definition ar_within_range :: "build \<Rightarrow> agreement_region \<Rightarrow> seqno \<Rightarrow> bool" where
  "ar_within_range b R n \<longleftrightarrow> n \<ge> ar_head R \<and> n \<le> ar_max_seqno b R"

definition cert_index :: "build \<Rightarrow> agreement_region \<Rightarrow> seqno \<Rightarrow> nat" where
  "cert_index b R n = nat ((ar_head_index R + (n - ar_head R)) mod max_out b)"

definition put_slice :: "build \<Rightarrow> agreement_region \<Rightarrow> seqno \<Rightarrow> agreement_slice \<Rightarrow> agreement_region option" where
  "put_slice b R n sl = do {
     ss \<leftarrow> arr_set (ar_slices R) (cert_index b R n) sl;
     Some (R\<lparr>ar_slices := ss\<rparr>) }"

text \<open>\<^verbatim>\<open>new_pre_prepare\<close> constructs the message in its block: \<open>fill\<close> is the effect of the constructor on the old
  contents.\<close>

definition new_pre_prepare :: "build \<Rightarrow> agreement_region \<Rightarrow> seqno \<Rightarrow> (block \<Rightarrow> block) \<Rightarrow> agreement_region option" where
  "new_pre_prepare b R n fill = do {
     sl \<leftarrow> arr_get (ar_slices R) (cert_index b R n);
     put_slice b R n (sl\<lparr>as_pp := fill (as_pp sl)\<rparr>) }"

definition load_pre_prepare :: "build \<Rightarrow> agreement_region \<Rightarrow> seqno \<Rightarrow> block option" where
  "load_pre_prepare b R n = do {
     th_assert (ar_within_range b R n);
     sl \<leftarrow> arr_get (ar_slices R) (cert_index b R n);
     Some (as_pp sl) }"

definition store_pre_prepare :: "build \<Rightarrow> nat \<Rightarrow> agreement_region \<Rightarrow> seqno \<Rightarrow> byte list \<Rightarrow> agreement_region option" where
  "store_pre_prepare b Max_message_size R n bs = do {
     th_assert (ar_within_range b R n);
     th_assert (length bs \<le> Max_message_size);
     sl \<leftarrow> arr_get (ar_slices R) (cert_index b R n);
     blk \<leftarrow> memcpy (as_pp sl) bs;
     put_slice b R n (sl\<lparr>as_pp := blk\<rparr>) }"

definition load_prepare :: "build \<Rightarrow> agreement_region \<Rightarrow> seqno \<Rightarrow> nat \<Rightarrow> block option" where
  "load_prepare b R n i = do {
     th_assert (ar_within_range b R n);
     th_assert (i < F_slots b);
     sl \<leftarrow> arr_get (ar_slices R) (cert_index b R n);
     arr_get (as_prepares sl) i }"

definition store_prepare :: "build \<Rightarrow> agreement_region \<Rightarrow> seqno \<Rightarrow> nat \<Rightarrow> byte list \<Rightarrow> agreement_region option" where
  "store_prepare b R n i bs = do {
     th_assert (ar_within_range b R n);
     th_assert (i < F_slots b);
     sl \<leftarrow> arr_get (ar_slices R) (cert_index b R n);
     blks \<leftarrow> store_block (as_prepares sl) i bs;
     put_slice b R n (sl\<lparr>as_prepares := blks\<rparr>) }"

definition load_commit :: "build \<Rightarrow> agreement_region \<Rightarrow> seqno \<Rightarrow> nat \<Rightarrow> block option" where
  "load_commit b R n i = do {
     th_assert (ar_within_range b R n);
     th_assert (i < F_slots b);
     sl \<leftarrow> arr_get (ar_slices R) (cert_index b R n);
     arr_get (as_commits sl) i }"

definition store_commit :: "build \<Rightarrow> agreement_region \<Rightarrow> seqno \<Rightarrow> nat \<Rightarrow> byte list \<Rightarrow> agreement_region option" where
  "store_commit b R n i bs = do {
     th_assert (ar_within_range b R n);
     th_assert (i < F_slots b);
     sl \<leftarrow> arr_get (ar_slices R) (cert_index b R n);
     blks \<leftarrow> store_block (as_commits sl) i bs;
     put_slice b R n (sl\<lparr>as_commits := blks\<rparr>) }"

definition ar_truncate :: "build \<Rightarrow> agreement_region \<Rightarrow> seqno \<Rightarrow> agreement_region" where
  "ar_truncate b R new_head =
     (if new_head \<le> ar_head R then R
      else if \<not> ar_within_range b R new_head then R\<lparr>ar_head_index := 0, ar_head := new_head\<rparr>
      else R\<lparr>ar_head_index := new_head mod max_out b, ar_head := new_head\<rparr>)"

text \<open>The slot of a number is stable under truncation when the head sits in the slot of its own remainder.\<close>

definition ar_aligned :: "build \<Rightarrow> agreement_region \<Rightarrow> bool" where
  "ar_aligned b R \<longleftrightarrow> ar_head_index R = ar_head R mod max_out b"

lemma cert_index_aligned:
  assumes "ar_aligned b R"
  shows "cert_index b R n = nat (n mod max_out b)"
proof -
  have "(ar_head R mod max_out b + (n - ar_head R)) mod max_out b = (ar_head R + (n - ar_head R)) mod max_out b"
    by (rule mod_add_left_eq)
  then show ?thesis using assms by (simp add: cert_index_def ar_aligned_def)
qed

lemma cert_index_new: "cert_index b (agreement_region_new b mx psz csz) n = nat ((n - 1) mod max_out b)"
  by (simp add: cert_index_def agreement_region_new_def)

text \<open>C26: When the head of the agreement region sits in the slot of its own remainder, truncating inside the
  window keeps it there and every message of the new window is loaded from the slot it was stored in.\<close>

theorem agreement_truncate_keeps:
  assumes "ar_aligned b R" "ar_within_range b R h"
  shows "ar_aligned b (ar_truncate b R h) \<and> ar_head (ar_truncate b R h) = h \<and>
    (\<forall>n. h \<le> n \<and> n \<le> ar_max_seqno b R \<longrightarrow> load_pre_prepare b (ar_truncate b R h) n = load_pre_prepare b R n \<and>
       (\<forall>i. load_prepare b (ar_truncate b R h) n i = load_prepare b R n i \<and>
            load_commit b (ar_truncate b R h) n i = load_commit b R n i))"
proof -
  let ?R = "ar_truncate b R h"
  have f: "ar_aligned b ?R" "ar_head ?R = h" "ar_slices ?R = ar_slices R"
    using assms by (auto simp: ar_truncate_def ar_aligned_def ar_within_range_def)
  have ix: "cert_index b ?R n = cert_index b R n" for n
    by (simp add: cert_index_aligned [OF f(1)] cert_index_aligned [OF assms(1)])
  have "ar_within_range b ?R n \<and> ar_within_range b R n" if "h \<le> n" "n \<le> ar_max_seqno b R" for n
    using that assms(2) f(2) by (auto simp: ar_within_range_def ar_max_seqno_def)
  then show ?thesis
    using f by (simp add: load_pre_prepare_def load_prepare_def load_commit_def ix)
qed

theorem agreement_truncate_keeps_witness:
  "load_pre_prepare default_build (ar_truncate default_build (agreement_region_new default_build 8 8 8\<lparr>ar_head_index := 1\<rparr>) 2) 5 =
     load_pre_prepare default_build (agreement_region_new default_build 8 8 8\<lparr>ar_head_index := 1\<rparr>) 5"
proof -
  let ?R = "agreement_region_new default_build 8 8 8\<lparr>ar_head_index := 1\<rparr>"
  have "ar_aligned default_build ?R" "ar_within_range default_build ?R 2" "(5::int) \<le> ar_max_seqno default_build ?R"
    by (simp_all add: ar_aligned_def ar_within_range_def ar_max_seqno_def agreement_region_new_def default_build_def)
  then show ?thesis using agreement_truncate_keeps [of default_build ?R 2] by simp
qed

text \<open>The region does not start that way: its head is 1 in slot 0. After the first truncation inside the
  window, loading the pre-prepare of a number returns what was stored for its successor, and storing one
  overwrites the pre-prepare of the successor where the certificate that refers to it still finds it.\<close>

theorem agreement_truncate_shifts:
  assumes "R = agreement_region_new b mx psz csz" "0 < max_out b" "1 < h" "h \<le> n" "n < max_out b"
    and "length bs \<le> mx" "store_pre_prepare b mx R (n + 1) bs = Some R1"
  shows "load_pre_prepare b (ar_truncate b R1 h) n = Some (bs @ replicate (mx - length bs) 0) \<and>
    cert_index b (ar_truncate b R1 h) n = cert_index b R1 (n + 1)"
proof -
  have i: "cert_index b R m = nat ((m - 1) mod max_out b)" for m unfolding assms(1) by (rule cert_index_new)
  have n: "n mod max_out b = n" using assms(2-5) by simp
  have len: "nat n < length (ar_slices R)" using assms(2-5) by (simp add: assms(1) agreement_region_new_def)
  define sl where "sl = \<lparr>as_pp = replicate mx (0::byte), as_prepares = replicate (F_slots b) (replicate psz (0::byte)),
    as_commits = replicate (F_slots b) (replicate csz (0::byte))\<rparr>"
  have "ar_slices R ! nat n = sl" using len by (simp add: assms(1) agreement_region_new_def sl_def)
  then have R1: "R1 = R\<lparr>ar_slices := (ar_slices R)[nat n := sl\<lparr>as_pp := bs @ replicate (mx - length bs) 0\<rparr>]\<rparr>"
    using assms(7) len by (auto simp: store_pre_prepare_def arr_get_def memcpy_def put_slice_def arr_set_def i n sl_def
        split: if_splits)
  have hd: "ar_head R1 = 1" "ar_head_index R1 = 0" by (simp_all add: R1 assms(1) agreement_region_new_def)
  have t: "ar_truncate b R1 h = R1\<lparr>ar_head_index := h mod max_out b, ar_head := h\<rparr>"
    using assms(3-5) hd by (simp add: ar_truncate_def ar_within_range_def ar_max_seqno_def)
  have a: "ar_aligned b (ar_truncate b R1 h)" by (simp add: t ar_aligned_def)
  have c: "cert_index b (ar_truncate b R1 h) n = nat n" using cert_index_aligned [OF a, of n] n by simp
  have "cert_index b R1 (n + 1) = nat n" by (simp add: cert_index_def hd n)
  moreover have "load_pre_prepare b (ar_truncate b R1 h) n = Some (bs @ replicate (mx - length bs) 0)"
  proof -
    have e: "ar_slices (ar_truncate b R1 h) = ar_slices R1" "ar_head (ar_truncate b R1 h) = h" by (simp_all add: t)
    have "as_pp (ar_slices R1 ! nat n) = bs @ replicate (mx - length bs) 0" "nat n < length (ar_slices R1)"
      using len by (simp_all add: R1)
    then show ?thesis
      using assms(3-5) unfolding load_pre_prepare_def c arr_get_def ar_within_range_def ar_max_seqno_def e by simp
  qed
  ultimately show ?thesis using c by simp
qed

theorem agreement_truncate_shifts_witness:
  "\<exists>R1. store_pre_prepare default_build 2 (agreement_region_new default_build 2 8 8) 6 [7] = Some R1 \<and>
     load_pre_prepare default_build (ar_truncate default_build R1 3) 5 = Some [7, 0]"
proof -
  let ?R = "agreement_region_new default_build 2 8 8"
  obtain R1 where r: "store_pre_prepare default_build 2 ?R 6 [7] = Some R1"
    by (simp add: store_pre_prepare_def agreement_region_new_def ar_within_range_def ar_max_seqno_def default_build_def
        arr_get_def memcpy_def put_slice_def arr_set_def cert_index_def)
  have "load_pre_prepare default_build (ar_truncate default_build R1 3) 5 = Some ([7] @ replicate (2 - length [7::8 word]) 0)"
    by (rule agreement_truncate_shifts [OF refl, THEN conjunct1]) (use r in \<open>simp_all add: default_build_def\<close>)
  then show ?thesis using r by (simp add: numeral_2_eq_2)
qed

section \<open>The checkpoint region\<close>

record checkpoint_region =
  cg_certs :: "block list list"
  cg_above :: "block list"
  cg_head :: seqno
  cg_head_index :: int

definition NUM_CERTS :: "build \<Rightarrow> int" where
  "NUM_CERTS b = max_out b div checkpoint_interval b + 1"

definition checkpoint_region_new :: "build \<Rightarrow> nat \<Rightarrow> checkpoint_region" where
  "checkpoint_region_new b csz =
     \<lparr>cg_certs = replicate (nat (NUM_CERTS b)) (replicate (F_slots b) (replicate csz 0)),
      cg_above = replicate (nat (Max_num_replicas b - 1)) (replicate csz 0), cg_head = 0, cg_head_index = 0\<rparr>"

definition cg_max_seqno :: "build \<Rightarrow> checkpoint_region \<Rightarrow> seqno" where
  "cg_max_seqno b G = cg_head G + max_out b"

definition cg_within_range :: "build \<Rightarrow> checkpoint_region \<Rightarrow> seqno \<Rightarrow> bool" where
  "cg_within_range b G n \<longleftrightarrow> n \<ge> cg_head G \<and> n \<le> cg_max_seqno b G"

definition cg_certificate_index :: "build \<Rightarrow> checkpoint_region \<Rightarrow> seqno \<Rightarrow> nat option" where
  "cg_certificate_index b G n = do {
     th_assert (cg_within_range b G n);
     Some (nat ((cg_head_index G + (n - cg_head G) div checkpoint_interval b) mod NUM_CERTS b)) }"

definition replica_index :: "int \<Rightarrow> int \<Rightarrow> int" where
  "replica_index me i = (if i \<le> me then i else i - 1)"

definition load_checkpoint :: "build \<Rightarrow> checkpoint_region \<Rightarrow> seqno \<Rightarrow> nat \<Rightarrow> block option" where
  "load_checkpoint b G n i = do {
     th_assert (cg_within_range b G n);
     c \<leftarrow> cg_certificate_index b G n;
     cert \<leftarrow> arr_get (cg_certs G) c;
     arr_get cert i }"

definition store_checkpoint :: "build \<Rightarrow> nat \<Rightarrow> checkpoint_region \<Rightarrow> seqno \<Rightarrow> nat \<Rightarrow> byte list \<Rightarrow> checkpoint_region option" where
  "store_checkpoint b CHECKPOINT_SIZE G n i bs = do {
     th_assert (cg_within_range b G n);
     th_assert (length bs \<le> CHECKPOINT_SIZE);
     c \<leftarrow> cg_certificate_index b G n;
     cert \<leftarrow> arr_get (cg_certs G) c;
     cert' \<leftarrow> store_block cert i bs;
     certs \<leftarrow> arr_set (cg_certs G) c cert';
     Some (G\<lparr>cg_certs := certs\<rparr>) }"

definition load_above_window :: "build \<Rightarrow> int \<Rightarrow> checkpoint_region \<Rightarrow> int \<Rightarrow> block option" where
  "load_above_window b me G i = do {
     th_assert (i \<noteq> me \<and> 0 \<le> i \<and> i < Max_num_replicas b);
     arr_int (cg_above G) (replica_index me i) }"

definition store_above_window :: "build \<Rightarrow> int \<Rightarrow> checkpoint_region \<Rightarrow> int \<Rightarrow> seqno \<Rightarrow> bool \<Rightarrow> byte list \<Rightarrow> checkpoint_region option" where
  "store_above_window b me G i n stab bs = do {
     th_assert (i \<ge> Max_num_replicas b);
     th_assert (n > cg_max_seqno b G \<or> stab);
     blk \<leftarrow> arr_int (cg_above G) (replica_index me i);
     blk' \<leftarrow> memcpy blk bs;
     abv \<leftarrow> arr_set (cg_above G) (nat (replica_index me i)) blk';
     Some (G\<lparr>cg_above := abv\<rparr>) }"

text \<open>The first test compares the new head with the head's slot, not with the head.\<close>

definition cg_truncate :: "build \<Rightarrow> checkpoint_region \<Rightarrow> seqno \<Rightarrow> checkpoint_region option" where
  "cg_truncate b G new_head =
     (if new_head \<le> cg_head_index G then Some G
      else do {
        th_assert (new_head mod checkpoint_interval b = 0);
        if \<not> cg_within_range b G new_head then Some (G\<lparr>cg_head_index := 0, cg_head := new_head\<rparr>)
        else do {
          i \<leftarrow> cg_certificate_index b G new_head;
          Some (G\<lparr>cg_head_index := int i, cg_head := new_head\<rparr>) } })"

definition cg_inv :: "build \<Rightarrow> checkpoint_region \<Rightarrow> bool" where
  "cg_inv b G \<longleftrightarrow> interval_ok b \<and> checkpoint_interval b dvd cg_head G \<and> 0 \<le> cg_head G \<and>
     0 \<le> cg_head_index G \<and> cg_head_index G < NUM_CERTS b \<and> length (cg_certs G) = nat (NUM_CERTS b)"

lemma cg_index_ring:
  "cg_certificate_index b G n = (if cg_within_range b G n
     then Some (ring_slot (checkpoint_interval b) (clog_MAX_SIZE b) (cg_head_index G) (cg_head G) n) else None)"
  by (simp add: cg_certificate_index_def ring_slot_def NUM_CERTS_def clog_MAX_SIZE_def)

text \<open>C27: Moving the checkpoint region's window up to a later checkpoint inside the window, whose number is above
  the slot of the head, keeps the checkpoint messages of the checkpoints that stay in it.\<close>

theorem checkpoint_region_truncate_keeps:
  assumes "cg_inv b G" "checkpoint_interval b dvd h" "cg_within_range b G h" "cg_head_index G < h"
  shows "\<exists>G'. cg_truncate b G h = Some G' \<and> cg_inv b G' \<and> cg_head G' = h \<and>
    (\<forall>n i. checkpoint_interval b dvd n \<and> h \<le> n \<and> n \<le> cg_max_seqno b G \<longrightarrow> load_checkpoint b G' n i = load_checkpoint b G n i)"
proof -
  let ?ci = "checkpoint_interval b" and ?k = "clog_MAX_SIZE b"
  let ?s = "ring_slot ?ci ?k (cg_head_index G) (cg_head G)"
  have i: "interval_ok b" "0 < ?ci" "?ci dvd cg_head G" "0 < ?k" "NUM_CERTS b = ?k"
    using assms(1) MAX_SIZE_pos(1) [of b] by (auto simp: cg_inv_def interval_ok_def NUM_CERTS_def clog_MAX_SIZE_def)
  define G' where "G' = G\<lparr>cg_head_index := int (?s h), cg_head := h\<rparr>"
  have t: "cg_truncate b G h = Some G'"
    using assms(2-4) by (simp add: cg_truncate_def cg_index_ring G'_def dvd_eq_mod_eq_0)
  have "?s h < nat ?k" by (rule ring_slot_less [OF i(4)])
  then have inv': "cg_inv b G'"
    using assms(1-3) i by (auto simp: cg_inv_def G'_def cg_within_range_def)
  have "load_checkpoint b G' n j = load_checkpoint b G n j" if n: "?ci dvd n" "h \<le> n" "n \<le> cg_max_seqno b G" for n j
  proof -
    have "ring_slot ?ci ?k (int (?s h)) h n = ?s n" by (rule ring_slot_move [OF i(2,4,3) assms(2) n(1)])
    moreover have "cg_within_range b G' n" "cg_within_range b G n"
      using n assms(3) by (auto simp: cg_within_range_def cg_max_seqno_def G'_def)
    ultimately show ?thesis by (simp add: load_checkpoint_def cg_index_ring) (simp add: G'_def)
  qed
  then show ?thesis using t inv' by (auto simp: G'_def)
qed

theorem checkpoint_region_truncate_keeps_witness:
  "\<exists>G'. cg_truncate default_build (checkpoint_region_new default_build 8) 128 = Some G' \<and> cg_head G' = 128 \<and>
     load_checkpoint default_build G' 256 0 = load_checkpoint default_build (checkpoint_region_new default_build 8) 256 0"
proof -
  let ?G = "checkpoint_region_new default_build 8"
  have b: "checkpoint_interval default_build = 128" "max_out default_build = 256" by (simp_all add: default_build_def)
  have "cg_inv default_build ?G" "cg_within_range default_build ?G 128" "cg_head_index ?G < 128"
    using build_ok_interval [OF default_build_ok]
    by (simp_all add: cg_inv_def checkpoint_region_new_def cg_within_range_def cg_max_seqno_def NUM_CERTS_def b)
  from checkpoint_region_truncate_keeps [OF this(1) _ this(2,3)]
  obtain G' where "cg_truncate default_build ?G 128 = Some G'" "cg_head G' = 128"
    "\<forall>n i. checkpoint_interval default_build dvd n \<and> 128 \<le> n \<and> n \<le> cg_max_seqno default_build ?G \<longrightarrow>
       load_checkpoint default_build G' n i = load_checkpoint default_build ?G n i" by (auto simp: b)
  then show ?thesis by (auto simp: b cg_max_seqno_def checkpoint_region_new_def)
qed



section \<open>The special region\<close>

record special_region =
  sp_new_views :: "block list"
  sp_view_changes :: "block list"
  sp_view_change_acks :: "block list list"
  sp_metadata_ds :: "block list"
  sp_new_key :: block
  sp_requests :: "block list"
  sp_replies :: "block list"

record special_sizes =
  max_new_view_size :: nat
  max_view_change_size :: nat
  view_change_ack_size :: nat
  metadata_d_size :: nat
  max_new_key_size :: nat
  max_request_size :: nat
  Max_rep_size :: nat

definition special_region_new :: "build \<Rightarrow> special_sizes \<Rightarrow> special_region" where
  "special_region_new b z = (let N = nat (Max_num_replicas b) in
     \<lparr>sp_new_views = replicate N (replicate (max_new_view_size z) 0),
      sp_view_changes = replicate N (replicate (max_view_change_size z) 0),
      sp_view_change_acks = replicate N (replicate N (replicate (view_change_ack_size z) 0)),
      sp_metadata_ds = replicate N (replicate (metadata_d_size z) 0), sp_new_key = replicate (max_new_key_size z) 0,
      sp_requests = replicate (nat (max_num_clients b + Max_num_replicas b)) (replicate (max_request_size z) 0),
      sp_replies = replicate (F_slots b) (replicate (Max_rep_size z) 0)\<rparr>)"

text \<open>\<open>prim\<close> is the primary of the view of the message.\<close>

definition load_new_view :: "special_region \<Rightarrow> int \<Rightarrow> block option" where
  "load_new_view S prim = arr_int (sp_new_views S) prim"

definition store_int :: "block list \<Rightarrow> int \<Rightarrow> byte list \<Rightarrow> block list option" where
  "store_int blks i bs = (if i < 0 then None else store_block blks (nat i) bs)"

definition store_new_view :: "special_sizes \<Rightarrow> special_region \<Rightarrow> int \<Rightarrow> byte list \<Rightarrow> special_region option" where
  "store_new_view z S prim bs = do {
     th_assert (length bs \<le> max_new_view_size z);
     blks \<leftarrow> store_int (sp_new_views S) prim bs;
     Some (S\<lparr>sp_new_views := blks\<rparr>) }"

definition special_id_ok :: "build \<Rightarrow> int \<Rightarrow> bool" where
  "special_id_ok b i \<longleftrightarrow> i \<le> Max_num_replicas b"

definition load_view_change :: "build \<Rightarrow> special_region \<Rightarrow> int \<Rightarrow> block option" where
  "load_view_change b S i = do {
     th_assert (special_id_ok b i);
     arr_int (sp_view_changes S) i }"

definition store_view_change :: "build \<Rightarrow> special_sizes \<Rightarrow> special_region \<Rightarrow> int \<Rightarrow> byte list \<Rightarrow> special_region option" where
  "store_view_change b z S i bs = do {
     th_assert (special_id_ok b i);
     th_assert (length bs \<le> max_view_change_size z);
     blks \<leftarrow> store_int (sp_view_changes S) i bs;
     Some (S\<lparr>sp_view_changes := blks\<rparr>) }"

definition load_view_change_ack :: "build \<Rightarrow> special_region \<Rightarrow> int \<Rightarrow> int \<Rightarrow> block option" where
  "load_view_change_ack b S i j = do {
     th_assert (special_id_ok b i);
     row \<leftarrow> arr_int (sp_view_change_acks S) i;
     arr_int row j }"

definition store_view_change_ack :: "build \<Rightarrow> special_sizes \<Rightarrow> special_region \<Rightarrow> int \<Rightarrow> int \<Rightarrow> byte list \<Rightarrow> special_region option" where
  "store_view_change_ack b z S i j bs = do {
     th_assert (special_id_ok b i);
     th_assert (length bs \<le> view_change_ack_size z);
     row \<leftarrow> arr_int (sp_view_change_acks S) i;
     row' \<leftarrow> store_int row j bs;
     rows \<leftarrow> arr_set (sp_view_change_acks S) (nat i) row';
     Some (S\<lparr>sp_view_change_acks := rows\<rparr>) }"

definition load_metadata_d :: "build \<Rightarrow> special_region \<Rightarrow> int \<Rightarrow> block option" where
  "load_metadata_d b S i = do {
     th_assert (special_id_ok b i);
     arr_int (sp_metadata_ds S) i }"

definition store_metadata_d :: "build \<Rightarrow> special_region \<Rightarrow> int \<Rightarrow> byte list \<Rightarrow> special_region option" where
  "store_metadata_d b S i bs = do {
     th_assert (special_id_ok b i);
     blks \<leftarrow> store_int (sp_metadata_ds S) i bs;
     Some (S\<lparr>sp_metadata_ds := blks\<rparr>) }"

definition load_request :: "special_region \<Rightarrow> int \<Rightarrow> block option" where
  "load_request S cid = arr_int (sp_requests S) cid"

definition store_request :: "special_sizes \<Rightarrow> special_region \<Rightarrow> int \<Rightarrow> byte list \<Rightarrow> special_region option" where
  "store_request z S cid bs = do {
     th_assert (length bs \<le> max_request_size z);
     blks \<leftarrow> store_int (sp_requests S) cid bs;
     Some (S\<lparr>sp_requests := blks\<rparr>) }"

definition load_reply :: "special_region \<Rightarrow> nat \<Rightarrow> block option" where
  "load_reply S slot = arr_get (sp_replies S) slot"

definition store_reply :: "special_region \<Rightarrow> nat \<Rightarrow> byte list \<Rightarrow> special_region option" where
  "store_reply S slot bs = do {
     blks \<leftarrow> store_block (sp_replies S) slot bs;
     Some (S\<lparr>sp_replies := blks\<rparr>) }"

text \<open>The identifier check of the special region admits one number too many: for the identifier
  \<^verbatim>\<open>MAX_NUM_REPLICAS\<close> the check passes and the access is out of the array.\<close>

theorem special_region_bound:
  shows "special_id_ok b (Max_num_replicas b) \<and>
    load_view_change b (special_region_new b z) (Max_num_replicas b) = None \<and>
    store_view_change b z (special_region_new b z) (Max_num_replicas b) bs = None \<and>
    store_metadata_d b (special_region_new b z) (Max_num_replicas b) bs = None \<and>
    (0 \<le> i \<and> i < Max_num_replicas b \<and> length bs \<le> max_view_change_size z \<longrightarrow>
      (\<exists>S'. store_view_change b z (special_region_new b z) i bs = Some S' \<and>
         load_view_change b S' i = Some (bs @ replicate (max_view_change_size z - length bs) 0)))"
  by (auto simp: special_id_ok_def load_view_change_def store_view_change_def store_metadata_d_def arr_int_def store_int_def
      store_block_def special_region_new_def Let_def arr_get_def arr_set_def memcpy_def)

theorem special_region_bound_witness:
  "\<exists>S'. store_view_change default_build \<lparr>max_new_view_size = 4, max_view_change_size = 2, view_change_ack_size = 4,
      metadata_d_size = 4, max_new_key_size = 4, max_request_size = 4, Max_rep_size = 4\<rparr>
      (special_region_new default_build \<lparr>max_new_view_size = 4, max_view_change_size = 2, view_change_ack_size = 4,
      metadata_d_size = 4, max_new_key_size = 4, max_request_size = 4, Max_rep_size = 4\<rparr>) 3 [9] = Some S' \<and>
     load_view_change default_build S' 3 = Some [9, 0]"
proof -
  let ?z = "\<lparr>max_new_view_size = 4, max_view_change_size = 2, view_change_ack_size = 4,
      metadata_d_size = 4, max_new_key_size = 4, max_request_size = 4, Max_rep_size = 4\<rparr>"
  have "\<exists>S'. store_view_change default_build ?z (special_region_new default_build ?z) 3 [9] = Some S' \<and>
         load_view_change default_build S' 3 = Some ([9] @ replicate (max_view_change_size ?z - length [9::byte]) 0)"
    using special_region_bound [of default_build ?z "[9]" 3] by (simp add: default_build_def)
  then show ?thesis by (simp add: numeral_2_eq_2)
qed

end
