(* ===== verification/Node.thy ===== *)
theory Node
  imports Auth
begin

text \<open>
  \<^verbatim>\<open>Node.h\<close> and \<^verbatim>\<open>Node.cc\<close>: the group parameters, primaries, request identifiers and
  authenticators (vectors with one MAC per replica). The locale \<open>bft_quorum\<close> holds the counting
  arguments every certificate rests on and is interpreted on the thresholds the constructor
  computes. Sockets, the configuration file and random numbers are outside the model.
\<close>

section \<open>Quorums\<close>

locale bft_quorum =
  fixes f n q :: nat
  assumes n_def: "n = 3 * f + 1"
    and q_def: "q = n - f"
begin

lemma quorum_meet:
  assumes "A \<subseteq> {..<n}" "B \<subseteq> {..<n}" "q \<le> card A" "q \<le> card B"
  shows "f + 1 \<le> card (A \<inter> B)"
proof -
  have fin: "finite A" "finite B" using assms(1,2) finite_subset by blast+
  have "card (A \<union> B) \<le> n" using card_mono [of "{..<n}" "A \<union> B"] assms(1,2) by simp
  moreover have "card A + card B = card (A \<union> B) + card (A \<inter> B)"
    by (rule card_Un_Int [OF fin])
  ultimately show ?thesis using assms(3,4) n_def q_def by simp
qed

lemma weak_has_correct:
  assumes "finite A" "f < card A" "card faulty \<le> f" "finite faulty"
  shows "\<exists>i \<in> A. i \<notin> faulty"
proof (rule ccontr)
  assume "\<not> (\<exists>i \<in> A. i \<notin> faulty)"
  then have "card A \<le> card faulty" using assms(4) by (auto intro: card_mono)
  with assms(2,3) show False by simp
qed

lemma quorums_share_correct:
  assumes "A \<subseteq> {..<n}" "B \<subseteq> {..<n}" "q \<le> card A" "q \<le> card B" "card faulty \<le> f" "finite faulty"
  shows "\<exists>i \<in> A \<inter> B. i \<notin> faulty"
proof (rule weak_has_correct)
  show "finite (A \<inter> B)" using assms(1) finite_subset by blast
  show "f < card (A \<inter> B)" using quorum_meet [OF assms(1-4)] by simp
qed (use assms in auto)

text \<open>The replicas that are not faulty are enough for a quorum.\<close>

lemma quorum_live:
  assumes "faulty \<subseteq> {..<n}" "card faulty \<le> f"
  shows "q \<le> card ({..<n} - faulty)"
  using assms finite_subset [OF assms(1)] q_def by (simp add: card_Diff_subset)

end

section \<open>The class\<close>

record node =
  node_id :: int
  max_faulty :: int
  num_replicas :: int
  threshold :: int
  principals :: "principal list"
  num_principals :: int
  cur_view :: view
  cur_primary :: int
  cur_rid :: request_id

text \<open>The part of the constructor that sets the group parameters: \<open>me\<close> is the index of the line
  of the configuration file that matches this host, \<open>ps\<close> the principals it lists.\<close>

definition Node_init :: "int \<Rightarrow> int \<Rightarrow> principal list \<Rightarrow> int \<Rightarrow> node option" where
  "Node_init Max_replicas f ps me = do {
     th_assert (3 * f + 1 \<le> Max_replicas);
     th_assert (0 \<le> me);
     Some \<lparr>node_id = me, max_faulty = f, num_replicas = 3 * f + 1,
           threshold = (3 * f + 1) - f, principals = ps, num_principals = int (length ps),
           cur_view = 0, cur_primary = 0, cur_rid = 0\<rparr> }"

definition i_to_p :: "node \<Rightarrow> int \<Rightarrow> principal option" where
  "i_to_p nd i = (if i < 0 \<or> i \<ge> num_principals nd then None else Some (principals nd ! nat i))"

definition All_replicas :: int where "All_replicas = - 1"

definition is_replica :: "node \<Rightarrow> int \<Rightarrow> bool" where
  "is_replica nd i \<longleftrightarrow> i \<ge> 0 \<and> i < num_replicas nd"

definition primary_of :: "node \<Rightarrow> view \<Rightarrow> int" where
  "primary_of nd vi = (if vi = cur_view nd then cur_primary nd else vi smod num_replicas nd)"

definition primary :: "node \<Rightarrow> int" where
  "primary nd = cur_primary nd"

definition auth_size :: "node \<Rightarrow> int \<Rightarrow> int" where
  "auth_size nd i =
     (let j = (if i < 0 then node_id nd else i)
      in (if j < num_replicas nd then num_replicas nd - 1 else num_replicas nd) * int HMAC_size)"

section \<open>Authenticators\<close>

definition gen_auth :: "(key \<Rightarrow> byte list \<Rightarrow> byte list) \<Rightarrow> node \<Rightarrow> bool \<Rightarrow> byte list \<Rightarrow> byte list" where
  "gen_auth H nd inn s =
     concat (map (\<lambda>i. if int i = node_id nd then []
                      else if inn then gen_mac_in H (principals nd ! i) s
                      else gen_mac_out H (principals nd ! i) s)
       [0..<nat (num_replicas nd)])"

definition gen_auth_out :: "(key \<Rightarrow> byte list \<Rightarrow> byte list) \<Rightarrow> node \<Rightarrow> byte list \<Rightarrow> byte list" where
  "gen_auth_out H nd s = gen_auth H nd False s"

definition gen_auth_in :: "(key \<Rightarrow> byte list \<Rightarrow> byte list) \<Rightarrow> node \<Rightarrow> byte list \<Rightarrow> byte list" where
  "gen_auth_in H nd s = gen_auth H nd True s"

definition verify_auth :: "bool \<Rightarrow> (key \<Rightarrow> byte list \<Rightarrow> byte list) \<Rightarrow> node \<Rightarrow> int \<Rightarrow> byte list \<Rightarrow> bool \<Rightarrow>
    byte list \<Rightarrow> bool option" where
  "verify_auth sc H nd i s inn dest = do {
     th_assert (node_id nd < num_replicas nd);
     case i_to_p nd i of
       None \<Rightarrow> Some False
     | Some p \<Rightarrow>
         if i \<noteq> node_id nd then
           let offset = node_id nd * int HMAC_size;
               offset' = (if node_id nd > i then offset - int HMAC_size else offset);
               mac = take HMAC_size (drop (nat offset') dest)
           in Some (if inn then verify_mac_in sc H p s mac else verify_mac_out sc H p s mac)
         else Some False }"

definition verify_auth_in :: "bool \<Rightarrow> (key \<Rightarrow> byte list \<Rightarrow> byte list) \<Rightarrow> node \<Rightarrow> int \<Rightarrow> byte list \<Rightarrow>
    byte list \<Rightarrow> bool option" where
  "verify_auth_in sc H nd i s dest = verify_auth sc H nd i s True dest"

definition verify_auth_out :: "bool \<Rightarrow> (key \<Rightarrow> byte list \<Rightarrow> byte list) \<Rightarrow> node \<Rightarrow> int \<Rightarrow> byte list \<Rightarrow>
    byte list \<Rightarrow> bool option" where
  "verify_auth_out sc H nd i s dest = verify_auth sc H nd i s False dest"

section \<open>Request identifiers\<close>

text \<open>\<open>tv_sec\<close> is what \<^verbatim>\<open>gettimeofday\<close> returns.\<close>

definition new_tstamp :: "int \<Rightarrow> node \<Rightarrow> node option" where
  "new_tstamp tv_sec nd = do {
     th_assert (tv_sec \<le> 2147483647);
     Some (nd\<lparr>cur_rid := push_bit 32 (word_of_int tv_sec)\<rparr>) }"

definition new_rid :: "int \<Rightarrow> node \<Rightarrow> (request_id \<times> node) option" where
  "new_rid tv_sec nd = do {
     nd' \<leftarrow> (if (ucast (cur_rid nd) :: 32 word) = 0xffffffff then new_tstamp tv_sec nd else Some nd);
     let r = cur_rid nd' + 1;
     Some (r, nd'\<lparr>cur_rid := r\<rparr>) }"

section \<open>Invariant\<close>

definition node_ok :: "node \<Rightarrow> bool" where
  "node_ok nd \<longleftrightarrow> 0 \<le> max_faulty nd \<and> num_replicas nd = 3 * max_faulty nd + 1 \<and>
     threshold nd = num_replicas nd - max_faulty nd \<and> 0 \<le> cur_view nd \<and>
     cur_primary nd = cur_view nd mod num_replicas nd \<and> num_principals nd = int (length (principals nd)) \<and>
     num_replicas nd \<le> num_principals nd \<and> 0 \<le> node_id nd \<and> node_id nd < num_principals nd"

lemma Node_init_ok:
  assumes "0 \<le> f" "Node_init mx f ps me = Some nd" "3 * f + 1 \<le> int (length ps)" "me < int (length ps)"
  shows "node_ok nd"
  using assms by (auto simp: Node_init_def node_ok_def split: if_splits)

lemma primary_of_mod:
  assumes "node_ok nd" "0 \<le> vi"
  shows "primary_of nd vi = vi mod num_replicas nd"
  using assms by (auto simp: primary_of_def node_ok_def signed_modulo_int_def sgn_if)

lemma primary_is_replica: "node_ok nd \<Longrightarrow> is_replica nd (primary nd)"
  using pos_mod_bound [of "num_replicas nd" "cur_view nd"]
  by (simp add: primary_def is_replica_def node_ok_def)

text \<open>The thresholds of every node form a quorum system.\<close>

lemma node_quorum:
  assumes "node_ok nd"
  shows "bft_quorum (nat (max_faulty nd)) (nat (num_replicas nd)) (nat (threshold nd))"
  using assms by unfold_locales (auto simp: node_ok_def nat_diff_distrib nat_mult_distrib nat_add_distrib)

interpretation nq: bft_quorum f "3 * f + 1" "2 * f + 1" for f
  by unfold_locales simp_all

section \<open>The layout of an authenticator\<close>

lemma concat_slot:
  assumes "\<And>i. i \<in> set is \<Longrightarrow> length (g i) = w" "k < length is"
  shows "take w (drop (k * w) (concat (map g is) @ rest)) = g (is ! k)"
  using assms
proof (induction "is" arbitrary: k)
  case (Cons i "is")
  have len: "length (g i) = w" using Cons.prems by simp
  show ?case
  proof (cases k)
    case 0
    then show ?thesis by (simp add: len)
  next
    case (Suc k')
    then have "drop (k * w) (concat (map g (i # is)) @ rest) = drop (k' * w) (concat (map g is) @ rest)"
      by (simp add: len)
    then show ?thesis using Cons Suc by simp
  qed
qed simp

lemma concat_skip: "concat (map (\<lambda>i. if P i then [] else g i) is) = concat (map g (filter (\<lambda>i. \<not> P i) is))"
  by (induction "is") auto

lemma filter_skip_nth:
  assumes "j < n" "j \<noteq> i"
  shows "filter (\<lambda>x. x \<noteq> i) [0..<n] ! (if i < j then j - 1 else j) = j \<and>
    (if i < j then j - 1 else j) < length (filter (\<lambda>x. x \<noteq> i) [0..<n])"
proof (cases "i < n")
  case True
  have "[0..<n] = [0..<i] @ [i] @ [Suc i..<n]"
    using True upt_add_eq_append [of 0 i "n - i"] upt_conv_Cons [of i n] by simp
  then have "filter (\<lambda>x. x \<noteq> i) [0..<n] = [0..<i] @ [Suc i..<n]"
    by (auto simp: filter_id_conv)
  then show ?thesis using assms True by (auto simp: nth_append)
next
  case False
  then have "filter (\<lambda>x. x \<noteq> i) [0..<n] = [0..<n]" by (auto simp: filter_id_conv)
  then show ?thesis using assms False by simp
qed

text \<open>The MAC that \<^verbatim>\<open>gen_auth\<close> computes for replica \<open>j\<close> is where \<^verbatim>\<open>verify_auth\<close> of replica
  \<open>j\<close> looks for it.\<close>

lemma gen_auth_slot:
  assumes "\<And>k s. length (H k s) = HMAC_size" "0 \<le> i" "node_id nd = i" "0 \<le> j" "j < num_replicas nd" "j \<noteq> i"
  shows "take HMAC_size (drop (nat (if j > i then j * int HMAC_size - int HMAC_size else j * int HMAC_size))
      (gen_auth H nd inn s @ rest)) =
    (if inn then gen_mac_in H (principals nd ! nat j) s else gen_mac_out H (principals nd ! nat j) s)"
proof -
  let ?g = "\<lambda>k. if inn then gen_mac_in H (principals nd ! k) s else gen_mac_out H (principals nd ! k) s"
  let ?is = "filter (\<lambda>x. x \<noteq> nat i) [0..<nat (num_replicas nd)]"
  let ?k = "if nat i < nat j then nat j - 1 else nat j"
  have "gen_auth H nd inn s = concat (map ?g (filter (\<lambda>k. \<not> int k = node_id nd) [0..<nat (num_replicas nd)]))"
    unfolding gen_auth_def by (rule concat_skip)
  also have "filter (\<lambda>k. \<not> int k = node_id nd) [0..<nat (num_replicas nd)] = ?is"
    using assms(2,3) by (intro filter_cong) auto
  finally have g: "gen_auth H nd inn s = concat (map ?g ?is)" .
  have k: "?is ! ?k = nat j" "?k < length ?is"
    using filter_skip_nth [of "nat j" "nat (num_replicas nd)" "nat i"] assms(2,4-6) by auto
  have off: "nat (if j > i then j * int HMAC_size - int HMAC_size else j * int HMAC_size) = ?k * HMAC_size"
  proof (cases "j > i")
    case True
    then have "j * int HMAC_size - int HMAC_size = int (nat j - 1) * int HMAC_size"
      using assms(2) by (simp add: of_nat_diff left_diff_distrib)
    moreover have "nat i < nat j" using True assms(2) by linarith
    ultimately show ?thesis using True by (simp only: nat_int_comparison if_True flip: of_nat_mult)
  qed (use assms(2,4) in \<open>simp add: nat_mult_distrib\<close>)
  have len: "length (?g x) = HMAC_size" for x
    by (simp add: gen_mac_in_def gen_mac_out_def gen_mac_def assms(1))
  show ?thesis unfolding g off by (simp only: concat_slot [OF len k(2)] k(1))
qed

text \<open>A replica finds its MAC where the sender put it.\<close>

lemma auth_accepted:
  assumes "\<And>k s. length (H k s) = HMAC_size"
    and "node_ok snder" "node_ok rcv" "num_replicas snder = num_replicas rcv"
    and "node_id rcv < num_replicas rcv" "node_id snder \<noteq> node_id rcv" "node_id snder < num_principals rcv"
    and "initialized (hmac_in (principals rcv ! nat (node_id snder)))"
    and "hkey (hmac_in (principals rcv ! nat (node_id snder))) =
         hkey (hmac_out (principals snder ! nat (node_id rcv)))"
  shows "verify_auth_in sc H rcv (node_id snder) s (gen_auth_out H snder s @ rest) = Some True"
proof -
  let ?i = "node_id snder" and ?j = "node_id rcv"
  let ?off = "if ?j > ?i then ?j * int HMAC_size - int HMAC_size else ?j * int HMAC_size"
  have p: "i_to_p rcv ?i = Some (principals rcv ! nat ?i)"
    using assms(2,7) by (simp add: i_to_p_def node_ok_def)
  have slot: "take HMAC_size (drop (nat ?off) (gen_auth H snder False s @ rest)) =
      gen_mac_out H (principals snder ! nat ?j) s"
    using gen_auth_slot [OF assms(1), where inn = False and nd = snder and i = ?i and j = ?j] assms(2-6)
    by (simp add: node_ok_def)
  let ?mac = "H (hkey (hmac_in (principals rcv ! nat ?i))) s"
  have "verify_mac_in sc H (principals rcv ! nat ?i) s (gen_mac_out H (principals snder ! nat ?j) s)"
    using hmac_equal_iff [of ?mac HMAC_size ?mac sc] assms(1,8,9)
    by (simp add: verify_mac_in_def verify_mac_def hmac_equals_def gen_mac_out_def gen_mac_def)
  then show ?thesis
    using assms(5,6) slot p
    by (auto simp: verify_auth_in_def verify_auth_def gen_auth_out_def Let_def)
qed

section \<open>Properties\<close>

text \<open>C22: An authenticator made by one node is accepted by every other replica that holds the
  sender's current session key: \<^verbatim>\<open>gen_auth\<close> and \<^verbatim>\<open>verify_auth\<close> agree on the position of each
  replica's MAC, for senders that are replicas and for clients, on both kinds of platform.\<close>

theorem authenticator_roundtrip:
  assumes "\<And>k s. length (H k s) = HMAC_size"
    and "node_ok snder" "node_ok rcv" "num_replicas snder = num_replicas rcv"
    and "node_id rcv < num_replicas rcv" "node_id snder \<noteq> node_id rcv" "node_id snder < num_principals rcv"
    and "initialized (hmac_in (principals rcv ! nat (node_id snder)))"
    and "hkey (hmac_in (principals rcv ! nat (node_id snder))) =
         hkey (hmac_out (principals snder ! nat (node_id rcv)))"
  shows "verify_auth_in sc H rcv (node_id snder) s (gen_auth_out H snder s @ rest) = Some True"
  using assms by (rule auth_accepted)

definition wit_principal :: "int \<Rightarrow> principal" where
  "wit_principal i = set_in_key (set_out_key 1 (Principal_new [] [] [] i 64) [7] 1) [7]"

definition wit_node :: "int \<Rightarrow> node" where
  "wit_node me = \<lparr>node_id = me, max_faulty = 1, num_replicas = 4, threshold = 3,
     principals = map wit_principal [0, 1, 2, 3], num_principals = 4, cur_view = 0, cur_primary = 0, cur_rid = 0\<rparr>"

lemma wit_node_sel: "num_replicas (wit_node me) = 4" "threshold (wit_node me) = 3" "max_faulty (wit_node me) = 1"
  "node_id (wit_node me) = me" "cur_view (wit_node me) = 0" "cur_primary (wit_node me) = 0"
  by (simp_all add: wit_node_def)

lemma wit_node_ok: "me \<in> {0, 1, 2, 3} \<Longrightarrow> node_ok (wit_node me)"
  by (auto simp: wit_node_def node_ok_def)

theorem authenticator_roundtrip_witness:
  "verify_auth_in True (\<lambda>k s. replicate 32 5) (wit_node 2) (node_id (wit_node 1)) [1, 2]
     (gen_auth_out (\<lambda>k s. replicate 32 5) (wit_node 1) [1, 2] @ []) = Some True"
  by (rule authenticator_roundtrip [OF _ wit_node_ok wit_node_ok])
    (simp_all add: HMAC_size_def wit_node_def wit_principal_def set_in_key_def set_out_key_def
      Principal_new_def replace_key_def Let_def)

text \<open>Two quorums of \<open>n - f\<close> replicas share at least \<open>f + 1\<close> members, hence one that is not
  faulty, and the replicas that are not faulty always form a quorum.\<close>

theorem node_quorums_intersect:
  assumes "node_ok nd" "A \<subseteq> {..<nat (num_replicas nd)}" "B \<subseteq> {..<nat (num_replicas nd)}"
    and "threshold nd \<le> int (card A)" "threshold nd \<le> int (card B)"
    and "faulty \<subseteq> {..<nat (num_replicas nd)}" "int (card faulty) \<le> max_faulty nd"
  shows "max_faulty nd + 1 \<le> int (card (A \<inter> B)) \<and> (\<exists>i \<in> A \<inter> B. i \<notin> faulty) \<and>
    threshold nd \<le> int (card ({..<nat (num_replicas nd)} - faulty))"
proof -
  note q = node_quorum [OF assms(1)]
  have fin: "finite faulty" using assms(6) finite_subset by blast
  have AB: "nat (threshold nd) \<le> card A" "nat (threshold nd) \<le> card B" "card faulty \<le> nat (max_faulty nd)"
    using assms(4,5,7) by linarith+
  have "nat (max_faulty nd) + 1 \<le> card (A \<inter> B)" by (rule bft_quorum.quorum_meet [OF q assms(2,3) AB(1,2)])
  moreover have "\<exists>i \<in> A \<inter> B. i \<notin> faulty"
    by (rule bft_quorum.quorums_share_correct [OF q assms(2,3) AB fin])
  moreover have "nat (threshold nd) \<le> card ({..<nat (num_replicas nd)} - faulty)"
    by (rule bft_quorum.quorum_live [OF q assms(6) AB(3)])
  ultimately show ?thesis using assms(1) by (auto simp: node_ok_def)
qed

theorem node_quorums_intersect_witness:
  "max_faulty (wit_node 0) + 1 \<le> int (card ({0, 1, 2} \<inter> {1, 2, 3::nat}))"
  using node_quorums_intersect [OF wit_node_ok, of 0 "{0, 1, 2}" "{1, 2, 3}" "{0}"]
  by (simp add: wit_node_def)

text \<open>Request identifiers grow: a new identifier exceeds the current one, provided the clock,
  when it is consulted, shows a later second than the one the current identifiers started from.\<close>

theorem new_rid_increases:
  assumes "new_rid tv_sec nd = Some (r, nd')"
    and "(ucast (cur_rid nd) :: 32 word) = 0xffffffff \<Longrightarrow> uint (cur_rid nd) div 2 ^ 32 < tv_sec"
  shows "cur_rid nd < r \<and> cur_rid nd' = r"
proof -
  let ?c = "cur_rid nd"
  have low: "uint (ucast ?c :: 32 word) = uint ?c mod 2 ^ 32"
    by (simp add: unsigned_ucast_eq take_bit_eq_mod)
  have bnd: "uint ?c < 2 ^ 64" using uint_bounded [of ?c] by simp
  show ?thesis
  proof (cases "(ucast ?c :: 32 word) = 0xffffffff")
    case False
    have "uint ?c \<noteq> 2 ^ 64 - 1"
    proof
      assume *: "uint ?c = 2 ^ 64 - 1"
      then have "uint (ucast ?c :: 32 word) = uint (0xffffffff :: 32 word)" unfolding low * by simp
      with False show False by (simp only: word_uint_eq_iff)
    qed
    then have "uint (?c + 1) = uint ?c + 1" using bnd by (simp add: uint_word_ariths)
    then show ?thesis using assms(1) False by (auto simp: new_rid_def word_less_def Let_def)
  next
    case True
    then have t: "tv_sec \<le> 2147483647" "r = push_bit 32 (word_of_int tv_sec) + 1" "cur_rid nd' = r"
      using assms(1) by (auto simp: new_rid_def new_tstamp_def Let_def split: if_splits)
    have "0 \<le> uint ?c div 2 ^ 32" by (intro pos_imp_zdiv_nonneg_iff [THEN iffD2]) auto
    then have "0 \<le> tv_sec" using assms(2) [OF True] by linarith
    then have "uint r = tv_sec * 2 ^ 32 + 1"
    proof -
      have "r = word_of_int (tv_sec * 2 ^ 32 + 1)" unfolding t(2) by (simp add: push_bit_eq_mult)
      then have "uint r = (tv_sec * 2 ^ 32 + 1) mod 2 ^ 64" by (simp only: uint_word_of_int) simp
      also have "\<dots> = tv_sec * 2 ^ 32 + 1" using \<open>0 \<le> tv_sec\<close> t(1) by (intro mod_pos_pos_trivial) auto
      finally show ?thesis .
    qed
    moreover have "uint ?c < tv_sec * 2 ^ 32"
    proof -
      have "uint ?c div 2 ^ 32 < tv_sec" by (rule assms(2) [OF True])
      then have "uint ?c div 2 ^ 32 + 1 \<le> tv_sec" by simp
      then have "(uint ?c div 2 ^ 32 + 1) * 2 ^ 32 \<le> tv_sec * 2 ^ 32" by (intro mult_right_mono) auto
      then show ?thesis using div_mult_mod_eq [of "uint ?c" "2 ^ 32"] pos_mod_bound [of "2 ^ 32" "uint ?c"]
        by (simp add: distrib_right)
    qed
    ultimately show ?thesis using t(3) by (simp add: word_less_def)
  qed
qed

theorem new_rid_increases_witness:
  "\<exists>r nd'. new_rid 9 ((wit_node 0)\<lparr>cur_rid := 0x1ffffffff\<rparr>) = Some (r, nd') \<and> 0x1ffffffff < r"
proof -
  let ?nd = "(wit_node 0)\<lparr>cur_rid := 0x1ffffffff\<rparr>"
  have e: "new_rid 9 ?nd = Some (0x900000001, ?nd\<lparr>cur_rid := 0x900000001\<rparr>)"
    by (simp add: new_rid_def new_tstamp_def push_bit_eq_mult Let_def)
  show ?thesis using new_rid_increases [OF e] e by simp
qed

end
