(* ===== verification/Certificate.thy ===== *)
theory Certificate
  imports Bitmap Node
begin

text \<open>
  The quorum certificate \<^verbatim>\<open>Certificate<T>\<close> of \<^verbatim>\<open>Certificate.h\<close> and \<^verbatim>\<open>Certificate.t\<close> (TinyBFT
  build): at most one message per replica, grouped by matching value, complete when one value has
  enough senders. The methods the template requires of \<^verbatim>\<open>T\<close> are the fields of \<open>msg_ops\<close> and their
  laws the locale \<open>cert_msgs\<close>. A message is a value: \<^verbatim>\<open>persist\<close> copies its bytes to the slot of the
  memory region (modelled with the regions) and leaves the value as it is.
\<close>

section \<open>The class\<close>

record 'm msg_ops =
  m_id :: "'m \<Rightarrow> int"
  m_match :: "'m \<Rightarrow> 'm \<Rightarrow> bool option"
  m_full :: "'m \<Rightarrow> bool"

record 'm message_val =
  mv_m :: "'m option"
  mv_count :: int

record 'm certificate =
  bmap :: bitmap
  vals :: "'m message_val list"
  cert_max_size :: nat
  cur_size :: nat
  correct :: int
  c_val :: "nat option"
  correct_id :: int
  complete :: int
  mym :: "'m option"
  t_sent :: int

definition mv_clear :: "'m message_val" where
  "mv_clear = \<lparr>mv_m = None, mv_count = 0\<rparr>"

definition Certificate_new :: "int \<Rightarrow> node \<Rightarrow> int \<Rightarrow> 'm certificate" where
  "Certificate_new Max_replicas nd cmpl =
     \<lparr>bmap = Bitmap_new (nat Max_replicas) False,
      vals = replicate (nat (max_faulty nd + 1)) mv_clear,
      cert_max_size = nat (max_faulty nd + 1), cur_size = 0, correct = max_faulty nd + 1, c_val = None,
      correct_id = - 1, complete = (if cmpl = 0 then max_faulty nd * 2 + 1 else cmpl),
      mym = None, t_sent = 0\<rparr>"

definition mine :: "'m certificate \<Rightarrow> 'm option" where
  "mine C = mym C"

definition cvalue :: "'m certificate \<Rightarrow> 'm option" where
  "cvalue C = (case c_val C of None \<Rightarrow> None | Some i \<Rightarrow> mv_m (vals C ! i))"

definition num_correct :: "'m certificate \<Rightarrow> int" where
  "num_correct C = (case c_val C of None \<Rightarrow> 0 | Some i \<Rightarrow> mv_count (vals C ! i))"

definition is_complete :: "'m certificate \<Rightarrow> bool" where
  "is_complete C \<longleftrightarrow> num_correct C \<ge> complete C"

definition make_complete :: "'m certificate \<Rightarrow> 'm certificate" where
  "make_complete C =
     (case c_val C of None \<Rightarrow> C
      | Some i \<Rightarrow> C\<lparr>vals := (vals C)[i := (vals C ! i)\<lparr>mv_count := complete C\<rparr>]\<rparr>)"

definition cert_is_empty :: "'m certificate \<Rightarrow> bool" where
  "cert_is_empty C = all_zero (bmap C)"

definition clear_vals :: "nat \<Rightarrow> nat \<Rightarrow> 'm message_val list \<Rightarrow> 'm message_val list" where
  "clear_vals i n vs = fold (\<lambda>j vs. vs[j := mv_clear]) [i..<n] vs"

definition cert_clear :: "'m certificate \<Rightarrow> 'm certificate" where
  "cert_clear C = C\<lparr>vals := clear_vals 0 (cur_size C) (vals C), bmap := bm_clear (bmap C), c_val := None,
     correct_id := - 1, mym := None, t_sent := 0, cur_size := 0\<rparr>"

text \<open>\<open>Val_iter_all\<close> is what the loop over a \<^verbatim>\<open>Val_iter\<close> sees.\<close>

definition Val_iter_all :: "'m certificate \<Rightarrow> ('m option \<times> int) list" where
  "Val_iter_all C = map (\<lambda>v. (mv_m v, mv_count v)) (take (cur_size C) (vals C))"

text \<open>The scan of \<^verbatim>\<open>add\<close> and \<^verbatim>\<open>add_mine\<close> for the first value that matches.\<close>

fun find_match :: "'m msg_ops \<Rightarrow> 'm message_val list \<Rightarrow> 'm \<Rightarrow> nat list \<Rightarrow> nat option option" where
  "find_match ops vs m [] = Some None"
| "find_match ops vs m (i # is) = do {
     vm \<leftarrow> mv_m (vs ! i);
     b \<leftarrow> m_match ops vm m;
     if b then Some (Some i) else find_match ops vs m is }"

text \<open>One more vote for value \<open>i\<close>; a full message replaces one that is only a digest.\<close>

definition count_vote :: "'m msg_ops \<Rightarrow> 'm message_val list \<Rightarrow> nat \<Rightarrow> 'm \<Rightarrow> 'm message_val list option" where
  "count_vote ops vs i m = do {
     vm \<leftarrow> mv_m (vs ! i);
     Some (vs[i := \<lparr>mv_m = Some (if \<not> m_full ops vm \<and> m_full ops m then m else vm),
                    mv_count = mv_count (vs ! i) + 1\<rparr>]) }"

text \<open>Whether \<^verbatim>\<open>add\<close> still wants \<open>m\<close>: no value is chosen yet, or \<open>m\<close> votes for the chosen one and it
  needs more votes.\<close>

definition wants_vote :: "'m msg_ops \<Rightarrow> 'm certificate \<Rightarrow> 'm \<Rightarrow> bool option" where
  "wants_vote ops C m =
     (case c_val C of
        None \<Rightarrow> Some True
      | Some i \<Rightarrow>
          if mv_count (vals C ! i) < complete C then do {
            cm \<leftarrow> mv_m (vals C ! i);
            m_match ops cm m }
          else Some False)"

text \<open>The body of \<^verbatim>\<open>add\<close> after \<^verbatim>\<open>bmap.set(id)\<close>.\<close>

definition add_value :: "'m msg_ops \<Rightarrow> 'm certificate \<Rightarrow> 'm \<Rightarrow> (bool \<times> 'm certificate) option" where
  "add_value ops C m =
     (case c_val C of
        Some i \<Rightarrow> do {
          vs \<leftarrow> count_vote ops (vals C) i m;
          Some (True, C\<lparr>vals := vs\<rparr>) }
      | None \<Rightarrow> do {
          hit \<leftarrow> find_match ops (vals C) m [0..<cur_size C];
          case hit of
            Some i \<Rightarrow> do {
              vs \<leftarrow> count_vote ops (vals C) i m;
              Some (True,
                if mv_count (vs ! i) \<ge> correct C
                then C\<lparr>vals := vs, c_val := Some i, correct_id := int i\<rparr>
                else C\<lparr>vals := vs\<rparr>) }
          | None \<Rightarrow>
              if cur_size C < cert_max_size C
              then Some (True, C\<lparr>
                     vals := (vals C)[cur_size C := \<lparr>mv_m = Some m, mv_count = 1\<rparr>],
                     cur_size := cur_size C + 1\<rparr>)
              else Some (False, cert_clear C) })"

definition cert_add :: "'m msg_ops \<Rightarrow> ('m \<Rightarrow> bool) \<Rightarrow> node \<Rightarrow> 'm certificate \<Rightarrow> 'm \<Rightarrow>
    (bool \<times> 'm certificate) option" where
  "cert_add ops verify nd C m =
     (let sid = m_id ops m in
      if is_replica nd sid then do {
        seen \<leftarrow> bm_test (bmap C) (nat sid);
        if \<not> seen then do {
          cond \<leftarrow> wants_vote ops C m;
          if cond \<and> verify m then do {
            th_assert (sid \<noteq> node_id nd);
            bm \<leftarrow> bm_insert (bmap C) (nat sid);
            add_value ops (C\<lparr>bmap := bm\<rparr>) m }
          else if verify m then do {
            bm \<leftarrow> bm_insert (bmap C) (nat sid);
            Some (False, C\<lparr>bmap := bm\<rparr>) }
          else Some (False, C) }
        else Some (False, C) }
      else Some (False, C))"

definition choose_value :: "'m msg_ops \<Rightarrow> 'm certificate \<Rightarrow> 'm \<Rightarrow> 'm certificate option" where
  "choose_value ops C m =
     (case c_val C of
        Some i \<Rightarrow> Some C
      | None \<Rightarrow> do {
          hit \<leftarrow> find_match ops (vals C) m [0..<cur_size C];
          Some (case hit of
                  Some i \<Rightarrow> C\<lparr>c_val := Some i, correct_id := int i\<rparr>
                | None \<Rightarrow> C\<lparr>c_val := Some 0, correct_id := 0,
                            vals := (vals C)[0 := (vals C ! 0)\<lparr>mv_count := 0\<rparr>]\<rparr>) })"

definition cert_add_mine :: "'m msg_ops \<Rightarrow> node \<Rightarrow> int \<Rightarrow> 'm certificate \<Rightarrow> 'm \<Rightarrow>
    (bool \<times> 'm certificate) option" where
  "cert_add_mine ops nd now C m = do {
     th_assert (m_id ops m = node_id nd);
     th_assert (m_full ops m);
     same \<leftarrow> (case c_val C of None \<Rightarrow> Some True
              | Some i \<Rightarrow> do { cm \<leftarrow> mv_m (vals C ! i); m_match ops cm m });
     if \<not> same then Some (False, C)
     else do {
       C1 \<leftarrow> choose_value ops C m;
       i \<leftarrow> c_val C1;
       C2 \<leftarrow> (if mv_m (vals C1 ! i) = None
              then do { th_assert (cur_size C1 = 0); Some (C1\<lparr>cur_size := 1\<rparr>) }
              else Some C1);
       bm \<leftarrow> bm_insert (bmap C2) (nat (node_id nd));
       Some (True, C2\<lparr>bmap := bm,
              vals := (vals C2)[i := \<lparr>mv_m = Some m, mv_count = mv_count (vals C2 ! i) + 1\<rparr>],
              mym := Some m, t_sent := now\<rparr>) } }"

definition cert_mark_stale :: "'m certificate \<Rightarrow> 'm certificate option" where
  "cert_mark_stale C =
     (if \<not> is_complete C then
        (case mym C of
           Some m \<Rightarrow> do {
             i \<leftarrow> c_val C;
             th_assert (mv_m (vals C ! i) = mym C);
             let vs = (vals C)[i := mv_clear];
             let vs' = vs[0 := \<lparr>mv_m = Some m, mv_count = 1\<rparr>];
             Some (C\<lparr>vals := clear_vals 1 (cur_size C) vs', c_val := Some 0, cur_size := 1,
                     bmap := bm_clear (bmap C)\<rparr>) }
         | None \<Rightarrow> Some (C\<lparr>vals := clear_vals 0 (cur_size C) (vals C), c_val := None, cur_size := 0,
                           bmap := bm_clear (bmap C)\<rparr>))
      else Some C)"

definition cvalue_clear :: "'m certificate \<Rightarrow> 'm option \<times> 'm certificate" where
  "cvalue_clear C =
     (case c_val C of None \<Rightarrow> (None, C)
      | Some i \<Rightarrow> (mv_m (vals C ! i), cert_clear C))"

section \<open>Invariant\<close>

text \<open>
  \<open>cert_shape\<close> is the representation invariant. \<open>cert_votes\<close> relates the counters to a record
  \<open>votes\<close> of which message of which replica was counted: a counter never exceeds the number of
  different replicas that voted for its value.
\<close>

definition votes_for :: "('m \<Rightarrow> 'v) \<Rightarrow> (int \<Rightarrow> 'm option) \<Rightarrow> 'v \<Rightarrow> int set" where
  "votes_for val votes x = {j. \<exists>m. votes j = Some m \<and> val m = x}"

definition cert_shape :: "'m msg_ops \<Rightarrow> ('m \<Rightarrow> bool) \<Rightarrow> node \<Rightarrow> 'm certificate \<Rightarrow> bool" where
  "cert_shape ops slot nd C \<longleftrightarrow>
     bm_ok (bmap C) \<and> num_replicas nd \<le> int (num (bmap C)) \<and> is_replica nd (node_id nd) \<and>
     length (vals C) = cert_max_size C \<and> cur_size C \<le> cert_max_size C \<and> 0 < cert_max_size C \<and>
     (\<forall>i < cur_size C. \<exists>m. mv_m (vals C ! i) = Some m \<and> slot m) \<and>
     (\<forall>i. cur_size C \<le> i \<and> i < cert_max_size C \<longrightarrow> vals C ! i = mv_clear) \<and>
     (\<forall>i. c_val C = Some i \<longrightarrow> i < cur_size C) \<and>
     (\<forall>m. mym C = Some m \<longrightarrow> m_full ops m \<and> slot m \<and> (\<exists>i. c_val C = Some i \<and> mv_m (vals C ! i) = Some m))"

definition cert_votes :: "('m \<Rightarrow> 'v) \<Rightarrow> node \<Rightarrow> 'm certificate \<Rightarrow> (int \<Rightarrow> 'm option) \<Rightarrow> bool" where
  "cert_votes val nd C votes \<longleftrightarrow>
     (\<forall>j. votes j \<noteq> None \<longrightarrow> is_replica nd j \<and>
        (nat j \<in> bm_set (bmap C) \<or> mym C \<noteq> None \<and> j = node_id nd)) \<and>
     (mym C = None \<longrightarrow> votes (node_id nd) = None) \<and>
     (\<forall>m. mym C = Some m \<longrightarrow> votes (node_id nd) = Some m) \<and>
     (\<forall>i < cur_size C. \<forall>m. mv_m (vals C ! i) = Some m \<longrightarrow>
        mv_count (vals C ! i) \<le> int (card (votes_for val votes (val m))))"

lemma replica_bit: "cert_shape ops slot nd C \<Longrightarrow> is_replica nd j \<Longrightarrow> nat j < num (bmap C)"
  unfolding cert_shape_def is_replica_def by linarith

lemma finite_votes_for: "cert_votes val nd C votes \<Longrightarrow> finite (votes_for val votes x)"
  by (rule finite_subset [of _ "{0..<num_replicas nd}"])
    (auto simp: cert_votes_def votes_for_def is_replica_def)

lemma votes_for_add:
  assumes "votes j = None" "finite (votes_for val votes x)"
  shows "card (votes_for val (votes(j \<mapsto> m)) x) =
    card (votes_for val votes x) + (if val m = x then 1 else 0)"
proof -
  have "j \<notin> votes_for val votes x" using assms(1) by (simp add: votes_for_def)
  moreover have "votes_for val (votes(j \<mapsto> m)) x =
      (if val m = x then insert j (votes_for val votes x) else votes_for val votes x)"
    using assms(1) by (auto simp: votes_for_def)
  ultimately show ?thesis using assms(2) by simp
qed

lemma clear_vals_nth:
  assumes "n \<le> length vs"
  shows "length (clear_vals i n vs) = length vs \<and>
    clear_vals i n vs ! j = (if i \<le> j \<and> j < n then mv_clear else vs ! j)"
  using assms
proof (induction n)
  case 0
  then show ?case by (simp add: clear_vals_def)
next
  case (Suc n)
  show ?case
  proof (cases "i \<le> n")
    case True
    then have "clear_vals i (Suc n) vs = (clear_vals i n vs)[n := mv_clear]"
      by (simp add: clear_vals_def)
    with Suc True show ?thesis by (auto simp: nth_list_update less_Suc_eq)
  next
    case False
    then show ?thesis by (auto simp: clear_vals_def)
  qed
qed

section \<open>What a message type promises\<close>

text \<open>
  \<open>slot\<close> selects the messages a certificate may hold (one view and sequence number); on them
  \<^verbatim>\<open>match\<close> compares the value \<open>val\<close> and does not abort.
\<close>

locale cert_msgs =
  fixes ops :: "'m msg_ops"
    and slot :: "'m \<Rightarrow> bool"
    and val :: "'m \<Rightarrow> 'v"
  assumes match_val: "slot a \<Longrightarrow> slot b \<Longrightarrow> m_match ops a b = Some (val a = val b)"
begin

lemma find_match_spec:
  assumes "\<And>i. i \<in> set is \<Longrightarrow> \<exists>m'. mv_m (vs ! i) = Some m' \<and> slot m'" "slot m"
  shows "\<exists>r. find_match ops vs m is = Some r \<and>
    (case r of Some i \<Rightarrow> i \<in> set is \<and> (\<exists>m'. mv_m (vs ! i) = Some m' \<and> val m' = val m)
     | None \<Rightarrow> True)"
  using assms(1)
proof (induction "is")
  case (Cons i "is")
  then obtain m' where m': "mv_m (vs ! i) = Some m'" "slot m'" by auto
  show ?case
  proof (cases "val m' = val m")
    case True
    with m' show ?thesis by (auto simp: match_val assms(2))
  next
    case False
    have "\<exists>r. find_match ops vs m is = Some r \<and>
        (case r of Some i \<Rightarrow> i \<in> set is \<and> (\<exists>m'. mv_m (vs ! i) = Some m' \<and> val m' = val m)
         | None \<Rightarrow> True)"
      using Cons by auto
    with m' False show ?thesis by (auto simp: match_val assms(2) split: option.splits)
  qed
qed simp

lemma find_match_cert:
  assumes "cert_shape ops slot nd C" "slot m"
  shows "\<exists>r. find_match ops (vals C) m [0..<cur_size C] = Some r \<and>
    (case r of Some i \<Rightarrow> i < cur_size C \<and> (\<exists>m'. mv_m (vals C ! i) = Some m' \<and> val m' = val m)
     | None \<Rightarrow> True)"
proof -
  have ex: "\<exists>m'. mv_m (vals C ! i) = Some m' \<and> slot m'" if "i \<in> set [0..<cur_size C]" for i
    using assms(1) that by (auto simp: cert_shape_def)
  obtain r where "find_match ops (vals C) m [0..<cur_size C] = Some r"
    "case r of Some i \<Rightarrow> i \<in> set [0..<cur_size C] \<and> (\<exists>m'. mv_m (vals C ! i) = Some m' \<and> val m' = val m)
     | None \<Rightarrow> True"
    using find_match_spec [OF ex assms(2), of "[0..<cur_size C]"] by blast
  then show ?thesis by (cases r) auto
qed

text \<open>A vote for an existing value keeps the invariant.\<close>

lemma count_vote_ok:
  assumes "cert_shape ops slot nd C" "cert_votes val nd C votes" "slot m"
    and "i < cur_size C" "mv_m (vals C ! i) = Some cm" "val cm = val m"
    and "nat j \<in> bm_set (bmap C)" "is_replica nd j" "votes j = None" "j \<noteq> node_id nd"
    and "c_val C = None \<or> c_val C = Some i" "cv = c_val C \<or> cv = Some i"
  shows "\<exists>vs. count_vote ops (vals C) i m = Some vs \<and>
    (\<forall>C'. C' = C\<lparr>vals := vs, c_val := cv, correct_id := k\<rparr> \<longrightarrow>
       cert_shape ops slot nd C' \<and> cert_votes val nd C' (votes(j \<mapsto> m)))"
proof -
  note sh = assms(1) [unfolded cert_shape_def]
  let ?w = "if \<not> m_full ops cm \<and> m_full ops m then m else cm"
  let ?vs = "(vals C)[i := \<lparr>mv_m = Some ?w, mv_count = mv_count (vals C ! i) + 1\<rparr>]"
  let ?C = "C\<lparr>vals := ?vs, c_val := cv, correct_id := k\<rparr>"
  have cv: "count_vote ops (vals C) i m = Some ?vs" using assms(5) by (simp add: count_vote_def)
  have w: "slot ?w" "val ?w = val m" using sh assms(3-6) by auto
  have il: "i < length (vals C)" using sh assms(4) by linarith
  have my: "mym C = Some x \<Longrightarrow> cv = Some i \<and> ?w = x" for x
    using sh assms(5,11,12) by auto
  have shape: "cert_shape ops slot nd ?C"
    unfolding cert_shape_def
  proof (intro conjI allI impI)
    fix l assume "l < cur_size ?C"
    then show "\<exists>m. mv_m (vals ?C ! l) = Some m \<and> slot m"
      using sh w(1) il by (cases "l = i") auto
  next
    fix x assume "mym ?C = Some x"
    then show "m_full ops x" "slot x" "\<exists>i. c_val ?C = Some i \<and> mv_m (vals ?C ! i) = Some x"
      using sh my [of x] il by auto
  qed (use sh assms(4,11,12) in \<open>auto simp: nth_list_update\<close>)
  have grow: "card (votes_for val votes x) \<le> card (votes_for val (votes(j \<mapsto> m)) x)"
    and exact: "x = val m \<Longrightarrow> card (votes_for val (votes(j \<mapsto> m)) x) = card (votes_for val votes x) + 1" for x
    using votes_for_add [OF assms(9) finite_votes_for [OF assms(2)]] by auto
  have "cert_votes val nd ?C (votes(j \<mapsto> m))"
    unfolding cert_votes_def
  proof (intro conjI allI impI)
    fix l x assume l: "l < cur_size ?C" "mv_m (vals ?C ! l) = Some x"
    show "mv_count (vals ?C ! l) \<le> int (card (votes_for val (votes(j \<mapsto> m)) (val x)))"
    proof (cases "l = i")
      case True
      then have "val x = val m" using l(2) il w(2) by auto
      moreover have "mv_count (vals C ! i) \<le> int (card (votes_for val votes (val m)))"
        using assms(2,4-6) by (auto simp: cert_votes_def)
      ultimately show ?thesis using True il exact [of "val x"] by simp
    next
      case False
      then have "mv_count (vals C ! l) \<le> int (card (votes_for val votes (val x)))"
        using assms(2) l by (auto simp: cert_votes_def)
      then show ?thesis using grow [of "val x"] False by simp
    qed
  qed (use assms(2,7,8,10) in \<open>auto simp: cert_votes_def split: if_splits\<close>)
  with shape cv show ?thesis by blast
qed

text \<open>So does the first vote for a value, the bit of a replica that is not counted, and a reset.\<close>

lemma new_value_ok:
  assumes "cert_shape ops slot nd C" "cert_votes val nd C votes" "slot m"
    and "cur_size C < cert_max_size C" "c_val C = None"
    and "nat j \<in> bm_set (bmap C)" "is_replica nd j" "votes j = None" "j \<noteq> node_id nd"
  defines "C' \<equiv> C\<lparr>vals := (vals C)[cur_size C := \<lparr>mv_m = Some m, mv_count = 1\<rparr>],
                    cur_size := cur_size C + 1\<rparr>"
  shows "cert_shape ops slot nd C' \<and> cert_votes val nd C' (votes(j \<mapsto> m))"
proof -
  note sh = assms(1) [unfolded cert_shape_def]
  have my: "mym C = None" using sh assms(5) by (cases "mym C") auto
  have shape: "cert_shape ops slot nd C'"
    unfolding cert_shape_def
  proof (intro conjI allI impI)
    fix l assume "l < cur_size C'"
    then show "\<exists>m. mv_m (vals C' ! l) = Some m \<and> slot m"
      using sh assms(3,4) by (cases "l = cur_size C") (auto simp: C'_def)
  qed (use sh assms(4,5) my in \<open>auto simp: C'_def\<close>)
  have card: "card (votes_for val (votes(j \<mapsto> m)) x) = card (votes_for val votes x) + (if val m = x then 1 else 0)" for x
    by (rule votes_for_add [OF assms(8) finite_votes_for [OF assms(2)]])
  have "cert_votes val nd C' (votes(j \<mapsto> m))"
    unfolding cert_votes_def
  proof (intro conjI allI impI)
    fix l x assume l: "l < cur_size C'" "mv_m (vals C' ! l) = Some x"
    show "mv_count (vals C' ! l) \<le> int (card (votes_for val (votes(j \<mapsto> m)) (val x)))"
    proof (cases "l = cur_size C")
      case True
      with l assms(4) sh have "x = m" "mv_count (vals C' ! l) = 1" by (auto simp: C'_def)
      then show ?thesis by (simp add: card)
    next
      case False
      then have "mv_count (vals C ! l) \<le> int (card (votes_for val votes (val x)))"
        using assms(2) l by (auto simp: cert_votes_def C'_def)
      then show ?thesis using False by (simp add: card C'_def)
    qed
  qed (use assms(2,6,7,9) my in \<open>auto simp: cert_votes_def C'_def split: if_splits\<close>)
  with shape show ?thesis ..
qed

lemma seen_ok:
  assumes "cert_shape ops slot nd C" "cert_votes val nd C votes"
    and "bm_insert (bmap C) (nat j) = Some bm" "is_replica nd j"
  shows "cert_shape ops slot nd (C\<lparr>bmap := bm\<rparr>) \<and> cert_votes val nd (C\<lparr>bmap := bm\<rparr>) votes"
proof -
  have bm: "bm_ok bm" "num bm = num (bmap C)" "bm_set bm = insert (nat j) (bm_set (bmap C))"
    using bm.insert_ok [of "bmap C" "nat j"] assms(1,3) replica_bit [OF assms(1,4)]
    by (auto simp: cert_shape_def)
  show ?thesis using assms(1,2) bm unfolding cert_shape_def cert_votes_def by simp
qed

lemma clear_shape_votes:
  assumes "cert_shape ops slot nd C"
  shows "cert_shape ops slot nd (cert_clear C) \<and> cert_votes val nd (cert_clear C) (\<lambda>_. None)"
proof -
  note sh = assms [unfolded cert_shape_def]
  have vals: "length (vals (cert_clear C)) = cert_max_size C"
    "\<And>i. i < cert_max_size C \<Longrightarrow> vals (cert_clear C) ! i = mv_clear"
    using clear_vals_nth [of "cur_size C" "vals C" 0] sh by (auto simp: cert_clear_def)
  have "cert_shape ops slot nd (cert_clear C)"
    unfolding cert_shape_def using sh vals bm_clear_ok [of "bmap C"] by (auto simp: cert_clear_def)
  then show ?thesis by (simp add: cert_votes_def cert_clear_def)
qed

lemma wants_vote_total:
  assumes "cert_shape ops slot nd C" "slot m"
  shows "\<exists>b. wants_vote ops C m = Some b \<and>
    (b \<longrightarrow> (\<forall>i cm. c_val C = Some i \<and> mv_m (vals C ! i) = Some cm \<longrightarrow> val cm = val m))"
proof (cases "c_val C")
  case (Some i)
  then obtain cm where "mv_m (vals C ! i) = Some cm" "slot cm"
    using assms(1) [unfolded cert_shape_def] by blast
  with Some assms(2) show ?thesis by (auto simp: wants_vote_def match_val)
qed (auto simp: wants_vote_def)

lemma add_value_inv:
  assumes sh: "cert_shape ops slot nd C" and vo: "cert_votes val nd C votes" and m: "slot m"
    and same: "\<And>i cm. c_val C = Some i \<Longrightarrow> mv_m (vals C ! i) = Some cm \<Longrightarrow> val cm = val m"
    and j: "nat j \<in> bm_set (bmap C)" "is_replica nd j" "votes j = None" "j \<noteq> node_id nd"
  shows "\<exists>r C' votes'. add_value ops C m = Some (r, C') \<and> cert_shape ops slot nd C' \<and>
    cert_votes val nd C' votes' \<and> (\<forall>i x. votes' i = Some x \<longrightarrow> votes i = Some x \<or> i = j \<and> x = m)"
proof -
  note shd = sh [unfolded cert_shape_def]
  show ?thesis
  proof (cases "c_val C")
    case (Some i)
    then obtain cm where cm: "i < cur_size C" "mv_m (vals C ! i) = Some cm" using shd by blast
    from count_vote_ok [OF sh vo m cm same [OF Some cm(2)] j disjI2 [OF Some] disjI1 [OF refl], of "correct_id C"]
    obtain vs where "count_vote ops (vals C) i m = Some vs"
      "cert_shape ops slot nd (C\<lparr>vals := vs\<rparr>)" "cert_votes val nd (C\<lparr>vals := vs\<rparr>) (votes(j \<mapsto> m))"
      by auto
    with Some show ?thesis
      by (intro exI [of _ True] exI [of _ "C\<lparr>vals := vs\<rparr>"] exI [of _ "votes(j \<mapsto> m)"])
        (auto simp: add_value_def)
  next
    case None
    from find_match_cert [OF sh m] obtain r where
      r: "find_match ops (vals C) m [0..<cur_size C] = Some r" and
      hit: "\<And>i. r = Some i \<Longrightarrow> i < cur_size C \<and> (\<exists>m'. mv_m (vals C ! i) = Some m' \<and> val m' = val m)"
      by (auto split: option.splits)
    show ?thesis
    proof (cases r)
      case (Some i)
      obtain m' where m': "i < cur_size C" "mv_m (vals C ! i) = Some m'" "val m' = val m"
        using hit [OF Some] by blast
      note cvo = count_vote_ok [OF sh vo m m' j]
      from cvo [OF disjI1 [OF None] disjI1 [OF refl], of "correct_id C"]
        cvo [OF disjI1 [OF None] disjI2 [OF refl], of "int i"]
      obtain vs where vs: "count_vote ops (vals C) i m = Some vs"
        "cert_shape ops slot nd (C\<lparr>vals := vs\<rparr>)" "cert_votes val nd (C\<lparr>vals := vs\<rparr>) (votes(j \<mapsto> m))"
        "cert_shape ops slot nd (C\<lparr>vals := vs, c_val := Some i, correct_id := int i\<rparr>)"
        "cert_votes val nd (C\<lparr>vals := vs, c_val := Some i, correct_id := int i\<rparr>) (votes(j \<mapsto> m))"
        by auto
      let ?C = "if mv_count (vs ! i) \<ge> correct C
        then C\<lparr>vals := vs, c_val := Some i, correct_id := int i\<rparr> else C\<lparr>vals := vs\<rparr>"
      have "add_value ops C m = Some (True, ?C)" using None Some r vs(1) by (simp add: add_value_def)
      moreover have "cert_shape ops slot nd ?C \<and> cert_votes val nd ?C (votes(j \<mapsto> m))" using vs by simp
      ultimately show ?thesis by (intro exI [of _ True] exI [of _ ?C] exI [of _ "votes(j \<mapsto> m)"]) auto
    next
      case rNone: None
      show ?thesis
      proof (cases "cur_size C < cert_max_size C")
        case True
        with new_value_ok [OF sh vo m True None j] None rNone r show ?thesis
          by (intro exI [of _ True] exI [of _ "votes(j \<mapsto> m)"] exI) (auto simp: add_value_def)
      next
        case False
        with clear_shape_votes [OF sh] None rNone r show ?thesis
          by (intro exI [of _ False] exI [of _ "\<lambda>_. None"] exI) (auto simp: add_value_def)
      qed
    qed
  qed
qed

lemma cert_add_inv:
  assumes sh: "cert_shape ops slot nd C" and vo: "cert_votes val nd C votes" and m: "slot m"
    and self: "verify m \<Longrightarrow> m_id ops m \<noteq> node_id nd"
  shows "\<exists>r C' votes'. cert_add ops verify nd C m = Some (r, C') \<and>
    cert_shape ops slot nd C' \<and> cert_votes val nd C' votes' \<and>
    (\<forall>j x. votes' j = Some x \<longrightarrow> votes j = Some x \<or> verify m \<and> j = m_id ops m \<and> x = m)"
proof -
  let ?j = "m_id ops m"
  note shd = sh [unfolded cert_shape_def]
  have old: "cert_add ops verify nd C m = Some (r, C) \<Longrightarrow> ?thesis" for r using sh vo by blast
  show ?thesis
  proof (cases "is_replica nd ?j")
    case False
    then show ?thesis by (intro old [of False]) (simp add: cert_add_def)
  next
    case rep: True
    note jn = replica_bit [OF sh rep]
    have tst: "bm_test (bmap C) (nat ?j) = Some (nat ?j \<in> bm_set (bmap C))"
      using bm_test_set shd jn by blast
    obtain bm where bm: "bm_insert (bmap C) (nat ?j) = Some bm" "bm_set bm = insert (nat ?j) (bm_set (bmap C))"
      using bm_insert_ok shd jn by blast
    from wants_vote_total [OF sh m] obtain b where b: "wants_vote ops C m = Some b" and
      same: "\<And>i cm. b \<Longrightarrow> c_val C = Some i \<Longrightarrow> mv_m (vals C ! i) = Some cm \<Longrightarrow> val cm = val m" by blast
    show ?thesis
    proof (cases "nat ?j \<in> bm_set (bmap C) \<or> \<not> verify m")
      case True
      with b show ?thesis by (intro old [of False]) (auto simp: cert_add_def rep tst Let_def)
    next
      case fresh: False
      then have self': "?j \<noteq> node_id nd" using self by blast
      have vj: "votes ?j = None" using vo fresh self' by (auto simp: cert_votes_def)
      note seen = seen_ok [OF sh vo bm(1) rep]
      show ?thesis
      proof (cases b)
        case True
        have "cert_add ops verify nd C m = add_value ops (C\<lparr>bmap := bm\<rparr>) m"
          using True b fresh self' bm(1) by (simp add: cert_add_def rep tst)
        moreover have "\<exists>r C' votes'. add_value ops (C\<lparr>bmap := bm\<rparr>) m = Some (r, C') \<and>
            cert_shape ops slot nd C' \<and> cert_votes val nd C' votes' \<and>
            (\<forall>i x. votes' i = Some x \<longrightarrow> votes i = Some x \<or> i = ?j \<and> x = m)"
          by (rule add_value_inv) (use seen m same True bm rep vj self' in auto)
        ultimately show ?thesis using fresh by auto
      next
        case False
        with b fresh bm(1) seen show ?thesis
          by (intro exI [of _ False] exI [of _ "C\<lparr>bmap := bm\<rparr>"] exI [of _ votes])
            (auto simp: cert_add_def rep tst)
      qed
    qed
  qed
qed

lemma choose_value_inv:
  assumes sh: "cert_shape ops slot nd C" and vo: "cert_votes val nd C votes" and m: "slot m"
    and same: "\<forall>i cm. c_val C = Some i \<longrightarrow> mv_m (vals C ! i) = Some cm \<longrightarrow> val cm = val m"
  shows "\<exists>C' i. choose_value ops C m = Some C' \<and> c_val C' = Some i \<and> i < cert_max_size C \<and>
    C' = C\<lparr>c_val := Some i, correct_id := correct_id C', vals := vals C'\<rparr> \<and> length (vals C') = length (vals C) \<and>
    (\<forall>l. l \<noteq> i \<longrightarrow> vals C' ! l = vals C ! l) \<and> mv_m (vals C' ! i) = mv_m (vals C ! i) \<and>
    (mv_m (vals C' ! i) = None \<longrightarrow> cur_size C = 0 \<and> i = 0) \<and> (i < cur_size C \<or> cur_size C = 0 \<and> i = 0) \<and>
    mv_count (vals C' ! i) \<le> int (card (votes_for val votes (val m)))"
proof (cases "c_val C")
  case (Some i)
  moreover from Some sh obtain cm where "i < cur_size C" "mv_m (vals C ! i) = Some cm"
    "cur_size C \<le> cert_max_size C"
    unfolding cert_shape_def by blast
  moreover from this Some same vo have "mv_count (vals C ! i) \<le> int (card (votes_for val votes (val m)))"
    unfolding cert_votes_def by fastforce
  ultimately show ?thesis by (auto simp: choose_value_def)
next
  case None
  note shd = sh [unfolded cert_shape_def]
  from find_match_cert [OF sh m] obtain r where
    r: "find_match ops (vals C) m [0..<cur_size C] = Some r" and
    hit: "\<And>i. r = Some i \<Longrightarrow> i < cur_size C \<and> (\<exists>m'. mv_m (vals C ! i) = Some m' \<and> val m' = val m)"
    by (auto split: option.splits)
  show ?thesis
  proof (cases r)
    case (Some i)
    from hit [OF Some] obtain m' where m': "i < cur_size C" "mv_m (vals C ! i) = Some m'" "val m' = val m" by blast
    with vo have "mv_count (vals C ! i) \<le> int (card (votes_for val votes (val m)))"
      unfolding cert_votes_def by metis
    with m' Some None r shd show ?thesis by (auto simp: choose_value_def)
  next
    case rNone: None
    let ?C = "C\<lparr>c_val := Some 0, correct_id := 0, vals := (vals C)[0 := (vals C ! 0)\<lparr>mv_count := 0\<rparr>]\<rparr>"
    have "choose_value ops C m = Some ?C" using None rNone r by (simp add: choose_value_def)
    moreover have "mv_m (vals C ! 0) = None \<longrightarrow> cur_size C = 0" using shd by (cases "cur_size C") auto
    moreover have "0 < cert_max_size C" "length (vals C) = cert_max_size C" using shd by auto
    ultimately show ?thesis by (intro exI [of _ ?C] exI [of _ 0]) auto
  qed
qed

lemma chosen_match:
  assumes "cert_shape ops slot nd C" "slot m"
  shows "\<exists>b. (case c_val C of None \<Rightarrow> Some True
      | Some i \<Rightarrow> mv_m (vals C ! i) \<bind> (\<lambda>cm. m_match ops cm m)) = Some b \<and>
    (b \<longrightarrow> (\<forall>i cm. c_val C = Some i \<longrightarrow> mv_m (vals C ! i) = Some cm \<longrightarrow> val cm = val m))"
proof (cases "c_val C")
  case (Some i)
  then obtain cm where "mv_m (vals C ! i) = Some cm" "slot cm"
    using assms(1) [unfolded cert_shape_def] by blast
  with Some assms(2) show ?thesis by (auto simp: match_val)
qed auto

lemma cert_add_mine_inv:
  assumes sh: "cert_shape ops slot nd C" and vo: "cert_votes val nd C votes" and m: "slot m"
    and self: "m_id ops m = node_id nd" "m_full ops m" "mine C = None"
  shows "\<exists>r C' votes'. cert_add_mine ops nd now C m = Some (r, C') \<and>
    cert_shape ops slot nd C' \<and> cert_votes val nd C' votes' \<and>
    (\<forall>j x. votes' j = Some x \<longrightarrow> votes j = Some x \<or> j = node_id nd \<and> x = m)"
proof -
  note shd = sh [unfolded cert_shape_def]
  have my: "mym C = None" using self(3) by (simp add: mine_def)
  then have vn: "votes (node_id nd) = None" using vo by (simp add: cert_votes_def)
  from chosen_match [OF sh m] obtain b where b:
    "(case c_val C of None \<Rightarrow> Some True
      | Some i \<Rightarrow> mv_m (vals C ! i) \<bind> (\<lambda>cm. m_match ops cm m)) = Some b"
    and same: "b \<longrightarrow> (\<forall>i cm. c_val C = Some i \<longrightarrow> mv_m (vals C ! i) = Some cm \<longrightarrow> val cm = val m)"
    by blast
  show ?thesis
  proof (cases b)
    case False
    with b self sh vo show ?thesis
      by (intro exI [of _ False] exI [of _ C] exI [of _ votes]) (simp add: cert_add_mine_def)
  next
    case True
    from choose_value_inv [OF sh vo m mp [OF same True]] obtain C1 i where
      cv: "choose_value ops C m = Some C1" "c_val C1 = Some i" and
      i: "i < cert_max_size C" "i < cur_size C \<or> cur_size C = 0 \<and> i = 0" and
      C1: "C1 = C\<lparr>c_val := Some i, correct_id := correct_id C1, vals := vals C1\<rparr>"
        "length (vals C1) = length (vals C)" "\<forall>l. l \<noteq> i \<longrightarrow> vals C1 ! l = vals C ! l" and
      none: "mv_m (vals C1 ! i) = None \<longrightarrow> cur_size C = 0 \<and> i = 0" and
      mv: "mv_m (vals C1 ! i) = mv_m (vals C ! i)" and
      cnt: "mv_count (vals C1 ! i) \<le> int (card (votes_for val votes (val m)))" by (elim exE conjE) (rule that)
    obtain bm where bm: "bm_insert (bmap C) (nat (node_id nd)) = Some bm" "bm_ok bm" "num bm = num (bmap C)"
      "bm_set bm = insert (nat (node_id nd)) (bm_set (bmap C))"
      using bm_insert_ok [of "bmap C" "nat (node_id nd)"] shd replica_bit [OF sh] by blast
    let ?vs = "(vals C1)[i := \<lparr>mv_m = Some m, mv_count = mv_count (vals C1 ! i) + 1\<rparr>]"
    let ?C = "C\<lparr>c_val := Some i, correct_id := correct_id C1, cur_size := max (cur_size C) (Suc i), bmap := bm,
       vals := ?vs, mym := Some m, t_sent := now\<rparr>"
    have cs: "cur_size C1 = cur_size C" "bmap C1 = bmap C" by (subst C1(1), simp)+
    have some: "mv_m (vals C1 ! i) \<noteq> None \<Longrightarrow> i < cur_size C"
      using i shd mv by (auto simp: mv_clear_def)
    have "cert_add_mine ops nd now C m = Some (True, ?C)"
    proof (cases "mv_m (vals C1 ! i) = None")
      case True
      with none have "cur_size C = 0" "i = 0" by auto
      then show ?thesis using b \<open>b\<close> self cv bm(1) cs True
        by (simp add: cert_add_mine_def) (subst C1(1), simp)
    next
      case False
      then obtain y where y: "mv_m (vals C1 ! i) = Some y" by blast
      from False some have "max (cur_size C) (Suc i) = cur_size C" by simp
      then show ?thesis using b \<open>b\<close> self cv bm(1) cs y
        by (simp add: cert_add_mine_def) (subst C1(1), simp)
    qed
    moreover have "cert_shape ops slot nd ?C"
      unfolding cert_shape_def
    proof (intro conjI allI impI)
      fix l assume "l < cur_size ?C"
      then show "\<exists>m. mv_m (vals ?C ! l) = Some m \<and> slot m"
        using shd m i C1(2,3) by (cases "l = i") auto
    qed (use shd bm i C1(2,3) m self(2) in \<open>auto simp: nth_list_update\<close>)
    moreover have "cert_votes val nd ?C (votes(node_id nd \<mapsto> m))"
      unfolding cert_votes_def
    proof (intro conjI allI impI)
      fix l x assume l: "l < cur_size ?C" "mv_m (vals ?C ! l) = Some x"
      note card = votes_for_add [OF vn finite_votes_for [OF vo]]
      show "mv_count (vals ?C ! l) \<le> int (card (votes_for val (votes(node_id nd \<mapsto> m)) (val x)))"
      proof (cases "l = i")
        case True
        then show ?thesis using l(2) i(1) C1(2) shd cnt by (simp add: card)
      next
        case False
        then have "l < cur_size C" "mv_m (vals C ! l) = Some x" using l i(2) C1(3) by auto
        then have "mv_count (vals C ! l) \<le> int (card (votes_for val votes (val x)))"
          using vo by (auto simp: cert_votes_def)
        then show ?thesis using False C1(3) by (simp add: card)
      qed
    qed (use vo bm shd in \<open>auto simp: cert_votes_def split: if_splits\<close>)
    ultimately show ?thesis by (intro exI [of _ True] exI [of _ ?C] exI [of _ "votes(node_id nd \<mapsto> m)"]) auto
  qed
qed

lemma mark_stale_inv:
  assumes sh: "cert_shape ops slot nd C" and vo: "cert_votes val nd C votes"
  shows "\<exists>C' votes'. cert_mark_stale C = Some C' \<and> cert_shape ops slot nd C' \<and>
    cert_votes val nd C' votes' \<and> (\<forall>j x. votes' j = Some x \<longrightarrow> votes j = Some x)"
proof (cases "is_complete C")
  case True
  with sh vo show ?thesis by (auto simp: cert_mark_stale_def)
next
  case False
  note shd = sh [unfolded cert_shape_def]
  have bm: "bm_ok (bm_clear (bmap C))" "num (bm_clear (bmap C)) = num (bmap C)" "bm_set (bm_clear (bmap C)) = {}"
    using bm_clear_ok shd by auto
  show ?thesis
  proof (cases "mym C")
    case None
    let ?C = "C\<lparr>vals := clear_vals 0 (cur_size C) (vals C), c_val := None, cur_size := 0, bmap := bm_clear (bmap C)\<rparr>"
    have "cert_shape ops slot nd ?C"
      using shd bm None clear_vals_nth [of "cur_size C" "vals C" 0] unfolding cert_shape_def by simp
    moreover have "cert_votes val nd ?C (\<lambda>_. None)" using None by (simp add: cert_votes_def)
    ultimately show ?thesis using False None by (auto simp: cert_mark_stale_def)
  next
    case (Some m)
    then obtain i where i: "c_val C = Some i" "mv_m (vals C ! i) = Some m" "m_full ops m" "slot m" "i < cur_size C"
      using shd by blast
    let ?vs = "(vals C)[i := mv_clear, 0 := \<lparr>mv_m = Some m, mv_count = 1\<rparr>]"
    let ?C = "C\<lparr>vals := clear_vals 1 (cur_size C) ?vs, c_val := Some 0, cur_size := 1, bmap := bm_clear (bmap C)\<rparr>"
    let ?vo = "[node_id nd \<mapsto> m]"
    have len: "length (vals ?C) = cert_max_size C"
      using shd clear_vals_nth [of "cur_size C" ?vs 1] by simp
    have nth: "l < cert_max_size C \<Longrightarrow> vals ?C ! l = (if l = 0 then \<lparr>mv_m = Some m, mv_count = 1\<rparr> else mv_clear)" for l
      using shd i(5) clear_vals_nth [of "cur_size C" ?vs 1 l] by (cases "l < cur_size C") (auto simp: nth_list_update)
    have my: "mym ?C = Some m" using Some by simp
    have "cert_shape ops slot nd ?C"
      unfolding cert_shape_def
    proof (intro conjI allI impI)
      fix l assume "l < cur_size ?C"
      then have "l = 0" by simp
      with nth [of 0] i(4) shd show "\<exists>m. mv_m (vals ?C ! l) = Some m \<and> slot m" by force
    next
      fix l assume l: "cur_size ?C \<le> l \<and> l < cert_max_size ?C"
      then have "l < cert_max_size C" "l \<noteq> 0" by auto
      with nth [of l] show "vals ?C ! l = mv_clear" by presburger
    next
      fix x assume "mym ?C = Some x"
      then have x: "x = m" using Some by simp
      with i show "m_full ops x" "slot x" by simp_all
      have "mv_m (vals ?C ! 0) = Some m" using nth [of 0] shd by force
      then show "\<exists>k. c_val ?C = Some k \<and> mv_m (vals ?C ! k) = Some x" using x by simp
    next
      show "length (vals ?C) = cert_max_size ?C" using len by simp
    qed (use shd bm in auto)
    moreover have nth0: "vals ?C ! 0 = \<lparr>mv_m = Some m, mv_count = 1\<rparr>" and rep: "is_replica nd (node_id nd)"
      using nth [of 0] shd by auto
    have "votes_for val ?vo (val m) = {node_id nd}" by (auto simp: votes_for_def)
    then have "cert_votes val nd ?C ?vo"
      using my nth0 rep unfolding cert_votes_def by (auto split: if_splits)
    moreover have "votes (node_id nd) = Some m" using vo Some by (simp add: cert_votes_def)
    moreover have "cert_mark_stale C = Some ?C" using False Some i by (simp add: cert_mark_stale_def Let_def)
    ultimately show ?thesis by (intro exI [of _ ?C] exI [of _ ?vo]) auto
  qed
qed

end

section \<open>Reachable certificates\<close>

text \<open>The quorum lemma on replica identifiers.\<close>

lemma int_quorums_share:
  fixes f :: int
  assumes "0 \<le> f" "n = 3 * f + 1" "A \<subseteq> {0..<n}" "B \<subseteq> {0..<n}" "2 * f + 1 \<le> int (card A)" "2 * f + 1 \<le> int (card B)"
    and "finite faulty" "int (card faulty) \<le> f"
  shows "\<exists>j \<in> A \<inter> B. j \<notin> faulty"
proof -
  have img: "card (nat ` X) = card X" "nat ` X \<subseteq> {..<3 * nat f + 1}" if "X \<subseteq> {0..<n}" for X
  proof -
    have "inj_on nat X" using that by (intro inj_onI) (metis atLeastLessThan_iff eq_nat_nat_iff subsetD)
    then show "card (nat ` X) = card X" by (rule card_image)
    show "nat ` X \<subseteq> {..<3 * nat f + 1}" using that assms(1,2) by force
  qed
  have "card (nat ` (faulty \<inter> {0..<n})) \<le> nat f"
  proof -
    have "card (nat ` (faulty \<inter> {0..<n})) \<le> card (faulty \<inter> {0..<n})" by (rule card_image_le) (simp add: assms(7))
    also have "\<dots> \<le> card faulty" by (rule card_mono) (auto simp: assms(7))
    finally show ?thesis using assms(8) by linarith
  qed
  then have "\<exists>i \<in> nat ` A \<inter> nat ` B. i \<notin> nat ` (faulty \<inter> {0..<n})"
    using nq.quorums_share_correct [of "nat ` A" "nat f" "nat ` B" "nat ` (faulty \<inter> {0..<n})"]
      img [OF assms(3)] img [OF assms(4)] assms(1,5-7) by simp
  then obtain a b where "a \<in> A" "b \<in> B" "nat a = nat b" "nat a \<notin> nat ` (faulty \<inter> {0..<n})" by auto
  moreover from this have "a = b" using assms(3,4) by (metis atLeastLessThan_iff eq_nat_nat_iff subsetD)
  ultimately show ?thesis using assms(3) by blast
qed

text \<open>
  The life of one certificate as a step relation. The trace records the calls: \<open>Add m v\<close> is
  \<^verbatim>\<open>add(m)\<close> with \<^verbatim>\<open>m->verify()\<close> returning \<open>v\<close>. A replica calls \<^verbatim>\<open>add_mine\<close> at most once per
  life of the certificate (until \<^verbatim>\<open>clear\<close>), and \<^verbatim>\<open>verify\<close> returns false for its own messages.
\<close>

datatype 'm cert_event = Add 'm bool | Add_mine 'm int | Mark_stale | Clear

inductive cert_reach :: "'m msg_ops \<Rightarrow> ('m \<Rightarrow> bool) \<Rightarrow> int \<Rightarrow> node \<Rightarrow> int \<Rightarrow> 'm cert_event list \<Rightarrow> 'm certificate \<Rightarrow> bool"
  for ops slot Mx nd cmpl where
  new: "cert_reach ops slot Mx nd cmpl [] (Certificate_new Mx nd cmpl)"
| add: "cert_reach ops slot Mx nd cmpl es C \<Longrightarrow> slot m \<Longrightarrow> (b \<Longrightarrow> m_id ops m \<noteq> node_id nd) \<Longrightarrow>
    cert_add ops (\<lambda>_. b) nd C m = Some (r, C') \<Longrightarrow> cert_reach ops slot Mx nd cmpl (es @ [Add m b]) C'"
| add_mine: "cert_reach ops slot Mx nd cmpl es C \<Longrightarrow> slot m \<Longrightarrow> mine C = None \<Longrightarrow>
    cert_add_mine ops nd now C m = Some (r, C') \<Longrightarrow> cert_reach ops slot Mx nd cmpl (es @ [Add_mine m now]) C'"
| mark_stale: "cert_reach ops slot Mx nd cmpl es C \<Longrightarrow> cert_mark_stale C = Some C' \<Longrightarrow>
    cert_reach ops slot Mx nd cmpl (es @ [Mark_stale]) C'"
| clear: "cert_reach ops slot Mx nd cmpl es C \<Longrightarrow> cert_reach ops slot Mx nd cmpl (es @ [Clear]) (cert_clear C)"

text \<open>Who is known, from the trace, to have sent a message.\<close>

definition said :: "'m msg_ops \<Rightarrow> node \<Rightarrow> 'm cert_event list \<Rightarrow> int \<Rightarrow> 'm \<Rightarrow> bool" where
  "said ops nd es j m \<longleftrightarrow> Add m True \<in> set es \<and> m_id ops m = j \<or>
     j = node_id nd \<and> (\<exists>now. Add_mine m now \<in> set es)"

lemma said_append:
  "said ops nd es j m \<Longrightarrow> said ops nd (es @ es') j m"
  "b \<and> j = m_id ops m \<and> x = m \<Longrightarrow> said ops nd (es @ [Add m b]) j x"
  "j = node_id nd \<and> x = m \<Longrightarrow> said ops nd (es @ [Add_mine m now]) j x"
  by (auto simp: said_def)

lemma complete_kept:
  "cert_add ops verify nd C m = Some (r, C') \<Longrightarrow> complete C' = complete C"
  "cert_add_mine ops nd now C m = Some (r, C') \<Longrightarrow> complete C' = complete C"
  "cert_mark_stale C = Some C' \<Longrightarrow> complete C' = complete C"
  by (auto simp: cert_add_def add_value_def cert_add_mine_def choose_value_def cert_mark_stale_def cert_clear_def
      Let_def split: if_splits option.splits Option.bind_splits)

text \<open>A run of accepted messages.\<close>

lemma cert_reach_adds:
  assumes "cert_reach ops slot Mx nd cmpl es C" "\<forall>m \<in> set ms. slot m \<and> m_id ops m \<noteq> node_id nd"
    and "fold_opt (\<lambda>m C. map_option snd (cert_add ops (\<lambda>_. True) nd C m)) ms C = Some C'"
  shows "cert_reach ops slot Mx nd cmpl (es @ map (\<lambda>m. Add m True) ms) C'"
  using assms
proof (induction ms arbitrary: es C)
  case (Cons m ms)
  then obtain r C1 where C1: "cert_add ops (\<lambda>_. True) nd C m = Some (r, C1)"
    "fold_opt (\<lambda>m C. map_option snd (cert_add ops (\<lambda>_. True) nd C m)) ms C1 = Some C'"
    by (auto split: Option.bind_splits)
  have "cert_reach ops slot Mx nd cmpl (es @ [Add m True]) C1"
    by (rule cert_reach.add [OF Cons.prems(1) _ _ C1(1)]) (use Cons.prems(2) in auto)
  from Cons.IH [OF this _ C1(2)] Cons.prems(2) show ?case by simp
qed simp

context cert_msgs
begin

lemma reach_inv:
  assumes "cert_reach ops slot Mx nd cmpl es C"
    and "is_replica nd (node_id nd)" "0 \<le> max_faulty nd" "num_replicas nd \<le> Mx" "Mx \<le> 2 ^ 31"
  shows "\<exists>votes. cert_shape ops slot nd C \<and> cert_votes val nd C votes \<and>
    complete C = (if cmpl = 0 then max_faulty nd * 2 + 1 else cmpl) \<and>
    (\<forall>j x. votes j = Some x \<longrightarrow> said ops nd es j x)"
  using assms(1)
proof induction
  case new
  have "cert_shape ops slot nd (Certificate_new Mx nd cmpl)"
    using assms(2-5) Bitmap_new_ok [of "nat Mx" False]
    by (simp add: cert_shape_def Certificate_new_def ChunkBits_def mv_clear_def)
  then show ?case
    by (intro exI [of _ "\<lambda>_. None"]) (simp add: cert_votes_def Certificate_new_def)
next
  case (add es C m b r C')
  then obtain votes where I: "cert_shape ops slot nd C" "cert_votes val nd C votes"
    "complete C = (if cmpl = 0 then max_faulty nd * 2 + 1 else cmpl)"
    "\<forall>j x. votes j = Some x \<longrightarrow> said ops nd es j x" by blast
  from cert_add_inv [OF I(1,2) add(2), of "\<lambda>_. b"] add(3,4) obtain votes' where
    "cert_shape ops slot nd C'" "cert_votes val nd C' votes'"
    "\<forall>j x. votes' j = Some x \<longrightarrow> votes j = Some x \<or> b \<and> j = m_id ops m \<and> x = m" by auto
  with I(3,4) complete_kept(1) [OF add(4)] show ?case
    by (intro exI [of _ votes'] conjI allI impI) (simp_all, blast intro: said_append)
next
  case (add_mine es C m now r C')
  then obtain votes where I: "cert_shape ops slot nd C" "cert_votes val nd C votes"
    "complete C = (if cmpl = 0 then max_faulty nd * 2 + 1 else cmpl)"
    "\<forall>j x. votes j = Some x \<longrightarrow> said ops nd es j x" by blast
  have "m_id ops m = node_id nd" "m_full ops m"
    using add_mine(4) by (auto simp: cert_add_mine_def split: if_splits)
  from cert_add_mine_inv [OF I(1,2) add_mine(2) this add_mine(3), of now] add_mine(4) obtain votes' where
    "cert_shape ops slot nd C'" "cert_votes val nd C' votes'"
    "\<forall>j x. votes' j = Some x \<longrightarrow> votes j = Some x \<or> j = node_id nd \<and> x = m" by auto
  with I(3,4) complete_kept(2) [OF add_mine(4)] show ?case
    by (intro exI [of _ votes'] conjI allI impI) (simp_all, blast intro: said_append)
next
  case (mark_stale es C C')
  then obtain votes where I: "cert_shape ops slot nd C" "cert_votes val nd C votes"
    "complete C = (if cmpl = 0 then max_faulty nd * 2 + 1 else cmpl)"
    "\<forall>j x. votes j = Some x \<longrightarrow> said ops nd es j x" by blast
  from mark_stale_inv [OF I(1,2)] mark_stale(2) obtain votes' where
    "cert_shape ops slot nd C'" "cert_votes val nd C' votes'"
    "\<forall>j x. votes' j = Some x \<longrightarrow> votes j = Some x" by auto
  with I(3,4) complete_kept(3) [OF mark_stale(2)] show ?case
    by (intro exI [of _ votes'] conjI allI impI) (simp_all, blast intro: said_append)
next
  case (clear es C)
  then have "cert_shape ops slot nd C" "complete C = (if cmpl = 0 then max_faulty nd * 2 + 1 else cmpl)" by blast+
  then show ?case using clear_shape_votes [of nd C]
    by (intro exI [of _ "\<lambda>_. None"]) (simp add: cert_clear_def)
qed

text \<open>A complete certificate has a quorum behind its value.\<close>

lemma reach_complete:
  assumes "cert_reach ops slot Mx nd cmpl es C"
    and "is_replica nd (node_id nd)" "0 \<le> max_faulty nd" "num_replicas nd \<le> Mx" "Mx \<le> 2 ^ 31" "0 \<le> cmpl"
    and "is_complete C"
  shows "\<exists>m S. cvalue C = Some m \<and> slot m \<and> S \<subseteq> {0..<num_replicas nd} \<and>
    (if cmpl = 0 then 2 * max_faulty nd + 1 else cmpl) \<le> int (card S) \<and>
    (\<forall>j \<in> S. \<exists>m'. said ops nd es j m' \<and> val m' = val m)"
proof -
  from reach_inv [OF assms(1-5)] obtain votes where I: "cert_shape ops slot nd C" "cert_votes val nd C votes"
    "complete C = (if cmpl = 0 then max_faulty nd * 2 + 1 else cmpl)"
    "\<forall>j x. votes j = Some x \<longrightarrow> said ops nd es j x" by blast
  have "0 < complete C" using I(3) assms(3,6) by auto
  with assms(7) obtain i where i: "c_val C = Some i" "complete C \<le> mv_count (vals C ! i)"
    by (auto simp: is_complete_def num_correct_def split: option.splits)
  with I(1) obtain m where m: "i < cur_size C" "mv_m (vals C ! i) = Some m" "slot m"
    unfolding cert_shape_def by blast
  let ?S = "votes_for val votes (val m)"
  have "mv_count (vals C ! i) \<le> int (card ?S)" using I(2) m unfolding cert_votes_def by blast
  moreover have "?S \<subseteq> {0..<num_replicas nd}"
    using I(2) by (auto simp: cert_votes_def votes_for_def is_replica_def)
  ultimately show ?thesis using i m I(3,4)
    by (intro exI [of _ m] exI [of _ ?S]) (auto simp: cvalue_def votes_for_def)
qed

text \<open>Complete certificates of two replicas have the same value when no correct replica sends two.\<close>

lemma complete_agree:
  assumes "cert_reach ops slot Mx nd1 0 es1 C1" "cert_reach ops slot Mx nd2 0 es2 C2"
    and "node_ok nd1" "node_ok nd2" "max_faulty nd1 = max_faulty nd2"
    and "is_replica nd1 (node_id nd1)" "is_replica nd2 (node_id nd2)" "num_replicas nd1 \<le> Mx" "Mx \<le> 2 ^ 31"
    and "is_complete C1" "is_complete C2" "finite faulty" "int (card faulty) \<le> max_faulty nd1"
    and honest: "\<And>j m m'. j \<notin> faulty \<Longrightarrow> said ops nd1 es1 j m \<Longrightarrow> said ops nd2 es2 j m' \<Longrightarrow> val m = val m'"
  shows "\<exists>m1 m2. cvalue C1 = Some m1 \<and> cvalue C2 = Some m2 \<and> val m1 = val m2"
proof -
  have ok: "0 \<le> max_faulty nd1" "num_replicas nd1 = 3 * max_faulty nd1 + 1" "num_replicas nd2 = num_replicas nd1"
    using assms(3-5) by (auto simp: node_ok_def)
  from reach_complete [OF assms(1,6) ok(1) assms(8,9) _ assms(10)] obtain m1 S1 where
    S1: "cvalue C1 = Some m1" "S1 \<subseteq> {0..<num_replicas nd1}" "2 * max_faulty nd1 + 1 \<le> int (card S1)"
      "\<forall>j \<in> S1. \<exists>m'. said ops nd1 es1 j m' \<and> val m' = val m1" by auto
  from reach_complete [OF assms(2,7)] ok assms(5,8,9,11) obtain m2 S2 where
    S2: "cvalue C2 = Some m2" "S2 \<subseteq> {0..<num_replicas nd1}" "2 * max_faulty nd1 + 1 \<le> int (card S2)"
      "\<forall>j \<in> S2. \<exists>m'. said ops nd2 es2 j m' \<and> val m' = val m2" by auto
  from int_quorums_share [OF ok(1,2) S1(2) S2(2) S1(3) S2(3) assms(12,13)]
  obtain j where "j \<in> S1" "j \<in> S2" "j \<notin> faulty" by blast
  with S1(4) S2(4) honest show ?thesis using S1(1) S2(1) by metis
qed

end

end
