(* ===== verification/Messages.thy ===== *)
theory Messages
  imports Certificate
begin

text \<open>
  The agreement messages: the header every message starts with (\<^verbatim>\<open>Message.h\<close>, \<^verbatim>\<open>Message.cc\<close>) and the
  prepare, commit and checkpoint messages (\<^verbatim>\<open>Prepare.h\<close>, \<^verbatim>\<open>Commit.h\<close>, \<^verbatim>\<open>Checkpoint.h\<close> with their
  \<^verbatim>\<open>.cc\<close> files). A message is a record of the fields of its \<^verbatim>\<open>_rep\<close> structure, the bytes that follow
  the structure and the fields of the \<^verbatim>\<open>Message\<close> object; the \<open>_bytes\<close> functions give the bytes of the
  structure on a little-endian LP64 platform, which is what the authenticators cover.
\<close>

section \<open>Layout of integers\<close>

definition le_bytes :: "nat \<Rightarrow> int \<Rightarrow> byte list" where
  "le_bytes n x = map (\<lambda>i. word_of_int (x div 256 ^ i)) [0..<n]"

definition digest_bytes :: "digest \<Rightarrow> byte list" where
  "digest_bytes d = concat (map (\<lambda>w. le_bytes 4 (uint w)) d)"

definition ALIGNMENT :: int where
  "ALIGNMENT = 8"

definition ALIGNED :: "int \<Rightarrow> bool" where
  "ALIGNED x \<longleftrightarrow> x mod ALIGNMENT = 0"

definition ALIGNED_SIZE :: "int \<Rightarrow> int" where
  "ALIGNED_SIZE sz = (if ALIGNED sz then sz else sz - sz mod ALIGNMENT + ALIGNMENT)"

lemma length_le_bytes [simp]: "length (le_bytes n x) = n"
  by (simp add: le_bytes_def)

lemma uint_byte: "uint (word_of_int x :: byte) = x mod 256"
  by (simp add: uint_word_of_int)

lemma le_bytes_mod:
  assumes "le_bytes n x = le_bytes n y"
  shows "x mod 256 ^ n = y mod 256 ^ n"
  using assms
proof (induction n)
  case 0
  then show ?case by simp
next
  case (Suc n)
  have "le_bytes n x = le_bytes n y" and
    b: "(word_of_int (x div 256 ^ n) :: byte) = word_of_int (y div 256 ^ n)"
    using Suc.prems by (simp_all add: le_bytes_def)
  with Suc.IH have IH: "x mod 256 ^ n = y mod 256 ^ n" by blast
  have "(x div 256 ^ n) mod 256 = (y div 256 ^ n) mod 256"
    using arg_cong [OF b, of uint] by (simp add: uint_byte)
  moreover have "z mod 256 ^ Suc n = z mod 256 ^ n + 256 ^ n * (z div 256 ^ n mod 256)" for z :: int
    using zmod_zmult2_eq [of 256 z "256 ^ n"] by (simp add: mult.commute)
  ultimately show ?case using IH by simp
qed

text \<open>Signed fields are recovered from their bytes.\<close>

lemma le_bytes_inj:
  assumes "le_bytes n x = le_bytes n y" "- (256 ^ n) \<le> 2 * x" "2 * x < 256 ^ n" "- (256 ^ n) \<le> 2 * y" "2 * y < 256 ^ n"
  shows "x = y"
proof -
  have "256 ^ n dvd x - y" using le_bytes_mod [OF assms(1)] by (simp add: mod_eq_dvd_iff)
  moreover have "\<bar>x - y\<bar> < 256 ^ n" using assms(2-5) by linarith
  ultimately have "x - y = 0" using zdvd_not_zless [of "\<bar>x - y\<bar>" "256 ^ n"] by auto
  then show ?thesis by simp
qed

lemma length_digest_bytes: "length (digest_bytes d) = 4 * length d"
  by (induction d) (simp_all add: digest_bytes_def)

lemma digest_bytes_inj:
  "length d = length e \<Longrightarrow> digest_bytes d = digest_bytes e \<Longrightarrow> d = e"
proof (induction d e rule: list_induct2)
  case (Cons a d b e)
  then have ab: "le_bytes 4 (uint a) = le_bytes 4 (uint b)" and "digest_bytes d = digest_bytes e"
    by (simp_all add: digest_bytes_def)
  have "uint w < 256 ^ 4" for w :: "32 word" using uint_bounded [of w] by simp
  then have "uint a = uint b" using le_bytes_mod [OF ab] by simp
  with Cons \<open>digest_bytes d = digest_bytes e\<close> show ?case by (simp add: word_uint_eq_iff)
qed simp

section \<open>The header\<close>

text \<open>\<open>crypto\<close> collects what the code takes from MbedTLS and the platform: whether \<^verbatim>\<open>char\<close> is signed,
  the HMAC, SHA-256, and the signature functions of a key pair owner.\<close>

record crypto =
  cr_sc :: bool
  cr_H :: "key \<Rightarrow> byte list \<Rightarrow> byte list"
  cr_hash :: "byte list \<Rightarrow> digest"
  cr_sig :: "int \<Rightarrow> byte list \<Rightarrow> byte list"
  cr_sigver :: "int \<Rightarrow> byte list \<Rightarrow> byte list \<Rightarrow> bool"

record message =
  m_tag :: int
  m_extra :: int
  m_size :: int
  m_max :: int
  m_scratch :: bool
  m_rest :: "byte list"

definition Request_tag :: int where "Request_tag = 1"
definition Reply_tag :: int where "Reply_tag = 2"
definition Pre_prepare_tag :: int where "Pre_prepare_tag = 3"
definition Prepare_tag :: int where "Prepare_tag = 4"
definition Commit_tag :: int where "Commit_tag = 5"
definition Checkpoint_tag :: int where "Checkpoint_tag = 6"

definition sizeof_Message_rep :: nat where
  "sizeof_Message_rep = 8"

definition header_bytes :: "'a message_scheme \<Rightarrow> byte list" where
  "header_bytes m = le_bytes 2 (m_tag m) @ le_bytes 2 (m_extra m) @ le_bytes 4 (m_size m)"

definition has_tag :: "'a message_scheme \<Rightarrow> int \<Rightarrow> int \<Rightarrow> bool" where
  "has_tag m t sz =
     (if m_max m \<ge> 0 \<and> m_size m > m_max m then False
      else if m_tag m \<noteq> t \<or> m_size m < sz \<or> \<not> ALIGNED (m_size m) then False
      else True)"

definition msize :: "'a message_scheme \<Rightarrow> int" where
  "msize m = (if m_max m \<ge> 0 then m_max m else m_size m)"

text \<open>\<^verbatim>\<open>set_size\<close> also zeroes the bytes between the old and the aligned end of the message; \<open>off\<close> is
  the number of bytes before \<open>m_rest\<close>.\<close>

definition set_size :: "nat \<Rightarrow> 'a message_scheme \<Rightarrow> int \<Rightarrow> 'a message_scheme option" where
  "set_size off m sz = do {
     th_assert (m_max m < 0 \<or> ALIGNED_SIZE sz \<le> m_max m);
     let aligned = ALIGNED_SIZE sz;
     let body = take (nat sz - off) (m_rest m);
     Some (m\<lparr>m_size := aligned, m_rest := body @ replicate (nat aligned - nat sz) 0 @ drop (nat aligned - off) (m_rest m)\<rparr>) }"

text \<open>\<^verbatim>\<open>Message::convert\<close> on a buffer: \<open>aligned\<close> is whether its address is a multiple of 8. The check
  compares \<^verbatim>\<open>len\<close> with the size of the header only.\<close>

definition message_convert :: "bool \<Rightarrow> nat \<Rightarrow> int \<Rightarrow> int \<Rightarrow> 'a message_scheme \<Rightarrow> 'a message_scheme option" where
  "message_convert aligned len t sz m =
     (if len < sizeof_Message_rep then None
      else if \<not> aligned then None
      else let ret = m\<lparr>m_max := - 1\<rparr> in if \<not> has_tag ret t sz then None else Some ret)"

lemma header_inj:
  assumes "header_bytes a = header_bytes b"
    and "- 32768 \<le> m_tag a" "m_tag a < 32768" "- 32768 \<le> m_tag b" "m_tag b < 32768"
    and "- 32768 \<le> m_extra a" "m_extra a < 32768" "- 32768 \<le> m_extra b" "m_extra b < 32768"
  shows "m_tag a = m_tag b \<and> m_extra a = m_extra b"
  using assms le_bytes_inj [of 2 "m_tag a" "m_tag b"] le_bytes_inj [of 2 "m_extra a" "m_extra b"]
  by (simp add: header_bytes_def)

section \<open>Prepare\<close>

record prepare = message +
  p_view :: view
  p_seqno :: seqno
  p_digest :: digest
  p_id :: int
  p_padding :: int

definition sizeof_Prepare_rep :: nat where
  "sizeof_Prepare_rep = 64"

definition prepare_bytes :: "prepare \<Rightarrow> byte list" where
  "prepare_bytes p = header_bytes p @ le_bytes 8 (p_view p) @ le_bytes 8 (p_seqno p) @
     digest_bytes (p_digest p) @ le_bytes 4 (p_id p) @ le_bytes 4 (p_padding p)"

definition MAC_size :: int where
  "MAC_size = 32"

text \<open>The constructor in the scratch region; \<open>dst\<close> is the replica that gets the message as proof of a
  request's authenticity, if any.\<close>

definition Prepare_new :: "crypto \<Rightarrow> node \<Rightarrow> view \<Rightarrow> seqno \<Rightarrow> digest \<Rightarrow> principal option \<Rightarrow> prepare" where
  "Prepare_new cr nd v s d dst =
     (let sz = ALIGNED_SIZE (int sizeof_Prepare_rep + (if dst \<noteq> None then MAC_size else auth_size nd (- 1)));
          p = \<lparr>m_tag = Prepare_tag, m_extra = (if dst \<noteq> None then 1 else 0), m_size = sz, m_max = sz, m_scratch = True,
               m_rest = [], p_view = v, p_seqno = s, p_digest = d, p_id = node_id nd, p_padding = 0\<rparr>
      in p\<lparr>m_rest := (case dst of None \<Rightarrow> gen_auth_out (cr_H cr) nd (prepare_bytes p)
                      | Some q \<Rightarrow> gen_mac_out (cr_H cr) q (prepare_bytes p))\<rparr>)"

definition Prepare_re_authenticate :: "crypto \<Rightarrow> node \<Rightarrow> prepare \<Rightarrow> principal option \<Rightarrow> prepare option" where
  "Prepare_re_authenticate cr nd p q =
     (if m_extra p = 0
      then let a = gen_auth_out (cr_H cr) nd (prepare_bytes p) in Some (p\<lparr>m_rest := a @ drop (length a) (m_rest p)\<rparr>)
      else do {
        q' \<leftarrow> q;
        let a = gen_mac_out (cr_H cr) q' (prepare_bytes p);
        Some (p\<lparr>m_rest := a @ drop (length a) (m_rest p)\<rparr>) })"

definition is_proof :: "prepare \<Rightarrow> bool" where
  "is_proof p \<longleftrightarrow> m_extra p \<noteq> 0"

definition Prepare_match :: "prepare \<Rightarrow> prepare \<Rightarrow> bool option" where
  "Prepare_match p q = do {
     th_assert (p_view p = p_view q \<and> p_seqno p = p_seqno q);
     Some (digest_eq (p_digest p) (p_digest q)) }"

definition Prepare_verify :: "crypto \<Rightarrow> node \<Rightarrow> prepare \<Rightarrow> bool option" where
  "Prepare_verify cr nd p =
     (if \<not> is_replica nd (p_id p) \<or> p_id p = node_id nd then Some False
      else if m_extra p = 0 then
        if primary_of nd (p_view p) = p_id p \<or> m_size p - int sizeof_Prepare_rep < auth_size nd (p_id p) then Some False
        else verify_auth_in (cr_sc cr) (cr_H cr) nd (p_id p) (prepare_bytes p) (m_rest p)
      else if m_size p - int sizeof_Prepare_rep < MAC_size then Some False
      else do {
        q \<leftarrow> i_to_p nd (p_id p);
        Some (verify_mac_in (cr_sc cr) (cr_H cr) q (prepare_bytes p) (m_rest p)) })"

definition Prepare_convert :: "'a message_scheme \<Rightarrow> bool" where
  "Prepare_convert m = has_tag m Prepare_tag (int sizeof_Prepare_rep)"

definition prepare_ops :: "prepare msg_ops" where
  "prepare_ops = \<lparr>m_id = p_id, m_match = Prepare_match, m_full = (\<lambda>_. True)\<rparr>"

section \<open>Commit\<close>

record commit = message +
  c_view :: view
  c_seqno :: seqno
  c_id :: int
  c_padding :: int

definition sizeof_Commit_rep :: nat where
  "sizeof_Commit_rep = 32"

definition commit_bytes :: "commit \<Rightarrow> byte list" where
  "commit_bytes c' = header_bytes c' @ le_bytes 8 (c_view c') @ le_bytes 8 (c_seqno c') @
     le_bytes 4 (c_id c') @ le_bytes 4 (c_padding c')"

definition Commit_new :: "crypto \<Rightarrow> node \<Rightarrow> view \<Rightarrow> seqno \<Rightarrow> commit" where
  "Commit_new cr nd v s =
     (let sz = ALIGNED_SIZE (int sizeof_Commit_rep + auth_size nd (- 1));
          c' = \<lparr>m_tag = Commit_tag, m_extra = 0, m_size = sz, m_max = sz, m_scratch = True, m_rest = [],
               c_view = v, c_seqno = s, c_id = node_id nd, c_padding = 0\<rparr>
      in c'\<lparr>m_rest := gen_auth_out (cr_H cr) nd (commit_bytes c')\<rparr>)"

definition Commit_re_authenticate :: "crypto \<Rightarrow> node \<Rightarrow> commit \<Rightarrow> commit" where
  "Commit_re_authenticate cr nd c' =
     (let a = gen_auth_out (cr_H cr) nd (commit_bytes c') in c'\<lparr>m_rest := a @ drop (length a) (m_rest c')\<rparr>)"

definition Commit_match :: "commit \<Rightarrow> commit \<Rightarrow> bool option" where
  "Commit_match a b = do {
     th_assert (c_view a = c_view b \<and> c_seqno a = c_seqno b);
     Some (c_view a = c_view b \<and> c_seqno a = c_seqno b) }"

definition Commit_verify :: "crypto \<Rightarrow> node \<Rightarrow> commit \<Rightarrow> bool option" where
  "Commit_verify cr nd c' =
     (if \<not> is_replica nd (c_id c') \<or> c_id c' = node_id nd then Some False
      else if m_size c' - int sizeof_Commit_rep < auth_size nd (c_id c') then Some False
      else verify_auth_in (cr_sc cr) (cr_H cr) nd (c_id c') (commit_bytes c') (m_rest c'))"

definition Commit_convert :: "'a message_scheme \<Rightarrow> bool" where
  "Commit_convert m = has_tag m Commit_tag (int sizeof_Commit_rep)"

definition commit_ops :: "commit msg_ops" where
  "commit_ops = \<lparr>m_id = c_id, m_match = Commit_match, m_full = (\<lambda>_. True)\<rparr>"

section \<open>Checkpoint\<close>

record checkpoint = message +
  k_seqno :: seqno
  k_digest :: digest
  k_id :: int
  k_padding :: int

definition sizeof_Checkpoint_rep :: nat where
  "sizeof_Checkpoint_rep = 56"

definition checkpoint_bytes :: "checkpoint \<Rightarrow> byte list" where
  "checkpoint_bytes k = header_bytes k @ le_bytes 8 (k_seqno k) @ digest_bytes (k_digest k) @
     le_bytes 4 (k_id k) @ le_bytes 4 (k_padding k)"

definition Checkpoint_new :: "crypto \<Rightarrow> node \<Rightarrow> seqno \<Rightarrow> digest \<Rightarrow> bool \<Rightarrow> checkpoint" where
  "Checkpoint_new cr nd s d stb =
     (let sz = ALIGNED_SIZE (int sizeof_Checkpoint_rep + auth_size nd (- 1));
          k = \<lparr>m_tag = Checkpoint_tag, m_extra = (if stb then 1 else 0), m_size = sz, m_max = sz, m_scratch = True,
               m_rest = [], k_seqno = s, k_digest = d, k_id = node_id nd, k_padding = 0\<rparr>
      in k\<lparr>m_rest := gen_auth_out (cr_H cr) nd (checkpoint_bytes k)\<rparr>)"

definition Checkpoint_re_authenticate :: "crypto \<Rightarrow> node \<Rightarrow> checkpoint \<Rightarrow> bool \<Rightarrow> checkpoint" where
  "Checkpoint_re_authenticate cr nd k stb =
     (let k1 = (if stb then k\<lparr>m_extra := 1\<rparr> else k);
          a = gen_auth_out (cr_H cr) nd (checkpoint_bytes k1)
      in k1\<lparr>m_rest := a @ drop (length a) (m_rest k)\<rparr>)"

definition k_stable :: "checkpoint \<Rightarrow> bool" where
  "k_stable k \<longleftrightarrow> m_extra k = 1"

definition Checkpoint_match :: "checkpoint \<Rightarrow> checkpoint \<Rightarrow> bool option" where
  "Checkpoint_match a b = do {
     th_assert (k_seqno a = k_seqno b);
     Some (digest_eq (k_digest a) (k_digest b)) }"

definition Checkpoint_verify :: "crypto \<Rightarrow> node \<Rightarrow> checkpoint \<Rightarrow> bool option" where
  "Checkpoint_verify cr nd k =
     (if \<not> is_replica nd (k_id k) then Some False
      else if m_size k - int sizeof_Checkpoint_rep < auth_size nd (k_id k) then Some False
      else verify_auth_in (cr_sc cr) (cr_H cr) nd (k_id k) (checkpoint_bytes k) (m_rest k))"

definition Checkpoint_convert :: "'a message_scheme \<Rightarrow> bool" where
  "Checkpoint_convert m = has_tag m Checkpoint_tag (int sizeof_Checkpoint_rep)"

definition checkpoint_ops :: "checkpoint msg_ops" where
  "checkpoint_ops = \<lparr>m_id = k_id, m_match = Checkpoint_match, m_full = (\<lambda>_. True)\<rparr>"

section \<open>Certificates of these messages\<close>

definition prepare_slot :: "view \<Rightarrow> seqno \<Rightarrow> prepare \<Rightarrow> bool" where
  "prepare_slot v s p \<longleftrightarrow> p_view p = v \<and> p_seqno p = s \<and> length (p_digest p) = num_words"

definition commit_slot :: "view \<Rightarrow> seqno \<Rightarrow> commit \<Rightarrow> bool" where
  "commit_slot v s p \<longleftrightarrow> c_view p = v \<and> c_seqno p = s"

definition checkpoint_slot :: "seqno \<Rightarrow> checkpoint \<Rightarrow> bool" where
  "checkpoint_slot s p \<longleftrightarrow> k_seqno p = s \<and> length (k_digest p) = num_words"

interpretation pcm: cert_msgs prepare_ops "prepare_slot v s" p_digest for v s
  by unfold_locales (simp add: prepare_ops_def Prepare_match_def prepare_slot_def digest_eq_iff)

interpretation ccm: cert_msgs commit_ops "commit_slot v s" "\<lambda>m. (c_view m, c_seqno m)" for v s
  by unfold_locales (simp add: commit_ops_def Commit_match_def commit_slot_def)

interpretation kcm: cert_msgs checkpoint_ops "checkpoint_slot s" k_digest for s
  by unfold_locales (simp add: checkpoint_ops_def Checkpoint_match_def checkpoint_slot_def digest_eq_iff)

text \<open>None of the three accepts a message of the verifying replica itself, as \<^verbatim>\<open>add\<close> asserts.\<close>

lemma verify_not_self:
  "Prepare_verify cr nd p = Some True \<Longrightarrow> p_id p \<noteq> node_id nd"
  "Commit_verify cr nd cm = Some True \<Longrightarrow> c_id cm \<noteq> node_id nd"
  "Checkpoint_verify cr nd k = Some True \<Longrightarrow> k_id k \<noteq> node_id nd"
  by (auto simp: Prepare_verify_def Commit_verify_def Checkpoint_verify_def verify_auth_in_def verify_auth_def
      split: if_splits option.splits)

section \<open>Properties\<close>

text \<open>What sender and receiver need to share: group, keys, and the receiver being another replica.\<close>

definition keys_agree :: "node \<Rightarrow> node \<Rightarrow> bool" where
  "keys_agree snder rcv \<longleftrightarrow> node_ok snder \<and> node_ok rcv \<and> num_replicas snder = num_replicas rcv \<and>
     is_replica snder (node_id snder) \<and> is_replica rcv (node_id rcv) \<and> node_id snder \<noteq> node_id rcv \<and>
     initialized (hmac_in (principals rcv ! nat (node_id snder))) \<and>
     hkey (hmac_in (principals rcv ! nat (node_id snder))) = hkey (hmac_out (principals snder ! nat (node_id rcv)))"

lemma keys_agree_accepted:
  assumes "\<And>k s. length (H k s) = HMAC_size" "keys_agree snder rcv"
  shows "verify_auth_in sc H rcv (node_id snder) s (gen_auth_out H snder s) = Some True"
  using auth_accepted [where H = H and snder = snder and rcv = rcv and sc = sc and s = s and rest = "[]", OF assms(1)] assms(2)
  by (auto simp: keys_agree_def is_replica_def node_ok_def)

lemma keys_agree_sizes:
  assumes "keys_agree snder rcv"
  shows "is_replica rcv (node_id snder)" "auth_size rcv (node_id snder) = auth_size snder (- 1)"
    "\<not> ALIGNED_SIZE (b + a) - b < a"
  using assms pos_mod_bound [of ALIGNMENT "b + a"]
  by (auto simp: keys_agree_def is_replica_def auth_size_def ALIGNED_SIZE_def ALIGNMENT_def)

text \<open>C23: A prepare, commit or checkpoint message that a replica builds passes \<^verbatim>\<open>verify\<close> at every other
  replica that shares its session key, unless it is a prepare of the primary.\<close>

theorem built_messages_verify:
  assumes "\<And>k s. length (cr_H cr k s) = HMAC_size" and "keys_agree snder rcv"
  shows "(primary_of rcv v \<noteq> node_id snder \<longrightarrow> Prepare_verify cr rcv (Prepare_new cr snder v s d None) = Some True) \<and>
    Commit_verify cr rcv (Commit_new cr snder v s) = Some True \<and>
    Checkpoint_verify cr rcv (Checkpoint_new cr snder s d stb) = Some True"
proof (intro conjI impI)
  note ok = keys_agree_accepted [where H = "cr_H cr" and sc = "cr_sc cr", OF assms] keys_agree_sizes [OF assms(2)]
  have ne: "node_id snder \<noteq> node_id rcv" using assms(2) by (simp add: keys_agree_def)
  show "Prepare_verify cr rcv (Prepare_new cr snder v s d None) = Some True"
    if "primary_of rcv v \<noteq> node_id snder"
    using ok ne that
    by (simp add: Prepare_verify_def Prepare_new_def prepare_bytes_def header_bytes_def Let_def)
  show "Commit_verify cr rcv (Commit_new cr snder v s) = Some True"
    using ok ne
    by (simp add: Commit_verify_def Commit_new_def commit_bytes_def header_bytes_def Let_def)
  show "Checkpoint_verify cr rcv (Checkpoint_new cr snder s d stb) = Some True"
    using ok
    by (simp add: Checkpoint_verify_def Checkpoint_new_def checkpoint_bytes_def header_bytes_def Let_def)
qed

definition wit_crypto :: crypto where
  "wit_crypto = \<lparr>cr_sc = True, cr_H = (\<lambda>k s. replicate 32 5), cr_hash = (\<lambda>s. digest_zero),
     cr_sig = (\<lambda>i s. []), cr_sigver = (\<lambda>i s g. True)\<rparr>"

lemma wit_keys_agree: "keys_agree (wit_node 1) (wit_node 2)"
  by (simp add: keys_agree_def wit_node_ok, simp add: wit_node_def is_replica_def wit_principal_def set_in_key_def
      set_out_key_def Principal_new_def replace_key_def Let_def)

theorem built_messages_verify_witness:
  "Commit_verify wit_crypto (wit_node 2) (Commit_new wit_crypto (wit_node 1) 0 5) = Some True"
  using built_messages_verify [OF _ wit_keys_agree, of wit_crypto] by (simp add: wit_crypto_def HMAC_size_def)

text \<open>What the authenticators cover binds every field: two prepares with the same authenticated bytes
  have the same view, sequence number, digest and sender, and likewise two checkpoints.\<close>

theorem authenticated_bytes_bind:
  assumes "prepare_bytes a = prepare_bytes b" "length (p_digest a) = num_words" "length (p_digest b) = num_words"
    and "\<forall>x \<in> {p_view a, p_view b, p_seqno a, p_seqno b}. - (2 ^ 63) \<le> x \<and> x < 2 ^ 63"
    and "\<forall>x \<in> {p_id a, p_id b}. - (2 ^ 31) \<le> x \<and> x < 2 ^ 31"
  shows "p_view a = p_view b \<and> p_seqno a = p_seqno b \<and> p_digest a = p_digest b \<and> p_id a = p_id b"
proof -
  have hdr: "length (header_bytes x) = 8" for x :: prepare by (simp add: header_bytes_def)
  have dig: "length (digest_bytes (p_digest a)) = length (digest_bytes (p_digest b))"
    using assms(2,3) by (simp add: length_digest_bytes)
  have eq: "le_bytes 8 (p_view a) = le_bytes 8 (p_view b)" "le_bytes 8 (p_seqno a) = le_bytes 8 (p_seqno b)"
    "digest_bytes (p_digest a) = digest_bytes (p_digest b)" "le_bytes 4 (p_id a) = le_bytes 4 (p_id b)"
    using assms(1) dig by (simp_all add: prepare_bytes_def hdr)
  show ?thesis
    using le_bytes_inj [OF eq(1)] le_bytes_inj [OF eq(2)] digest_bytes_inj [OF _ eq(3)] le_bytes_inj [OF eq(4)] assms(2-5)
    by simp
qed

theorem authenticated_bytes_bind_witness:
  "p_digest (Prepare_new wit_crypto (wit_node 1) 0 5 digest_zero None) = digest_zero"
  using authenticated_bytes_bind [of "Prepare_new wit_crypto (wit_node 1) 0 5 digest_zero None"
      "Prepare_new wit_crypto (wit_node 1) 0 5 digest_zero None"]
  by (simp add: Prepare_new_def digest_zero_def num_words_def wit_node_def Let_def)


definition wit_ck :: "int \<Rightarrow> checkpoint" where
  "wit_ck i = Checkpoint_new wit_crypto (wit_node i) 8 digest_zero False"

definition wit_ck_cert :: "int \<Rightarrow> int list \<Rightarrow> checkpoint certificate option" where
  "wit_ck_cert me js = fold_opt (\<lambda>m C. map_option snd (cert_add checkpoint_ops (\<lambda>_. True) (wit_node me) C m))
     (map wit_ck js) (Certificate_new 4 (wit_node me) 0)"

lemma wit_ck_complete:
  "map_option is_complete (wit_ck_cert 0 [1, 2, 3]) = Some True"
  "map_option is_complete (wit_ck_cert 1 [0, 2, 3]) = Some True"
  by code_simp+

lemma wit_ck_reach:
  assumes "wit_ck_cert me js = Some C" "me \<notin> set js"
  shows "cert_reach checkpoint_ops (checkpoint_slot 8) 4 (wit_node me) 0 (map (\<lambda>m. Add m True) (map wit_ck js)) C"
  using cert_reach_adds [OF cert_reach.new, of "map wit_ck js" "checkpoint_slot 8" checkpoint_ops "wit_node me" 4 0 C] assms
  by (auto simp: wit_ck_cert_def checkpoint_slot_def checkpoint_ops_def wit_ck_def Checkpoint_new_def wit_node_def
      digest_zero_def Let_def)


text \<open>C20: Commit certificates: when a replica finds the commit certificate of a view and sequence number
  complete, \<open>2f + 1\<close> different replicas sent a commit for that view and sequence number, each either
  accepted by \<^verbatim>\<open>verify\<close> or sent by the replica itself; forged, duplicate and stale messages never count.\<close>

theorem commit_certificate_quorum:
  assumes "cert_reach commit_ops (commit_slot v n) Mx nd 0 es C" "node_ok nd" "is_replica nd (node_id nd)"
    and "num_replicas nd \<le> Mx" "Mx \<le> 2 ^ 31" "is_complete C"
  shows "\<exists>S. S \<subseteq> {0..<num_replicas nd} \<and> threshold nd \<le> int (card S) \<and>
    (\<forall>j \<in> S. \<exists>m. said commit_ops nd es j m \<and> c_view m = v \<and> c_seqno m = n)"
proof -
  have f: "0 \<le> max_faulty nd" "threshold nd = 2 * max_faulty nd + 1" using assms(2) by (auto simp: node_ok_def)
  from ccm.reach_complete [OF assms(1,3) f(1) assms(4,5) _ assms(6)] f(2) show ?thesis
    by (auto simp: commit_slot_def)
qed

definition wit_cm :: "int \<Rightarrow> commit" where
  "wit_cm i = Commit_new wit_crypto (wit_node i) 0 5"

definition wit_cm_cert :: "commit certificate option" where
  "wit_cm_cert = fold_opt (\<lambda>m C. map_option snd (cert_add commit_ops (\<lambda>_. True) (wit_node 0) C m))
     (map wit_cm [1, 2, 3]) (Certificate_new 4 (wit_node 0) 0)"

theorem commit_certificate_quorum_witness:
  "\<exists>C S. wit_cm_cert = Some C \<and> is_complete C \<and> S \<subseteq> {0..<4} \<and> 3 \<le> int (card S) \<and>
     (\<forall>j \<in> S. \<exists>m. said commit_ops (wit_node 0) (map (\<lambda>m. Add m True) (map wit_cm [1, 2, 3])) j m)"
proof -
  have "map_option is_complete wit_cm_cert = Some True" by code_simp
  then obtain C where C: "wit_cm_cert = Some C" "is_complete C" by auto
  have r: "cert_reach commit_ops (commit_slot 0 5) 4 (wit_node 0) 0 ([] @ map (\<lambda>m. Add m True) (map wit_cm [1, 2, 3])) C"
    by (rule cert_reach_adds [OF cert_reach.new])
      (use C in \<open>auto simp: wit_cm_cert_def commit_slot_def commit_ops_def wit_cm_def Commit_new_def wit_node_def Let_def\<close>)
  have "\<exists>S. S \<subseteq> {0..<num_replicas (wit_node 0)} \<and> threshold (wit_node 0) \<le> int (card S) \<and>
    (\<forall>j \<in> S. \<exists>m. said commit_ops (wit_node 0) ([] @ map (\<lambda>m. Add m True) (map wit_cm [1, 2, 3])) j m \<and>
       c_view m = 0 \<and> c_seqno m = 5)"
    by (rule commit_certificate_quorum [OF r wit_node_ok _ _ _ C(2)]) (simp_all add: wit_node_def is_replica_def)
  then obtain S where S: "S \<subseteq> {0..<4}" "3 \<le> int (card S)"
    "\<forall>j \<in> S. \<exists>m. said commit_ops (wit_node 0) (map (\<lambda>m. Add m True) (map wit_cm [1, 2, 3])) j m"
    unfolding wit_node_sel append_Nil by metis
  show ?thesis by (intro exI [of _ C] exI [of _ S] conjI) (fact C S)+
qed

end
