(* ===== verification/State_Tree.thy ===== *)
theory State_Tree
  imports Checkpoint_Logs Messages
begin

text \<open>
  The data the replicated state is made of: the shape of the partition tree (\<^verbatim>\<open>Partition.h\<close>, \<^verbatim>\<open>Partition.cc\<close>),
  sums of digests modulo a prime (\<^verbatim>\<open>dsum.h\<close>, \<^verbatim>\<open>dsum.cc\<close>), partitions and block copies (\<^verbatim>\<open>Part.h\<close>), and the
  checkpoint records (\<^verbatim>\<open>checkpoint_record.h\<close>, \<^verbatim>\<open>checkpoint_record.cc\<close>). The arithmetic functions of mbedtls
  are those of the integers.
\<close>

section \<open>The shape of the partition tree\<close>

text \<open>The global arrays; entries that \<^verbatim>\<open>init\<close> does not write are zero.\<close>

definition MAX_PARTITION_LEVELS :: nat where "MAX_PARTITION_LEVELS = 4"

record ptree_sizes =
  PLevels :: nat
  PSize :: "nat list"
  PLevelSize :: "nat list"
  PBlocks :: "nat list"

definition ceil_div :: "nat \<Rightarrow> nat \<Rightarrow> nat" where
  "ceil_div n k = (n + k - 1) div k"

text \<open>The loop that counts the nodes of each level from the leaves up. The check of the number of levels lets one
  level too many through, whose count would be written behind \<^verbatim>\<open>num_nodes\<close>.\<close>

function level_nodes :: "nat \<Rightarrow> nat list \<Rightarrow> nat \<Rightarrow> nat list option" where
  "level_nodes PChildren ns children =
     (if children > 1 then
        if length ns > MAX_PARTITION_LEVELS then th_fail
        else if length ns = MAX_PARTITION_LEVELS then None
        else (let c = ceil_div children PChildren in level_nodes PChildren (ns @ [c]) c)
      else Some ns)"
  by auto
termination
  by (relation "measure (\<lambda>(_, ns, _). MAX_PARTITION_LEVELS - length ns)") auto

declare level_nodes.simps [simp del]

text \<open>The loop over the levels from the root down.\<close>

definition init_level :: "nat list \<Rightarrow> nat \<Rightarrow> ptree_sizes \<Rightarrow> ptree_sizes" where
  "init_level ns i P =
     (let L = length ns;
          P1 = P\<lparr>PSize := (PSize P)[i := ns ! (L - i - 1)]\<rparr>;
          P2 = P1\<lparr>PLevelSize := (PLevelSize P1)[i := PLevelSize P1 ! (i - 1) * PSize P1 ! i]\<rparr>
      in P2\<lparr>PBlocks := (PBlocks P2)[L - i - 1 := PSize P2 ! i * PBlocks P2 ! (L - i)]\<rparr>)"

definition partition_init :: "nat \<Rightarrow> nat \<Rightarrow> nat \<Rightarrow> ptree_sizes option" where
  "partition_init PChildren Block_size mem_size = do {
     if mem_size mod Block_size \<noteq> 0 then th_fail
     else do {
       let num_blocks = mem_size div Block_size;
       th_assert (num_blocks \<ge> 1);
       ns \<leftarrow> level_nodes PChildren [num_blocks] num_blocks;
       let L = length ns;
       let z = replicate MAX_PARTITION_LEVELS 0;
       let P = \<lparr>PLevels = L, PSize = z[0 := 1], PLevelSize = z[0 := 1], PBlocks = z[L - 1 := 1]\<rparr>;
       Some (fold (init_level ns) [1..<L] P) } }"

fun meta_nodes :: "nat \<Rightarrow> nat \<Rightarrow> nat \<Rightarrow> nat" where
  "meta_nodes PChildren 0 nodes_on_level = 0"
| "meta_nodes PChildren (Suc l) nodes_on_level =
     (let n = ceil_div nodes_on_level PChildren in n + meta_nodes PChildren l n)"

definition num_meta_for_blocks :: "nat \<Rightarrow> ptree_sizes \<Rightarrow> nat \<Rightarrow> nat" where
  "num_meta_for_blocks PChildren P num_blocks = meta_nodes PChildren (PLevels P - 1) num_blocks"

definition partition_blocks :: "ptree_sizes \<Rightarrow> nat \<Rightarrow> nat option" where
  "partition_blocks P level = arr_get (PBlocks P) (level + (MAX_PARTITION_LEVELS - PLevels P))"

section \<open>Sums of digests\<close>

definition DSum_M :: int where
  "DSum_M = 0xDF8A46D4E777C4B3090A3389839E4F8653C4B6CFFFEA2A8D81DEDF1149D11D558C54BFB676FCFE28BCC07ABA057CAB9F"

definition DSum_nbytes :: nat where "DSum_nbytes = 64"

definition be_val :: "byte list \<Rightarrow> int" where
  "be_val bs = foldl (\<lambda>a b. a * 256 + uint b) 0 bs"

definition digest_val :: "digest \<Rightarrow> int" where
  "digest_val d = be_val (digest_bytes d)"

definition dsum_add :: "int \<Rightarrow> digest \<Rightarrow> int option" where
  "dsum_add s0 d = do {
     let s = s0 + digest_val d;
     let s' = (if s \<ge> DSum_M then s - DSum_M else s);
     th_assert (s' < 256 ^ DSum_nbytes);
     Some s' }"

definition dsum_sub :: "int \<Rightarrow> digest \<Rightarrow> int option" where
  "dsum_sub s0 d = do {
     let s = (if s0 < digest_val d then s0 + DSum_M else s0);
     let s' = s - digest_val d;
     th_assert (s' > - 1);
     Some s' }"

text \<open>\<^verbatim>\<open>mbedtls_mpi_write_binary\<close> into a buffer of \<^verbatim>\<open>DSum::nbytes\<close> bytes, which fails when the number needs more.\<close>

definition dsum_bytes :: "int \<Rightarrow> byte list option" where
  "dsum_bytes s = (if s < 256 ^ DSum_nbytes then Some (rev (le_bytes DSum_nbytes s)) else None)"

definition set_state_block :: "crypto \<Rightarrow> byte list \<Rightarrow> nat \<Rightarrow> seqno \<Rightarrow> digest" where
  "set_state_block cr data i lm = cr_hash cr (le_bytes 4 (int i) @ le_bytes 8 lm @ data)"

section \<open>Partitions and checkpoint records\<close>

type_synonym block = "byte list"

record part =
  pt_lm :: seqno
  pt_d :: digest

record block_copy = part +
  bc_data :: block

record ck_rec =
  rc_parts :: "part list"
  rc_blocks :: "block_copy list"
  rc_num :: int
  rc_sd :: digest

definition find_partition :: "ptree_sizes \<Rightarrow> nat \<Rightarrow> nat \<Rightarrow> nat" where
  "find_partition P level index = sum_list (take level (PSize P)) + index"

definition clear_lm :: "nat \<Rightarrow> 'a part_scheme list \<Rightarrow> 'a part_scheme list" where
  "clear_lm k ps = map (\<lambda>p. p\<lparr>pt_lm := - 1\<rparr>) (take k ps) @ drop k ps"

text \<open>\<^verbatim>\<open>clear\<close> returns at once when no partition was appended, even when the record has a digest.\<close>

definition rec_clear :: "ptree_sizes \<Rightarrow> ck_rec \<Rightarrow> ck_rec" where
  "rec_clear P r =
     (if rc_num r = 0 then r
      else r\<lparr>rc_parts := clear_lm (sum_list (take (PLevels P - 1) (PSize P))) (rc_parts r),
             rc_blocks := clear_lm (PSize P ! (PLevels P - 1)) (rc_blocks r),
             rc_num := 0, rc_sd := digest_zero\<rparr>)"

text \<open>\<^verbatim>\<open>init\<close> of a record for \<open>nb\<close> blocks; \<open>blk\<close> is what the constructor of a block leaves in it.\<close>

definition fresh_part :: part where
  "fresh_part = \<lparr>pt_lm = 0, pt_d = digest_zero\<rparr>"

definition CheckpointRecord_init :: "nat \<Rightarrow> ptree_sizes \<Rightarrow> block \<Rightarrow> nat \<Rightarrow> ck_rec" where
  "CheckpointRecord_init PChildren P blk nb =
     rec_clear P \<lparr>rc_parts = replicate (num_meta_for_blocks PChildren P nb) fresh_part,
       rc_blocks = replicate nb \<lparr>pt_lm = 0, pt_d = digest_zero, bc_data = blk\<rparr>, rc_num = 1, rc_sd = digest_zero\<rparr>"

definition rec_is_cleared :: "ck_rec \<Rightarrow> bool" where
  "rec_is_cleared r = is_zero (rc_sd r)"

definition rec_append :: "ptree_sizes \<Rightarrow> nat \<Rightarrow> nat \<Rightarrow> part \<Rightarrow> ck_rec \<Rightarrow> ck_rec option" where
  "rec_append P l i p r = do {
     q \<leftarrow> arr_get (rc_parts r) (find_partition P l i);
     th_assert (pt_lm q = - 1);
     ps \<leftarrow> arr_set (rc_parts r) (find_partition P l i) p;
     Some (r\<lparr>rc_parts := ps, rc_num := rc_num r + 1\<rparr>) }"

definition rec_append_block :: "nat \<Rightarrow> seqno \<Rightarrow> digest \<Rightarrow> block \<Rightarrow> ck_rec \<Rightarrow> ck_rec option" where
  "rec_append_block i lm d blk r = do {
     q \<leftarrow> arr_get (rc_blocks r) i;
     th_assert (pt_lm q = - 1);
     bs \<leftarrow> arr_set (rc_blocks r) i \<lparr>pt_lm = lm, pt_d = d, bc_data = blk\<rparr>;
     Some (r\<lparr>rc_blocks := bs, rc_num := rc_num r + 1\<rparr>) }"

definition rec_appendr :: "ptree_sizes \<Rightarrow> nat \<Rightarrow> nat \<Rightarrow> part \<Rightarrow> ck_rec \<Rightarrow> ck_rec option" where
  "rec_appendr P l i p r = do {
     q \<leftarrow> arr_get (rc_parts r) (find_partition P l i);
     if pt_lm q \<noteq> - 1 then Some r
     else do {
       ps \<leftarrow> arr_set (rc_parts r) (find_partition P l i) p;
       Some (r\<lparr>rc_parts := ps, rc_num := rc_num r + 1\<rparr>) } }"

definition rec_appendr_block :: "nat \<Rightarrow> seqno \<Rightarrow> digest \<Rightarrow> block \<Rightarrow> ck_rec \<Rightarrow> ck_rec option" where
  "rec_appendr_block i lm d blk r = do {
     q \<leftarrow> arr_get (rc_blocks r) i;
     if pt_lm q \<noteq> - 1 then Some r
     else do {
       bs \<leftarrow> arr_set (rc_blocks r) i \<lparr>pt_lm = lm, pt_d = d, bc_data = blk\<rparr>;
       Some (r\<lparr>rc_blocks := bs, rc_num := rc_num r + 1\<rparr>) } }"

definition rec_fetch_block :: "nat \<Rightarrow> ck_rec \<Rightarrow> block_copy option option" where
  "rec_fetch_block i r = do {
     q \<leftarrow> arr_get (rc_blocks r) i;
     Some (if pt_lm q = - 1 then None else Some q) }"

definition rec_fetch :: "ptree_sizes \<Rightarrow> nat \<Rightarrow> nat \<Rightarrow> ck_rec \<Rightarrow> part option option" where
  "rec_fetch P l i r =
     (if l = PLevels P - 1 then map_option (map_option part.truncate) (rec_fetch_block i r)
      else do {
        q \<leftarrow> arr_get (rc_parts r) (find_partition P l i);
        Some (if pt_lm q = - 1 then None else Some q) })"

text \<open>What the loop over a \<^verbatim>\<open>CheckpointRecord::Iter\<close> sees: inner partitions by level and index, then blocks.\<close>

definition rec_entries :: "ptree_sizes \<Rightarrow> ck_rec \<Rightarrow> (nat \<times> nat) list" where
  "rec_entries P r =
     [(l, i). l \<leftarrow> [0..<PLevels P - 1], i \<leftarrow> [0..<PSize P ! l], pt_lm (rc_parts r ! find_partition P l i) \<ge> 0] @
     [(PLevels P - 1, i). i \<leftarrow> [0..<PSize P ! (PLevels P - 1)], pt_lm (rc_blocks r ! i) \<ge> 0]"

end
