(* ===== verification/Requests.thy ===== *)
theory Requests
  imports Messages
begin

text \<open>
  Signatures (\<^verbatim>\<open>Node::gen_signature\<close>, \<^verbatim>\<open>Principal::verify_signature\<close>), client requests (\<^verbatim>\<open>Request.h\<close>,
  \<^verbatim>\<open>Request.cc\<close>) and replies (\<^verbatim>\<open>Reply.h\<close>, \<^verbatim>\<open>Reply.cc\<close>). \<open>m_rest\<close> holds the bytes of the buffer behind
  the fixed part; reading past them is undefined behaviour and gives \<open>None\<close>.
\<close>

section \<open>Reading integers\<close>

definition le_uint :: "byte list \<Rightarrow> int" where
  "le_uint bs = foldr (\<lambda>b acc. uint b + 256 * acc) bs 0"

definition le_sint :: "byte list \<Rightarrow> int" where
  "le_sint bs = signed_take_bit (8 * length bs - 1) (le_uint bs)"

definition words_at :: "nat \<Rightarrow> byte list \<Rightarrow> digest" where
  "words_at n bs = map (\<lambda>i. word_of_int (le_uint (take 4 (drop (4 * i) bs)))) [0..<n]"

lemma le_uint_nonneg: "0 \<le> le_uint bs"
  by (induction bs) (auto simp: le_uint_def)

lemma le_uint_le_bytes: "le_uint (le_bytes n x) = x mod 256 ^ n"
proof (induction n arbitrary: x)
  case 0
  then show ?case by (simp add: le_uint_def le_bytes_def)
next
  case (Suc n)
  have "le_bytes (Suc n) x = word_of_int x # le_bytes n (x div 256)"
    unfolding le_bytes_def upt_conv_Cons [OF zero_less_Suc] map_Suc_upt [symmetric]
    by (simp add: zdiv_zmult2_eq)
  then have "le_uint (le_bytes (Suc n) x) = x mod 256 + 256 * (x div 256 mod 256 ^ n)"
    using Suc by (simp add: le_uint_def uint_byte)
  also have "\<dots> = x mod 256 ^ Suc n"
    using zmod_zmult2_eq [of "256 ^ n" x 256] by (simp add: mult.commute)
  finally show ?case .
qed

lemma le_sint_le_bytes:
  assumes "0 < n" "- (256 ^ n) \<le> 2 * x" "2 * x < 256 ^ n"
  shows "le_sint (le_bytes n x) = x"
proof -
  have e: "(256 :: int) ^ n = 2 ^ (8 * n)" by (simp add: power_mult)
  have d: "(2 :: int) ^ (8 * n) = 2 * 2 ^ (8 * n - 1)" using assms(1) by (metis mult_pos_pos power_minus_mult mult.commute zero_less_numeral)
  have "le_sint (le_bytes n x) = signed_take_bit (8 * n - 1) (take_bit (8 * n) x)"
    by (simp add: le_sint_def le_uint_le_bytes e take_bit_eq_mod)
  also have "\<dots> = signed_take_bit (8 * n - 1) x"
    using assms(1) by (auto simp: signed_take_bit_take_bit)
  also have "\<dots> = x" using assms(2,3) unfolding e d by (intro signed_take_bit_int_eq_self) auto
  finally show ?thesis .
qed

section \<open>Signatures\<close>

text \<open>\<open>ksz\<close> is the size of the node's private key. A signature field holds the length of the signature,
  the signature and zeroes.\<close>

definition sig_size :: "node \<Rightarrow> int \<Rightarrow> int option" where
  "sig_size nd i = do {
     let j = (if i < 0 then node_id nd else i);
     th_assert (j < num_principals nd);
     Some (ssize (principals nd ! nat j)) }"

definition gen_signature :: "crypto \<Rightarrow> int \<Rightarrow> node \<Rightarrow> byte list \<Rightarrow> byte list option" where
  "gen_signature cr ksz nd src = do {
     sz \<leftarrow> sig_size nd (- 1);
     let s = cr_sig cr (node_id nd) src;
     Some (le_bytes 4 ksz @ s @ replicate (nat sz - 4 - length s) 0) }"

definition verify_signature :: "crypto \<Rightarrow> node \<Rightarrow> principal \<Rightarrow> byte list \<Rightarrow> byte list \<Rightarrow> bool \<Rightarrow> bool option" where
  "verify_signature cr nd p src sig allow_self =
     (if pid p = node_id nd \<and> \<not> allow_self then Some False
      else if length sig < 4 then None
      else let signature_len = le_uint (take 4 sig) in
        if signature_len + 4 > ssize p then Some False
        else if int (length sig) < signature_len + 4 then None
        else Some (cr_sigver cr (pid p) src (take (nat signature_len) (drop 4 sig))))"

lemma signature_verifies:
  assumes "gen_signature cr ksz snder src = Some sg" "length (cr_sig cr (node_id snder) src) = nat ksz"
    and "0 \<le> ksz" "ksz < 2 ^ 31" "ksz + 4 \<le> ssize p" "pid p = node_id snder"
    and "cr_sigver cr (node_id snder) src (cr_sig cr (node_id snder) src)"
  shows "verify_signature cr rcv p src (sg @ rest) True = Some True"
proof -
  let ?s = "cr_sig cr (node_id snder) src"
  obtain z where sg: "sg = le_bytes 4 ksz @ ?s @ z"
    using assms(1) by (auto simp: gen_signature_def Let_def split: Option.bind_splits)
  have len: "le_uint (take 4 (sg @ rest)) = ksz"
    using assms(3,4) by (simp add: sg le_uint_le_bytes)
  have "take (nat ksz) (drop 4 (sg @ rest)) = ?s" using assms(2) by (simp add: sg)
  then show ?thesis using assms len by (auto simp: verify_signature_def Let_def sg)
qed

section \<open>Requests\<close>

record request = message +
  r_od :: digest
  r_replier :: int
  r_command_size :: int
  r_cid :: int
  r_rid :: request_id

definition sizeof_Request_rep :: nat where
  "sizeof_Request_rep = 56"

definition request_bytes :: "request \<Rightarrow> byte list" where
  "request_bytes r = header_bytes r @ digest_bytes (r_od r) @ le_bytes 2 (r_replier r) @
     le_bytes 2 (r_command_size r) @ le_bytes 4 (r_cid r) @ le_bytes 8 (uint (r_rid r))"

text \<open>The request that the code sees when it casts a pointer to a \<^verbatim>\<open>Request_rep\<close>; \<open>None\<close> when the
  buffer ends before the structure does.\<close>

definition request_at :: "byte list \<Rightarrow> request option" where
  "request_at bs =
     (if length bs < sizeof_Request_rep then None
      else Some \<lparr>m_tag = le_sint (take 2 bs), m_extra = le_sint (take 2 (drop 2 bs)), m_size = le_sint (take 4 (drop 4 bs)),
        m_max = - 1, m_scratch = False, m_rest = drop 56 bs, r_od = words_at 8 (take 32 (drop 8 bs)),
        r_replier = le_sint (take 2 (drop 40 bs)), r_command_size = le_sint (take 2 (drop 42 bs)),
        r_cid = le_sint (take 4 (drop 44 bs)), r_rid = word_of_int (le_uint (take 8 (drop 48 bs)))\<rparr>)"

definition Request_new :: "node \<Rightarrow> request_id \<Rightarrow> int \<Rightarrow> byte list \<Rightarrow> int \<Rightarrow> request option" where
  "Request_new nd rid rr buf Max_message_size =
     set_size sizeof_Request_rep \<lparr>m_tag = Request_tag, m_extra = 0, m_size = ALIGNED_SIZE Max_message_size,
       m_max = ALIGNED_SIZE Max_message_size, m_scratch = True, m_rest = buf, r_od = digest_zero, r_replier = rr,
       r_command_size = 0, r_cid = node_id nd, r_rid = rid\<rparr> (int sizeof_Request_rep)"

definition is_read_only :: "request \<Rightarrow> bool" where
  "is_read_only r \<longleftrightarrow> odd (m_extra r)"

definition is_recovery :: "request \<Rightarrow> bool" where
  "is_recovery r \<longleftrightarrow> odd (m_extra r div 4)"

text \<open>\<^verbatim>\<open>comp_digest\<close> hashes \<^verbatim>\<open>sizeof(int) + sizeof(Request_id) + command_size\<close> bytes from the client
  identifier on; the sum is unsigned and a command size below -12 makes it wrap.\<close>

definition comp_digest :: "crypto \<Rightarrow> request \<Rightarrow> digest option" where
  "comp_digest cr r =
     (let n = (12 + r_command_size r) mod 2 ^ 64;
          tl = le_bytes 4 (r_cid r) @ le_bytes 8 (uint (r_rid r)) @ m_rest r
      in if int (length tl) < n then None else Some (cr_hash cr (take (nat n) tl)))"

text \<open>\<^verbatim>\<open>store_command\<close> and the copy of the caller's command, then \<^verbatim>\<open>sign\<close>.\<close>

definition store_command_max :: "node \<Rightarrow> request \<Rightarrow> int option" where
  "store_command_max nd r = do {
     sz \<leftarrow> sig_size nd (- 1);
     Some (msize r - int sizeof_Request_rep - max sz (auth_size nd (- 1))) }"

definition put_bytes :: "byte list \<Rightarrow> nat \<Rightarrow> byte list \<Rightarrow> byte list" where
  "put_bytes buf off bs = take off buf @ bs @ drop (off + length bs) buf"

definition store_command :: "request \<Rightarrow> byte list \<Rightarrow> request" where
  "store_command r cmd = r\<lparr>m_rest := put_bytes (m_rest r) 0 cmd\<rparr>"

definition set_extra_bit :: "int \<Rightarrow> request \<Rightarrow> request" where
  "set_extra_bit k r = r\<lparr>m_extra := m_extra r OR k\<rparr>"

definition Request_sign :: "crypto \<Rightarrow> int \<Rightarrow> node \<Rightarrow> request \<Rightarrow> int \<Rightarrow> request option" where
  "Request_sign cr ksz nd r act_len = do {
     sz \<leftarrow> sig_size nd (- 1);
     th_assert (act_len mod 2 ^ 32 \<le> (msize r - int sizeof_Request_rep - sz) mod 2 ^ 64);
     let r1 = (set_extra_bit 2 r)\<lparr>r_command_size := to_int16 act_len\<rparr>;
     d \<leftarrow> comp_digest cr r1;
     let r2 = r1\<lparr>r_od := d\<rparr>;
     let old_size = int sizeof_Request_rep + act_len;
     r3 \<leftarrow> set_size sizeof_Request_rep r2 (old_size + sz);
     sg \<leftarrow> gen_signature cr ksz nd (request_bytes r3);
     Some (r3\<lparr>m_rest := put_bytes (m_rest r3) (nat act_len) sg\<rparr>) }"

text \<open>The size check of \<^verbatim>\<open>verify\<close> is on \<^verbatim>\<open>size_t\<close>.\<close>

definition sig_fits :: "request \<Rightarrow> principal \<Rightarrow> bool" where
  "sig_fits r p \<longleftrightarrow> (m_size r - (int sizeof_Request_rep + r_command_size r)) mod 2 ^ 64 \<ge> ssize p"

definition Request_verify :: "crypto \<Rightarrow> node \<Rightarrow> request \<Rightarrow> bool option" where
  "Request_verify cr nd r = do {
     d \<leftarrow> comp_digest cr r;
     case i_to_p nd (r_cid r) of
       None \<Rightarrow> Some False
     | Some p \<Rightarrow>
         if digest_eq d (r_od r) \<and> sig_fits r p
         then verify_signature cr nd p (request_bytes r)
                (drop (nat (int sizeof_Request_rep + r_command_size r)) (request_bytes r @ m_rest r)) True
         else Some False }"

definition Request_convert :: "'a message_scheme \<Rightarrow> bool" where
  "Request_convert m = has_tag m Request_tag (int sizeof_Request_rep)"

definition Request_convert_buf :: "bool \<Rightarrow> nat \<Rightarrow> request \<Rightarrow> request option" where
  "Request_convert_buf aligned len m = message_convert aligned len Request_tag (int sizeof_Request_rep) m"

section \<open>Replies\<close>

record reply = message +
  y_v :: view
  y_rid :: request_id
  y_digest :: digest
  y_replica :: int
  y_reply_size :: int

definition sizeof_Reply_rep :: nat where
  "sizeof_Reply_rep = 64"

definition reply_bytes :: "reply \<Rightarrow> byte list" where
  "reply_bytes r = header_bytes r @ le_bytes 8 (y_v r) @ le_bytes 8 (uint (y_rid r)) @ digest_bytes (y_digest r) @
     le_bytes 4 (y_replica r) @ le_bytes 4 (y_reply_size r)"

definition Reply_new :: "view \<Rightarrow> request_id \<Rightarrow> int \<Rightarrow> byte list \<Rightarrow> int \<Rightarrow> reply option" where
  "Reply_new v rid i buf Max_message_size =
     set_size sizeof_Reply_rep \<lparr>m_tag = Reply_tag, m_extra = 0, m_size = ALIGNED_SIZE Max_message_size,
       m_max = ALIGNED_SIZE Max_message_size, m_scratch = True, m_rest = buf, y_v = v, y_rid = rid, y_digest = digest_zero,
       y_replica = i, y_reply_size = 0\<rparr> (int sizeof_Reply_rep)"

text \<open>The reply that carries only a digest.\<close>

definition Reply_digest_new :: "crypto \<Rightarrow> view \<Rightarrow> request_id \<Rightarrow> int \<Rightarrow> digest \<Rightarrow> principal \<Rightarrow> bool \<Rightarrow> reply" where
  "Reply_digest_new cr v rid i d p tentative =
     (let sz = ALIGNED_SIZE (int sizeof_Reply_rep + MAC_size);
          r = \<lparr>m_tag = Reply_tag, m_extra = (if tentative then 1 else 0), m_size = sz, m_max = sz, m_scratch = True,
               m_rest = [], y_v = v, y_rid = rid, y_digest = d, y_replica = i, y_reply_size = - 1\<rparr>
      in r\<lparr>m_rest := gen_mac_out (cr_H cr) p (reply_bytes r)\<rparr>)"

definition Reply_copy :: "reply \<Rightarrow> int \<Rightarrow> reply" where
  "Reply_copy r i = r\<lparr>m_max := ALIGNED_SIZE (m_size r), m_scratch := True, y_replica := i\<rparr>"

definition store_reply_max :: "reply \<Rightarrow> int" where
  "store_reply_max r = msize r - int sizeof_Reply_rep - MAC_size"

definition Reply_authenticate :: "crypto \<Rightarrow> reply \<Rightarrow> principal \<Rightarrow> int \<Rightarrow> bool \<Rightarrow> reply option" where
  "Reply_authenticate cr r p act_len tentative = do {
     th_assert (act_len mod 2 ^ 32 \<le> (msize r - int sizeof_Reply_rep - MAC_size) mod 2 ^ 64);
     let r1 = (if tentative then r\<lparr>m_extra := 1\<rparr> else r);
     let r2 = r1\<lparr>y_reply_size := act_len, y_digest := cr_hash cr (take (nat act_len) (m_rest r))\<rparr>;
     r3 \<leftarrow> set_size sizeof_Reply_rep r2 (int sizeof_Reply_rep + act_len + MAC_size);
     Some (r3\<lparr>m_rest := put_bytes (m_rest r3) (nat act_len) (gen_mac_out (cr_H cr) p (reply_bytes r3))\<rparr>) }"

definition Reply_re_authenticate :: "crypto \<Rightarrow> reply \<Rightarrow> principal \<Rightarrow> reply" where
  "Reply_re_authenticate cr r p =
     r\<lparr>m_rest := put_bytes (m_rest r) (nat (y_reply_size r)) (gen_mac_out (cr_H cr) p (reply_bytes r))\<rparr>"

definition Reply_commit :: "crypto \<Rightarrow> reply \<Rightarrow> principal \<Rightarrow> reply" where
  "Reply_commit cr r p =
     (if m_extra r = 0 then r
      else let r1 = r\<lparr>m_extra := 0\<rparr>
        in r1\<lparr>m_rest := put_bytes (m_rest r1) (nat (y_reply_size r1)) (gen_mac_out (cr_H cr) p (reply_bytes r1))\<rparr>)"

definition Reply_full :: "reply \<Rightarrow> bool" where
  "Reply_full r \<longleftrightarrow> y_reply_size r \<ge> 0"

definition is_tentative :: "reply \<Rightarrow> bool" where
  "is_tentative r \<longleftrightarrow> m_extra r \<noteq> 0"

definition Reply_match :: "reply \<Rightarrow> reply \<Rightarrow> bool" where
  "Reply_match a b \<longleftrightarrow> digest_eq (y_digest a) (y_digest b) \<and>
     (\<not> is_tentative a \<or> is_tentative b \<or> y_v a = y_v b)"

definition Reply_verify :: "crypto \<Rightarrow> node \<Rightarrow> reply \<Rightarrow> bool option" where
  "Reply_verify cr nd r =
     (if \<not> is_replica nd (y_replica r) then Some False
      else let rep_size = (if Reply_full r then y_reply_size r else 0) in
        if m_size r - int sizeof_Reply_rep - rep_size < MAC_size then Some False
        else if Reply_full r \<and> \<not> digest_eq (cr_hash cr (take (nat rep_size) (m_rest r))) (y_digest r) then Some False
        else do {
          p \<leftarrow> i_to_p nd (y_replica r);
          Some (verify_mac_in (cr_sc cr) (cr_H cr) p (reply_bytes r) (drop (nat rep_size) (m_rest r))) })"

definition Reply_convert :: "'a message_scheme \<Rightarrow> bool" where
  "Reply_convert m = has_tag m Reply_tag (int sizeof_Reply_rep)"

definition reply_ops :: "reply msg_ops" where
  "reply_ops = \<lparr>m_id = y_replica, m_match = (\<lambda>a b. Some (Reply_match a b)), m_full = Reply_full\<rparr>"

section \<open>Properties\<close>

lemma set_size_ok:
  assumes "set_size off m sz = Some m'" "int off \<le> sz" "nat sz - off \<le> length (m_rest m)"
  shows "m_size m' = ALIGNED_SIZE sz" "take (nat sz - off) (m_rest m') = take (nat sz - off) (m_rest m)"
    "nat sz - off \<le> length (m_rest m')" "m' = m\<lparr>m_size := m_size m', m_rest := m_rest m'\<rparr>"
  using assms by (auto simp: set_size_def Let_def diff_le_mono split: if_splits)

lemma aligned_size_bounds: "sz \<le> ALIGNED_SIZE sz \<and> ALIGNED_SIZE sz < sz + 8"
  using pos_mod_bound [of 8 sz] pos_mod_sign [of 8 sz] by (auto simp: ALIGNED_SIZE_def ALIGNED_def ALIGNMENT_def)

lemma length_request_bytes: "length (r_od r) = num_words \<Longrightarrow> length (request_bytes r) = 56"
  by (simp add: request_bytes_def header_bytes_def length_digest_bytes num_words_def)

lemma put_bytes_take_drop:
  assumes "off \<le> length buf"
  shows "take off (put_bytes buf off bs) = take off buf" "drop off (put_bytes buf off bs) = bs @ drop (off + length bs) buf"
  using assms by (simp_all add: put_bytes_def)

lemma take_eq_shorter: "take n xs = take n ys \<Longrightarrow> m \<le> n \<Longrightarrow> take m xs = take m ys"
  by (drule arg_cong [of _ _ "take m"]) (simp add: min_absorb1)

text \<open>What \<^verbatim>\<open>sign\<close> leaves in the message.\<close>

lemma sign_result:
  assumes sign: "Request_sign cr ksz nd r act_len = Some r'" and sz: "sig_size nd (- 1) = Some sz" "0 \<le> sz"
    and len: "0 \<le> act_len" "act_len < 32768" "act_len + sz \<le> int (length (m_rest r))"
  obtains d sg rest where "comp_digest cr (r\<lparr>r_command_size := act_len\<rparr>) = Some d"
    "gen_signature cr ksz nd (request_bytes r') = Some sg" "r_cid r' = r_cid r" "r_rid r' = r_rid r" "r_od r' = d"
    "r_command_size r' = act_len" "m_size r' = ALIGNED_SIZE (int sizeof_Request_rep + act_len + sz)"
    "m_rest r' = take (nat act_len) (m_rest r) @ sg @ rest"
proof -
  let ?r1 = "(set_extra_bit 2 r)\<lparr>r_command_size := act_len\<rparr>"
  have i16: "to_int16 act_len = act_len" using len by (simp add: to_int16_id)
  from sign obtain d r3 sg where d: "comp_digest cr ?r1 = Some d"
    and r3: "set_size sizeof_Request_rep (?r1\<lparr>r_od := d\<rparr>) (int sizeof_Request_rep + act_len + sz) = Some r3"
    and sg: "gen_signature cr ksz nd (request_bytes r3) = Some sg"
    and r': "r' = r3\<lparr>m_rest := put_bytes (m_rest r3) (nat act_len) sg\<rparr>"
    unfolding Request_sign_def sz(1) Let_def i16 by (auto split: Option.bind_splits if_splits)
  have n: "nat (int sizeof_Request_rep + act_len + sz) - sizeof_Request_rep = nat (act_len + sz)"
    using len(1) sz(2) by (simp add: sizeof_Request_rep_def)
  have rest1: "m_rest (?r1\<lparr>r_od := d\<rparr>) = m_rest r" by (simp add: set_extra_bit_def)
  have pre: "int sizeof_Request_rep \<le> int sizeof_Request_rep + act_len + sz" "nat (act_len + sz) \<le> length (m_rest r)"
    using len sz(2) by linarith+
  note S = set_size_ok [OF r3 pre(1), unfolded n rest1, OF pre(2)]
  have al: "nat act_len \<le> length (m_rest r3)" using S(3) len(1) sz(2) by linarith
  have cmd: "take (nat act_len) (m_rest r3) = take (nat act_len) (m_rest r)"
    by (rule take_eq_shorter [OF S(2)]) (use sz(2) in linarith)
  have f: "r_cid r3 = r_cid r \<and> r_rid r3 = r_rid r \<and> r_od r3 = d \<and> r_command_size r3 = act_len"
    by (subst (1 2 3 4) S(4)) (simp add: set_extra_bit_def)
  show ?thesis
  proof (rule that)
    show "comp_digest cr (r\<lparr>r_command_size := act_len\<rparr>) = Some d" using d by (simp add: comp_digest_def set_extra_bit_def)
    show "gen_signature cr ksz nd (request_bytes r') = Some sg"
      using sg by (simp add: r' request_bytes_def header_bytes_def)
    show "m_rest r' = take (nat act_len) (m_rest r) @ sg @ drop (nat act_len + length sg) (m_rest r3)"
      using cmd by (simp add: r' put_bytes_def)
  qed (use f S(1) in \<open>simp_all add: r'\<close>)
qed

text \<open>C18: A request that a client signs is accepted by every node that knows the client and its key:
  \<^verbatim>\<open>sign\<close> and \<^verbatim>\<open>verify\<close> agree on the digest, on where the signature is and on what it covers.\<close>

theorem request_sign_verify:
  assumes sign: "Request_sign cr ksz client r act_len = Some r'"
    and len: "0 \<le> act_len" "act_len < 32768" "act_len + ssize p \<le> int (length (m_rest r))"
    and cid: "r_cid r = node_id client" "sig_size client (- 1) = Some (ssize p)"
    and p: "i_to_p rcv (node_id client) = Some p" "pid p = node_id client" "ssize p < 2 ^ 32"
    and hash: "\<And>s. length (cr_hash cr s) = num_words"
    and key: "0 \<le> ksz" "ksz < 2 ^ 31" "ksz + 4 \<le> ssize p" "\<And>s. length (cr_sig cr (node_id client) s) = nat ksz"
      "\<And>s. cr_sigver cr (node_id client) s (cr_sig cr (node_id client) s)"
  shows "Request_verify cr rcv r' = Some True"
proof -
  have sz0: "0 \<le> ssize p" using key(1,3) by linarith
  from sign_result [OF sign cid(2) sz0 len] obtain d sg rest where R:
    "comp_digest cr (r\<lparr>r_command_size := act_len\<rparr>) = Some d"
    "gen_signature cr ksz client (request_bytes r') = Some sg" "r_cid r' = r_cid r" "r_rid r' = r_rid r" "r_od r' = d"
    "r_command_size r' = act_len" "m_size r' = ALIGNED_SIZE (int sizeof_Request_rep + act_len + ssize p)"
    "m_rest r' = take (nat act_len) (m_rest r) @ sg @ rest" by metis
  have al: "nat act_len \<le> length (m_rest r)" using len sz0 by linarith
  have dlen: "length d = num_words" using R(1) hash by (auto simp: comp_digest_def Let_def split: if_splits)
  have dg: "comp_digest cr r' = Some d"
  proof -
    have "(12 + act_len) mod 2 ^ 64 = 12 + act_len" "nat (12 + act_len) = 12 + nat act_len" using len by auto
    then show ?thesis using R(1,3,4,6,8) len(1) al
      by (simp add: comp_digest_def Let_def min_absorb1 split: if_splits)
  qed
  have n56: "nat (int sizeof_Request_rep + act_len) = 56 + nat act_len"
    using len(1) by (simp add: sizeof_Request_rep_def nat_add_distrib)
  have sigpos: "drop (nat (int sizeof_Request_rep + act_len)) (request_bytes r' @ m_rest r') = sg @ rest"
    unfolding n56 using length_request_bytes [of r'] dlen R(5,8) al by (simp add: min_absorb1)
  have "m_size r' - (int sizeof_Request_rep + act_len) < 2 ^ 64" "ssize p \<le> m_size r' - (int sizeof_Request_rep + act_len)"
    using aligned_size_bounds [of "int sizeof_Request_rep + act_len + ssize p"] R(7) p(3) by auto
  then have fits: "sig_fits r' p" using R(6) sz0 by (simp add: sig_fits_def)
  have "verify_signature cr rcv p (request_bytes r') (sg @ rest) True = Some True"
    by (rule signature_verifies [OF R(2) key(4) key(1-3) p(2) key(5)])
  moreover have "digest_eq d (r_od r')" using dlen R(5) by (simp add: digest_eq_iff)
  ultimately show ?thesis
    using dg p(1) fits sigpos R(3,6) cid(1) by (simp add: Request_verify_def)
qed

definition wit_sig_crypto :: crypto where
  "wit_sig_crypto = wit_crypto\<lparr>cr_sig := (\<lambda>i s. replicate 8 9), cr_sigver := (\<lambda>i s g. g = replicate 8 9)\<rparr>"

definition wit_request :: "byte list \<Rightarrow> request option" where
  "wit_request cmd = do {
     r \<leftarrow> Request_new (wit_node 3) 77 (- 1) (replicate 200 0) 256;
     Request_sign wit_sig_crypto 8 (wit_node 3) (store_command r cmd) (int (length cmd)) }"

theorem request_sign_verify_witness:
  "\<exists>r'. wit_request [1, 2, 3] = Some r' \<and> Request_verify wit_sig_crypto (wit_node 0) r' = Some True"
proof -
  have "wit_request [1, 2, 3] \<noteq> None" by code_simp
  then obtain r' where r': "wit_request [1, 2, 3] = Some r'" by blast
  then obtain r where r: "Request_new (wit_node 3) 77 (- 1) (replicate 200 0) 256 = Some r"
    "Request_sign wit_sig_crypto 8 (wit_node 3) (store_command r [1, 2, 3]) 3 = Some r'"
    by (auto simp: wit_request_def split: Option.bind_splits)
  have r1: "r_cid (store_command r [1, 2, 3]) = 3" "200 \<le> length (m_rest (store_command r [1, 2, 3]))"
    using r(1) by (auto simp: Request_new_def set_size_def store_command_def put_bytes_def Let_def wit_node_sel
        sizeof_Request_rep_def ALIGNED_SIZE_def ALIGNED_def ALIGNMENT_def)
  have p: "i_to_p (wit_node 0) 3 = Some (wit_principal 3)" "pid (wit_principal 3) = 3" "ssize (wit_principal 3) = 64"
    by (simp_all add: i_to_p_def wit_node_def wit_principal_def set_in_key_def set_out_key_def Principal_new_def Let_def)
  have "Request_verify wit_sig_crypto (wit_node 0) r' = Some True"
    by (rule request_sign_verify [OF r(2), where p = "wit_principal 3"])
      (use r1 p in \<open>simp_all add: wit_node_sel sig_size_def wit_sig_crypto_def wit_crypto_def digest_zero_def,
        simp_all add: wit_node_def\<close>)
  with r' show ?thesis by blast
qed

text \<open>C38: The size check of \<^verbatim>\<open>Request::verify\<close> does not bound the command: a message that passes
  \<^verbatim>\<open>Request::convert\<close> but claims a command longer than the message also passes the check, because the
  difference of sizes is unsigned, and the signature is then looked for past the end of the message.\<close>

theorem request_size_check_wraps:
  assumes "Request_convert r" "m_size r < int sizeof_Request_rep + r_command_size r" "r_command_size r < 32768"
    and "ssize p \<le> 2 ^ 63"
  shows "sig_fits r p \<and> m_size r < int (nat (int sizeof_Request_rep + r_command_size r))"
proof -
  let ?x = "m_size r - (int sizeof_Request_rep + r_command_size r)"
  have sz: "int sizeof_Request_rep \<le> m_size r"
    using assms(1) by (auto simp: Request_convert_def has_tag_def split: if_splits)
  have "?x mod 2 ^ 64 = ?x + 2 ^ 64"
    using assms(2,3) sz by (subst mod_add_self2 [symmetric], subst mod_pos_pos_trivial) (auto simp: sizeof_Request_rep_def)
  then show ?thesis using assms sz by (auto simp: sig_fits_def sizeof_Request_rep_def)
qed

theorem request_size_check_wraps_witness:
  "sig_fits \<lparr>m_tag = 1, m_extra = 2, m_size = 64, m_max = 64, m_scratch = True, m_rest = replicate 8 0,
     r_od = digest_zero, r_replier = 0, r_command_size = 30000, r_cid = 3, r_rid = 5\<rparr> (wit_principal 3)"
  using request_size_check_wraps [of "\<lparr>m_tag = 1, m_extra = 2, m_size = 64, m_max = 64, m_scratch = True, m_rest = replicate 8 0,
     r_od = digest_zero, r_replier = 0, r_command_size = 30000, r_cid = 3, r_rid = 5\<rparr>" "wit_principal 3"]
  by (simp add: Request_convert_def has_tag_def Request_tag_def sizeof_Request_rep_def ALIGNED_def ALIGNMENT_def
      wit_principal_def set_in_key_def set_out_key_def Principal_new_def Let_def)

end
