(* ===== verification/Estimators.thy ===== *)
theory Estimators
  imports Requests
begin

text \<open>
  Order statistics over the values reported by the replicas: \<^verbatim>\<open>K_max.h\<close>, the query-stable and reply-stable
  messages (\<^verbatim>\<open>Query_stable\<close>, \<^verbatim>\<open>Reply_stable\<close>) and the estimator of the highest stable checkpoint
  (\<^verbatim>\<open>Stable_estimator.h\<close>, \<^verbatim>\<open>Stable_estimator.cc\<close>) that recovery uses.
\<close>

section \<open>K-th maximum\<close>

fun kmax_scan :: "int \<Rightarrow> int list \<Rightarrow> int \<times> int \<Rightarrow> int \<times> int" where
  "kmax_scan last_max [] (cur_max, cur_count) = (cur_max, cur_count)"
| "kmax_scan last_max (cv # vs) (cur_max, cur_count) =
     kmax_scan last_max vs
       (if cv = cur_max then (cur_max, cur_count + 1)
        else if cv > cur_max \<and> cv < last_max then (cv, 1)
        else (cur_max, cur_count))"

partial_function (option) kmax_loop :: "int \<Rightarrow> int list \<Rightarrow> int \<Rightarrow> int \<Rightarrow> int \<Rightarrow> int option" where
  "kmax_loop k vec last_max last_count cur_max =
     (if last_count < k then
        let (cm, cc) = kmax_scan last_max vec (cur_max, 0) in kmax_loop k vec cm (last_count + cc) 0
      else Some last_max)"

declare kmax_loop.simps [code]

definition K_max :: "int \<Rightarrow> int list \<Rightarrow> int \<Rightarrow> int option" where
  "K_max k vec tmax = kmax_loop k vec tmax 0 (- 1)"

abbreviation at_least :: "int list \<Rightarrow> int \<Rightarrow> int" where
  "at_least vec r \<equiv> int (length (filter (\<lambda>v. r \<le> v) vec))"

lemma kmax_scan_spec:
  assumes "kmax_scan m vs (c0, n0) = (cm, cc)" "c0 < m"
  shows "c0 \<le> cm \<and> cm < m \<and> (\<forall>v \<in> set vs. v < m \<longrightarrow> v \<le> cm) \<and>
    (cm = c0 \<longrightarrow> cc = n0 + int (count_list vs cm)) \<and> (c0 < cm \<longrightarrow> cm \<in> set vs \<and> cc = int (count_list vs cm))"
  using assms
proof (induction m vs "(c0, n0)" arbitrary: c0 n0 rule: kmax_scan.induct)
  case (2 m cv vs c0 n0)
  consider "cv = c0" | "cv \<noteq> c0" "c0 < cv" "cv < m" | "cv \<noteq> c0" "\<not> (c0 < cv \<and> cv < m)" by blast
  then show ?case
  proof cases
    case 1
    with 2(1) [of c0 "n0 + 1"] 2(2,3) show ?thesis by auto
  next
    case 2
    with "2.hyps" [of cv 1] "2.prems" show ?thesis by (auto simp: count_list_0_iff)
  next
    case 3
    with 2(1) [of c0 n0] 2(2,3) show ?thesis by auto
  qed
qed auto

lemma at_least_step:
  assumes "cm < m" "\<forall>v \<in> set vec. v < m \<longrightarrow> v \<le> cm"
  shows "at_least vec cm = at_least vec m + int (count_list vec cm)" "at_least vec (cm + 1) = at_least vec m"
  using assms by (induction vec) auto

lemma at_least_less:
  assumes "at_least vec m < at_least vec r"
  shows "\<exists>v \<in> set vec. r \<le> v \<and> v < m"
proof (rule ccontr)
  assume "\<not> (\<exists>v \<in> set vec. r \<le> v \<and> v < m)"
  then have "at_least vec r \<le> at_least vec m"
    by (induction vec) (auto simp: not_less)
  with assms show False by simp
qed

lemma kmax_round:
  assumes "at_least vec m < k" "k \<le> at_least vec 0" "c0 = 0 \<or> c0 = - 1" "c0 < m" "kmax_scan m vec (c0, 0) = (cm, cc)"
  shows "cm \<in> set vec \<and> 0 < cc \<and> at_least vec cm = at_least vec m + cc \<and> at_least vec (cm + 1) < k \<and>
    (at_least vec cm < k \<longrightarrow> 0 < cm)"
proof -
  obtain v where v: "v \<in> set vec" "0 \<le> v" "v < m" using at_least_less [of m vec 0] assms(1,2) by auto
  note sp = kmax_scan_spec [OF assms(5,4)]
  have cm: "0 \<le> cm" using sp v by fastforce
  have "cm \<in> set vec \<and> cc = int (count_list vec cm)"
  proof (cases "cm = c0")
    case True
    then have "cm = v" using sp v assms(3) cm by force
    with v True sp show ?thesis by auto
  qed (use sp in auto)
  moreover from this have "0 < cc" by (metis count_list_0_iff of_nat_0_less_iff neq0_conv)
  moreover have "at_least vec cm = at_least vec m + int (count_list vec cm)" "at_least vec (cm + 1) = at_least vec m"
    using at_least_step [of cm m vec] sp by blast+
  moreover have "0 < cm" if "at_least vec cm < k" using that assms(2) cm by (cases "cm = 0") auto
  ultimately show ?thesis using assms(1) by simp
qed

lemma kmax_loop_ok:
  assumes "k \<le> at_least vec 0" "c0 = 0 \<or> c0 = - 1" "at_least vec m < k \<longrightarrow> c0 < m"
  shows "\<exists>r. kmax_loop k vec m (at_least vec m) c0 = Some r \<and> k \<le> at_least vec r \<and>
    (at_least vec m < k \<longrightarrow> r \<in> set vec \<and> at_least vec (r + 1) < k)"
  using assms(2,3)
proof (induction "nat (k - at_least vec m)" arbitrary: m c0 rule: less_induct)
  case less
  show ?case
  proof (cases "at_least vec m < k")
    case False
    then show ?thesis by (simp add: kmax_loop.simps)
  next
    case True
    obtain cm cc where sc: "kmax_scan m vec (c0, 0) = (cm, cc)" by fastforce
    have r: "cm \<in> set vec" "0 < cc" "at_least vec cm = at_least vec m + cc" "at_least vec (cm + 1) < k"
      "at_least vec cm < k \<longrightarrow> 0 < cm"
      using kmax_round [OF True assms(1) less.prems(1) _ sc] less.prems(2) True by blast+
    have "nat (k - at_least vec cm) < nat (k - at_least vec m)" using r(2,3) True by simp
    from less.hyps [OF this, of 0] r(5)
    obtain q where q: "kmax_loop k vec cm (at_least vec cm) 0 = Some q" "k \<le> at_least vec q"
      "at_least vec cm < k \<longrightarrow> q \<in> set vec \<and> at_least vec (q + 1) < k" by auto
    have "q = cm" if "\<not> at_least vec cm < k" using q(1) that by (simp add: kmax_loop.simps)
    then have "q \<in> set vec \<and> at_least vec (q + 1) < k" using q(3) r(1,4) by blast
    moreover have "kmax_loop k vec m (at_least vec m) c0 = Some q"
      using True q(1) r(3) by (subst kmax_loop.simps) (simp add: sc)
    ultimately show ?thesis using q(2) by blast
  qed
qed

lemma K_max_spec:
  assumes "1 \<le> k" "k \<le> int (length (filter (\<lambda>v. 0 \<le> v) vec))" "\<forall>v \<in> set vec. v < tmax"
  shows "\<exists>r. K_max k vec tmax = Some r \<and> r \<in> set vec \<and> k \<le> int (length (filter (\<lambda>v. r \<le> v) vec)) \<and>
    int (length (filter (\<lambda>v. r < v) vec)) < k"
proof -
  have z: "at_least vec tmax = 0" using assms(3) by (auto simp: filter_empty_conv)
  have "at_least vec tmax < at_least vec 0" using z assms(1,2) by linarith
  then obtain v where "v \<in> set vec" "0 \<le> v" using at_least_less [of tmax vec 0] by auto
  then have "(- 1) < tmax" using assms(3) by force
  with kmax_loop_ok [OF assms(2), of "- 1" tmax] z assms(1)
  obtain r where "kmax_loop k vec tmax 0 (- 1) = Some r" "k \<le> at_least vec r" "r \<in> set vec" "at_least vec (r + 1) < k"
    by auto
  then show ?thesis by (auto simp: K_max_def add1_zle_eq)
qed

text \<open>C28: When at least \<open>k\<close> of the reported values are not negative, \<^verbatim>\<open>K_max\<close> returns, and its result is the
  \<open>k\<close>-th largest: one of the values, with at least \<open>k\<close> values greater than or equal to it and fewer than \<open>k\<close>
  strictly greater.\<close>

theorem K_max_correct:
  assumes "1 \<le> k" "k \<le> int (length (filter (\<lambda>v. 0 \<le> v) vec))" "\<forall>v \<in> set vec. v < tmax"
  shows "\<exists>r. K_max k vec tmax = Some r \<and> r \<in> set vec \<and> k \<le> int (length (filter (\<lambda>v. r \<le> v) vec)) \<and>
    int (length (filter (\<lambda>v. r < v) vec)) < k"
  using assms by (rule K_max_spec)

theorem K_max_correct_witness: "K_max 2 [4, 9, 0, 4] Seqno_max = Some 4"
proof -
  obtain r where "K_max 2 [4, 9, 0, 4] Seqno_max = Some r" "r \<in> set [4, 9, 0, 4]"
    "2 \<le> int (length (filter (\<lambda>v. r \<le> v) [4, 9, 0, 4]))" "int (length (filter (\<lambda>v. r < v) [4, 9, 0, 4])) < 2"
    using K_max_correct [of 2 "[4, 9, 0, 4]" Seqno_max] by (auto simp: Seqno_max_def)
  then show ?thesis by (auto split: if_splits)
qed

lemma kmax_scan_stuck: "0 < p \<Longrightarrow> kmax_scan 0 [p, - 1, - 1, - 1] (0, 0) = (0, 0)"
  by simp

lemma kmax_loop_stuck:
  assumes "0 < p" "kmax_loop k vec m lc c = Some r"
  shows "\<not> (k = 2 \<and> vec = [p, - 1, - 1, - 1] \<and> m = 0 \<and> lc = 1 \<and> c = 0)"
  using assms(2)
proof (rule kmax_loop.raw_induct [rotated])
  fix f k vec m lc c r
  assume IH: "\<And>k vec m lc c r. f k vec m lc c = Some r \<Longrightarrow> \<not> (k = 2 \<and> vec = [p, - 1, - 1, - 1] \<and> m = 0 \<and> lc = 1 \<and> c = 0)"
    and body: "(if lc < k then let (cm, cc) = kmax_scan m vec (c, 0) in f k vec cm (lc + cc) 0 else Some m) = Some r"
  show "\<not> (k = 2 \<and> vec = [p, - 1, - 1, - 1] \<and> m = 0 \<and> lc = 1 \<and> c = 0)"
  proof
    assume a: "k = 2 \<and> vec = [p, - 1, - 1, - 1] \<and> m = 0 \<and> lc = 1 \<and> c = 0"
    then have "f 2 [p, - 1, - 1, - 1] 0 1 0 = Some r" using body assms(1) by simp
    from IH [OF this] show False by simp
  qed
qed

text \<open>When fewer than \<open>k\<close> of the values are non-negative the promise of \<^verbatim>\<open>K_max\<close> fails. With one zero among
  minus ones \<^verbatim>\<open>K_max(2)\<close> counts the zero twice and returns it, although only one value reaches it; with one
  positive value among minus ones the loop does not end.\<close>

theorem K_max_few_values:
  shows "K_max 2 [0, - 1, - 1, - 1] Seqno_max = Some 0 \<and> length (filter (\<lambda>v. 0 \<le> v) [0, - 1, - 1, - 1 :: int]) = 1 \<and>
    (0 < p \<and> p < Seqno_max \<longrightarrow> K_max 2 [p, - 1, - 1, - 1] Seqno_max = None)"
proof -
  have "K_max 2 [0, - 1, - 1, - 1] Seqno_max = Some 0"
    by (simp add: K_max_def kmax_loop.simps Seqno_max_def)
  moreover have "K_max 2 [p, - 1, - 1, - 1] Seqno_max = None" if p: "0 < p" "p < Seqno_max"
  proof -
    have "K_max 2 [p, - 1, - 1, - 1] Seqno_max = kmax_loop 2 [p, - 1, - 1, - 1] p 1 0"
      unfolding K_max_def by (subst kmax_loop.simps) (use p in simp)
    also have "\<dots> = kmax_loop 2 [p, - 1, - 1, - 1] 0 1 0" by (subst kmax_loop.simps) (use p in simp)
    also have "\<dots> = None"
      using kmax_loop_stuck [OF p(1), of 2 "[p, - 1, - 1, - 1]" 0 1 0]
      by (cases "kmax_loop 2 [p, - 1, - 1, - 1] 0 1 0") simp_all
    finally show ?thesis .
  qed
  ultimately show ?thesis by simp
qed

theorem K_max_few_values_witness: "K_max 2 [5, - 1, - 1, - 1] Seqno_max = None"
  using K_max_few_values [of 5] by (simp add: Seqno_max_def)

section \<open>Query-stable and reply-stable messages\<close>

definition Query_stable_tag :: int where "Query_stable_tag = 16"
definition Reply_stable_tag :: int where "Reply_stable_tag = 17"

record query_stable = message +
  qs_id :: int
  qs_nonce :: int

definition sizeof_Query_stable_rep :: nat where "sizeof_Query_stable_rep = 16"

definition query_stable_bytes :: "query_stable \<Rightarrow> byte list" where
  "query_stable_bytes m = header_bytes m @ le_bytes 4 (qs_id m) @ le_bytes 4 (qs_nonce m)"

text \<open>\<open>rnd\<close> is the value of \<^verbatim>\<open>random_int()\<close>.\<close>

definition Query_stable_new :: "crypto \<Rightarrow> node \<Rightarrow> int \<Rightarrow> query_stable" where
  "Query_stable_new cr nd rnd =
     (let sz = ALIGNED_SIZE (int sizeof_Query_stable_rep + auth_size nd (- 1));
          m = \<lparr>m_tag = Query_stable_tag, m_extra = 0, m_size = sz, m_max = sz, m_scratch = True, m_rest = [],
               qs_id = node_id nd, qs_nonce = rnd\<rparr>
      in m\<lparr>m_rest := gen_auth_out (cr_H cr) nd (query_stable_bytes m)\<rparr>)"

definition Query_stable_re_authenticate :: "crypto \<Rightarrow> node \<Rightarrow> query_stable \<Rightarrow> query_stable" where
  "Query_stable_re_authenticate cr nd m = m\<lparr>m_rest := put_bytes (m_rest m) 0 (gen_auth_out (cr_H cr) nd (query_stable_bytes m))\<rparr>"

definition Query_stable_verify :: "crypto \<Rightarrow> node \<Rightarrow> query_stable \<Rightarrow> bool option" where
  "Query_stable_verify cr nd m =
     (if \<not> is_replica nd (qs_id m) then Some False
      else if m_size m - int sizeof_Query_stable_rep < auth_size nd (qs_id m) then Some False
      else verify_auth_in (cr_sc cr) (cr_H cr) nd (qs_id m) (query_stable_bytes m) (m_rest m))"

definition Query_stable_convert :: "'a message_scheme \<Rightarrow> bool" where
  "Query_stable_convert m = has_tag m Query_stable_tag (int sizeof_Query_stable_rep)"

record reply_stable = message +
  rs_lc :: seqno
  rs_lp :: seqno
  rs_id :: int
  rs_nonce :: int

definition sizeof_Reply_stable_rep :: nat where "sizeof_Reply_stable_rep = 32"

definition reply_stable_bytes :: "reply_stable \<Rightarrow> byte list" where
  "reply_stable_bytes m = header_bytes m @ le_bytes 8 (rs_lc m) @ le_bytes 8 (rs_lp m) @ le_bytes 4 (rs_id m) @ le_bytes 4 (rs_nonce m)"

definition Reply_stable_new :: "crypto \<Rightarrow> node \<Rightarrow> seqno \<Rightarrow> seqno \<Rightarrow> int \<Rightarrow> principal \<Rightarrow> reply_stable" where
  "Reply_stable_new cr nd lc lp n p =
     (let sz = ALIGNED_SIZE (int sizeof_Reply_stable_rep + MAC_size);
          m = \<lparr>m_tag = Reply_stable_tag, m_extra = 0, m_size = sz, m_max = sz, m_scratch = True, m_rest = [],
               rs_lc = lc, rs_lp = lp, rs_id = node_id nd, rs_nonce = n\<rparr>
      in m\<lparr>m_rest := gen_mac_out (cr_H cr) p (reply_stable_bytes m)\<rparr>)"

definition Reply_stable_re_authenticate :: "crypto \<Rightarrow> reply_stable \<Rightarrow> principal \<Rightarrow> reply_stable" where
  "Reply_stable_re_authenticate cr m p = m\<lparr>m_rest := put_bytes (m_rest m) 0 (gen_mac_out (cr_H cr) p (reply_stable_bytes m))\<rparr>"

definition Reply_stable_verify :: "build \<Rightarrow> crypto \<Rightarrow> node \<Rightarrow> reply_stable \<Rightarrow> bool" where
  "Reply_stable_verify b cr nd m \<longleftrightarrow>
     (if \<not> is_replica nd (rs_id m) then False
      else if rs_lc m smod checkpoint_interval b \<noteq> 0 \<or> rs_lc m > rs_lp m then False
      else if m_size m - int sizeof_Reply_stable_rep < MAC_size then False
      else (case i_to_p nd (rs_id m) of
          Some p \<Rightarrow> verify_mac_in (cr_sc cr) (cr_H cr) p (reply_stable_bytes m) (m_rest m)
        | None \<Rightarrow> False))"

definition Reply_stable_convert :: "'a message_scheme \<Rightarrow> bool" where
  "Reply_stable_convert m = has_tag m Reply_stable_tag (int sizeof_Reply_stable_rep)"

section \<open>The estimator of the highest stable checkpoint\<close>

record est_val =
  ev_lc :: seqno
  ev_lec :: int
  ev_gep :: int
  ev_lp :: seqno

definition Val_clear :: est_val where
  "Val_clear = \<lparr>ev_lc = Seqno_max, ev_lec = 0, ev_gep = 0, ev_lp = - 1\<rparr>"

record stable_estimator =
  se_vals :: "est_val list"
  se_est :: seqno

definition Stable_estimator_new :: "node \<Rightarrow> stable_estimator" where
  "Stable_estimator_new nd = \<lparr>se_vals = replicate (nat (num_replicas nd)) Val_clear, se_est = - 1\<rparr>"

text \<open>The updates of another replica's entry \<open>v\<close> and of the sender's entry in one round of the loop. The test
  \<^verbatim>\<open>lc <= v.lp\<close> increments \<^verbatim>\<open>v.gep\<close>.\<close>

definition se_other :: "seqno \<Rightarrow> seqno \<Rightarrow> seqno \<Rightarrow> seqno \<Rightarrow> est_val \<Rightarrow> est_val" where
  "se_other oc op lc lp v =
     (let v1 = (if oc > ev_lc v \<and> lc \<le> ev_lc v then v\<lparr>ev_lec := ev_lec v + 1\<rparr> else v);
          v2 = (if op < ev_lc v \<and> lp \<ge> ev_lc v then v1\<lparr>ev_gep := ev_gep v1 + 1\<rparr> else v1)
      in if lc \<le> ev_lp v then v2\<lparr>ev_gep := ev_gep v2 + 1\<rparr> else v2)"

definition se_sender :: "seqno \<Rightarrow> est_val \<Rightarrow> est_val \<Rightarrow> est_val" where
  "se_sender lc v val = (if lc \<ge> ev_lc v then val\<lparr>ev_lec := ev_lec val + 1\<rparr> else val)"

definition se_done :: "node \<Rightarrow> est_val \<Rightarrow> bool" where
  "se_done nd v \<longleftrightarrow> ev_lec v \<ge> 2 * max_faulty nd + 1 \<and> ev_gep v \<ge> max_faulty nd + 1"

fun se_loop :: "node \<Rightarrow> nat \<Rightarrow> seqno \<Rightarrow> seqno \<Rightarrow> seqno \<Rightarrow> seqno \<Rightarrow> nat list \<Rightarrow> stable_estimator \<Rightarrow> stable_estimator" where
  "se_loop nd j oc op lc lp [] E = E"
| "se_loop nd j oc op lc lp (i # is) E =
     (if i = j then se_loop nd j oc op lc lp is E
      else
        let v = se_vals E ! i; v' = se_other oc op lc lp v;
            E' = E\<lparr>se_vals := (se_vals E)[j := se_sender lc v (se_vals E ! j), i := v']\<rparr>
        in if se_done nd v' then E'\<lparr>se_est := ev_lc v'\<rparr> else se_loop nd j oc op lc lp is E')"

text \<open>\<^verbatim>\<open>add\<close> after the message was accepted; \<open>i\<close>, \<open>c\<close> and \<open>p\<close> are its sender, last checkpoint and last prepared
  number.\<close>

definition se_record :: "node \<Rightarrow> stable_estimator \<Rightarrow> int \<Rightarrow> seqno \<Rightarrow> seqno \<Rightarrow> stable_estimator option" where
  "se_record nd E i c p =
     (let lc = to_int32 c; lp = to_int32 p; j = nat i in
      if i < 0 \<or> length (se_vals E) \<le> j then None
      else
        let val = se_vals E ! j;
            oc = (if lc < ev_lc val then ev_lc val else Seqno_max);
            val1 = (if lc < ev_lc val then val\<lparr>ev_lc := lc, ev_lec := 1, ev_gep := 1\<rparr> else val);
            op = (if ev_lp val < lp then ev_lp val else - 1);
            val2 = (if ev_lp val < lp then val1\<lparr>ev_lp := lp\<rparr> else val1);
            E1 = se_loop nd j oc op lc lp [0..<length (se_vals E)] (E\<lparr>se_vals := (se_vals E)[j := val2]\<rparr>);
            v = se_vals E1 ! j
        in Some (if se_est E1 < 0 \<and> se_done nd v then E1\<lparr>se_est := ev_lc v\<rparr> else E1))"

definition se_add :: "build \<Rightarrow> crypto \<Rightarrow> node \<Rightarrow> stable_estimator \<Rightarrow> reply_stable \<Rightarrow> bool \<Rightarrow> (bool \<times> stable_estimator) option" where
  "se_add b cr nd E m own = do {
     E' \<leftarrow> (if own \<or> Reply_stable_verify b cr nd m then se_record nd E (rs_id m) (rs_lc m) (rs_lp m) else Some E);
     Some (se_est E' \<ge> 0, E') }"

definition se_mark_stale :: "stable_estimator \<Rightarrow> stable_estimator" where
  "se_mark_stale E = E\<lparr>se_vals := map (\<lambda>_. Val_clear) (se_vals E)\<rparr>"

definition se_clear :: "stable_estimator \<Rightarrow> stable_estimator" where
  "se_clear E = (se_mark_stale E)\<lparr>se_est := - 1\<rparr>"

definition low_estimate :: "build \<Rightarrow> node \<Rightarrow> stable_estimator \<Rightarrow> seqno option" where
  "low_estimate b nd E = do {
     mlp \<leftarrow> K_max (max_faulty nd + 1) (map ev_lp (se_vals E)) Seqno_max;
     Some ((mlp - max_out b + checkpoint_interval b - 2) sdiv checkpoint_interval b * checkpoint_interval b) }"

lemma sdiv_nonneg: "0 \<le> x \<Longrightarrow> 0 < c \<Longrightarrow> x sdiv c = x div (c :: int)"
  by (cases "x = 0") (simp_all add: signed_divide_int_def)

text \<open>C29: The lower estimate is defined when more than \<open>f\<close> replicas have reported a last prepared number, and
  is then a multiple of the checkpoint interval that lies at most \<open>max_out - checkpoint_interval + 2\<close> and less
  than that plus one interval below the \<open>f+1\<close>-st largest report, whenever it is not negative.\<close>

theorem low_estimate_bounds:
  assumes "0 < checkpoint_interval b" "0 \<le> max_faulty nd" "\<forall>v \<in> set (se_vals E). ev_lp v < Seqno_max"
    and "max_faulty nd + 1 \<le> int (length (filter (\<lambda>v. 0 \<le> ev_lp v) (se_vals E)))"
  shows "\<exists>mlp e. K_max (max_faulty nd + 1) (map ev_lp (se_vals E)) Seqno_max = Some mlp \<and> low_estimate b nd E = Some e \<and>
    checkpoint_interval b dvd e \<and>
    (0 \<le> e \<and> 0 \<le> mlp - max_out b + checkpoint_interval b - 2 \<longrightarrow>
       e \<le> mlp - max_out b + checkpoint_interval b - 2 \<and> mlp - max_out b - 2 < e)"
proof -
  let ?ci = "checkpoint_interval b"
  obtain mlp where k: "K_max (max_faulty nd + 1) (map ev_lp (se_vals E)) Seqno_max = Some mlp"
    using K_max_spec [of "max_faulty nd + 1" "map ev_lp (se_vals E)" Seqno_max] assms
    by (auto simp: filter_map comp_def)
  let ?x = "mlp - max_out b + ?ci - 2"
  have e: "low_estimate b nd E = Some (?x sdiv ?ci * ?ci)" by (simp add: low_estimate_def k)
  have "?x sdiv ?ci * ?ci \<le> ?x \<and> ?x - ?ci < ?x sdiv ?ci * ?ci" if "0 \<le> ?x"
  proof -
    have d: "?x sdiv ?ci = ?x div ?ci" by (rule sdiv_nonneg [OF that assms(1)])
    show ?thesis
      unfolding d using div_mult_mod_eq [of ?x ?ci] pos_mod_sign [OF assms(1), of ?x] pos_mod_bound [OF assms(1), of ?x] by (intro conjI) linarith+
  qed
  then show ?thesis using k e by auto
qed

theorem low_estimate_bounds_witness:
  "\<exists>e. low_estimate default_build (wit_node 0) \<lparr>se_vals = replicate 4 (Val_clear\<lparr>ev_lp := 600\<rparr>), se_est = - 1\<rparr> = Some e \<and> 128 dvd e"
proof -
  let ?E = "\<lparr>se_vals = replicate 4 (Val_clear\<lparr>ev_lp := 600\<rparr>), se_est = - 1\<rparr>"
  have "0 < checkpoint_interval default_build" "0 \<le> max_faulty (wit_node 0)" "\<forall>v \<in> set (se_vals ?E). ev_lp v < Seqno_max"
    "max_faulty (wit_node 0) + 1 \<le> int (length (filter (\<lambda>v. 0 \<le> ev_lp v) (se_vals ?E)))"
    by (simp_all add: default_build_def wit_node_sel Seqno_max_def)
  from low_estimate_bounds [OF this] show ?thesis by (auto simp: default_build_def)
qed

text \<open>The counters do not recognise a replica that reports again. With four replicas, of which one may be
  faulty, four reports of two replicas complete the estimate, although it needs reports with a lower or
  equal checkpoint from three.\<close>

theorem estimate_from_two_replicas:
  "do { E1 \<leftarrow> se_record (wit_node 0) (Stable_estimator_new (wit_node 0)) 0 128 128;
        E2 \<leftarrow> se_record (wit_node 0) E1 1 256 300;
        E3 \<leftarrow> se_record (wit_node 0) E2 1 256 300;
        E4 \<leftarrow> se_record (wit_node 0) E3 0 128 300;
        Some (se_est E4, max_faulty (wit_node 0), num_replicas (wit_node 0)) } = Some (256, 1, 4)"
proof -
  have u: "[0..<4] = [0, 1, 2, 3::nat]" by (simp add: upt_rec)
  have i: "to_int32 128 = 128" "to_int32 300 = 300" "to_int32 256 = 256" by (simp_all add: to_int32_id)
  show ?thesis
    by (simp add: se_record_def Stable_estimator_new_def wit_node_sel Val_clear_def i u Let_def se_other_def se_sender_def
        se_done_def Seqno_max_def numeral_eq_Suc nth_Cons)
qed

end
