(* ===== verification/Fetch_Messages.thy ===== *)
theory Fetch_Messages
  imports State_Tree Estimators
begin

text \<open>
  The messages of state transfer (\<^verbatim>\<open>Fetch.cc\<close>, \<^verbatim>\<open>Data.cc\<close>, \<^verbatim>\<open>Meta_data.cc\<close>, \<^verbatim>\<open>Meta_data_d.cc\<close> with their headers) and
  the certificate of partition digests (\<^verbatim>\<open>Meta_data_cert.h\<close>, \<^verbatim>\<open>Meta_data_cert.cc\<close>). The sub-partition array behind a
  \<^verbatim>\<open>Meta_data_rep\<close> and the digest array of a \<^verbatim>\<open>Meta_data_d_rep\<close> are lists.
\<close>

section \<open>Fetch\<close>

definition Meta_data_tag :: int where "Meta_data_tag = 12"
definition Meta_data_d_tag :: int where "Meta_data_d_tag = 13"
definition Data_tag :: int where "Data_tag = 14"
definition Fetch_tag :: int where "Fetch_tag = 15"

record fetch = message +
  fe_rid :: request_id
  fe_level :: int
  fe_index :: int
  fe_lu :: seqno
  fe_rc :: seqno
  fe_repid :: int
  fe_id :: int

definition sizeof_Fetch_rep :: nat where "sizeof_Fetch_rep = 48"

definition fetch_bytes :: "fetch \<Rightarrow> byte list" where
  "fetch_bytes m = header_bytes m @ le_bytes 8 (uint (fe_rid m)) @ le_bytes 4 (fe_level m) @ le_bytes 4 (fe_index m) @
     le_bytes 8 (fe_lu m) @ le_bytes 8 (fe_rc m) @ le_bytes 4 (fe_repid m) @ le_bytes 4 (fe_id m)"

definition Fetch_new :: "crypto \<Rightarrow> node \<Rightarrow> request_id \<Rightarrow> seqno \<Rightarrow> int \<Rightarrow> int \<Rightarrow> seqno \<Rightarrow> int \<Rightarrow> fetch" where
  "Fetch_new cr nd rid lu level index rc repid =
     (let sz = ALIGNED_SIZE (int sizeof_Fetch_rep + auth_size nd (- 1));
          m = \<lparr>m_tag = Fetch_tag, m_extra = 0, m_size = sz, m_max = sz, m_scratch = True, m_rest = [],
               fe_rid = rid, fe_level = level, fe_index = index, fe_lu = lu, fe_rc = rc, fe_repid = repid, fe_id = node_id nd\<rparr>
      in m\<lparr>m_rest := gen_auth_in (cr_H cr) nd (fetch_bytes m)\<rparr>)"

definition Fetch_re_authenticate :: "crypto \<Rightarrow> node \<Rightarrow> fetch \<Rightarrow> fetch" where
  "Fetch_re_authenticate cr nd m = m\<lparr>m_rest := put_bytes (m_rest m) 0 (gen_auth_in (cr_H cr) nd (fetch_bytes m))\<rparr>"

definition Fetch_verify :: "crypto \<Rightarrow> ptree_sizes \<Rightarrow> node \<Rightarrow> fetch \<Rightarrow> bool option" where
  "Fetch_verify cr P nd m =
     (if \<not> is_replica nd (fe_id m) then Some False
      else if fe_level m < 0 \<or> fe_level m \<ge> int (PLevels P) then Some False
      else if fe_index m < 0 \<or> fe_index m \<ge> int (PLevelSize P ! nat (fe_level m)) then Some False
      else if fe_rc m = - 1 \<and> fe_repid m \<noteq> - 1 then Some False
      else if m_size m - int sizeof_Fetch_rep < auth_size nd (fe_id m) then Some False
      else verify_auth_out (cr_sc cr) (cr_H cr) nd (fe_id m) (fetch_bytes m) (m_rest m))"

definition Fetch_convert :: "'a message_scheme \<Rightarrow> bool" where
  "Fetch_convert m = has_tag m Fetch_tag (int sizeof_Fetch_rep)"

section \<open>Data\<close>

record data_msg = message +
  da_index :: int
  da_padding :: int
  da_lm :: seqno
  da_data :: block

definition Data_new :: "int \<Rightarrow> seqno \<Rightarrow> block \<Rightarrow> data_msg" where
  "Data_new i lm d =
     (let sz = ALIGNED_SIZE (24 + int (length d))
      in \<lparr>m_tag = Data_tag, m_extra = 0, m_size = sz, m_max = sz, m_scratch = True, m_rest = [],
          da_index = i, da_padding = 0, da_lm = lm, da_data = d\<rparr>)"

definition Data_convert :: "nat \<Rightarrow> 'a message_scheme \<Rightarrow> bool" where
  "Data_convert Block_size m = has_tag m Data_tag (24 + int Block_size)"

section \<open>Meta-data\<close>

record meta_data = message +
  md_rid :: request_id
  md_lu :: seqno
  md_lm :: seqno
  md_l :: int
  md_i :: int
  md_d :: digest
  md_id :: int
  md_np :: int
  md_parts :: "(int \<times> digest) list"

definition sizeof_Meta_data_rep :: int where "sizeof_Meta_data_rep = 80"
definition sizeof_Part_info :: int where "sizeof_Part_info = 36"

definition Meta_data_new :: "int \<Rightarrow> ptree_sizes \<Rightarrow> node \<Rightarrow> request_id \<Rightarrow> nat \<Rightarrow> nat \<Rightarrow> seqno \<Rightarrow> seqno \<Rightarrow> digest \<Rightarrow> meta_data option" where
  "Meta_data_new Max_message_size P nd r l i lu lm d = do {
     th_assert (l < PLevels P);
     th_assert (i < PLevelSize P ! l);
     set_size (nat sizeof_Meta_data_rep)
       \<lparr>m_tag = Meta_data_tag, m_extra = 0, m_size = ALIGNED_SIZE Max_message_size, m_max = ALIGNED_SIZE Max_message_size,
        m_scratch = True, m_rest = [], md_rid = r, md_lu = lu, md_lm = lm, md_l = int l, md_i = int i, md_d = d,
        md_id = node_id nd, md_np = 0, md_parts = []\<rparr> sizeof_Meta_data_rep }"

text \<open>The entry is written before \<^verbatim>\<open>set_size\<close> asserts that the message still fits into its buffer.\<close>

definition add_sub_part :: "int \<Rightarrow> digest \<Rightarrow> meta_data \<Rightarrow> meta_data option" where
  "add_sub_part i d m =
     set_size (nat sizeof_Meta_data_rep)
       (m\<lparr>md_parts := take (nat (md_np m)) (md_parts m) @ [(i, d)], md_np := md_np m + 1\<rparr>)
       (sizeof_Meta_data_rep + (md_np m + 1) * sizeof_Part_info)"

record sp_iter =
  sp_cur :: int
  sp_max :: int
  sp_index :: int
  sp_max_index :: int

definition Sub_parts_iter :: "ptree_sizes \<Rightarrow> meta_data \<Rightarrow> sp_iter" where
  "Sub_parts_iter P m =
     (if md_l m \<noteq> int (PLevels P) - 1 then
        let k = int (PSize P ! nat (md_l m + 1))
        in \<lparr>sp_cur = 0, sp_max = md_np m, sp_index = md_i m * k, sp_max_index = md_i m * k + k\<rparr>
      else \<lparr>sp_cur = 0, sp_max = md_np m, sp_index = md_i m, sp_max_index = md_i m + 1\<rparr>)"

definition sub_parts_get :: "meta_data \<Rightarrow> sp_iter \<Rightarrow> ((int \<times> digest) option \<times> sp_iter) option" where
  "sub_parts_get m it =
     (if sp_index it < sp_max_index it then
        let it' = it\<lparr>sp_index := sp_index it + 1\<rparr> in
        if sp_cur it < sp_max it then do {
          (ci, cd) \<leftarrow> arr_get (md_parts m) (nat (sp_cur it));
          if sp_index it < ci then Some (Some (sp_index it, digest_zero), it')
          else do {
            th_assert (sp_index it = ci);
            Some (Some (sp_index it, cd), it'\<lparr>sp_cur := sp_cur it + 1\<rparr>) } }
        else Some (Some (sp_index it, digest_zero), it')
      else Some (None, it))"

lemma sub_parts_get_index:
  "sub_parts_get m it = Some (Some x, it') \<Longrightarrow>
     sp_index it' = sp_index it + 1 \<and> sp_max_index it' = sp_max_index it \<and> sp_index it < sp_max_index it"
  by (auto simp: sub_parts_get_def Let_def split: if_splits Option.bind_splits)

text \<open>The loop \<^verbatim>\<open>while (iter.get(i, d))\<close>; the body says whether to go on.\<close>

function sub_parts_loop :: "meta_data \<Rightarrow> (int \<Rightarrow> digest \<Rightarrow> 's \<Rightarrow> (bool \<times> 's) option) \<Rightarrow> sp_iter \<Rightarrow> 's \<Rightarrow> 's option" where
  "sub_parts_loop m f it s =
     (case sub_parts_get m it of
        None \<Rightarrow> None
      | Some (None, it') \<Rightarrow> Some s
      | Some (Some (i, d), it') \<Rightarrow>
          (case f i d s of
             None \<Rightarrow> None
           | Some (go, s') \<Rightarrow> if go then sub_parts_loop m f it' s' else Some s'))"
  by auto
termination
  by (relation "measure (\<lambda>(_, _, it, _). nat (sp_max_index it - sp_index it))") (auto dest!: sub_parts_get_index)

declare sub_parts_loop.simps [simp del]

text \<open>The check of the sub-partitions: in the range of the partition and no index twice.\<close>

definition parts_distinct :: "int \<Rightarrow> int \<Rightarrow> (int \<times> digest) list \<Rightarrow> bool" where
  "parts_distinct mn mx ps \<longleftrightarrow> (\<forall>p \<in> set ps. mn \<le> fst p \<and> fst p < mx) \<and> distinct (map fst ps)"

definition Meta_data_verify :: "ptree_sizes \<Rightarrow> node \<Rightarrow> meta_data \<Rightarrow> bool" where
  "Meta_data_verify P nd m \<longleftrightarrow>
     (if \<not> is_replica nd (md_id m) \<or> node_id nd = md_id m then False
      else if md_l m < 0 \<or> md_l m \<ge> int (PLevels P) - 1 then False
      else if md_i m < 0 \<or> md_i m \<ge> int (PLevelSize P ! nat (md_l m)) then False
      else let k = int (PSize P ! nat (md_l m + 1)) in
        if md_np m > 1 \<and> md_np m > k then False
        else if md_lm m > md_lu m then False
        else if m_size m < ALIGNED_SIZE (sizeof_Meta_data_rep + md_np m * sizeof_Part_info) then False
        else parts_distinct (md_i m * k) (md_i m * k + k) (take (nat (md_np m)) (md_parts m)))"

definition Meta_data_convert :: "'a message_scheme \<Rightarrow> bool" where
  "Meta_data_convert m = has_tag m Meta_data_tag sizeof_Meta_data_rep"

section \<open>Meta-data digests\<close>

record meta_data_d = message +
  mdd_rid :: request_id
  mdd_ls :: seqno
  mdd_l :: int
  mdd_i :: int
  mdd_digests :: "digest list"
  mdd_n :: int
  mdd_id :: int

definition mdd_slots :: "build \<Rightarrow> nat" where
  "mdd_slots b = nat (max_out b div checkpoint_interval b + 1)"

definition sizeof_Meta_data_d_rep :: "build \<Rightarrow> int" where
  "sizeof_Meta_data_d_rep b = 40 + 32 * int (mdd_slots b)"

definition meta_data_d_bytes :: "meta_data_d \<Rightarrow> byte list" where
  "meta_data_d_bytes m = header_bytes m @ le_bytes 8 (uint (mdd_rid m)) @ le_bytes 8 (mdd_ls m) @ le_bytes 4 (mdd_l m) @
     le_bytes 4 (mdd_i m) @ concat (map digest_bytes (mdd_digests m)) @ le_bytes 4 (mdd_n m) @ le_bytes 4 (mdd_id m)"

definition Meta_data_d_new :: "build \<Rightarrow> ptree_sizes \<Rightarrow> node \<Rightarrow> request_id \<Rightarrow> nat \<Rightarrow> nat \<Rightarrow> seqno \<Rightarrow> meta_data_d option" where
  "Meta_data_d_new b P nd r l i ls = do {
     th_assert (l < PLevels P);
     th_assert (i < PLevelSize P ! l);
     let sz = ALIGNED_SIZE (sizeof_Meta_data_d_rep b + MAC_size);
     Some \<lparr>m_tag = Meta_data_d_tag, m_extra = 0, m_size = sz, m_max = sz, m_scratch = True, m_rest = [],
       mdd_rid = r, mdd_ls = ls, mdd_l = int l, mdd_i = int i, mdd_digests = replicate (mdd_slots b) digest_zero,
       mdd_n = 0, mdd_id = node_id nd\<rparr> }"

definition add_digest :: "build \<Rightarrow> seqno \<Rightarrow> digest \<Rightarrow> meta_data_d \<Rightarrow> meta_data_d option" where
  "add_digest b n d m = do {
     th_assert (n smod checkpoint_interval b = 0);
     th_assert (mdd_ls m \<le> n \<and> n \<le> mdd_ls m + max_out b);
     let index = to_int32 ((n - mdd_ls m) sdiv checkpoint_interval b);
     if index < 0 then None
     else do {
       ds \<leftarrow> arr_set (mdd_digests m) (nat index) d;
       Some (m\<lparr>mdd_digests := ds, mdd_n := (if index \<ge> mdd_n m then index + 1 else mdd_n m)\<rparr>) } }"

text \<open>The index is narrowed to \<^verbatim>\<open>int\<close> before it is compared with the number of digests.\<close>

definition mdd_digest :: "build \<Rightarrow> seqno \<Rightarrow> meta_data_d \<Rightarrow> digest option option" where
  "mdd_digest b n m =
     (if n smod checkpoint_interval b \<noteq> 0 \<or> mdd_ls m > n then Some None
      else let index = to_int32 ((n - mdd_ls m) sdiv checkpoint_interval b) in
        if index \<ge> mdd_n m then Some None
        else if index < 0 then None
        else do {
          d \<leftarrow> arr_get (mdd_digests m) (nat index);
          Some (if is_zero d then None else Some d) })"

definition mdd_last_checkpoint :: "build \<Rightarrow> meta_data_d \<Rightarrow> seqno" where
  "mdd_last_checkpoint b m = mdd_ls m + (mdd_n m - 1) * checkpoint_interval b"

definition Meta_data_d_authenticate :: "build \<Rightarrow> crypto \<Rightarrow> principal \<Rightarrow> meta_data_d \<Rightarrow> meta_data_d option" where
  "Meta_data_d_authenticate b cr p m = do {
     m' \<leftarrow> set_size (nat (sizeof_Meta_data_d_rep b)) m (sizeof_Meta_data_d_rep b + MAC_size);
     Some (m'\<lparr>m_rest := put_bytes (m_rest m') 0 (gen_mac_out (cr_H cr) p (meta_data_d_bytes m'))\<rparr>) }"

definition Meta_data_d_verify :: "build \<Rightarrow> crypto \<Rightarrow> ptree_sizes \<Rightarrow> node \<Rightarrow> meta_data_d \<Rightarrow> bool" where
  "Meta_data_d_verify b cr P nd m \<longleftrightarrow>
     (if \<not> is_replica nd (mdd_id m) \<or> node_id nd = mdd_id m \<or> mdd_ls m < 0 then False
      else if mdd_l m < 0 \<or> mdd_l m \<ge> int (PLevels P) then False
      else if mdd_i m < 0 \<or> mdd_i m \<ge> int (PLevelSize P ! nat (mdd_l m)) then False
      else if mdd_n m < 1 \<or> mdd_n m \<ge> max_out b sdiv checkpoint_interval b + 1 then False
      else if m_size m < ALIGNED_SIZE (sizeof_Meta_data_d_rep b + MAC_size) then False
      else (case i_to_p nd (mdd_id m) of
          Some p \<Rightarrow> verify_mac_in (cr_sc cr) (cr_H cr) p (meta_data_d_bytes m) (m_rest m)
        | None \<Rightarrow> False))"

definition Meta_data_d_convert :: "build \<Rightarrow> 'a message_scheme \<Rightarrow> bool" where
  "Meta_data_d_convert b m = has_tag m Meta_data_d_tag (sizeof_Meta_data_d_rep b)"

section \<open>The certificate of a partition digest\<close>

record part_val =
  pv_d :: digest
  pv_c :: seqno
  pv_count :: int

record md_cert =
  mc_stables :: "seqno list"
  mc_ls :: seqno
  mc_mdds :: "meta_data_d option list"
  mc_vals :: "part_val list"
  mc_cur :: nat
  mc_correct :: int
  mc_c :: seqno
  mc_d :: digest
  mc_mine :: bool

definition pv_clear :: "part_val \<Rightarrow> part_val" where
  "pv_clear v = v\<lparr>pv_c := - 1, pv_count := 0\<rparr>"

definition Meta_data_cert_new :: "build \<Rightarrow> node \<Rightarrow> md_cert" where
  "Meta_data_cert_new b nd =
     (let n = nat (num_replicas nd)
      in \<lparr>mc_stables = replicate n 0, mc_ls = 0, mc_mdds = replicate n None,
          mc_vals = replicate (n * mdd_slots b) \<lparr>pv_d = digest_zero, pv_c = - 1, pv_count = 0\<rparr>,
          mc_cur = 0, mc_correct = max_faulty nd + 1, mc_c = - 1, mc_d = digest_zero, mc_mine = False\<rparr>)"

definition mc_clear :: "md_cert \<Rightarrow> md_cert" where
  "mc_clear C = C\<lparr>mc_mdds := map (\<lambda>_. None) (mc_mdds C), mc_stables := map (\<lambda>_. 0) (mc_stables C), mc_ls := 0,
     mc_vals := map pv_clear (take (mc_cur C) (mc_vals C)) @ drop (mc_cur C) (mc_vals C),
     mc_c := - 1, mc_cur := 0, mc_mine := False\<rparr>"

text \<open>The inner loop that removes the value at \<open>i\<close> by moving the last one into its place.\<close>

fun drop_vals :: "nat \<Rightarrow> seqno \<Rightarrow> part_val list \<Rightarrow> nat \<Rightarrow> (part_val list \<times> nat) option" where
  "drop_vals i ls vs 0 = None"
| "drop_vals i ls vs (Suc cur) = do {
     vs1 \<leftarrow> (if i < cur then do { th_assert (pv_c (vs ! cur) \<ge> 0); Some (vs[i := vs ! cur]) } else Some vs);
     let vs2 = vs1[cur := pv_clear (vs1 ! cur)];
     if pv_c (vs2 ! i) < ls \<and> cur > 0 then drop_vals i ls vs2 cur else Some (vs2, cur) }"

lemma drop_vals_less: "drop_vals i ls vs cur = Some (vs', cur') \<Longrightarrow> cur' < cur"
proof (induction cur arbitrary: vs)
  case (Suc cur)
  then show ?case by (auto simp: Let_def split: if_splits intro: less_SucI)
qed simp

text \<open>The loop over the values already reported: \<open>om\<close> is the former message of the sender.\<close>

definition votes :: "build \<Rightarrow> meta_data_d \<Rightarrow> part_val \<Rightarrow> bool option" where
  "votes b m v = do { r \<leftarrow> mdd_digest b (pv_c v) m; Some (case r of None \<Rightarrow> False | Some d \<Rightarrow> digest_eq d (pv_d v)) }"

function adjust_vals :: "build \<Rightarrow> meta_data_d option \<Rightarrow> meta_data_d \<Rightarrow> nat \<Rightarrow> bool list \<Rightarrow> md_cert \<Rightarrow> (bool list \<times> md_cert) option" where
  "adjust_vals b om m i matched C =
     (if i < mc_cur C then do {
        let v = mc_vals C ! i;
        old \<leftarrow> (case om of None \<Rightarrow> Some False | Some om \<Rightarrow> votes b om v);
        let v1 = (if old then v\<lparr>pv_count := pv_count v - 1\<rparr> else v);
        new \<leftarrow> votes b m v1;
        let v2 = (if new then v1\<lparr>pv_count := pv_count v1 + 1\<rparr> else v1);
        matched' \<leftarrow> (if new then arr_set matched (nat ((pv_c v2 - mdd_ls m) sdiv checkpoint_interval b)) True else Some matched);
        let C1 = C\<lparr>mc_vals := (mc_vals C)[i := v2]\<rparr>;
        if pv_count v2 = 0 \<or> pv_c v2 < mc_ls C1 then
          (case drop_vals i (mc_ls C1) (mc_vals C1) (mc_cur C1) of
             None \<Rightarrow> None
           | Some (vs, cur) \<Rightarrow> adjust_vals b om m (Suc i) matched' (C1\<lparr>mc_vals := vs, mc_cur := cur\<rparr>))
        else if pv_count v2 \<ge> mc_correct C1 \<and> pv_c v2 > mc_c C1 then
          adjust_vals b om m (Suc i) matched' (C1\<lparr>mc_c := pv_c v2, mc_d := pv_d v2\<rparr>)
        else adjust_vals b om m (Suc i) matched' C1 }
      else Some (matched, C))"
  by auto
termination
  by (relation "measure (\<lambda>(_, _, _, i, _, C). mc_cur C - i)") (auto dest!: drop_vals_less)

declare adjust_vals.simps [simp del]

text \<open>The values that only the new message has.\<close>

definition new_val :: "build \<Rightarrow> meta_data_d \<Rightarrow> bool list \<Rightarrow> nat \<Rightarrow> md_cert \<Rightarrow> md_cert option" where
  "new_val b m matched k C = do {
     let n = mdd_ls m + int k * checkpoint_interval b;
     hit \<leftarrow> arr_get matched k;
     if hit then Some C
     else do {
       r \<leftarrow> mdd_digest b n m;
       case r of
         None \<Rightarrow> Some C
       | Some d \<Rightarrow> do {
           th_assert (mc_cur C < length (mc_vals C));
           Some (C\<lparr>mc_vals := (mc_vals C)[mc_cur C := \<lparr>pv_d = d, pv_c = n, pv_count = 1\<rparr>], mc_cur := mc_cur C + 1\<rparr>) } } }"

text \<open>
  \<open>ok\<close> is the result of \<^verbatim>\<open>m->verify()\<close>. The message is stored in the slot of its sender in the special region
  (\<^verbatim>\<open>persist\<close>), which is where the former message of that sender is too: after that, \<^verbatim>\<open>om\<close> reads the new message.
\<close>

definition mc_add :: "build \<Rightarrow> node \<Rightarrow> bool \<Rightarrow> meta_data_d \<Rightarrow> bool \<Rightarrow> md_cert \<Rightarrow> (bool \<times> md_cert) option" where
  "mc_add b nd ok m own C0 = do {
     let C = (if own then C0\<lparr>mc_mine := True\<rparr> else C0);
     if own \<or> ok then do {
       th_assert (own \<or> mdd_id m \<noteq> node_id nd);
       let id = nat (mdd_id m);
       old \<leftarrow> arr_get (mc_mdds C) id;
       if (case old of None \<Rightarrow> False | Some om \<Rightarrow> mdd_last_checkpoint b om \<ge> mdd_last_checkpoint b m) then Some (False, C)
       else do {
         let om = (if old = None then None else Some m);
         let C1 = C\<lparr>mc_mdds := (mc_mdds C)[id := Some m]\<rparr>;
         if mdd_ls m < mc_ls C1 then Some (False, C1\<lparr>mc_mdds := (mc_mdds C1)[id := None]\<rparr>)
         else do {
           C2 \<leftarrow> (if mdd_ls m > mc_ls C1 then do {
                    ls \<leftarrow> K_max (max_faulty nd + 1) (mc_stables C1) Seqno_max;
                    Some (C1\<lparr>mc_ls := ls\<rparr>) }
                  else Some C1);
           (matched, C3) \<leftarrow> adjust_vals b om m 0 (replicate (mdd_slots b) False) C2;
           C4 \<leftarrow> fold_opt (new_val b m matched) [0..<nat (mdd_n m)] C3;
           Some (True, C4) } } }
     else Some (False, C) }"

definition mc_cvalue :: "md_cert \<Rightarrow> (seqno \<times> digest) option" where
  "mc_cvalue C = (if mc_c C < 0 then None else Some (mc_c C, mc_d C))"

end
