(* ===== verification/Timers.thy ===== *)
theory Timers
  imports Prelude
begin

text \<open>
  Time arithmetic (\<^verbatim>\<open>Time.h\<close>, cycle-counter build) and interval timers (\<^verbatim>\<open>ITimer.h\<close>, \<^verbatim>\<open>ITimer.cc\<close>). The static
  array of timers and the static lower bound \<^verbatim>\<open>min_deadline\<close> are one record. A handler may start, stop and
  adjust timers while the expired timers are being scanned: it is given by the list of timer operations it
  performs, each with the cycle count at which it runs.
\<close>

section \<open>Time\<close>

definition zeroTime :: int where "zeroTime = 0"

definition diffTime :: "int \<Rightarrow> int \<Rightarrow> int \<Rightarrow> int" where
  "diffTime clock_mhz t1 t2 = (t1 - t2) sdiv clock_mhz"

definition lessThanTime :: "int \<Rightarrow> int \<Rightarrow> bool" where
  "lessThanTime t1 t2 \<longleftrightarrow> t1 < t2"

definition equalTime :: "int \<Rightarrow> int \<Rightarrow> bool" where
  "equalTime t1 t2 \<longleftrightarrow> t1 = t2"

section \<open>Timers\<close>

datatype timer_state = stopped | running | expired

record itimer =
  t_state :: timer_state
  t_deadline :: int
  t_period :: int

record timers =
  tms :: "itimer list"
  min_deadline :: int

definition Long_max :: int where "Long_max = 9223372036854775807"

definition timers_new :: timers where
  "timers_new = \<lparr>tms = [], min_deadline = Long_max\<rparr>"

definition ITimer_new :: "int \<Rightarrow> timers \<Rightarrow> int \<Rightarrow> timers" where
  "ITimer_new clock_mhz T t = T\<lparr>tms := tms T @ [\<lparr>t_state = stopped, t_deadline = 0, t_period = t * clock_mhz * 1000\<rparr>]\<rparr>"

definition ITimer_delete :: "timers \<Rightarrow> nat \<Rightarrow> timers" where
  "ITimer_delete T i = (if i < length (tms T) then T\<lparr>tms := butlast ((tms T)[i := last (tms T)])\<rparr> else T)"

definition t_restart :: "int \<Rightarrow> timers \<Rightarrow> nat \<Rightarrow> timers" where
  "t_restart now T i =
     (let t = tms T ! i in
      if t_state t \<noteq> stopped \<and> t_state t \<noteq> expired then T
      else let d = now + t_period t in
        T\<lparr>tms := (tms T)[i := t\<lparr>t_state := running, t_deadline := d\<rparr>],
          min_deadline := (if d < min_deadline T then d else min_deadline T)\<rparr>)"

definition t_start :: "int \<Rightarrow> timers \<Rightarrow> nat \<Rightarrow> timers" where
  "t_start now T i = (if t_state (tms T ! i) \<noteq> stopped then T else t_restart now T i)"

definition t_adjust :: "int \<Rightarrow> timers \<Rightarrow> nat \<Rightarrow> int \<Rightarrow> timers" where
  "t_adjust clock_mhz T i t = T\<lparr>tms := (tms T)[i := (tms T ! i)\<lparr>t_period := t * clock_mhz * 1000\<rparr>]\<rparr>"

definition t_stop :: "timers \<Rightarrow> nat \<Rightarrow> timers" where
  "t_stop T i = (if t_state (tms T ! i) \<noteq> running then T else T\<lparr>tms := (tms T)[i := (tms T ! i)\<lparr>t_state := stopped\<rparr>]\<rparr>)"

definition t_restop :: "timers \<Rightarrow> nat \<Rightarrow> timers" where
  "t_restop T i = T\<lparr>tms := (tms T)[i := (tms T ! i)\<lparr>t_state := stopped\<rparr>]\<rparr>"

datatype timer_cmd = Start nat int | Restart nat int | Stop nat | Restop nat | Adjust nat int

fun run_cmd :: "int \<Rightarrow> timer_cmd \<Rightarrow> timers \<Rightarrow> timers" where
  "run_cmd mhz (Start i now) T = t_start now T i"
| "run_cmd mhz (Restart i now) T = t_restart now T i"
| "run_cmd mhz (Stop i) T = t_stop T i"
| "run_cmd mhz (Restop i) T = t_restop T i"
| "run_cmd mhz (Adjust i t) T = t_adjust mhz T i t"

text \<open>The loop of \<^verbatim>\<open>_handle_timeouts\<close>; \<open>h i\<close> is what the handler of timer \<open>i\<close> does.\<close>

fun scan_timers :: "int \<Rightarrow> (nat \<Rightarrow> timer_cmd list) \<Rightarrow> int \<Rightarrow> nat list \<Rightarrow> timers \<Rightarrow> timers" where
  "scan_timers mhz h cur [] T = T"
| "scan_timers mhz h cur (i # is) T =
     scan_timers mhz h cur is
       (let t = tms T ! i in
        if t_state t = running then
          if t_deadline t < cur
          then fold (run_cmd mhz) (h i) (T\<lparr>tms := (tms T)[i := t\<lparr>t_state := expired\<rparr>]\<rparr>)
          else if t_deadline t < min_deadline T then T\<lparr>min_deadline := t_deadline t\<rparr> else T
        else T)"

definition handle_timeouts :: "int \<Rightarrow> (nat \<Rightarrow> timer_cmd list) \<Rightarrow> int \<Rightarrow> timers \<Rightarrow> timers" where
  "handle_timeouts mhz h cur T =
     (if cur < min_deadline T then T
      else scan_timers mhz h cur [0..<length (tms T)] (T\<lparr>min_deadline := 9223372036854775807\<rparr>))"

section \<open>The lower bound on the deadlines\<close>

text \<open>\<open>covered T D\<close>: the bound covers the running timers among \<open>D\<close>.\<close>

definition covered :: "timers \<Rightarrow> nat set \<Rightarrow> bool" where
  "covered T D \<longleftrightarrow> (\<forall>i \<in> D. i < length (tms T) \<longrightarrow> t_state (tms T ! i) = running \<longrightarrow> min_deadline T \<le> t_deadline (tms T ! i))"

definition timers_inv :: "timers \<Rightarrow> bool" where
  "timers_inv T \<longleftrightarrow> covered T UNIV"

lemma nth_update_if: "j < length xs \<Longrightarrow> xs[i := x] ! j = (if i = j then x else xs ! j)"
  by simp

lemma run_cmd_length [simp]: "length (tms (run_cmd mhz c T)) = length (tms T)"
  by (cases c) (simp_all add: t_start_def t_restart_def t_stop_def t_restop_def t_adjust_def Let_def)

lemma covered_restart: "covered T D \<Longrightarrow> covered (t_restart now T i) D"
  by (auto simp: covered_def t_restart_def Let_def nth_update_if)

lemma run_cmd_covered: "covered T D \<Longrightarrow> covered (run_cmd mhz c T) D"
  by (cases c) (auto simp: covered_restart t_start_def,
      auto simp: covered_def t_stop_def t_restop_def t_adjust_def nth_update_if)

lemma run_cmds_covered: "covered T D \<Longrightarrow> covered (fold (run_cmd mhz) cs T) D \<and> length (tms (fold (run_cmd mhz) cs T)) = length (tms T)"
  by (induction cs arbitrary: T) (simp_all add: run_cmd_covered)

text \<open>A timer that has been scanned is covered, whatever the handlers of later timers do.\<close>

lemma run_cmd_own:
  assumes "t_state (tms T ! i) = expired \<or> min_deadline T \<le> t_deadline (tms T ! i) \<or> t_state (tms T ! i) = stopped"
  shows "covered T {i}"
  using assms by (auto simp: covered_def)

lemma scan_timers_covered:
  assumes "covered T D"
  shows "covered (scan_timers mhz h cur is T) (D \<union> set is) \<and> length (tms (scan_timers mhz h cur is T)) = length (tms T)"
  using assms
proof (induction mhz h cur "is" T arbitrary: D rule: scan_timers.induct)
  case (2 mhz h cur i "is" T)
  define T' where "T' = (let t = tms T ! i in
        if t_state t = running then
          if t_deadline t < cur
          then fold (run_cmd mhz) (h i) (T\<lparr>tms := (tms T)[i := t\<lparr>t_state := expired\<rparr>]\<rparr>)
          else if t_deadline t < min_deadline T then T\<lparr>min_deadline := t_deadline t\<rparr> else T
        else T)"
  have "covered T' (insert i D) \<and> length (tms T') = length (tms T)"
  proof (cases "t_state (tms T ! i) = running \<and> t_deadline (tms T ! i) < cur")
    case True
    have "covered (T\<lparr>tms := (tms T)[i := (tms T ! i)\<lparr>t_state := expired\<rparr>]\<rparr>) (insert i D)"
      using "2.prems" by (auto simp: covered_def nth_update_if)
    from run_cmds_covered [OF this, of mhz "h i"] True show ?thesis by (simp add: T'_def Let_def)
  next
    case False
    then show ?thesis using "2.prems" by (auto simp: T'_def covered_def Let_def)
  qed
  with "2.IH" [folded T'_def, of "insert i D"] show ?case by (simp add: T'_def)
qed simp

text \<open>C30: \<^verbatim>\<open>min_deadline\<close> is a lower bound of the deadlines of the running timers after every operation on timers,
  including a scan whose handlers start and stop timers; so when \<^verbatim>\<open>handle_timeouts\<close> returns without scanning
  no running timer has reached its deadline.\<close>

theorem min_deadline_bound:
  assumes "timers_inv T"
  shows "timers_inv (handle_timeouts mhz h cur T) \<and> timers_inv (run_cmd mhz c T) \<and> timers_inv (ITimer_new mhz T p) \<and>
    (cur < min_deadline T \<longrightarrow> (\<forall>t \<in> set (tms T). t_state t = running \<longrightarrow> cur < t_deadline t))"
proof -
  let ?T = "T\<lparr>min_deadline := 9223372036854775807\<rparr>"
  have "covered ?T {}" by (simp add: covered_def)
  from scan_timers_covered [OF this, of mhz h cur "[0..<length (tms T)]"]
  have "timers_inv (scan_timers mhz h cur [0..<length (tms T)] ?T)" by (auto simp: timers_inv_def covered_def)
  then have "timers_inv (handle_timeouts mhz h cur T)" using assms by (simp add: handle_timeouts_def)
  moreover have "timers_inv (run_cmd mhz c T)" using assms by (simp add: timers_inv_def run_cmd_covered)
  moreover have "timers_inv (ITimer_new mhz T p)"
    using assms by (auto simp: timers_inv_def covered_def ITimer_new_def nth_append)
  moreover have "\<forall>t \<in> set (tms T). t_state t = running \<longrightarrow> cur < t_deadline t" if "cur < min_deadline T"
    using that assms by (auto simp: timers_inv_def covered_def in_set_conv_nth) (meson less_le_trans)
  ultimately show ?thesis by blast
qed

theorem min_deadline_bound_witness:
  "timers_inv (handle_timeouts 1 (\<lambda>_. [Restart 0 50]) 40 (t_start 10 (ITimer_new 1 timers_new 0) 0)) \<and>
   min_deadline (handle_timeouts 1 (\<lambda>_. [Restart 0 50]) 40 (t_start 10 (ITimer_new 1 timers_new 0) 0)) = 50"
proof
  have "timers_inv (t_start 10 (ITimer_new 1 timers_new 0) 0)"
    by (auto simp: timers_inv_def covered_def t_start_def t_restart_def ITimer_new_def timers_new_def Long_max_def)
  from min_deadline_bound [OF this, of 1 "\<lambda>_. [Restart 0 50]" 40]
  show "timers_inv (handle_timeouts 1 (\<lambda>_. [Restart 0 50]) 40 (t_start 10 (ITimer_new 1 timers_new 0) 0))" by blast
  show "min_deadline (handle_timeouts 1 (\<lambda>_. [Restart 0 50]) 40 (t_start 10 (ITimer_new 1 timers_new 0) 0)) = 50"
    by (simp add: handle_timeouts_def t_start_def t_restart_def ITimer_new_def timers_new_def Long_max_def Let_def)
qed

end
