(* ===== verification/State_Ckpt.thy ===== *)
theory State_Ckpt
  imports Fetch_Messages Timers
begin

text \<open>
  The replicated state (\<^verbatim>\<open>State.h\<close>, \<^verbatim>\<open>State.cc\<close>): blocks of memory, their copy-on-write bits, the tree of partition
  digests, the sums of digests, the log of checkpoint records and the fields of state transfer. This theory has the
  operations on checkpoints.
\<close>

section \<open>The class\<close>

text \<open>The compile-time and process-wide constants a state depends on.\<close>

record senv =
  sv_b :: build
  sv_cr :: crypto
  sv_P :: ptree_sizes
  sv_children :: nat
  sv_block :: nat
  sv_max_msg :: int

record fpart =
  fp_index :: nat
  fp_lu :: seqno
  fp_lm :: seqno
  fp_c :: seqno
  fp_d :: digest

record cpart =
  cp_index :: nat
  cp_level :: nat

record state =
  st_mem :: "block list"
  st_cowb :: bitmap
  st_ptree :: "part list list"
  st_stree :: "int list list"
  st_clog :: "ck_rec crlog"
  st_lc :: seqno
  st_fetching :: bool
  st_keep_ckpts :: bool
  st_flevel :: nat
  st_stalep :: "fpart list list"
  st_cert :: md_cert
  st_lreplier :: int
  st_last_fetch_t :: int
  st_checking :: bool
  st_check_start :: seqno
  st_corrupt :: bool
  st_poll_cnt :: int
  st_to_check :: "cpart list"
  st_lchecked :: int
  st_refetch_level :: nat

abbreviation nb :: "state \<Rightarrow> nat" where
  "nb S \<equiv> length (st_mem S)"

abbreviation top_level :: "senv \<Rightarrow> nat" where
  "top_level V \<equiv> PLevels (sv_P V) - 1"

abbreviation psize :: "senv \<Rightarrow> nat \<Rightarrow> nat" where
  "psize V l \<equiv> PSize (sv_P V) ! l"

text \<open>The constructor; \<open>j\<close> has the fields that it leaves uninitialised and \<open>blk\<close> the data in a new block copy.\<close>

definition State_new :: "senv \<Rightarrow> node \<Rightarrow> block \<Rightarrow> block list \<Rightarrow> state \<Rightarrow> state" where
  "State_new V nd blk mem j =
     (let n = length mem; P = sv_P V; L = PLevels P
      in j\<lparr>st_mem := mem, st_cowb := Bitmap_new n False,
           st_ptree := map (\<lambda>i. replicate (if i \<noteq> L - 1 then PLevelSize P ! i else n) fresh_part) [0..<L],
           st_stree := map (\<lambda>i. replicate (PLevelSize P ! i) 0) [0..<L - 1],
           st_clog := CheckpointRecordLog_new (sv_b V) (CheckpointRecord_init (sv_children V) P blk n) 0,
           st_lc := 0, st_fetching := False, st_keep_ckpts := False, st_flevel := 0, st_stalep := replicate L [],
           st_last_fetch_t := 0, st_cert := Meta_data_cert_new (sv_b V) nd, st_lreplier := 0, st_to_check := [],
           st_checking := False, st_refetch_level := 0\<rparr>)"

section \<open>Access to the trees and the records\<close>

definition get2 :: "'a list list \<Rightarrow> nat \<Rightarrow> nat \<Rightarrow> 'a option" where
  "get2 t l i = do { xs \<leftarrow> arr_get t l; arr_get xs i }"

definition set2 :: "'a list list \<Rightarrow> nat \<Rightarrow> nat \<Rightarrow> 'a \<Rightarrow> 'a list list option" where
  "set2 t l i x = do { xs \<leftarrow> arr_get t l; xs' \<leftarrow> arr_set xs i x; arr_set t l xs' }"

definition put_part :: "nat \<Rightarrow> nat \<Rightarrow> part \<Rightarrow> state \<Rightarrow> state option" where
  "put_part l i p S = do { t \<leftarrow> set2 (st_ptree S) l i p; Some (S\<lparr>st_ptree := t\<rparr>) }"

definition put_sum :: "nat \<Rightarrow> nat \<Rightarrow> int \<Rightarrow> state \<Rightarrow> state option" where
  "put_sum l i s S = do { t \<leftarrow> set2 (st_stree S) l i s; Some (S\<lparr>st_stree := t\<rparr>) }"

text \<open>A change of the record that \<^verbatim>\<open>clog.fetch(n)\<close> refers to.\<close>

definition with_rec :: "senv \<Rightarrow> seqno \<Rightarrow> (ck_rec \<Rightarrow> ck_rec option) \<Rightarrow> state \<Rightarrow> state option" where
  "with_rec V n f S = do {
     r \<leftarrow> crlog_fetch (sv_b V) (st_clog S) n;
     r' \<leftarrow> f r;
     cl \<leftarrow> crlog_put (sv_b V) (st_clog S) n r';
     Some (S\<lparr>st_clog := cl\<rparr>) }"

definition bits_of :: "bitmap \<Rightarrow> nat list option" where
  "bits_of b = Iter_all (num b + 1) b (Iter_new True)"

section \<open>Copy on write\<close>

definition cow_single :: "senv \<Rightarrow> nat \<Rightarrow> state \<Rightarrow> state option" where
  "cow_single V i S = do {
     th_assert (i < nb S);
     p \<leftarrow> get2 (st_ptree S) (top_level V) i;
     S1 \<leftarrow> with_rec V (st_lc S) (rec_append_block i (pt_lm p) (pt_d p) (st_mem S ! i)) S;
     c \<leftarrow> bm_insert (st_cowb S1) i;
     Some (S1\<lparr>st_cowb := c\<rparr>) }"

text \<open>\<open>off\<close> is the offset of the region in the memory.\<close>

definition state_cow :: "senv \<Rightarrow> int \<Rightarrow> int \<Rightarrow> state \<Rightarrow> state option" where
  "state_cow V off sz S = do {
     th_assert (off > 0 \<and> off + sz \<le> int (nb S * sv_block V));
     if sz \<le> 0 then Some S
     else
       let low = nat off div sv_block V; high = nat (off + sz - 1) div sv_block V in
       fold_opt (\<lambda>i S. do { t \<leftarrow> bm_test (st_cowb S) i; if t then Some S else cow_single V i S }) [low..<Suc high] S }"

section \<open>Digests\<close>

definition part_digest :: "senv \<Rightarrow> nat \<Rightarrow> nat \<Rightarrow> state \<Rightarrow> digest option" where
  "part_digest V l i S = do {
     data \<leftarrow> (if l = top_level V then do { th_assert (i < nb S); arr_get (st_mem S) i }
             else do { s \<leftarrow> get2 (st_stree S) l i; dsum_bytes s });
     p \<leftarrow> get2 (st_ptree S) l i;
     Some (set_state_block (sv_cr V) data i (pt_lm p)) }"

text \<open>The body of the loop of \<^verbatim>\<open>update_ptree\<close> and its loops over the modified partitions of each level; \<open>mods\<close> has a bitmap
  for each level, the copy-on-write bits for the leaves.\<close>

definition update_part :: "senv \<Rightarrow> seqno \<Rightarrow> nat \<Rightarrow> nat \<Rightarrow> bitmap list \<times> state \<Rightarrow> (bitmap list \<times> state) option" where
  "update_part V n l i s = (case s of (mods, S) \<Rightarrow> do {
     p \<leftarrow> get2 (st_ptree S) l i;
     let j = i div psize V l;
     S1 \<leftarrow> (if l < top_level V then with_rec V (st_lc S) (rec_append (sv_P V) l i p) S else Some S);
     s0 \<leftarrow> get2 (st_stree S1) (l - 1) j;
     s1 \<leftarrow> dsum_sub s0 (pt_d p);
     S2 \<leftarrow> put_part l i (p\<lparr>pt_lm := n\<rparr>) S1;
     d \<leftarrow> part_digest V l i S2;
     S3 \<leftarrow> put_part l i \<lparr>pt_lm = n, pt_d = d\<rparr> S2;
     s2 \<leftarrow> dsum_add s1 d;
     S4 \<leftarrow> put_sum (l - 1) j s2 S3;
     m \<leftarrow> arr_get mods (l - 1);
     m' \<leftarrow> bm_insert m j;
     Some (mods[l - 1 := m'], S4) })"

definition update_level :: "senv \<Rightarrow> seqno \<Rightarrow> nat \<Rightarrow> bitmap list \<times> state \<Rightarrow> (bitmap list \<times> state) option" where
  "update_level V n l s = do {
     m \<leftarrow> arr_get (fst s) l;
     is \<leftarrow> bits_of m;
     fold_opt (update_part V n l) is s }"

definition update_root :: "senv \<Rightarrow> seqno \<Rightarrow> state \<Rightarrow> state option" where
  "update_root V n S = do {
     p \<leftarrow> get2 (st_ptree S) 0 0;
     S1 \<leftarrow> with_rec V (st_lc S) (rec_append (sv_P V) 0 0 p) S;
     S2 \<leftarrow> put_part 0 0 (p\<lparr>pt_lm := n\<rparr>) S1;
     d \<leftarrow> part_digest V 0 0 S2;
     put_part 0 0 \<lparr>pt_lm = n, pt_d = d\<rparr> S2 }"

definition update_ptree :: "senv \<Rightarrow> seqno \<Rightarrow> state \<Rightarrow> state option" where
  "update_ptree V n S = do {
     let mods = map (\<lambda>l. Bitmap_new (PLevelSize (sv_P V) ! l) False) [0..<top_level V] @ [st_cowb S];
     _ \<leftarrow> crlog_fetch (sv_b V) (st_clog S) (st_lc S);
     (mods', S1) \<leftarrow> fold_opt (update_level V n) (rev [1..<PLevels (sv_P V)]) (mods, S);
     m \<leftarrow> arr_get mods' 0;
     t \<leftarrow> bm_test m 0;
     if t then update_root V n S1 else Some S1 }"

definition state_checkpoint :: "senv \<Rightarrow> seqno \<Rightarrow> state \<Rightarrow> state option" where
  "state_checkpoint V n S = do {
     S1 \<leftarrow> update_ptree V n S;
     let S2 = S1\<lparr>st_lc := n\<rparr>;
     root \<leftarrow> get2 (st_ptree S2) 0 0;
     S3 \<leftarrow> with_rec V n (\<lambda>r. Some (r\<lparr>rc_sd := pt_d root\<rparr>)) S2;
     Some (S3\<lparr>st_cowb := bm_clear (st_cowb S3)\<rparr>) }"

definition full_part :: "senv \<Rightarrow> nat \<Rightarrow> nat \<Rightarrow> state \<Rightarrow> state option" where
  "full_part V l i S = do {
     d \<leftarrow> part_digest V l i S;
     p \<leftarrow> get2 (st_ptree S) l i;
     S1 \<leftarrow> put_part l i (p\<lparr>pt_d := d\<rparr>) S;
     s \<leftarrow> get2 (st_stree S1) (l - 1) (i div psize V l);
     s' \<leftarrow> dsum_add s d;
     put_sum (l - 1) (i div psize V l) s' S1 }"

definition full_level :: "senv \<Rightarrow> nat \<Rightarrow> nat \<times> state \<Rightarrow> (nat \<times> state) option" where
  "full_level V l s = do {
     S' \<leftarrow> fold_opt (full_part V l) [0..<fst s] (snd s);
     Some (ceil_div (fst s) (psize V l), S') }"

definition compute_full_digest :: "senv \<Rightarrow> state \<Rightarrow> state option" where
  "compute_full_digest V S = do {
     (_, S1) \<leftarrow> fold_opt (full_level V) (rev [1..<PLevels (sv_P V)]) (nb S, S);
     d \<leftarrow> part_digest V 0 0 S1;
     p \<leftarrow> get2 (st_ptree S1) 0 0;
     S2 \<leftarrow> put_part 0 0 (p\<lparr>pt_d := d\<rparr>) S1;
     S3 \<leftarrow> with_rec V 0 (\<lambda>r. Some (rec_clear (sv_P V) r)) (S2\<lparr>st_cowb := bm_clear (st_cowb S2)\<rparr>);
     state_checkpoint V 0 S3 }"

definition check_data :: "senv \<Rightarrow> nat \<Rightarrow> state \<Rightarrow> bool option" where
  "check_data V i S = do {
     th_assert (i < nb S);
     p \<leftarrow> get2 (st_ptree S) (top_level V) i;
     d \<leftarrow> part_digest V (top_level V) i S;
     Some (digest_eq d (pt_d p)) }"

section \<open>Checkpoints\<close>

definition restore_block :: "ck_rec \<Rightarrow> nat \<Rightarrow> block list \<Rightarrow> block list option" where
  "restore_block r i mem = do {
     e \<leftarrow> rec_fetch_block i r;
     bc \<leftarrow> e;
     arr_set mem i (bc_data bc) }"

definition state_rollback :: "senv \<Rightarrow> state \<Rightarrow> (seqno \<times> state) option" where
  "state_rollback V S = do {
     th_assert (st_lc S \<ge> 0 \<and> \<not> st_fetching S);
     r \<leftarrow> crlog_fetch (sv_b V) (st_clog S) (st_lc S);
     is \<leftarrow> bits_of (st_cowb S);
     mem \<leftarrow> fold_opt (restore_block r) is (st_mem S);
     root \<leftarrow> get2 (st_ptree S) 0 0;
     S1 \<leftarrow> with_rec V (st_lc S) (\<lambda>r. Some ((rec_clear (sv_P V) r)\<lparr>rc_sd := pt_d root\<rparr>)) (S\<lparr>st_mem := mem\<rparr>);
     Some (st_lc S1, S1\<lparr>st_cowb := bm_clear (st_cowb S1)\<rparr>) }"

definition state_digest :: "senv \<Rightarrow> seqno \<Rightarrow> state \<Rightarrow> digest option option" where
  "state_digest V n S =
     (if \<not> crlog_within_range (sv_b V) (st_clog S) n then Some None
      else do {
        r \<leftarrow> crlog_fetch (sv_b V) (st_clog S) n;
        Some (if is_zero (rc_sd r) then None else Some (rc_sd r)) })"

definition discard_checkpoint :: "senv \<Rightarrow> seqno \<Rightarrow> seqno \<Rightarrow> state \<Rightarrow> state option" where
  "discard_checkpoint V n le S = do {
     S1 \<leftarrow> (if n > st_lc S \<and> le > st_lc S \<and> st_lc S \<ge> 0 then do {
              S' \<leftarrow> state_checkpoint V le S;
              Some (S'\<lparr>st_lc := - 1\<rparr>) }
            else Some S);
     cl \<leftarrow> crlog_truncate (sv_b V) (rec_clear (sv_P V)) (st_clog S1) n;
     Some (S1\<lparr>st_clog := cl\<rparr>) }"

text \<open>The loops of \<^verbatim>\<open>get_data\<close> and \<^verbatim>\<open>get_meta_data\<close> over the records from a checkpoint on; they end in an assertion.\<close>

fun first_entry :: "senv \<Rightarrow> (ck_rec \<Rightarrow> 'a option option) \<Rightarrow> seqno list \<Rightarrow> state \<Rightarrow> 'a option" where
  "first_entry V f [] S = None"
| "first_entry V f (n # ns) S = do {
     r \<leftarrow> crlog_fetch (sv_b V) (st_clog S) n;
     if is_zero (rc_sd r) then first_entry V f ns S
     else do {
       e \<leftarrow> f r;
       case e of Some x \<Rightarrow> Some x | None \<Rightarrow> first_entry V f ns S } }"

definition get_data :: "senv \<Rightarrow> seqno \<Rightarrow> nat \<Rightarrow> state \<Rightarrow> block option" where
  "get_data V c i S = do {
     th_assert (crlog_within_range (sv_b V) (st_clog S) c \<and> i < nb S);
     p \<leftarrow> get2 (st_ptree S) (top_level V) i;
     t \<leftarrow> (if pt_lm p \<le> c then bm_test (st_cowb S) i else Some True);
     if \<not> t then arr_get (st_mem S) i
     else map_option bc_data (first_entry V (rec_fetch_block i) (checkpoints_from (sv_b V) c (st_lc S + 1)) S) }"

definition get_meta_data :: "senv \<Rightarrow> seqno \<Rightarrow> nat \<Rightarrow> nat \<Rightarrow> state \<Rightarrow> part option" where
  "get_meta_data V c l i S = do {
     th_assert (crlog_within_range (sv_b V) (st_clog S) c);
     p \<leftarrow> get2 (st_ptree S) l i;
     if pt_lm p \<le> c then Some p
     else first_entry V (rec_fetch (sv_P V) l i) (checkpoints_from (sv_b V) c (st_lc S + 1)) S }"

definition state_enforce_bound :: "senv \<Rightarrow> seqno \<Rightarrow> seqno \<Rightarrow> bool \<Rightarrow> state \<Rightarrow> bool \<times> state" where
  "state_enforce_bound V b ks corrupt S =
     (let ret = (\<forall>ps \<in> set (st_ptree S). \<forall>p \<in> set ps. \<not> pt_lm p \<ge> b);
          S1 = S\<lparr>st_ptree := map (map (\<lambda>p. if pt_lm p \<ge> b then p\<lparr>pt_lm := - 1\<rparr> else p)) (st_ptree S)\<rparr>
      in if \<not> ret \<or> corrupt \<or> cr_head (st_clog S1) \<ge> b
         then (False, S1\<lparr>st_lc := - 1, st_clog := crlog_clear (rec_clear (sv_P V)) (st_clog S1) ks\<rparr>)
         else (True, S1))"

definition state_mark_stale :: "state \<Rightarrow> state" where
  "state_mark_stale S = S\<lparr>st_cert := mc_clear (st_cert S)\<rparr>"

definition state_retrans_fetch :: "int \<Rightarrow> int \<Rightarrow> state \<Rightarrow> bool" where
  "state_retrans_fetch mhz cur S \<longleftrightarrow> st_fetching S \<and> diffTime mhz cur (st_last_fetch_t S) > 100000"

end
