(* ===== verification/State_Fetch.thy ===== *)
theory State_Fetch
  imports State_Ckpt
begin

text \<open>
  State transfer and state checking (\<^verbatim>\<open>State.cc\<close> from \<^verbatim>\<open>start_fetch\<close> on): a replica that is behind fetches the root of the tree of partitions
  from the others, then level by level the partitions whose digests differ, down to the blocks.
\<close>

section \<open>The world of a transfer\<close>

text \<open>The messages that the code hands to \<^verbatim>\<open>replica->send\<close>, with their destinations; \<^verbatim>\<open>Node::All_replicas\<close> is \<open>-1\<close>.\<close>

datatype fmsg = MFetch fetch | MData data_msg | MMeta meta_data | MMetaD meta_data_d

record fworld =
  fw_st :: state
  fw_nd :: node
  fw_out :: "(fmsg \<times> int) list"

text \<open>What a handler reads from outside: the clocks, \<^verbatim>\<open>lrand48()\<close>, the digest left in a fresh slot of a queue, and the operations of the replica
  that it calls back.\<close>

record fcall =
  fk_now :: int
  fk_tv :: int
  fk_rand :: int
  fk_junk :: digest
  fk_new_state :: "seqno \<Rightarrow> fworld \<Rightarrow> fworld option"
  fk_try_end_recovery :: "fworld \<Rightarrow> fworld option"
  fk_has_messages :: "int \<Rightarrow> bool"

abbreviation upd_st :: "(state \<Rightarrow> state) \<Rightarrow> fworld \<Rightarrow> fworld" where
  "upd_st f W \<equiv> W\<lparr>fw_st := f (fw_st W)\<rparr>"

definition fsend :: "fmsg \<Rightarrow> int \<Rightarrow> fworld \<Rightarrow> fworld" where
  "fsend m i W = W\<lparr>fw_out := fw_out W @ [(m, i)]\<rparr>"

section \<open>Queues\<close>

text \<open>The element that \<^verbatim>\<open>high()\<close> refers to is the last one.\<close>

definition high :: "'a list \<Rightarrow> 'a option" where
  "high xs = (if xs = [] then None else Some (last xs))"

definition stale_high :: "nat \<Rightarrow> state \<Rightarrow> fpart option" where
  "stale_high l S = do { q \<leftarrow> arr_get (st_stalep S) l; high q }"

definition stale_size :: "nat \<Rightarrow> state \<Rightarrow> nat option" where
  "stale_size l S = map_option length (arr_get (st_stalep S) l)"

definition set_stale_high :: "nat \<Rightarrow> fpart \<Rightarrow> state \<Rightarrow> state option" where
  "set_stale_high l p S = do {
     q \<leftarrow> arr_get (st_stalep S) l;
     if q = [] then None else Some (S\<lparr>st_stalep := (st_stalep S)[l := butlast q @ [p]]\<rparr>) }"

definition stale_push :: "nat \<Rightarrow> fpart \<Rightarrow> state \<Rightarrow> state option" where
  "stale_push l p S = do { q \<leftarrow> arr_get (st_stalep S) l; Some (S\<lparr>st_stalep := (st_stalep S)[l := q @ [p]]\<rparr>) }"

definition stale_remove :: "nat \<Rightarrow> state \<Rightarrow> state option" where
  "stale_remove l S = do {
     q \<leftarrow> arr_get (st_stalep S) l;
     if q = [] then None else Some (S\<lparr>st_stalep := (st_stalep S)[l := butlast q]\<rparr>) }"

section \<open>Asking\<close>

text \<open>The loop that chooses the next replier other than this replica; it does not end in a group of one.\<close>

fun next_replier :: "nat \<Rightarrow> int \<Rightarrow> int \<Rightarrow> int \<Rightarrow> int option" where
  "next_replier 0 n me r = None"
| "next_replier (Suc k) n me r = (let r' = (r + 1) mod n in if r' = me then next_replier k n me r' else Some r')"

definition set_last_fetch_rid :: "request_id \<Rightarrow> node \<Rightarrow> node option" where
  "set_last_fetch_rid rid nd = do {
     p \<leftarrow> i_to_p nd (node_id nd);
     Some (nd\<lparr>principals := (principals nd)[nat (node_id nd) := p\<lparr>last_fetch := rid\<rparr>]\<rparr>) }"

text \<open>The replica's own report on the partition, for every checkpoint that it has.\<close>

definition own_digests :: "senv \<Rightarrow> nat \<Rightarrow> nat \<Rightarrow> state \<Rightarrow> meta_data_d \<Rightarrow> meta_data_d option" where
  "own_digests V l i S m =
     fold_opt (\<lambda>n m. do {
         r \<leftarrow> crlog_fetch (sv_b V) (st_clog S) n;
         if is_zero (rc_sd r) then Some m
         else do { q \<leftarrow> get_meta_data V n l i S; add_digest (sv_b V) n (pt_d q) m } })
       (checkpoints_from (sv_b V) (mdd_ls m) (st_lc S + 1)) m"

definition add_own_cert :: "senv \<Rightarrow> request_id \<Rightarrow> fpart \<Rightarrow> fworld \<Rightarrow> fworld option" where
  "add_own_cert V rid p W = do {
     let S = fw_st W;
     if mc_mine (st_cert S) then Some W
     else do {
       let ls = cr_head (st_clog S);
       r \<leftarrow> crlog_fetch (sv_b V) (st_clog S) ls;
       if \<not> rec_is_cleared r \<and> fp_c p \<le> st_lc S then do {
         m0 \<leftarrow> Meta_data_d_new (sv_b V) (sv_P V) (fw_nd W) rid (st_flevel S) (fp_index p) ls;
         m \<leftarrow> own_digests V (st_flevel S) (fp_index p) S m0;
         (_, C) \<leftarrow> mc_add (sv_b V) (fw_nd W) True m True (st_cert S);
         Some (W\<lparr>fw_st := S\<lparr>st_cert := C\<rparr>\<rparr>) }
       else Some W } }"

definition choose_replier :: "bool \<Rightarrow> fpart \<Rightarrow> node \<Rightarrow> state \<Rightarrow> (int \<times> state) option" where
  "choose_replier change_replier p nd S =
     (if fp_c p \<ge> 0 then do {
        r \<leftarrow> (if change_replier then next_replier (nat (num_replicas nd) + 1) (num_replicas nd) (node_id nd) (st_lreplier S)
              else Some (st_lreplier S));
        Some (r, S\<lparr>st_lreplier := r\<rparr>) }
      else Some (- 1, S))"

definition send_fetch :: "senv \<Rightarrow> fcall \<Rightarrow> bool \<Rightarrow> fworld \<Rightarrow> fworld option" where
  "send_fetch V K change_replier W = do {
     let S = (fw_st W)\<lparr>st_last_fetch_t := fk_now K\<rparr>;
     (rid, nd1) \<leftarrow> new_rid (fk_tv K) (fw_nd W);
     nd \<leftarrow> set_last_fetch_rid rid nd1;
     p \<leftarrow> stale_high (st_flevel S) S;
     (replier, S1) \<leftarrow> choose_replier change_replier p nd S;
     let f = Fetch_new (sv_cr V) nd rid (fp_lu p) (int (st_flevel S1)) (int (fp_index p)) (fp_c p) replier;
     add_own_cert V rid p (fsend (MFetch f) All_replicas (W\<lparr>fw_st := S1, fw_nd := nd\<rparr>)) }"

text \<open>\<open>cd\<close> is the digest of checkpoint \<open>c\<close> when the caller knows it.\<close>

definition start_fetch :: "senv \<Rightarrow> fcall \<Rightarrow> seqno \<Rightarrow> seqno \<Rightarrow> digest option \<Rightarrow> fworld \<Rightarrow> fworld option" where
  "start_fetch V K le c cd W =
     (if st_fetching (fw_st W) then Some W
      else do {
        let S = (fw_st W)\<lparr>st_fetching := True, st_keep_ckpts := False, st_lreplier := fk_rand K mod num_replicas (fw_nd W)\<rparr>;
        S1 \<leftarrow> (if st_lc S \<ge> 0 \<and> st_lc S < le then do {
                 cl \<leftarrow> set_fetch_seqno (sv_b V) (rec_clear (sv_P V)) (st_clog S) le;
                 state_checkpoint V le (S\<lparr>st_clog := cl\<rparr>) }
               else Some S);
        let S2 = S1\<lparr>st_cert := mc_clear (st_cert S1), st_stalep := map (\<lambda>_. []) (st_stalep S1), st_flevel := 0\<rparr>;
        root \<leftarrow> get2 (st_ptree S2) 0 0;
        S3 \<leftarrow> stale_push 0 \<lparr>fp_index = 0, fp_lu = (if st_refetch_level S2 = PLevels (sv_P V) then - 1 else st_lc S2),
               fp_lm = pt_lm root, fp_c = c, fp_d = (case cd of Some d \<Rightarrow> d | None \<Rightarrow> fk_junk K)\<rparr> S2;
        send_fetch V K True (W\<lparr>fw_st := S3\<rparr>) })"

section \<open>Answering\<close>

text \<open>The checkpoint that answers a request for checkpoint \<open>rc\<close> of a partition, or none.\<close>

definition chosen_checkpoint :: "senv \<Rightarrow> seqno \<Rightarrow> nat \<Rightarrow> nat \<Rightarrow> state \<Rightarrow> seqno option" where
  "chosen_checkpoint V rc l i S = do {
     have_rc \<leftarrow> (if crlog_within_range (sv_b V) (st_clog S) rc then do {
            r \<leftarrow> crlog_fetch (sv_b V) (st_clog S) rc; Some (\<not> rec_is_cleared r) } else Some False);
     if have_rc then Some rc
     else if st_lc S \<ge> rc then do {
       p \<leftarrow> get2 (st_ptree S) l i;
       Some (if pt_lm p \<le> rc then st_lc S else - 1) }
     else Some (- 1) }"

definition send_meta_data :: "senv \<Rightarrow> fetch \<Rightarrow> seqno \<Rightarrow> nat \<Rightarrow> nat \<Rightarrow> fworld \<Rightarrow> fworld option" where
  "send_meta_data V m chosen l i W = do {
     let S = fw_st W;
     p \<leftarrow> get_meta_data V chosen l i S;
     md \<leftarrow> Meta_data_new (sv_max_msg V) (sv_P V) (fw_nd W) (fe_rid m) l i chosen (pt_lm p) (pt_d p);
     let thr = fe_lu m;
     let j = i * psize V (l + 1);
     let mx = j + psize V (l + 1);
     let mx' = (if l + 1 = top_level V \<and> mx > nb S then nb S else mx);
     md' \<leftarrow> fold_opt (\<lambda>j md. do {
              q \<leftarrow> get_meta_data V chosen (l + 1) j S;
              if pt_lm q > thr then add_sub_part (int j) (pt_d q) md else Some md }) [j..<mx'] md;
     Some (fsend (MMeta md') (fe_id m) W) }"

definition send_chosen :: "senv \<Rightarrow> fetch \<Rightarrow> seqno \<Rightarrow> nat \<Rightarrow> nat \<Rightarrow> fworld \<Rightarrow> fworld option" where
  "send_chosen V m chosen l i W =
     (if l = top_level V then do {
        p \<leftarrow> get_meta_data V chosen l i (fw_st W);
        d \<leftarrow> get_data V chosen i (fw_st W);
        Some (fsend (MData (Data_new (int i) (pt_lm p) d)) (fe_id m) W) }
      else send_meta_data V m chosen l i W)"

definition send_digests :: "senv \<Rightarrow> fetch \<Rightarrow> seqno \<Rightarrow> nat \<Rightarrow> nat \<Rightarrow> fworld \<Rightarrow> fworld option" where
  "send_digests V m ls l i W = do {
     let S = fw_st W;
     newer \<leftarrow> (if ls > fe_rc m \<and> ls \<ge> fe_lu m then do { p \<leftarrow> get2 (st_ptree S) l i; Some (pt_lm p > fe_rc m) } else Some False);
     if newer then do {
       mdd \<leftarrow> Meta_data_d_new (sv_b V) (sv_P V) (fw_nd W) (fe_rid m) l i ls;
       r \<leftarrow> crlog_fetch (sv_b V) (st_clog S) ls;
       let n = (if rec_is_cleared r then ls + checkpoint_interval (sv_b V) else ls);
       mdd' \<leftarrow> fold_opt (\<lambda>n d. do { q \<leftarrow> get_meta_data V n l i S; add_digest (sv_b V) n (pt_d q) d })
                 (checkpoints_from (sv_b V) n (st_lc S + 1)) mdd;
       if mdd_n mdd' > 0 then do {
         pi \<leftarrow> i_to_p (fw_nd W) (fe_id m);
         a \<leftarrow> Meta_data_d_authenticate (sv_b V) (sv_cr V) pi mdd';
         Some (fsend (MMetaD a) (fe_id m) W) }
       else Some W }
     else Some W }"

definition handle_Fetch :: "senv \<Rightarrow> fetch \<Rightarrow> seqno \<Rightarrow> fworld \<Rightarrow> (bool \<times> fworld) option" where
  "handle_Fetch V m ls W = do {
     ok \<leftarrow> Fetch_verify (sv_cr V) (sv_P V) (fw_nd W) m;
     if \<not> ok then Some (False, W)
     else do {
       pi \<leftarrow> i_to_p (fw_nd W) (fe_id m);
       let l = nat (fe_level m);
       let i = nat (fe_index m);
       let S = fw_st W;
       let rc = fe_rc m;
       if last_fetch pi < fe_rid m \<and> (l < top_level V \<or> i < nb S) then do {
         chosen \<leftarrow> (if rc \<ge> 0 \<and> fe_repid m = node_id (fw_nd W) then chosen_checkpoint V rc l i S else Some (- 1));
         W' \<leftarrow> (if chosen \<ge> 0 then send_chosen V m chosen l i W else send_digests V m ls l i W);
         Some (True, W') }
       else Some (True, W) } }"

section \<open>A level is complete\<close>

text \<open>The records of a fetch are moved to the checkpoint before it, when the fetch did not start at a checkpoint.\<close>

definition merge_entry :: "senv \<Rightarrow> ck_rec \<Rightarrow> nat \<times> nat \<Rightarrow> ck_rec \<Rightarrow> ck_rec option" where
  "merge_entry V cr li pr = (case li of (pl, pi) \<Rightarrow>
     if pl = top_level V then do {
       b \<leftarrow> arr_get (rc_blocks cr) pi;
       rec_appendr_block pi (pt_lm b) (pt_d b) (bc_data b) pr }
     else do {
       p \<leftarrow> arr_get (rc_parts cr) (find_partition (sv_P V) pl pi);
       rec_appendr (sv_P V) pl pi p pr })"

definition merge_previous :: "senv \<Rightarrow> state \<Rightarrow> state option" where
  "merge_previous V S =
     (let ci = checkpoint_interval (sv_b V); prev = st_lc S sdiv ci * ci in
      if st_keep_ckpts S \<and> st_lc S smod ci \<noteq> 0 \<and> crlog_within_range (sv_b V) (st_clog S) prev then do {
        pr \<leftarrow> crlog_fetch (sv_b V) (st_clog S) prev;
        if rec_is_cleared pr then Some S
        else do {
          cr \<leftarrow> crlog_fetch (sv_b V) (st_clog S) (st_lc S);
          pr' \<leftarrow> fold_opt (merge_entry V cr) (rec_entries (sv_P V) cr) pr;
          with_rec V prev (\<lambda>_. Some pr') S } }
      else Some S)"

text \<open>The end of a fetch: the state is that of checkpoint \<open>c\<close>.\<close>

definition complete_fetch :: "senv \<Rightarrow> fcall \<Rightarrow> seqno \<Rightarrow> fworld \<Rightarrow> fworld option" where
  "complete_fetch V K c W = do {
     let S0 = (fw_st W)\<lparr>st_fetching := False\<rparr>;
     let S1 = (if st_checking S0 \<and> st_to_check S0 = [] then S0\<lparr>st_checking := False\<rparr> else S0);
     S2 \<leftarrow> merge_previous V S1;
     th_assert (st_lc S2 \<le> c);
     let S3 = S2\<lparr>st_lc := c\<rparr>;
     cl \<leftarrow> (if \<not> crlog_within_range (sv_b V) (st_clog S3) c
            then crlog_truncate (sv_b V) (rec_clear (sv_P V)) (st_clog S3) (c - max_out (sv_b V)) else Some (st_clog S3));
     root \<leftarrow> get2 (st_ptree S3) 0 0;
     S4 \<leftarrow> with_rec V c (\<lambda>r. Some (r\<lparr>rc_sd := pt_d root\<rparr>)) (S3\<lparr>st_clog := cl\<rparr>);
     S5 \<leftarrow> stale_remove 0 (S4\<lparr>st_cowb := bm_clear (st_cowb S4)\<rparr>);
     W' \<leftarrow> fk_new_state K c (W\<lparr>fw_st := S5\<lparr>st_cert := mc_clear (st_cert S5)\<rparr>\<rparr>);
     Some (upd_st (\<lambda>S. S\<lparr>st_refetch_level := 0, st_poll_cnt := 16\<rparr>) W') }"

text \<open>The update of the tree for partition \<open>i\<close> of level \<open>l\<close> when all of its sub-partitions were fetched.\<close>

definition accept_partition :: "senv \<Rightarrow> nat \<Rightarrow> nat \<Rightarrow> fpart \<Rightarrow> state \<Rightarrow> state option" where
  "accept_partition V l i wp S = do {
     p \<leftarrow> get2 (st_ptree S) l i;
     S1 \<leftarrow> (if st_keep_ckpts S then with_rec V (st_lc S) (rec_appendr (sv_P V) l i p) S else Some S);
     if l = 0 then put_part l i \<lparr>pt_lm = fp_lm wp, pt_d = fp_d wp\<rparr> S1
     else do {
       s0 \<leftarrow> get2 (st_stree S1) (l - 1) (i div psize V l);
       s1 \<leftarrow> dsum_sub s0 (pt_d p);
       S2 \<leftarrow> put_part l i \<lparr>pt_lm = fp_lm wp, pt_d = fp_d wp\<rparr> S1;
       s2 \<leftarrow> dsum_add s1 (fp_d wp);
       S3 \<leftarrow> put_sum (l - 1) (i div psize V l) s2 S2;
       pwp \<leftarrow> stale_high (l - 1) S3;
       th_assert (fp_index pwp = i div psize V l);
       if fp_lm wp > fp_lm pwp then set_stale_high (l - 1) (pwp\<lparr>fp_lm := fp_lm wp\<rparr>) S3 else Some S3 } }"

text \<open>\<^verbatim>\<open>done_with_level\<close>; the first argument is \<^verbatim>\<open>flevel\<close>.\<close>

fun done_level :: "senv \<Rightarrow> fcall \<Rightarrow> nat \<Rightarrow> fworld \<Rightarrow> fworld option" where
  "done_level V K 0 W = None"
| "done_level V K (Suc l) W = do {
     k \<leftarrow> stale_size (Suc l) (fw_st W);
     th_assert (k = 0);
     let S = (fw_st W)\<lparr>st_flevel := l\<rparr>;
     wp0 \<leftarrow> stale_high l S;
     let wp = wp0\<lparr>fp_lu := fp_c wp0\<rparr>;
     S1 \<leftarrow> set_stale_high l wp S;
     th_assert (fp_c wp \<noteq> - 1);
     if fp_lu wp \<ge> fp_lm wp then do {
       S2 \<leftarrow> accept_partition V l (fp_index wp) wp S1;
       if l = 0 then complete_fetch V K (fp_lu wp) (W\<lparr>fw_st := S2\<rparr>)
       else do {
         S3 \<leftarrow> stale_remove l S2;
         n \<leftarrow> stale_size l S3;
         if n = 0 then done_level V K l (W\<lparr>fw_st := S3\<rparr>)
         else send_fetch V K False
           (W\<lparr>fw_st := (if l \<le> st_refetch_level S3 then S3\<lparr>st_refetch_level := PLevels (sv_P V)\<rparr> else S3)\<rparr>) } }
     else send_fetch V K False
       (W\<lparr>fw_st := (if l < st_refetch_level S1 then S1\<lparr>st_refetch_level := l\<rparr> else S1)\<rparr>) }"

definition done_with_level :: "senv \<Rightarrow> fcall \<Rightarrow> fworld \<Rightarrow> fworld option" where
  "done_with_level V K W = done_level V K (st_flevel (fw_st W)) W"

section \<open>Receiving\<close>

text \<open>A block with the wanted digest is installed; its copy-on-write bit is set before it is tested, so that no copy is ever kept.\<close>

definition install_block :: "senv \<Rightarrow> nat \<Rightarrow> fpart \<Rightarrow> data_msg \<Rightarrow> state \<Rightarrow> state option" where
  "install_block V i wp m S = do {
     let l = top_level V;
     p \<leftarrow> get2 (st_ptree S) l i;
     cb \<leftarrow> bm_insert (st_cowb S) i;
     let S0 = S\<lparr>st_cowb := cb\<rparr>;
     t \<leftarrow> bm_test (st_cowb S0) i;
     old \<leftarrow> arr_get (st_mem S0) i;
     S1 \<leftarrow> (if st_keep_ckpts S0 \<and> \<not> t then with_rec V (st_lc S0) (rec_append_block i (pt_lm p) (pt_d p) old) S0 else Some S0);
     s0 \<leftarrow> get2 (st_stree S1) (l - 1) (i div psize V l);
     s1 \<leftarrow> dsum_sub s0 (pt_d p);
     S2 \<leftarrow> put_part l i \<lparr>pt_lm = da_lm m, pt_d = fp_d wp\<rparr> S1;
     mem \<leftarrow> arr_set (st_mem S2) i (da_data m);
     s2 \<leftarrow> dsum_add s1 (fp_d wp);
     S3 \<leftarrow> put_sum (l - 1) (i div psize V l) s2 (S2\<lparr>st_mem := mem\<rparr>);
     pwp \<leftarrow> stale_high (l - 1) S3;
     th_assert (fp_index pwp = i div psize V l);
     S4 \<leftarrow> (if da_lm m > fp_lm pwp then set_stale_high (l - 1) (pwp\<lparr>fp_lm := da_lm m\<rparr>) S3 else Some S3);
     stale_remove l (S4\<lparr>st_cert := mc_clear (st_cert S4)\<rparr>) }"

definition handle_Data :: "senv \<Rightarrow> fcall \<Rightarrow> data_msg \<Rightarrow> fworld \<Rightarrow> fworld option" where
  "handle_Data V K m W = do {
     let S = fw_st W;
     let l = top_level V;
     if st_fetching S \<and> st_flevel S = l then do {
       wp \<leftarrow> stale_high l S;
       let i = fp_index wp;
       if da_index m = int i then
         if fp_c wp \<ge> 0 \<and> digest_eq (fp_d wp) (set_state_block (sv_cr V) (da_data m) i (da_lm m)) then do {
           S1 \<leftarrow> install_block V i wp m S;
           n \<leftarrow> stale_size l S1;
           if n = 0 then done_with_level V K (W\<lparr>fw_st := S1\<rparr>) else send_fetch V K False (W\<lparr>fw_st := S1\<rparr>) }
         else send_fetch V K False W
       else Some W }
     else Some W }"

definition state_check_digest :: "senv \<Rightarrow> digest \<Rightarrow> meta_data \<Rightarrow> state \<Rightarrow> bool option" where
  "state_check_digest V d m S = do {
     th_assert (md_l m < int (PLevels (sv_P V)) - 1);
     let l = nat (md_l m);
     s0 \<leftarrow> get2 (st_stree S) l (nat (md_i m));
     s \<leftarrow> sub_parts_loop m (\<lambda>ip dp s.
            if ip \<ge> int (nb S) \<and> l + 1 = top_level V then Some (False, s)
            else if is_zero dp then Some (True, s)
            else do {
              q \<leftarrow> get2 (st_ptree S) (l + 1) (nat ip);
              s1 \<leftarrow> dsum_sub s (pt_d q);
              s2 \<leftarrow> dsum_add s1 dp;
              Some (True, s2) }) (Sub_parts_iter (sv_P V) m) s0;
     raw \<leftarrow> dsum_bytes s;
     Some (digest_eq d (set_state_block (sv_cr V) raw (nat (md_i m)) (md_lm m))) }"

text \<open>The loop that queues the sub-partitions that are out of date, and the others for checking.\<close>

definition queue_sub_part :: "senv \<Rightarrow> fpart \<Rightarrow> int \<Rightarrow> digest \<Rightarrow> state \<Rightarrow> (bool \<times> state) option" where
  "queue_sub_part V wp index d S =
     (if st_flevel S = top_level V \<and> index \<ge> int (nb S) then Some (False, S)
      else do {
        p \<leftarrow> get2 (st_ptree S) (st_flevel S) (nat index);
        if is_zero d \<or> digest_eq (pt_d p) d then
          Some (True, if st_refetch_level S = PLevels (sv_P V) \<and> pt_lm p \<le> st_check_start S
                      then S\<lparr>st_to_check := st_to_check S @ [\<lparr>cp_index = nat index, cp_level = st_flevel S\<rparr>]\<rparr> else S)
        else do {
          S' \<leftarrow> stale_push (st_flevel S) \<lparr>fp_index = nat index, fp_lu = fp_lu wp, fp_lm = pt_lm p, fp_c = fp_c wp, fp_d = d\<rparr> S;
          Some (True, S') } })"

text \<open>What is done with the meta-data of the wanted partition \<open>wp\<close>.\<close>

definition accept_meta_data :: "senv \<Rightarrow> fcall \<Rightarrow> meta_data \<Rightarrow> fpart \<Rightarrow> fworld \<Rightarrow> fworld option" where
  "accept_meta_data V K m wp W = do {
     let S = fw_st W;
     let wp' = wp\<lparr>fp_lm := md_lm m\<rparr>;
     S1 \<leftarrow> set_stale_high (st_flevel S) wp' S;
     let S2 = S1\<lparr>st_flevel := st_flevel S + 1\<rparr>;
     k \<leftarrow> stale_size (st_flevel S2) S2;
     th_assert (k = 0);
     S3 \<leftarrow> sub_parts_loop m (queue_sub_part V wp') (Sub_parts_iter (sv_P V) m) S2;
     let S4 = S3\<lparr>st_cert := mc_clear (st_cert S3)\<rparr>;
     n \<leftarrow> stale_size (st_flevel S4) S4;
     if n = 0 then done_with_level V K (W\<lparr>fw_st := S4\<rparr>) else send_fetch V K False (W\<lparr>fw_st := S4\<rparr>) }"

definition handle_Meta_data :: "senv \<Rightarrow> fcall \<Rightarrow> meta_data \<Rightarrow> fworld \<Rightarrow> fworld option" where
  "handle_Meta_data V K m W = do {
     let S = fw_st W;
     me \<leftarrow> i_to_p (fw_nd W) (node_id (fw_nd W));
     if st_fetching S \<and> st_flevel S < top_level V \<and> md_rid m = last_fetch me \<and> int (st_flevel S) = md_l m then do {
       wp \<leftarrow> stale_high (st_flevel S) S;
       if int (fp_index wp) = md_i m \<and> fp_c wp \<ge> 0 \<and> digest_eq (md_d m) (fp_d wp) then
         if \<not> Meta_data_verify (sv_P V) (fw_nd W) m then Some W
         else do {
           ok \<leftarrow> state_check_digest V (fp_d wp) m S;
           if ok then accept_meta_data V K m wp W else Some W }
       else Some W }
     else Some W }"

text \<open>What is done when the digest of the wanted partition \<open>wp\<close> is certified.\<close>

definition accept_certified :: "senv \<Rightarrow> fcall \<Rightarrow> fpart \<Rightarrow> seqno \<Rightarrow> digest \<Rightarrow> fworld \<Rightarrow> fworld option" where
  "accept_certified V K wp cc cd W = do {
     let S2 = fw_st W;
     let l = st_flevel S2;
     let i = fp_index wp;
     S3 \<leftarrow> set_stale_high l (wp\<lparr>fp_c := cc, fp_d := cd\<rparr>) (S2\<lparr>st_cert := mc_clear (st_cert S2)\<rparr>);
     th_assert (l \<noteq> top_level V \<or> i < nb S3);
     p \<leftarrow> get2 (st_ptree S3) l i;
     if digest_eq cd (pt_d p) then do {
       let S4 = (if st_refetch_level S3 = PLevels (sv_P V) \<and> pt_lm p \<le> st_check_start S3
                 then S3\<lparr>st_to_check := st_to_check S3 @ [\<lparr>cp_index = i, cp_level = l\<rparr>]\<rparr> else S3);
       if l > 0 then do {
         S5 \<leftarrow> stale_remove l S4;
         n \<leftarrow> stale_size l S5;
         if n = 0 then done_with_level V K (W\<lparr>fw_st := S5\<rparr>) else Some (W\<lparr>fw_st := S5\<rparr>) }
       else done_with_level V K (W\<lparr>fw_st := S4\<lparr>st_flevel := l + 1\<rparr>\<rparr>) }
     else send_fetch V K True (W\<lparr>fw_st := S3\<rparr>) }"

definition handle_Meta_data_d :: "senv \<Rightarrow> fcall \<Rightarrow> meta_data_d \<Rightarrow> fworld \<Rightarrow> fworld option" where
  "handle_Meta_data_d V K m W = do {
     let S = fw_st W;
     me \<leftarrow> i_to_p (fw_nd W) (node_id (fw_nd W));
     if st_fetching S \<and> mdd_rid m = last_fetch me \<and> int (st_flevel S) = mdd_l m then do {
       wp \<leftarrow> stale_high (st_flevel S) S;
       if int (fp_index wp) = mdd_i m \<and> mdd_ls m \<ge> st_lc S \<and> mdd_ls m \<ge> fp_lu wp then do {
         (added, C) \<leftarrow> mc_add (sv_b V) (fw_nd W) (Meta_data_d_verify (sv_b V) (sv_cr V) (sv_P V) (fw_nd W) m) m False (st_cert S);
         let S1 = S\<lparr>st_cert := C\<rparr>;
         if \<not> added then Some (W\<lparr>fw_st := S1\<rparr>)
         else do {
           let S2 = (if mc_ls C > st_lc S1 then S1\<lparr>st_keep_ckpts := False\<rparr> else S1);
           case mc_cvalue C of
             None \<Rightarrow> Some (W\<lparr>fw_st := S2\<rparr>)
           | Some (cc, cd) \<Rightarrow> accept_certified V K wp cc cd (W\<lparr>fw_st := S2\<rparr>) } }
       else Some W }
     else Some W }"

section \<open>Checking\<close>

definition start_check :: "senv \<Rightarrow> fcall \<Rightarrow> seqno \<Rightarrow> fworld \<Rightarrow> fworld option" where
  "start_check V K le W =
     start_fetch V K le (- 1) None
       (upd_st (\<lambda>S. S\<lparr>st_checking := True, st_refetch_level := PLevels (sv_P V), st_lchecked := - 1, st_check_start := st_lc S,
                      st_corrupt := False, st_poll_cnt := 16\<rparr>) W)"

text \<open>The inner loop of \<^verbatim>\<open>check_state\<close>: \<open>None\<close> for a corrupt block, which is fatal; the flag tells whether it stopped for messages.\<close>

function check_blocks :: "senv \<Rightarrow> fcall \<Rightarrow> int \<Rightarrow> int \<Rightarrow> state \<Rightarrow> (bool \<times> int \<times> state) option" where
  "check_blocks V K mx count S =
     (if st_lchecked S < mx then
        if st_poll_cnt S = 0 then None
        else if count smod st_poll_cnt S = 0 \<and> fk_has_messages K count then Some (True, count, S)
        else do {
          p \<leftarrow> get2 (st_ptree S) (top_level V) (nat (st_lchecked S));
          ok \<leftarrow> (if pt_lm p > st_check_start S then Some True else check_data V (nat (st_lchecked S)) S);
          if ok then check_blocks V K mx (count + 1) (S\<lparr>st_lchecked := st_lchecked S + 1\<rparr>) else th_fail }
      else Some (False, count, S))"
  by auto
termination
  by (relation "measure (\<lambda>(_, _, mx, _, S). nat (mx - st_lchecked S))") auto

declare check_blocks.simps [simp del]

text \<open>The outer loop, once for each queued partition.\<close>

fun check_parts :: "senv \<Rightarrow> fcall \<Rightarrow> nat \<Rightarrow> int \<Rightarrow> state \<Rightarrow> (bool \<times> state) option" where
  "check_parts V K 0 count S = Some (True, S)"
| "check_parts V K (Suc k) count S = do {
     cp \<leftarrow> arr_get (st_to_check S) 0;
     bs \<leftarrow> partition_blocks (sv_P V) (cp_level cp);
     let mn = int (cp_index cp * bs);
     let mx = min (mn + int bs) (int (nb S));
     let S1 = (if st_lchecked S < mn \<or> st_lchecked S \<ge> mx then S\<lparr>st_lchecked := mn\<rparr> else S);
     (stopped, count', S2) \<leftarrow> check_blocks V K mx count S1;
     if stopped then Some (False, S2)
     else check_parts V K k count' (S2\<lparr>st_to_check := butlast ((st_to_check S2)[0 := last (st_to_check S2)])\<rparr>) }"

definition check_state :: "senv \<Rightarrow> fcall \<Rightarrow> fworld \<Rightarrow> fworld option" where
  "check_state V K W = do {
     (finished, S) \<leftarrow> check_parts V K (length (st_to_check (fw_st W))) 1 (fw_st W);
     let W1 = W\<lparr>fw_st := S\<rparr>;
     if \<not> finished \<or> st_fetching S then Some W1
     else fk_try_end_recovery K (upd_st (\<lambda>S. S\<lparr>st_checking := False, st_refetch_level := 0\<rparr>) W1) }"

end
