(* ===== verification/State_Inv.thy ===== *)
theory State_Inv
  imports State_Ckpt
begin

text \<open>
  The invariant of the replicated state and what the operations on checkpoints do to it: the arrays have the sizes of
  the partition tree, every sum is the sum of the digests of the sub-partitions, every digest is the digest of its
  partition unless the partition was modified since the last checkpoint, and the records hold what the later
  checkpoints overwrote.
\<close>

section \<open>Two-dimensional arrays\<close>

lemma get2_Some: "get2 t l i = Some x \<longleftrightarrow> l < length t \<and> i < length (t ! l) \<and> x = t ! l ! i"
  by (auto simp: get2_def arr_get_def split: if_splits Option.bind_splits)

lemma get2_in [simp]: "l < length t \<Longrightarrow> i < length (t ! l) \<Longrightarrow> get2 t l i = Some (t ! l ! i)"
  by (simp add: get2_Some)

lemma set2_in [simp]: "l < length t \<Longrightarrow> i < length (t ! l) \<Longrightarrow> set2 t l i x = Some (t[l := (t ! l)[i := x]])"
  by (simp add: set2_def arr_get_def arr_set_def)

lemma nth2_update:
  "l < length t \<Longrightarrow> i < length (t ! l) \<Longrightarrow> t[l := (t ! l)[i := x]] ! k ! j = (if k = l \<and> j = i then x else t ! k ! j)"
  by (auto simp: nth_list_update)

lemma length2_update [simp]: "l < length t \<Longrightarrow> length (t[l := (t ! l)[i := x]] ! k) = length (t ! k)"
  by (auto simp: nth_list_update)

lemma get2_update:
  assumes "l < length t" "i < length (t ! l)"
  shows "get2 (t[l := (t ! l)[i := x]]) k j = (if k = l \<and> j = i then Some x else get2 t k j)"
  using assms by (cases "k < length t") (simp_all add: get2_def arr_get_def nth_list_update)

section \<open>The shape of the tree\<close>

text \<open>What \<^verbatim>\<open>partition::init\<close> establishes for a memory of \<open>N\<close> blocks (more than one).\<close>

definition shape_ok :: "nat \<Rightarrow> ptree_sizes \<Rightarrow> nat \<Rightarrow> bool" where
  "shape_ok PChildren P N \<longleftrightarrow> 2 \<le> PLevels P \<and> PLevels P \<le> length (PSize P) \<and> length (PLevelSize P) = length (PSize P) \<and>
     PSize P ! 0 = 1 \<and> PLevelSize P ! 0 = 1 \<and> PSize P ! (PLevels P - 1) = N \<and>
     (\<forall>l < PLevels P. 0 < PSize P ! l \<and> PSize P ! l \<le> PLevelSize P ! l) \<and>
     num_meta_for_blocks PChildren P N = sum_list (take (PLevels P - 1) (PSize P))"

lemma sum_list_take_less:
  fixes xs :: "nat list"
  assumes "l < k" "k \<le> length xs"
  shows "sum_list (take l xs) + xs ! l \<le> sum_list (take k xs)"
proof -
  have "take (Suc l) xs = take l xs @ [xs ! l]" using assms by (simp add: take_Suc_conv_app_nth)
  moreover have "take k xs = take (Suc l) xs @ drop (Suc l) (take k xs)"
    by (metis append_take_drop_id assms(1) min.absorb1 Suc_leI take_take)
  then have "sum_list (take (Suc l) xs) \<le> sum_list (take k xs)" by (metis le_add1 sum_list_append)
  ultimately show ?thesis by simp
qed

lemma find_partition_less:
  assumes "shape_ok pc P N" "l < PLevels P - 1" "i < PSize P ! l"
  shows "find_partition P l i < sum_list (take (PLevels P - 1) (PSize P))"
proof -
  have "PLevels P - 1 \<le> length (PSize P)" using assms(1) unfolding shape_ok_def by linarith
  from sum_list_take_less [OF assms(2) this] assms(3) show ?thesis by (simp add: find_partition_def)
qed

lemma find_partition_inj:
  assumes "shape_ok pc P N" "l < PLevels P" "i < PSize P ! l" "k < PLevels P" "j < PSize P ! k"
    and "find_partition P l i = find_partition P k j"
  shows "l = k \<and> i = j"
proof -
  have *: False if "l < k" "k < PLevels P" "i < PSize P ! l" "find_partition P l i = find_partition P k j" for l i k j
    using sum_list_take_less [of l k "PSize P"] that assms(1) by (auto simp: shape_ok_def find_partition_def)
  show ?thesis using * [of l k i j] * [of k l j i] assms(2-6) by (cases l k rule: linorder_cases) (auto simp: find_partition_def)
qed

section \<open>Records\<close>

definition rec_ok :: "ptree_sizes \<Rightarrow> nat \<Rightarrow> ck_rec \<Rightarrow> bool" where
  "rec_ok P N r \<longleftrightarrow> length (rc_parts r) = sum_list (take (PLevels P - 1) (PSize P)) \<and> length (rc_blocks r) = N \<and> 0 \<le> rc_num r \<and>
     (rc_num r = 0 \<longrightarrow> (\<forall>p \<in> set (rc_parts r). pt_lm p = - 1) \<and> (\<forall>p \<in> set (rc_blocks r). pt_lm p = - 1))"

text \<open>The partition that a record holds for an index, and the block copy.\<close>

definition rec_ent :: "ptree_sizes \<Rightarrow> ck_rec \<Rightarrow> nat \<Rightarrow> nat \<Rightarrow> part option" where
  "rec_ent P r l i = (case rec_fetch P l i r of Some (Some p) \<Rightarrow> Some p | _ \<Rightarrow> None)"

definition rec_blk :: "ck_rec \<Rightarrow> nat \<Rightarrow> block option" where
  "rec_blk r i = (case rec_fetch_block i r of Some (Some c) \<Rightarrow> Some (bc_data c) | _ \<Rightarrow> None)"

lemma rec_fetch_ent:
  assumes "shape_ok pc P N" "rec_ok P N r" "l < PLevels P" "i < PSize P ! l"
  shows "rec_fetch P l i r = Some (rec_ent P r l i)"
  using find_partition_less [OF assms(1), of l i] assms
  by (auto simp: rec_ent_def rec_fetch_def rec_fetch_block_def arr_get_def rec_ok_def shape_ok_def split: if_splits)

lemma rec_fetch_block_eq:
  assumes "rec_ok P N r" "i < N"
  shows "\<exists>c. rec_fetch_block i r = Some c \<and> map_option bc_data c = rec_blk r i \<and> map_option part.truncate c = rec_ent P r (PLevels P - 1) i"
  using assms by (auto simp: rec_blk_def rec_ent_def rec_fetch_def rec_fetch_block_def arr_get_def rec_ok_def)

lemma rec_append_ok:
  assumes "shape_ok pc P N" "rec_ok P N r" "l < PLevels P - 1" "i < PSize P ! l" "rec_ent P r l i = None" "pt_lm p \<noteq> - 1"
  shows "\<exists>r'. rec_append P l i p r = Some r' \<and> rec_ok P N r' \<and> rc_sd r' = rc_sd r \<and> rc_blocks r' = rc_blocks r \<and>
    (\<forall>k j. k < PLevels P \<longrightarrow> j < PSize P ! k \<longrightarrow> rec_ent P r' k j = (if k = l \<and> j = i then Some p else rec_ent P r k j))"
proof -
  let ?k = "find_partition P l i"
  have k: "?k < length (rc_parts r)" using find_partition_less [OF assms(1,3,4)] assms(2) by (simp add: rec_ok_def)
  have lm: "pt_lm (rc_parts r ! ?k) = - 1"
    using assms(3,5) k by (auto simp: rec_ent_def rec_fetch_def arr_get_def split: if_splits)
  let ?r = "r\<lparr>rc_parts := (rc_parts r)[?k := p], rc_num := rc_num r + 1\<rparr>"
  have "rec_append P l i p r = Some ?r" using k lm by (simp add: rec_append_def arr_get_def arr_set_def)
  moreover have "rec_ok P N ?r" using assms(2) by (auto simp: rec_ok_def)
  moreover have "rec_ent P ?r m j = (if m = l \<and> j = i then Some p else rec_ent P r m j)"
    if "m < PLevels P" "j < PSize P ! m" for m j
  proof (cases "m = PLevels P - 1")
    case True
    then show ?thesis using assms(3) by (simp add: rec_ent_def rec_fetch_def rec_fetch_block_def)
  next
    case False
    have "l < PLevels P" using assms(3) by simp
    then show ?thesis
      using False find_partition_inj [OF assms(1), of l i m j] assms(3,4,6) that k
      by (auto simp: rec_ent_def rec_fetch_def arr_get_def nth_list_update)
  qed
  ultimately show ?thesis by auto
qed

lemma rec_append_block_ok:
  assumes "rec_ok P N r" "i < N" "rec_ent P r (PLevels P - 1) i = None" "lm \<noteq> - 1"
  shows "\<exists>r'. rec_append_block i lm d blk r = Some r' \<and> rec_ok P N r' \<and> rc_sd r' = rc_sd r \<and> rc_parts r' = rc_parts r \<and>
    (\<forall>j. rec_blk r' j = (if j = i then Some blk else rec_blk r j)) \<and>
    (\<forall>k j. rec_ent P r' k j = (if k = PLevels P - 1 \<and> j = i then Some \<lparr>pt_lm = lm, pt_d = d\<rparr> else rec_ent P r k j))"
proof -
  have i: "i < length (rc_blocks r)" "pt_lm (rc_blocks r ! i) = - 1"
    using assms(1-3) by (auto simp: rec_ok_def rec_ent_def rec_fetch_def rec_fetch_block_def arr_get_def split: if_splits)
  let ?r = "r\<lparr>rc_blocks := (rc_blocks r)[i := \<lparr>pt_lm = lm, pt_d = d, bc_data = blk\<rparr>], rc_num := rc_num r + 1\<rparr>"
  have "rec_append_block i lm d blk r = Some ?r" using i by (simp add: rec_append_block_def arr_get_def arr_set_def)
  moreover have "rec_ok P N ?r" using assms(1) by (auto simp: rec_ok_def)
  moreover have "rec_blk ?r j = (if j = i then Some blk else rec_blk r j)" for j
    using i assms(4) by (auto simp: rec_blk_def rec_fetch_block_def arr_get_def nth_list_update)
  moreover have "rec_ent P ?r k j = (if k = PLevels P - 1 \<and> j = i then Some \<lparr>pt_lm = lm, pt_d = d\<rparr> else rec_ent P r k j)" for k j
    using i assms(4) by (auto simp: rec_ent_def rec_fetch_def rec_fetch_block_def arr_get_def nth_list_update part.defs)
  ultimately show ?thesis by auto
qed

lemma rec_ent_none:
  assumes "\<forall>p \<in> set (rc_parts r). pt_lm p = - 1" "\<forall>p \<in> set (rc_blocks r). pt_lm p = - 1"
  shows "rec_ent P r l i = None" "rec_blk r i = None"
proof -
  have "pt_lm (rc_parts r ! k) = - 1" if "k < length (rc_parts r)" for k using assms(1) nth_mem [OF that] by blast
  moreover have "pt_lm (rc_blocks r ! k) = - 1" if "k < length (rc_blocks r)" for k using assms(2) nth_mem [OF that] by blast
  ultimately show "rec_ent P r l i = None" "rec_blk r i = None"
    by (simp_all add: rec_ent_def rec_blk_def rec_fetch_def rec_fetch_block_def arr_get_def)
qed

text \<open>A cleared record has no entries, whether or not \<^verbatim>\<open>clear\<close> had anything to do.\<close>

lemma clear_lm_all: "k = length ps \<Longrightarrow> p \<in> set (clear_lm k ps) \<Longrightarrow> pt_lm p = - 1"
  by (auto simp: clear_lm_def)

lemma length_clear_lm [simp]: "length (clear_lm k ps) = length ps"
  by (auto simp: clear_lm_def)

lemma rec_ok_clear: "rec_ok P N r \<Longrightarrow> PSize P ! (PLevels P - 1) = N \<Longrightarrow> rec_ok P N (rec_clear P r)"
  unfolding rec_clear_def rec_ok_def
  using clear_lm_all [of "sum_list (take (PLevels P - 1) (PSize P))" "rc_parts r"] clear_lm_all [of N "rc_blocks r"] by auto

lemma cleared_empty:
  assumes "shape_ok pc P N" "rec_ok P N (rec_clear P r)"
  shows "rec_ent P (rec_clear P r) l i = None" "rec_blk (rec_clear P r) i = None"
proof -
  have "rc_num (rec_clear P r) = 0" by (simp add: rec_clear_def)
  with assms(2) have "\<forall>p \<in> set (rc_parts (rec_clear P r)). pt_lm p = - 1" "\<forall>p \<in> set (rc_blocks (rec_clear P r)). pt_lm p = - 1"
    by (simp_all add: rec_ok_def)
  then show "rec_ent P (rec_clear P r) l i = None" "rec_blk (rec_clear P r) i = None" using rec_ent_none by blast+
qed

section \<open>The log of records\<close>

text \<open>\<open>hash_good\<close>: SHA-256 gives eight words, and the first word of the digests in use is not zero: \<^verbatim>\<open>is_zero\<close> looks at that word
  only, and the state takes a record whose digest it calls zero for a cleared one.\<close>

definition hash_good :: "crypto \<Rightarrow> bool" where
  "hash_good cr \<longleftrightarrow> (\<forall>x. length (cr_hash cr x) = num_words \<and> \<not> is_zero (cr_hash cr x))"

definition env_good :: "senv \<Rightarrow> nat \<Rightarrow> bool" where
  "env_good V N \<longleftrightarrow> shape_ok (sv_children V) (sv_P V) N \<and> interval_ok (sv_b V) \<and> hash_good (sv_cr V) \<and>
     N + ChunkBits \<le> 2 ^ 32 \<and> (\<forall>l < PLevels (sv_P V). PLevelSize (sv_P V) ! l + ChunkBits \<le> 2 ^ 32)"

definition recs :: "senv \<Rightarrow> state \<Rightarrow> seqno \<Rightarrow> ck_rec option" where
  "recs V S n = crlog_lookup (sv_b V) (st_clog S) n"

definition log_good :: "senv \<Rightarrow> nat \<Rightarrow> ck_rec crlog \<Rightarrow> bool" where
  "log_good V N l \<longleftrightarrow> crlog_inv (sv_b V) l \<and> (\<forall>r \<in> set (cr_records l). rec_ok (sv_P V) N r)"

lemma crlog_fetch_mem: "crlog_fetch b l n = Some r \<Longrightarrow> r \<in> set (cr_records l)"
  by (auto simp: crlog_fetch_def arr_get_def split: if_splits Option.bind_splits)

lemma crlog_put_mem: "crlog_put b l n r = Some l' \<Longrightarrow> set (cr_records l') \<subseteq> insert r (set (cr_records l))"
  by (auto simp: crlog_put_def arr_set_def split: if_splits Option.bind_splits dest!: set_update_subset_insert [THEN subsetD])

lemma recs_ok: "log_good V N (st_clog S) \<Longrightarrow> recs V S n = Some r \<Longrightarrow> rec_ok (sv_P V) N r"
  by (auto simp: log_good_def recs_def crlog_lookup_def split: if_splits dest: crlog_fetch_mem)

lemma recs_fetch: "recs V S n = Some r \<Longrightarrow> crlog_fetch (sv_b V) (st_clog S) n = Some r"
  by (auto simp: recs_def crlog_lookup_def split: if_splits)

lemma recs_iff:
  "log_good V N (st_clog S) \<Longrightarrow> recs V S n \<noteq> None \<longleftrightarrow>
     checkpoint_interval (sv_b V) dvd n \<and> cr_head (st_clog S) \<le> n \<and> n \<le> cr_head (st_clog S) + max_out (sv_b V)"
  unfolding recs_def log_good_def using rk.lookup_iff [of "sv_b V" "st_clog S" n] by auto

lemma with_rec_ok:
  assumes "log_good V N (st_clog S)" "recs V S n = Some r" "f r = Some r'" "rec_ok (sv_P V) N r'"
  shows "\<exists>cl. with_rec V n f S = Some (S\<lparr>st_clog := cl\<rparr>) \<and> log_good V N cl \<and> cr_head cl = cr_head (st_clog S) \<and>
    recs V (S\<lparr>st_clog := cl\<rparr>) = (recs V S)(n \<mapsto> r')"
proof -
  have l: "crlog_inv (sv_b V) (st_clog S)" using assms(1) by (simp add: log_good_def)
  from rk.put_ok [OF l, of n r'] assms(2) obtain cl where cl: "crlog_put (sv_b V) (st_clog S) n r' = Some cl" "crlog_inv (sv_b V) cl"
    "cr_head cl = cr_head (st_clog S)" "crlog_lookup (sv_b V) cl = (crlog_lookup (sv_b V) (st_clog S))(n \<mapsto> r')"
    by (auto simp: recs_def)
  then have "log_good V N cl" using crlog_put_mem [OF cl(1)] assms(1,4) by (auto simp: log_good_def)
  with cl recs_fetch [OF assms(2)] assms(3) show ?thesis by (auto simp: with_rec_def recs_def fun_eq_iff)
qed

lemma recs_upd [simp]:
  "recs V (S\<lparr>st_ptree := a\<rparr>) = recs V S" "recs V (S\<lparr>st_stree := c\<rparr>) = recs V S" "recs V (S\<lparr>st_mem := d\<rparr>) = recs V S"
  "recs V (S\<lparr>st_cowb := e\<rparr>) = recs V S" "recs V (S\<lparr>st_lc := f\<rparr>) = recs V S"
  by (simp_all add: recs_def fun_eq_iff)

section \<open>The arrays\<close>

definition arrays_ok :: "senv \<Rightarrow> state \<Rightarrow> bool" where
  "arrays_ok V S \<longleftrightarrow> env_good V (nb S) \<and> log_good V (nb S) (st_clog S) \<and> bm_ok (st_cowb S) \<and> num (st_cowb S) = nb S \<and>
     length (st_ptree S) = PLevels (sv_P V) \<and>
     (\<forall>l < PLevels (sv_P V). length (st_ptree S ! l) = (if l = top_level V then nb S else PLevelSize (sv_P V) ! l)) \<and>
     length (st_stree S) = top_level V \<and> (\<forall>l < top_level V. length (st_stree S ! l) = PLevelSize (sv_P V) ! l) \<and>
     (\<forall>l < PLevels (sv_P V). \<forall>i < psize V l. 0 \<le> pt_lm (st_ptree S ! l ! i) \<and> length (pt_d (st_ptree S ! l ! i)) = num_words)"

lemma arrays_shape:
  assumes "arrays_ok V S"
  shows "shape_ok (sv_children V) (sv_P V) (nb S)" "2 \<le> PLevels (sv_P V)" "psize V (top_level V) = nb S" "0 < nb S"
    "l < PLevels (sv_P V) \<Longrightarrow> 0 < psize V l" "psize V 0 = 1" "top_level V < PLevels (sv_P V)"
proof -
  show s: "shape_ok (sv_children V) (sv_P V) (nb S)" using assms by (simp add: arrays_ok_def env_good_def)
  show "2 \<le> PLevels (sv_P V)" "psize V (top_level V) = nb S" "l < PLevels (sv_P V) \<Longrightarrow> 0 < psize V l" "psize V 0 = 1"
    using s by (simp_all add: shape_ok_def)
  then show t: "top_level V < PLevels (sv_P V)" by simp
  then have "0 < psize V (top_level V)" "psize V (top_level V) = nb S" using s unfolding shape_ok_def by blast+
  then show "0 < nb S" by (simp only:)
qed

lemma part_in:
  assumes "arrays_ok V S" "l < PLevels (sv_P V)" "i < psize V l"
  shows "get2 (st_ptree S) l i = Some (st_ptree S ! l ! i)" "l < length (st_ptree S)" "i < length (st_ptree S ! l)"
proof -
  have "i < length (st_ptree S ! l)"
    using assms arrays_shape(1) [OF assms(1)] by (auto simp: arrays_ok_def shape_ok_def intro: less_le_trans)
  then show "get2 (st_ptree S) l i = Some (st_ptree S ! l ! i)" "l < length (st_ptree S)" "i < length (st_ptree S ! l)"
    using assms by (simp_all add: arrays_ok_def)
qed

lemma sum_in:
  assumes "arrays_ok V S" "l < top_level V"
  shows "get2 (st_stree S) l 0 = Some (st_stree S ! l ! 0)" "l < length (st_stree S)" "0 < length (st_stree S ! l)"
proof -
  have "0 < psize V l" "psize V l \<le> PLevelSize (sv_P V) ! l" using arrays_shape(1) [OF assms(1)] assms(2) by (auto simp: shape_ok_def)
  then have "0 < PLevelSize (sv_P V) ! l" by simp
  then show i: "0 < length (st_stree S ! l)" using assms by (simp add: arrays_ok_def del: length_greater_0_conv)
  show l: "l < length (st_stree S)" using assms by (simp add: arrays_ok_def)
  show "get2 (st_stree S) l 0 = Some (st_stree S ! l ! 0)" by (rule get2_in [OF l i])
qed

lemma part_good:
  assumes "arrays_ok V S" "l < PLevels (sv_P V)" "i < psize V l"
  shows "0 \<le> pt_lm (st_ptree S ! l ! i)" "length (pt_d (st_ptree S ! l ! i)) = num_words"
  using assms by (simp_all add: arrays_ok_def)

text \<open>Only the first partition of an inner level has sub-partitions.\<close>

lemma parent_zero: "i < psize V l \<Longrightarrow> i div psize V l = 0"
  by simp

section \<open>Sums and digests\<close>

lemma be_val_snoc: "be_val (bs @ [b]) = be_val bs * 256 + uint b"
  by (simp add: be_val_def)

lemma be_val_bound: "0 \<le> be_val bs \<and> be_val bs < 256 ^ length bs"
proof (induction bs rule: rev_induct)
  case (snoc b bs)
  have "uint b < 256" using uint_bounded [of b] by simp
  with snoc show ?case by (simp add: be_val_snoc)
qed (simp add: be_val_def)

lemma digest_val_bound:
  assumes "length d = num_words"
  shows "0 \<le> digest_val d" "digest_val d < DSum_M"
proof -
  have "digest_val d < 256 ^ 32" "0 \<le> digest_val d"
    using be_val_bound [of "digest_bytes d"] assms by (simp_all add: digest_val_def length_digest_bytes num_words_def)
  then show "0 \<le> digest_val d" "digest_val d < DSum_M" by (simp_all add: DSum_M_def)
qed

text \<open>The sums stay below the modulus, and both operations are addition and subtraction modulo it.\<close>

lemma dsum_add_mod:
  assumes "0 \<le> s" "s < DSum_M" "length d = num_words"
  shows "dsum_add s d = Some ((s + digest_val d) mod DSum_M)"
proof -
  note v = digest_val_bound [OF assms(3)]
  have "(s + digest_val d) mod DSum_M = (if s + digest_val d \<ge> DSum_M then s + digest_val d - DSum_M else s + digest_val d)"
  proof (cases "s + digest_val d \<ge> DSum_M")
    case True
    then have "(s + digest_val d - DSum_M) mod DSum_M = s + digest_val d - DSum_M" using assms v by (intro mod_pos_pos_trivial) auto
    then show ?thesis using True by simp
  qed (use assms v in simp)
  moreover have "(s + digest_val d) mod DSum_M < 256 ^ DSum_nbytes"
    by (rule less_le_trans [OF pos_mod_bound]) (simp_all add: DSum_M_def DSum_nbytes_def)
  ultimately show ?thesis by (simp add: dsum_add_def)
qed

lemma dsum_sub_mod:
  assumes "0 \<le> s" "s < DSum_M" "length d = num_words"
  shows "dsum_sub s d = Some ((s - digest_val d) mod DSum_M)"
proof -
  note v = digest_val_bound [OF assms(3)]
  have "(s - digest_val d) mod DSum_M = (if s < digest_val d then s + DSum_M else s) - digest_val d"
  proof (cases "s < digest_val d")
    case True
    have "(s - digest_val d + DSum_M) mod DSum_M = s - digest_val d + DSum_M" using assms v True by (intro mod_pos_pos_trivial) auto
    then show ?thesis using True by simp
  qed (use assms v in simp)
  moreover have "(s - digest_val d) mod DSum_M > - 1" using pos_mod_sign [of DSum_M "s - digest_val d"] assms by linarith
  ultimately show ?thesis by (simp add: dsum_sub_def)
qed

lemma dsum_bytes_mod: "\<exists>bs. dsum_bytes (s mod DSum_M) = Some bs"
proof -
  have "s mod DSum_M < 256 ^ DSum_nbytes" by (rule less_le_trans [OF pos_mod_bound]) (simp_all add: DSum_M_def DSum_nbytes_def)
  then show ?thesis by (simp add: dsum_bytes_def)
qed

definition width :: "senv \<Rightarrow> state \<Rightarrow> nat \<Rightarrow> nat" where
  "width V S l = (if l = top_level V then nb S else 1)"

lemma width_upd [simp]:
  "width V (S\<lparr>st_clog := a\<rparr>) = width V S" "width V (S\<lparr>st_ptree := t\<rparr>) = width V S" "width V (S\<lparr>st_stree := u\<rparr>) = width V S"
  "width V (S\<lparr>st_cowb := c\<rparr>) = width V S" "width V (S\<lparr>st_lc := e\<rparr>) = width V S"
  by (simp_all add: width_def fun_eq_iff)

definition level_sum :: "senv \<Rightarrow> state \<Rightarrow> nat \<Rightarrow> int" where
  "level_sum V S l = (\<Sum>i < width V S l. digest_val (pt_d (st_ptree S ! l ! i))) mod DSum_M"

definition sums_ok :: "senv \<Rightarrow> state \<Rightarrow> bool" where
  "sums_ok V S \<longleftrightarrow> (\<forall>l < top_level V. st_stree S ! l ! 0 = level_sum V S (Suc l))"

definition hashed :: "senv \<Rightarrow> (nat \<times> nat) set \<Rightarrow> state \<Rightarrow> bool" where
  "hashed V X S \<longleftrightarrow> (\<forall>l < PLevels (sv_P V). \<forall>i < width V S l. (l, i) \<notin> X \<longrightarrow> part_digest V l i S = Some (pt_d (st_ptree S ! l ! i)))"

lemma level_sum_range: "0 \<le> level_sum V S l" "level_sum V S l < DSum_M"
  by (simp_all add: level_sum_def DSum_M_def)

lemma width_psize: "arrays_ok V S \<Longrightarrow> l < PLevels (sv_P V) \<Longrightarrow> width V S l \<le> psize V l"
  using arrays_shape(3,5) [of V S] by (auto simp: width_def intro: Suc_leI)

text \<open>Replacing one digest in a sum.\<close>

lemma sum_replace:
  assumes "(i :: nat) < w" "\<And>j. j < w \<Longrightarrow> j \<noteq> i \<Longrightarrow> g j = f j"
  shows "((sum f {..<w} mod M - f i) mod M + g i) mod M = sum g {..<w} mod (M :: int)"
proof -
  have "sum g {..<w} = g i + sum g ({..<w} - {i})" "sum f {..<w} = f i + sum f ({..<w} - {i})"
    using assms(1) sum.remove [of "{..<w}" i g] sum.remove [of "{..<w}" i f] by simp_all
  moreover have "sum g ({..<w} - {i}) = sum f ({..<w} - {i})" by (rule sum.cong) (use assms(2) in auto)
  ultimately have "sum g {..<w} = sum f {..<w} - f i + g i" by simp
  then show ?thesis by (simp add: mod_simps)
qed

end
