(* ===== verification/State_Update.thy ===== *)
theory State_Update
  imports State_Inv
begin

text \<open>
  What \<^verbatim>\<open>update_ptree\<close> does: it recomputes exactly the digests of the modified partitions and of their ancestors, keeps the
  sums of digests, and saves the replaced inner partitions in the record of the last checkpoint.
\<close>

section \<open>One partition\<close>

text \<open>\<open>Z\<close> is the set of partitions done so far. A partition that is not in \<open>Z\<close> has its former value; the digests that need
  not be right are those of the modified blocks and of the parents of the partitions in \<open>Z\<close>, unless they are done.\<close>

definition stale :: "senv \<Rightarrow> state \<Rightarrow> (nat \<times> nat) set \<Rightarrow> (nat \<times> nat) set" where
  "stale V S Z = ({top_level V} \<times> bm_set (st_cowb S) \<union> {(k, 0) | k. \<exists>i. (Suc k, i) \<in> Z}) - Z"

definition rec_updated :: "senv \<Rightarrow> state \<Rightarrow> (nat \<times> nat) set \<Rightarrow> ck_rec \<Rightarrow> ck_rec \<Rightarrow> bool" where
  "rec_updated V S0 Z r0 r \<longleftrightarrow> rc_blocks r = rc_blocks r0 \<and> rc_sd r = rc_sd r0 \<and>
     (\<forall>l < top_level V. \<forall>i < psize V l.
        rec_ent (sv_P V) r l i = (if (l, i) \<in> Z then Some (st_ptree S0 ! l ! i) else rec_ent (sv_P V) r0 l i))"

definition mods_ok :: "senv \<Rightarrow> state \<Rightarrow> (nat \<times> nat) set \<Rightarrow> bitmap list \<Rightarrow> bool" where
  "mods_ok V S0 Z mods \<longleftrightarrow> length mods = PLevels (sv_P V) \<and> mods ! top_level V = st_cowb S0 \<and>
     (\<forall>k < top_level V. bm_ok (mods ! k) \<and> num (mods ! k) = PLevelSize (sv_P V) ! k \<and>
        bm_set (mods ! k) = (if \<exists>i. (Suc k, i) \<in> Z then {0} else {}))"

definition updating :: "senv \<Rightarrow> seqno \<Rightarrow> state \<Rightarrow> (nat \<times> nat) set \<Rightarrow> state \<Rightarrow> bool" where
  "updating V n S0 Z S \<longleftrightarrow> arrays_ok V S \<and> (\<exists>cl pt st. S = S0\<lparr>st_clog := cl, st_ptree := pt, st_stree := st\<rparr>) \<and>
     cr_head (st_clog S) = cr_head (st_clog S0) \<and>
     (\<exists>r r0. recs V S0 (st_lc S0) = Some r0 \<and> recs V S = (recs V S0)(st_lc S0 \<mapsto> r) \<and> rec_updated V S0 Z r0 r) \<and>
     (\<forall>l < PLevels (sv_P V). \<forall>i < psize V l.
        if (l, i) \<in> Z then pt_lm (st_ptree S ! l ! i) = n else st_ptree S ! l ! i = st_ptree S0 ! l ! i) \<and>
     sums_ok V S \<and> hashed V (stale V S0 Z) S"

lemma arrays_ok_upd:
  assumes "arrays_ok V S" "l < PLevels (sv_P V)" "i < psize V l" "0 \<le> pt_lm p" "length (pt_d p) = num_words"
  shows "arrays_ok V (S\<lparr>st_ptree := (st_ptree S)[l := (st_ptree S ! l)[i := p]]\<rparr>)"
  using part_in [OF assms(1-3)] assms by (auto simp: arrays_ok_def nth2_update)

lemma arrays_ok_sum:
  "arrays_ok V S \<Longrightarrow> l < length (st_stree S) \<Longrightarrow> arrays_ok V (S\<lparr>st_stree := (st_stree S)[l := (st_stree S ! l)[i := x]]\<rparr>)"
  by (auto simp: arrays_ok_def)

lemma arrays_ok_clog:
  "arrays_ok V S \<Longrightarrow> log_good V (nb S) cl \<Longrightarrow> arrays_ok V (S\<lparr>st_clog := cl\<rparr>)"
  by (auto simp: arrays_ok_def)

lemma part_digest_total:
  assumes "arrays_ok V S" "sums_ok V S" "l < PLevels (sv_P V)" "i < width V S l"
  shows "\<exists>d. part_digest V l i S = Some d \<and> length d = num_words \<and> \<not> is_zero d"
proof -
  have h: "hash_good (sv_cr V)" using assms(1) by (simp add: arrays_ok_def env_good_def)
  have i: "i < psize V l" using width_psize [OF assms(1,3)] assms(4) by simp
  show ?thesis
  proof (cases "l = top_level V")
    case True
    then show ?thesis using h part_in [OF assms(1,3) i] assms(4)
      by (auto simp: part_digest_def width_def arr_get_def set_state_block_def hash_good_def)
  next
    case False
    then have l: "l < top_level V" "i = 0" using assms(3,4) by (auto simp: width_def)
    then have "st_stree S ! l ! 0 = level_sum V S (Suc l)" using assms(2) by (simp add: sums_ok_def)
    with dsum_bytes_mod obtain bs where "dsum_bytes (st_stree S ! l ! 0) = Some bs" by (auto simp: level_sum_def)
    then show ?thesis using h l part_in [OF assms(1,3) i] sum_in [OF assms(1) l(1)]
      by (simp add: part_digest_def set_state_block_def hash_good_def)
  qed
qed

text \<open>The digest of a partition depends on its block or sum and on its last modification only.\<close>

lemma part_digest_cong:
  assumes "st_mem S' = st_mem S" "l = top_level V \<or> get2 (st_stree S') l i = get2 (st_stree S) l i"
    and "map_option pt_lm (get2 (st_ptree S') l i) = map_option pt_lm (get2 (st_ptree S) l i)"
  shows "part_digest V l i S' = part_digest V l i S"
proof -
  have "(get2 (st_ptree S') l i \<bind> (\<lambda>p. f (pt_lm p))) = (get2 (st_ptree S) l i \<bind> (\<lambda>p. f (pt_lm p)))" for f :: "int \<Rightarrow> digest option"
    using assms(3) by (cases "get2 (st_ptree S') l i"; cases "get2 (st_ptree S) l i") auto
  note this [of "\<lambda>x. Some (set_state_block _ _ i x)"]
  with assms(1,2) show ?thesis unfolding part_digest_def by (auto intro!: Option.bind_cong)
qed

lemma updating_fields:
  assumes "updating V n S0 Z S"
  shows "st_mem S = st_mem S0" "st_cowb S = st_cowb S0" "st_lc S = st_lc S0" "width V S = width V S0"
  using assms by (auto simp: updating_def width_def fun_eq_iff)

lemma updating_part:
  assumes "updating V n S0 Z S" "l < PLevels (sv_P V)" "i < psize V l"
  shows "(l, i) \<in> Z \<Longrightarrow> pt_lm (st_ptree S ! l ! i) = n" "(l, i) \<notin> Z \<Longrightarrow> st_ptree S ! l ! i = st_ptree S0 ! l ! i"
proof -
  have "if (l, i) \<in> Z then pt_lm (st_ptree S ! l ! i) = n else st_ptree S ! l ! i = st_ptree S0 ! l ! i"
    using assms unfolding updating_def by blast
  then show "(l, i) \<in> Z \<Longrightarrow> pt_lm (st_ptree S ! l ! i) = n" "(l, i) \<notin> Z \<Longrightarrow> st_ptree S ! l ! i = st_ptree S0 ! l ! i"
    by simp_all
qed

lemma updating_arrays: "updating V n S0 Z S \<Longrightarrow> arrays_ok V S" "updating V n S0 Z S \<Longrightarrow> sums_ok V S"
    "updating V n S0 Z S \<Longrightarrow> hashed V (stale V S0 Z) S"
  by (simp_all add: updating_def)

text \<open>Saving the partition in the record; leaves were saved when they were first written.\<close>

lemma save_part:
  assumes U: "updating V n S0 Z S" and l: "l < PLevels (sv_P V)" "i < psize V l" "(l, i) \<notin> Z"
    and none: "recs V S0 (st_lc S0) = Some r0" "l < top_level V \<Longrightarrow> rec_ent (sv_P V) r0 l i = None"
  shows "\<exists>cl r1. (if l < top_level V then with_rec V (st_lc S) (rec_append (sv_P V) l i (st_ptree S ! l ! i)) S else Some S) = Some (S\<lparr>st_clog := cl\<rparr>) \<and>
    log_good V (nb S) cl \<and> cr_head cl = cr_head (st_clog S) \<and> recs V (S\<lparr>st_clog := cl\<rparr>) = (recs V S0)(st_lc S0 \<mapsto> r1) \<and>
    rec_updated V S0 (insert (l, i) Z) r0 r1"
proof -
  obtain r where r: "recs V S = (recs V S0)(st_lc S0 \<mapsto> r)" "rec_updated V S0 Z r0 r"
    using U none(1) by (auto simp: updating_def)
  have A: "arrays_ok V S" "log_good V (nb S) (st_clog S)" using U by (auto simp: updating_def arrays_ok_def)
  show ?thesis
  proof (cases "l < top_level V")
    case True
    have p: "st_ptree S ! l ! i = st_ptree S0 ! l ! i" "0 \<le> pt_lm (st_ptree S ! l ! i)"
      using updating_part(2) [OF U l] part_good(1) [OF A(1) l(1,2)] by simp_all
    have lc: "recs V S (st_lc S) = Some r" using r(1) updating_fields(3) [OF U] by simp
    have "rec_ent (sv_P V) r l i = None" using r(2) none(2) True l by (simp add: rec_updated_def)
    then obtain r1 where r1: "rec_append (sv_P V) l i (st_ptree S ! l ! i) r = Some r1" "rec_ok (sv_P V) (nb S) r1" "rc_sd r1 = rc_sd r"
      "rc_blocks r1 = rc_blocks r" and
      e: "\<And>k j. k < PLevels (sv_P V) \<Longrightarrow> j < psize V k \<Longrightarrow>
        rec_ent (sv_P V) r1 k j = (if k = l \<and> j = i then Some (st_ptree S ! l ! i) else rec_ent (sv_P V) r k j)"
      using rec_append_ok [OF arrays_shape(1) [OF A(1)] recs_ok [OF A(2) lc] True l(2), of "st_ptree S ! l ! i"] p(2) by auto
    from with_rec_ok [OF A(2) lc, of "rec_append (sv_P V) l i (st_ptree S ! l ! i)" r1, OF r1(1,2)] obtain cl where cl: "with_rec V (st_lc S) (rec_append (sv_P V) l i (st_ptree S ! l ! i)) S = Some (S\<lparr>st_clog := cl\<rparr>)"
      "log_good V (nb S) cl" "cr_head cl = cr_head (st_clog S)" "recs V (S\<lparr>st_clog := cl\<rparr>) = (recs V S)(st_lc S \<mapsto> r1)" by blast
    have "rec_updated V S0 (insert (l, i) Z) r0 r1"
      using r(2) r1(3,4) p(1) e unfolding rec_updated_def by auto
    with cl r(1) True updating_fields(3) [OF U] show ?thesis by (intro exI [of _ cl] exI [of _ r1]) simp
  next
    case False
    then have "rec_updated V S0 (insert (l, i) Z) r0 r" using r(2) by (auto simp: rec_updated_def)
    with False A(2) r(1) show ?thesis by (intro exI [of _ "st_clog S"] exI [of _ r]) simp
  qed
qed

lemma mods_insert:
  assumes "mods_ok V S0 Z mods" "1 \<le> l" "l < PLevels (sv_P V)" "env_good V N"
  shows "\<exists>m. arr_get mods (l - 1) = Some (mods ! (l - 1)) \<and> bm_insert (mods ! (l - 1)) 0 = Some m \<and> mods_ok V S0 (insert (l, i) Z) (mods[l - 1 := m])"
proof -
  have k: "l - 1 < top_level V" "Suc (l - 1) = l" using assms(2,3) by auto
  have "0 < psize V (l - 1) \<and> psize V (l - 1) \<le> PLevelSize (sv_P V) ! (l - 1)"
    using assms(3,4) k(1) by (simp add: env_good_def shape_ok_def)
  then have "0 < PLevelSize (sv_P V) ! (l - 1)" by linarith
  with assms(1) k(1) have m: "bm_ok (mods ! (l - 1))" "0 < num (mods ! (l - 1))" "l - 1 < length mods"
    "num (mods ! (l - 1)) = PLevelSize (sv_P V) ! (l - 1)" "bm_set (mods ! (l - 1)) \<subseteq> {0}"
    by (auto simp: mods_ok_def)
  from bm_insert_ok [OF m(1,2)] obtain m' where m': "bm_insert (mods ! (l - 1)) 0 = Some m'" "bm_ok m'" "num m' = num (mods ! (l - 1))"
    "bm_set m' = insert 0 (bm_set (mods ! (l - 1)))" by blast
  have "mods_ok V S0 (insert (l, i) Z) (mods[l - 1 := m'])"
    using assms(1) k m m'(2-4) unfolding mods_ok_def by (auto simp: nth_list_update)
  with m(3) m'(1) show ?thesis by (simp add: arr_get_def)
qed

lemma stale_insert:
  assumes "1 \<le> l" "(l - 1, 0) \<notin> Z"
  shows "stale V S Z - {(l, i)} \<subseteq> stale V S (insert (l, i) Z)" "(l - 1, 0) \<in> stale V S (insert (l, i) Z)"
proof -
  show "stale V S Z - {(l, i)} \<subseteq> stale V S (insert (l, i) Z)" unfolding stale_def by blast
  have "Suc (l - 1) = l" using assms(1) by simp
  then have "\<exists>j. (Suc (l - 1), j) \<in> insert (l, i) Z" "(l - 1, 0) \<noteq> (l, i)" using assms(1) by auto
  with assms(2) show "(l - 1, 0) \<in> stale V S (insert (l, i) Z)" unfolding stale_def by blast
qed

lemma upd_swap: "S\<lparr>st_clog := c, st_ptree := t, st_stree := u\<rparr> = S\<lparr>st_ptree := t, st_stree := u, st_clog := c\<rparr>"
  by (cases S) simp

text \<open>The new values: partition \<open>(l, i)\<close> gets modification \<open>n\<close> and digest \<open>d\<close>, and the sum above it is adjusted.\<close>

lemma sums_ok_replace:
  fixes n :: seqno and d :: digest
  assumes A: "arrays_ok V S" "sums_ok V S" and l: "1 \<le> l" "l < PLevels (sv_P V)" "i < width V S l"
  defines "t \<equiv> (st_ptree S)[l := (st_ptree S ! l)[i := \<lparr>pt_lm = n, pt_d = d\<rparr>]]"
    and "s2 \<equiv> ((st_stree S ! (l - 1) ! 0 - digest_val (pt_d (st_ptree S ! l ! i))) mod DSum_M + digest_val d) mod DSum_M"
  shows "sums_ok V (S\<lparr>st_clog := cl, st_ptree := t, st_stree := (st_stree S)[l - 1 := (st_stree S ! (l - 1))[0 := s2]]\<rparr>)" (is "sums_ok V ?S")
  unfolding sums_ok_def
proof (intro allI impI)
  fix k assume k: "k < top_level V"
  have l1: "l - 1 < top_level V" "Suc (l - 1) = l" using l by auto
  have i: "i < psize V l" using width_psize [OF A(1) l(2)] l(3) by simp
  note pin = part_in [OF A(1) l(2) i] and sin = sum_in [OF A(1) l1(1)]
  have d: "pt_d (t ! m ! j) = (if m = l \<and> j = i then d else pt_d (st_ptree S ! m ! j))" for m j
    using pin by (simp add: t_def nth2_update)
  have sk: "st_stree ?S ! k ! 0 = (if k = l - 1 then s2 else st_stree S ! k ! 0)" using sin by (simp add: nth2_update)
  show "st_stree ?S ! k ! 0 = level_sum V ?S (Suc k)"
  proof (cases "k = l - 1")
    case True
    have s0: "st_stree S ! (l - 1) ! 0 = (\<Sum>j < width V S l. digest_val (pt_d (st_ptree S ! l ! j))) mod DSum_M"
      using A(2) l1 by (auto simp: sums_ok_def level_sum_def)
    have "s2 = (\<Sum>j < width V S l. digest_val (pt_d (t ! l ! j))) mod DSum_M"
      using sum_replace [OF l(3), of "\<lambda>j. digest_val (pt_d (t ! l ! j))" "\<lambda>j. digest_val (pt_d (st_ptree S ! l ! j))" DSum_M]
      unfolding s2_def s0 by (simp add: d)
    then show ?thesis using True l1(2) sk by (simp add: level_sum_def)
  next
    case False
    then have "Suc k \<noteq> l" by simp
    then have "level_sum V ?S (Suc k) = level_sum V S (Suc k)" by (simp add: level_sum_def d)
    then show ?thesis using False sk A(2) k by (simp add: sums_ok_def)
  qed
qed

lemma updating_replace:
  assumes U: "updating V n S0 Z S" and l: "1 \<le> l" "l < PLevels (sv_P V)" "i < width V S0 l" "(l, i) \<notin> Z" "(l - 1, 0) \<notin> Z"
    and n: "0 \<le> n" and r: "recs V S0 (st_lc S0) = Some r0"
    and cl: "log_good V (nb S) cl" "cr_head cl = cr_head (st_clog S)" "recs V (S\<lparr>st_clog := cl\<rparr>) = (recs V S0)(st_lc S0 \<mapsto> r1)"
      "rec_updated V S0 (insert (l, i) Z) r0 r1"
    and d: "part_digest V l i (S\<lparr>st_ptree := (st_ptree S)[l := (st_ptree S ! l)[i := (st_ptree S ! l ! i)\<lparr>pt_lm := n\<rparr>]]\<rparr>) = Some d"
      "length d = num_words"
    and S': "S' = S\<lparr>st_clog := cl, st_ptree := (st_ptree S)[l := (st_ptree S ! l)[i := \<lparr>pt_lm = n, pt_d = d\<rparr>]],
      st_stree := (st_stree S)[l - 1 := (st_stree S ! (l - 1))[0 :=
        ((st_stree S ! (l - 1) ! 0 - digest_val (pt_d (st_ptree S ! l ! i))) mod DSum_M + digest_val d) mod DSum_M]]\<rparr>"
  shows "updating V n S0 (insert (l, i) Z) S'"
proof -
  note A = updating_arrays [OF U]
  have w: "width V S = width V S0" "width V S' = width V S0" using updating_fields(4) [OF U] by (simp_all add: S')
  have i: "i < psize V l" using width_psize [OF A(1) l(2)] l(3) w(1) by simp
  have l1: "l - 1 < top_level V" using l by auto
  note pin = part_in [OF A(1) l(2) i] and sin = sum_in [OF A(1) l1]
  have part: "st_ptree S' ! k ! j = (if k = l \<and> j = i then \<lparr>pt_lm = n, pt_d = d\<rparr> else st_ptree S ! k ! j)" for k j
    using pin by (simp add: S' nth2_update)
  have a1: "arrays_ok V (S\<lparr>st_ptree := (st_ptree S)[l := (st_ptree S ! l)[i := \<lparr>pt_lm = n, pt_d = d\<rparr>]]\<rparr>)"
    by (rule arrays_ok_upd [OF A(1) l(2) i]) (use n d(2) in simp_all)
  have ar: "arrays_ok V S'" unfolding S' upd_swap
    by (rule arrays_ok_clog) (use arrays_ok_sum [OF a1, of "l - 1" 0] sin(2) cl(1) in simp_all)
  have su: "sums_ok V S'" unfolding S' by (rule sums_ok_replace [OF A(1,2) l(1,2)]) (use l(3) w(1) in simp)
  have ha: "hashed V (stale V S0 (insert (l, i) Z)) S'"
    unfolding hashed_def
  proof (intro allI impI)
    fix k j assume k: "k < PLevels (sv_P V)" "j < width V S' k" "(k, j) \<notin> stale V S0 (insert (l, i) Z)"
    show "part_digest V k j S' = Some (pt_d (st_ptree S' ! k ! j))"
    proof (cases "(k, j) = (l, i)")
      case True
      have "l \<noteq> l - 1" using l(1) by simp
      have "part_digest V l i S' = part_digest V l i (S\<lparr>st_ptree := (st_ptree S)[l := (st_ptree S ! l)[i := (st_ptree S ! l ! i)\<lparr>pt_lm := n\<rparr>]]\<rparr>)"
        by (rule part_digest_cong) (use \<open>l \<noteq> l - 1\<close> in \<open>simp_all add: S' get2_update [OF pin(2,3)] get2_update [OF sin(2,3)] del: One_nat_def\<close>)
      then show ?thesis using True d part by simp
    next
      case False
      have "(k, j) \<noteq> (l - 1, 0)" "(k, j) \<notin> stale V S0 Z" using stale_insert [OF l(1,5)] k(3) False by blast+
      moreover have "k = top_level V \<or> j = 0" using k(2) w(2) by (auto simp: width_def split: if_splits)
      ultimately have "part_digest V k j S' = part_digest V k j S"
        by (intro part_digest_cong) (use False in \<open>auto simp: S' get2_update [OF pin(2,3)] get2_update [OF sin(2,3)] simp del: One_nat_def\<close>)
      then show ?thesis using A(3) k w False part \<open>(k, j) \<notin> stale V S0 Z\<close> by (auto simp: hashed_def)
    qed
  qed
  have pt: "if (k, j) \<in> insert (l, i) Z then pt_lm (st_ptree S' ! k ! j) = n else st_ptree S' ! k ! j = st_ptree S0 ! k ! j"
    if "k < PLevels (sv_P V)" "j < psize V k" for k j
    using updating_part [OF U that] part [of k j] by auto
  have "\<exists>cl pt st. S = S0\<lparr>st_clog := cl, st_ptree := pt, st_stree := st\<rparr>" using U unfolding updating_def by blast
  then have fr: "\<exists>cl pt st. S' = S0\<lparr>st_clog := cl, st_ptree := pt, st_stree := st\<rparr>" by (elim exE) (simp add: S', blast)
  have rc: "recs V S' = (recs V S0)(st_lc S0 \<mapsto> r1)" using cl(3) by (simp add: S' recs_def fun_eq_iff)
  have hd: "cr_head (st_clog S') = cr_head (st_clog S0)" using U cl(2) by (simp add: S' updating_def)
  show ?thesis unfolding updating_def using ar fr hd r rc cl(4) pt su ha by blast
qed

lemma update_part_step:
  assumes U: "updating V n S0 Z S" and M: "mods_ok V S0 Z mods"
    and l: "1 \<le> l" "l < PLevels (sv_P V)" "i < width V S0 l" "(l, i) \<notin> Z" "(l - 1, 0) \<notin> Z"
    and n: "0 \<le> n" and r: "recs V S0 (st_lc S0) = Some r0" "l < top_level V \<Longrightarrow> rec_ent (sv_P V) r0 l i = None"
  shows "\<exists>mods' S'. update_part V n l i (mods, S) = Some (mods', S') \<and> updating V n S0 (insert (l, i) Z) S' \<and>
    mods_ok V S0 (insert (l, i) Z) mods'"
proof -
  note A = updating_arrays [OF U]
  have i: "i < psize V l" "i < width V S l" using width_psize [OF A(1) l(2)] l(3) updating_fields(4) [OF U] by simp_all
  have l1: "l - 1 < top_level V" using l by auto
  have e: "env_good V (nb S)" using A(1) by (simp add: arrays_ok_def)
  note pin = part_in [OF A(1) l(2) i(1)] and sin = sum_in [OF A(1) l1] and pg = part_good [OF A(1) l(2) i(1)]
  obtain cl r1 where cl: "(if l < top_level V then with_rec V (st_lc S) (rec_append (sv_P V) l i (st_ptree S ! l ! i)) S else Some S) = Some (S\<lparr>st_clog := cl\<rparr>)"
    "log_good V (nb S) cl" "cr_head cl = cr_head (st_clog S)" "recs V (S\<lparr>st_clog := cl\<rparr>) = (recs V S0)(st_lc S0 \<mapsto> r1)"
    "rec_updated V S0 (insert (l, i) Z) r0 r1" using save_part [OF U l(2) i(1) l(4) r] by blast
  let ?t = "(st_ptree S)[l := (st_ptree S ! l)[i := (st_ptree S ! l ! i)\<lparr>pt_lm := n\<rparr>]]"
  have "arrays_ok V (S\<lparr>st_ptree := ?t\<rparr>)" by (rule arrays_ok_upd [OF A(1) l(2) i(1)]) (use n pg in simp_all)
  moreover have "pt_d (?t ! k ! j) = pt_d (st_ptree S ! k ! j)" for k j using nth2_update [OF pin(2,3)] by simp
  then have "sums_ok V (S\<lparr>st_ptree := ?t\<rparr>)" using A(2) by (simp add: sums_ok_def level_sum_def)
  moreover have "i < width V (S\<lparr>st_ptree := ?t\<rparr>) l" using i(2) by simp
  ultimately obtain d where d: "part_digest V l i (S\<lparr>st_ptree := ?t\<rparr>) = Some d" "length d = num_words"
    using part_digest_total [of V "S\<lparr>st_ptree := ?t\<rparr>" l i] l(2) by blast
  have d': "part_digest V l i (S\<lparr>st_clog := cl, st_ptree := ?t\<rparr>) = Some d"
    using d(1) part_digest_cong [of "S\<lparr>st_clog := cl, st_ptree := ?t\<rparr>" "S\<lparr>st_ptree := ?t\<rparr>"] by simp
  obtain m where m: "arr_get mods (l - 1) = Some (mods ! (l - 1))" "bm_insert (mods ! (l - 1)) 0 = Some m"
    "mods_ok V S0 (insert (l, i) Z) (mods[l - 1 := m])" using mods_insert [OF M l(1,2) e] by blast
  have s0: "0 \<le> st_stree S ! (l - 1) ! 0" "st_stree S ! (l - 1) ! 0 < DSum_M"
    using A(2) l1 level_sum_range by (auto simp: sums_ok_def)
  note ds = dsum_sub_mod [OF s0 pg(2)]
  have da: "dsum_add ((x - y) mod DSum_M) d = Some (((x - y) mod DSum_M + digest_val d) mod DSum_M)" for x y
    by (rule dsum_add_mod) (simp_all add: d(2) DSum_M_def)
  let ?S' = "S\<lparr>st_clog := cl, st_ptree := (st_ptree S)[l := (st_ptree S ! l)[i := \<lparr>pt_lm = n, pt_d = d\<rparr>]],
      st_stree := (st_stree S)[l - 1 := (st_stree S ! (l - 1))[0 :=
        ((st_stree S ! (l - 1) ! 0 - digest_val (pt_d (st_ptree S ! l ! i))) mod DSum_M + digest_val d) mod DSum_M]]\<rparr>"
  have "put_part l i ((st_ptree S ! l ! i)\<lparr>pt_lm := n\<rparr>) (S\<lparr>st_clog := cl\<rparr>) = Some (S\<lparr>st_clog := cl, st_ptree := ?t\<rparr>)"
    "put_part l i \<lparr>pt_lm = n, pt_d = d\<rparr> (S\<lparr>st_clog := cl, st_ptree := ?t\<rparr>) =
      Some (S\<lparr>st_clog := cl, st_ptree := (st_ptree S)[l := (st_ptree S ! l)[i := \<lparr>pt_lm = n, pt_d = d\<rparr>]]\<rparr>)"
    using pin(2,3) by (simp_all add: put_part_def)
  moreover have "put_sum (l - 1) 0 x (S\<lparr>st_clog := cl, st_ptree := t\<rparr>) =
      Some (S\<lparr>st_clog := cl, st_ptree := t, st_stree := (st_stree S)[l - 1 := (st_stree S ! (l - 1))[0 := x]]\<rparr>)" for x t
    unfolding put_sum_def using set2_in [OF sin(2,3)] by simp
  moreover have "get2 (st_stree (S\<lparr>st_clog := cl\<rparr>)) (l - 1) 0 = Some (st_stree S ! (l - 1) ! 0)" using sin(1) by simp
  ultimately have "update_part V n l i (mods, S) = Some (mods[l - 1 := m], ?S')"
    unfolding update_part_def Let_def prod.case pin(1) parent_zero [OF i(1)] bind.bind_lunit cl(1) using ds da d' m(1,2)
    by (simp only: bind.bind_lunit)
  with updating_replace [OF U l n r(1) cl(2-5) d refl] m(3) show ?thesis by blast
qed

section \<open>The levels\<close>

text \<open>The partitions of a level that are modified, and those of the levels below \<open>l\<close>.\<close>

definition modified :: "senv \<Rightarrow> state \<Rightarrow> nat \<Rightarrow> nat set" where
  "modified V S l = (if l = top_level V then bm_set (st_cowb S) else if bm_set (st_cowb S) = {} then {} else {0})"

definition below :: "senv \<Rightarrow> state \<Rightarrow> nat \<Rightarrow> (nat \<times> nat) set" where
  "below V S l = {(k, i). l < k \<and> k < PLevels (sv_P V) \<and> i \<in> modified V S k}"

lemma below_step: "1 \<le> l \<Longrightarrow> l < PLevels (sv_P V) \<Longrightarrow> below V S (l - 1) = below V S l \<union> {l} \<times> modified V S l"
  unfolding below_def by (cases l) (auto, (metis Suc_lessI)+)

lemma bm_set_num: "i \<in> bm_set b \<Longrightarrow> i < num b"
  by (simp add: bm_set_def)

lemma modified_width: "arrays_ok V S \<Longrightarrow> i \<in> modified V S l \<Longrightarrow> i < width V S l"
  by (auto simp: modified_def width_def arrays_ok_def dest: bm_set_num split: if_splits)

lemma mods_bits:
  assumes "arrays_ok V S0" "mods_ok V S0 (below V S0 l) mods" "l < PLevels (sv_P V)"
  shows "\<exists>is. arr_get mods l = Some (mods ! l) \<and> bits_of (mods ! l) = Some is \<and> distinct is \<and> set is = modified V S0 l"
proof -
  have b: "bm_ok (mods ! l)" "bm_set (mods ! l) = modified V S0 l" "l < length mods"
  proof -
    show "l < length mods" using assms(2,3) by (simp add: mods_ok_def)
    have "(\<exists>i. (Suc l, i) \<in> below V S0 l) \<longleftrightarrow> bm_set (st_cowb S0) \<noteq> {}" if "l < top_level V"
      using that by (auto simp: below_def modified_def)
    then show "bm_ok (mods ! l)" "bm_set (mods ! l) = modified V S0 l"
      using assms by (cases "l = top_level V"; auto simp: mods_ok_def modified_def arrays_ok_def)+
  qed
  have "wanted (mods ! l) True = bm_set (mods ! l)" by (auto simp: wanted_def bm_set_def)
  then have "bits_of (mods ! l) = Some (sorted_list_of_set (modified V S0 l))"
    using Iter_all_sorted [OF b(1), of True] b(2) by (simp add: bits_of_def)
  moreover have "finite (modified V S0 l)" using b(2) by (metis bm.finite_bits b(1))
  ultimately show ?thesis using b(3) by (auto simp: arr_get_def)
qed

lemma update_parts:
  assumes "updating V n S0 Z S" "mods_ok V S0 Z mods" "1 \<le> l" "l < PLevels (sv_P V)" "0 \<le> n"
    and "recs V S0 (st_lc S0) = Some r0" "\<And>l i. l < top_level V \<Longrightarrow> i < psize V l \<Longrightarrow> rec_ent (sv_P V) r0 l i = None"
    and "distinct is" "\<And>i. i \<in> set is \<Longrightarrow> i < width V S0 l \<and> i < psize V l \<and> (l, i) \<notin> Z" "(l - 1, 0) \<notin> Z"
  shows "\<exists>mods' S'. fold_opt (update_part V n l) is (mods, S) = Some (mods', S') \<and> updating V n S0 (Z \<union> {l} \<times> set is) S' \<and>
    mods_ok V S0 (Z \<union> {l} \<times> set is) mods'"
  using assms
proof (induction "is" arbitrary: Z mods S)
  case (Cons i js)
  have i: "i < width V S0 l" "(l, i) \<notin> Z" "i < psize V l" using Cons.prems(9) by auto
  obtain mods1 S1 where 1: "update_part V n l i (mods, S) = Some (mods1, S1)" "updating V n S0 (insert (l, i) Z) S1"
    "mods_ok V S0 (insert (l, i) Z) mods1"
    using update_part_step [OF Cons.prems(1-4) i(1,2) Cons.prems(10,5,6)] Cons.prems(7) i(3) by blast
  have "(l - 1, 0) \<notin> insert (l, i) Z" using Cons.prems(3,10) by auto
  moreover have "j < width V S0 l \<and> j < psize V l \<and> (l, j) \<notin> insert (l, i) Z" if "j \<in> set js" for j
    using Cons.prems(8,9) that by auto
  ultimately obtain mods' S' where "fold_opt (update_part V n l) js (mods1, S1) = Some (mods', S')"
    "updating V n S0 (insert (l, i) Z \<union> {l} \<times> set js) S'" "mods_ok V S0 (insert (l, i) Z \<union> {l} \<times> set js) mods'"
    using Cons.IH [OF 1(2,3) Cons.prems(3-7), of] Cons.prems(8) by auto
  moreover have "insert (l, i) Z \<union> {l} \<times> set js = Z \<union> {l} \<times> set (i # js)" by auto
  ultimately show ?case using 1(1) by simp
qed simp

lemma update_levels:
  assumes A: "arrays_ok V S0" and n: "0 \<le> n" and r: "recs V S0 (st_lc S0) = Some r0"
    "\<And>l i. l < top_level V \<Longrightarrow> i < psize V l \<Longrightarrow> rec_ent (sv_P V) r0 l i = None"
    and "updating V n S0 (below V S0 l) S" "mods_ok V S0 (below V S0 l) mods" "l < PLevels (sv_P V)"
  shows "\<exists>mods' S'. fold_opt (update_level V n) (rev [1..<Suc l]) (mods, S) = Some (mods', S') \<and> updating V n S0 (below V S0 0) S' \<and>
    mods_ok V S0 (below V S0 0) mods'"
  using assms(5-)
proof (induction l arbitrary: mods S)
  case (Suc l)
  have w: "i < width V S0 (Suc l) \<and> i < psize V (Suc l) \<and> (Suc l, i) \<notin> below V S0 (Suc l)" if "i \<in> modified V S0 (Suc l)" for i
    using modified_width [OF A that] width_psize [OF A Suc.prems(3)] by (auto simp: below_def)
  obtain js where js: "arr_get mods (Suc l) = Some (mods ! Suc l)" "bits_of (mods ! Suc l) = Some js" "distinct js"
    "set js = modified V S0 (Suc l)" using mods_bits [OF A Suc.prems(2,3)] by blast
  have z: "(Suc l - 1, 0) \<notin> below V S0 (Suc l)" by (simp add: below_def)
  have "below V S0 (Suc l) \<union> {Suc l} \<times> set js = below V S0 l" using below_step [of "Suc l" V S0] Suc.prems(3) js(4) by simp
  then obtain mods1 S1 where 1: "fold_opt (update_part V n (Suc l)) js (mods, S) = Some (mods1, S1)" "updating V n S0 (below V S0 l) S1"
    "mods_ok V S0 (below V S0 l) mods1"
    using update_parts [OF Suc.prems(1,2) _ Suc.prems(3) n r(1) _ js(3) _ z] r(2) w js(4) by auto
  then have "update_level V n (Suc l) (mods, S) = Some (mods1, S1)" using js by (simp add: update_level_def)
  moreover obtain mods' S' where "fold_opt (update_level V n) (rev [1..<Suc l]) (mods1, S1) = Some (mods', S')"
    "updating V n S0 (below V S0 0) S'" "mods_ok V S0 (below V S0 0) mods'" using Suc.IH [OF 1(2,3)] Suc.prems(3) by auto
  ultimately show ?case by simp
qed auto

section \<open>The root and the whole tree\<close>

lemma update_root_ok:
  assumes U: "updating V n S0 Z S" and l: "(0, 0) \<notin> Z" "0 \<le> n" and r: "recs V S0 (st_lc S0) = Some r0" "rec_ent (sv_P V) r0 0 0 = None"
  shows "\<exists>S'. update_root V n S = Some S' \<and> updating V n S0 (insert (0, 0) Z) S'"
proof -
  note A = updating_arrays [OF U]
  have L: "0 < top_level V" "0 < PLevels (sv_P V)" "0 < psize V 0" using arrays_shape [OF A(1)] by auto
  have w: "0 < width V S 0" using L by (simp add: width_def)
  note pin = part_in [OF A(1) L(2,3)] and pg = part_good [OF A(1) L(2,3)]
  obtain cl r1 where cl: "with_rec V (st_lc S) (rec_append (sv_P V) 0 0 (st_ptree S ! 0 ! 0)) S = Some (S\<lparr>st_clog := cl\<rparr>)"
    "log_good V (nb S) cl" "cr_head cl = cr_head (st_clog S)" "recs V (S\<lparr>st_clog := cl\<rparr>) = (recs V S0)(st_lc S0 \<mapsto> r1)"
    "rec_updated V S0 (insert (0, 0) Z) r0 r1" using save_part [OF U L(2,3) l(1) r(1)] L(1) r(2) by auto
  let ?t = "(st_ptree S)[0 := (st_ptree S ! 0)[0 := (st_ptree S ! 0 ! 0)\<lparr>pt_lm := n\<rparr>]]"
  have "arrays_ok V (S\<lparr>st_ptree := ?t\<rparr>)" by (rule arrays_ok_upd [OF A(1) L(2,3)]) (use l(2) pg in simp_all)
  moreover have "pt_d (?t ! k ! j) = pt_d (st_ptree S ! k ! j)" for k j using nth2_update [OF pin(2,3)] by simp
  then have "sums_ok V (S\<lparr>st_ptree := ?t\<rparr>)" using A(2) by (simp add: sums_ok_def level_sum_def)
  ultimately obtain d where d: "part_digest V 0 0 (S\<lparr>st_ptree := ?t\<rparr>) = Some d" "length d = num_words"
    using part_digest_total [of V "S\<lparr>st_ptree := ?t\<rparr>" 0 0] L(2) w by auto
  have d': "part_digest V 0 0 (S\<lparr>st_clog := cl, st_ptree := ?t\<rparr>) = Some d"
    using d(1) part_digest_cong [of "S\<lparr>st_clog := cl, st_ptree := ?t\<rparr>" "S\<lparr>st_ptree := ?t\<rparr>"] by simp
  define S' where S': "S' = S\<lparr>st_ptree := (st_ptree S)[0 := (st_ptree S ! 0)[0 := \<lparr>pt_lm = n, pt_d = d\<rparr>]], st_clog := cl\<rparr>"
  have e: "S\<lparr>st_clog := cl, st_ptree := t\<rparr> = S\<lparr>st_ptree := t, st_clog := cl\<rparr>" for t by (cases S) simp
  have "update_root V n S = Some S'"
    unfolding update_root_def pin(1) using cl(1) d' pin(2,3) by (simp add: put_part_def S' e del: length_greater_0_conv)
  moreover have "updating V n S0 (insert (0, 0) Z) S'"
  proof -
    have part: "st_ptree S' ! k ! j = (if k = 0 \<and> j = 0 then \<lparr>pt_lm = n, pt_d = d\<rparr> else st_ptree S ! k ! j)" for k j
      using nth2_update [OF pin(2,3)] by (simp add: S')
    have "arrays_ok V (S\<lparr>st_ptree := (st_ptree S)[0 := (st_ptree S ! 0)[0 := \<lparr>pt_lm = n, pt_d = d\<rparr>]]\<rparr>)"
      by (rule arrays_ok_upd [OF A(1) L(2,3)]) (use l(2) d(2) in simp_all)
    then have ar: "arrays_ok V S'" unfolding S' by (rule arrays_ok_clog) (use cl(2) in simp)
    have su: "sums_ok V S'" using A(2) by (simp add: sums_ok_def level_sum_def part) (simp add: S')
    have ha: "hashed V (stale V S0 (insert (0, 0) Z)) S'"
      unfolding hashed_def
    proof (intro allI impI)
      fix k j assume k: "k < PLevels (sv_P V)" "j < width V S' k" "(k, j) \<notin> stale V S0 (insert (0, 0) Z)"
      show "part_digest V k j S' = Some (pt_d (st_ptree S' ! k ! j))"
      proof (cases "(k, j) = (0, 0)")
        case True
        have "part_digest V 0 0 S' = part_digest V 0 0 (S\<lparr>st_ptree := ?t\<rparr>)"
          by (rule part_digest_cong) (simp_all add: S' get2_update [OF pin(2,3)])
        then show ?thesis using True d part by simp
      next
        case False
        then have "part_digest V k j S' = part_digest V k j S" by (intro part_digest_cong) (auto simp: S' get2_update [OF pin(2,3)])
        moreover have "(k, j) \<notin> stale V S0 Z" using k(3) False unfolding stale_def by blast
        ultimately show ?thesis using A(3) k False part by (auto simp: hashed_def S')
      qed
    qed
    have pt: "if (k, j) \<in> insert (0, 0) Z then pt_lm (st_ptree S' ! k ! j) = n else st_ptree S' ! k ! j = st_ptree S0 ! k ! j"
      if "k < PLevels (sv_P V)" "j < psize V k" for k j
      using updating_part [OF U that] part [of k j] by auto
    obtain c0 p0 s0 where S: "S = S0\<lparr>st_clog := c0, st_ptree := p0, st_stree := s0\<rparr>" using U unfolding updating_def by blast
    have "S' = S0\<lparr>st_clog := cl, st_ptree := st_ptree S', st_stree := s0\<rparr>" by (cases S0) (simp add: S' S)
    then have fr: "\<exists>cl pt st. S' = S0\<lparr>st_clog := cl, st_ptree := pt, st_stree := st\<rparr>" by blast
    have rc: "recs V S' = (recs V S0)(st_lc S0 \<mapsto> r1)" using cl(4) by (simp add: S' recs_def fun_eq_iff)
    have hd: "cr_head (st_clog S') = cr_head (st_clog S0)" using U cl(3) by (simp add: S' updating_def)
    show ?thesis unfolding updating_def using ar fr hd r(1) rc cl(5) pt su ha by blast
  qed
  ultimately show ?thesis by blast
qed

end
