(* ===== verification/State_Snap.thy ===== *)
theory State_Snap
  imports State_Update
begin

text \<open>
  Checkpoints keep what they saw: the tree of digests after a checkpoint, and the values of blocks and partitions at
  every checkpoint of the log.
\<close>

section \<open>The tree after a checkpoint\<close>

text \<open>The state before: everything is consistent except the digests of the modified blocks.\<close>

definition tree_ok :: "senv \<Rightarrow> state \<Rightarrow> bool" where
  "tree_ok V S \<longleftrightarrow> arrays_ok V S \<and> sums_ok V S \<and> hashed V ({top_level V} \<times> bm_set (st_cowb S)) S"

definition touched :: "senv \<Rightarrow> state \<Rightarrow> (nat \<times> nat) set" where
  "touched V S = {(k, i). k < PLevels (sv_P V) \<and> i \<in> modified V S k}"

lemma updating_start:
  assumes "tree_ok V S" "recs V S (st_lc S) = Some r0"
  shows "updating V n S {} S"
proof -
  have x: "\<exists>cl pt st. S = S\<lparr>st_clog := cl, st_ptree := pt, st_stree := st\<rparr>"
    by (rule exI [of _ "st_clog S"], rule exI [of _ "st_ptree S"], rule exI [of _ "st_stree S"]) simp
  have "rec_updated V S {} r0 r0" "recs V S = (recs V S)(st_lc S \<mapsto> r0)" using assms(2) by (auto simp: rec_updated_def)
  with assms(2) have y: "\<exists>r r0. recs V S (st_lc S) = Some r0 \<and> recs V S = (recs V S)(st_lc S \<mapsto> r) \<and> rec_updated V S {} r0 r" by blast
  have z: "stale V S {} = {top_level V} \<times> bm_set (st_cowb S)" by (auto simp: stale_def)
  have "if (l, i) \<in> {} then pt_lm (st_ptree S ! l ! i) = n else st_ptree S ! l ! i = st_ptree S ! l ! i" for l i by simp
  then show ?thesis unfolding updating_def z using assms(1) x y unfolding tree_ok_def by blast
qed

lemma mods_start:
  assumes "arrays_ok V S"
  shows "mods_ok V S {} (map (\<lambda>l. Bitmap_new (PLevelSize (sv_P V) ! l) False) [0..<top_level V] @ [st_cowb S])"
proof -
  have "bm_ok (Bitmap_new (PLevelSize (sv_P V) ! k) False) \<and> num (Bitmap_new (PLevelSize (sv_P V) ! k) False) = PLevelSize (sv_P V) ! k \<and>
      bm_set (Bitmap_new (PLevelSize (sv_P V) ! k) False) = {}" if "k < top_level V" for k
    using Bitmap_new_ok [of "PLevelSize (sv_P V) ! k" False] assms that by (simp add: arrays_ok_def env_good_def)
  then show ?thesis using arrays_shape(7) [OF assms] unfolding mods_ok_def by (simp add: nth_append)
qed

lemma root_modified:
  assumes "arrays_ok V S" "mods_ok V S (below V S 0) mods"
  shows "\<exists>m. arr_get mods 0 = Some m \<and> bm_test m 0 = Some (bm_set (st_cowb S) \<noteq> {})"
proof -
  have L: "0 < top_level V" "top_level V < PLevels (sv_P V)" using arrays_shape [OF assms(1)] by auto
  have "PLevelSize (sv_P V) ! 0 = 1" using arrays_shape(1) [OF assms(1)] by (simp add: shape_ok_def)
  then have z: "bm_ok (mods ! 0)" "num (mods ! 0) = 1" "bm_set (mods ! 0) = (if \<exists>i. (Suc 0, i) \<in> below V S 0 then {0} else {})"
    using assms(2) L(1) by (simp_all add: mods_ok_def)
  have "(\<exists>i. (Suc 0, i) \<in> below V S 0) \<longleftrightarrow> bm_set (st_cowb S) \<noteq> {}" using L(1) by (auto simp: below_def modified_def)
  then have "bm_test (mods ! 0) 0 = Some (bm_set (st_cowb S) \<noteq> {})" using bm_test_set [OF z(1), of 0] z(2,3) by auto
  moreover have "arr_get mods 0 = Some (mods ! 0)" using assms(2) L by (simp add: mods_ok_def arr_get_def)
  ultimately show ?thesis by blast
qed

lemma stale_touched:
  assumes "0 < top_level V"
  shows "stale V S (touched V S) = {}"
proof -
  have "i \<in> bm_set (st_cowb S) \<Longrightarrow> (top_level V, i) \<in> touched V S" for i using assms by (auto simp: touched_def modified_def)
  moreover have "(Suc k, i) \<in> touched V S \<Longrightarrow> (k, 0) \<in> touched V S" for k i
    by (auto simp: touched_def modified_def split: if_splits)
  ultimately show ?thesis by (auto simp: stale_def)
qed

lemma touched_root:
  assumes "0 < top_level V" "bm_set (st_cowb S) \<noteq> {}"
  shows "insert (0, 0) (below V S 0) = touched V S"
proof -
  have "modified V S 0 = {0}" using assms by (simp add: modified_def)
  then have "x \<in> insert (0, 0) (below V S 0) \<longleftrightarrow> x \<in> touched V S" for x
    using assms(1) by (cases x; cases "fst x") (simp_all add: below_def touched_def)
  then show ?thesis by blast
qed

lemma update_ptree_ok:
  assumes T: "tree_ok V S" and n: "0 \<le> n" and r: "recs V S (st_lc S) = Some r0"
    "\<And>l i. l < top_level V \<Longrightarrow> i < psize V l \<Longrightarrow> rec_ent (sv_P V) r0 l i = None"
  shows "\<exists>S'. update_ptree V n S = Some S' \<and> updating V n S (touched V S) S' \<and> hashed V {} S'"
proof -
  have A: "arrays_ok V S" using T by (simp add: tree_ok_def)
  have L: "0 < top_level V" "top_level V < PLevels (sv_P V)" "0 < psize V 0" "Suc (top_level V) = PLevels (sv_P V)"
    using arrays_shape(2,5,6) [OF A] by linarith+
  let ?mods = "map (\<lambda>l. Bitmap_new (PLevelSize (sv_P V) ! l) False) [0..<top_level V] @ [st_cowb S]"
  have b0: "below V S (top_level V) = {}" by (auto simp: below_def)
  obtain mods' S1 where 1: "fold_opt (update_level V n) (rev [1..<PLevels (sv_P V)]) (?mods, S) = Some (mods', S1)"
    "updating V n S (below V S 0) S1" "mods_ok V S (below V S 0) mods'"
    using update_levels [OF A n r, of "top_level V" S ?mods, unfolded b0 L(4), OF _ _ updating_start [OF T r(1)] mods_start [OF A] L(2)]
    by blast
  obtain m where m: "arr_get mods' 0 = Some m" "bm_test m 0 = Some (bm_set (st_cowb S) \<noteq> {})" using root_modified [OF A 1(3)] by blast
  have f: "crlog_fetch (sv_b V) (st_clog S) (st_lc S) = Some r0" by (rule recs_fetch [OF r(1)])
  have eq: "update_ptree V n S = (if bm_set (st_cowb S) \<noteq> {} then update_root V n S1 else Some S1)"
    unfolding update_ptree_def Let_def f bind.bind_lunit 1(1) prod.case m(1) m(2) by simp
  have h: "hashed V {} S'" if "updating V n S (touched V S) S'" for S'
    using updating_arrays(3) [OF that] stale_touched [OF L(1)] by simp
  show ?thesis
  proof (cases "bm_set (st_cowb S) = {}")
    case True
    then have "modified V S k = {}" for k by (simp add: modified_def)
    then have b: "below V S 0 = touched V S" by (simp add: below_def touched_def)
    have "update_ptree V n S = Some S1" using eq True by (simp only: simp_thms if_False)
    with 1(2) h [of S1] show ?thesis unfolding b by blast
  next
    case False
    have z: "(0, 0) \<notin> below V S 0" by (simp add: below_def)
    obtain S' where S': "update_root V n S1 = Some S'" "updating V n S (insert (0, 0) (below V S 0)) S'"
      using update_root_ok [OF 1(2) z n r(1) r(2) [OF L(1,3)]] by blast
    have "update_ptree V n S = Some S'" using eq False S'(1) by (simp only: simp_thms if_True)
    with S'(2) h [of S'] show ?thesis unfolding touched_root [OF L(1) False] by blast
  qed
qed

lemma hashed_upd:
  assumes "hashed V X S" "st_mem S' = st_mem S" "st_ptree S' = st_ptree S" "st_stree S' = st_stree S"
  shows "hashed V X S'"
proof -
  have "part_digest V l i S' = part_digest V l i S" for l i by (rule part_digest_cong) (simp_all add: assms)
  moreover have "width V S' = width V S" by (simp add: width_def fun_eq_iff assms(2))
  ultimately show ?thesis using assms(1,3) by (simp add: hashed_def)
qed

lemma sums_ok_upd:
  assumes "sums_ok V S" "st_mem S' = st_mem S" "st_ptree S' = st_ptree S" "st_stree S' = st_stree S"
  shows "sums_ok V S'"
  using assms by (simp add: sums_ok_def level_sum_def width_def)

lemma root_digest:
  assumes "arrays_ok V S" "sums_ok V S" "hashed V {} S"
  shows "\<not> is_zero (pt_d (st_ptree S ! 0 ! 0))" "get2 (st_ptree S) 0 0 = Some (st_ptree S ! 0 ! 0)"
proof -
  have L: "0 < top_level V" "0 < PLevels (sv_P V)" "0 < psize V 0" using arrays_shape [OF assms(1)] by auto
  then have w: "0 < width V S 0" by (simp add: width_def)
  have "part_digest V 0 0 S = Some (pt_d (st_ptree S ! 0 ! 0))" using assms(3) L(2) w by (simp add: hashed_def)
  with part_digest_total [OF assms(1,2) L(2) w] show "\<not> is_zero (pt_d (st_ptree S ! 0 ! 0))" by auto
  show "get2 (st_ptree S) 0 0 = Some (st_ptree S ! 0 ! 0)" by (rule part_in(1) [OF assms(1) L(2,3)])
qed

text \<open>A checkpoint returns; the digests of all partitions are right afterwards and no block is modified.\<close>

lemma state_checkpoint_ok:
  assumes T: "tree_ok V S" and n: "0 \<le> n" and r: "recs V S (st_lc S) = Some r0"
    "\<And>l i. l < top_level V \<Longrightarrow> i < psize V l \<Longrightarrow> rec_ent (sv_P V) r0 l i = None" and rn: "recs V S n \<noteq> None"
  shows "\<exists>S' r1 r2. state_checkpoint V n S = Some S' \<and> tree_ok V S' \<and> bm_set (st_cowb S') = {} \<and> st_lc S' = n \<and> st_mem S' = st_mem S \<and>
    st_fetching S' = st_fetching S \<and> cr_head (st_clog S') = cr_head (st_clog S) \<and> rec_updated V S (touched V S) r0 r1 \<and>
    ((recs V S)(st_lc S \<mapsto> r1)) n = Some r2 \<and> recs V S' = (recs V S)(st_lc S \<mapsto> r1, n \<mapsto> r2\<lparr>rc_sd := pt_d (st_ptree S' ! 0 ! 0)\<rparr>) \<and>
    \<not> is_zero (pt_d (st_ptree S' ! 0 ! 0)) \<and>
    (\<forall>l < PLevels (sv_P V). \<forall>i < psize V l. if (l, i) \<in> touched V S then pt_lm (st_ptree S' ! l ! i) = n else st_ptree S' ! l ! i = st_ptree S ! l ! i)"
proof -
  obtain S1 where S1: "update_ptree V n S = Some S1" "updating V n S (touched V S) S1" "hashed V {} S1"
    using update_ptree_ok [OF T n r] by blast
  note A = updating_arrays [OF S1(2)] and F = updating_fields [OF S1(2)]
  obtain r1 where r1: "recs V S1 = (recs V S)(st_lc S \<mapsto> r1)" "rec_updated V S (touched V S) r0 r1"
    using S1(2) r(1) by (auto simp: updating_def)
  have "recs V S1 n \<noteq> None" using rn r1(1) by (cases "n = st_lc S") simp_all
  then obtain r2 where r2: "recs V S1 n = Some r2" by blast
  note root = root_digest [OF A(1,2) S1(3)]
  let ?d = "pt_d (st_ptree S1 ! 0 ! 0)"
  have lg: "log_good V (nb S1) (st_clog S1)" using A(1) by (simp add: arrays_ok_def)
  have "rec_ok (sv_P V) (nb S1) (r2\<lparr>rc_sd := ?d\<rparr>)" using recs_ok [OF lg r2] by (simp add: rec_ok_def)
  then obtain cl where cl: "with_rec V n (\<lambda>r. Some (r\<lparr>rc_sd := ?d\<rparr>)) (S1\<lparr>st_lc := n\<rparr>) = Some (S1\<lparr>st_lc := n, st_clog := cl\<rparr>)"
    "log_good V (nb S1) cl" "cr_head cl = cr_head (st_clog S1)" "recs V (S1\<lparr>st_lc := n, st_clog := cl\<rparr>) = (recs V S1)(n \<mapsto> r2\<lparr>rc_sd := ?d\<rparr>)"
    using with_rec_ok [of V "nb S1" "S1\<lparr>st_lc := n\<rparr>" n r2 "\<lambda>r. Some (r\<lparr>rc_sd := ?d\<rparr>)"] lg r2 by auto
  let ?S = "S1\<lparr>st_lc := n, st_clog := cl, st_cowb := bm_clear (st_cowb S1)\<rparr>"
  have bm: "bm_ok (st_cowb S1)" "num (st_cowb S1) = nb S1" using A(1) by (simp_all add: arrays_ok_def)
  have "arrays_ok V ?S" using A(1) cl(2) bm_clear_ok [OF bm(1)] bm(2) by (simp add: arrays_ok_def)
  moreover have "sums_ok V ?S" by (rule sums_ok_upd [OF A(2)]) simp_all
  moreover have "hashed V {} ?S" by (rule hashed_upd [OF S1(3)]) simp_all
  ultimately have "tree_ok V ?S" using bm_clear_ok [OF bm(1)] by (simp add: tree_ok_def)
  moreover have "state_checkpoint V n S = Some ?S" unfolding state_checkpoint_def S1(1) Let_def bind.bind_lunit using root(2) cl(1) by simp
  moreover have "recs V ?S = (recs V S1)(n \<mapsto> r2\<lparr>rc_sd := ?d\<rparr>)" using cl(4) by simp
  moreover have "st_fetching S1 = st_fetching S" "cr_head (st_clog S1) = cr_head (st_clog S)" using S1(2) by (auto simp: updating_def)
  moreover have "if (l, i) \<in> touched V S then pt_lm (st_ptree S1 ! l ! i) = n else st_ptree S1 ! l ! i = st_ptree S ! l ! i"
    if "l < PLevels (sv_P V)" "i < psize V l" for l i using updating_part [OF S1(2) that] by simp
  ultimately show ?thesis
    using r1 r2 root(1) F(1) cl(3) bm_clear_ok [OF bm(1)] by (intro exI [of _ ?S] exI [of _ r1] exI [of _ r2]) simp
qed

end
