(* ===== verification/State_History.thy ===== *)
theory State_History
  imports State_Snap
begin

text \<open>
  Checkpoints keep what they saw: \<^verbatim>\<open>get_data\<close> and \<^verbatim>\<open>get_meta_data\<close> answer for every checkpoint of the log with the block and
  the partition as they were when that checkpoint was taken, and \<^verbatim>\<open>rollback\<close> restores the memory of the last one.
\<close>

section \<open>First entries\<close>

text \<open>\<open>f r\<close> is what the record of checkpoint \<open>r\<close> holds of an object that now is \<open>x\<close>; \<open>keeps f c x p\<close>: at checkpoint \<open>c\<close> it was \<open>p\<close>.\<close>

definition keeps :: "(int \<Rightarrow> 'a option) \<Rightarrow> int \<Rightarrow> 'a \<Rightarrow> 'a \<Rightarrow> bool" where
  "keeps f c x p \<longleftrightarrow> (\<exists>r \<ge> c. f r = Some p \<and> (\<forall>q. c \<le> q \<and> q < r \<longrightarrow> f q = None)) \<or> (\<forall>q \<ge> c. f q = None) \<and> x = p"

lemma keeps_save:
  assumes "keeps f c x p" "f n = None" "\<And>r. n < r \<Longrightarrow> f r = None" "c \<le> n" "\<And>r. g r = (if r = n then Some x else f r)"
  shows "keeps g c y p"
proof (cases "\<forall>q \<ge> c. f q = None")
  case True
  then have "x = p" using assms(1) by (auto simp: keeps_def)
  then show ?thesis using True assms(4,5) unfolding keeps_def by (intro disjI1 exI [of _ n]) auto
next
  case False
  then obtain r where r: "c \<le> r" "f r = Some p" "\<forall>q. c \<le> q \<and> q < r \<longrightarrow> f q = None" using assms(1) by (auto simp: keeps_def)
  then have "r < n" using assms(2,3) by (metis linorder_neqE_linordered_idom option.distinct(1))
  then show ?thesis using r assms(5) unfolding keeps_def by (intro disjI1 exI [of _ r]) auto
qed

lemma keeps_drop:
  assumes "keeps f c x p" "\<And>r. n < r \<Longrightarrow> f r = None" "c \<le> n" "\<And>r. g r = (if r = n then None else f r)"
    and "y = (case f n of Some v \<Rightarrow> v | None \<Rightarrow> x)"
  shows "keeps g c y p"
proof (cases "\<exists>r. c \<le> r \<and> r < n \<and> f r \<noteq> None")
  case True
  then obtain r where r: "c \<le> r" "f r = Some p" "\<forall>q. c \<le> q \<and> q < r \<longrightarrow> f q = None" using assms(1) by (auto simp: keeps_def)
  with True have "r < n" by (metis not_less order.strict_trans1)
  then show ?thesis using r assms(4) unfolding keeps_def by (intro disjI1 exI [of _ r]) auto
next
  case False
  then have g: "\<forall>q \<ge> c. g q = None" using assms(2,4) by (metis linorder_neqE_linordered_idom)
  have "y = p"
  proof (cases "f n")
    case None
    then have "\<forall>q \<ge> c. f q = None" using g assms(4) by metis
    then show ?thesis using assms(1,5) None by (auto simp: keeps_def)
  next
    case (Some v)
    then obtain r where r: "c \<le> r" "f r = Some p" "\<forall>q. c \<le> q \<and> q < r \<longrightarrow> f q = None" using assms(1,3) by (auto simp: keeps_def)
    then have "r = n" using g assms(4) by (metis option.distinct(1))
    then show ?thesis using r(2) assms(5) Some by simp
  qed
  with g show ?thesis by (simp add: keeps_def)
qed

lemma keeps_cong: "keeps f c x p \<Longrightarrow> (\<And>r. c \<le> r \<Longrightarrow> g r = f r) \<Longrightarrow> keeps g c x p"
  unfolding keeps_def by (metis (no_types, lifting))

lemma keeps_none: "(\<And>r. c \<le> r \<Longrightarrow> f r = None) \<Longrightarrow> keeps f c x x"
  by (simp add: keeps_def)

lemma keeps_now: "keeps f c x p \<Longrightarrow> (\<And>r v. c \<le> r \<Longrightarrow> f r = Some v \<Longrightarrow> v = x) \<Longrightarrow> p = x"
  by (auto simp: keeps_def)

text \<open>The checkpoints that the loops visit.\<close>

lemma checkpoints_upto:
  assumes "0 < checkpoint_interval b" "checkpoint_interval b dvd c" "checkpoint_interval b dvd n" "c \<le> n"
  shows "set (checkpoints_from b c (n + 1)) = {k. checkpoint_interval b dvd k \<and> c \<le> k \<and> k \<le> n}" "sorted_wrt (<) (checkpoints_from b c (n + 1))"
proof -
  let ?ci = "checkpoint_interval b"
  have "?ci dvd n - c" using assms(2,3) by simp
  then obtain x where "n - c = ?ci * x" by (rule dvdE)
  then have "n + ?ci - c + ?ci - 1 = (?ci - 1) + (x + 1) * ?ci" "n + 1 - c + ?ci - 1 = (x + 1) * ?ci" by (simp_all add: algebra_simps)
  then have "(n + ?ci - c + ?ci - 1) div ?ci = x + 1" "(n + 1 - c + ?ci - 1) div ?ci = x + 1"
    using assms(1) by (simp_all only: div_mult_self1) simp_all
  then have e: "checkpoints_from b c (n + 1) = checkpoints_from b c (n + ?ci)" by (simp add: checkpoints_from_def)
  have m: "k \<le> n" if "?ci dvd k" "k < n + ?ci" for k
  proof (rule ccontr)
    assume "\<not> k \<le> n"
    then have "?ci \<le> k - n" using that(1) assms(3) by (intro zdvd_imp_le) simp_all
    then show False using that(2) by simp
  qed
  show "set (checkpoints_from b c (n + 1)) = {k. ?ci dvd k \<and> c \<le> k \<and> k \<le> n}"
  proof -
    have "set (checkpoints_from b c (n + ?ci)) = {k. ?ci dvd k \<and> c \<le> k \<and> k < n + ?ci}"
      by (rule checkpoints_from_set) (use assms in \<open>simp_all add: add_increasing2\<close>)
    moreover have "k < n + ?ci \<longleftrightarrow> k \<le> n" if "?ci dvd k" for k using m [OF that] assms(1) by linarith
    ultimately show ?thesis unfolding e by (auto simp del: dvd_add_right_iff)
  qed
  show "sorted_wrt (<) (checkpoints_from b c (n + 1))"
    using assms(1) by (simp add: checkpoints_from_def sorted_wrt_map sorted_wrt_iff_nth_less)
qed

lemma first_entry_found:
  assumes "sorted_wrt (<) ns" "\<And>n. n \<in> set ns \<Longrightarrow> \<exists>r. crlog_fetch (sv_b V) (st_clog S) n = Some r \<and> f r = Some (g n) \<and> (is_zero (rc_sd r) \<longrightarrow> g n = None)"
    and "k \<in> set ns" "g k = Some x" "\<And>n. n \<in> set ns \<Longrightarrow> n < k \<Longrightarrow> g n = None"
  shows "first_entry V f ns S = Some x"
  using assms
proof (induction ns)
  case (Cons n ns)
  obtain r where r: "crlog_fetch (sv_b V) (st_clog S) n = Some r" "f r = Some (g n)" "is_zero (rc_sd r) \<longrightarrow> g n = None"
    using Cons.prems(2) [of n] by auto
  show ?case
  proof (cases "n = k")
    case False
    then have k: "k \<in> set ns" "n < k" using Cons.prems(1,3) by auto
    then have "g n = None" using Cons.prems(5) by simp
    moreover have "first_entry V f ns S = Some x"
      by (rule Cons.IH) (use Cons.prems k in auto)
    ultimately show ?thesis using r by simp
  qed (use r Cons.prems(4) in simp)
qed simp

section \<open>The records and the history\<close>

definition ent :: "senv \<Rightarrow> state \<Rightarrow> nat \<Rightarrow> nat \<Rightarrow> seqno \<Rightarrow> part option" where
  "ent V S l i r = Option.bind (recs V S r) (\<lambda>x. rec_ent (sv_P V) x l i)"

definition blk :: "senv \<Rightarrow> state \<Rightarrow> nat \<Rightarrow> seqno \<Rightarrow> block option" where
  "blk V S i r = Option.bind (recs V S r) (\<lambda>x. rec_blk x i)"

text \<open>A history: for every checkpoint of the log, the memory and the tree when it was taken.\<close>

type_synonym history = "seqno \<rightharpoonup> block list \<times> part list list"

definition log_of :: "senv \<Rightarrow> history \<Rightarrow> state \<Rightarrow> bool" where
  "log_of V H S \<longleftrightarrow> H (st_lc S) \<noteq> None \<and>
     (\<forall>c. H c \<noteq> None \<longrightarrow> 0 \<le> c \<and> c \<le> st_lc S \<and> (\<exists>r. recs V S c = Some r \<and> \<not> is_zero (rc_sd r))) \<and>
     (\<forall>c l i. H c = None \<longrightarrow> l < PLevels (sv_P V) \<longrightarrow> i < psize V l \<longrightarrow> ent V S l i c = None)"

definition saved :: "senv \<Rightarrow> state \<Rightarrow> bool" where
  "saved V S \<longleftrightarrow>
     (\<forall>l < PLevels (sv_P V). \<forall>i < psize V l.
        ent V S l i (st_lc S) = (if l = top_level V \<and> i \<in> bm_set (st_cowb S) then Some (st_ptree S ! l ! i) else None)) \<and>
     (\<forall>l < PLevels (sv_P V). \<forall>i < psize V l. pt_lm (st_ptree S ! l ! i) \<le> st_lc S \<and>
        (\<forall>r < st_lc S. ent V S l i r \<noteq> None \<longrightarrow> r < pt_lm (st_ptree S ! l ! i)))"

definition remembers :: "senv \<Rightarrow> state \<Rightarrow> seqno \<Rightarrow> block list \<times> part list list \<Rightarrow> bool" where
  "remembers V S c h \<longleftrightarrow> (case h of (m, t) \<Rightarrow> length m = nb S \<and>
     (\<forall>l < PLevels (sv_P V). \<forall>i < psize V l. pt_lm (t ! l ! i) \<le> c \<and> keeps (ent V S l i) c (st_ptree S ! l ! i) (t ! l ! i)) \<and>
     (\<forall>i < nb S. keeps (blk V S i) c (st_mem S ! i) (m ! i) \<and>
        set_state_block (sv_cr V) (m ! i) i (pt_lm (t ! top_level V ! i)) = pt_d (t ! top_level V ! i)))"

definition hist_ok :: "senv \<Rightarrow> history \<Rightarrow> state \<Rightarrow> bool" where
  "hist_ok V H S \<longleftrightarrow> tree_ok V S \<and> \<not> st_fetching S \<and> log_of V H S \<and> saved V S \<and> (\<forall>c h. H c = Some h \<longrightarrow> remembers V S c h)"

lemma hist_arrays: "hist_ok V H S \<Longrightarrow> arrays_ok V S" "hist_ok V H S \<Longrightarrow> log_good V (nb S) (st_clog S)"
  by (simp_all add: hist_ok_def tree_ok_def arrays_ok_def)

lemma log_of_in:
  assumes "log_of V H S" "H c \<noteq> None"
  shows "0 \<le> c" "c \<le> st_lc S" "\<exists>r. recs V S c = Some r \<and> \<not> is_zero (rc_sd r)" "recs V S c \<noteq> None"
proof -
  show a: "0 \<le> c" "c \<le> st_lc S" "\<exists>r. recs V S c = Some r \<and> \<not> is_zero (rc_sd r)" using assms unfolding log_of_def by blast+
  show "recs V S c \<noteq> None" using a(3) by auto
qed

lemma log_of_range: "log_of V H S \<Longrightarrow> H c \<noteq> None \<Longrightarrow> crlog_within_range (sv_b V) (st_clog S) c"
  using log_of_in(4) [of V H S c] by (auto dest!: recs_fetch simp: crlog_fetch_def crlog_slot_def split: if_splits Option.bind_splits)

lemma log_of_out: "log_of V H S \<Longrightarrow> H c = None \<Longrightarrow> l < PLevels (sv_P V) \<Longrightarrow> i < psize V l \<Longrightarrow> ent V S l i c = None"
  unfolding log_of_def by blast

lemma hist_parts:
  assumes "hist_ok V H S"
  shows "tree_ok V S" "\<not> st_fetching S" "log_of V H S" "saved V S" "H c = Some h \<Longrightarrow> remembers V S c h" "H (st_lc S) \<noteq> None"
  using assms unfolding hist_ok_def log_of_def by blast+

text \<open>Blocks are copied exactly when their partitions are.\<close>

lemma blk_ent: "blk V S i r = None \<longleftrightarrow> ent V S (top_level V) i r = None"
  by (cases "recs V S r")
    (auto simp: blk_def ent_def rec_blk_def rec_ent_def rec_fetch_def split: option.splits)

lemma ent_none_after:
  assumes "log_of V H S" "l < PLevels (sv_P V)" "i < psize V l" "st_lc S < r"
  shows "ent V S l i r = None"
  using assms unfolding log_of_def by (metis not_less)

lemma blk_none_after:
  assumes "arrays_ok V S" "log_of V H S" "i < nb S" "st_lc S < r"
  shows "blk V S i r = None"
  using ent_none_after [OF assms(2) arrays_shape(7) [OF assms(1)], of i r] arrays_shape(3) [OF assms(1)] assms(3,4) by (simp add: blk_ent)

lemma hist_lc:
  assumes "hist_ok V H S"
  shows "\<exists>r. recs V S (st_lc S) = Some r \<and> \<not> is_zero (rc_sd r)" "0 \<le> st_lc S" "checkpoint_interval (sv_b V) dvd st_lc S"
proof -
  show "\<exists>r. recs V S (st_lc S) = Some r \<and> \<not> is_zero (rc_sd r)" "0 \<le> st_lc S"
    using assms unfolding hist_ok_def log_of_def by blast+
  then show "checkpoint_interval (sv_b V) dvd st_lc S" using recs_iff [OF hist_arrays(2) [OF assms], of "st_lc S"] by auto
qed

section \<open>What is read\<close>

lemma hist_fetch:
  assumes "hist_ok V H S" "H c \<noteq> None" "k \<in> set (checkpoints_from (sv_b V) c (st_lc S + 1))"
  shows "recs V S k \<noteq> None" "c \<le> k" "k \<le> st_lc S"
proof -
  have lg: "log_good V (nb S) (st_clog S)" by (rule hist_arrays(2) [OF assms(1)])
  then have ci: "0 < checkpoint_interval (sv_b V)" by (simp add: log_good_def crlog_inv_def interval_ok_def)
  note lo = hist_parts(3) [OF assms(1)]
  have "recs V S c \<noteq> None" "recs V S (st_lc S) \<noteq> None" "c \<le> st_lc S"
    using log_of_in [OF lo assms(2)] log_of_in(4) [OF lo hist_parts(6) [OF assms(1)]] by simp_all
  then have b: "checkpoint_interval (sv_b V) dvd c" "cr_head (st_clog S) \<le> c" "checkpoint_interval (sv_b V) dvd st_lc S"
    "st_lc S \<le> cr_head (st_clog S) + max_out (sv_b V)" "c \<le> st_lc S"
    using recs_iff [OF lg] by simp_all
  with checkpoints_upto(1) [OF ci b(1,3,5)] assms(3) have k: "checkpoint_interval (sv_b V) dvd k" "c \<le> k" "k \<le> st_lc S" by auto
  then show "recs V S k \<noteq> None" "c \<le> k" "k \<le> st_lc S" using recs_iff [OF lg, of k] b by auto
qed

text \<open>The loops find the first entry; a record that looks cleared has none.\<close>

lemma hist_cleared:
  assumes "log_of V H S" "recs V S k = Some r" "is_zero (rc_sd r)" "l < PLevels (sv_P V)" "i < psize V l"
  shows "ent V S l i k = None"
proof (cases "H k = None")
  case True
  then show ?thesis by (rule log_of_out [OF assms(1) _ assms(4,5)])
next
  case False
  from log_of_in(3) [OF assms(1) this] show ?thesis using assms(2,3) by auto
qed

lemma first_entry_kept:
  assumes H: "hist_ok V H S" "H c \<noteq> None" "keeps g c x p" "g k \<noteq> None" "c \<le> k"
    and g: "\<And>k r. recs V S k = Some r \<Longrightarrow> \<exists>e. f r = Some e \<and> map_option h e = g k \<and> (is_zero (rc_sd r) \<longrightarrow> e = None)"
      "\<And>k. recs V S k = None \<Longrightarrow> g k = None" "\<And>k. st_lc S < k \<Longrightarrow> g k = None"
  shows "map_option h (first_entry V f (checkpoints_from (sv_b V) c (st_lc S + 1)) S) = Some p"
proof -
  obtain r where r: "c \<le> r" "g r = Some p" "\<forall>q. c \<le> q \<and> q < r \<longrightarrow> g q = None" using H(3-5) by (auto simp: keeps_def)
  have lg: "log_good V (nb S) (st_clog S)" by (rule hist_arrays(2) [OF H(1)])
  then have ci: "0 < checkpoint_interval (sv_b V)" by (simp add: log_good_def crlog_inv_def interval_ok_def)
  have "recs V S c \<noteq> None" "c \<le> st_lc S" using log_of_in(2,4) [OF hist_parts(3) [OF H(1)] H(2)] by simp_all
  then have c: "checkpoint_interval (sv_b V) dvd c" "c \<le> st_lc S" using recs_iff [OF lg] by auto
  note L = checkpoints_upto [OF ci c(1) hist_lc(3) [OF H(1)] c(2)]
  have rr: "recs V S r \<noteq> None" "r \<le> st_lc S" using g(2,3) [of r] r(2) by (auto simp: not_less [symmetric])
  then have m: "r \<in> set (checkpoints_from (sv_b V) c (st_lc S + 1))" using L(1) r(1) recs_iff [OF lg, of r] by auto
  define e where "e k = (case recs V S k of Some r \<Rightarrow> the (f r) | None \<Rightarrow> None)" for k
  have e: "f r = Some (e k) \<and> map_option h (e k) = g k \<and> (is_zero (rc_sd r) \<longrightarrow> e k = None)" if "recs V S k = Some r" for k r
    using g(1) [OF that] that by (auto simp: e_def)
  obtain y where y: "e r = Some y" "h y = p" using rr(1) e [of r] r(2) by auto
  have "first_entry V f (checkpoints_from (sv_b V) c (st_lc S + 1)) S = Some y"
  proof (rule first_entry_found [of _ _ _ _ e r, OF L(2) _ m y(1)])
    fix n assume n: "n \<in> set (checkpoints_from (sv_b V) c (st_lc S + 1))"
    obtain q where q: "recs V S n = Some q" using hist_fetch(1) [OF H(1,2) n] by auto
    from e [OF q] recs_fetch [OF q]
    show "\<exists>r. crlog_fetch (sv_b V) (st_clog S) n = Some r \<and> f r = Some (e n) \<and> (is_zero (rc_sd r) \<longrightarrow> e n = None)" by blast
    show "e n = None" if "n < r" using e [OF q] r(3) hist_fetch(2) [OF H(1,2) n] that by auto
  qed
  then show ?thesis using y(2) by simp
qed

lemma ent_fetch:
  assumes "arrays_ok V S" "l < PLevels (sv_P V)" "i < psize V l" "recs V S k = Some r"
  shows "rec_fetch (sv_P V) l i r = Some (ent V S l i k)"
  using rec_fetch_ent [OF arrays_shape(1) [OF assms(1)] recs_ok [OF _ assms(4)] assms(2,3)] assms(1,4) by (simp add: ent_def arrays_ok_def)

lemma ent_lc:
  assumes "saved V S" "l < PLevels (sv_P V)" "i < psize V l"
  shows "ent V S l i (st_lc S) = (if l = top_level V \<and> i \<in> bm_set (st_cowb S) then Some (st_ptree S ! l ! i) else None)"
    "pt_lm (st_ptree S ! l ! i) \<le> st_lc S" "r < st_lc S \<Longrightarrow> ent V S l i r \<noteq> None \<Longrightarrow> r < pt_lm (st_ptree S ! l ! i)"
  using assms unfolding saved_def by blast+

lemma ent_since:
  assumes "log_of V H S" "saved V S" "l < PLevels (sv_P V)" "i < psize V l" "pt_lm (st_ptree S ! l ! i) \<le> c" "c \<le> r" "ent V S l i r = Some v"
  shows "r = st_lc S" "v = st_ptree S ! l ! i" "l = top_level V \<and> i \<in> bm_set (st_cowb S)"
proof -
  have "\<not> st_lc S < r" using ent_none_after [OF assms(1,3,4)] assms(7) by force
  moreover have "\<not> r < st_lc S" using ent_lc(3) [OF assms(2-4), of r] assms(5-7) by force
  ultimately show r: "r = st_lc S" by simp
  show "v = st_ptree S ! l ! i" "l = top_level V \<and> i \<in> bm_set (st_cowb S)"
    using assms(7) ent_lc(1) [OF assms(2-4)] unfolding r by (simp_all split: if_splits)
qed

theorem get_meta_data_at:
  assumes H: "hist_ok V H S" "H c = Some (m, t)" and l: "l < PLevels (sv_P V)" "i < psize V l"
  shows "get_meta_data V c l i S = Some (t ! l ! i)"
proof -
  note P = hist_parts [OF H(1)]
  have A: "arrays_ok V S" by (rule hist_arrays(1) [OF H(1)])
  have c: "crlog_within_range (sv_b V) (st_clog S) c" using log_of_range [OF P(3)] H(2) by simp
  have k: "keeps (ent V S l i) c (st_ptree S ! l ! i) (t ! l ! i)" "pt_lm (t ! l ! i) \<le> c"
    using P(5) [OF H(2)] l by (simp_all add: remembers_def)
  show ?thesis
  proof (cases "pt_lm (st_ptree S ! l ! i) \<le> c")
    case True
    then have "t ! l ! i = st_ptree S ! l ! i" using keeps_now [OF k(1)] ent_since(2) [OF P(3,4) l] by blast
    then show ?thesis using True c part_in(1) [OF A l] by (simp add: get_meta_data_def)
  next
    case False
    with k obtain q where q: "ent V S l i q \<noteq> None" "c \<le> q" by (auto simp: keeps_def)
    have "map_option (\<lambda>x. x) (first_entry V (rec_fetch (sv_P V) l i) (checkpoints_from (sv_b V) c (st_lc S + 1)) S) = Some (t ! l ! i)"
    proof (rule first_entry_kept [OF H(1) _ k(1) q])
      show "H c \<noteq> None" by (simp add: H(2))
      show "\<exists>e. rec_fetch (sv_P V) l i r = Some e \<and> map_option (\<lambda>x. x) e = ent V S l i k \<and> (is_zero (rc_sd r) \<longrightarrow> e = None)"
        if "recs V S k = Some r" for k r
        using ent_fetch [OF A l that] hist_cleared [OF P(3) that _ l] by (simp add: option.map_ident)
      show "ent V S l i k = None" if "recs V S k = None" for k using that by (simp add: ent_def)
      show "ent V S l i k = None" if "st_lc S < k" for k by (rule ent_none_after [OF P(3) l that])
    qed
    then show ?thesis using False c part_in(1) [OF A l] by (simp add: get_meta_data_def option.map_ident)
  qed
qed

theorem get_data_at:
  assumes H: "hist_ok V H S" "H c = Some (m, t)" and i: "i < nb S"
  shows "get_data V c i S = Some (m ! i)"
proof -
  note P = hist_parts [OF H(1)]
  have A: "arrays_ok V S" by (rule hist_arrays(1) [OF H(1)])
  have c: "crlog_within_range (sv_b V) (st_clog S) c" using log_of_range [OF P(3)] H(2) by simp
  have l: "top_level V < PLevels (sv_P V)" "i < psize V (top_level V)" using arrays_shape [OF A] i by simp_all
  let ?p = "st_ptree S ! top_level V ! i"
  have k: "keeps (ent V S (top_level V) i) c ?p (t ! top_level V ! i)" "pt_lm (t ! top_level V ! i) \<le> c"
    "keeps (blk V S i) c (st_mem S ! i) (m ! i)"
    using P(5) [OF H(2)] l i by (simp_all add: remembers_def)
  have cb: "bm_test (st_cowb S) i = Some (i \<in> bm_set (st_cowb S))" using A i by (intro bm_test_set) (simp_all add: arrays_ok_def)
  show ?thesis
  proof (cases "pt_lm ?p \<le> c \<and> i \<notin> bm_set (st_cowb S)")
    case True
    then have "blk V S i r = None" if "c \<le> r" for r
      using ent_since(3) [OF P(3,4) l _ that] by (cases "ent V S (top_level V) i r") (auto simp: blk_ent)
    then have "m ! i = st_mem S ! i" using keeps_now [OF k(3)] by force
    then show ?thesis using True c part_in(1) [OF A l] i cb by (simp add: get_data_def arr_get_def)
  next
    case False
    obtain q where q: "blk V S i q \<noteq> None" "c \<le> q"
    proof (cases "i \<in> bm_set (st_cowb S)")
      case True
      then have "blk V S i (st_lc S) \<noteq> None" using ent_lc(1) [OF P(4) l] by (simp add: blk_ent)
      moreover have "c \<le> st_lc S" using log_of_in(2) [OF P(3)] H(2) by simp
      ultimately show ?thesis by (rule that)
    next
      case c: False
      with False k(1,2) obtain q where "ent V S (top_level V) i q \<noteq> None" "c \<le> q" by (auto simp: keeps_def)
      then show ?thesis using that by (simp add: blk_ent)
    qed
    have "map_option bc_data (first_entry V (rec_fetch_block i) (checkpoints_from (sv_b V) c (st_lc S + 1)) S) = Some (m ! i)"
    proof (rule first_entry_kept [OF H(1) _ k(3) q])
      show "H c \<noteq> None" by (simp add: H(2))
      show "\<exists>e. rec_fetch_block i r = Some e \<and> map_option bc_data e = blk V S i k \<and> (is_zero (rc_sd r) \<longrightarrow> e = None)"
        if r: "recs V S k = Some r" for k r
      proof -
        obtain e where e: "rec_fetch_block i r = Some e" "map_option bc_data e = rec_blk r i"
          using rec_fetch_block_eq [OF recs_ok [OF hist_arrays(2) [OF H(1)] r] i] by blast
        moreover have "blk V S i k = rec_blk r i" using r by (simp add: blk_def)
        moreover have "is_zero (rc_sd r) \<Longrightarrow> blk V S i k = None" using hist_cleared [OF P(3) r _ l] by (simp add: blk_ent)
        ultimately show ?thesis by auto
      qed
      show "blk V S i k = None" if "recs V S k = None" for k using that by (simp add: blk_def)
      show "blk V S i k = None" if "st_lc S < k" for k by (rule blk_none_after [OF A P(3) i that])
    qed
    then show ?thesis using False c part_in(1) [OF A l] cb i by (auto simp: get_data_def)
  qed
qed

end
