(* ===== verification/State_Steps.thy ===== *)
theory State_Steps
  imports State_History
begin

text \<open>
  The operations of the replicated state keep the history of the checkpoints: copying blocks before they are written, writing copied blocks,
  taking a checkpoint, rolling back and discarding old checkpoints.
\<close>

section \<open>Declaring modifications\<close>

text \<open>The macros of \<^verbatim>\<open>Modify.h\<close>; \<open>off\<close> is the offset of the object in the memory.\<close>

definition Byz_modify1 :: "senv \<Rightarrow> int \<Rightarrow> state \<Rightarrow> state option" where
  "Byz_modify1 V off S = do {
     let bindex = nat off div sv_block V;
     t \<leftarrow> bm_test (st_cowb S) bindex;
     if t then Some S else cow_single V bindex S }"

definition Byz_modify2 :: "senv \<Rightarrow> int \<Rightarrow> int \<Rightarrow> state \<Rightarrow> state option" where
  "Byz_modify2 V off sz S = do {
     t1 \<leftarrow> bm_test (st_cowb S) (nat off div sv_block V);
     t2 \<leftarrow> bm_test (st_cowb S) (nat (off + sz - 1) div sv_block V);
     if \<not> t1 \<or> \<not> t2 then state_cow V off sz S else Some S }"

section \<open>Copying and writing\<close>

lemma keeps_covered: "keeps f c x p \<Longrightarrow> f n \<noteq> None \<Longrightarrow> c \<le> n \<Longrightarrow> keeps f c y p"
  by (auto simp: keeps_def)

lemma keeps_last:
  assumes "keeps f n x p" "\<And>r. n < r \<Longrightarrow> f r = None"
  shows "p = (case f n of Some v \<Rightarrow> v | None \<Rightarrow> x)"
proof (cases "f n")
  case None
  then have "f q = None" if "n \<le> q" for q using that assms(2) [of q] by (cases "q = n") simp_all
  then show ?thesis using assms(1) None by (auto simp: keeps_def)
next
  case (Some v)
  then obtain r where r: "n \<le> r" "f r = Some p" using assms(1) by (auto simp: keeps_def)
  then have "r = n" using assms(2) [of r] by force
  then show ?thesis using r Some by simp
qed

lemma hashed_mono: "hashed V X S \<Longrightarrow> X \<subseteq> Y \<Longrightarrow> hashed V Y S"
  by (auto simp: hashed_def)

lemma cow_single_ok:
  assumes H: "hist_ok V H S" and i: "i < nb S" "i \<notin> bm_set (st_cowb S)"
  shows "\<exists>S'. cow_single V i S = Some S' \<and> hist_ok V H S' \<and> bm_set (st_cowb S') = insert i (bm_set (st_cowb S)) \<and>
    st_mem S' = st_mem S \<and> st_lc S' = st_lc S \<and> st_ptree S' = st_ptree S"
proof -
  note P = hist_parts [OF H] and A = hist_arrays(1) [OF H]
  have l: "top_level V < PLevels (sv_P V)" "i < psize V (top_level V)" using arrays_shape [OF A] i(1) by simp_all
  let ?p = "st_ptree S ! top_level V ! i" and ?lc = "st_lc S"
  obtain r where r: "recs V S ?lc = Some r" "\<not> is_zero (rc_sd r)" using hist_lc(1) [OF H] by blast
  have "ent V S (top_level V) i ?lc = None" using ent_lc(1) [OF P(4) l] i(2) by simp
  then have "rec_ent (sv_P V) r (top_level V) i = None" using r(1) by (simp add: ent_def)
  moreover have "pt_lm ?p \<noteq> - 1" using part_good(1) [OF A l] by linarith
  ultimately obtain r' where r': "rec_append_block i (pt_lm ?p) (pt_d ?p) (st_mem S ! i) r = Some r'" "rec_ok (sv_P V) (nb S) r'" "rc_sd r' = rc_sd r"
    "\<And>j. rec_blk r' j = (if j = i then Some (st_mem S ! i) else rec_blk r j)"
    "\<And>k j. rec_ent (sv_P V) r' k j = (if k = top_level V \<and> j = i then Some \<lparr>pt_lm = pt_lm ?p, pt_d = pt_d ?p\<rparr> else rec_ent (sv_P V) r k j)"
    using rec_append_block_ok [OF recs_ok [OF hist_arrays(2) [OF H] r(1)] i(1), of "pt_lm ?p" "pt_d ?p" "st_mem S ! i"] by blast
  obtain cl where cl: "with_rec V ?lc (rec_append_block i (pt_lm ?p) (pt_d ?p) (st_mem S ! i)) S = Some (S\<lparr>st_clog := cl\<rparr>)"
    "log_good V (nb S) cl" "cr_head cl = cr_head (st_clog S)" "recs V (S\<lparr>st_clog := cl\<rparr>) = (recs V S)(?lc \<mapsto> r')"
    using with_rec_ok [OF hist_arrays(2) [OF H] r(1), of "rec_append_block i (pt_lm ?p) (pt_d ?p) (st_mem S ! i)" r', OF r'(1,2)] by blast
  have bm: "bm_ok (st_cowb S)" "num (st_cowb S) = nb S" using A by (simp_all add: arrays_ok_def)
  obtain cb where cb: "bm_insert (st_cowb S) i = Some cb" "bm_ok cb" "num cb = nb S" "bm_set cb = insert i (bm_set (st_cowb S))"
    using bm_insert_ok [OF bm(1)] i(1) bm(2) by auto
  define S' where "S' = S\<lparr>st_clog := cl, st_cowb := cb\<rparr>"
  have S': "st_mem S' = st_mem S" "st_lc S' = st_lc S" "st_ptree S' = st_ptree S" "st_stree S' = st_stree S" "st_cowb S' = cb" "st_fetching S' = st_fetching S"
    by (simp_all add: S'_def)
  have cs: "cow_single V i S = Some S'" unfolding cow_single_def part_in(1) [OF A l] using i(1) cl(1) cb(1) by (simp add: S'_def)
  have rc: "recs V S' = (recs V S)(?lc \<mapsto> r')" using cl(4) by (simp add: S'_def)
  have en: "ent V S' k j q = (if q = ?lc \<and> k = top_level V \<and> j = i then Some ?p else ent V S k j q)" for k j q
    using r(1) by (simp add: ent_def rc r'(5))
  have bk: "blk V S' j q = (if q = ?lc \<and> j = i then Some (st_mem S ! i) else blk V S j q)" for j q
    using r(1) by (simp add: blk_def rc r'(4))
  have "arrays_ok V S'" using A cl(2) cb by (simp add: arrays_ok_def S'_def)
  moreover have "sums_ok V S'" by (rule sums_ok_upd [of V S]) (use P(1) in \<open>simp_all add: S' tree_ok_def\<close>)
  moreover have "hashed V ({top_level V} \<times> bm_set (st_cowb S)) S'" by (rule hashed_upd [of V _ S]) (use P(1) in \<open>simp_all add: S' tree_ok_def\<close>)
  then have "hashed V ({top_level V} \<times> bm_set (st_cowb S')) S'" by (rule hashed_mono) (auto simp: S' cb(4))
  ultimately have "tree_ok V S'" by (simp add: tree_ok_def)
  moreover have "log_of V H S'"
  proof -
    have "\<exists>r. recs V S' c = Some r \<and> \<not> is_zero (rc_sd r)" if "H c \<noteq> None" for c
      using log_of_in(3) [OF P(3) that] r(2) r'(3) by (cases "c = ?lc") (simp_all add: rc)
    moreover have "ent V S' k j c = None" if "H c = None" "k < PLevels (sv_P V)" "j < psize V k" for c k j
      using log_of_out [OF P(3) that] P(6) that(1) by (auto simp: en)
    ultimately show ?thesis using P(6) log_of_in(1,2) [OF P(3)] unfolding log_of_def S' by blast
  qed
  moreover have "saved V S'" unfolding saved_def S' cb(4) using ent_lc [OF P(4)] by (auto simp: en)
  moreover have "remembers V S' c h" if c: "H c = Some h" for c h
  proof -
    have lc: "c \<le> ?lc" using log_of_in(2) [OF P(3), of c] c by simp
    obtain m t where h: "h = (m, t)" by (cases h)
    note R = P(5) [OF c, unfolded h remembers_def prod.case]
    have "keeps (ent V S' k j) c (st_ptree S ! k ! j) (t ! k ! j)" if k: "k < PLevels (sv_P V)" "j < psize V k" for k j
    proof (cases "k = top_level V \<and> j = i")
      case True
      have "keeps (ent V S k j) c (st_ptree S ! k ! j) (t ! k ! j)" using R k by blast
      then show ?thesis
        by (rule keeps_save [where n = ?lc]) (use True lc i(2) ent_lc(1) [OF P(4) k] ent_none_after [OF P(3) k] in \<open>simp_all add: en\<close>)
    next
      case False
      then have "ent V S' k j = ent V S k j" by (auto simp: en)
      then show ?thesis using R k by simp
    qed
    moreover have "keeps (blk V S' j) c (st_mem S ! j) (m ! j)" if j: "j < nb S" for j
    proof (cases "j = i")
      case True
      have "keeps (blk V S j) c (st_mem S ! j) (m ! j)" using R j by blast
      moreover have "blk V S i ?lc = None" using ent_lc(1) [OF P(4) l] i(2) by (simp add: blk_ent)
      ultimately show ?thesis
        by (elim keeps_save [where n = ?lc]) (use True lc blk_none_after [OF A P(3) i(1)] in \<open>simp_all add: bk\<close>)
    next
      case False
      then have "blk V S' j = blk V S j" by (auto simp: bk)
      then show ?thesis using R j by simp
    qed
    ultimately show ?thesis using R unfolding h remembers_def prod.case S' by blast
  qed
  ultimately show ?thesis using cs P(2) cb(4) by (intro exI [of _ S']) (simp add: hist_ok_def S')
qed

text \<open>Copying a region; blocks that were copied already are skipped.\<close>

lemma cow_range_ok:
  assumes "hist_ok V H S" "\<And>i. i \<in> set is \<Longrightarrow> i < nb S"
  shows "\<exists>S'. fold_opt (\<lambda>i S. do { t \<leftarrow> bm_test (st_cowb S) i; if t then Some S else cow_single V i S }) is S = Some S' \<and>
    hist_ok V H S' \<and> bm_set (st_cowb S') = bm_set (st_cowb S) \<union> set is \<and> st_mem S' = st_mem S \<and> st_lc S' = st_lc S \<and> st_ptree S' = st_ptree S"
  using assms
proof (induction "is" arbitrary: S)
  case (Cons i js)
  have i: "i < nb S" using Cons.prems(2) by simp
  have t: "bm_test (st_cowb S) i = Some (i \<in> bm_set (st_cowb S))"
    using hist_arrays(1) [OF Cons.prems(1)] i by (intro bm_test_set) (simp_all add: arrays_ok_def)
  obtain S1 where 1: "(if i \<in> bm_set (st_cowb S) then Some S else cow_single V i S) = Some S1" "hist_ok V H S1"
    "bm_set (st_cowb S1) = insert i (bm_set (st_cowb S))" "st_mem S1 = st_mem S" "st_lc S1 = st_lc S" "st_ptree S1 = st_ptree S"
    using cow_single_ok [OF Cons.prems(1) i] Cons.prems(1) by (cases "i \<in> bm_set (st_cowb S)") (auto simp: insert_absorb)
  from Cons.IH [OF 1(2)] Cons.prems(2) 1 t show ?case by auto
qed simp

lemma state_cow_ok:
  assumes "hist_ok V H S" "0 < sv_block V" "0 < off" "0 < sz" "off + sz \<le> int (nb S * sv_block V)"
  shows "\<exists>S'. state_cow V off sz S = Some S' \<and> hist_ok V H S' \<and> st_mem S' = st_mem S \<and> st_lc S' = st_lc S \<and> st_ptree S' = st_ptree S \<and>
    bm_set (st_cowb S') = bm_set (st_cowb S) \<union> {nat off div sv_block V .. nat (off + sz - 1) div sv_block V}"
proof -
  have "nat (off + sz - 1) < nb S * sv_block V" using assms(3-5) by linarith
  then have hi: "nat (off + sz - 1) div sv_block V < nb S" by (simp add: less_mult_imp_div_less)
  have rng: "set [nat off div sv_block V..<Suc (nat (off + sz - 1) div sv_block V)] = {nat off div sv_block V .. nat (off + sz - 1) div sv_block V}"
    by (simp only: set_upt atLeastLessThanSuc_atLeastAtMost)
  have "i < nb S" if "i \<in> set [nat off div sv_block V..<Suc (nat (off + sz - 1) div sv_block V)]" for i
    using that hi unfolding rng by simp
  note cow_range_ok [of V H S "[nat off div sv_block V..<Suc (nat (off + sz - 1) div sv_block V)]", OF assms(1) this, unfolded rng]
  moreover have "(off > 0 \<and> off + sz \<le> int (nb S * sv_block V)) = True" "(sz \<le> 0) = False" using assms(3-5) by simp_all
  ultimately show ?thesis unfolding state_cow_def Let_def by (auto simp del: upt_Suc of_nat_mult)
qed

text \<open>Blocks whose bit is set may be written; every checkpoint keeps its values.\<close>

lemma write_ok:
  assumes H: "hist_ok V H S" and m: "length mem = nb S" "\<And>i. i < nb S \<Longrightarrow> i \<notin> bm_set (st_cowb S) \<Longrightarrow> mem ! i = st_mem S ! i"
  shows "hist_ok V H (S\<lparr>st_mem := mem\<rparr>)"
proof -
  let ?S = "S\<lparr>st_mem := mem\<rparr>"
  note P = hist_parts [OF H] and A = hist_arrays(1) [OF H]
  have w: "width V ?S = width V S" using m(1) by (simp add: width_def fun_eq_iff)
  have eb: "ent V ?S = ent V S" "blk V ?S = blk V S" by (simp_all add: ent_def blk_def fun_eq_iff)
  have "arrays_ok V ?S" using A m(1) by (simp add: arrays_ok_def)
  moreover have "sums_ok V ?S" using P(1) by (simp add: tree_ok_def sums_ok_def level_sum_def w)
  moreover have "part_digest V l i ?S = part_digest V l i S" if "i < width V S l" "l = top_level V \<Longrightarrow> i \<notin> bm_set (st_cowb S)" for l i
    using that m by (auto simp: part_digest_def arr_get_def width_def intro!: Option.bind_cong split: if_splits)
  then have "hashed V ({top_level V} \<times> bm_set (st_cowb S)) ?S" using P(1) by (auto simp: tree_ok_def hashed_def w)
  ultimately have "tree_ok V ?S" by (simp add: tree_ok_def)
  moreover have "log_of V H ?S" "saved V ?S" using P(3,4) by (simp_all add: log_of_def saved_def eb)
  moreover have "remembers V ?S c h" if c: "H c = Some h" for c h
  proof -
    have lc: "c \<le> st_lc S" using log_of_in(2) [OF P(3), of c] c by simp
    obtain ms t where h: "h = (ms, t)" by (cases h)
    note R = P(5) [OF c, unfolded h remembers_def prod.case]
    have "keeps (blk V S i) c (mem ! i) (ms ! i)" if i: "i < nb S" for i
    proof (cases "i \<in> bm_set (st_cowb S)")
      case True
      have "i < psize V (top_level V)" using arrays_shape(3) [OF A] i by simp
      then have "blk V S i (st_lc S) \<noteq> None" using ent_lc(1) [OF P(4) arrays_shape(7) [OF A]] True by (simp add: blk_ent)
      then show ?thesis using R i lc by (blast intro: keeps_covered)
    next
      case False
      then show ?thesis using R i m(2) by auto
    qed
    then show ?thesis using R m(1) unfolding h remembers_def prod.case eb by simp
  qed
  ultimately show ?thesis using P(2) by (simp add: hist_ok_def)
qed

section \<open>Taking a checkpoint\<close>

lemma rec_ent_blocks: "rc_blocks r' = rc_blocks r \<Longrightarrow> rec_ent P r' (PLevels P - 1) i = rec_ent P r (PLevels P - 1) i"
  by (simp add: rec_ent_def rec_fetch_def rec_fetch_block_def)

lemma rec_sd_upd [simp]: "rec_ent P (r\<lparr>rc_sd := d\<rparr>) = rec_ent P r" "rec_blk (r\<lparr>rc_sd := d\<rparr>) = rec_blk r"
  by (simp_all add: rec_ent_def rec_blk_def rec_fetch_def rec_fetch_block_def fun_eq_iff)

lemma leaf_digest:
  assumes "arrays_ok V S" "hashed V {} S" "i < nb S"
  shows "set_state_block (sv_cr V) (st_mem S ! i) i (pt_lm (st_ptree S ! top_level V ! i)) = pt_d (st_ptree S ! top_level V ! i)"
proof -
  have l: "top_level V < PLevels (sv_P V)" "i < psize V (top_level V)" using arrays_shape [OF assms(1)] assms(3) by simp_all
  have "part_digest V (top_level V) i S = Some (pt_d (st_ptree S ! top_level V ! i))"
    using assms(2,3) l(1) by (simp add: hashed_def width_def)
  then show ?thesis using part_in(1) [OF assms(1) l] assms(3) by (simp add: part_digest_def arr_get_def)
qed

text \<open>What a checkpoint does to the entries: the record of the last checkpoint gets the former values of the touched partitions.\<close>

lemma checkpoint_entries:
  assumes H: "hist_ok V H S" and n: "st_lc S < n" "recs V S n \<noteq> None"
  shows "\<exists>S'. state_checkpoint V n S = Some S' \<and> tree_ok V S' \<and> bm_set (st_cowb S') = {} \<and> st_lc S' = n \<and> st_mem S' = st_mem S \<and>
    st_fetching S' = st_fetching S \<and> cr_head (st_clog S') = cr_head (st_clog S) \<and>
    (\<exists>r. recs V S' n = Some r \<and> \<not> is_zero (rc_sd r) \<and> rc_sd r = pt_d (st_ptree S' ! 0 ! 0)) \<and>
    (\<forall>c. H c \<noteq> None \<longrightarrow> (\<exists>r. recs V S' c = Some r \<and> \<not> is_zero (rc_sd r))) \<and>
    (\<forall>l < PLevels (sv_P V). \<forall>i < psize V l.
       (\<forall>q. ent V S' l i q = (if q = st_lc S \<and> (l, i) \<in> touched V S then Some (st_ptree S ! l ! i) else if q = st_lc S then None else ent V S l i q)) \<and>
       (if (l, i) \<in> touched V S then pt_lm (st_ptree S' ! l ! i) = n else st_ptree S' ! l ! i = st_ptree S ! l ! i)) \<and>
    (\<forall>i < nb S. blk V S' i = blk V S i)"
proof -
  note P = hist_parts [OF H] and A = hist_arrays(1) [OF H]
  let ?lc = "st_lc S"
  obtain r0 where r0: "recs V S ?lc = Some r0" "\<not> is_zero (rc_sd r0)" using hist_lc(1) [OF H] by blast
  have none: "rec_ent (sv_P V) r0 l i = None" if "l < top_level V" "i < psize V l" for l i
    using ent_lc(1) [OF P(4), of l i] that r0(1) by (simp add: ent_def)
  have n0: "0 \<le> n" using hist_lc(2) [OF H] n(1) by simp
  obtain S' r1 r2 where S': "state_checkpoint V n S = Some S'" "tree_ok V S'" "bm_set (st_cowb S') = {}" "st_lc S' = n" "st_mem S' = st_mem S"
    "st_fetching S' = st_fetching S" "cr_head (st_clog S') = cr_head (st_clog S)" and r1: "rec_updated V S (touched V S) r0 r1" and
    r2: "((recs V S)(?lc \<mapsto> r1)) n = Some r2" and rc: "recs V S' = (recs V S)(?lc \<mapsto> r1, n \<mapsto> r2\<lparr>rc_sd := pt_d (st_ptree S' ! 0 ! 0)\<rparr>)" and
    d: "\<not> is_zero (pt_d (st_ptree S' ! 0 ! 0))" and
    pt: "\<forall>l < PLevels (sv_P V). \<forall>i < psize V l. if (l, i) \<in> touched V S then pt_lm (st_ptree S' ! l ! i) = n else st_ptree S' ! l ! i = st_ptree S ! l ! i"
    using state_checkpoint_ok [OF P(1) n0 r0(1) none n(2)] by blast
  have r2': "recs V S n = Some r2" using r2 n(1) by simp
  have en: "ent V S' l i q = (if q = ?lc \<and> (l, i) \<in> touched V S then Some (st_ptree S ! l ! i) else if q = ?lc then None else ent V S l i q)"
    if l: "l < PLevels (sv_P V)" "i < psize V l" for l i q
  proof -
    have "rec_ent (sv_P V) r1 l i = (if (l, i) \<in> touched V S then Some (st_ptree S ! l ! i) else None)"
    proof (cases "l = top_level V")
      case True
      have "rec_ent (sv_P V) r1 l i = rec_ent (sv_P V) r0 l i" unfolding True by (rule rec_ent_blocks) (use r1 in \<open>simp add: rec_updated_def\<close>)
      moreover have "ent V S l i ?lc = rec_ent (sv_P V) r0 l i" using r0(1) by (simp add: ent_def)
      moreover have "(l, i) \<in> touched V S \<longleftrightarrow> i \<in> bm_set (st_cowb S)" using True l(1) by (simp add: touched_def modified_def)
      ultimately show ?thesis using ent_lc(1) [OF P(4) l] True by simp
    next
      case False
      then have "l < top_level V" using l(1) by linarith
      then show ?thesis using r1 none [of l i] l(2) by (simp add: rec_updated_def)
    qed
    then show ?thesis using n(1) r2' by (auto simp: ent_def rc)
  qed
  have bk: "blk V S' i = blk V S i" for i
  proof -
    have "rec_blk r1 i = rec_blk r0 i" using r1 by (simp add: rec_blk_def rec_fetch_block_def rec_updated_def)
    then show ?thesis using n(1) r2' r0(1) by (simp add: blk_def rc fun_eq_iff)
  qed
  have sd: "\<exists>r. recs V S' c = Some r \<and> \<not> is_zero (rc_sd r)" if "H c \<noteq> None" for c
    using log_of_in(3) [OF P(3) that] d r0(2) r1 n(1) by (auto simp: rc rec_updated_def)
  show ?thesis using S' d en bk pt sd n(1) by (intro exI [of _ S']) (simp add: rc)
qed

theorem state_checkpoint_hist:
  assumes H: "hist_ok V H S" and n: "st_lc S < n" "recs V S n \<noteq> None"
  shows "\<exists>S'. state_checkpoint V n S = Some S' \<and> hist_ok V (H(n \<mapsto> (st_mem S, st_ptree S'))) S' \<and> st_lc S' = n \<and> st_mem S' = st_mem S \<and>
    cr_head (st_clog S') = cr_head (st_clog S) \<and> bm_set (st_cowb S') = {} \<and> state_digest V n S' = Some (Some (pt_d (st_ptree S' ! 0 ! 0)))"
proof -
  note P = hist_parts [OF H] and A = hist_arrays(1) [OF H]
  obtain S' where S': "state_checkpoint V n S = Some S'" "tree_ok V S'" "bm_set (st_cowb S') = {}" "st_lc S' = n" "st_mem S' = st_mem S"
    "st_fetching S' = st_fetching S" "cr_head (st_clog S') = cr_head (st_clog S)"
    and d: "\<exists>r. recs V S' n = Some r \<and> \<not> is_zero (rc_sd r) \<and> rc_sd r = pt_d (st_ptree S' ! 0 ! 0)"
    and sd: "\<forall>c. H c \<noteq> None \<longrightarrow> (\<exists>r. recs V S' c = Some r \<and> \<not> is_zero (rc_sd r))"
    and ep: "\<forall>l < PLevels (sv_P V). \<forall>i < psize V l.
       (\<forall>q. ent V S' l i q = (if q = st_lc S \<and> (l, i) \<in> touched V S then Some (st_ptree S ! l ! i) else if q = st_lc S then None else ent V S l i q)) \<and>
       (if (l, i) \<in> touched V S then pt_lm (st_ptree S' ! l ! i) = n else st_ptree S' ! l ! i = st_ptree S ! l ! i)"
    and bk: "\<forall>i < nb S. blk V S' i = blk V S i"
    using checkpoint_entries [OF H n] by blast
  have en: "ent V S' l i q = (if q = st_lc S \<and> (l, i) \<in> touched V S then Some (st_ptree S ! l ! i) else if q = st_lc S then None else ent V S l i q)"
    and pt: "if (l, i) \<in> touched V S then pt_lm (st_ptree S' ! l ! i) = n else st_ptree S' ! l ! i = st_ptree S ! l ! i"
    if "l < PLevels (sv_P V)" "i < psize V l" for l i q using ep that by blast+
  let ?H = "H(n \<mapsto> (st_mem S, st_ptree S'))"
  have Hn: "H n = None" using log_of_in(2) [OF P(3), of n] n(1) by (cases "H n") auto
  have after: "ent V S' l i q = None" if "l < PLevels (sv_P V)" "i < psize V l" "st_lc S < q" for l i q
    using en [OF that(1,2)] ent_none_after [OF P(3) that] that(3) by simp
  have log: "log_of V ?H S'"
  proof -
    have "\<exists>r. recs V S' c = Some r \<and> \<not> is_zero (rc_sd r)" if "?H c \<noteq> None" for c
      using sd d that by (cases "c = n") auto
    moreover have "0 \<le> c \<and> c \<le> n" if "?H c \<noteq> None" for c
      using log_of_in(1,2) [OF P(3), of c] that n(1) hist_lc(2) [OF H] by (cases "c = n") auto
    moreover have "ent V S' l i c = None" if "?H c = None" "l < PLevels (sv_P V)" "i < psize V l" for c l i
      using that log_of_out [OF P(3) _ that(2,3), of c] en [OF that(2,3), of c] P(6) by (auto split: if_splits)
    ultimately show ?thesis unfolding log_of_def S'(4) by simp
  qed
  have saved: "saved V S'"
    unfolding saved_def S'(3,4)
  proof (intro conjI allI impI)
    fix l i assume l: "l < PLevels (sv_P V)" "i < psize V l"
    show "ent V S' l i n = (if l = top_level V \<and> i \<in> {} then Some (st_ptree S' ! l ! i) else None)" using after [OF l n(1)] by simp
    show "pt_lm (st_ptree S' ! l ! i) \<le> n" using pt [OF l] ent_lc(2) [OF P(4) l] n(1) by (auto split: if_splits)
    show "q < pt_lm (st_ptree S' ! l ! i)" if q: "q < n" "ent V S' l i q \<noteq> None" for q
    proof (cases "(l, i) \<in> touched V S")
      case True
      then show ?thesis using pt [OF l] q(1) by simp
    next
      case False
      have "q \<noteq> st_lc S" "\<not> st_lc S < q" using q(2) False en [OF l, of q] after [OF l, of q] by auto
      then have "q < st_lc S" "ent V S l i q \<noteq> None" using q(2) en [OF l, of q] by auto
      then show ?thesis using ent_lc(3) [OF P(4) l] pt [OF l] False by simp
    qed
  qed
  have A': "arrays_ok V S'" "hashed V {} S'" using S'(2,3) by (simp_all add: tree_ok_def)
  have new: "remembers V S' n (st_mem S, st_ptree S')"
  proof -
    have "keeps (ent V S' l i) n (st_ptree S' ! l ! i) (st_ptree S' ! l ! i)" if "l < PLevels (sv_P V)" "i < psize V l" for l i
      by (rule keeps_none) (use after [OF that] n(1) in simp)
    moreover have "pt_lm (st_ptree S' ! l ! i) \<le> n" if "l < PLevels (sv_P V)" "i < psize V l" for l i
      using ent_lc(2) [OF saved that] S'(4) by simp
    moreover have "keeps (blk V S' i) n (st_mem S' ! i) (st_mem S ! i)" if "i < nb S" for i
      unfolding S'(5) by (rule keeps_none) (use bk that blk_none_after [OF A P(3) that] n(1) in simp)
    ultimately show ?thesis using leaf_digest [OF A'] S'(5) by (simp add: remembers_def)
  qed
  have old: "remembers V S' c (m, t)" if c: "H c = Some (m, t)" for c m t
  proof -
    have lc: "c \<le> st_lc S" using log_of_in(2) [OF P(3), of c] c by simp
    note R = P(5) [OF c, unfolded remembers_def prod.case]
    have "keeps (ent V S' l i) c (st_ptree S' ! l ! i) (t ! l ! i)" if l: "l < PLevels (sv_P V)" "i < psize V l" for l i
    proof -
      have k: "keeps (ent V S l i) c (st_ptree S ! l ! i) (t ! l ! i)" using R l by blast
      note E = ent_lc(1) [OF P(4) l]
      show ?thesis
      proof (cases "(l, i) \<in> touched V S \<and> ent V S l i (st_lc S) = None")
        case True
        show ?thesis by (rule keeps_save [OF k, of "st_lc S"]) (use True lc en [OF l] ent_none_after [OF P(3) l] in simp_all)
      next
        case False
        have "ent V S' l i = ent V S l i"
          using False E en [OF l] l(1) by (auto simp: fun_eq_iff touched_def modified_def split: if_splits)
        moreover have "st_ptree S' ! l ! i = st_ptree S ! l ! i \<or> ent V S l i (st_lc S) \<noteq> None" using pt [OF l] False by (auto split: if_splits)
        ultimately show ?thesis using k keeps_covered [OF k _ lc] by auto
      qed
    qed
    then show ?thesis using R bk unfolding remembers_def prod.case S'(5) by simp
  qed
  have "hist_ok V ?H S'" using S'(2,6) P(2) log saved new old by (auto simp: hist_ok_def)
  moreover have "state_digest V n S' = Some (Some (pt_d (st_ptree S' ! 0 ! 0)))"
    using d log_of_range [OF log, of n] by (auto simp: state_digest_def dest!: recs_fetch)
  ultimately show ?thesis using S' by blast
qed

section \<open>Rolling back\<close>

lemma bits_of_set: "bm_ok b \<Longrightarrow> \<exists>is. bits_of b = Some is \<and> set is = bm_set b"
proof -
  assume b: "bm_ok b"
  have "wanted b True = bm_set b" by (auto simp: wanted_def bm_set_def)
  then have "bits_of b = Some (sorted_list_of_set (bm_set b))" using Iter_all_sorted [OF b, of True] by (simp add: bits_of_def)
  then show ?thesis using bm.finite_bits [OF b] by simp
qed

lemma restore_blocks:
  assumes "rec_ok P N r" "length mem = N" "\<And>i. i \<in> set is \<Longrightarrow> i < N \<and> rec_blk r i \<noteq> None"
  shows "\<exists>mem'. fold_opt (restore_block r) is mem = Some mem' \<and> length mem' = N \<and>
    (\<forall>i < N. mem' ! i = (if i \<in> set is then the (rec_blk r i) else mem ! i))"
  using assms(2,3)
proof (induction "is" arbitrary: mem)
  case (Cons i js)
  obtain v where v: "rec_blk r i = Some v" "i < N" using Cons.prems(2) [of i] by auto
  obtain c where c: "rec_fetch_block i r = Some c" "map_option bc_data c = rec_blk r i" using rec_fetch_block_eq [OF assms(1) v(2)] by blast
  then have "restore_block r i mem = Some (mem[i := v])" using v Cons.prems(1) by (auto simp: restore_block_def arr_set_def)
  moreover obtain mem' where "fold_opt (restore_block r) js (mem[i := v]) = Some mem'" "length mem' = N"
    "\<forall>k < N. mem' ! k = (if k \<in> set js then the (rec_blk r k) else mem[i := v] ! k)"
    using Cons.IH [of "mem[i := v]"] Cons.prems by auto
  ultimately show ?case using v Cons.prems(1) by (intro exI [of _ mem']) (auto simp: nth_list_update)
qed simp

text \<open>The digests are those of the last checkpoint.\<close>

lemma hashed_restored:
  assumes "tree_ok V S" "length mem = nb S"
    and "\<And>i. i < nb S \<Longrightarrow> set_state_block (sv_cr V) (mem ! i) i (pt_lm (st_ptree S ! top_level V ! i)) = pt_d (st_ptree S ! top_level V ! i)"
  shows "hashed V {} (S\<lparr>st_mem := mem\<rparr>)"
  unfolding hashed_def
proof (intro allI impI)
  fix l i assume l: "l < PLevels (sv_P V)" "i < width V (S\<lparr>st_mem := mem\<rparr>) l"
  have A: "arrays_ok V S" using assms(1) by (simp add: tree_ok_def)
  have w: "i < width V S l" using l(2) assms(2) by (simp add: width_def split: if_splits)
  have i: "i < psize V l" using width_psize [OF A l(1)] w by simp
  show "part_digest V l i (S\<lparr>st_mem := mem\<rparr>) = Some (pt_d (st_ptree (S\<lparr>st_mem := mem\<rparr>) ! l ! i))"
  proof (cases "l = top_level V")
    case True
    then show ?thesis using part_in(1) [OF A l(1) i] w assms(2,3) by (simp add: part_digest_def width_def arr_get_def)
  next
    case False
    then have "part_digest V l i (S\<lparr>st_mem := mem\<rparr>) = part_digest V l i S" by (simp add: part_digest_def)
    moreover have "part_digest V l i S = Some (pt_d (st_ptree S ! l ! i))" using assms(1) l(1) w False by (auto simp: tree_ok_def hashed_def)
    ultimately show ?thesis by simp
  qed
qed

theorem state_rollback_hist:
  assumes H: "hist_ok V H S" and h: "H (st_lc S) = Some (m, t)"
  shows "\<exists>S'. state_rollback V S = Some (st_lc S, S') \<and> hist_ok V H S' \<and> st_mem S' = m \<and> bm_set (st_cowb S') = {} \<and>
    st_lc S' = st_lc S \<and> st_ptree S' = st_ptree S"
proof -
  note P = hist_parts [OF H] and A = hist_arrays(1) [OF H] and lg = hist_arrays(2) [OF H]
  let ?lc = "st_lc S"
  note R = P(5) [OF h, unfolded remembers_def prod.case]
  obtain r where r: "recs V S ?lc = Some r" "\<not> is_zero (rc_sd r)" using hist_lc(1) [OF H] by blast
  have ro: "rec_ok (sv_P V) (nb S) r" by (rule recs_ok [OF lg r(1)])
  have top: "top_level V < PLevels (sv_P V)" "psize V (top_level V) = nb S" using arrays_shape [OF A] by simp_all
  have bm: "bm_ok (st_cowb S)" "num (st_cowb S) = nb S" using A by (simp_all add: arrays_ok_def)
  obtain bs where bs: "bits_of (st_cowb S) = Some bs" "set bs = bm_set (st_cowb S)" using bits_of_set [OF bm(1)] by blast
  have blc: "rec_blk r i = None \<longleftrightarrow> i \<notin> bm_set (st_cowb S)" if "i < nb S" for i
    using ent_lc(1) [OF P(4) top(1), of i] top(2) that r(1) blk_ent [of V S i ?lc] by (simp add: blk_def split: if_splits)
  have "i < nb S \<and> rec_blk r i \<noteq> None" if "i \<in> set bs" for i
    using that bm_set_num [of i "st_cowb S"] blc [of i] unfolding bs(2) bm(2) by simp
  from restore_blocks [of _ "nb S" r "st_mem S" bs, OF ro refl this] obtain mem where mem: "fold_opt (restore_block r) bs (st_mem S) = Some mem" "length mem = nb S"
    "\<And>i. i < nb S \<Longrightarrow> mem ! i = (if i \<in> bm_set (st_cowb S) then the (rec_blk r i) else st_mem S ! i)" unfolding bs(2) by blast
  have restored: "mem ! i = (case blk V S i ?lc of Some v \<Rightarrow> v | None \<Rightarrow> st_mem S ! i)" if "i < nb S" for i
    using mem(3) [OF that] blc [OF that] r(1) by (auto simp: blk_def split: option.splits)
  have same: "mem ! i = m ! i" if i: "i < nb S" for i
  proof -
    have "keeps (blk V S i) ?lc (st_mem S ! i) (m ! i)" using R i by blast
    from keeps_last [OF this blk_none_after [OF A P(3) i]] show ?thesis using restored [OF i] by simp
  qed
  then have memm: "mem = m" using mem(2) R by (intro nth_equalityI) auto
  have now: "t ! l ! i = st_ptree S ! l ! i" if l: "l < PLevels (sv_P V)" "i < psize V l" for l i
    using R l ent_since(2) [OF P(3,4) l ent_lc(2) [OF P(4) l]] by (blast intro: keeps_now)
  define d where "d = pt_d (st_ptree S ! 0 ! 0)"
  have root: "get2 (st_ptree S) 0 0 = Some (st_ptree S ! 0 ! 0)" "\<not> is_zero d"
  proof -
    have L: "0 < top_level V" "0 < PLevels (sv_P V)" "0 < psize V 0" using arrays_shape [OF A] by auto
    show "get2 (st_ptree S) 0 0 = Some (st_ptree S ! 0 ! 0)" by (rule part_in(1) [OF A L(2,3)])
    have w: "0 < width V S 0" using L by (simp add: width_def)
    have "part_digest V 0 0 S = Some d" using P(1) L w by (auto simp: tree_ok_def hashed_def d_def)
    then show "\<not> is_zero d" using part_digest_total [OF A _ L(2) w] P(1) by (auto simp: tree_ok_def)
  qed
  let ?r = "(rec_clear (sv_P V) r)\<lparr>rc_sd := d\<rparr>"
  have cl_ok: "rec_ok (sv_P V) (nb S) (rec_clear (sv_P V) r)" by (rule rec_ok_clear [OF ro top(2)])
  have "rec_ok (sv_P V) (nb S) ?r" using cl_ok by (simp add: rec_ok_def)
  then obtain cl where cl: "with_rec V ?lc (\<lambda>r. Some ((rec_clear (sv_P V) r)\<lparr>rc_sd := d\<rparr>)) (S\<lparr>st_mem := mem\<rparr>) = Some (S\<lparr>st_mem := mem, st_clog := cl\<rparr>)"
    "log_good V (nb S) cl" "recs V (S\<lparr>st_mem := mem, st_clog := cl\<rparr>) = (recs V S)(?lc \<mapsto> ?r)"
    using with_rec_ok [of V "nb S" "S\<lparr>st_mem := mem\<rparr>" ?lc r "\<lambda>r. Some ((rec_clear (sv_P V) r)\<lparr>rc_sd := d\<rparr>)" ?r] lg r(1) by auto
  define S' where "S' = S\<lparr>st_mem := mem, st_clog := cl, st_cowb := bm_clear (st_cowb S)\<rparr>"
  have S': "st_mem S' = mem" "st_lc S' = ?lc" "st_ptree S' = st_ptree S" "st_stree S' = st_stree S" "st_fetching S' = st_fetching S"
    "bm_set (st_cowb S') = {}" using bm_clear_ok [OF bm(1)] by (simp_all add: S'_def)
  have rb: "state_rollback V S = Some (?lc, S')"
    unfolding state_rollback_def recs_fetch [OF r(1)] bs(1) root(1) using mem(1) cl(1) P(2) hist_lc(2) [OF H] by (simp add: S'_def d_def)
  have rc: "recs V S' = (recs V S)(?lc \<mapsto> ?r)" using cl(3) by (simp add: S'_def recs_def fun_eq_iff)
  have en: "ent V S' l i q = (if q = ?lc then None else ent V S l i q)" for l i q
    using cleared_empty(1) [OF arrays_shape(1) [OF A] cl_ok] by (simp add: ent_def rc)
  have bk: "blk V S' i q = (if q = ?lc then None else blk V S i q)" for i q
    using cleared_empty(2) [OF arrays_shape(1) [OF A] cl_ok] by (simp add: blk_def rc)
  have "arrays_ok V S'" using A cl(2) mem(2) bm bm_clear_ok [OF bm(1)] by (simp add: arrays_ok_def S'_def)
  moreover have "sums_ok V S'"
    using P(1) mem(2) by (simp add: tree_ok_def sums_ok_def level_sum_def width_def S')
  moreover have "hashed V {} S'"
  proof (rule hashed_upd)
    show "hashed V {} (S\<lparr>st_mem := mem\<rparr>)"
      by (rule hashed_restored [OF P(1) mem(2)]) (use R same now [OF top(1)] top(2) in simp)
  qed (simp_all add: S')
  ultimately have "tree_ok V S'" by (simp add: tree_ok_def S')
  moreover have "log_of V H S'"
  proof -
    have "\<exists>r. recs V S' c = Some r \<and> \<not> is_zero (rc_sd r)" if "H c \<noteq> None" for c
      using log_of_in(3) [OF P(3) that] root(2) by (cases "c = ?lc") (simp_all add: rc)
    moreover have "ent V S' k j c = None" if "H c = None" "k < PLevels (sv_P V)" "j < psize V k" for c k j
      using log_of_out [OF P(3) that] by (simp add: en)
    ultimately show ?thesis using P(6) log_of_in(1,2) [OF P(3)] unfolding log_of_def S' by blast
  qed
  moreover have "saved V S'" unfolding saved_def S' using ent_lc [OF P(4)] by (simp add: en)
  moreover have "remembers V S' c (m', t')" if c: "H c = Some (m', t')" for c m' t'
  proof -
    have lc: "c \<le> ?lc" using log_of_in(2) [OF P(3), of c] c by simp
    note R' = P(5) [OF c, unfolded remembers_def prod.case]
    have "keeps (ent V S' l i) c (st_ptree S ! l ! i) (t' ! l ! i)" if l: "l < PLevels (sv_P V)" "i < psize V l" for l i
    proof (rule keeps_drop [where n = ?lc])
      show "keeps (ent V S l i) c (st_ptree S ! l ! i) (t' ! l ! i)" using R' l by blast
      show "st_ptree S ! l ! i = (case ent V S l i ?lc of Some v \<Rightarrow> v | None \<Rightarrow> st_ptree S ! l ! i)"
        using ent_lc(1) [OF P(4) l] by simp
    qed (use lc en ent_none_after [OF P(3) l] in auto)
    moreover have "keeps (blk V S' i) c (mem ! i) (m' ! i)" if i: "i < nb S" for i
    proof (rule keeps_drop [where n = ?lc])
      show "keeps (blk V S i) c (st_mem S ! i) (m' ! i)" using R' i by blast
      show "mem ! i = (case blk V S i ?lc of Some v \<Rightarrow> v | None \<Rightarrow> st_mem S ! i)" by (rule restored [OF i])
    qed (use lc bk blk_none_after [OF A P(3) i] in auto)
    ultimately show ?thesis using R' mem(2) unfolding remembers_def prod.case S' by simp
  qed
  ultimately have "hist_ok V H S'" using P(2) by (auto simp: hist_ok_def S')
  then show ?thesis using rb memm by (intro exI [of _ S']) (simp add: S')
qed

end
