(* ===== verification/State_Run.thy ===== *)
theory State_Run
  imports State_Steps
begin

text \<open>
  Runs of the replicated state: what it starts with, how checkpoints are discarded, and the theorems about every state that a
  sequence of writes, checkpoints, rollbacks and truncations can reach.
\<close>

section \<open>Discarding checkpoints\<close>

lemma fold_clr_mem:
  assumes "fold_opt (\<lambda>n. clr_at clr (g n)) ns rs = Some rs'" "\<And>r. r \<in> set rs \<Longrightarrow> P r" "\<And>r. P r \<Longrightarrow> P (clr r)"
  shows "r \<in> set rs' \<Longrightarrow> P r"
  using assms
proof (induction ns arbitrary: rs)
  case (Cons n ns)
  from Cons.prems(2) obtain rs1 where 1: "clr_at clr (g n) rs = Some rs1" "fold_opt (\<lambda>n. clr_at clr (g n)) ns rs1 = Some rs'"
    by (auto split: Option.bind_splits)
  then have "P r" if "r \<in> set rs1" for r
    using that Cons.prems(3,4) by (auto simp: clr_at_def arr_get_def arr_set_def dest!: set_update_subset_insert [THEN subsetD] split: if_splits)
  with Cons.IH [OF Cons.prems(1) 1(2)] Cons.prems(4) show ?case by blast
qed simp

lemma crlog_truncate_mem:
  assumes "crlog_truncate b clr l h = Some l'" "\<And>r. r \<in> set (cr_records l) \<Longrightarrow> P r" "\<And>r. P r \<Longrightarrow> P (clr r)"
  shows "r \<in> set (cr_records l') \<Longrightarrow> P r"
proof -
  assume r: "r \<in> set (cr_records l')"
  let ?fold = "fold_opt (\<lambda>n. clr_at clr (record_index b l n)) (checkpoints_from b (cr_head l) h) (cr_records l)"
  show "P r"
  proof (cases "h \<le> cr_head l \<or> \<not> crlog_within_range b l h")
    case True
    then have "l' = l \<or> l' = crlog_clear clr l h" using assms(1) by (auto simp: crlog_truncate_def split: if_splits)
    then show ?thesis using r assms(2,3) by (auto simp: crlog_clear_def)
  next
    case False
    then obtain rs where rs: "?fold = Some rs" "fold_opt (\<lambda>n. clr_at clr n) (if cr_fetch_seqno l < h then [nat (crlog_MAX_SIZE b - 1)] else []) rs = Some (cr_records l')"
      using assms(1) by (cases ?fold) (auto simp: crlog_truncate_def split: if_splits Option.bind_splits)
    have "P r" if "r \<in> set rs" for r using fold_clr_mem [OF rs(1), where P = P] assms(2,3) that by blast
    then show ?thesis using fold_clr_mem [OF rs(2), where P = P] assms(3) r by blast
  qed
qed

theorem discard_checkpoint_hist:
  assumes H: "hist_ok V H S" and n: "n \<le> st_lc S" "checkpoint_interval (sv_b V) dvd n" "cr_head (st_clog S) \<le> n"
  shows "\<exists>S'. discard_checkpoint V n le S = Some S' \<and> hist_ok V (H |` {n..}) S' \<and> st_lc S' = st_lc S \<and> st_mem S' = st_mem S \<and> cr_head (st_clog S') = n"
proof -
  note P = hist_parts [OF H] and A = hist_arrays(1) [OF H] and lg = hist_arrays(2) [OF H]
  have inv: "crlog_inv (sv_b V) (st_clog S)" using lg by (simp add: log_good_def)
  obtain cl where cl: "crlog_truncate (sv_b V) (rec_clear (sv_P V)) (st_clog S) n = Some cl" "crlog_inv (sv_b V) cl" "cr_head cl = n"
    "\<And>k. n \<le> k \<Longrightarrow> k < cr_head (st_clog S) + (max_out (sv_b V) + 1) \<Longrightarrow> crlog_lookup (sv_b V) cl k = crlog_lookup (sv_b V) (st_clog S) k"
    "\<And>k x. cr_head (st_clog S) + (max_out (sv_b V) + 1) \<le> k \<Longrightarrow> crlog_lookup (sv_b V) cl k = Some x \<Longrightarrow> \<exists>y. x = rec_clear (sv_P V) y"
    using rk.trunc_ok [where lim = n, OF inv n(2,3)] by blast
  have rcl: "rec_ok (sv_P V) (nb S) r \<Longrightarrow> rec_ok (sv_P V) (nb S) (rec_clear (sv_P V) r)" for r
    using rec_ok_clear arrays_shape(3) [OF A] by blast
  have ok: "rec_ok (sv_P V) (nb S) r" if "r \<in> set (cr_records cl)" for r
    by (rule crlog_truncate_mem [OF cl(1) _ _ that]) (use lg rcl in \<open>auto simp: log_good_def\<close>)
  define S' where "S' = S\<lparr>st_clog := cl\<rparr>"
  have S': "st_mem S' = st_mem S" "st_lc S' = st_lc S" "st_ptree S' = st_ptree S" "st_stree S' = st_stree S" "st_cowb S' = st_cowb S"
    "st_fetching S' = st_fetching S" "st_clog S' = cl" by (simp_all add: S'_def)
  have d: "discard_checkpoint V n le S = Some S'" using n(1) cl(1) by (simp add: discard_checkpoint_def S'_def)
  have lg': "log_good V (nb S') (st_clog S')" using cl(2) ok by (simp add: log_good_def S')
  have keep: "recs V S' k = recs V S k" if "n \<le> k" "recs V S k \<noteq> None" for k
    using cl(4) [OF that(1)] recs_iff [OF lg, of k] that(2) by (simp add: recs_def S')
  have fresh: "ent V S' l i k = None" if k: "n \<le> k" "recs V S k = None" for l i k
  proof (cases "recs V S' k")
    case (Some x)
    have "checkpoint_interval (sv_b V) dvd k" using recs_iff [OF lg', of k] Some by simp
    then have "cr_head (st_clog S) + (max_out (sv_b V) + 1) \<le> k" using recs_iff [OF lg, of k] k n(3) by auto
    with cl(5) Some obtain y where y: "x = rec_clear (sv_P V) y" by (auto simp: recs_def S')
    have "rec_ok (sv_P V) (nb S) x" using recs_ok [OF lg' Some] by (simp add: S')
    then show ?thesis using cleared_empty(1) [OF arrays_shape(1) [OF A]] Some y by (simp add: ent_def)
  qed (simp add: ent_def)
  have gone: "ent V S' l i k = None" if "k < n" for l i k
    using recs_iff [OF lg', of k] that cl(3) by (cases "recs V S' k") (simp_all add: ent_def S')
  have en: "ent V S' l i k = ent V S l i k" if "n \<le> k" for l i k
    using keep [OF that] fresh [OF that] by (cases "recs V S k") (simp_all add: ent_def)
  have bk: "blk V S' i k = blk V S i k" if "n \<le> k" for i k
  proof (cases "recs V S k")
    case None
    then have "blk V S i k = None" by (simp add: blk_def)
    moreover have "blk V S' i k = None" using fresh [OF that None] by (simp add: blk_ent)
    ultimately show ?thesis by simp
  qed (use keep [OF that] in \<open>simp add: blk_def\<close>)
  have "arrays_ok V S'" using A lg' by (simp add: arrays_ok_def S')
  moreover have "sums_ok V S'" by (rule sums_ok_upd [of V S]) (use P(1) in \<open>simp_all add: S' tree_ok_def\<close>)
  moreover have "hashed V ({top_level V} \<times> bm_set (st_cowb S)) S'" by (rule hashed_upd [of V _ S]) (use P(1) in \<open>simp_all add: S' tree_ok_def\<close>)
  ultimately have "tree_ok V S'" by (simp add: tree_ok_def S')
  moreover have "log_of V (H |` {n..}) S'"
  proof -
    have "0 \<le> c \<and> c \<le> st_lc S \<and> (\<exists>r. recs V S' c = Some r \<and> \<not> is_zero (rc_sd r))" if "(H |` {n..}) c \<noteq> None" for c
    proof -
      have c: "n \<le> c" "H c \<noteq> None" using that by (auto simp: restrict_map_def split: if_splits)
      show ?thesis using log_of_in [OF P(3) c(2)] keep [OF c(1)] by simp
    qed
    moreover have "ent V S' l i c = None" if "(H |` {n..}) c = None" "l < PLevels (sv_P V)" "i < psize V l" for c l i
      using that gone [of c l i] en [of c l i] log_of_out [OF P(3) _ that(2,3), of c] by (cases "n \<le> c") (simp_all add: restrict_map_def)
    ultimately show ?thesis using P(6) n(1) unfolding log_of_def S' by (simp add: restrict_map_def)
  qed
  moreover have "saved V S'"
    unfolding saved_def S'
  proof (intro conjI allI impI)
    fix l i assume l: "l < PLevels (sv_P V)" "i < psize V l"
    show "ent V S' l i (st_lc S) = (if l = top_level V \<and> i \<in> bm_set (st_cowb S) then Some (st_ptree S ! l ! i) else None)"
      using en [OF n(1)] ent_lc(1) [OF P(4) l] by simp
    show "pt_lm (st_ptree S ! l ! i) \<le> st_lc S" by (rule ent_lc(2) [OF P(4) l])
    show "k < pt_lm (st_ptree S ! l ! i)" if "k < st_lc S" "ent V S' l i k \<noteq> None" for k
      using that gone [of k l i] en [of k l i] ent_lc(3) [OF P(4) l, of k] by (cases "n \<le> k") simp_all
  qed
  moreover have "remembers V S' c (m, t)" if c: "(H |` {n..}) c = Some (m, t)" for c m t
  proof -
    have c: "n \<le> c" "H c = Some (m, t)" using c by (auto simp: restrict_map_def split: if_splits)
    note R = P(5) [OF c(2), unfolded remembers_def prod.case]
    have "keeps (ent V S' l i) c (st_ptree S ! l ! i) (t ! l ! i)" if l: "l < PLevels (sv_P V)" "i < psize V l" for l i
    proof (rule keeps_cong)
      show "keeps (ent V S l i) c (st_ptree S ! l ! i) (t ! l ! i)" using R l by blast
    qed (use en c(1) in auto)
    moreover have "keeps (blk V S' i) c (st_mem S ! i) (m ! i)" if i: "i < nb S" for i
    proof (rule keeps_cong)
      show "keeps (blk V S i) c (st_mem S ! i) (m ! i)" using R i by blast
    qed (use bk c(1) in auto)
    ultimately show ?thesis using R unfolding remembers_def prod.case S' by simp
  qed
  ultimately have "hist_ok V (H |` {n..}) S'" using P(2) by (auto simp: hist_ok_def S')
  then show ?thesis using d S' cl(3) by (intro exI [of _ S']) simp
qed

end
