(* ===== verification/State_Transfer.thy ===== *)
theory State_Transfer
  imports State_Fetch State_Run
begin

text \<open>
  What a state transfer keeps true, whatever messages arrive in whatever order: the digest that the tree has for a block is the digest of the
  block in memory, and every sum is the sum of the digests of the sub-partitions.
\<close>

section \<open>Sums over sub-partitions\<close>

definition sub_sum :: "(nat \<Rightarrow> nat) \<Rightarrow> part list list \<Rightarrow> nat \<Rightarrow> nat \<Rightarrow> int" where
  "sub_sum ps t l j = (\<Sum>i | i < length (t ! Suc l) \<and> i div ps (Suc l) = j. digest_val (pt_d (t ! Suc l ! i))) mod DSum_M"

definition sums_all :: "(nat \<Rightarrow> nat) \<Rightarrow> part list list \<Rightarrow> int list list \<Rightarrow> bool" where
  "sums_all ps t u \<longleftrightarrow> (\<forall>l < length u. \<forall>j < length (u ! l). u ! l ! j = sub_sum ps t l j)"

definition digs_wf :: "part list list \<Rightarrow> bool" where
  "digs_wf t \<longleftrightarrow> (\<forall>l < length t. \<forall>i < length (t ! l). length (pt_d (t ! l ! i)) = num_words)"

lemma sub_sum_range: "0 \<le> sub_sum ps t l j" "sub_sum ps t l j < DSum_M"
  by (simp_all add: sub_sum_def DSum_M_def)

lemma sub_sum_replace:
  assumes "Suc l < length t" "i < length (t ! Suc l)"
  shows "sub_sum ps (t[Suc l := (t ! Suc l)[i := q]]) l (i div ps (Suc l)) =
    ((sub_sum ps t l (i div ps (Suc l)) - digest_val (pt_d (t ! Suc l ! i))) mod DSum_M + digest_val (pt_d q)) mod DSum_M"
proof -
  let ?A = "{k. k < length (t ! Suc l) \<and> k div ps (Suc l) = i div ps (Suc l)}" and ?t = "t[Suc l := (t ! Suc l)[i := q]]"
  let ?f = "\<lambda>k. digest_val (pt_d (t ! Suc l ! k))" and ?g = "\<lambda>k. digest_val (pt_d (?t ! Suc l ! k))"
  have fin: "finite ?A" "i \<in> ?A" using assms(2) by auto
  have "sum ?g ?A = ?g i + sum ?g (?A - {i})" "sum ?f ?A = ?f i + sum ?f (?A - {i})"
    using fin sum.remove [of ?A i ?g] sum.remove [of ?A i ?f] by simp_all
  moreover have "sum ?g (?A - {i}) = sum ?f (?A - {i})" by (rule sum.cong) (use assms in \<open>auto simp: nth2_update\<close>)
  moreover have "?g i = digest_val (pt_d q)" using assms by (simp add: nth2_update)
  ultimately have "sum ?g ?A = sum ?f ?A - ?f i + digest_val (pt_d q)" by simp
  moreover have "length (?t ! Suc l) = length (t ! Suc l)" using assms by simp
  ultimately show ?thesis unfolding sub_sum_def by (simp add: mod_simps)
qed

lemma sub_sum_other:
  assumes "Suc l < length t" "i < length (t ! Suc l)" "(k, j) \<noteq> (l, i div ps (Suc l))"
  shows "sub_sum ps (t[Suc l := (t ! Suc l)[i := q]]) k j = sub_sum ps t k j"
proof -
  have "(t[Suc l := (t ! Suc l)[i := q]]) ! Suc k ! m = t ! Suc k ! m" if "m div ps (Suc k) = j" for m
    using assms(3) that nth2_update [OF assms(1,2)] by auto
  moreover have "length (t[Suc l := (t ! Suc l)[i := q]] ! Suc k) = length (t ! Suc k)" using assms(1) by simp
  ultimately show ?thesis unfolding sub_sum_def by (intro arg_cong [of _ _ "\<lambda>x. x mod DSum_M"] sum.cong) auto
qed

text \<open>Replacing a partition together with the sum of its parent keeps all sums.\<close>

lemma replace_part:
  assumes inv: "sums_all ps t u" "digs_wf t" and l: "1 \<le> l"
    and ops: "get2 t l i = Some p" "get2 u (l - 1) (i div ps l) = Some s0" "dsum_sub s0 (pt_d p) = Some s1" "dsum_add s1 (pt_d q) = Some s2"
      "set2 t l i q = Some t'" "set2 u (l - 1) (i div ps l) s2 = Some u'" and q: "length (pt_d q) = num_words"
  shows "sums_all ps t' u'" "digs_wf t'"
proof -
  obtain k where k: "l = Suc k" using l by (cases l) auto
  have i: "Suc k < length t" "i < length (t ! Suc k)" "p = t ! Suc k ! i" using ops(1) by (auto simp: k get2_Some)
  have j: "k < length u" "i div ps (Suc k) < length (u ! k)" "s0 = u ! k ! (i div ps (Suc k))" using ops(2) by (auto simp: k get2_Some)
  have t': "t' = t[Suc k := (t ! Suc k)[i := q]]" using ops(5) set2_in [OF i(1,2), of q] by (simp add: k)
  have u': "u' = u[k := (u ! k)[i div ps (Suc k) := s2]]" using ops(6) set2_in [OF j(1,2), of s2] by (simp add: k)
  have s0: "s0 = sub_sum ps t k (i div ps (Suc k))" using inv(1) j by (simp add: sums_all_def)
  have lp: "length (pt_d p) = num_words" using inv(2) i by (simp add: digs_wf_def)
  have "s1 = (s0 - digest_val (pt_d p)) mod DSum_M" using ops(3) dsum_sub_mod [OF _ _ lp, of s0] sub_sum_range s0 by simp
  moreover from this have "0 \<le> s1" "s1 < DSum_M" by (simp_all add: DSum_M_def)
  ultimately have "s2 = ((s0 - digest_val (pt_d p)) mod DSum_M + digest_val (pt_d q)) mod DSum_M" using ops(4) dsum_add_mod [OF _ _ q, of s1] by simp
  then have s2: "s2 = sub_sum ps t' k (i div ps (Suc k))" unfolding s0 t' sub_sum_replace [OF i(1,2)] i(3) by simp
  show "sums_all ps t' u'"
    unfolding sums_all_def
  proof (intro allI impI)
    fix m n assume m: "m < length u'" "n < length (u' ! m)"
    show "u' ! m ! n = sub_sum ps t' m n"
    proof (cases "(m, n) = (k, i div ps (Suc k))")
      case True
      then show ?thesis using s2 nth2_update [OF j(1,2)] by (simp add: u')
    next
      case False
      then have "u' ! m ! n = u ! m ! n" using nth2_update [OF j(1,2)] by (auto simp: u')
      then show ?thesis using sub_sum_other [of k t i m n ps q, OF i(1,2) False] inv(1) m j(1) by (simp add: sums_all_def t' u')
    qed
  qed
  show "digs_wf t'" using inv(2) i q by (auto simp: digs_wf_def t' nth2_update)
qed

section \<open>The invariant\<close>

definition leaves_ok :: "senv \<Rightarrow> state \<Rightarrow> bool" where
  "leaves_ok V S \<longleftrightarrow> (\<forall>i < nb S. pt_d (st_ptree S ! top_level V ! i) =
     set_state_block (sv_cr V) (st_mem S ! i) i (pt_lm (st_ptree S ! top_level V ! i)))"

definition cert_wf :: "md_cert \<Rightarrow> bool" where
  "cert_wf C \<longleftrightarrow> length (mc_d C) = num_words \<and> mc_cur C \<le> length (mc_vals C) \<and> (\<forall>v \<in> set (mc_vals C). length (pv_d v) = num_words)"

definition queues_wf :: "fpart list list \<Rightarrow> bool" where
  "queues_wf q \<longleftrightarrow> (\<forall>ps \<in> set q. \<forall>p \<in> set ps. length (fp_d p) = num_words)"

definition rec_wf :: "ck_rec \<Rightarrow> bool" where
  "rec_wf r \<longleftrightarrow> (\<forall>p \<in> set (rc_parts r). length (pt_d p) = num_words) \<and> (\<forall>p \<in> set (rc_blocks r). length (pt_d p) = num_words)"

definition recs_wf :: "ck_rec crlog \<Rightarrow> bool" where
  "recs_wf l \<longleftrightarrow> (\<forall>r \<in> set (cr_records l). rec_wf r)"

definition transfer_inv :: "senv \<Rightarrow> state \<Rightarrow> bool" where
  "transfer_inv V S \<longleftrightarrow> sums_all (\<lambda>l. psize V l) (st_ptree S) (st_stree S) \<and> digs_wf (st_ptree S) \<and> (st_fetching S \<longrightarrow> leaves_ok V S) \<and>
     cert_wf (st_cert S) \<and> queues_wf (st_stalep S) \<and> recs_wf (st_clog S) \<and> length (st_ptree S) = PLevels (sv_P V)"

text \<open>What C's types say of the digests in a message.\<close>

definition md_wf :: "meta_data \<Rightarrow> bool" where
  "md_wf m \<longleftrightarrow> (\<forall>p \<in> set (md_parts m). length (snd p) = num_words) \<and> length (md_d m) = num_words"

definition mdd_wf :: "meta_data_d \<Rightarrow> bool" where
  "mdd_wf m \<longleftrightarrow> (\<forall>d \<in> set (mdd_digests m). length d = num_words)"

section \<open>Queues and certificates\<close>

lemma stale_high_wf:
  assumes "queues_wf (st_stalep S)" "stale_high l S = Some p"
  shows "length (fp_d p) = num_words"
proof -
  have "l < length (st_stalep S)" "st_stalep S ! l \<noteq> []" "p = last (st_stalep S ! l)"
    using assms(2) by (auto simp: stale_high_def high_def arr_get_def split: if_splits Option.bind_splits)
  then have "st_stalep S ! l \<in> set (st_stalep S)" "p \<in> set (st_stalep S ! l)" by simp_all
  then show ?thesis using assms(1) unfolding queues_wf_def by blast
qed

lemma queues_wf_update: "queues_wf q \<Longrightarrow> (\<And>p. p \<in> set ps \<Longrightarrow> length (fp_d p) = num_words) \<Longrightarrow> queues_wf (q[l := ps])"
  by (auto simp: queues_wf_def dest!: set_update_subset_insert [THEN subsetD])

lemma queue_ops_wf:
  assumes "queues_wf (st_stalep S)"
  shows "set_stale_high l p S = Some S' \<Longrightarrow> length (fp_d p) = num_words \<Longrightarrow> queues_wf (st_stalep S')"
    "stale_push l p S = Some S' \<Longrightarrow> length (fp_d p) = num_words \<Longrightarrow> queues_wf (st_stalep S')"
    "stale_remove l S = Some S' \<Longrightarrow> queues_wf (st_stalep S')"
proof -
  have q: "length (fp_d x) = num_words" if "l < length (st_stalep S)" "x \<in> set (st_stalep S ! l)" for x
    using assms that nth_mem [OF that(1)] unfolding queues_wf_def by blast
  show "set_stale_high l p S = Some S' \<Longrightarrow> length (fp_d p) = num_words \<Longrightarrow> queues_wf (st_stalep S')"
    using q by (auto simp: set_stale_high_def arr_get_def intro!: queues_wf_update [OF assms] dest!: in_set_butlastD split: if_splits)
  show "stale_push l p S = Some S' \<Longrightarrow> length (fp_d p) = num_words \<Longrightarrow> queues_wf (st_stalep S')"
    using q by (auto simp: stale_push_def arr_get_def intro!: queues_wf_update [OF assms] split: if_splits)
  show "stale_remove l S = Some S' \<Longrightarrow> queues_wf (st_stalep S')"
    using q by (auto simp: stale_remove_def arr_get_def intro!: queues_wf_update [OF assms] dest!: in_set_butlastD split: if_splits)
qed

lemma queue_ops_frame:
  "set_stale_high l p S = Some S' \<Longrightarrow> \<exists>q. S' = S\<lparr>st_stalep := q\<rparr>"
  "stale_push l p S = Some S' \<Longrightarrow> \<exists>q. S' = S\<lparr>st_stalep := q\<rparr>"
  "stale_remove l S = Some S' \<Longrightarrow> \<exists>q. S' = S\<lparr>st_stalep := q\<rparr>"
  by (auto simp: set_stale_high_def stale_push_def stale_remove_def split: if_splits Option.bind_splits)

lemma cert_wf_clear: "cert_wf C \<Longrightarrow> cert_wf (mc_clear C)"
  by (auto simp: cert_wf_def mc_clear_def pv_clear_def dest: in_set_takeD in_set_dropD)

lemma transfer_inv_queue:
  assumes "transfer_inv V S"
  shows "set_stale_high l p S = Some S' \<Longrightarrow> length (fp_d p) = num_words \<Longrightarrow> transfer_inv V S'"
    "stale_push l p S = Some S' \<Longrightarrow> length (fp_d p) = num_words \<Longrightarrow> transfer_inv V S'"
    "stale_remove l S = Some S' \<Longrightarrow> transfer_inv V S'"
proof -
  have *: "transfer_inv V (S\<lparr>st_stalep := q\<rparr>)" if "queues_wf q" for q using assms that by (simp add: transfer_inv_def leaves_ok_def)
  have q: "queues_wf (st_stalep S)" using assms by (simp add: transfer_inv_def)
  show "set_stale_high l p S = Some S' \<Longrightarrow> length (fp_d p) = num_words \<Longrightarrow> transfer_inv V S'"
    "stale_push l p S = Some S' \<Longrightarrow> length (fp_d p) = num_words \<Longrightarrow> transfer_inv V S'"
    "stale_remove l S = Some S' \<Longrightarrow> transfer_inv V S'"
    using queue_ops_frame(1) [of l p S S'] queue_ops_frame(2) [of l p S S'] queue_ops_frame(3) [of l S S'] queue_ops_wf(1,2) [OF q, of l p S']
      queue_ops_wf(3) [OF q, of l S'] * by auto
qed

text \<open>The certificate only has digests of the messages that were added.\<close>

lemma drop_vals_wf:
  "drop_vals i ls vs cur = Some (vs', cur') \<Longrightarrow> (\<forall>v \<in> set vs. length (pv_d v) = num_words) \<Longrightarrow> cur \<le> length vs \<Longrightarrow>
     (\<forall>v \<in> set vs'. length (pv_d v) = num_words) \<and> length vs' = length vs"
proof (induction cur arbitrary: vs)
  case (Suc cur)
  have c: "cur < length vs" using Suc.prems(3) by simp
  define vs1 where "vs1 = (if i < cur then vs[i := vs ! cur] else vs)"
  define vs2 where "vs2 = vs1[cur := pv_clear (vs1 ! cur)]"
  have l1: "length vs1 = length vs" "length vs2 = length vs" by (simp_all add: vs1_def vs2_def)
  have w1: "length (pv_d v) = num_words" if "v \<in> set vs1" for v
    using that Suc.prems(2) nth_mem [OF c] by (auto simp: vs1_def split: if_splits dest!: set_update_subset_insert [THEN subsetD])
  have w2: "length (pv_d v) = num_words" if "v \<in> set vs2" for v
    using that w1 nth_mem [of cur vs1] c l1(1) by (auto simp: vs2_def pv_clear_def dest!: set_update_subset_insert [THEN subsetD])
  from Suc.prems(1) have "(if pv_c (vs2 ! i) < ls \<and> cur > 0 then drop_vals i ls vs2 cur else Some (vs2, cur)) = Some (vs', cur')"
    by (auto simp: Let_def vs1_def vs2_def split: if_splits Option.bind_splits)
  then show ?case using Suc.IH [of vs2] w2 l1(2) Suc.prems(3) by (auto split: if_splits)
qed simp

lemma mdd_digest_wf: "mdd_wf m \<Longrightarrow> mdd_digest b n m = Some (Some d) \<Longrightarrow> length d = num_words"
  by (auto simp: mdd_digest_def mdd_wf_def arr_get_def Let_def split: if_splits Option.bind_splits)

lemma adjust_vals_wf:
  "adjust_vals b om m i matched C = Some (matched', C') \<Longrightarrow> cert_wf C \<Longrightarrow> cert_wf C'"
proof (induction b om m i matched C rule: adjust_vals.induct)
  case (1 b om m i matched C)
  show ?case
  proof (cases "i < mc_cur C")
    case False
    then show ?thesis using "1.prems" by (simp add: adjust_vals.simps [of b om m i matched C])
  next
    case True
    let ?v = "mc_vals C ! i"
    have i: "i < length (mc_vals C)" using True "1.prems"(2) by (simp add: cert_wf_def)
    note e0 = "1.prems"(1) [unfolded adjust_vals.simps [of b om m i matched C] if_P [OF True] Let_def]
    obtain old where old: "(case om of None \<Rightarrow> Some False | Some om \<Rightarrow> votes b om ?v) = Some old"
      using e0 by (auto split: Option.bind_splits)
    define v1 where "v1 = (if old then ?v\<lparr>pv_count := pv_count ?v - 1\<rparr> else ?v)"
    note e1 = e0 [unfolded old bind.bind_lunit, folded v1_def]
    obtain new where new: "votes b m v1 = Some new" using e1 by (auto split: Option.bind_splits)
    define v2 where "v2 = (if new then v1\<lparr>pv_count := pv_count v1 + 1\<rparr> else v1)"
    note e2 = e1 [unfolded new bind.bind_lunit, folded v2_def]
    obtain ma where ma: "(if new then arr_set matched (nat ((pv_c v2 - mdd_ls m) sdiv checkpoint_interval b)) True else Some matched) = Some ma"
      using e2 by (auto split: Option.bind_splits)
    define C1 where "C1 = C\<lparr>mc_vals := (mc_vals C)[i := v2]\<rparr>"
    note eq = e2 [unfolded ma bind.bind_lunit, folded C1_def]
    have "length (pv_d v2) = num_words" using "1.prems"(2) nth_mem [OF i] by (simp add: v2_def v1_def cert_wf_def)
    then have C1: "cert_wf C1" using "1.prems"(2) by (auto simp: C1_def cert_wf_def dest!: set_update_subset_insert [THEN subsetD])
    note IH = "1.IH" [OF True refl old v1_def new v2_def ma C1_def]
    show ?thesis
    proof (cases "pv_count v2 = 0 \<or> pv_c v2 < mc_ls C1")
      case drop: True
      obtain vs cur where d: "drop_vals i (mc_ls C1) (mc_vals C1) (mc_cur C1) = Some (vs, cur)"
        "adjust_vals b om m (Suc i) ma (C1\<lparr>mc_vals := vs, mc_cur := cur\<rparr>) = Some (matched', C')"
        using eq drop by (auto split: option.splits)
      have "cert_wf (C1\<lparr>mc_vals := vs, mc_cur := cur\<rparr>)" using drop_vals_wf [OF d(1)] drop_vals_less [OF d(1)] C1 by (simp add: cert_wf_def)
      with IH(1) [OF drop d(1) refl d(2)] show ?thesis by blast
    next
      case False
      have "cert_wf (C1\<lparr>mc_c := pv_c v2, mc_d := pv_d v2\<rparr>)" using C1 \<open>length (pv_d v2) = num_words\<close> by (simp add: cert_wf_def)
      then show ?thesis using IH(2,3) [OF False] C1 eq False by (simp split: if_splits)
    qed
  qed
qed

lemma new_val_wf: "new_val b m matched k C = Some C' \<Longrightarrow> mdd_wf m \<Longrightarrow> cert_wf C \<Longrightarrow> cert_wf C'"
  by (auto simp: new_val_def Let_def cert_wf_def mdd_digest_wf split: if_splits option.splits Option.bind_splits
      dest!: set_update_subset_insert [THEN subsetD])

lemma mc_add_wf:
  assumes "mc_add b nd ok m own C = Some (r, C')" "mdd_wf m" "cert_wf C"
  shows "cert_wf C'"
proof -
  have frame: "cert_wf (C\<lparr>mc_mine := x\<rparr>)" "cert_wf (C\<lparr>mc_mdds := y\<rparr>)" "cert_wf (C\<lparr>mc_mdds := y, mc_ls := z\<rparr>)" "cert_wf (C\<lparr>mc_mine := x, mc_mdds := y\<rparr>)"
    "cert_wf (C\<lparr>mc_mine := x, mc_mdds := y, mc_ls := z\<rparr>)" for x y z using assms(3) by (simp_all add: cert_wf_def)
  have "cert_wf C4" if "fold_opt (new_val b m matched) ks C3 = Some C4" "adjust_vals b om m 0 M C2 = Some (matched, C3)" "cert_wf C2" for C4 matched ks C3 om M C2
    by (rule fold_opt_inv [OF that(1), where P = cert_wf]) (use adjust_vals_wf [OF that(2,3)] new_val_wf assms(2) in auto)
  then show ?thesis using assms(1,3) frame
    by (auto simp: mc_add_def Let_def split: if_splits Option.bind_splits)
qed

section \<open>Records\<close>

lemma rec_clear_wf: "rec_wf r \<Longrightarrow> rec_wf (rec_clear P r)"
  by (auto simp: rec_wf_def rec_clear_def clear_lm_def dest: in_set_takeD in_set_dropD)

lemma rec_appendr_wf:
  "rec_appendr P l i p r = Some r' \<Longrightarrow> rec_wf r \<Longrightarrow> length (pt_d p) = num_words \<Longrightarrow> rec_wf r'"
  "rec_appendr_block i lm d b r = Some r' \<Longrightarrow> rec_wf r \<Longrightarrow> length d = num_words \<Longrightarrow> rec_wf r'"
  "rec_append_block i lm d b r = Some r' \<Longrightarrow> rec_wf r \<Longrightarrow> length d = num_words \<Longrightarrow> rec_wf r'"
  by (auto simp: rec_appendr_def rec_appendr_block_def rec_append_block_def rec_wf_def arr_set_def split: if_splits Option.bind_splits
      dest!: set_update_subset_insert [THEN subsetD])

lemma crlog_fetch_wf: "recs_wf l \<Longrightarrow> crlog_fetch b l n = Some r \<Longrightarrow> rec_wf r"
  using crlog_fetch_mem by (fastforce simp: recs_wf_def)

lemma with_rec_wf:
  assumes "with_rec V n f S = Some S'" "recs_wf (st_clog S)" "\<And>r r'. rec_wf r \<Longrightarrow> f r = Some r' \<Longrightarrow> rec_wf r'"
  shows "recs_wf (st_clog S')" "\<exists>cl. S' = S\<lparr>st_clog := cl\<rparr>"
proof -
  obtain r r' cl where *: "crlog_fetch (sv_b V) (st_clog S) n = Some r" "f r = Some r'" "crlog_put (sv_b V) (st_clog S) n r' = Some cl" "S' = S\<lparr>st_clog := cl\<rparr>"
    using assms(1) by (auto simp: with_rec_def split: Option.bind_splits)
  show "recs_wf (st_clog S')" using crlog_put_mem [OF *(3)] assms(3) [OF crlog_fetch_wf [OF assms(2) *(1)] *(2)] assms(2) *(4) by (auto simp: recs_wf_def)
  show "\<exists>cl. S' = S\<lparr>st_clog := cl\<rparr>" using *(4) by blast
qed

lemma with_rec_frame:
  assumes "with_rec V n f S = Some S'" "recs_wf (st_clog S)" "\<And>r r'. rec_wf r \<Longrightarrow> f r = Some r' \<Longrightarrow> rec_wf r'"
  shows "\<exists>cl. S' = S\<lparr>st_clog := cl\<rparr> \<and> recs_wf cl"
proof -
  have "recs_wf (st_clog S')" by (rule with_rec_wf(1) [OF assms(1,2)]) (rule assms(3))
  moreover have "\<exists>cl. S' = S\<lparr>st_clog := cl\<rparr>" by (rule with_rec_wf(2) [OF assms(1,2)]) (rule assms(3))
  ultimately show ?thesis by auto
qed

lemma truncate_wf: "crlog_truncate b (rec_clear P) l h = Some l' \<Longrightarrow> recs_wf l \<Longrightarrow> recs_wf l'"
  unfolding recs_wf_def using crlog_truncate_mem [where P = rec_wf] rec_clear_wf by blast

lemma rec_fetch_wf:
  "rec_wf r \<Longrightarrow> rec_fetch P l i r = Some (Some q) \<Longrightarrow> length (pt_d q) = num_words"
  by (auto simp: rec_wf_def rec_fetch_def rec_fetch_block_def arr_get_def part.defs split: if_splits Option.bind_splits)

lemma first_entry_wf:
  "first_entry V (rec_fetch P l i) ns S = Some q \<Longrightarrow> recs_wf (st_clog S) \<Longrightarrow> length (pt_d q) = num_words"
proof (induction ns)
  case (Cons n ns)
  then show ?case by (auto split: if_splits option.splits Option.bind_splits dest: rec_fetch_wf crlog_fetch_wf)
qed simp

lemma get_meta_data_wf:
  "get_meta_data V n l i S = Some q \<Longrightarrow> recs_wf (st_clog S) \<Longrightarrow> digs_wf (st_ptree S) \<Longrightarrow> length (pt_d q) = num_words"
  by (auto simp: get_meta_data_def digs_wf_def get2_Some split: if_splits Option.bind_splits dest: first_entry_wf)

lemma merge_entry_wf: "merge_entry V cr li pr = Some pr' \<Longrightarrow> rec_wf cr \<Longrightarrow> rec_wf pr \<Longrightarrow> rec_wf pr'"
proof -
  assume e: "merge_entry V cr li pr = Some pr'" and w: "rec_wf cr" "rec_wf pr"
  have "i < length (rc_blocks cr) \<Longrightarrow> length (pt_d (rc_blocks cr ! i)) = num_words" "i < length (rc_parts cr) \<Longrightarrow> length (pt_d (rc_parts cr ! i)) = num_words" for i
    using w(1) by (simp_all add: rec_wf_def)
  then show "rec_wf pr'" using e w(2) by (auto simp: merge_entry_def arr_get_def split: if_splits prod.splits Option.bind_splits intro: rec_appendr_wf)
qed

lemma merge_previous_wf:
  assumes "merge_previous V S = Some S'" "recs_wf (st_clog S)"
  shows "recs_wf (st_clog S')" "\<exists>cl. S' = S\<lparr>st_clog := cl\<rparr>"
proof -
  define prev where "prev = st_lc S sdiv checkpoint_interval (sv_b V) * checkpoint_interval (sv_b V)"
  have "recs_wf (st_clog S') \<and> (\<exists>cl. S' = S\<lparr>st_clog := cl\<rparr>)"
  proof (cases "S' = S")
    case True
    then show ?thesis using assms(2) by (simp add: exI [of _ "st_clog S"])
  next
    case False
    obtain pr cr pr' where *: "crlog_fetch (sv_b V) (st_clog S) prev = Some pr" "crlog_fetch (sv_b V) (st_clog S) (st_lc S) = Some cr"
      "fold_opt (merge_entry V cr) (rec_entries (sv_P V) cr) pr = Some pr'" "with_rec V prev (\<lambda>_. Some pr') S = Some S'"
      using assms(1) False by (auto simp: merge_previous_def Let_def prev_def [symmetric] Option.bind_eq_Some_conv split: if_splits)
    have w: "rec_wf pr" "rec_wf cr" using crlog_fetch_wf [OF assms(2)] * by blast+
    have "rec_wf pr'" by (rule fold_opt_inv [OF *(3), where P = rec_wf, OF w(1)]) (rule merge_entry_wf [OF _ w(2)])
    with with_rec_wf [OF *(4) assms(2)] show ?thesis by blast
  qed
  then show "recs_wf (st_clog S')" "\<exists>cl. S' = S\<lparr>st_clog := cl\<rparr>" by blast+
qed

section \<open>The operations\<close>

text \<open>The operations that only touch queues, certificates, flags and outputs.\<close>

lemma transfer_inv_frame:
  assumes "transfer_inv V S" "st_mem S' = st_mem S" "st_ptree S' = st_ptree S" "st_stree S' = st_stree S" "st_fetching S' \<longrightarrow> st_fetching S"
    "cert_wf (st_cert S')" "queues_wf (st_stalep S')" "recs_wf (st_clog S')"
  shows "transfer_inv V S'"
  using assms by (simp add: transfer_inv_def leaves_ok_def)

lemma transfer_inv_parts:
  assumes "transfer_inv V S"
  shows "sums_all (\<lambda>l. psize V l) (st_ptree S) (st_stree S)" "digs_wf (st_ptree S)" "st_fetching S \<Longrightarrow> leaves_ok V S" "cert_wf (st_cert S)"
    "queues_wf (st_stalep S)" "recs_wf (st_clog S)" "length (st_ptree S) = PLevels (sv_P V)"
  using assms by (simp_all add: transfer_inv_def)

lemma own_digests_wf:
  assumes "own_digests V l i S m = Some m'" "mdd_wf m" "transfer_inv V S"
  shows "mdd_wf m'"
  using assms(1) unfolding own_digests_def
proof (rule fold_opt_inv [where P = mdd_wf])
  fix n m m'
  assume m: "mdd_wf m" and e: "(crlog_fetch (sv_b V) (st_clog S) n \<bind>
     (\<lambda>r. if is_zero (rc_sd r) then Some m else get_meta_data V n l i S \<bind> (\<lambda>q. add_digest (sv_b V) n (pt_d q) m))) = Some m'"
  show "mdd_wf m'" using e m get_meta_data_wf [of V n l i S] transfer_inv_parts(2,6) [OF assms(3)]
    by (auto simp: add_digest_def Let_def mdd_wf_def arr_set_def split: if_splits Option.bind_splits dest!: set_update_subset_insert [THEN subsetD])
qed (rule assms(2))

lemma send_fetch_inv:
  assumes "send_fetch V K ch W = Some W'" "transfer_inv V (fw_st W)"
  shows "transfer_inv V (fw_st W')"
proof -
  obtain rid p r W1 where W1: "add_own_cert V rid p W1 = Some W'" "fw_st W1 = (fw_st W)\<lparr>st_last_fetch_t := fk_now K, st_lreplier := r\<rparr>"
  proof -
    obtain rid nd p replier S1 where *: "choose_replier ch p nd ((fw_st W)\<lparr>st_last_fetch_t := fk_now K\<rparr>) = Some (replier, S1)"
      "add_own_cert V rid p (fsend (MFetch (Fetch_new (sv_cr V) nd rid (fp_lu p) (int (st_flevel S1)) (int (fp_index p)) (fp_c p) replier)) All_replicas
         (W\<lparr>fw_st := S1, fw_nd := nd\<rparr>)) = Some W'"
      using assms(1) by (auto simp: send_fetch_def Let_def Option.bind_eq_Some_conv)
    have "\<exists>r. S1 = (fw_st W)\<lparr>st_last_fetch_t := fk_now K, st_lreplier := r\<rparr>"
      using *(1) by (cases "fp_c p \<ge> 0") (auto simp: choose_replier_def Option.bind_eq_Some_conv intro: exI [of _ "st_lreplier (fw_st W)"])
    with *(2) show ?thesis using that by (auto simp: fsend_def)
  qed
  have I: "transfer_inv V (fw_st W1)" unfolding W1(2) by (rule transfer_inv_frame [OF assms(2)]) (use transfer_inv_parts [OF assms(2)] in simp_all)
  show ?thesis
  proof (cases "W' = W1")
    case False
    then obtain m0 m b C where *: "Meta_data_d_new (sv_b V) (sv_P V) (fw_nd W1) rid (st_flevel (fw_st W1)) (fp_index p) (cr_head (st_clog (fw_st W1))) = Some m0"
      "own_digests V (st_flevel (fw_st W1)) (fp_index p) (fw_st W1) m0 = Some m" "mc_add (sv_b V) (fw_nd W1) True m True (st_cert (fw_st W1)) = Some (b, C)"
      "W' = W1\<lparr>fw_st := (fw_st W1)\<lparr>st_cert := C\<rparr>\<rparr>"
      using W1(1) by (auto simp: add_own_cert_def Let_def Option.bind_eq_Some_conv split: if_splits)
    have "mdd_wf m0" using *(1) by (auto simp: Meta_data_d_new_def Let_def mdd_wf_def digest_zero_def split: Option.bind_splits if_splits)
    from mc_add_wf [OF *(3) own_digests_wf [OF *(2) this I]] have "cert_wf C" using transfer_inv_parts(4) [OF I] by blast
    then show ?thesis unfolding *(4) using transfer_inv_parts [OF I] by (auto intro: transfer_inv_frame [OF I])
  qed (use I in simp)
qed

lemma send_fetch_frame:
  assumes "send_fetch V K b W = Some W'"
  shows "st_mem (fw_st W') = st_mem (fw_st W) \<and> st_ptree (fw_st W') = st_ptree (fw_st W) \<and> st_stree (fw_st W') = st_stree (fw_st W) \<and>
    st_clog (fw_st W') = st_clog (fw_st W)"
  using assms unfolding send_fetch_def Let_def
  by (auto simp: add_own_cert_def choose_replier_def fsend_def Let_def elim!: bind_SomeE if_SomeE)

text \<open>Replacing a partition in the tree of a state.\<close>

lemma put_part_Some: "put_part l i p S = Some S' \<longleftrightarrow> (\<exists>t. set2 (st_ptree S) l i p = Some t \<and> S' = S\<lparr>st_ptree := t\<rparr>)"
  by (auto simp: put_part_def Option.bind_eq_Some_conv)

lemma put_sum_Some: "put_sum l i x S = Some S' \<longleftrightarrow> (\<exists>t. set2 (st_stree S) l i x = Some t \<and> S' = S\<lparr>st_stree := t\<rparr>)"
  by (auto simp: put_sum_def Option.bind_eq_Some_conv)

lemma set2_Some: "set2 t l i x = Some t' \<longleftrightarrow> l < length t \<and> i < length (t ! l) \<and> t' = t[l := (t ! l)[i := x]]"
  by (auto simp: set2_def arr_get_def arr_set_def split: if_splits Option.bind_splits)

lemma accept_partition_inv:
  assumes a: "accept_partition V l i wp S = Some S'" and I: "transfer_inv V S" and w: "length (fp_d wp) = num_words" and l: "l < top_level V"
  shows "transfer_inv V S'"
proof -
  note P = transfer_inv_parts [OF I]
  let ?q = "\<lparr>pt_lm = fp_lm wp, pt_d = fp_d wp\<rparr>"
  obtain p S1 where p: "get2 (st_ptree S) l i = Some p"
    "(if st_keep_ckpts S then with_rec V (st_lc S) (rec_appendr (sv_P V) l i p) S else Some S) = Some S1"
    "(if l = 0 then put_part l i ?q S1 else do {
       s0 \<leftarrow> get2 (st_stree S1) (l - 1) (i div psize V l);
       s1 \<leftarrow> dsum_sub s0 (pt_d p);
       S2 \<leftarrow> put_part l i ?q S1;
       s2 \<leftarrow> dsum_add s1 (fp_d wp);
       S3 \<leftarrow> put_sum (l - 1) (i div psize V l) s2 S2;
       pwp \<leftarrow> stale_high (l - 1) S3;
       th_assert (fp_index pwp = i div psize V l);
       if fp_lm wp > fp_lm pwp then set_stale_high (l - 1) (pwp\<lparr>fp_lm := fp_lm wp\<rparr>) S3 else Some S3 }) = Some S'"
    using a unfolding accept_partition_def by (auto simp only: Option.bind_eq_Some_conv)
  have lp: "length (pt_d p) = num_words" using p(1) P(2) by (auto simp: digs_wf_def get2_Some)
  have "recs_wf (st_clog S1) \<and> (\<exists>cl. S1 = S\<lparr>st_clog := cl\<rparr>)"
  proof (cases "st_keep_ckpts S")
    case True
    then have "with_rec V (st_lc S) (rec_appendr (sv_P V) l i p) S = Some S1" using p(2) by simp
    from with_rec_wf [OF this P(6)] rec_appendr_wf(1) lp show ?thesis by blast
  next
    case False
    then show ?thesis using p(2) P(6) by (auto intro: exI [of _ "st_clog S"])
  qed
  then obtain cl where cl: "S1 = S\<lparr>st_clog := cl\<rparr>" "recs_wf cl" by auto
  have lv: "leaves_ok V (S1\<lparr>st_ptree := t, st_stree := u\<rparr>)" "leaves_ok V (S1\<lparr>st_ptree := t\<rparr>)" if "set2 (st_ptree S) l i ?q = Some t" "st_fetching S" for t u
  proof -
    have "t ! top_level V = st_ptree S ! top_level V" using that(1) l by (auto simp: set2_Some)
    then show "leaves_ok V (S1\<lparr>st_ptree := t, st_stree := u\<rparr>)" "leaves_ok V (S1\<lparr>st_ptree := t\<rparr>)" using P(3) that(2) by (simp_all add: leaves_ok_def cl(1))
  qed
  show ?thesis
  proof (cases "l = 0")
    case True
    then obtain t where t: "set2 (st_ptree S) l i ?q = Some t" "S' = S1\<lparr>st_ptree := t\<rparr>" using p(3) cl(1) by (auto simp: put_part_Some)
    have "sub_sum f t k j = sub_sum f (st_ptree S) k j" for f k j using t(1) True by (auto simp: set2_Some sub_sum_def)
    moreover have "digs_wf t" using t(1) P(2) w by (auto simp: digs_wf_def set2_Some nth2_update)
    moreover have "length t = PLevels (sv_P V)" using t(1) P(7) by (auto simp: set2_Some)
    ultimately show ?thesis using P t lv(2) cl by (simp add: transfer_inv_def sums_all_def)
  next
    case False
    then obtain s0 s1 t s2 u pwp where *: "get2 (st_stree S) (l - 1) (i div psize V l) = Some s0" "dsum_sub s0 (pt_d p) = Some s1"
      "set2 (st_ptree S) l i ?q = Some t" "dsum_add s1 (fp_d wp) = Some s2" "set2 (st_stree S) (l - 1) (i div psize V l) s2 = Some u"
      "stale_high (l - 1) (S1\<lparr>st_ptree := t, st_stree := u\<rparr>) = Some pwp"
      "(if fp_lm wp > fp_lm pwp then set_stale_high (l - 1) (pwp\<lparr>fp_lm := fp_lm wp\<rparr>) (S1\<lparr>st_ptree := t, st_stree := u\<rparr>) else Some (S1\<lparr>st_ptree := t, st_stree := u\<rparr>)) = Some S'"
      using p(3) cl(1) by (auto simp: Option.bind_eq_Some_conv put_part_Some put_sum_Some split: if_split_asm)
    have "sums_all (\<lambda>l. psize V l) t u" "digs_wf t"
      using replace_part [where ps = "\<lambda>l. psize V l" and q = ?q, OF P(1,2) _ p(1) *(1,2) _ *(3,5)] False w *(4) by simp_all
    moreover have "length t = PLevels (sv_P V)" using *(3) P(7) by (auto simp: set2_Some)
    ultimately have I1: "transfer_inv V (S1\<lparr>st_ptree := t, st_stree := u\<rparr>)" using P lv(1) [OF *(3)] cl by (simp add: transfer_inv_def)
    have "length (fp_d (pwp\<lparr>fp_lm := fp_lm wp\<rparr>)) = num_words" using stale_high_wf [OF transfer_inv_parts(5) [OF I1] *(6)] by simp
    then show ?thesis using *(7) I1 transfer_inv_queue(1) [OF I1] by (auto split: if_splits)
  qed
qed

text \<open>The end of a transfer, up to what the replica does when it is told of the new state.\<close>

definition callback_ok :: "senv \<Rightarrow> fcall \<Rightarrow> bool" where
  "callback_ok V K \<longleftrightarrow> (\<forall>c W W'. transfer_inv V (fw_st W) \<longrightarrow> \<not> st_fetching (fw_st W) \<longrightarrow> fk_new_state K c W = Some W' \<longrightarrow> transfer_inv V (fw_st W'))"

lemma complete_fetch_inv:
  assumes a: "complete_fetch V K c W = Some W'" and I: "transfer_inv V (fw_st W)" and cb: "callback_ok V K"
  shows "transfer_inv V (fw_st W')"
proof -
  let ?S0 = "(fw_st W)\<lparr>st_fetching := False\<rparr>"
  let ?S1 = "if st_checking ?S0 \<and> st_to_check ?S0 = [] then ?S0\<lparr>st_checking := False\<rparr> else ?S0"
  obtain S2 cl S4 S5 W1 and root :: part where *: "merge_previous V ?S1 = Some S2"
    "(if \<not> crlog_within_range (sv_b V) (st_clog (S2\<lparr>st_lc := c\<rparr>)) c
      then crlog_truncate (sv_b V) (rec_clear (sv_P V)) (st_clog (S2\<lparr>st_lc := c\<rparr>)) (c - max_out (sv_b V)) else Some (st_clog (S2\<lparr>st_lc := c\<rparr>))) = Some cl"
    "with_rec V c (\<lambda>r. Some (r\<lparr>rc_sd := pt_d root\<rparr>)) (S2\<lparr>st_lc := c, st_clog := cl\<rparr>) = Some S4"
    "stale_remove 0 (S4\<lparr>st_cowb := bm_clear (st_cowb S4)\<rparr>) = Some S5"
    "fk_new_state K c (W\<lparr>fw_st := S5\<lparr>st_cert := mc_clear (st_cert S5)\<rparr>\<rparr>) = Some W1"
    "W' = upd_st (\<lambda>S. S\<lparr>st_refetch_level := 0, st_poll_cnt := 16\<rparr>) W1"
    using a unfolding complete_fetch_def Let_def by (elim bind_SomeE) (rule that, assumption+, simp)
  note P = transfer_inv_parts [OF I]
  have "recs_wf (st_clog ?S1)" using P(6) by simp
  note m = merge_previous_wf [OF *(1) this]
  then obtain cl2 where S2: "S2 = ?S1\<lparr>st_clog := cl2\<rparr>" "recs_wf cl2" by auto
  have cl: "recs_wf cl" using *(2) m(1) truncate_wf by (auto split: if_split_asm simp del: if_split)
  obtain cl4 where S4: "S4 = S2\<lparr>st_lc := c, st_clog := cl4\<rparr>" "recs_wf cl4"
  proof -
    have "\<exists>x. S4 = S2\<lparr>st_lc := c, st_clog := cl, st_clog := x\<rparr> \<and> recs_wf x"
      by (rule with_rec_frame [OF *(3)]) (use cl in \<open>auto simp: rec_wf_def\<close>)
    then show ?thesis using that by auto
  qed
  have "transfer_inv V (S4\<lparr>st_cowb := bm_clear (st_cowb S4)\<rparr>)"
    by (rule transfer_inv_frame [OF I]) (use P S4 S2 in simp_all)
  from transfer_inv_queue(3) [OF this *(4)] have I5: "transfer_inv V S5" .
  then have "transfer_inv V (S5\<lparr>st_cert := mc_clear (st_cert S5)\<rparr>)"
    by (rule transfer_inv_frame) (use transfer_inv_parts [OF I5] cert_wf_clear in simp_all)
  moreover have "\<not> st_fetching S5" using queue_ops_frame(3) [OF *(4)] S4 S2 by (auto split: if_split_asm)
  ultimately have I1: "transfer_inv V (fw_st W1)"
    using cb [unfolded callback_ok_def, rule_format, of "W\<lparr>fw_st := S5\<lparr>st_cert := mc_clear (st_cert S5)\<rparr>\<rparr>" c W1] *(5) by simp
  have "W' = upd_st (\<lambda>S. S\<lparr>st_refetch_level := 0, st_poll_cnt := 16\<rparr>) W1" using *(6) by simp
  then show ?thesis using I1 by (simp, elim transfer_inv_frame) (use transfer_inv_parts [OF I1] in simp_all)
qed

lemma done_level_inv:
  assumes "done_level V K l W = Some W'" "transfer_inv V (fw_st W)" "callback_ok V K" "l \<le> top_level V"
  shows "transfer_inv V (fw_st W')"
  using assms
proof (induction l arbitrary: W)
  case (Suc l)
  let ?S = "(fw_st W)\<lparr>st_flevel := l\<rparr>"
  note P = transfer_inv_parts [OF Suc.prems(2)]
  have I0: "transfer_inv V ?S" by (rule transfer_inv_frame [OF Suc.prems(2)]) (use P in simp_all)
  obtain wp0 S1 where *: "stale_high l ?S = Some wp0" "set_stale_high l (wp0\<lparr>fp_lu := fp_c wp0\<rparr>) ?S = Some S1"
    "(if fp_lu (wp0\<lparr>fp_lu := fp_c wp0\<rparr>) \<ge> fp_lm (wp0\<lparr>fp_lu := fp_c wp0\<rparr>) then do {
       S2 \<leftarrow> accept_partition V l (fp_index (wp0\<lparr>fp_lu := fp_c wp0\<rparr>)) (wp0\<lparr>fp_lu := fp_c wp0\<rparr>) S1;
       if l = 0 then complete_fetch V K (fp_lu (wp0\<lparr>fp_lu := fp_c wp0\<rparr>)) (W\<lparr>fw_st := S2\<rparr>)
       else do {
         S3 \<leftarrow> stale_remove l S2;
         n \<leftarrow> stale_size l S3;
         if n = 0 then done_level V K l (W\<lparr>fw_st := S3\<rparr>)
         else send_fetch V K False (W\<lparr>fw_st := (if l \<le> st_refetch_level S3 then S3\<lparr>st_refetch_level := PLevels (sv_P V)\<rparr> else S3)\<rparr>) } }
     else send_fetch V K False (W\<lparr>fw_st := (if l < st_refetch_level S1 then S1\<lparr>st_refetch_level := l\<rparr> else S1)\<rparr>)) = Some W'"
    using Suc.prems(1) unfolding done_level.simps Let_def by (elim bind_SomeE) (rule that)
  have w: "length (fp_d (wp0\<lparr>fp_lu := fp_c wp0\<rparr>)) = num_words" using stale_high_wf [OF transfer_inv_parts(5) [OF I0] *(1)] by simp
  have I1: "transfer_inv V S1" by (rule transfer_inv_queue(1) [OF I0 *(2) w])
  have l: "l < top_level V" using Suc.prems(4) by simp
  have rf: "transfer_inv V (S\<lparr>st_refetch_level := x\<rparr>)" if "transfer_inv V S" for S x
    by (rule transfer_inv_frame [OF that]) (use transfer_inv_parts [OF that] in simp_all)
  show ?case
  proof (cases "fp_c wp0 \<ge> fp_lm wp0")
    case True
    then obtain S2 where S2: "accept_partition V l (fp_index wp0) (wp0\<lparr>fp_lu := fp_c wp0\<rparr>) S1 = Some S2"
      and rest: "(if l = 0 then complete_fetch V K (fp_c wp0) (W\<lparr>fw_st := S2\<rparr>)
       else do {
         S3 \<leftarrow> stale_remove l S2;
         n \<leftarrow> stale_size l S3;
         if n = 0 then done_level V K l (W\<lparr>fw_st := S3\<rparr>)
         else send_fetch V K False (W\<lparr>fw_st := (if l \<le> st_refetch_level S3 then S3\<lparr>st_refetch_level := PLevels (sv_P V)\<rparr> else S3)\<rparr>) }) = Some W'"
      using *(3) by (auto simp: Option.bind_eq_Some_conv cong: if_cong)
    have I2: "transfer_inv V S2" by (rule accept_partition_inv [OF S2 I1 w l])
    show ?thesis
    proof (cases "l = 0")
      case True
      then show ?thesis using rest complete_fetch_inv [OF _ _ Suc.prems(3), of c "W\<lparr>fw_st := S2\<rparr>" W' for c] I2 by simp
    next
      case False
      then obtain S3 and n :: nat where S3: "stale_remove l S2 = Some S3" "(if n = 0 then done_level V K l (W\<lparr>fw_st := S3\<rparr>)
         else send_fetch V K False (W\<lparr>fw_st := (if l \<le> st_refetch_level S3 then S3\<lparr>st_refetch_level := PLevels (sv_P V)\<rparr> else S3)\<rparr>)) = Some W'"
        using rest unfolding if_not_P [OF False] by (elim bind_SomeE) (rule that)
      have I3: "transfer_inv V S3" by (rule transfer_inv_queue(3) [OF I2 S3(1)])
      show ?thesis
      proof (cases "n = 0")
        case True
        then show ?thesis using S3(2) Suc.IH [of "W\<lparr>fw_st := S3\<rparr>"] I3 Suc.prems(3,4) by simp
      next
        case False
        then show ?thesis using S3(2) I3 rf [OF I3] by (auto elim!: send_fetch_inv)
      qed
    qed
  next
    case False
    then show ?thesis using *(3) I1 rf [OF I1] by (auto elim!: send_fetch_inv)
  qed
qed simp

text \<open>A block is installed only when its digest is the wanted one, and then the tree has that digest.\<close>

lemma install_block_inv:
  assumes a: "install_block V i wp m S = Some S'" and I: "transfer_inv V S" and w: "length (fp_d wp) = num_words"
    and d: "fp_d wp = set_state_block (sv_cr V) (da_data m) i (da_lm m)" and top: "1 \<le> top_level V"
  shows "transfer_inv V S'" "st_mem S' = (st_mem S)[i := da_data m]" "i < nb S" "st_flevel S' = st_flevel S"
    "get2 (st_ptree S') (top_level V) i = Some \<lparr>pt_lm = da_lm m, pt_d = fp_d wp\<rparr>"
proof -
  let ?l = "top_level V" and ?q = "\<lparr>pt_lm = da_lm m, pt_d = fp_d wp\<rparr>"
  note P = transfer_inv_parts [OF I]
  obtain p cb t old S1 s0 s1 S2 mem s2 S3 pwp S4 where *: "get2 (st_ptree S) ?l i = Some p"
    "(if st_keep_ckpts (S\<lparr>st_cowb := cb\<rparr>) \<and> \<not> t then with_rec V (st_lc (S\<lparr>st_cowb := cb\<rparr>)) (rec_append_block i (pt_lm p) (pt_d p) old) (S\<lparr>st_cowb := cb\<rparr>) else Some (S\<lparr>st_cowb := cb\<rparr>)) = Some S1"
    "get2 (st_stree S1) (?l - 1) (i div psize V ?l) = Some s0" "dsum_sub s0 (pt_d p) = Some s1" "put_part ?l i ?q S1 = Some S2"
    "arr_set (st_mem S2) i (da_data m) = Some mem" "dsum_add s1 (fp_d wp) = Some s2" "put_sum (?l - 1) (i div psize V ?l) s2 (S2\<lparr>st_mem := mem\<rparr>) = Some S3"
    "stale_high (?l - 1) S3 = Some pwp"
    "(if da_lm m > fp_lm pwp then set_stale_high (?l - 1) (pwp\<lparr>fp_lm := da_lm m\<rparr>) S3 else Some S3) = Some S4"
    "stale_remove ?l (S4\<lparr>st_cert := mc_clear (st_cert S4)\<rparr>) = Some S'"
    using a unfolding install_block_def Let_def by (elim bind_SomeE) (rule that, assumption+)
  have lp: "length (pt_d p) = num_words" using *(1) P(2) by (auto simp: digs_wf_def get2_Some)
  have "recs_wf (st_clog S1) \<and> (\<exists>cl. S1 = S\<lparr>st_cowb := cb, st_clog := cl\<rparr>)"
  proof (cases "st_keep_ckpts S \<and> \<not> t")
    case True
    then have wr: "with_rec V (st_lc S) (rec_append_block i (pt_lm p) (pt_d p) old) (S\<lparr>st_cowb := cb\<rparr>) = Some S1" using *(2) by simp
    have "\<exists>cl. S1 = S\<lparr>st_cowb := cb, st_clog := cl\<rparr> \<and> recs_wf cl"
      by (rule with_rec_frame [OF wr]) (use P(6) rec_appendr_wf(3) [OF _ _ lp] in auto)
    then show ?thesis by auto
  next
    case False
    then have "S1 = S\<lparr>st_cowb := cb\<rparr>" using *(2) by auto
    moreover have "S\<lparr>st_cowb := cb\<rparr> = S\<lparr>st_cowb := cb, st_clog := st_clog S\<rparr>" by (cases S) simp
    ultimately have "S1 = S\<lparr>st_cowb := cb, st_clog := st_clog S\<rparr>" by (rule trans)
    then show ?thesis using P(6) by (metis state.select_convs(5) state.surjective state.update_convs(5))
  qed
  then obtain cl where S1: "S1 = S\<lparr>st_cowb := cb, st_clog := cl\<rparr>" "recs_wf cl" by auto
  obtain t' where t': "set2 (st_ptree S) ?l i ?q = Some t'" "S2 = S1\<lparr>st_ptree := t'\<rparr>" using *(5) S1(1) by (auto simp: put_part_Some)
  have mem: "mem = (st_mem S)[i := da_data m]" "i < nb S" using *(6) t'(2) S1(1) by (auto simp: arr_set_def split: if_splits)
  obtain u' where u': "set2 (st_stree S) (?l - 1) (i div psize V ?l) s2 = Some u'" "S3 = S1\<lparr>st_ptree := t', st_mem := mem, st_stree := u'\<rparr>"
    using *(8) t'(2) S1(1) by (auto simp: put_sum_Some)
  have "sums_all (\<lambda>l. psize V l) t' u'" "digs_wf t'"
    using replace_part [where ps = "\<lambda>l. psize V l" and q = ?q, OF P(1,2) top *(1) _ *(4) _ t'(1) u'(1)] *(3,7) S1(1) w by simp_all
  moreover have "leaves_ok V S3" if "st_fetching S"
  proof -
    have t: "t' ! ?l ! k = (if k = i then ?q else st_ptree S ! ?l ! k)" for k using t'(1) nth2_update [of ?l "st_ptree S" i ?q ?l k] by (auto simp: set2_Some)
    show ?thesis using P(3) [OF that] mem d unfolding leaves_ok_def t u'(2) S1(1) by (auto simp: nth_list_update t [simplified])
  qed
  moreover have "length t' = PLevels (sv_P V)" using t'(1) P(7) by (auto simp: set2_Some)
  ultimately have I3: "transfer_inv V S3" using P S1 u'(2) by (simp add: transfer_inv_def)
  have wf: "length (fp_d (pwp\<lparr>fp_lm := da_lm m\<rparr>)) = num_words" using stale_high_wf [OF transfer_inv_parts(5) [OF I3] *(9)] by simp
  have I4: "transfer_inv V S4" using *(10) I3 transfer_inv_queue(1) [OF I3 _ wf] by (auto split: if_splits)
  have "transfer_inv V (S4\<lparr>st_cert := mc_clear (st_cert S4)\<rparr>)"
    by (rule transfer_inv_frame [OF I4]) (use transfer_inv_parts [OF I4] cert_wf_clear in simp_all)
  then show "transfer_inv V S'" by (rule transfer_inv_queue(3) [OF _ *(11)])
  have "\<exists>q. S4 = S3\<lparr>st_stalep := q\<rparr>" using *(10) queue_ops_frame(1) [of _ _ S3 S4] by (cases "da_lm m > fp_lm pwp") (auto intro: exI [of _ "st_stalep S3"])
  then have "st_mem S' = mem" "st_ptree S' = t'" and fl: "st_flevel S' = st_flevel S" using queue_ops_frame(3) [OF *(11)] u'(2) S1(1) by auto
  then show "st_mem S' = (st_mem S)[i := da_data m]" "get2 (st_ptree S') ?l i = Some ?q" using mem(1) t'(1) by (auto simp: set2_Some get2_update)
  show "i < nb S" "st_flevel S' = st_flevel S" by (rule mem(2), rule fl)
qed

lemma handle_Data_inv:
  assumes a: "handle_Data V K m W = Some W'" and I: "transfer_inv V (fw_st W)" and cb: "callback_ok V K" and top: "1 \<le> top_level V"
    and h: "\<And>x. length (cr_hash (sv_cr V) x) = num_words"
  shows "transfer_inv V (fw_st W')"
proof (cases "st_fetching (fw_st W) \<and> st_flevel (fw_st W) = top_level V")
  case True
  let ?S = "fw_st W" and ?l = "top_level V"
  obtain wp where wp: "stale_high ?l ?S = Some wp" using a True by (auto simp: handle_Data_def Let_def Option.bind_eq_Some_conv)
  have w: "length (fp_d wp) = num_words" by (rule stale_high_wf [OF transfer_inv_parts(5) [OF I] wp])
  let ?d = "set_state_block (sv_cr V) (da_data m) (fp_index wp) (da_lm m)"
  have eq: "digest_eq (fp_d wp) ?d \<longleftrightarrow> fp_d wp = ?d" by (rule digest_eq_iff [OF w]) (simp add: set_state_block_def h)
  have step: "(if da_index m = int (fp_index wp) then
         if fp_c wp \<ge> 0 \<and> fp_d wp = ?d then do {
           S1 \<leftarrow> install_block V (fp_index wp) wp m ?S;
           n \<leftarrow> stale_size ?l S1;
           if n = 0 then done_with_level V K (W\<lparr>fw_st := S1\<rparr>) else send_fetch V K False (W\<lparr>fw_st := S1\<rparr>) }
         else send_fetch V K False W
       else Some W) = Some W'"
    using a unfolding handle_Data_def Let_def if_P [OF True] wp bind.bind_lunit eq .
  show ?thesis
  proof (cases "da_index m = int (fp_index wp) \<and> fp_c wp \<ge> 0 \<and> fp_d wp = ?d")
    case acc: True
    then obtain S1 and n :: nat where S1: "install_block V (fp_index wp) wp m ?S = Some S1"
      "(if n = 0 then done_with_level V K (W\<lparr>fw_st := S1\<rparr>) else send_fetch V K False (W\<lparr>fw_st := S1\<rparr>)) = Some W'"
      using step by (auto elim!: bind_SomeE)
    have I1: "transfer_inv V S1" by (rule install_block_inv(1) [OF S1(1) I w _ top]) (use acc in simp)
    have "st_flevel S1 = ?l" using install_block_inv(4) [OF S1(1) I w _ top] acc True by simp
    then show ?thesis using S1(2) I1 done_level_inv [OF _ _ cb, of ?l "W\<lparr>fw_st := S1\<rparr>" W'] send_fetch_inv [of V K False "W\<lparr>fw_st := S1\<rparr>" W']
      by (cases "n = 0") (simp_all add: done_with_level_def)
  next
    case False
    then show ?thesis using step I send_fetch_inv [of V K False W W'] by (auto split: if_splits)
  qed
next
  case False
  then show ?thesis using a I by (auto simp: handle_Data_def Let_def)
qed

text \<open>The sub-partitions in a message are queued with the digests of the message.\<close>

lemma arr_get_mem: "arr_get xs i = Some x \<Longrightarrow> x \<in> set xs"
  by (auto simp: arr_get_def split: if_splits)

lemma sub_parts_get_wf:
  assumes "sub_parts_get m it = Some (Some (i, d), it')" "md_wf m"
  shows "length d = num_words"
proof (cases "sp_index it < sp_max_index it \<and> sp_cur it < sp_max it")
  case True
  then obtain p where p: "arr_get (md_parts m) (nat (sp_cur it)) = Some p" "d = digest_zero \<or> d = snd p"
    using assms(1) by (cases "arr_get (md_parts m) (nat (sp_cur it))") (auto simp: sub_parts_get_def Let_def split: if_splits)
  then show ?thesis using assms(2) arr_get_mem [OF p(1)] by (auto simp: md_wf_def digest_zero_def)
next
  case False
  then have "d = digest_zero" using assms(1) by (auto simp: sub_parts_get_def Let_def split: if_splits)
  then show ?thesis by (simp add: digest_zero_def)
qed

lemma sub_parts_loop_inv:
  assumes "sub_parts_loop m f it s = Some s'" "P s" "md_wf m" "\<And>i d s go s'. length d = num_words \<Longrightarrow> P s \<Longrightarrow> f i d s = Some (go, s') \<Longrightarrow> P s'"
  shows "P s'"
  using assms
proof (induction m f it s rule: sub_parts_loop.induct)
  case (1 m f it s)
  show ?case
  proof (cases "sub_parts_get m it")
    case None
    then show ?thesis using "1.prems"(1) by (simp add: sub_parts_loop.simps [of m f it s])
  next
    case (Some r)
    obtain x it' where r: "r = (x, it')" by (cases r)
    show ?thesis
    proof (cases x)
      case None
      then show ?thesis using "1.prems"(1,2) Some r by (simp add: sub_parts_loop.simps [of m f it s])
    next
      case x: (Some id)
      obtain i d where id: "id = (i, d)" by (cases id)
      obtain go s1 where f: "f i d s = Some (go, s1)"
        using "1.prems"(1) Some r x id by (auto simp: sub_parts_loop.simps [of m f it s] split: option.splits)
      have P1: "P s1" using "1.prems"(4) [OF sub_parts_get_wf "1.prems"(2) f] Some r x id "1.prems"(3) by simp
      show ?thesis
      proof (cases go)
        case True
        have "sub_parts_loop m f it' s1 = Some s'" using "1.prems"(1) Some r x id f True by (simp add: sub_parts_loop.simps [of m f it s])
        then show ?thesis using "1.IH" [OF Some r [symmetric] x id [symmetric] f refl True] P1 "1.prems"(3,4) by blast
      next
        case False
        then show ?thesis using "1.prems"(1) Some r x id f P1 by (simp add: sub_parts_loop.simps [of m f it s])
      qed
    qed
  qed
qed

lemma queue_sub_part_inv:
  assumes "queue_sub_part V wp i d S = Some (go, S')" "transfer_inv V S" "length d = num_words"
  shows "transfer_inv V S'" "st_flevel S' = st_flevel S"
proof -
  have tc: "transfer_inv V (S\<lparr>st_to_check := x\<rparr>)" for x
    by (rule transfer_inv_frame [OF assms(2)]) (use transfer_inv_parts [OF assms(2)] in simp_all)
  consider "S' = S" | x where "S' = S\<lparr>st_to_check := x\<rparr>" | l p where "stale_push l p S = Some S'" "fp_d p = d"
    using assms(1) unfolding queue_sub_part_def
    by (elim bind_SomeE if_SomeE) (auto split: if_split_asm intro: that)
  then have "transfer_inv V S' \<and> st_flevel S' = st_flevel S"
  proof cases
    case 3
    then show ?thesis using transfer_inv_queue(2) [OF assms(2) 3(1)] queue_ops_frame(2) [OF 3(1)] assms(3) by auto
  qed (use assms(2) tc in simp_all)
  then show "transfer_inv V S'" "st_flevel S' = st_flevel S" by blast+
qed

lemma accept_meta_data_inv:
  assumes a: "accept_meta_data V K m wp W = Some W'" and I: "transfer_inv V (fw_st W)" and cb: "callback_ok V K"
    and wf: "md_wf m" "length (fp_d wp) = num_words" and l: "st_flevel (fw_st W) < top_level V"
  shows "transfer_inv V (fw_st W')"
proof -
  let ?S = "fw_st W" and ?wp = "wp\<lparr>fp_lm := md_lm m\<rparr>"
  obtain S1 S3 and n :: nat where *: "set_stale_high (st_flevel ?S) ?wp ?S = Some S1"
    "sub_parts_loop m (queue_sub_part V ?wp) (Sub_parts_iter (sv_P V) m) (S1\<lparr>st_flevel := st_flevel ?S + 1\<rparr>) = Some S3"
    "(if n = 0 then done_with_level V K (W\<lparr>fw_st := S3\<lparr>st_cert := mc_clear (st_cert S3)\<rparr>\<rparr>)
      else send_fetch V K False (W\<lparr>fw_st := S3\<lparr>st_cert := mc_clear (st_cert S3)\<rparr>\<rparr>)) = Some W'"
    using a unfolding accept_meta_data_def Let_def by (elim bind_SomeE) (rule that)
  have I1: "transfer_inv V S1" by (rule transfer_inv_queue(1) [OF I *(1)]) (use wf(2) in simp)
  have I2: "transfer_inv V (S1\<lparr>st_flevel := st_flevel ?S + 1\<rparr>)"
    by (rule transfer_inv_frame [OF I1]) (use transfer_inv_parts [OF I1] in simp_all)
  have I3: "transfer_inv V S3 \<and> st_flevel S3 = st_flevel ?S + 1"
  proof (rule sub_parts_loop_inv [OF *(2), where P = "\<lambda>S. transfer_inv V S \<and> st_flevel S = st_flevel ?S + 1"])
    show "transfer_inv V S' \<and> st_flevel S' = st_flevel ?S + 1"
      if "length d = num_words" "transfer_inv V S \<and> st_flevel S = st_flevel ?S + 1" "queue_sub_part V ?wp i d S = Some (go, S')" for i d S go S'
      using queue_sub_part_inv [OF that(3) _ that(1)] that(2) by simp
  qed (use I2 wf(1) in simp_all)
  have I4: "transfer_inv V (S3\<lparr>st_cert := mc_clear (st_cert S3)\<rparr>)"
    by (rule transfer_inv_frame [of V S3]) (use I3 transfer_inv_parts(4-6) [of V S3] cert_wf_clear [of "st_cert S3"] in simp_all)
  have "st_flevel ?S + 1 \<le> top_level V" using l by simp
  then show ?thesis
    using *(3) I3 I4 done_level_inv [OF _ _ cb, of "st_flevel ?S + 1" "W\<lparr>fw_st := S3\<lparr>st_cert := mc_clear (st_cert S3)\<rparr>\<rparr>" W']
      send_fetch_inv [of V K False "W\<lparr>fw_st := S3\<lparr>st_cert := mc_clear (st_cert S3)\<rparr>\<rparr>" W']
    by (cases "n = 0") (simp_all add: done_with_level_def)
qed

lemma handle_Meta_data_inv:
  assumes a: "handle_Meta_data V K m W = Some W'" and I: "transfer_inv V (fw_st W)" and cb: "callback_ok V K" and wf: "md_wf m"
  shows "transfer_inv V (fw_st W')"
proof (cases "W' = W")
  case False
  obtain wp where *: "st_flevel (fw_st W) < top_level V" "stale_high (st_flevel (fw_st W)) (fw_st W) = Some wp" "accept_meta_data V K m wp W = Some W'"
    using a False unfolding handle_Meta_data_def Let_def by (elim bind_SomeE if_SomeE) simp_all
  show ?thesis by (rule accept_meta_data_inv [OF *(3) I cb wf stale_high_wf [OF transfer_inv_parts(5) [OF I] *(2)] *(1)])
qed (use I in simp)

lemma transfer_inv_flags:
  assumes "transfer_inv V S"
  shows "transfer_inv V (S\<lparr>st_to_check := x\<rparr>)" "transfer_inv V (S\<lparr>st_flevel := l\<rparr>)" "transfer_inv V (S\<lparr>st_keep_ckpts := b\<rparr>)"
    "cert_wf C \<Longrightarrow> transfer_inv V (S\<lparr>st_cert := C\<rparr>)"
  by (rule transfer_inv_frame [OF assms]; use transfer_inv_parts [OF assms] in simp)+

lemma accept_certified_inv:
  assumes a: "accept_certified V K wp cc cd W = Some W'" and I: "transfer_inv V (fw_st W)" and cb: "callback_ok V K"
    and wf: "length cd = num_words" and top: "1 \<le> top_level V"
  shows "transfer_inv V (fw_st W')"
proof -
  let ?S = "fw_st W" and ?wp = "wp\<lparr>fp_c := cc, fp_d := cd\<rparr>"
  let ?S4 = "\<lambda>S3 p. if st_refetch_level S3 = PLevels (sv_P V) \<and> pt_lm p \<le> st_check_start S3
     then S3\<lparr>st_to_check := st_to_check S3 @ [\<lparr>cp_index = fp_index wp, cp_level = st_flevel ?S\<rparr>]\<rparr> else S3"
  obtain S3 and p :: part where *: "set_stale_high (st_flevel ?S) ?wp (?S\<lparr>st_cert := mc_clear (st_cert ?S)\<rparr>) = Some S3"
    "get2 (st_ptree S3) (st_flevel ?S) (fp_index wp) = Some p"
    "(if digest_eq cd (pt_d p) then
        if st_flevel ?S > 0 then do {
          S5 \<leftarrow> stale_remove (st_flevel ?S) (?S4 S3 p);
          n \<leftarrow> stale_size (st_flevel ?S) S5;
          if n = 0 then done_with_level V K (W\<lparr>fw_st := S5\<rparr>) else Some (W\<lparr>fw_st := S5\<rparr>) }
        else done_with_level V K (W\<lparr>fw_st := (?S4 S3 p)\<lparr>st_flevel := st_flevel ?S + 1\<rparr>\<rparr>)
      else send_fetch V K True (W\<lparr>fw_st := S3\<rparr>)) = Some W'"
    using a unfolding accept_certified_def Let_def by (elim bind_SomeE) (rule that)
  have "transfer_inv V (?S\<lparr>st_cert := mc_clear (st_cert ?S)\<rparr>)" by (rule transfer_inv_flags(4) [OF I cert_wf_clear [OF transfer_inv_parts(4) [OF I]]])
  then have I3: "transfer_inv V S3" by (rule transfer_inv_queue(1) [OF _ *(1)]) (use wf in simp)
  have I4: "transfer_inv V (?S4 S3 p)" using I3 transfer_inv_flags(1) [OF I3] by simp
  have lev: "st_flevel ?S \<le> top_level V" using *(2) transfer_inv_parts(7) [OF I3] by (auto simp: get2_Some)
  have fl: "st_flevel (?S4 S3 p) = st_flevel ?S" using queue_ops_frame(1) [OF *(1)] by auto
  from *(3) show ?thesis
  proof (elim if_SomeE bind_SomeE)
    fix S5 and n :: nat assume r: "stale_remove (st_flevel ?S) (?S4 S3 p) = Some S5" and d: "done_with_level V K (W\<lparr>fw_st := S5\<rparr>) = Some W'"
    have "st_flevel S5 = st_flevel ?S" using queue_ops_frame(3) [OF r] fl by auto
    then show ?thesis using done_level_inv [OF _ _ cb lev, of "W\<lparr>fw_st := S5\<rparr>" W'] d transfer_inv_queue(3) [OF I4 r] by (simp add: done_with_level_def)
  next
    fix S5 and n :: nat assume r: "stale_remove (st_flevel ?S) (?S4 S3 p) = Some S5" and d: "Some (W\<lparr>fw_st := S5\<rparr>) = Some W'"
    then show ?thesis using transfer_inv_queue(3) [OF I4 r] by auto
  next
    assume d: "done_with_level V K (W\<lparr>fw_st := (?S4 S3 p)\<lparr>st_flevel := st_flevel ?S + 1\<rparr>\<rparr>) = Some W'" and z: "\<not> st_flevel ?S > 0"
    have "st_flevel ?S + 1 \<le> top_level V" using z top by simp
    from done_level_inv [OF _ _ cb this, of "W\<lparr>fw_st := (?S4 S3 p)\<lparr>st_flevel := st_flevel ?S + 1\<rparr>\<rparr>" W'] d transfer_inv_flags(2) [OF I4]
    show ?thesis by (simp add: done_with_level_def del: done_level.simps)
  next
    assume "send_fetch V K True (W\<lparr>fw_st := S3\<rparr>) = Some W'"
    then show ?thesis by (rule send_fetch_inv) (use I3 in simp)
  qed
qed

lemma handle_Meta_data_d_inv:
  assumes a: "handle_Meta_data_d V K m W = Some W'" and I: "transfer_inv V (fw_st W)" and cb: "callback_ok V K" and wf: "mdd_wf m" and top: "1 \<le> top_level V"
  shows "transfer_inv V (fw_st W')"
proof (cases "W' = W")
  case False
  let ?S = "fw_st W"
  let ?S2 = "\<lambda>C. if mc_ls C > st_lc (?S\<lparr>st_cert := C\<rparr>) then (?S\<lparr>st_cert := C\<rparr>)\<lparr>st_keep_ckpts := False\<rparr> else ?S\<lparr>st_cert := C\<rparr>"
  obtain wp ok added C where *: "mc_add (sv_b V) (fw_nd W) ok m False (st_cert ?S) = Some (added, C)"
    "(if \<not> added then Some (W\<lparr>fw_st := ?S\<lparr>st_cert := C\<rparr>\<rparr>)
      else case mc_cvalue C of None \<Rightarrow> Some (W\<lparr>fw_st := ?S2 C\<rparr>) | Some (cc, cd) \<Rightarrow> accept_certified V K wp cc cd (W\<lparr>fw_st := ?S2 C\<rparr>)) = Some W'"
    using a False unfolding handle_Meta_data_d_def Let_def by (elim bind_SomeE if_SomeE) (auto split: prod.splits)
  have C: "cert_wf C" by (rule mc_add_wf [OF *(1) wf transfer_inv_parts(4) [OF I]])
  have I1: "transfer_inv V (?S\<lparr>st_cert := C\<rparr>)" by (rule transfer_inv_flags(4) [OF I C])
  have I2: "transfer_inv V (?S2 C)" using I1 transfer_inv_flags(3) [OF I1] by simp
  show ?thesis
  proof (cases "added \<and> mc_cvalue C \<noteq> None")
    case True
    then have "mc_cvalue C = Some (mc_c C, mc_d C)" by (auto simp: mc_cvalue_def split: if_splits)
    then have "accept_certified V K wp (mc_c C) (mc_d C) (W\<lparr>fw_st := ?S2 C\<rparr>) = Some W'" using *(2) True by simp
    then show ?thesis by (rule accept_certified_inv) (use I2 cb C top in \<open>simp_all add: cert_wf_def\<close>)
  next
    case False
    then consider "\<not> added" | "added" "mc_cvalue C = None" by blast
    then show ?thesis
    proof cases
      case 2
      then have "W' = W\<lparr>fw_st := ?S2 C\<rparr>" using *(2) by simp
      then show ?thesis using I2 by simp
    qed (use *(2) I1 in auto)
  qed
qed (use I in simp)

section \<open>Transfers\<close>

text \<open>What can happen during a transfer: messages of any content from anyone, and retransmissions. The record of a call has the replica that is called back.\<close>

inductive transfer_step :: "senv \<Rightarrow> (fcall \<Rightarrow> bool) \<Rightarrow> fworld \<Rightarrow> fworld \<Rightarrow> bool" for V :: senv and Q :: "fcall \<Rightarrow> bool" where
  data: "Q K \<Longrightarrow> handle_Data V K m W = Some W' \<Longrightarrow> transfer_step V Q W W'"
| meta_data: "Q K \<Longrightarrow> md_wf m \<Longrightarrow> handle_Meta_data V K m W = Some W' \<Longrightarrow> transfer_step V Q W W'"
| meta_data_d: "Q K \<Longrightarrow> mdd_wf m \<Longrightarrow> handle_Meta_data_d V K m W = Some W' \<Longrightarrow> transfer_step V Q W W'"
| retransmit: "Q K \<Longrightarrow> send_fetch V K b W = Some W' \<Longrightarrow> transfer_step V Q W W'"
| mark_stale: "transfer_step V Q W (upd_st state_mark_stale W)"

lemma transfer_step_inv:
  assumes "transfer_step V Q W W'" "transfer_inv V (fw_st W)" "\<And>K. Q K \<Longrightarrow> callback_ok V K" "1 \<le> top_level V" "\<And>x. length (cr_hash (sv_cr V) x) = num_words"
  shows "transfer_inv V (fw_st W')"
  using assms(1)
proof cases
  case (data K m)
  then show ?thesis using handle_Data_inv [OF data(2) assms(2) assms(3) [OF data(1)] assms(4,5)] by blast
next
  case (meta_data K m)
  then show ?thesis using handle_Meta_data_inv assms(2,3) by blast
next
  case (meta_data_d K m)
  then show ?thesis using handle_Meta_data_d_inv assms(2-4) by blast
next
  case (retransmit K b)
  then show ?thesis using send_fetch_inv assms(2) by blast
next
  case mark_stale
  then show ?thesis using transfer_inv_flags(4) [OF assms(2) cert_wf_clear [OF transfer_inv_parts(4) [OF assms(2)]]] by (simp add: state_mark_stale_def)
qed


text \<open>C16: A data message changes the memory only if the replica is fetching that very block and the block has the certified digest; every other
  data message leaves the memory, the tree and the sums alone.\<close>

theorem bad_data_ignored:
  assumes "handle_Data V K m W = Some W'"
    and "\<not> (st_fetching (fw_st W) \<and> st_flevel (fw_st W) = top_level V \<and> (\<exists>wp. stale_high (top_level V) (fw_st W) = Some wp \<and>
          da_index m = int (fp_index wp) \<and> fp_c wp \<ge> 0 \<and> digest_eq (fp_d wp) (set_state_block (sv_cr V) (da_data m) (fp_index wp) (da_lm m))))"
  shows "st_mem (fw_st W') = st_mem (fw_st W) \<and> st_ptree (fw_st W') = st_ptree (fw_st W) \<and> st_stree (fw_st W') = st_stree (fw_st W) \<and>
    st_clog (fw_st W') = st_clog (fw_st W)"
proof -
  have sf: "st_mem (fw_st W') = st_mem (fw_st W) \<and> st_ptree (fw_st W') = st_ptree (fw_st W) \<and> st_stree (fw_st W') = st_stree (fw_st W) \<and>
      st_clog (fw_st W') = st_clog (fw_st W)" if "send_fetch V K False W = Some W'"
    using send_fetch_frame [OF that] .
  from assms(1) show ?thesis unfolding handle_Data_def Let_def
    by (elim bind_SomeE if_SomeE) (use assms(2) sf in auto)
qed

section \<open>A concrete transfer\<close>

text \<open>Two blocks below one root; block 1 is being fetched.\<close>

definition wit_hash_one :: digest where
  "wit_hash_one = replicate num_words 1"

definition wit_tsenv :: senv where
  "wit_tsenv = \<lparr>sv_b = default_build, sv_cr = wit_crypto\<lparr>cr_hash := (\<lambda>_. wit_hash_one)\<rparr>,
     sv_P = \<lparr>PLevels = 2, PSize = [1, 2, 0, 0], PLevelSize = [1, 2, 0, 0], PBlocks = [2, 1, 0, 0]\<rparr>,
     sv_children = 2, sv_block = 4, sv_max_msg = 4096\<rparr>"

definition wit_tstate :: state where
  "wit_tstate = \<lparr>st_mem = [[1, 2, 3, 4], [5, 6, 7, 8]], st_cowb = Bitmap_new 2 False,
     st_ptree = [[\<lparr>pt_lm = 0, pt_d = wit_hash_one\<rparr>], [\<lparr>pt_lm = 0, pt_d = wit_hash_one\<rparr>, \<lparr>pt_lm = 0, pt_d = wit_hash_one\<rparr>]],
     st_stree = [[(digest_val wit_hash_one + digest_val wit_hash_one) mod DSum_M]],
     st_clog = CheckpointRecordLog_new default_build (CheckpointRecord_init 2 (sv_P wit_tsenv) [] 2) 0, st_lc = 0, st_fetching = True, st_keep_ckpts = False,
     st_flevel = 1, st_stalep = [[\<lparr>fp_index = 0, fp_lu = 0, fp_lm = 0, fp_c = 128, fp_d = wit_hash_one\<rparr>], [\<lparr>fp_index = 1, fp_lu = 0, fp_lm = 0, fp_c = 128, fp_d = wit_hash_one\<rparr>]],
     st_cert = Meta_data_cert_new default_build (wit_node 0), st_lreplier = 0, st_last_fetch_t = 0, st_checking = False, st_check_start = 0, st_corrupt = False,
     st_poll_cnt = 16, st_to_check = [], st_lchecked = 0, st_refetch_level = 0\<rparr>"

definition wit_tworld :: fworld where
  "wit_tworld = \<lparr>fw_st = wit_tstate, fw_nd = wit_node 0, fw_out = []\<rparr>"

definition wit_call :: fcall where
  "wit_call = \<lparr>fk_now = 0, fk_tv = 9, fk_rand = 0, fk_junk = wit_hash_one, fk_new_state = (\<lambda>c W. Some W), fk_try_end_recovery = Some, fk_has_messages = (\<lambda>_. False)\<rparr>"

lemma wit_tinv: "transfer_inv wit_tsenv wit_tstate"
proof -
  let ?P = "sv_P wit_tsenv"
  have L: "length wit_hash_one = num_words" by (simp add: wit_hash_one_def)
  have "sub_sum (\<lambda>l. psize wit_tsenv l) (st_ptree wit_tstate) 0 0 = (digest_val wit_hash_one + digest_val wit_hash_one) mod DSum_M"
  proof -
    have "{i. i < length (st_ptree wit_tstate ! Suc 0) \<and> i div psize wit_tsenv (Suc 0) = 0} = {0, 1}"
      by (auto simp: wit_tstate_def wit_tsenv_def)
    then show ?thesis by (simp add: sub_sum_def wit_tstate_def)
  qed
  then have "sums_all (\<lambda>l. psize wit_tsenv l) (st_ptree wit_tstate) (st_stree wit_tstate)" by (simp add: sums_all_def wit_tstate_def)
  moreover have "digs_wf (st_ptree wit_tstate)" using L by (auto simp: digs_wf_def wit_tstate_def less_Suc_eq)
  moreover have "leaves_ok wit_tsenv wit_tstate" by (auto simp: leaves_ok_def wit_tstate_def wit_tsenv_def set_state_block_def less_Suc_eq)
  moreover have "cert_wf (st_cert wit_tstate)" by (auto simp: cert_wf_def wit_tstate_def Meta_data_cert_new_def Let_def digest_zero_def)
  moreover have "queues_wf (st_stalep wit_tstate)" using L by (simp add: queues_wf_def wit_tstate_def)
  moreover have "rec_wf (CheckpointRecord_init 2 ?P [] 2)" unfolding CheckpointRecord_init_def
    by (rule rec_clear_wf) (simp add: rec_wf_def fresh_part_def digest_zero_def)
  then have "recs_wf (st_clog wit_tstate)" by (auto simp: recs_wf_def wit_tstate_def CheckpointRecordLog_new_def)
  moreover have "length (st_ptree wit_tstate) = PLevels ?P" by (simp add: wit_tstate_def wit_tsenv_def)
  ultimately show ?thesis by (simp add: transfer_inv_def)
qed

lemma wit_wrong_index: "handle_Data wit_tsenv wit_call (Data_new 0 128 [7, 7, 7, 7]) wit_tworld = Some wit_tworld"
  by (simp add: handle_Data_def wit_tworld_def wit_tstate_def wit_tsenv_def stale_high_def high_def arr_get_def Data_new_def Let_def)


theorem bad_data_ignored_witness:
  "\<exists>W'. handle_Data wit_tsenv wit_call (Data_new 0 128 [7, 7, 7, 7]) wit_tworld = Some W' \<and> st_mem (fw_st W') = [[1, 2, 3, 4], [5, 6, 7, 8]]"
proof -
  have "stale_high (top_level wit_tsenv) (fw_st wit_tworld) = Some \<lparr>fp_index = 1, fp_lu = 0, fp_lm = 0, fp_c = 128, fp_d = wit_hash_one\<rparr>"
    by (simp add: wit_tworld_def wit_tstate_def wit_tsenv_def stale_high_def high_def arr_get_def)
  then have "st_mem (fw_st W') = st_mem (fw_st wit_tworld)"
    if "handle_Data wit_tsenv wit_call (Data_new 0 128 [7, 7, 7, 7]) wit_tworld = Some W'" for W'
    using bad_data_ignored [OF that] by (simp add: Data_new_def Let_def)
  from this [OF wit_wrong_index] show ?thesis using wit_wrong_index by (simp add: wit_tworld_def wit_tstate_def)
qed

end
