(* ===== verification/State_Full.thy ===== *)
theory State_Full
  imports State_Run
begin

text \<open>
  The state that a replica starts with: \<^verbatim>\<open>compute_full_digest\<close> returns on a new state, every digest is right afterwards, and the history
  has one checkpoint, number zero.
\<close>

section \<open>Filling the tree\<close>

text \<open>The digests are right in the levels below \<open>l\<close> and for the first \<open>j\<close> partitions of level \<open>l\<close>; the rest is as the constructor left it.\<close>

definition todo :: "nat \<Rightarrow> nat \<Rightarrow> (nat \<times> nat) set" where
  "todo l j = {(k, i). k < l \<or> k = l \<and> j \<le> i}"

definition filling :: "senv \<Rightarrow> state \<Rightarrow> nat \<Rightarrow> nat \<Rightarrow> state \<Rightarrow> bool" where
  "filling V S0 l j S \<longleftrightarrow> arrays_ok V S \<and> sums_ok V S \<and> hashed V (todo l j) S \<and> (\<exists>pt st. S = S0\<lparr>st_ptree := pt, st_stree := st\<rparr>) \<and>
     (\<forall>k < PLevels (sv_P V). \<forall>i < psize V k. pt_lm (st_ptree S ! k ! i) = 0 \<and> ((k, i) \<in> todo l j \<longrightarrow> digest_val (pt_d (st_ptree S ! k ! i)) = 0))"

lemma full_part_step:
  assumes F: "filling V S0 l i S" and l: "1 \<le> l" "l < PLevels (sv_P V)" "i < width V S l"
  shows "\<exists>S'. full_part V l i S = Some S' \<and> filling V S0 l (Suc i) S'"
proof -
  have A: "arrays_ok V S" "sums_ok V S" "hashed V (todo l i) S" using F by (simp_all add: filling_def)
  have i: "i < psize V l" using width_psize [OF A(1) l(2)] l(3) by simp
  have l1: "l - 1 < top_level V" using l by auto
  note pin = part_in [OF A(1) l(2) i] and sin = sum_in [OF A(1) l1]
  have old: "pt_lm (st_ptree S ! l ! i) = 0" "digest_val (pt_d (st_ptree S ! l ! i)) = 0"
    using F l(2) i by (simp_all add: filling_def todo_def)
  obtain d where d: "part_digest V l i S = Some d" "length d = num_words" using part_digest_total [OF A(1,2) l(2,3)] by blast
  have s0: "0 \<le> st_stree S ! (l - 1) ! 0" "st_stree S ! (l - 1) ! 0 < DSum_M" using A(2) l1 level_sum_range by (auto simp: sums_ok_def)
  let ?t = "(st_ptree S)[l := (st_ptree S ! l)[i := (st_ptree S ! l ! i)\<lparr>pt_d := d\<rparr>]]"
  let ?x = "(st_stree S ! (l - 1) ! 0 + digest_val d) mod DSum_M"
  define S' where "S' = S\<lparr>st_ptree := ?t, st_stree := (st_stree S)[l - 1 := (st_stree S ! (l - 1))[0 := ?x]]\<rparr>"
  have part: "st_ptree S' ! k ! j = (if k = l \<and> j = i then (st_ptree S ! l ! i)\<lparr>pt_d := d\<rparr> else st_ptree S ! k ! j)" for k j
    using nth2_update [OF pin(2,3)] by (simp add: S'_def)
  have fp: "full_part V l i S = Some S'"
    unfolding full_part_def d(1) pin(1) parent_zero [OF i] put_part_def put_sum_def
    using set2_in [OF pin(2,3)] sin(1) set2_in [OF sin(2,3)] dsum_add_mod [OF s0 d(2)] by (simp add: S'_def)
  have "arrays_ok V (S\<lparr>st_ptree := ?t\<rparr>)" by (rule arrays_ok_upd [OF A(1) l(2) i]) (use old d(2) in simp_all)
  from arrays_ok_sum [OF this, of "l - 1" 0 ?x] have ar: "arrays_ok V S'" using sin(2) by (simp add: S'_def)
  have w: "width V S' = width V S" by (simp add: S'_def width_def fun_eq_iff)
  have su: "sums_ok V S'"
    unfolding sums_ok_def
  proof (intro allI impI)
    fix k assume k: "k < top_level V"
    show "st_stree S' ! k ! 0 = level_sum V S' (Suc k)"
    proof (cases "k = l - 1")
      case True
      then have sk: "Suc k = l" using l(1) by simp
      let ?f = "\<lambda>j. digest_val (pt_d (st_ptree S ! l ! j))" and ?g = "\<lambda>j. digest_val (pt_d (st_ptree S' ! l ! j))"
      have "((sum ?f {..<width V S l} mod DSum_M - ?f i) mod DSum_M + ?g i) mod DSum_M = sum ?g {..<width V S l} mod DSum_M"
        by (rule sum_replace [OF l(3)]) (simp add: part)
      moreover have "st_stree S ! k ! 0 = sum ?f {..<width V S l} mod DSum_M" using A(2) k sk by (simp add: sums_ok_def level_sum_def)
      moreover have "st_stree S' ! k ! 0 = ?x" using True sin(2,3) by (simp add: S'_def nth2_update)
      ultimately show ?thesis using True old(2) sk by (simp add: level_sum_def w part)
    next
      case False
      then have "Suc k \<noteq> l" by simp
      then have "level_sum V S' (Suc k) = level_sum V S (Suc k)" by (simp add: level_sum_def w part)
      then show ?thesis using False A(2) k by (simp add: sums_ok_def S'_def)
    qed
  qed
  have ha: "hashed V (todo l (Suc i)) S'"
    unfolding hashed_def
  proof (intro allI impI)
    fix k j assume k: "k < PLevels (sv_P V)" "j < width V S' k" "(k, j) \<notin> todo l (Suc i)"
    have "part_digest V k j S' = part_digest V k j S"
    proof (rule part_digest_cong)
      show "k = top_level V \<or> get2 (st_stree S') k j = get2 (st_stree S) k j"
        using k(3) l(1) by (auto simp: todo_def S'_def get2_def arr_get_def)
      show "map_option pt_lm (get2 (st_ptree S') k j) = map_option pt_lm (get2 (st_ptree S) k j)"
        using get2_update [OF pin(2,3)] pin(1) by (simp add: S'_def)
    qed (simp add: S'_def)
    moreover have "part_digest V k j S = Some (pt_d (st_ptree S ! k ! j))" if "(k, j) \<noteq> (l, i)"
      using A(3) k that unfolding hashed_def w todo_def by auto
    ultimately show "part_digest V k j S' = Some (pt_d (st_ptree S' ! k ! j))" using d(1) by (auto simp: part)
  qed
  obtain pt st where "S = S0\<lparr>st_ptree := pt, st_stree := st\<rparr>" using F unfolding filling_def by blast
  then have "S' = S0\<lparr>st_ptree := st_ptree S', st_stree := st_stree S'\<rparr>" by (simp add: S'_def)
  then have ex: "\<exists>pt st. S' = S0\<lparr>st_ptree := pt, st_stree := st\<rparr>" by blast
  have lm: "pt_lm (st_ptree S' ! k ! j) = 0 \<and> ((k, j) \<in> todo l (Suc i) \<longrightarrow> digest_val (pt_d (st_ptree S' ! k ! j)) = 0)"
    if "k < PLevels (sv_P V)" "j < psize V k" for k j
    using F that unfolding filling_def todo_def by (auto simp: part old)
  show ?thesis using fp ar su ha ex lm unfolding filling_def by blast
qed

lemma full_parts:
  assumes "1 \<le> l" "l < PLevels (sv_P V)" "filling V S0 l j S" "j + n = width V S0 l"
  shows "\<exists>S'. fold_opt (full_part V l) [j..<j + n] S = Some S' \<and> filling V S0 l (width V S0 l) S'"
  using assms(3,4)
proof (induction n arbitrary: j S)
  case (Suc n)
  have w: "width V S = width V S0" using Suc.prems(1) by (auto simp: filling_def width_def fun_eq_iff)
  obtain S1 where 1: "full_part V l j S = Some S1" "filling V S0 l (Suc j) S1"
    using full_part_step [OF Suc.prems(1) assms(1,2)] Suc.prems(2) unfolding w by auto
  from Suc.IH [OF 1(2)] Suc.prems(2) have "\<exists>S'. fold_opt (full_part V l) [Suc j..<j + Suc n] S1 = Some S' \<and> filling V S0 l (width V S0 l) S'"
    by (simp del: upt_Suc)
  moreover have "[j..<j + Suc n] = j # [Suc j..<j + Suc n]" by (rule upt_conv_Cons) simp
  ultimately show ?case using 1(1) by (simp del: upt_Suc)
qed simp

lemma filling_level:
  assumes "filling V S0 (Suc l) (width V S0 (Suc l)) S"
  shows "filling V S0 l 0 S"
proof -
  have w: "width V S = width V S0" using assms by (auto simp: filling_def width_def fun_eq_iff)
  have "hashed V (todo l 0) S" using assms unfolding filling_def hashed_def w todo_def by fastforce
  moreover have "(k, i) \<in> todo (Suc l) (width V S0 (Suc l))" if "(k, i) \<in> todo l 0" for k i using that by (auto simp: todo_def)
  ultimately show ?thesis using assms unfolding filling_def by blast
qed

lemma ceil_div_width: "0 < n \<Longrightarrow> n \<le> k \<Longrightarrow> ceil_div n k = 1"
proof -
  assume "0 < n" "n \<le> k"
  then have k: "n + k - 1 = (n - 1) + k" "n - 1 < k" "0 < k" by simp_all
  have "(n - 1 + k) div k = (n - 1) div k + 1" by (rule div_add_self2) (use k(3) in simp)
  then show ?thesis using k(2) unfolding ceil_div_def k(1) by simp
qed

lemma full_levels:
  assumes "filling V S0 l 0 S" "l < PLevels (sv_P V)" "arrays_ok V S0"
  shows "\<exists>S'. fold_opt (full_level V) (rev [1..<Suc l]) (width V S0 l, S) = Some (1, S') \<and> filling V S0 0 0 S'"
  using assms(1,2)
proof (induction l arbitrary: S)
  case 0
  have "0 < top_level V" using arrays_shape(2) [OF assms(3)] by simp
  then show ?case using 0 by (simp add: width_def)
next
  case (Suc l)
  obtain S1 where 1: "fold_opt (full_part V (Suc l)) [0..<width V S0 (Suc l)] S = Some S1" "filling V S0 (Suc l) (width V S0 (Suc l)) S1"
    using full_parts [of "Suc l" V S0 0 S "width V S0 (Suc l)"] Suc.prems by auto
  have "0 < width V S0 (Suc l)" using arrays_shape(4) [OF assms(3)] by (simp add: width_def del: length_greater_0_conv)
  then have "ceil_div (width V S0 (Suc l)) (psize V (Suc l)) = 1" using ceil_div_width width_psize [OF assms(3) Suc.prems(2)] by blast
  moreover have "l \<noteq> top_level V" using Suc.prems(2) by linarith
  then have "width V S0 l = 1" by (simp add: width_def)
  ultimately have "full_level V (Suc l) (width V S0 (Suc l), S) = Some (width V S0 l, S1)" using 1(1) by (simp add: full_level_def)
  with Suc.IH [OF filling_level [OF 1(2)]] Suc.prems(2) show ?case by simp
qed

text \<open>The constructor.\<close>

lemma digest_val_zero: "digest_val digest_zero = 0"
  by (simp add: digest_val_def be_val_def digest_zero_def digest_bytes_def num_words_def le_bytes_def numeral_eq_Suc)

lemma init_rec_ok:
  assumes "shape_ok pc P N"
  shows "rec_ok P N (CheckpointRecord_init pc P b N)"
proof -
  have "num_meta_for_blocks pc P N = sum_list (take (PLevels P - 1) (PSize P))" "PSize P ! (PLevels P - 1) = N"
    using assms by (simp_all add: shape_ok_def)
  then have "rec_ok P N \<lparr>rc_parts = replicate (num_meta_for_blocks pc P N) fresh_part,
      rc_blocks = replicate N \<lparr>pt_lm = 0, pt_d = digest_zero, bc_data = b\<rparr>, rc_num = 1, rc_sd = digest_zero\<rparr>"
    by (simp add: rec_ok_def)
  then show ?thesis unfolding CheckpointRecord_init_def by (rule rec_ok_clear) fact
qed

lemma State_new_filling:
  assumes "env_good V (length mem)"
  shows "filling V (State_new V nd b mem j) (top_level V) 0 (State_new V nd b mem j)"
    and "recs V (State_new V nd b mem j) k = Some r \<Longrightarrow> r = CheckpointRecord_init (sv_children V) (sv_P V) b (length mem)"
    and "recs V (State_new V nd b mem j) 0 \<noteq> None" "bm_set (st_cowb (State_new V nd b mem j)) = {}"
proof -
  let ?S = "State_new V nd b mem j" and ?r = "CheckpointRecord_init (sv_children V) (sv_P V) b (length mem)"
  have sh: "shape_ok (sv_children V) (sv_P V) (length mem)" and iv: "interval_ok (sv_b V)" and N: "length mem + ChunkBits \<le> 2 ^ 32"
    using assms by (simp_all add: env_good_def)
  have f: "st_mem ?S = mem" "st_cowb ?S = Bitmap_new (length mem) False" "st_clog ?S = CheckpointRecordLog_new (sv_b V) ?r 0"
    "st_ptree ?S = map (\<lambda>i. replicate (if i \<noteq> top_level V then PLevelSize (sv_P V) ! i else length mem) fresh_part) [0..<PLevels (sv_P V)]"
    "st_stree ?S = map (\<lambda>i. replicate (PLevelSize (sv_P V) ! i) 0) [0..<top_level V]"
    by (simp_all add: State_new_def Let_def)
  have lg: "log_good V (length mem) (st_clog ?S)"
    using iv init_rec_ok [OF sh, of b] unfolding f(3) by (simp add: log_good_def crlog_inv_def CheckpointRecordLog_new_def)
  have sz: "i < length (st_ptree ?S ! l)" "st_ptree ?S ! l ! i = fresh_part" if "l < PLevels (sv_P V)" "i < psize V l" for l i
  proof -
    have "psize V l \<le> PLevelSize (sv_P V) ! l" "psize V (top_level V) = length mem" using sh that(1) unfolding shape_ok_def by blast+
    then show "i < length (st_ptree ?S ! l)" "st_ptree ?S ! l ! i = fresh_part" using that by (auto simp: f(4))
  qed
  have A: "arrays_ok V ?S" unfolding arrays_ok_def
    using assms lg Bitmap_new_ok [OF N, of False] sz by (simp add: f fresh_part_def digest_zero_def)
  have "0 < length (st_stree ?S ! l)" if "l < top_level V" for l using sum_in(3) [OF A that] .
  then have su: "sums_ok V ?S"
    unfolding sums_ok_def level_sum_def
  proof (intro allI impI)
    fix l assume l: "l < top_level V" and *: "\<And>l. l < top_level V \<Longrightarrow> 0 < length (st_stree ?S ! l)"
    have "st_ptree ?S ! Suc l ! i = fresh_part" if "i < width V ?S (Suc l)" for i
    proof -
      have "Suc l < PLevels (sv_P V)" using l by linarith
      then show ?thesis using sz(2) [of "Suc l" i] width_psize [OF A, of "Suc l"] that by simp
    qed
    then have "(\<Sum>i<width V ?S (Suc l). digest_val (pt_d (st_ptree ?S ! Suc l ! i))) = 0"
      by (intro sum.neutral) (auto simp: fresh_part_def digest_val_zero)
    then show "st_stree ?S ! l ! 0 = (\<Sum>i<width V ?S (Suc l). digest_val (pt_d (st_ptree ?S ! Suc l ! i))) mod DSum_M"
      using l * [OF l] by (simp add: f(5))
  qed
  have "hashed V (todo (top_level V) 0) ?S" by (auto simp: hashed_def todo_def)
  moreover have "\<exists>pt st. ?S = ?S\<lparr>st_ptree := pt, st_stree := st\<rparr>"
    by (rule exI [of _ "st_ptree ?S"], rule exI [of _ "st_stree ?S"]) simp
  ultimately show "filling V ?S (top_level V) 0 ?S"
    unfolding filling_def using A su sz(2) by (simp add: fresh_part_def digest_val_zero)
  show "r = ?r" if "recs V ?S k = Some r"
    using recs_fetch [OF that] crlog_fetch_mem [of _ "st_clog ?S"] unfolding f(3) by (fastforce simp: CheckpointRecordLog_new_def)
  show "recs V ?S 0 \<noteq> None" using recs_iff [OF lg, of 0] iv by (simp add: f(3) CheckpointRecordLog_new_def interval_ok_def)
  show "bm_set (st_cowb ?S) = {}" using Bitmap_new_ok [OF N, of False] by (simp add: f(2))
qed

text \<open>The root, and the whole.\<close>

lemma full_root:
  assumes F: "filling V S0 0 0 S"
  shows "\<exists>d S'. part_digest V 0 0 S = Some d \<and> get2 (st_ptree S) 0 0 = Some (st_ptree S ! 0 ! 0) \<and>
    put_part 0 0 ((st_ptree S ! 0 ! 0)\<lparr>pt_d := d\<rparr>) S = Some S' \<and> arrays_ok V S' \<and> sums_ok V S' \<and> hashed V {} S' \<and>
    (\<exists>pt st. S' = S0\<lparr>st_ptree := pt, st_stree := st\<rparr>) \<and> (\<forall>k < PLevels (sv_P V). \<forall>i < psize V k. pt_lm (st_ptree S' ! k ! i) = 0)"
proof -
  have A: "arrays_ok V S" "sums_ok V S" "hashed V (todo 0 0) S" using F by (simp_all add: filling_def)
  have L: "0 < top_level V" "0 < PLevels (sv_P V)" "0 < psize V 0" using arrays_shape [OF A(1)] by auto
  have w0: "width V S 0 = 1" using L(1) by (simp add: width_def)
  note pin = part_in [OF A(1) L(2,3)]
  obtain d where d: "part_digest V 0 0 S = Some d" "length d = num_words" using part_digest_total [OF A(1,2) L(2)] w0 by auto
  let ?p = "(st_ptree S ! 0 ! 0)\<lparr>pt_d := d\<rparr>"
  let ?t = "(st_ptree S)[0 := (st_ptree S ! 0)[0 := ?p]]"
  define S' where "S' = S\<lparr>st_ptree := ?t\<rparr>"
  have part: "st_ptree S' ! k ! j = (if k = 0 \<and> j = 0 then ?p else st_ptree S ! k ! j)" for k j
    using nth2_update [OF pin(2,3)] by (simp add: S'_def)
  have ar: "arrays_ok V S'" unfolding S'_def by (rule arrays_ok_upd [OF A(1) L(2,3)]) (use part_good(1) [OF A(1) L(2,3)] d(2) in simp_all)
  have su: "sums_ok V S'" using A(2) by (simp add: sums_ok_def level_sum_def part) (simp add: S'_def)
  have w: "width V S' = width V S" by (simp add: S'_def width_def fun_eq_iff)
  have "part_digest V k j S' = part_digest V k j S" for k j
    by (rule part_digest_cong) (simp_all add: S'_def get2_update [OF pin(2,3)] pin(1))
  moreover have "part_digest V k j S = Some (pt_d (st_ptree S ! k ! j))" if "k < PLevels (sv_P V)" "j < width V S k" "(k, j) \<noteq> (0, 0)" for k j
    using A(3) that w0 unfolding hashed_def todo_def by (cases "k = 0") auto
  ultimately have ha: "hashed V {} S'" using d(1) unfolding hashed_def w by (auto simp: part)
  obtain pt st where "S = S0\<lparr>st_ptree := pt, st_stree := st\<rparr>" using F unfolding filling_def by blast
  then have "S' = S0\<lparr>st_ptree := st_ptree S', st_stree := st_stree S'\<rparr>" by (simp add: S'_def)
  then have ex: "\<exists>pt st. S' = S0\<lparr>st_ptree := pt, st_stree := st\<rparr>" by blast
  have "pt_lm (st_ptree S' ! k ! i) = 0" if "k < PLevels (sv_P V)" "i < psize V k" for k i
    using F that L unfolding filling_def by (auto simp: part)
  moreover have "put_part 0 0 ?p S = Some S'" unfolding put_part_def using set2_in [OF pin(2,3)] by (simp add: S'_def)
  ultimately show ?thesis using d(1) pin(1) ar su ha ex by blast
qed

theorem compute_full_digest_hist:
  assumes E: "env_good V (length mem)"
  shows "\<exists>S. compute_full_digest V (State_new V nd b mem j) = Some S \<and> hist_ok V [0 \<mapsto> (mem, st_ptree S)] S \<and> st_mem S = mem \<and> st_lc S = 0 \<and>
    bm_set (st_cowb S) = {} \<and> cr_head (st_clog S) = 0 \<and> state_digest V 0 S = Some (Some (pt_d (st_ptree S ! 0 ! 0)))"
proof -
  let ?S0 = "State_new V nd b mem j" and ?r = "CheckpointRecord_init (sv_children V) (sv_P V) b (length mem)"
  note N = State_new_filling [OF E, where nd = nd and b = b and j = j]
  have f: "st_mem ?S0 = mem" "st_lc ?S0 = 0" "\<not> st_fetching ?S0" "cr_head (st_clog ?S0) = 0"
    by (simp_all add: State_new_def Let_def CheckpointRecordLog_new_def)
  have A0: "arrays_ok V ?S0" using N(1) by (simp add: filling_def)
  have L: "top_level V < PLevels (sv_P V)" "Suc (top_level V) = PLevels (sv_P V)" "psize V (top_level V) = length mem"
    using arrays_shape(2,3) [OF A0] f(1) by simp_all
  obtain S1 where 1: "fold_opt (full_level V) (rev [1..<PLevels (sv_P V)]) (nb ?S0, ?S0) = Some (1, S1)" "filling V ?S0 0 0 S1"
    using full_levels [OF N(1) L(1) A0] unfolding L(2) by (auto simp: width_def)
  obtain d S2 where 2: "part_digest V 0 0 S1 = Some d" "get2 (st_ptree S1) 0 0 = Some (st_ptree S1 ! 0 ! 0)"
    "put_part 0 0 ((st_ptree S1 ! 0 ! 0)\<lparr>pt_d := d\<rparr>) S1 = Some S2" "arrays_ok V S2" "sums_ok V S2" "hashed V {} S2"
    "\<exists>pt st. S2 = ?S0\<lparr>st_ptree := pt, st_stree := st\<rparr>" "\<And>k i. k < PLevels (sv_P V) \<Longrightarrow> i < psize V k \<Longrightarrow> pt_lm (st_ptree S2 ! k ! i) = 0"
    using full_root [OF 1(2)] by blast
  have f2: "st_mem S2 = mem" "st_lc S2 = 0" "\<not> st_fetching S2" "st_clog S2 = st_clog ?S0" "st_cowb S2 = st_cowb ?S0" using 2(7) f by auto
  have bm: "bm_ok (st_cowb S2)" "num (st_cowb S2) = nb S2" and lg: "log_good V (nb S2) (st_clog S2)" using 2(4) by (simp_all add: arrays_ok_def)
  have r0: "recs V S2 0 = Some ?r" and rk: "\<And>k r. recs V S2 k = Some r \<Longrightarrow> r = ?r" using N(2,3) f2(4) by (auto simp: recs_def)
  have sh: "shape_ok (sv_children V) (sv_P V) (length mem)" using E by (simp add: env_good_def)
  have emp: "rec_ent (sv_P V) ?r l i = None" for l i
    using cleared_empty(1) [OF sh] init_rec_ok [OF sh, of b] unfolding CheckpointRecord_init_def by blast
  let ?c = "rec_clear (sv_P V) ?r" and ?S2 = "S2\<lparr>st_cowb := bm_clear (st_cowb S2)\<rparr>"
  have cok: "rec_ok (sv_P V) (length mem) ?c" by (rule rec_ok_clear [OF init_rec_ok [OF sh] L(3)])
  obtain cl where cl: "with_rec V 0 (\<lambda>r. Some (rec_clear (sv_P V) r)) ?S2 = Some (?S2\<lparr>st_clog := cl\<rparr>)"
    "log_good V (nb S2) cl" "cr_head cl = cr_head (st_clog S2)" "recs V (?S2\<lparr>st_clog := cl\<rparr>) = (recs V S2)(0 \<mapsto> ?c)"
    using with_rec_ok [of V "nb S2" ?S2 0 ?r "\<lambda>r. Some (rec_clear (sv_P V) r)" ?c] lg r0 cok f2(1) by auto
  define S3 where "S3 = ?S2\<lparr>st_clog := cl\<rparr>"
  have f3: "st_mem S3 = mem" "st_lc S3 = 0" "\<not> st_fetching S3" "st_ptree S3 = st_ptree S2" "st_stree S3 = st_stree S2" "bm_set (st_cowb S3) = {}"
    "cr_head (st_clog S3) = 0" using f f2 bm_clear_ok [OF bm(1)] cl(3) by (simp_all add: S3_def)
  have rc3: "recs V S3 = (recs V S2)(0 \<mapsto> ?c)" using cl(4) by (simp add: S3_def)
  have "arrays_ok V S3" using 2(4) cl(2) bm_clear_ok [OF bm(1)] bm(2) by (simp add: arrays_ok_def S3_def)
  moreover have "sums_ok V S3" by (rule sums_ok_upd [OF 2(5)]) (use f2 f3 in simp_all)
  moreover have "hashed V {} S3" by (rule hashed_upd [OF 2(6)]) (use f2 f3 in simp_all)
  ultimately have T3: "tree_ok V S3" by (simp add: tree_ok_def f3)
  have c0: "recs V S3 (st_lc S3) = Some ?c" "rec_ent (sv_P V) ?c l i = None" for l i
    using cleared_empty(1) [OF sh cok] by (simp_all add: rc3 f3)
  have tc: "touched V S3 = {}" by (auto simp: touched_def modified_def f3)
  obtain S r1 r2 where S: "state_checkpoint V 0 S3 = Some S" "tree_ok V S" "bm_set (st_cowb S) = {}" "st_lc S = 0" "st_mem S = st_mem S3"
    "st_fetching S = st_fetching S3" "cr_head (st_clog S) = cr_head (st_clog S3)" and r1: "rec_updated V S3 (touched V S3) ?c r1" and
    r2: "((recs V S3)(st_lc S3 \<mapsto> r1)) 0 = Some r2" and rc: "recs V S = (recs V S3)(st_lc S3 \<mapsto> r1, 0 \<mapsto> r2\<lparr>rc_sd := pt_d (st_ptree S ! 0 ! 0)\<rparr>)" and
    dz: "\<not> is_zero (pt_d (st_ptree S ! 0 ! 0))" and
    pt: "\<forall>l < PLevels (sv_P V). \<forall>i < psize V l. if (l, i) \<in> touched V S3 then pt_lm (st_ptree S ! l ! i) = 0 else st_ptree S ! l ! i = st_ptree S3 ! l ! i"
    using state_checkpoint_ok [OF T3 order.refl c0(1) c0(2)] c0(1) unfolding f3(2) by blast
  have S0: "recs V S 0 = Some (r1\<lparr>rc_sd := pt_d (st_ptree S ! 0 ! 0)\<rparr>)" using r2 f3(2) by (simp add: rc)
  have en: "ent V S l i q = None" if l: "l < PLevels (sv_P V)" "i < psize V l" for l i q
  proof (cases "q = 0")
    case True
    have "rec_ent (sv_P V) r1 l i = None"
    proof (cases "l = top_level V")
      case top: True
      show ?thesis unfolding top using rec_ent_blocks [of r1 ?c "sv_P V" i] r1 c0(2) [of "top_level V" i] by (simp add: rec_updated_def)
    next
      case False
      then have "l < top_level V" using l(1) by linarith
      then show ?thesis using r1 l(2) c0(2) [of l i] by (simp add: rec_updated_def tc)
    qed
    then show ?thesis using S0 True by (simp add: ent_def)
  next
    case False
    then have "recs V S q = recs V S2 q" using f3(2) by (simp add: rc rc3)
    then show ?thesis using rk [of q] emp by (cases "recs V S2 q") (auto simp: ent_def)
  qed
  have lm: "pt_lm (st_ptree S ! l ! i) = 0" if "l < PLevels (sv_P V)" "i < psize V l" for l i
    using pt 2(8) [OF that] that unfolding tc f3(4) by simp
  have A: "arrays_ok V S" "hashed V {} S" using S(2,3) by (simp_all add: tree_ok_def)
  have log: "log_of V [0 \<mapsto> (mem, st_ptree S)] S" using S(4) S0 dz en unfolding log_of_def by simp
  have nbS: "nb S = length mem" using S(5) f3(1) by simp
  have bk: "blk V S i q = None" if "i < length mem" for i q using en [OF L(1), of i q] L(3) that by (simp add: blk_ent)
  have "remembers V S 0 (mem, st_ptree S)"
    unfolding remembers_def prod.case
    using leaf_digest [OF A] S(5) f3(1) en lm bk by (simp add: keeps_none)
  moreover have "saved V S" unfolding saved_def S(3,4) using en lm by simp
  ultimately have "hist_ok V [0 \<mapsto> (mem, st_ptree S)] S" using S(2,6) f3(3) log by (simp add: hist_ok_def)
  moreover have "compute_full_digest V ?S0 = Some S"
    unfolding compute_full_digest_def 1(1) using 2(1,2,3) cl(1) S(1) by (simp add: S3_def)
  moreover have "state_digest V 0 S = Some (Some (pt_d (st_ptree S ! 0 ! 0)))"
    using S0 dz log_of_range [OF log, of 0] by (auto simp: state_digest_def dest!: recs_fetch)
  ultimately show ?thesis using S(3,4,5,7) f3(1,7) by (intro exI [of _ S]) simp
qed

end
