(* ===== verification/State_Shape.thy ===== *)
theory State_Shape
  imports State_Full
begin

text \<open>
  The tree that \<^verbatim>\<open>partition::init\<close> lays out has the shape the state relies on, whenever the function returns for a memory of more than one block.
\<close>

definition chain :: "nat \<Rightarrow> nat \<Rightarrow> nat list \<Rightarrow> bool" where
  "chain PChildren N ns \<longleftrightarrow> ns \<noteq> [] \<and> ns ! 0 = N \<and> length ns \<le> MAX_PARTITION_LEVELS \<and> (\<forall>k. Suc k < length ns \<longrightarrow> ns ! Suc k = ceil_div (ns ! k) PChildren) \<and>
     (\<forall>n \<in> set ns. 0 < n)"

lemma ceil_div_pos: "0 < n \<Longrightarrow> 0 < k \<Longrightarrow> 0 < ceil_div n k"
  by (simp add: ceil_div_def div_greater_zero_iff)

lemma level_nodes_chain:
  assumes "level_nodes pc ns c = Some ms" "chain pc N ns" "last ns = c" "0 < pc"
  shows "chain pc N ms \<and> last ms = 1 \<and> length ns \<le> length ms"
  using assms
proof (induction pc ns c rule: level_nodes.induct)
  case (1 pc ns c)
  note eq = "1.prems"(1) [unfolded level_nodes.simps [of pc ns c]]
  have ne: "ns \<noteq> []" using "1.prems"(2) by (simp add: chain_def)
  show ?case
  proof (cases "c > 1")
    case True
    then have len: "\<not> length ns > MAX_PARTITION_LEVELS" "length ns \<noteq> MAX_PARTITION_LEVELS"
      and rest: "level_nodes pc (ns @ [ceil_div c pc]) (ceil_div c pc) = Some ms"
      using eq by (simp_all add: Let_def th_fail_def split: if_splits)
    have "ns ! (length ns - 1) = c" using "1.prems"(3) ne by (simp add: last_conv_nth)
    then have "(ns @ [ceil_div c pc]) ! Suc k = ceil_div ((ns @ [ceil_div c pc]) ! k) pc" if "k < length ns" for k
    proof (cases "Suc k = length ns")
      case True
      then have "k = length ns - 1" by simp
      then show ?thesis using \<open>ns ! (length ns - 1) = c\<close> True that ne by (auto simp: nth_append)
    qed (use that "1.prems"(2) in \<open>simp add: nth_append chain_def\<close>)
    then have "chain pc N (ns @ [ceil_div c pc])"
      using "1.prems"(2,4) len True ne ceil_div_pos [of c pc] by (auto simp: chain_def nth_append)
    from "1.IH" [OF True len refl rest this] "1.prems"(4) show ?thesis by simp
  next
    case False
    then have "ms = ns" using eq by simp
    moreover have "0 < c" using "1.prems"(2,3) ne last_in_set [of ns] by (auto simp: chain_def)
    ultimately show ?thesis using False "1.prems"(2,3) by simp
  qed
qed

lemma init_levels:
  assumes "ns \<noteq> []" "last ns = 1" "length ns \<le> 4" "\<forall>n \<in> set ns. 0 < n" "k < length ns"
    and "PLevels P = length ns" "length (PSize P) = 4" "length (PLevelSize P) = 4" "PSize P ! 0 = 1" "PLevelSize P ! 0 = 1"
  shows "let Q = fold (init_level ns) [1..<Suc k] P in PLevels Q = length ns \<and> length (PSize Q) = 4 \<and> length (PLevelSize Q) = 4 \<and>
    PSize Q ! 0 = 1 \<and> PLevelSize Q ! 0 = 1 \<and> (\<forall>i \<le> k. PSize Q ! i = ns ! (length ns - i - 1) \<and> 0 < PSize Q ! i \<and> PSize Q ! i \<le> PLevelSize Q ! i)"
  using assms(5)
proof (induction k)
  case 0
  have "ns ! (length ns - 1) = 1" using assms(1,2) by (simp add: last_conv_nth)
  then show ?case using assms by (simp add: Let_def)
next
  case (Suc k)
  define Q where "Q = fold (init_level ns) [1..<Suc k] P"
  let ?Q = Q and ?x = "ns ! (length ns - Suc k - 1)"
  have Q: "PLevels ?Q = length ns" "length (PSize ?Q) = 4" "length (PLevelSize ?Q) = 4" "PSize ?Q ! 0 = 1" "PLevelSize ?Q ! 0 = 1"
    "\<And>i. i \<le> k \<Longrightarrow> PSize ?Q ! i = ns ! (length ns - i - 1) \<and> 0 < PSize ?Q ! i \<and> PSize ?Q ! i \<le> PLevelSize ?Q ! i"
    using Suc.IH Suc.prems unfolding Let_def Q_def [symmetric] by auto
  have x: "0 < ?x" using assms(4) Suc.prems by (intro bspec [OF assms(4)] nth_mem) simp
  have k4: "Suc k < 4" using Suc.prems assms(3) by simp
  have eq: "fold (init_level ns) [1..<Suc (Suc k)] P = init_level ns (Suc k) ?Q" by (simp add: Q_def)
  have ps: "PSize (init_level ns (Suc k) ?Q) = (PSize ?Q)[Suc k := ?x]"
    and pl: "PLevelSize (init_level ns (Suc k) ?Q) = (PLevelSize ?Q)[Suc k := PLevelSize ?Q ! k * ?x]" "PLevels (init_level ns (Suc k) ?Q) = length ns"
    using k4 Q(1,2) by (simp_all add: init_level_def Let_def)
  have "0 < PLevelSize ?Q ! k" using Q(6) [of k] by linarith
  then have new: "?x \<le> PLevelSize ?Q ! k * ?x" by simp
  have "PSize (init_level ns (Suc k) ?Q) ! i = ns ! (length ns - i - 1) \<and> 0 < PSize (init_level ns (Suc k) ?Q) ! i \<and>
      PSize (init_level ns (Suc k) ?Q) ! i \<le> PLevelSize (init_level ns (Suc k) ?Q) ! i" if "i \<le> Suc k" for i
    using that Q(2,3) Q(6) [of i] k4 x new unfolding ps pl by (cases "i = Suc k") auto
  moreover have "length (PSize (init_level ns (Suc k) ?Q)) = 4" "length (PLevelSize (init_level ns (Suc k) ?Q)) = 4"
    "PSize (init_level ns (Suc k) ?Q) ! 0 = 1" "PLevelSize (init_level ns (Suc k) ?Q) ! 0 = 1" unfolding ps pl using Q(2-5) by simp_all
  ultimately show ?case unfolding eq Let_def using pl(2) by blast
qed

lemma chain_meta:
  assumes "chain pc N ns" "Suc k + h = length ns"
  shows "meta_nodes pc h (ns ! k) = sum_list (drop (Suc k) ns)"
  using assms(2)
proof (induction h arbitrary: k)
  case (Suc h)
  then have k: "Suc k < length ns" by simp
  then have "ceil_div (ns ! k) pc = ns ! Suc k" using assms(1) by (simp add: chain_def)
  moreover have "drop (Suc k) ns = ns ! Suc k # drop (Suc (Suc k)) ns" by (rule Cons_nth_drop_Suc [OF k, symmetric])
  ultimately show ?case using Suc.IH [of "Suc k"] Suc.prems by (simp add: Let_def)
qed simp

theorem partition_init_shape:
  assumes P: "partition_init pc bs ms = Some P" and pc: "0 < pc" "0 < bs" "1 < ms div bs"
  shows "shape_ok pc P (ms div bs)"
proof -
  let ?N = "ms div bs"
  obtain ns where ns: "level_nodes pc [?N] ?N = Some ns"
    and Pe: "P = fold (init_level ns) [1..<length ns] \<lparr>PLevels = length ns, PSize = (replicate MAX_PARTITION_LEVELS 0)[0 := 1],
       PLevelSize = (replicate MAX_PARTITION_LEVELS 0)[0 := 1], PBlocks = (replicate MAX_PARTITION_LEVELS 0)[length ns - 1 := 1]\<rparr>"
    using P by (auto simp: partition_init_def Let_def th_fail_def split: if_splits Option.bind_splits)
  have "chain pc ?N [?N]" using pc by (simp add: chain_def MAX_PARTITION_LEVELS_def)
  from level_nodes_chain [OF ns this _ pc(1)] have c: "chain pc ?N ns" "last ns = 1" by simp_all
  have L: "ns \<noteq> []" "length ns \<le> 4" "\<forall>n \<in> set ns. 0 < n" "ns ! 0 = ?N" using c(1) by (simp_all add: chain_def MAX_PARTITION_LEVELS_def)
  have two: "2 \<le> length ns"
  proof (rule ccontr)
    assume "\<not> 2 \<le> length ns"
    then have "length ns = 1" using L(1) by (simp add: Suc_leI le_antisym not_less_eq_eq)
    then have "last ns = ns ! 0" using L(1) by (simp add: last_conv_nth)
    then show False using c(2) L(4) pc(3) by simp
  qed
  have "length ns - 1 < length ns" "Suc (length ns - 1) = length ns" using two by simp_all
  moreover define P0 where "P0 = \<lparr>PLevels = length ns, PSize = (replicate MAX_PARTITION_LEVELS (0::nat))[0 := 1],
       PLevelSize = (replicate MAX_PARTITION_LEVELS 0)[0 := 1], PBlocks = (replicate MAX_PARTITION_LEVELS 0)[length ns - 1 := 1]\<rparr>"
  then have "PLevels P0 = length ns" "length (PSize P0) = 4" "length (PLevelSize P0) = 4" "PSize P0 ! 0 = 1" "PLevelSize P0 ! 0 = 1"
    by (simp_all add: MAX_PARTITION_LEVELS_def)
  moreover have "P = fold (init_level ns) [1..<length ns] P0" unfolding P0_def by (rule Pe)
  ultimately have "PLevels P = length ns \<and> length (PSize P) = 4 \<and> length (PLevelSize P) = 4 \<and> PSize P ! 0 = 1 \<and> PLevelSize P ! 0 = 1 \<and>
      (\<forall>i \<le> length ns - 1. PSize P ! i = ns ! (length ns - i - 1) \<and> 0 < PSize P ! i \<and> PSize P ! i \<le> PLevelSize P ! i)"
    using init_levels [OF L(1) c(2) L(2,3), of "length ns - 1" P0] unfolding Let_def by metis
  moreover have "i \<le> length ns - 1" if "i < length ns" for i using that by linarith
  ultimately have Q: "PLevels P = length ns" "length (PSize P) = 4" "length (PLevelSize P) = 4" "PSize P ! 0 = 1" "PLevelSize P ! 0 = 1"
    "\<And>i. i < length ns \<Longrightarrow> PSize P ! i = ns ! (length ns - i - 1) \<and> 0 < PSize P ! i \<and> PSize P ! i \<le> PLevelSize P ! i"
    by blast+
  have "take (length ns - 1) (PSize P) = rev (drop 1 ns)"
  proof (rule nth_equalityI)
    fix i assume "i < length (take (length ns - 1) (PSize P))"
    then have "i < length ns - 1" using Q(2) by simp
    then have i: "i < length ns - 1" "Suc (length ns - 1 - Suc i) = length ns - i - 1" "i < length ns" by linarith+
    then show "take (length ns - 1) (PSize P) ! i = rev (drop 1 ns) ! i" using Q(6) [OF i(3)] by (simp add: rev_nth)
  qed (use Q(2) L(2) in simp)
  moreover have "meta_nodes pc (length ns - 1) ?N = sum_list (drop 1 ns)" using chain_meta [OF c(1), of 0 "length ns - 1"] L(4) two by simp
  ultimately have "num_meta_for_blocks pc P ?N = sum_list (take (length ns - 1) (PSize P))" by (simp add: num_meta_for_blocks_def Q(1))
  moreover have "PSize P ! (length ns - 1) = ?N" using Q(6) [of "length ns - 1"] two L(4) by simp
  moreover have "\<forall>l < length ns. 0 < PSize P ! l \<and> PSize P ! l \<le> PLevelSize P ! l" using Q(6) by blast
  ultimately show ?thesis using Q(1-5) two L(2) by (simp add: shape_ok_def)
qed

end
