(* ===== verification/State_Props.thy ===== *)
theory State_Props
  imports State_Shape
begin

text \<open>
  The properties of the replicated state: over every sequence of modifications, checkpoints, rollbacks and truncations, the digests are those
  computed from scratch, checkpoints are kept as they were taken, and rolling back restores the last one.
\<close>

section \<open>A reference digest\<close>

text \<open>The digest of partition \<open>i\<close> with \<open>h\<close> levels below it, computed from the memory and the times of modification alone.\<close>

definition sum_block :: "digest list \<Rightarrow> byte list" where
  "sum_block ds = rev (le_bytes DSum_nbytes (sum_list (map digest_val ds) mod DSum_M))"

fun ref_digest :: "senv \<Rightarrow> part list list \<Rightarrow> block list \<Rightarrow> nat \<Rightarrow> nat \<Rightarrow> digest" where
  "ref_digest V t mem 0 i = set_state_block (sv_cr V) (mem ! i) i (pt_lm (t ! top_level V ! i))"
| "ref_digest V t mem (Suc h) i =
     set_state_block (sv_cr V) (sum_block (map (ref_digest V t mem h) [0..<if h = 0 then length mem else 1])) i (pt_lm (t ! (top_level V - Suc h) ! i))"

lemma dsum_bytes_eq: "dsum_bytes (s mod DSum_M) = Some (rev (le_bytes DSum_nbytes (s mod DSum_M)))"
  using dsum_bytes_mod [of s] unfolding dsum_bytes_def by (auto split: if_splits)

lemma hashed_ref:
  assumes A: "arrays_ok V S" "sums_ok V S" "hashed V {} S"
  shows "h \<le> top_level V \<Longrightarrow> i < width V S (top_level V - h) \<Longrightarrow>
    pt_d (st_ptree S ! (top_level V - h) ! i) = ref_digest V (st_ptree S) (st_mem S) h i"
proof (induction h arbitrary: i)
  case 0
  then show ?case using leaf_digest [OF A(1,3), of i] by (simp add: width_def)
next
  case (Suc h)
  let ?l = "top_level V - Suc h"
  have l: "?l < top_level V" "Suc ?l = top_level V - h" "?l < PLevels (sv_P V)" using Suc.prems(1) by linarith+
  have i: "i = 0" using Suc.prems(2) l(1) by (simp add: width_def)
  have w: "width V S (Suc ?l) = (if h = 0 then nb S else 1)" unfolding l(2) using Suc.prems(1) by (auto simp: width_def)
  have "pt_d (st_ptree S ! Suc ?l ! j) = ref_digest V (st_ptree S) (st_mem S) h j" if "j < width V S (Suc ?l)" for j
    using Suc.IH [of j] Suc.prems(1) that unfolding l(2) by simp
  then have "(\<Sum>j<width V S (Suc ?l). digest_val (pt_d (st_ptree S ! Suc ?l ! j))) =
      sum_list (map digest_val (map (ref_digest V (st_ptree S) (st_mem S) h) [0..<width V S (Suc ?l)]))"
    by (simp add: comp_def sum_list_distinct_conv_sum_set atLeast0LessThan)
  then have sm: "st_stree S ! ?l ! 0 = sum_list (map digest_val (map (ref_digest V (st_ptree S) (st_mem S) h) [0..<width V S (Suc ?l)])) mod DSum_M"
    using A(2) l(1) unfolding sums_ok_def level_sum_def by simp
  have ne: "?l \<noteq> top_level V" using l(1) by linarith
  have pd: "part_digest V ?l i S = Some (pt_d (st_ptree S ! ?l ! i))" using A(3) l(3) Suc.prems(2) unfolding hashed_def by blast
  have pt: "get2 (st_ptree S) ?l i = Some (st_ptree S ! ?l ! i)" using part_in(1) [OF A(1) l(3)] arrays_shape(5) [OF A(1) l(3)] unfolding i by blast
  have "part_digest V ?l i S =
      Some (set_state_block (sv_cr V) (sum_block (map (ref_digest V (st_ptree S) (st_mem S) h) [0..<width V S (Suc ?l)])) i (pt_lm (st_ptree S ! ?l ! i)))"
    unfolding part_digest_def pt if_not_P [OF ne] sum_block_def using sum_in(1) [OF A(1) l(1)] unfolding i sm by (simp only: dsum_bytes_eq bind.bind_lunit)
  with pd have "pt_d (st_ptree S ! ?l ! i) =
      set_state_block (sv_cr V) (sum_block (map (ref_digest V (st_ptree S) (st_mem S) h) [0..<width V S (Suc ?l)])) i (pt_lm (st_ptree S ! ?l ! i))"
    by (metis option.inject)
  also have "\<dots> = ref_digest V (st_ptree S) (st_mem S) (Suc h) i" unfolding w ref_digest.simps ..
  finally show ?case .
qed

lemma root_ref:
  assumes "arrays_ok V S" "sums_ok V S" "hashed V {} S"
  shows "pt_d (st_ptree S ! 0 ! 0) = ref_digest V (st_ptree S) (st_mem S) (top_level V) 0"
proof -
  have "0 < top_level V" using arrays_shape(2) [OF assms(1)] by simp
  then have "0 < width V S (top_level V - top_level V)" by (simp add: width_def)
  from hashed_ref [OF assms order.refl this] show ?thesis by simp
qed

section \<open>Runs\<close>

text \<open>What the library and the application do to the state between two state transfers: declare a modification, write to blocks that were
  declared, take a checkpoint, roll back, and discard old checkpoints.\<close>

inductive ckpt_run :: "senv \<Rightarrow> block list \<Rightarrow> history \<Rightarrow> state \<Rightarrow> bool" for V :: senv and mem0 :: "block list" where
  start: "compute_full_digest V (State_new V nd b mem0 j) = Some S \<Longrightarrow> ckpt_run V mem0 [0 \<mapsto> (mem0, st_ptree S)] S"
| modify: "ckpt_run V mem0 H S \<Longrightarrow> state_cow V off sz S = Some S' \<Longrightarrow> ckpt_run V mem0 H S'"
| modify1: "ckpt_run V mem0 H S \<Longrightarrow> Byz_modify1 V off S = Some S' \<Longrightarrow> ckpt_run V mem0 H S'"
| update: "ckpt_run V mem0 H S \<Longrightarrow> length mem = nb S \<Longrightarrow> (\<And>i. i < nb S \<Longrightarrow> i \<notin> bm_set (st_cowb S) \<Longrightarrow> mem ! i = st_mem S ! i) \<Longrightarrow>
    ckpt_run V mem0 H (S\<lparr>st_mem := mem\<rparr>)"
| checkpoint: "ckpt_run V mem0 H S \<Longrightarrow> st_lc S < n \<Longrightarrow> checkpoint_interval (sv_b V) dvd n \<Longrightarrow> n \<le> cr_head (st_clog S) + max_out (sv_b V) \<Longrightarrow>
    state_checkpoint V n S = Some S' \<Longrightarrow> ckpt_run V mem0 (H(n \<mapsto> (st_mem S, st_ptree S'))) S'"
| rollback: "ckpt_run V mem0 H S \<Longrightarrow> state_rollback V S = Some (n, S') \<Longrightarrow> ckpt_run V mem0 H S'"
| discard: "ckpt_run V mem0 H S \<Longrightarrow> n \<le> st_lc S \<Longrightarrow> cr_head (st_clog S) \<le> n \<Longrightarrow> discard_checkpoint V n le S = Some S' \<Longrightarrow>
    ckpt_run V mem0 (H |` {n..}) S'"

lemma hist_window:
  assumes "hist_ok V H S" "st_lc S < n" "checkpoint_interval (sv_b V) dvd n" "n \<le> cr_head (st_clog S) + max_out (sv_b V)"
  shows "recs V S n \<noteq> None"
proof -
  have "recs V S (st_lc S) \<noteq> None" using hist_lc(1) [OF assms(1)] by auto
  then have "cr_head (st_clog S) \<le> st_lc S" using recs_iff [OF hist_arrays(2) [OF assms(1)], of "st_lc S"] by simp
  then show ?thesis using recs_iff [OF hist_arrays(2) [OF assms(1)], of n] assms(2-4) by simp
qed

lemma state_cow_inv:
  assumes "hist_ok V H S" "0 < sv_block V" "state_cow V off sz S = Some S'"
  shows "hist_ok V H S'"
proof (cases "sz \<le> 0")
  case True
  then have "S' = S" using assms(3) by (auto simp: state_cow_def split: Option.bind_splits if_splits)
  then show ?thesis using assms(1) by simp
next
  case False
  have "0 < off" "off + sz \<le> int (nb S * sv_block V)" using assms(3) by (auto simp: state_cow_def th_assert_def split: Option.bind_splits if_splits)
  then show ?thesis using state_cow_ok [OF assms(1,2), of off sz] False assms(3) by auto
qed

lemma Byz_modify1_inv:
  assumes "hist_ok V H S" "Byz_modify1 V off S = Some S'"
  shows "hist_ok V H S'"
proof -
  let ?i = "nat off div sv_block V"
  obtain t where t: "bm_test (st_cowb S) ?i = Some t" "(if t then Some S else cow_single V ?i S) = Some S'"
    using assms(2) by (auto simp: Byz_modify1_def Let_def split: Option.bind_splits)
  show ?thesis
  proof (cases t)
    case False
    then have c: "cow_single V ?i S = Some S'" using t(2) by simp
    then have i: "?i < nb S" by (auto simp: cow_single_def th_assert_def split: Option.bind_splits if_splits)
    have "bm_test (st_cowb S) ?i = Some (?i \<in> bm_set (st_cowb S))"
      using hist_arrays(1) [OF assms(1)] i by (intro bm_test_set) (simp_all add: arrays_ok_def)
    then show ?thesis using cow_single_ok [OF assms(1) i] c t(1) False by auto
  qed (use t(2) assms(1) in simp)
qed

lemma ckpt_run_hist:
  assumes "ckpt_run V mem0 H S" "env_good V (length mem0)" "0 < sv_block V"
  shows "hist_ok V H S"
  using assms(1)
proof induction
  case (start nd b j S)
  then show ?case using compute_full_digest_hist [OF assms(2), of nd b j] by (metis option.inject)
next
  case (modify H S off sz S')
  then show ?case using state_cow_inv assms(3) by blast
next
  case (modify1 H S off S')
  then show ?case using Byz_modify1_inv by blast
next
  case (update H S mem)
  then show ?case using write_ok by blast
next
  case (checkpoint H S n S')
  then show ?case using state_checkpoint_hist [OF checkpoint.IH, of n] hist_window [OF checkpoint.IH, of n] by (metis option.inject)
next
  case (rollback H S n S')
  obtain m t where h: "H (st_lc S) = Some (m, t)" using hist_parts(6) [OF rollback.IH] by auto
  show ?case using state_rollback_hist [OF rollback.IH h] rollback.hyps(2) by auto
next
  case (discard H S n le S')
  have "checkpoint_interval (sv_b V) dvd n"
    using discard.hyps(2,4) by (auto simp: discard_checkpoint_def crlog_truncate_def th_assert_def dvd_eq_mod_eq_0 split: Option.bind_splits if_splits)
  then show ?case using discard_checkpoint_hist [OF discard.IH discard.hyps(2) _ discard.hyps(3), of le] discard.hyps(4) by auto
qed

section \<open>The properties\<close>





section \<open>A concrete memory\<close>

text \<open>Four blocks of four bytes under a tree with two children for each inner partition, and a hash function with a constant value.\<close>

definition wit_senv :: senv where
  "wit_senv = \<lparr>sv_b = default_build, sv_cr = wit_crypto\<lparr>cr_hash := (\<lambda>_. replicate num_words 1)\<rparr>,
     sv_P = \<lparr>PLevels = 3, PSize = [1, 2, 4, 0], PLevelSize = [1, 2, 8, 0], PBlocks = [8, 2, 1, 0]\<rparr>,
     sv_children = 2, sv_block = 4, sv_max_msg = 4096\<rparr>"

definition wit_blocks :: "block list" where
  "wit_blocks = [[1, 2, 3, 4], [5, 6, 7, 8], [0, 0, 0, 0], [9, 9, 9, 9]]"

lemma wit_senv_init: "partition_init 2 4 16 = Some (sv_P wit_senv)"
  by code_simp

lemma wit_senv_hash: "hash_good (sv_cr wit_senv)"
  by (simp add: hash_good_def wit_senv_def num_words_def is_zero_def)

lemma wit_senv_levels: "\<forall>l < PLevels (sv_P wit_senv). PLevelSize (sv_P wit_senv) ! l + ChunkBits \<le> 2 ^ 32"
  by (simp add: wit_senv_def ChunkBits_def numeral_3_eq_3 All_less_Suc)

lemma wit_senv_good: "env_good wit_senv (length wit_blocks)"
proof -
  have "length wit_blocks = 16 div 4" by (simp add: wit_blocks_def)
  then have "shape_ok 2 (sv_P wit_senv) (length wit_blocks)" using partition_init_shape [OF wit_senv_init] by simp
  then show ?thesis using wit_senv_hash wit_senv_levels build_ok_interval [OF default_build_ok]
    by (simp add: env_good_def ChunkBits_def) (simp add: wit_senv_def wit_blocks_def)
qed

lemma wit_senv_start: "\<exists>S. compute_full_digest wit_senv (State_new wit_senv (wit_node 0) [] wit_blocks j) = Some S \<and> st_lc S = 0 \<and>
    cr_head (st_clog S) = 0 \<and> st_mem S = wit_blocks \<and> ckpt_run wit_senv wit_blocks [0 \<mapsto> (wit_blocks, st_ptree S)] S"
  using compute_full_digest_hist [OF wit_senv_good, of "wit_node 0" "[]" j] by (auto intro: ckpt_run.start)





end
