(* ===== verification/Transfer_Props.thy ===== *)
theory Transfer_Props
  imports State_Transfer State_Props
begin

text \<open>
  Properties of the messages of a state transfer: who vouches for a certified digest, what answering a request does, and inputs that the code
  does not handle as it means to.
\<close>

section \<open>Who vouches for a digest\<close>

text \<open>\<open>A\<close> are replicas that each sent a message of \<open>ms\<close> with this digest for this checkpoint.\<close>

definition vouch :: "build \<Rightarrow> meta_data_d set \<Rightarrow> nat set \<Rightarrow> seqno \<Rightarrow> digest \<Rightarrow> bool" where
  "vouch b ms A c d \<longleftrightarrow> (\<forall>j \<in> A. \<exists>m \<in> ms. nat (mdd_id m) = j \<and> (\<exists>x. mdd_digest b c m = Some (Some x) \<and> digest_eq x d))"

definition senders :: "md_cert \<Rightarrow> nat set" where
  "senders C = {j. j < length (mc_mdds C) \<and> mc_mdds C ! j \<noteq> None}"

definition val_vouched :: "build \<Rightarrow> meta_data_d set \<Rightarrow> nat set \<Rightarrow> part_val \<Rightarrow> bool" where
  "val_vouched b ms X v \<longleftrightarrow> (\<exists>A. A \<subseteq> X \<and> pv_count v \<le> int (card A) \<and> vouch b ms A (pv_c v) (pv_d v))"

definition cert_vouched :: "build \<Rightarrow> meta_data_d set \<Rightarrow> nat set \<Rightarrow> md_cert \<Rightarrow> bool" where
  "cert_vouched b ms X C \<longleftrightarrow> (\<forall>i < mc_cur C. val_vouched b ms X (mc_vals C ! i)) \<and> mc_cur C \<le> length (mc_vals C) \<and>
     (mc_c C \<ge> 0 \<longrightarrow> (\<exists>A. A \<subseteq> X \<and> mc_correct C \<le> int (card A) \<and> vouch b ms A (mc_c C) (mc_d C)))"

lemma vouch_mono: "vouch b ms A c d \<Longrightarrow> ms \<subseteq> ms' \<Longrightarrow> vouch b ms' A c d"
  unfolding vouch_def by blast

lemma val_vouched_mono: "val_vouched b ms X v \<Longrightarrow> ms \<subseteq> ms' \<Longrightarrow> X \<subseteq> X' \<Longrightarrow> val_vouched b ms' X' v"
  unfolding val_vouched_def using vouch_mono by (meson order.trans)

lemma votes_True: "votes b m v = Some True \<longleftrightarrow> (\<exists>x. mdd_digest b (pv_c v) m = Some (Some x) \<and> digest_eq x (pv_d v))"
  by (auto simp: votes_def split: option.splits Option.bind_splits)

lemma votes_count [simp]: "votes b m (v\<lparr>pv_count := k\<rparr>) = votes b m v"
  by (simp add: votes_def cong: option.case_cong)

text \<open>One vote: the sender's former message is the new one, or there was none and the sender is new.\<close>

lemma one_vote:
  assumes v: "val_vouched b ms X v" and X: "finite X" "m \<in> ms"
    and om: "om = Some m \<or> om = None \<and> nat (mdd_id m) \<notin> X"
    and old: "(case om of None \<Rightarrow> Some False | Some om \<Rightarrow> votes b om v) = Some old" and new: "votes b m v = Some new"
  shows "val_vouched b ms (insert (nat (mdd_id m)) X) (v\<lparr>pv_count := pv_count v - (if old then 1 else 0) + (if new then 1 else 0)\<rparr>)"
proof -
  obtain A where A: "A \<subseteq> X" "pv_count v \<le> int (card A)" "vouch b ms A (pv_c v) (pv_d v)" using v by (auto simp: val_vouched_def)
  show ?thesis
  proof (cases "om = None \<and> new")
    case True
    then have n: "nat (mdd_id m) \<notin> A" "\<not> old" using om old A(1) by auto
    have "finite A" using A(1) X(1) finite_subset by blast
    then have "int (card (insert (nat (mdd_id m)) A)) = int (card A) + 1" using n(1) by simp
    moreover have "vouch b ms (insert (nat (mdd_id m)) A) (pv_c v) (pv_d v)"
      using A(3) X(2) new True votes_True [of b m v] unfolding vouch_def by auto
    ultimately show ?thesis using A(1,2) True n(2) unfolding val_vouched_def by (intro exI [of _ "insert (nat (mdd_id m)) A"]) auto
  next
    case False
    then have "\<not> new \<or> old" using om old new by auto
    then show ?thesis using A unfolding val_vouched_def by (intro exI [of _ A]) auto
  qed
qed

text \<open>Removing a value moves a later one into its place.\<close>

lemma drop_vals_good:
  assumes "drop_vals i ls vs cur = Some (vs', cur')" "cur \<le> length vs" "\<And>k. k < cur \<Longrightarrow> if k \<le> i then V' (vs ! k) else V (vs ! k)" "\<And>v. V v \<Longrightarrow> V' v"
  shows "cur' \<le> length vs' \<and> (\<forall>k < cur'. if k \<le> i then V' (vs' ! k) else V (vs' ! k))"
  using assms(1-3)
proof (induction cur arbitrary: vs)
  case (Suc cur)
  define vs1 where "vs1 = (if i < cur then vs[i := vs ! cur] else vs)"
  define vs2 where "vs2 = vs1[cur := pv_clear (vs1 ! cur)]"
  have len: "length vs2 = length vs" by (simp add: vs1_def vs2_def)
  have g: "if k \<le> i then V' (vs2 ! k) else V (vs2 ! k)" if k: "k < cur" for k
  proof (cases "k = i")
    case True
    then have "vs2 ! k = vs ! cur" using k Suc.prems(2) by (simp add: vs2_def vs1_def)
    moreover have "V (vs ! cur)" using Suc.prems(3) [of cur] True k by (simp split: if_splits)
    ultimately show ?thesis using True assms(4) by simp
  next
    case False
    then have "vs2 ! k = vs ! k" using k by (simp add: vs2_def vs1_def)
    then show ?thesis using Suc.prems(3) [of k] k by simp
  qed
  have "(if pv_c (vs2 ! i) < ls \<and> cur > 0 then drop_vals i ls vs2 cur else Some (vs2, cur)) = Some (vs', cur')"
    using Suc.prems(1) by (auto simp: Let_def vs1_def vs2_def split: if_splits)
  then show ?case
  proof (elim if_SomeE)
    assume "drop_vals i ls vs2 cur = Some (vs', cur')"
    then show ?thesis using Suc.IH [of vs2] g len Suc.prems(2) by simp
  qed (use g len Suc.prems(2) in auto)
qed simp

definition half_voted :: "build \<Rightarrow> meta_data_d set \<Rightarrow> nat set \<Rightarrow> nat \<Rightarrow> nat \<Rightarrow> md_cert \<Rightarrow> bool" where
  "half_voted b ms X s i C \<longleftrightarrow> mc_cur C \<le> length (mc_vals C) \<and>
     (\<forall>k < mc_cur C. if k < i then val_vouched b ms (insert s X) (mc_vals C ! k) else val_vouched b ms X (mc_vals C ! k)) \<and>
     (mc_c C \<ge> 0 \<longrightarrow> (\<exists>A. A \<subseteq> insert s X \<and> mc_correct C \<le> int (card A) \<and> vouch b ms A (mc_c C) (mc_d C)))"

text \<open>What the loops over the values leave alone.\<close>

definition cert_frame :: "md_cert \<Rightarrow> int \<times> meta_data_d option list \<times> seqno \<times> seqno list" where
  "cert_frame C = (mc_correct C, mc_mdds C, mc_ls C, mc_stables C)"

lemma adjust_vals_vouched:
  assumes "adjust_vals b om m i matched C = Some (matched', C')" "half_voted b ms X (nat (mdd_id m)) i C"
    "finite X" "m \<in> ms" "om = Some m \<or> om = None \<and> nat (mdd_id m) \<notin> X"
  shows "cert_vouched b ms (insert (nat (mdd_id m)) X) C'" "cert_frame C' = cert_frame C"
proof -
  let ?s = "nat (mdd_id m)"
  have mono: "val_vouched b ms (insert ?s X) v" if "val_vouched b ms X v" for v by (rule val_vouched_mono [OF that]) auto
  have "cert_vouched b ms (insert ?s X) C' \<and> cert_frame C' = cert_frame C"
    using assms
  proof (induction b om m i matched C rule: adjust_vals.induct)
    case (1 b om m i matched C)
    let ?s = "nat (mdd_id m)"
    note H = "1.prems"(2) and rest = "1.prems"(3-5)
    have mono: "val_vouched b ms (insert ?s X) v" if "val_vouched b ms X v" for v by (rule val_vouched_mono [OF that]) auto
    show ?case
    proof (cases "i < mc_cur C")
      case False
      then have "C' = C" using "1.prems"(1) by (simp add: adjust_vals.simps [of b om m i matched C])
      then show ?thesis using H False by (auto simp: half_voted_def cert_vouched_def)
    next
      case True
      let ?v = "mc_vals C ! i"
      note e0 = "1.prems"(1) [unfolded adjust_vals.simps [of b om m i matched C] if_P [OF True] Let_def]
      obtain old where old: "(case om of None \<Rightarrow> Some False | Some om \<Rightarrow> votes b om ?v) = Some old"
        using e0 by (auto split: Option.bind_splits)
      define v1 where "v1 = (if old then ?v\<lparr>pv_count := pv_count ?v - 1\<rparr> else ?v)"
      note e1 = e0 [unfolded old bind.bind_lunit, folded v1_def]
      obtain new where new: "votes b m v1 = Some new" using e1 by (auto split: Option.bind_splits)
      define v2 where "v2 = (if new then v1\<lparr>pv_count := pv_count v1 + 1\<rparr> else v1)"
      note e2 = e1 [unfolded new bind.bind_lunit, folded v2_def]
      obtain ma where ma: "(if new then arr_set matched (nat ((pv_c v2 - mdd_ls m) sdiv checkpoint_interval b)) True else Some matched) = Some ma"
        using e2 by (auto split: Option.bind_splits)
      define C1 where "C1 = C\<lparr>mc_vals := (mc_vals C)[i := v2]\<rparr>"
      note eq = e2 [unfolded ma bind.bind_lunit, folded C1_def]
      note IH = "1.IH" [OF True refl old v1_def new v2_def ma C1_def]
      have "votes b m ?v = Some new" using new by (simp add: v1_def split: if_splits)
      moreover have "val_vouched b ms X ?v" using H True unfolding half_voted_def by (metis less_irrefl)
      ultimately have "val_vouched b ms (insert ?s X) (?v\<lparr>pv_count := pv_count ?v - (if old then 1 else 0) + (if new then 1 else 0)\<rparr>)"
        using one_vote [OF _ rest(1,2,3) old] by blast
      moreover have "v2 = ?v\<lparr>pv_count := pv_count ?v - (if old then 1 else 0) + (if new then 1 else 0)\<rparr>" by (simp add: v2_def v1_def)
      ultimately have v2: "val_vouched b ms (insert ?s X) v2" by simp
      have C1: "half_voted b ms X ?s (Suc i) C1" using H True v2 unfolding half_voted_def C1_def by (auto simp: nth_list_update less_Suc_eq)
      have f: "cert_frame C1 = cert_frame C" by (simp add: C1_def cert_frame_def)
      show ?thesis
      proof (cases "pv_count v2 = 0 \<or> pv_c v2 < mc_ls C1")
        case drop: True
        obtain vs cur where d: "drop_vals i (mc_ls C1) (mc_vals C1) (mc_cur C1) = Some (vs, cur)"
          "adjust_vals b om m (Suc i) ma (C1\<lparr>mc_vals := vs, mc_cur := cur\<rparr>) = Some (matched', C')"
          using eq drop by (auto split: option.splits)
        have "cur \<le> length vs \<and> (\<forall>k < cur. if k \<le> i then val_vouched b ms (insert ?s X) (vs ! k) else val_vouched b ms X (vs ! k))"
          using drop_vals_good [OF d(1), where V' = "val_vouched b ms (insert ?s X)" and V = "val_vouched b ms X"] C1 mono
          unfolding half_voted_def by (simp add: less_Suc_eq_le)
        then have "half_voted b ms X ?s (Suc i) (C1\<lparr>mc_vals := vs, mc_cur := cur\<rparr>)" using C1 unfolding half_voted_def by (simp add: less_Suc_eq_le)
        from IH(1) [OF drop d(1) refl d(2) this rest] f show ?thesis by (simp add: cert_frame_def)
      next
        case nd: False
        show ?thesis
        proof (cases "pv_count v2 \<ge> mc_correct C1 \<and> pv_c v2 > mc_c C1")
          case big: True
          obtain A where A: "A \<subseteq> insert ?s X" "pv_count v2 \<le> int (card A)" "vouch b ms A (pv_c v2) (pv_d v2)" using v2 by (auto simp: val_vouched_def)
          then have "half_voted b ms X ?s (Suc i) (C1\<lparr>mc_c := pv_c v2, mc_d := pv_d v2\<rparr>)"
            using C1 big unfolding half_voted_def by (auto intro!: exI [of _ A])
          from IH(2) [OF nd big _ this rest] eq nd big f show ?thesis by (simp add: cert_frame_def)
        next
          case small: False
          from IH(3) [OF nd small _ C1 rest] eq nd small f show ?thesis by (simp split: if_splits)
        qed
      qed
    qed
  qed
  then show "cert_vouched b ms (insert ?s X) C'" "cert_frame C' = cert_frame C" by blast+
qed

lemma digest_eq_refl: "digest_eq d d"
proof -
  have "fold (\<lambda>i df. df OR (d ! i XOR d ! i)) xs 0 = 0" for xs by (induction xs) auto
  then show ?thesis by (simp add: digest_eq_def Let_def)
qed

lemma new_val_vouched:
  assumes "new_val b m matched k C = Some C'" "cert_vouched b ms X C" "nat (mdd_id m) \<in> X" "m \<in> ms"
  shows "cert_vouched b ms X C' \<and> cert_frame C' = cert_frame C"
proof (cases "C' = C")
  case False
  let ?n = "mdd_ls m + int k * checkpoint_interval b"
  obtain d where d: "mdd_digest b ?n m = Some (Some d)" "mc_cur C < length (mc_vals C)"
    "C' = C\<lparr>mc_vals := (mc_vals C)[mc_cur C := \<lparr>pv_d = d, pv_c = ?n, pv_count = 1\<rparr>], mc_cur := mc_cur C + 1\<rparr>"
    using assms(1) False by (auto simp: new_val_def Let_def split: if_splits option.splits Option.bind_splits)
  have "val_vouched b ms X \<lparr>pv_d = d, pv_c = ?n, pv_count = 1\<rparr>"
    unfolding val_vouched_def vouch_def using assms(3,4) d(1) digest_eq_refl by (intro exI [of _ "{nat (mdd_id m)}"]) auto
  then show ?thesis using assms(2) d(2,3) unfolding cert_vouched_def by (auto simp: nth_list_update less_Suc_eq cert_frame_def)
qed (use assms(2) in simp)

definition stables_zero :: "node \<Rightarrow> md_cert \<Rightarrow> bool" where
  "stables_zero nd C \<longleftrightarrow> mc_ls C = 0 \<and> (\<forall>s \<in> set (mc_stables C). s = 0) \<and> max_faulty nd + 1 \<le> int (length (mc_stables C))"

lemma K_max_zeros:
  assumes "\<forall>s \<in> set xs. s = 0" "k \<le> int (length xs)" "0 < k" "K_max k xs Seqno_max = Some r"
  shows "r = 0"
proof -
  have "filter (\<lambda>v. 0 \<le> v) xs = xs" using assms(1) by (auto simp: filter_id_conv)
  moreover have "\<forall>v \<in> set xs. v < Seqno_max" using assms(1) by (auto simp: Seqno_max_def)
  ultimately have "r \<in> set xs" using K_max_spec [of k xs Seqno_max] assms(2-4) by auto
  then show ?thesis using assms(1) by blast
qed

lemma mc_add_ignored:
  assumes "mc_add b nd ok m own C = Some (r, C')" "\<not> (own \<or> ok)"
  shows "C' = C"
  using assms by (simp add: mc_add_def)

lemma mc_add_vouched:
  assumes a: "mc_add b nd ok m own C = Some (r, C')" and C: "cert_vouched b ms (senders C) C" "stables_zero nd C" "0 \<le> max_faulty nd" "0 \<le> mdd_ls m"
  shows "cert_vouched b (insert m ms) (senders C') C' \<and> stables_zero nd C' \<and> mc_correct C' = mc_correct C"
proof -
  define D where "D = (if own then C\<lparr>mc_mine := True\<rparr> else C)"
  have Df: "mc_mdds D = mc_mdds C" "mc_vals D = mc_vals C" "mc_cur D = mc_cur C" "mc_ls D = mc_ls C" "mc_stables D = mc_stables C" "mc_c D = mc_c C"
    "mc_d D = mc_d C" "mc_correct D = mc_correct C" by (simp_all add: D_def)
  have sub: "ms \<subseteq> insert m ms" by blast
  have vm: "val_vouched b (insert m ms) X v" if "val_vouched b ms X v" for X v by (rule val_vouched_mono [OF that sub order.refl])
  have D1: "cert_vouched b (insert m ms) (senders C) D"
    using C(1) vm vouch_mono [OF _ sub] unfolding cert_vouched_def Df by (meson)
  have Ds: "senders D = senders C" "stables_zero nd D" using C(2) by (simp_all add: senders_def stables_zero_def Df)
  show ?thesis
  proof (cases "C' = D")
    case True
    then show ?thesis using D1 Ds Df by simp
  next
    case False
    let ?id = "nat (mdd_id m)"
    let ?D1 = "D\<lparr>mc_mdds := (mc_mdds D)[?id := Some m]\<rparr>"
    note e = a [unfolded mc_add_def Let_def, folded D_def]
    have ok: "own \<or> ok" by (rule ccontr) (use e False in simp)
    obtain old where old: "arr_get (mc_mdds D) ?id = Some old" and
      e0: "(if (case old of None \<Rightarrow> False | Some om \<Rightarrow> mdd_last_checkpoint b om \<ge> mdd_last_checkpoint b m) then Some (False, D) else
        (if mdd_ls m < mc_ls ?D1 then Some (False, ?D1\<lparr>mc_mdds := (mc_mdds ?D1)[?id := None]\<rparr>)
         else do {
           C2 \<leftarrow> (if mdd_ls m > mc_ls ?D1 then do {
                    ls \<leftarrow> K_max (max_faulty nd + 1) (mc_stables ?D1) Seqno_max;
                    Some (?D1\<lparr>mc_ls := ls\<rparr>) }
                  else Some ?D1);
           (matched, C3) \<leftarrow> adjust_vals b (if old = None then None else Some m) m 0 (replicate (mdd_slots b) False) C2;
           C4 \<leftarrow> fold_opt (new_val b m matched) [0..<nat (mdd_n m)] C3;
           Some (True, C4) })) = Some (r, C')"
      using e [unfolded if_P [OF ok]] by (elim bind_SomeE) (rule that)
    have "\<not> (case old of None \<Rightarrow> False | Some om \<Rightarrow> mdd_last_checkpoint b om \<ge> mdd_last_checkpoint b m)" by (rule notI) (use e0 False in simp)
    note e1 = e0 [unfolded if_not_P [OF this]]
    have "\<not> mdd_ls m < mc_ls ?D1" using C(4) Ds(2) by (simp add: stables_zero_def)
    then obtain C2 matched C3 where C2: "(if mdd_ls m > mc_ls ?D1 then do {
                    ls \<leftarrow> K_max (max_faulty nd + 1) (mc_stables ?D1) Seqno_max; Some (?D1\<lparr>mc_ls := ls\<rparr>) } else Some ?D1) = Some C2"
      and adj: "adjust_vals b (if old = None then None else Some m) m 0 (replicate (mdd_slots b) False) C2 = Some (matched, C3)"
      and nv: "fold_opt (new_val b m matched) [0..<nat (mdd_n m)] C3 = Some C'"
      using e1 by (elim if_SomeE bind_SomeE) (auto elim!: bind_SomeE split: prod.splits)
    have "C2 = ?D1"
    proof (cases "mdd_ls m > mc_ls ?D1")
      case True
      then obtain ls where ls: "K_max (max_faulty nd + 1) (mc_stables D) Seqno_max = Some ls" "C2 = ?D1\<lparr>mc_ls := ls\<rparr>" using C2 by (auto elim!: bind_SomeE)
      then have "ls = 0" using K_max_zeros [OF _ _ _ ls(1)] Ds(2) C(3) by (simp add: stables_zero_def)
      then show ?thesis using ls(2) Ds(2) by (simp add: stables_zero_def)
    qed (use C2 in simp)
    have id: "?id < length (mc_mdds C)" "old = mc_mdds C ! ?id" using old by (auto simp: arr_get_def Df split: if_splits)
    have fin: "finite (senders C)" by (simp add: senders_def)
    have om: "(if old = None then None else Some m) = Some m \<or> (if old = None then None else Some m) = None \<and> ?id \<notin> senders C"
      using id by (auto simp: senders_def)
    have H: "half_voted b (insert m ms) (senders C) ?id 0 C2"
      using D1 unfolding half_voted_def cert_vouched_def \<open>C2 = ?D1\<close> by (simp, meson subset_insertI2)
    note A = adjust_vals_vouched [OF adj H fin insertI1 om]
    have N: "cert_vouched b (insert m ms) (insert ?id (senders C)) C' \<and> cert_frame C' = cert_frame C3"
      by (rule fold_opt_inv [OF nv, where P = "\<lambda>X. cert_vouched b (insert m ms) (insert ?id (senders C)) X \<and> cert_frame X = cert_frame C3"])
        (use A(1) new_val_vouched [of b m matched _ _ _ "insert m ms" "insert ?id (senders C)"] in auto)
    have F: "mc_correct C' = mc_correct C" "mc_mdds C' = (mc_mdds C)[?id := Some m]" "mc_ls C' = mc_ls D" "mc_stables C' = mc_stables D"
      using N A(2) Df \<open>C2 = ?D1\<close> by (simp_all add: cert_frame_def)
    have "senders C' = insert ?id (senders C)" using F(2) id(1) by (auto simp: senders_def nth_list_update)
    then show ?thesis using N F Ds(2) by (simp add: stables_zero_def)
  qed
qed

text \<open>The messages that reach a certificate, in order; the flag marks the replica's own one.\<close>

definition mc_adds :: "build \<Rightarrow> crypto \<Rightarrow> ptree_sizes \<Rightarrow> node \<Rightarrow> (meta_data_d \<times> bool) list \<Rightarrow> md_cert \<Rightarrow> md_cert option" where
  "mc_adds b cr P nd = fold_opt (\<lambda>(m, own) C. map_option snd (mc_add b nd (Meta_data_d_verify b cr P nd m) m own C))"

definition accepted_mdds :: "build \<Rightarrow> crypto \<Rightarrow> ptree_sizes \<Rightarrow> node \<Rightarrow> (meta_data_d \<times> bool) list \<Rightarrow> meta_data_d set" where
  "accepted_mdds b cr P nd ms = {m. \<exists>own. (m, own) \<in> set ms \<and> (own \<or> Meta_data_d_verify b cr P nd m)}"

lemma Meta_data_d_verify_bounds: "Meta_data_d_verify b cr P nd m \<Longrightarrow> 0 \<le> mdd_ls m \<and> is_replica nd (mdd_id m)"
  by (simp add: Meta_data_d_verify_def split: if_splits)

lemma mc_adds_vouched:
  assumes "mc_adds b cr P nd ms C = Some C'" "cert_vouched b A (senders C) C" "stables_zero nd C" "0 \<le> max_faulty nd"
    "\<forall>m. (m, True) \<in> set ms \<longrightarrow> 0 \<le> mdd_ls m"
  shows "cert_vouched b (A \<union> accepted_mdds b cr P nd ms) (senders C') C' \<and> mc_correct C' = mc_correct C"
  using assms
proof (induction ms arbitrary: C A)
  case Nil
  then show ?case by (simp add: mc_adds_def accepted_mdds_def)
next
  case (Cons x ms)
  obtain m own where x: "x = (m, own)" by (cases x)
  let ?v = "Meta_data_d_verify b cr P nd m"
  obtain r C1 where C1: "mc_add b nd ?v m own C = Some (r, C1)" "mc_adds b cr P nd ms C1 = Some C'"
    using Cons.prems(1) x by (auto simp: mc_adds_def elim!: bind_SomeE)
  let ?A = "if own \<or> ?v then insert m A else A"
  have "cert_vouched b ?A (senders C1) C1 \<and> stables_zero nd C1 \<and> mc_correct C1 = mc_correct C"
  proof (cases "own \<or> ?v")
    case True
    then have "0 \<le> mdd_ls m" using Cons.prems(5) x Meta_data_d_verify_bounds [of b cr P nd m] by auto
    then show ?thesis using mc_add_vouched [OF C1(1) Cons.prems(2-4)] True by simp
  qed (use mc_add_ignored [OF C1(1)] Cons.prems(2,3) in simp)
  moreover have "?A \<union> accepted_mdds b cr P nd ms = A \<union> accepted_mdds b cr P nd (x # ms)"
    by (auto simp: accepted_mdds_def x)
  ultimately show ?case using Cons.IH [OF C1(2)] Cons.prems(4,5) by (metis list.set_intros(2))
qed

text \<open>C7: A digest that the certificate of a partition reports was vouched for by more replicas than may be faulty, so by a correct one.
  Whatever messages arrive and in whatever order, some of them repeated, late, forged or from a faulty replica: if
  \<^verbatim>\<open>cvalue\<close> returns checkpoint \<open>c\<close> and digest \<open>d\<close>, then at least \<open>f + 1\<close> different replicas sent a message that passed
  \<^verbatim>\<open>verify()\<close> (or is the replica's own) in which the digest for \<open>c\<close> is \<open>d\<close>. This is what lets a replica trust a partition digest before it
  has fetched the partition.\<close>

theorem certified_digest_vouched:
  assumes "mc_adds b cr P nd ms (Meta_data_cert_new b nd) = Some C" "mc_cvalue C = Some (c, d)"
    and "0 \<le> max_faulty nd" "max_faulty nd < num_replicas nd" "\<forall>m. (m, True) \<in> set ms \<longrightarrow> 0 \<le> mdd_ls m"
  shows "\<exists>A. max_faulty nd + 1 \<le> int (card A) \<and>
    (\<forall>j \<in> A. \<exists>m own. (m, own) \<in> set ms \<and> (own \<or> Meta_data_d_verify b cr P nd m) \<and> nat (mdd_id m) = j \<and>
       (\<exists>x. mdd_digest b c m = Some (Some x) \<and> digest_eq x d))"
proof -
  let ?C = "Meta_data_cert_new b nd"
  have "cert_vouched b {} (senders ?C) ?C" by (simp add: cert_vouched_def Meta_data_cert_new_def Let_def)
  moreover have "stables_zero nd ?C" using assms(3,4) by (simp add: stables_zero_def Meta_data_cert_new_def Let_def)
  ultimately have v: "cert_vouched b (accepted_mdds b cr P nd ms) (senders C) C" "mc_correct C = max_faulty nd + 1"
    using mc_adds_vouched [OF assms(1), of "{}"] assms(3,5) by (auto simp: Meta_data_cert_new_def Let_def)
  have c: "mc_c C = c" "mc_d C = d" "0 \<le> c" using assms(2) by (auto simp: mc_cvalue_def split: if_splits)
  then obtain A where "max_faulty nd + 1 \<le> int (card A)" "vouch b (accepted_mdds b cr P nd ms) A c d"
    using v by (auto simp: cert_vouched_def)
  then show ?thesis unfolding vouch_def accepted_mdds_def by blast
qed

definition wit_mdd :: "int \<Rightarrow> meta_data_d" where
  "wit_mdd j = \<lparr>m_tag = Meta_data_d_tag, m_extra = 0, m_size = 176, m_max = 176, m_scratch = True, m_rest = replicate 32 5, mdd_rid = 7, mdd_ls = 0, mdd_l = 1, mdd_i = 1,
     mdd_digests = [wit_hash_one, digest_zero, digest_zero], mdd_n = 1, mdd_id = j\<rparr>"

lemma wit_mdd_verifies: "Meta_data_d_verify default_build wit_crypto (sv_P wit_tsenv) (wit_node 0) (wit_mdd 1)"
  by code_simp

lemma wit_mdd_certifies:
  "map_option mc_cvalue (mc_adds default_build wit_crypto (sv_P wit_tsenv) (wit_node 0) [(wit_mdd 0, True), (wit_mdd 1, False)]
     (Meta_data_cert_new default_build (wit_node 0))) = Some (Some (0, wit_hash_one))"
  by code_simp

theorem certified_digest_vouched_witness:
  "\<exists>A. 2 \<le> int (card A) \<and> A \<subseteq> {j. \<exists>m own. (m, own) \<in> {(wit_mdd 0, True), (wit_mdd 1, False)} \<and>
     (own \<or> Meta_data_d_verify default_build wit_crypto (sv_P wit_tsenv) (wit_node 0) m) \<and> nat (mdd_id m) = j \<and>
     (\<exists>x. mdd_digest default_build 0 m = Some (Some x) \<and> digest_eq x wit_hash_one)}"
proof -
  obtain C where C: "mc_adds default_build wit_crypto (sv_P wit_tsenv) (wit_node 0) [(wit_mdd 0, True), (wit_mdd 1, False)]
     (Meta_data_cert_new default_build (wit_node 0)) = Some C" "mc_cvalue C = Some (0, wit_hash_one)" using wit_mdd_certifies by auto
  have "mdd_ls (wit_mdd j) = 0" for j by (simp add: wit_mdd_def)
  then show ?thesis using certified_digest_vouched [OF C] by (simp add: wit_node_sel subset_iff Ball_def)
qed

section \<open>Requests that are answered again\<close>

text \<open>\<open>F\<close> only adds messages to the ones sent before, the same ones whatever was sent before.\<close>

definition answers :: "fworld \<Rightarrow> ((fmsg \<times> int) list \<Rightarrow> fworld option) \<Rightarrow> bool" where
  "answers W F \<longleftrightarrow> (\<exists>r. \<forall>X. F X = map_option (\<lambda>out. W\<lparr>fw_out := X @ out\<rparr>) r)"

lemma answers_same: "answers W (\<lambda>X. Some (W\<lparr>fw_out := X\<rparr>))"
  unfolding answers_def by (rule exI [of _ "Some []"]) simp

lemma answers_send: "answers W (\<lambda>X. Some (fsend m i (W\<lparr>fw_out := X\<rparr>)))"
  unfolding answers_def fsend_def by (rule exI [of _ "Some [(m, i)]"]) simp

lemma answers_bind: "(\<And>a. answers W (\<lambda>X. F a X)) \<Longrightarrow> answers W (\<lambda>X. x \<bind> (\<lambda>a. F a X))"
  by (cases x) (auto simp: answers_def intro: exI [of _ None])

lemma answers_if: "answers W F \<Longrightarrow> answers W G \<Longrightarrow> answers W (\<lambda>X. if b then F X else G X)"
  by (cases b) simp_all

lemmas answers_intros = answers_same answers_send answers_bind answers_if

lemma fw_out_sel: "fw_st (W\<lparr>fw_out := X\<rparr>) = fw_st W" "fw_nd (W\<lparr>fw_out := X\<rparr>) = fw_nd W"
  by simp_all

lemma send_chosen_answers: "answers W (\<lambda>X. send_chosen V m c l i (W\<lparr>fw_out := X\<rparr>))"
  unfolding send_chosen_def send_meta_data_def Let_def fw_out_sel by (intro answers_intros)

lemma send_digests_answers: "answers W (\<lambda>X. send_digests V m ls l i (W\<lparr>fw_out := X\<rparr>))"
  unfolding send_digests_def Let_def fw_out_sel by (intro answers_intros)

lemma handle_Fetch_answers: "\<exists>q. \<forall>X. handle_Fetch V m ls (W\<lparr>fw_out := X\<rparr>) = map_option (\<lambda>(r, out). (r, W\<lparr>fw_out := X @ out\<rparr>)) q"
proof -
  let ?l = "nat (fe_level m)" and ?i = "nat (fe_index m)" and ?S = "fw_st W" and ?nd = "fw_nd W"
  let ?ch = "if fe_rc m \<ge> 0 \<and> fe_repid m = node_id ?nd then chosen_checkpoint V (fe_rc m) ?l ?i ?S else Some (- 1)"
  have "answers W (\<lambda>X. ?ch \<bind> (\<lambda>c. if c \<ge> 0 then send_chosen V m c ?l ?i (W\<lparr>fw_out := X\<rparr>) else send_digests V m ls ?l ?i (W\<lparr>fw_out := X\<rparr>)))"
    by (intro answers_intros send_chosen_answers send_digests_answers)
  then obtain q where q: "\<And>X. (?ch \<bind> (\<lambda>c. if c \<ge> 0 then send_chosen V m c ?l ?i (W\<lparr>fw_out := X\<rparr>) else send_digests V m ls ?l ?i (W\<lparr>fw_out := X\<rparr>))) =
      map_option (\<lambda>out. W\<lparr>fw_out := X @ out\<rparr>) q" unfolding answers_def by blast
  consider "Fetch_verify (sv_cr V) (sv_P V) ?nd m = None" | "Fetch_verify (sv_cr V) (sv_P V) ?nd m = Some False"
    | "Fetch_verify (sv_cr V) (sv_P V) ?nd m = Some True" "i_to_p ?nd (fe_id m) = None"
    | p where "Fetch_verify (sv_cr V) (sv_P V) ?nd m = Some True" "i_to_p ?nd (fe_id m) = Some p" by (cases "Fetch_verify (sv_cr V) (sv_P V) ?nd m"; cases "i_to_p ?nd (fe_id m)") auto
  then show ?thesis
  proof cases
    case (4 p)
    have e: "handle_Fetch V m ls (W\<lparr>fw_out := X\<rparr>) = (if last_fetch p < fe_rid m \<and> (?l < top_level V \<or> ?i < nb ?S)
        then map_option (\<lambda>out. (True, W\<lparr>fw_out := X @ out\<rparr>)) q else Some (True, W\<lparr>fw_out := X\<rparr>))" for X
      using q [of X] by (cases q) (auto simp: handle_Fetch_def Let_def fw_out_sel 4 Option.bind_eq_Some_conv Option.bind_eq_None_conv cong: if_cong)
    show ?thesis
      by (rule exI [of _ "if last_fetch p < fe_rid m \<and> (?l < top_level V \<or> ?i < nb ?S) then map_option (Pair True) q else Some (True, [])"])
        (cases "last_fetch p < fe_rid m \<and> (?l < top_level V \<or> ?i < nb ?S)", simp_all only: e if_True if_False, simp_all add: option.map_comp comp_def)
  next
    case 1 then show ?thesis by (intro exI [of _ None]) (simp add: handle_Fetch_def fw_out_sel)
  next
    case 2 then show ?thesis by (intro exI [of _ "Some (False, [])"]) (simp add: handle_Fetch_def fw_out_sel)
  next
    case 3 then show ?thesis by (intro exI [of _ None]) (simp add: handle_Fetch_def fw_out_sel)
  qed
qed

text \<open>Answering a request for a part of the state changes nothing but what is sent, and so the check against repeated requests never
  rejects one: \<^verbatim>\<open>handle(Fetch*)\<close> compares the request number with \<^verbatim>\<open>last_fetch_rid()\<close> of the sender, but leaves that number as it
  is. Whoever replays a request gets the same answer each time.\<close>

theorem fetch_replays_answered:
  assumes "handle_Fetch V m ls W = Some (r, W')"
  shows "\<exists>out. W' = W\<lparr>fw_out := fw_out W @ out\<rparr> \<and> handle_Fetch V m ls W' = Some (r, W'\<lparr>fw_out := fw_out W' @ out\<rparr>)"
proof -
  obtain q where "\<And>X. handle_Fetch V m ls (W\<lparr>fw_out := X\<rparr>) = map_option (\<lambda>(r, out). (r, W\<lparr>fw_out := X @ out\<rparr>)) q"
    using handle_Fetch_answers by blast
  note q = this [of "fw_out W"] this [of "fw_out W'"]
  then obtain out where o1: "q = Some (r, out)" and o2: "W' = W\<lparr>fw_out := fw_out W @ out\<rparr>" using assms by (cases q) auto
  then have "W\<lparr>fw_out := fw_out W'\<rparr> = W'" by simp
  then show ?thesis using q(2) o1 o2 by auto
qed

definition wit_fetch :: fetch where
  "wit_fetch = Fetch_new (wit_crypto\<lparr>cr_hash := (\<lambda>_. wit_hash_one)\<rparr>) (wit_node 1) 5 0 1 1 (- 1) (- 1)"

theorem fetch_replays_answered_witness:
  "\<exists>r W' out. handle_Fetch wit_tsenv wit_fetch 0 wit_tworld = Some (r, W') \<and> W' = wit_tworld\<lparr>fw_out := out\<rparr> \<and>
     handle_Fetch wit_tsenv wit_fetch 0 W' = Some (r, W'\<lparr>fw_out := out @ out\<rparr>)"
proof -
  have "handle_Fetch wit_tsenv wit_fetch 0 wit_tworld \<noteq> None" by code_simp
  then obtain r W' where W': "handle_Fetch wit_tsenv wit_fetch 0 wit_tworld = Some (r, W')" by auto
  from fetch_replays_answered [OF this] obtain out where
    "W' = wit_tworld\<lparr>fw_out := fw_out wit_tworld @ out\<rparr>" "handle_Fetch wit_tsenv wit_fetch 0 W' = Some (r, W'\<lparr>fw_out := fw_out W' @ out\<rparr>)" by blast
  then show ?thesis using W' by (auto simp: wit_tworld_def)
qed

section \<open>Inputs that the code does not handle as it means to\<close>

text \<open>The number of blocks below a partition is read at an index shifted by the levels that the tree does not have, where nothing was stored.\<close>

lemma partition_blocks_misread: "partition_init 2 4 16 = Some (sv_P wit_senv) \<and> partition_blocks (sv_P wit_senv) 2 = Some 0 \<and> PBlocks (sv_P wit_senv) ! 2 = 1"
  by code_simp

text \<open>Sub-partitions of a meta-data message that are distinct but not in increasing order pass \<^verbatim>\<open>verify\<close> and abort the replica that
  iterates over them. Nothing authenticates the message.\<close>

definition wit_unsorted :: meta_data where
  "wit_unsorted = \<lparr>m_tag = Meta_data_tag, m_extra = 0, m_size = 152, m_max = 152, m_scratch = True, m_rest = [], md_rid = 0, md_lu = 128, md_lm = 0, md_l = 0,
     md_i = 0, md_d = wit_hash_one, md_id = 1, md_np = 2, md_parts = [(1, wit_hash_one), (0, wit_hash_one)]\<rparr>"

definition wit_three :: senv where
  "wit_three = wit_tsenv\<lparr>sv_P := \<lparr>PLevels = 2, PSize = [1, 3, 0, 0], PLevelSize = [1, 3, 0, 0], PBlocks = [3, 1, 0, 0]\<rparr>, sv_children := 3\<rparr>"

definition wit_fetching :: fworld where
  "wit_fetching = upd_st (\<lambda>S. S\<lparr>st_mem := replicate 3 [0, 0, 0, 0], st_cowb := Bitmap_new 3 False,
     st_ptree := [[\<lparr>pt_lm = 0, pt_d = wit_hash_one\<rparr>], replicate 3 \<lparr>pt_lm = 0, pt_d = wit_hash_one\<rparr>],
     st_stree := [[3 * digest_val wit_hash_one mod DSum_M]], st_flevel := 0,
     st_stalep := [[\<lparr>fp_index = 0, fp_lu = 0, fp_lm = 0, fp_c = 128, fp_d = wit_hash_one\<rparr>], []]\<rparr>) wit_tworld"

lemma unsorted_meta_data_aborts:
  "partition_init 3 4 12 = Some (sv_P wit_three) \<and> Meta_data_verify (sv_P wit_three) (wit_node 0) wit_unsorted \<and>
   handle_Meta_data wit_three wit_call wit_unsorted wit_fetching = None"
  by code_simp

text \<open>The macro for a region of several blocks tests its two ends only: with both of them copied already, a block between them is written
  without a copy, and a rollback does not restore it.\<close>

definition wit_write :: "nat \<Rightarrow> block \<Rightarrow> state \<Rightarrow> state option" where
  "wit_write i x S = do { mem \<leftarrow> arr_set (st_mem S) i x; Some (S\<lparr>st_mem := mem\<rparr>) }"

lemma modify2_skips_middle:
  "do { S0 \<leftarrow> compute_full_digest wit_senv (State_new wit_senv (wit_node 0) [] wit_blocks wit_tstate);
        S1 \<leftarrow> Byz_modify1 wit_senv 4 S0;
        S2 \<leftarrow> Byz_modify1 wit_senv 12 S1;
        S3 \<leftarrow> Byz_modify2 wit_senv 4 12 S2;
        S4 \<leftarrow> wit_write 2 [1, 1, 1, 1] S3;
        (c, S5) \<leftarrow> state_rollback wit_senv S4;
        Some (c, st_mem S5) } = Some (0, wit_blocks[2 := [1, 1, 1, 1]])"
  by code_simp

lemma modify_first_byte_aborts: "state_cow V 0 n S = None"
  by (simp add: state_cow_def)

text \<open>No copy of a replaced block is kept: its bit is set before it is tested.\<close>

lemma bm_insert_test:
  assumes "bm_insert B i = Some B'"
  shows "bm_test B' i = Some True"
proof -
  have "bit ((w OR bitSelector i) AND bitSelector i) (i mod 64)" for w :: "64 word" by (simp add: bit_simps bit_bitSelector)
  then have "(w OR bitSelector i) AND bitSelector i \<noteq> 0" for w :: "64 word" by (metis bit_0_eq bot_apply bot_bool_def)
  then show ?thesis using assms by (auto simp: bm_insert_def bm_test_def arr_get_def arr_set_def split: if_splits)
qed

lemma install_block_keeps_no_copy:
  assumes "install_block V i wp m S = Some S'"
  shows "st_clog S' = st_clog S"
proof -
  show ?thesis using assms bm_insert_test unfolding install_block_def Let_def
    by (elim bind_SomeE) (fastforce simp: put_part_Some put_sum_def stale_remove_def set_stale_high_def elim!: bind_SomeE if_SomeE)
qed

text \<open>The index of a digest is narrowed to 32 bits.\<close>

lemma mdd_digest_wraps:
  assumes "mdd_ls m smod checkpoint_interval b = 0" "0 < checkpoint_interval b" "0 \<le> mdd_ls m"
  shows "mdd_digest b (mdd_ls m + 2 ^ 32 * checkpoint_interval b) m = mdd_digest b (mdd_ls m) m"
proof -
  have "(mdd_ls m + 2 ^ 32 * checkpoint_interval b) smod checkpoint_interval b = 0"
    using assms by (auto simp: signed_modulo_int_def signed_divide_int_def sgn_if split: if_splits)
  moreover have "(mdd_ls m + 2 ^ 32 * checkpoint_interval b - mdd_ls m) sdiv checkpoint_interval b = 2 ^ 32"
    using assms(2) by (simp add: signed_divide_int_def)
  moreover have "to_int32 (2 ^ 32) = to_int32 0" by code_simp
  moreover have "0 sdiv checkpoint_interval b = 0" by (simp add: signed_divide_int_def)
  moreover have "\<not> mdd_ls m > mdd_ls m + 2 ^ 32 * checkpoint_interval b" using assms(2) by simp
  ultimately show ?thesis using assms(1) by (simp add: mdd_digest_def Let_def)
qed

end
