(* ===== verification/Req_Queue.thy ===== *)
theory Req_Queue
  imports Requests
begin

text \<open>
  The bounded request queue (\<^verbatim>\<open>Req_queue.h\<close>, \<^verbatim>\<open>Req_queue.cc\<close>): one node per principal, linked into a
  doubly linked list. The nodes are the entries of the array \<open>reqs\<close> and a pointer to a node is its index,
  so the aliasing of list and array is explicit. The locale \<open>client_queue\<close> is what the rest of the program
  relies on: a sequence of requests with at most one per client. The heap behaviour is proved to implement
  it.
\<close>

section \<open>What a request queue promises\<close>

locale client_queue =
  fixes invar :: "'q \<Rightarrow> bool"
    and contents :: "'q \<Rightarrow> 'r list"
    and bound :: "'q \<Rightarrow> nat"
    and cid :: "'r \<Rightarrow> nat"
    and rid :: "'r \<Rightarrow> request_id"
    and push :: "'q \<Rightarrow> 'r \<Rightarrow> (bool \<times> 'q) option"
    and pop :: "'q \<Rightarrow> ('r option \<times> 'q) option"
    and drop_client :: "'q \<Rightarrow> nat \<Rightarrow> request_id \<Rightarrow> (bool \<times> 'q) option"
  assumes distinct_clients: "invar q \<Longrightarrow> distinct (map cid (contents q))"
    and push_ok: "invar q \<Longrightarrow> cid r < bound q \<Longrightarrow>
      \<exists>q'. push q r = Some (\<not> (\<exists>r' \<in> set (contents q). cid r' = cid r \<and> rid r \<le> rid r'), q') \<and> invar q' \<and>
        bound q' = bound q \<and>
        contents q' = (if \<exists>r' \<in> set (contents q). cid r' = cid r \<and> rid r \<le> rid r' then contents q
                       else filter (\<lambda>r'. cid r' \<noteq> cid r) (contents q) @ [r])"
    and pop_ok: "invar q \<Longrightarrow>
      \<exists>q'. pop q = Some (case contents q of [] \<Rightarrow> None | r # rs \<Rightarrow> Some r, q') \<and> invar q' \<and>
        bound q' = bound q \<and> contents q' = tl (contents q)"
    and drop_ok: "invar q \<Longrightarrow> c < bound q \<Longrightarrow>
      \<exists>b q'. drop_client q c t = Some (b, q') \<and> invar q' \<and> bound q' = bound q \<and>
        contents q' = filter (\<lambda>r. \<not> (cid r = c \<and> rid r \<le> t)) (contents q) \<and>
        (b \<longleftrightarrow> (case contents q of [] \<Rightarrow> False | r # rs \<Rightarrow> cid r = c \<and> rid r \<le> t))"
begin

text \<open>A client never has two requests in the queue, however requests arrive.\<close>

lemma at_most_one:
  assumes "invar q" "r \<in> set (contents q)" "r' \<in> set (contents q)" "cid r = cid r'"
  shows "r = r'"
  using distinct_clients [OF assms(1)] assms(2-4) by (auto simp: distinct_map inj_on_def)

text \<open>Requests are served in arrival order: a request stays behind those that were there before it.\<close>

lemma push_order:
  assumes "invar q" "cid r < bound q" "push q r = Some (True, q')"
  shows "contents q' = filter (\<lambda>r'. cid r' \<noteq> cid r) (contents q) @ [r]"
  using push_ok [OF assms(1,2)] assms(3) by (auto split: if_splits)

lemma pops:
  assumes "invar q" "contents q = rs"
  shows "\<exists>q'. fold_opt (\<lambda>_ (acc, q). map_option (\<lambda>(r, q'). (acc @ [r], q')) (pop q)) rs ([], q) =
    Some (map Some rs, q') \<and> contents q' = []"
proof -
  have "\<exists>q'. fold_opt (\<lambda>_ (acc, q). map_option (\<lambda>(r, q'). (acc @ [r], q')) (pop q)) rs (acc, q) =
      Some (acc @ map Some rs, q') \<and> contents q' = []" for acc
    using assms
  proof (induction rs arbitrary: acc q)
    case (Cons r rs)
    then obtain q1 where "pop q = Some (Some r, q1)" "invar q1" "contents q1 = rs" using pop_ok [of q] by auto
    with Cons.IH [of q1 "acc @ [Some r]"] show ?case by simp
  qed auto
  from this [of "[]"] show ?thesis by simp
qed

end

section \<open>The class\<close>

text \<open>The class is a template argument away from \<^verbatim>\<open>Request\<close>: \<open>'r\<close> is the type of the stored requests and
  \<open>req_ops\<close> its accessors.\<close>

record 'r req_ops =
  q_cid :: "'r \<Rightarrow> nat"
  q_rid :: "'r \<Rightarrow> request_id"
  q_size :: "'r \<Rightarrow> int"

record 'r pnode =
  pn_r :: "'r option"
  pn_next :: "nat option"
  pn_prev :: "nat option"
  out_rid :: request_id
  out_v :: view

record 'r req_queue =
  reqs :: "'r pnode list"
  q_head :: "nat option"
  q_tail :: "nat option"
  nelems :: int
  nbytes :: int

definition pnode_clear :: "'r pnode" where
  "pnode_clear = \<lparr>pn_r = None, pn_next = None, pn_prev = None, out_rid = 0, out_v = - 1\<rparr>"

definition Req_queue_new :: "nat \<Rightarrow> 'r req_queue" where
  "Req_queue_new np = \<lparr>reqs = replicate np pnode_clear, q_head = None, q_tail = None, nelems = 0, nbytes = 0\<rparr>"

definition upd :: "'r req_queue \<Rightarrow> nat \<Rightarrow> ('r pnode \<Rightarrow> 'r pnode) \<Rightarrow> 'r req_queue option" where
  "upd q i g = (if i < length (reqs q) then Some (q\<lparr>reqs := (reqs q)[i := g (reqs q ! i)]\<rparr>) else None)"

definition q_first :: "'r req_queue \<Rightarrow> 'r option option" where
  "q_first q = (case q_head q of None \<Rightarrow> Some None
     | Some h \<Rightarrow> do { n \<leftarrow> arr_get (reqs q) h; th_assert (pn_r n \<noteq> None); Some (pn_r n) })"

definition first_client :: "'r req_queue \<Rightarrow> nat \<Rightarrow> 'r option option" where
  "first_client q c = do { n \<leftarrow> arr_get (reqs q) c; Some (pn_r n) }"

definition in_progress :: "'r req_queue \<Rightarrow> nat \<Rightarrow> request_id \<Rightarrow> view \<Rightarrow> (bool \<times> 'r req_queue) option" where
  "in_progress q c rid v = do {
     n \<leftarrow> arr_get (reqs q) c;
     if rid > out_rid n \<or> v > out_v n
     then do { q' \<leftarrow> upd q c (\<lambda>n. n\<lparr>out_rid := rid, out_v := v\<rparr>); Some (False, q') }
     else Some (True, q) }"

text \<open>\<^verbatim>\<open>remove(cid, rid)\<close>: the two halves are the tests on \<^verbatim>\<open>cn.prev\<close> and \<^verbatim>\<open>cn.next\<close>.\<close>

definition unlink_prev :: "'r req_queue \<Rightarrow> nat \<Rightarrow> 'r pnode \<Rightarrow> (bool \<times> 'r req_queue) option" where
  "unlink_prev q c n =
     (case pn_prev n of
        None \<Rightarrow> do { th_assert (q_head q = Some c); Some (True, q\<lparr>q_head := pn_next n\<rparr>) }
      | Some p \<Rightarrow> do { q' \<leftarrow> upd q p (\<lambda>m. m\<lparr>pn_next := pn_next n\<rparr>); Some (False, q') })"

definition unlink_next :: "'r req_queue \<Rightarrow> nat \<Rightarrow> 'r pnode \<Rightarrow> 'r req_queue option" where
  "unlink_next q c n =
     (case pn_next n of
        None \<Rightarrow> do { th_assert (q_tail q = Some c); Some (q\<lparr>q_tail := pn_prev n\<rparr>) }
      | Some s \<Rightarrow> upd q s (\<lambda>m. m\<lparr>pn_prev := pn_prev n\<rparr>))"

definition q_remove_client :: "'r req_ops \<Rightarrow> 'r req_queue \<Rightarrow> nat \<Rightarrow> request_id \<Rightarrow> (bool \<times> 'r req_queue) option" where
  "q_remove_client ops q c rid = do {
     n \<leftarrow> arr_get (reqs q) c;
     case pn_r n of
       None \<Rightarrow> Some (False, q)
     | Some r \<Rightarrow>
         if q_rid ops r \<le> rid then do {
           q1 \<leftarrow> upd (q\<lparr>nelems := nelems q - 1, nbytes := nbytes q - q_size ops r\<rparr>) c (\<lambda>n. n\<lparr>pn_r := None\<rparr>);
           (ret, q2) \<leftarrow> unlink_prev q1 c n;
           q3 \<leftarrow> unlink_next q2 c n;
           Some (ret, q3) }
         else Some (False, q) }"

definition q_link_tail :: "'r req_queue \<Rightarrow> nat \<Rightarrow> 'r req_queue option" where
  "q_link_tail q c =
     (case q_head q of
        None \<Rightarrow> do {
          q' \<leftarrow> upd (q\<lparr>q_head := Some c, q_tail := Some c\<rparr>) c (\<lambda>n. n\<lparr>pn_prev := None, pn_next := None\<rparr>);
          Some q' }
      | Some h \<Rightarrow> do {
          t \<leftarrow> q_tail q;
          q1 \<leftarrow> upd q t (\<lambda>n. n\<lparr>pn_next := Some c\<rparr>);
          q2 \<leftarrow> upd q1 c (\<lambda>n. n\<lparr>pn_prev := Some t, pn_next := None\<rparr>);
          Some (q2\<lparr>q_tail := Some c\<rparr>) })"

definition q_append :: "'r req_ops \<Rightarrow> 'r req_queue \<Rightarrow> 'r \<Rightarrow> (bool \<times> 'r req_queue) option" where
  "q_append ops q r = do {
     let c = q_cid ops r;
     n \<leftarrow> arr_get (reqs q) c;
     let put = (\<lambda>q. do {
       q1 \<leftarrow> upd q c (\<lambda>n. n\<lparr>pn_r := Some r\<rparr>);
       q2 \<leftarrow> q_link_tail (q1\<lparr>nbytes := nbytes q1 + q_size ops r, nelems := nelems q1 + 1\<rparr>) c;
       Some (True, q2) });
     case pn_r n of
       Some r' \<Rightarrow>
         if q_rid ops r > q_rid ops r' then do {
           (b, q0) \<leftarrow> q_remove_client ops q c (q_rid ops r);
           put q0 }
         else Some (False, q)
     | None \<Rightarrow> put q }"

definition q_remove :: "'r req_ops \<Rightarrow> 'r req_queue \<Rightarrow> ('r option \<times> 'r req_queue) option" where
  "q_remove ops q =
     (case q_head q of
        None \<Rightarrow> Some (None, q)
      | Some h \<Rightarrow> do {
          n \<leftarrow> arr_get (reqs q) h;
          th_assert (pn_r n \<noteq> None);
          r \<leftarrow> pn_r n;
          q1 \<leftarrow> upd q h (\<lambda>n. n\<lparr>pn_r := None\<rparr>);
          q2 \<leftarrow> (case pn_next n of
                   Some s \<Rightarrow> upd (q1\<lparr>q_head := Some s\<rparr>) s (\<lambda>n. n\<lparr>pn_prev := None\<rparr>)
                 | None \<Rightarrow> Some (q1\<lparr>q_head := None, q_tail := None\<rparr>));
          Some (Some r, q2\<lparr>nelems := nelems q2 - 1, nbytes := nbytes q2 - q_size ops r\<rparr>) })"

definition q_clear :: "nat \<Rightarrow> 'r req_queue \<Rightarrow> 'r req_queue option" where
  "q_clear np q = do {
     q' \<leftarrow> fold_opt (\<lambda>i q. upd q i (\<lambda>_. pnode_clear)) [0..<np] q;
     Some (q'\<lparr>q_head := None, q_tail := None, nelems := 0, nbytes := 0\<rparr>) }"

section \<open>Linked lists in an array\<close>

definition hd_opt :: "nat list \<Rightarrow> nat option \<Rightarrow> nat option" where
  "hd_opt xs e = (case xs of [] \<Rightarrow> e | x # _ \<Rightarrow> Some x)"

definition last_opt :: "nat list \<Rightarrow> nat option \<Rightarrow> nat option" where
  "last_opt xs p = (if xs = [] then p else Some (last xs))"

text \<open>\<open>dll ns p cs e\<close>: the nodes \<open>cs\<close> are linked in this order, the first one's \<open>prev\<close> is \<open>p\<close> and the last
  one's \<open>next\<close> is \<open>e\<close>.\<close>

fun dll :: "'r pnode list \<Rightarrow> nat option \<Rightarrow> nat list \<Rightarrow> nat option \<Rightarrow> bool" where
  "dll ns p [] e = True"
| "dll ns p (c # cs) e \<longleftrightarrow> pn_prev (ns ! c) = p \<and> pn_next (ns ! c) = hd_opt cs e \<and> dll ns (Some c) cs e"

fun follow :: "'r pnode list \<Rightarrow> nat \<Rightarrow> nat option \<Rightarrow> nat list" where
  "follow ns (Suc k) (Some i) = i # follow ns k (pn_next (ns ! i))"
| "follow ns k x = []"

definition q_chain :: "'r req_queue \<Rightarrow> nat list" where
  "q_chain q = follow (reqs q) (length (reqs q)) (q_head q)"

definition q_contents :: "'r req_queue \<Rightarrow> 'r list" where
  "q_contents q = map (\<lambda>c. the (pn_r (reqs q ! c))) (q_chain q)"

lemma opt_simps [simp]:
  "hd_opt [] e = e" "hd_opt (x # xs) e = Some x" "last_opt [] p = p" "last_opt (x # xs) p = last_opt xs (Some x)"
  "last_opt (xs @ ys) p = last_opt ys (last_opt xs p)" "hd_opt (xs @ ys) e = hd_opt xs (hd_opt ys e)"
  by (auto simp: hd_opt_def last_opt_def split: list.splits)

lemma nth_update: "ms[i := n] ! d = (if d = i \<and> i < length ms then n else ms ! d)"
  by (cases "i < length ms") (auto simp: not_less list_update_beyond)

lemma dll_append: "dll ns p (xs @ ys) e \<longleftrightarrow> dll ns p xs (hd_opt ys e) \<and> dll ns (last_opt xs p) ys e"
  by (induction xs arbitrary: p) auto

lemma dll_frame:
  assumes "\<And>c. c \<in> set cs \<Longrightarrow> pn_prev (ns' ! c) = pn_prev (ns ! c) \<and> pn_next (ns' ! c) = pn_next (ns ! c)"
  shows "dll ns' p cs e = dll ns p cs e"
  using assms by (induction cs arbitrary: p) auto

lemma dll_update [simp]: "i \<notin> set cs \<Longrightarrow> dll (ns[i := n]) p cs e = dll ns p cs e"
  by (rule dll_frame) (auto simp: nth_update)

lemma dll_update_r [simp]: "dll (ns[i := (ns ! i)\<lparr>pn_r := x\<rparr>]) p cs e = dll ns p cs e"
  by (rule dll_frame) (auto simp: nth_update)

lemma dll_set_next:
  assumes "dll ns p (xs @ [t]) e" "distinct (xs @ [t])" "t < length ns"
  shows "dll (ns[t := (ns ! t)\<lparr>pn_next := e'\<rparr>]) p (xs @ [t]) e'"
  using assms by (simp add: dll_append)

lemma dll_set_prev:
  assumes "dll ns p (h # ys) e" "distinct (h # ys)" "h < length ns"
  shows "dll (ns[h := (ns ! h)\<lparr>pn_prev := p'\<rparr>]) p' (h # ys) e"
  using assms by simp

text \<open>Removing the node between \<open>xs\<close> and \<open>ys\<close>.\<close>

definition relink :: "'r pnode list \<Rightarrow> nat list \<Rightarrow> nat list \<Rightarrow> 'r pnode list" where
  "relink ns xs ys =
     (let ns1 = (if xs = [] then ns else ns[last xs := (ns ! last xs)\<lparr>pn_next := hd_opt ys None\<rparr>])
      in if ys = [] then ns1 else ns1[hd ys := (ns1 ! hd ys)\<lparr>pn_prev := last_opt xs None\<rparr>])"

lemma relink_pn_r: "length (relink ns xs ys) = length ns \<and> pn_r (relink ns xs ys ! d) = pn_r (ns ! d)"
  by (simp add: relink_def Let_def nth_update)

lemma dll_relink:
  assumes "dll ns None (xs @ c # ys) None" "distinct (xs @ c # ys)" "\<forall>d \<in> set (xs @ ys). d < length ns"
  shows "dll (relink ns xs ys) None (xs @ ys) None"
proof -
  define ns1 where "ns1 = (if xs = [] then ns else ns[last xs := (ns ! last xs)\<lparr>pn_next := hd_opt ys None\<rparr>])"
  have x: "dll ns1 None xs (hd_opt ys None)"
  proof (cases xs rule: rev_cases)
    case (snoc zs t)
    with assms dll_set_next [of ns None zs t "Some c" "hd_opt ys None"] show ?thesis by (simp add: dll_append ns1_def)
  qed simp
  have y: "dll ns1 (Some c) ys None"
  proof (cases "xs = []")
    case False
    then have "last xs \<notin> set ys" using assms(2) by (auto dest: last_in_set)
    with assms(1) False show ?thesis by (simp add: dll_append ns1_def)
  qed (use assms(1) in \<open>simp add: ns1_def\<close>)
  have re: "relink ns xs ys = (if ys = [] then ns1 else ns1[hd ys := (ns1 ! hd ys)\<lparr>pn_prev := last_opt xs None\<rparr>])"
    unfolding relink_def ns1_def Let_def ..
  show ?thesis
  proof (cases ys)
    case (Cons s zs)
    then have "s \<notin> set xs" "distinct (s # zs)" "s < length ns1" using assms(2,3) by (auto simp: ns1_def)
    with x y Cons dll_set_prev [of ns1 "Some c" s zs None "last_opt xs None"]
    show ?thesis unfolding re by (simp add: dll_append)
  qed (use x re in simp)
qed

lemma follow_dll: "dll ns p cs None \<Longrightarrow> length cs \<le> k \<Longrightarrow> follow ns k (hd_opt cs None) = cs"
proof (induction cs arbitrary: p k)
  case (Cons c cs)
  then obtain k' where "k = Suc k'" "length cs \<le> k'" by (cases k) auto
  with Cons show ?case by auto
qed simp

section \<open>Invariant and refinement\<close>

text \<open>\<open>q_rep ops q cs\<close>: the queue \<open>q\<close> holds the requests of the clients \<open>cs\<close> in this order.\<close>

definition q_rep :: "'r req_ops \<Rightarrow> 'r req_queue \<Rightarrow> nat list \<Rightarrow> bool" where
  "q_rep ops q cs \<longleftrightarrow> distinct cs \<and> (\<forall>c \<in> set cs. c < length (reqs q)) \<and>
     q_head q = hd_opt cs None \<and> q_tail q = last_opt cs None \<and> dll (reqs q) None cs None \<and>
     (\<forall>c < length (reqs q). case pn_r (reqs q ! c) of None \<Rightarrow> c \<notin> set cs | Some r \<Rightarrow> c \<in> set cs \<and> q_cid ops r = c) \<and>
     nelems q = int (length cs) \<and> nbytes q = sum_list (map (\<lambda>c. q_size ops (the (pn_r (reqs q ! c)))) cs)"

definition q_inv :: "'r req_ops \<Rightarrow> 'r req_queue \<Rightarrow> bool" where
  "q_inv ops q \<longleftrightarrow> q_rep ops q (q_chain q)"

lemma q_rep_chain:
  assumes "q_rep ops q cs"
  shows "q_chain q = cs"
proof -
  have "length cs = card (set cs)" using assms by (simp add: q_rep_def distinct_card)
  also have "\<dots> \<le> card {..<length (reqs q)}" using assms by (intro card_mono) (auto simp: q_rep_def)
  finally have "length cs \<le> length (reqs q)" by simp
  then show ?thesis using assms follow_dll [of "reqs q" None cs] by (simp add: q_chain_def q_rep_def)
qed

lemma q_inv_rep: "q_inv ops q \<longleftrightarrow> (\<exists>cs. q_rep ops q cs)"
  using q_rep_chain by (fastforce simp: q_inv_def)

lemma q_rep_node:
  assumes "q_rep ops q cs" "c < length (reqs q)"
  shows "(\<exists>r. pn_r (reqs q ! c) = Some r) \<longleftrightarrow> c \<in> set cs"
    "pn_r (reqs q ! c) = Some r \<Longrightarrow> q_cid ops r = c"
  using assms by (auto simp: q_rep_def split: option.splits)

text \<open>\<^verbatim>\<open>remove(cid, rid)\<close> when there is something to remove.\<close>

lemma unlink_ok:
  assumes rep: "q_rep ops q (xs @ c # ys)" and r: "pn_r (reqs q ! c) = Some r" "q_rid ops r \<le> t"
  shows "\<exists>q'. q_remove_client ops q c t = Some (xs = [], q') \<and> q_rep ops q' (xs @ ys) \<and>
    length (reqs q') = length (reqs q) \<and>
    (\<forall>d. pn_r (reqs q' ! d) = (if d = c then None else pn_r (reqs q ! d)))"
proof -
  let ?ns1 = "(reqs q)[c := (reqs q ! c)\<lparr>pn_r := None\<rparr>]"
  define ns where "ns = relink ?ns1 xs ys"
  let ?q' = "q\<lparr>reqs := ns, q_head := hd_opt (xs @ ys) None, q_tail := last_opt ys (last_opt xs None),
      nelems := nelems q - 1, nbytes := nbytes q - q_size ops r\<rparr>"
  note R = rep [unfolded q_rep_def]
  have c: "c < length (reqs q)" and dist: "distinct (xs @ c # ys)" and lt: "\<forall>d \<in> set (xs @ ys). d < length (reqs q)"
    using R by auto
  have d0: "dll (reqs q) None (xs @ c # ys) None" using R by blast
  then have pn: "pn_prev (reqs q ! c) = last_opt xs None" "pn_next (reqs q ! c) = hd_opt ys None"
    by (simp_all add: dll_append)
  have ht: "q_head q = hd_opt (xs @ c # ys) None" "q_tail q = last_opt ys (Some c)"
    using R by auto
  note defs = q_remove_client_def arr_get_def upd_def unlink_prev_def unlink_next_def ns_def relink_def Let_def
  have step: "q_remove_client ops q c t = Some (xs = [], ?q')"
  proof (cases xs rule: rev_cases)
    case Nil
    then show ?thesis using r c pn ht lt by (cases ys) (simp_all add: defs)
  next
    case (snoc zs p)
    then show ?thesis using r c pn ht lt by (cases ys) (simp_all add: defs)
  qed
  have len: "length ns = length (reqs q)" by (simp add: ns_def relink_pn_r)
  have pr: "pn_r (ns ! d) = (if d = c then None else pn_r (reqs q ! d))" for d
    using relink_pn_r [of ?ns1 xs ys d] c unfolding ns_def by (cases "d = c") auto
  have "dll ns None (xs @ ys) None"
    unfolding ns_def by (rule dll_relink [where c = c]) (use d0 dist lt in auto)
  moreover have "case pn_r (ns ! d) of None \<Rightarrow> d \<notin> set (xs @ ys) | Some r \<Rightarrow> d \<in> set (xs @ ys) \<and> q_cid ops r = d"
    if "d < length (reqs q)" for d
    using R dist that by (auto simp: pr split: option.splits)
  moreover have "map (\<lambda>d. q_size ops (the (pn_r (ns ! d)))) (xs @ ys) = map (\<lambda>d. q_size ops (the (pn_r (reqs q ! d)))) (xs @ ys)"
    using dist by (auto simp: pr)
  then have "nelems q - 1 = int (length (xs @ ys))"
    "nbytes q - q_size ops r = sum_list (map (\<lambda>d. q_size ops (the (pn_r (ns ! d)))) (xs @ ys))"
    using R r by (simp, simp only:, simp)
  ultimately have "q_rep ops ?q' (xs @ ys)"
    using dist lt len unfolding q_rep_def by simp
  then show ?thesis using step pr len by (intro exI [of _ ?q']) simp
qed

lemma q_rep_get:
  assumes "q_rep ops q cs" "d \<in> set cs"
  shows "\<exists>r. pn_r (reqs q ! d) = Some r \<and> q_cid ops r = d"
proof -
  have "d < length (reqs q)" using assms by (auto simp: q_rep_def)
  then show ?thesis using q_rep_node [OF assms(1)] assms(2) by blast
qed

lemma contents_rep: "q_rep ops q cs \<Longrightarrow> q_contents q = map (\<lambda>c. the (pn_r (reqs q ! c))) cs"
  by (simp add: q_contents_def q_rep_chain)

lemma contents_member:
  assumes "q_rep ops q cs" "c < length (reqs q)"
  shows "(\<exists>r \<in> set (q_contents q). q_cid ops r = c \<and> P r) \<longleftrightarrow> (\<exists>r. pn_r (reqs q ! c) = Some r \<and> P r)"
proof -
  have "pn_r (reqs q ! d) = Some (the (pn_r (reqs q ! d))) \<and> q_cid ops (the (pn_r (reqs q ! d))) = d" if "d \<in> set cs" for d
    using q_rep_get [OF assms(1) that] by auto
  moreover have "pn_r (reqs q ! c) = Some r \<Longrightarrow> c \<in> set cs" for r using q_rep_node(1) [OF assms] by blast
  ultimately show ?thesis unfolding contents_rep [OF assms(1)] by force
qed

lemma link_tail_ok:
  assumes rep: "q_rep ops q cs" and c: "c < length (reqs q)" "c \<notin> set cs" "q_cid ops r = c"
  shows "\<exists>q'. (do { q1 \<leftarrow> upd q c (\<lambda>n. n\<lparr>pn_r := Some r\<rparr>);
      q_link_tail (q1\<lparr>nbytes := nbytes q1 + q_size ops r, nelems := nelems q1 + 1\<rparr>) c }) = Some q' \<and>
    q_rep ops q' (cs @ [c]) \<and> length (reqs q') = length (reqs q) \<and>
    (\<forall>d. pn_r (reqs q' ! d) = (if d = c then Some r else pn_r (reqs q ! d)))"
proof -
  note R = rep [unfolded q_rep_def]
  let ?ns1 = "(reqs q)[c := (reqs q ! c)\<lparr>pn_r := Some r\<rparr>]"
  define ns2 where "ns2 = (if cs = [] then ?ns1 else ?ns1[last cs := (?ns1 ! last cs)\<lparr>pn_next := Some c\<rparr>])"
  define ns where "ns = ns2[c := (ns2 ! c)\<lparr>pn_prev := last_opt cs None, pn_next := None\<rparr>]"
  let ?q' = "q\<lparr>reqs := ns, q_head := hd_opt (cs @ [c]) None, q_tail := Some c, nelems := nelems q + 1,
      nbytes := nbytes q + q_size ops r\<rparr>"
  have lt: "cs \<noteq> [] \<Longrightarrow> last cs < length (reqs q)" using R by simp
  have len: "length ns = length (reqs q)" "length ns2 = length (reqs q)" by (simp_all add: ns_def ns2_def)
  have ht: "q_head q = hd_opt cs None" "q_tail q = last_opt cs None" using R by auto
  have step: "(do { q1 \<leftarrow> upd q c (\<lambda>n. n\<lparr>pn_r := Some r\<rparr>);
      q_link_tail (q1\<lparr>nbytes := nbytes q1 + q_size ops r, nelems := nelems q1 + 1\<rparr>) c }) = Some ?q'"
  proof -
    let ?q1 = "q\<lparr>reqs := ?ns1\<rparr>"
    let ?q1' = "?q1\<lparr>nbytes := nbytes ?q1 + q_size ops r, nelems := nelems ?q1 + 1\<rparr>"
    have u1: "upd q c (\<lambda>n. n\<lparr>pn_r := Some r\<rparr>) = Some ?q1" using c(1) by (simp add: upd_def)
    have "q_link_tail ?q1' c = Some ?q'"
    proof (cases "cs = []")
      case True
      then show ?thesis using c(1) ht by (simp add: upd_def q_link_tail_def ns_def ns2_def)
    next
      case False
      then have ht': "q_head q = Some (hd cs)" "q_tail q = Some (last cs)" "hd_opt (cs @ [c]) None = Some (hd cs)"
        "last_opt cs None = Some (last cs)"
        using ht by (auto simp: hd_opt_def last_opt_def split: list.splits)
      have u2: "upd ?q1' (last cs) (\<lambda>n. n\<lparr>pn_next := Some c\<rparr>) = Some (?q1'\<lparr>reqs := ns2\<rparr>)"
        using lt [OF False] False by (simp add: upd_def ns2_def)
      have u3: "upd (?q1'\<lparr>reqs := ns2\<rparr>) c (\<lambda>n. n\<lparr>pn_prev := Some (last cs), pn_next := None\<rparr>) = Some (?q1'\<lparr>reqs := ns\<rparr>)"
        using c(1) len(2) ht'(4) by (simp add: upd_def ns_def)
      show ?thesis unfolding q_link_tail_def using ht' u2 u3 by simp
    qed
    then show ?thesis unfolding u1 by simp
  qed
  have pr: "pn_r (ns ! d) = (if d = c then Some r else pn_r (reqs q ! d))" for d
  proof -
    have "pn_r (ns ! d) = pn_r (ns2 ! d)" by (simp add: ns_def nth_update)
    also have "\<dots> = pn_r (?ns1 ! d)" by (simp add: ns2_def nth_update)
    also have "\<dots> = (if d = c then Some r else pn_r (reqs q ! d))" using c(1) by (simp add: nth_update)
    finally show ?thesis .
  qed
  have "dll ns2 None cs (Some c)"
  proof (cases cs rule: rev_cases)
    case (snoc zs t)
    then show ?thesis using dll_set_next [of ?ns1 None zs t None "Some c"] R by (simp add: ns2_def)
  qed simp
  then have d: "dll ns None (cs @ [c]) None" using c by (simp add: ns_def dll_append len)
  have "map (\<lambda>d. q_size ops (the (pn_r (ns ! d)))) cs = map (\<lambda>d. q_size ops (the (pn_r (reqs q ! d)))) cs"
    using c(2) by (auto simp: pr)
  then have sm: "nbytes q + q_size ops r = sum_list (map (\<lambda>d. q_size ops (the (pn_r (ns ! d)))) (cs @ [c]))"
    using R by (simp only: map_append sum_list.append) (simp add: pr)
  have nd: "\<forall>d < length ns. case pn_r (ns ! d) of None \<Rightarrow> d \<notin> set (cs @ [c]) | Some x \<Rightarrow> d \<in> set (cs @ [c]) \<and> q_cid ops x = d"
  proof (intro allI impI)
    fix d assume d: "d < length ns"
    then have "case pn_r (reqs q ! d) of None \<Rightarrow> d \<notin> set cs | Some x \<Rightarrow> d \<in> set cs \<and> q_cid ops x = d"
      using R len(1) by auto
    then show "case pn_r (ns ! d) of None \<Rightarrow> d \<notin> set (cs @ [c]) | Some x \<Rightarrow> d \<in> set (cs @ [c]) \<and> q_cid ops x = d"
      using c(3) by (cases "d = c") (auto simp: pr split: option.splits)
  qed
  have "distinct (cs @ [c])" "\<forall>d \<in> set (cs @ [c]). d < length ns" "nelems q + 1 = int (length (cs @ [c]))"
    using R c len by auto
  with d nd sm have "q_rep ops ?q' (cs @ [c])" unfolding q_rep_def by (simp del: set_append map_append sum_list.append)
  then show ?thesis using step pr len by (intro exI [of _ ?q']) simp
qed

lemma q_remove_as_client:
  assumes "q_head q = Some c" "c < length (reqs q)" "pn_r (reqs q ! c) = Some r" "pn_prev (reqs q ! c) = None"
    and "pn_next (reqs q ! c) = nx" "nx = None \<Longrightarrow> q_tail q = Some c" "\<And>s. nx = Some s \<Longrightarrow> s < length (reqs q)"
  shows "q_remove ops q = map_option (\<lambda>(b, q'). (Some r, q')) (q_remove_client ops q c (q_rid ops r))"
  using assms
  by (cases nx) (simp_all add: q_remove_def q_remove_client_def arr_get_def upd_def unlink_prev_def unlink_next_def)

lemma pop_ok:
  assumes "q_rep ops q cs"
  shows "\<exists>q'. q_remove ops q = Some (case q_contents q of [] \<Rightarrow> None | r # rs \<Rightarrow> Some r, q') \<and> q_inv ops q' \<and>
    length (reqs q') = length (reqs q) \<and> q_contents q' = tl (q_contents q)"
proof (cases cs)
  case Nil
  then show ?thesis using assms contents_rep [OF assms]
    by (auto simp: q_remove_def q_rep_def q_inv_rep intro!: exI [of _ q] exI [of _ "[]"])
next
  case (Cons c ys)
  note R = assms [unfolded q_rep_def Cons]
  have c: "c < length (reqs q)" using R by simp
  then obtain r where r: "pn_r (reqs q ! c) = Some r" using q_rep_node(1) [OF assms c] Cons by auto
  have rep: "q_rep ops q ([] @ c # ys)" using assms Cons by simp
  from unlink_ok [OF rep r order_refl] obtain q' where
    q': "q_remove_client ops q c (q_rid ops r) = Some (True, q')" "q_rep ops q' ys" "length (reqs q') = length (reqs q)"
      "\<forall>d. pn_r (reqs q' ! d) = (if d = c then None else pn_r (reqs q ! d))" by auto
  have "q_remove ops q = map_option (\<lambda>(b, q'). (Some r, q')) (q_remove_client ops q c (q_rid ops r))"
  proof (rule q_remove_as_client [OF _ c r])
    show "q_head q = Some c" "pn_prev (reqs q ! c) = None" "pn_next (reqs q ! c) = hd_opt ys None" using R by simp_all
    show "q_tail q = Some c" if "hd_opt ys None = None" using R that by (cases ys) simp_all
    show "s < length (reqs q)" if "hd_opt ys None = Some s" for s using R that by (cases ys) simp_all
  qed
  then have "q_remove ops q = Some (Some r, q')" using q'(1) by simp
  moreover have "q_contents q = r # q_contents q'"
  proof -
    have "c \<notin> set ys" using R by simp
    then have "map (\<lambda>d. the (pn_r (reqs q' ! d))) ys = map (\<lambda>d. the (pn_r (reqs q ! d))) ys"
      using q'(4) by (intro map_cong) auto
    then show ?thesis unfolding contents_rep [OF assms] contents_rep [OF q'(2)] Cons using r by simp
  qed
  ultimately show ?thesis using q'(2,3) by (auto simp: q_inv_rep)
qed

lemma filter_map_cs:
  assumes "\<And>d. d \<in> set cs \<Longrightarrow> P (g d) = Q d"
  shows "filter P (map g cs) = map g (filter Q cs)"
  using assms by (induction cs) auto

lemma drop_ok:
  assumes rep: "q_rep ops q cs" and c: "c < length (reqs q)"
  shows "\<exists>b q'. q_remove_client ops q c t = Some (b, q') \<and> q_inv ops q' \<and> length (reqs q') = length (reqs q) \<and>
    q_contents q' = filter (\<lambda>r. \<not> (q_cid ops r = c \<and> q_rid ops r \<le> t)) (q_contents q) \<and>
    (b \<longleftrightarrow> (case q_contents q of [] \<Rightarrow> False | r # rs \<Rightarrow> q_cid ops r = c \<and> q_rid ops r \<le> t))"
proof (cases "\<exists>r. pn_r (reqs q ! c) = Some r \<and> q_rid ops r \<le> t")
  case False
  then have none: "\<not> (\<exists>r \<in> set (q_contents q). q_cid ops r = c \<and> q_rid ops r \<le> t)"
    using contents_member [OF rep c, of "\<lambda>r. q_rid ops r \<le> t"] by blast
  then have "filter (\<lambda>r. \<not> (q_cid ops r = c \<and> q_rid ops r \<le> t)) (q_contents q) = q_contents q"
    by (intro filter_True) auto
  moreover have "\<not> (case q_contents q of [] \<Rightarrow> False | r # rs \<Rightarrow> q_cid ops r = c \<and> q_rid ops r \<le> t)"
    using none by (cases "q_contents q") auto
  moreover have "q_remove_client ops q c t = Some (False, q)"
    using False c by (auto simp: q_remove_client_def arr_get_def split: option.splits)
  ultimately show ?thesis using rep by (auto simp: q_inv_rep)
next
  case True
  then obtain r where r: "pn_r (reqs q ! c) = Some r" "q_rid ops r \<le> t" by blast
  then have "c \<in> set cs" using q_rep_node(1) [OF rep c] by blast
  then obtain xs ys where cs: "cs = xs @ c # ys" by (meson split_list)
  from unlink_ok [OF rep [unfolded cs] r] obtain q' where q': "q_remove_client ops q c t = Some (xs = [], q')"
    "q_rep ops q' (xs @ ys)" "length (reqs q') = length (reqs q)"
    "\<forall>d. pn_r (reqs q' ! d) = (if d = c then None else pn_r (reqs q ! d))" by blast
  have dist: "c \<notin> set (xs @ ys)" using rep cs by (auto simp: q_rep_def)
  let ?g = "\<lambda>d. the (pn_r (reqs q ! d))"
  have cidg: "q_cid ops (?g d) = d" if "d \<in> set cs" for d
    using q_rep_get [OF rep that] by auto
  have "filter (\<lambda>r. \<not> (q_cid ops r = c \<and> q_rid ops r \<le> t)) (map ?g cs) = map ?g (filter (\<lambda>d. d \<noteq> c) cs)"
    by (rule filter_map_cs) (use cidg r in auto)
  also have "filter (\<lambda>d. d \<noteq> c) cs = xs @ ys" 
  proof -
    have "filter (\<lambda>d. d \<noteq> c) zs = zs" if "c \<notin> set zs" for zs using that by (induction zs) auto
    then show ?thesis using dist by (simp add: cs)
  qed
  also have "map ?g (xs @ ys) = map (\<lambda>d. the (pn_r (reqs q' ! d))) (xs @ ys)"
    using q'(4) dist by (intro map_cong) auto
  finally have ct: "q_contents q' = filter (\<lambda>r. \<not> (q_cid ops r = c \<and> q_rid ops r \<le> t)) (q_contents q)"
    by (simp add: contents_rep [OF rep] contents_rep [OF q'(2)])
  have fst: "(case q_contents q of [] \<Rightarrow> False | r # rs \<Rightarrow> q_cid ops r = c \<and> q_rid ops r \<le> t) = (xs = [])"
  proof (cases xs)
    case Nil
    then show ?thesis using r cidg [of c] by (simp add: contents_rep [OF rep] cs)
  next
    case (Cons x zs)
    then show ?thesis using dist cidg [of x] by (simp add: contents_rep [OF rep] cs)
  qed
  show ?thesis
    by (rule exI [of _ "xs = []"], rule exI [of _ q'], intro conjI)
      (use q'(1,3) ct fst q_inv_rep q'(2) in \<open>simp_all, blast\<close>)
qed

lemma append_fresh:
  assumes rep: "q_rep ops q cs" and c: "q_cid ops r < length (reqs q)" "q_cid ops r \<notin> set cs"
  shows "\<exists>q'. (do { q1 \<leftarrow> upd q (q_cid ops r) (\<lambda>n. n\<lparr>pn_r := Some r\<rparr>);
      q2 \<leftarrow> q_link_tail (q1\<lparr>nbytes := nbytes q1 + q_size ops r, nelems := nelems q1 + 1\<rparr>) (q_cid ops r);
      Some (True, q2) }) = Some (True, q') \<and> q_inv ops q' \<and> length (reqs q') = length (reqs q) \<and>
    q_contents q' = q_contents q @ [r]"
proof -
  from link_tail_ok [OF rep c refl] obtain q' where q': "(do { q1 \<leftarrow> upd q (q_cid ops r) (\<lambda>n. n\<lparr>pn_r := Some r\<rparr>);
      q_link_tail (q1\<lparr>nbytes := nbytes q1 + q_size ops r, nelems := nelems q1 + 1\<rparr>) (q_cid ops r) }) = Some q'"
    "q_rep ops q' (cs @ [q_cid ops r])" "length (reqs q') = length (reqs q)"
    "\<forall>d. pn_r (reqs q' ! d) = (if d = q_cid ops r then Some r else pn_r (reqs q ! d))" by blast
  have "map (\<lambda>d. the (pn_r (reqs q' ! d))) cs = map (\<lambda>d. the (pn_r (reqs q ! d))) cs"
    using q'(4) c(2) by (intro map_cong) auto
  then have "q_contents q' = q_contents q @ [r]"
    using q'(4) by (simp add: contents_rep [OF rep] contents_rep [OF q'(2)])
  with q' show ?thesis by (auto simp: q_inv_rep bind_assoc [symmetric])
qed

lemma push_ok:
  assumes rep: "q_rep ops q cs" and c: "q_cid ops r < length (reqs q)"
  shows "\<exists>q'. q_append ops q r =
      Some (\<not> (\<exists>r' \<in> set (q_contents q). q_cid ops r' = q_cid ops r \<and> q_rid ops r \<le> q_rid ops r'), q') \<and>
    q_inv ops q' \<and> length (reqs q') = length (reqs q) \<and>
    q_contents q' = (if \<exists>r' \<in> set (q_contents q). q_cid ops r' = q_cid ops r \<and> q_rid ops r \<le> q_rid ops r' then q_contents q
       else filter (\<lambda>r'. q_cid ops r' \<noteq> q_cid ops r) (q_contents q) @ [r])"
proof (cases "pn_r (reqs q ! q_cid ops r)")
  case None
  then have no: "\<not> (\<exists>r' \<in> set (q_contents q). q_cid ops r' = q_cid ops r \<and> True)"
    using contents_member [OF rep c, of "\<lambda>_. True"] by simp
  then have "filter (\<lambda>r'. q_cid ops r' \<noteq> q_cid ops r) (q_contents q) = q_contents q" by (intro filter_True) auto
  moreover have "q_cid ops r \<notin> set cs" using q_rep_node(1) [OF rep c] None by simp
  ultimately show ?thesis using append_fresh [OF rep c] no None c by (simp add: q_append_def arr_get_def Let_def)
next
  case (Some r')
  note mem = contents_member [OF rep c, of "\<lambda>x. q_rid ops r \<le> q_rid ops x"]
  show ?thesis
  proof (cases "q_rid ops r > q_rid ops r'")
    case False
    then have "q_rid ops r \<le> q_rid ops r'" by simp
    with False Some c mem rep show ?thesis by (auto simp: q_append_def arr_get_def Let_def q_inv_rep)
  next
    case True
    obtain q0 b where q0: "q_remove_client ops q (q_cid ops r) (q_rid ops r) = Some (b, q0)" "q_inv ops q0"
      "length (reqs q0) = length (reqs q)"
      "q_contents q0 = filter (\<lambda>x. \<not> (q_cid ops x = q_cid ops r \<and> q_rid ops x \<le> q_rid ops r)) (q_contents q)"
      using drop_ok [OF rep c] by blast
    have no: "\<not> (\<exists>x \<in> set (q_contents q). q_cid ops x = q_cid ops r \<and> q_rid ops r \<le> q_rid ops x)"
      using mem True Some by auto
    then have ct: "q_contents q0 = filter (\<lambda>x. q_cid ops x \<noteq> q_cid ops r) (q_contents q)"
      unfolding q0(4) by (intro filter_cong) (auto simp: not_le)
    obtain cs0 where rep0: "q_rep ops q0 cs0" using q0(2) q_inv_rep by blast
    have c0: "q_cid ops r < length (reqs q0)" using c q0(3) by simp
    have "q_cid ops r \<notin> set cs0"
      using contents_member [OF rep0 c0, of "\<lambda>_. True"] q_rep_node(1) [OF rep0 c0] ct by auto
    from append_fresh [OF rep0 c0 this] q0(1,3) ct no Some True c show ?thesis
      by (simp add: q_append_def arr_get_def Let_def) blast
  qed
qed

interpretation rq: client_queue "q_inv ops" q_contents "\<lambda>q. length (reqs q)" "q_cid ops" "q_rid ops"
  "q_append ops" "q_remove ops" "q_remove_client ops" for ops
proof unfold_locales
  fix q :: "'a req_queue" assume "q_inv ops q"
  then obtain cs where rep: "q_rep ops q cs" using q_inv_rep by blast
  have "map (q_cid ops) (q_contents q) = cs"
    unfolding contents_rep [OF rep] map_map comp_def using q_rep_get [OF rep] by (intro map_idI) force
  then show "distinct (map (q_cid ops) (q_contents q))" using rep by (simp add: q_rep_def)
next
  fix q :: "'a req_queue" and r assume "q_inv ops q" "q_cid ops r < length (reqs q)"
  then show "\<exists>q'. q_append ops q r =
      Some (\<not> (\<exists>r' \<in> set (q_contents q). q_cid ops r' = q_cid ops r \<and> q_rid ops r \<le> q_rid ops r'), q') \<and>
    q_inv ops q' \<and> length (reqs q') = length (reqs q) \<and>
    q_contents q' = (if \<exists>r' \<in> set (q_contents q). q_cid ops r' = q_cid ops r \<and> q_rid ops r \<le> q_rid ops r' then q_contents q
       else filter (\<lambda>r'. q_cid ops r' \<noteq> q_cid ops r) (q_contents q) @ [r])"
    unfolding q_inv_rep [of ops q] by (elim exE) (rule push_ok)
next
  fix q :: "'a req_queue" assume "q_inv ops q"
  then show "\<exists>q'. q_remove ops q = Some (case q_contents q of [] \<Rightarrow> None | r # rs \<Rightarrow> Some r, q') \<and> q_inv ops q' \<and>
    length (reqs q') = length (reqs q) \<and> q_contents q' = tl (q_contents q)"
    unfolding q_inv_rep [of ops q] by (elim exE) (rule pop_ok)
next
  fix q :: "'a req_queue" and c t assume "q_inv ops q" "c < length (reqs q)"
  then show "\<exists>b q'. q_remove_client ops q c t = Some (b, q') \<and> q_inv ops q' \<and> length (reqs q') = length (reqs q) \<and>
    q_contents q' = filter (\<lambda>r. \<not> (q_cid ops r = c \<and> q_rid ops r \<le> t)) (q_contents q) \<and>
    (b \<longleftrightarrow> (case q_contents q of [] \<Rightarrow> False | r # rs \<Rightarrow> q_cid ops r = c \<and> q_rid ops r \<le> t))"
    unfolding q_inv_rep [of ops q] by (elim exE) (rule drop_ok)
qed

section \<open>Properties\<close>

definition request_ops :: "request req_ops" where
  "request_ops = \<lparr>q_cid = (\<lambda>r. nat (r_cid r)), q_rid = r_rid, q_size = m_size\<rparr>"

lemma Req_queue_new_rep: "q_rep ops (Req_queue_new np) []"
  by (simp add: q_rep_def Req_queue_new_def pnode_clear_def)

lemma Req_queue_new_inv: "q_inv ops (Req_queue_new np)" "q_contents (Req_queue_new np) = []"
  using q_inv_rep Req_queue_new_rep contents_rep [OF Req_queue_new_rep] by (blast, simp)

lemma Req_queue_new_length: "length (reqs (Req_queue_new np)) = np"
  by (simp add: Req_queue_new_def)

text \<open>C13: The linked request queue implements a sequence with one request per client: \<^verbatim>\<open>append\<close> refuses a
  request that is not newer than the client's queued one and otherwise replaces it and moves the client to
  the end; the heap invariant is kept and no assertion of the code fails.\<close>

theorem req_queue_append:
  assumes "q_inv ops q" "q_cid ops r < length (reqs q)"
  shows "\<exists>q'. q_append ops q r =
      Some (\<not> (\<exists>r' \<in> set (q_contents q). q_cid ops r' = q_cid ops r \<and> q_rid ops r \<le> q_rid ops r'), q') \<and>
    q_inv ops q' \<and> length (reqs q') = length (reqs q) \<and>
    q_contents q' = (if \<exists>r' \<in> set (q_contents q). q_cid ops r' = q_cid ops r \<and> q_rid ops r \<le> q_rid ops r' then q_contents q
       else filter (\<lambda>r'. q_cid ops r' \<noteq> q_cid ops r) (q_contents q) @ [r])"
  by (rule rq.push_ok [OF assms])

definition wit_req :: "int \<Rightarrow> request_id \<Rightarrow> request" where
  "wit_req c t = \<lparr>m_tag = 1, m_extra = 2, m_size = 64, m_max = - 1, m_scratch = False, m_rest = replicate 8 0,
     r_od = digest_zero, r_replier = 0, r_command_size = 0, r_cid = c, r_rid = t\<rparr>"

theorem req_queue_append_witness:
  "\<exists>q'. q_append request_ops (Req_queue_new 5) (wit_req 3 7) = Some (True, q') \<and> q_contents q' = [wit_req 3 7]"
proof -
  have "q_cid request_ops (wit_req 3 7) = 3" by (simp add: request_ops_def wit_req_def)
  then show ?thesis using req_queue_append [OF Req_queue_new_inv(1), of request_ops "wit_req 3 7" 5]
    by (auto simp: Req_queue_new_inv Req_queue_new_length)
qed

text \<open>Removing requests: \<^verbatim>\<open>remove(cid, rid)\<close> drops exactly the client's request if it is not newer than
  \<^verbatim>\<open>rid\<close> and reports whether it was the first one; \<^verbatim>\<open>remove()\<close> takes the requests out in queue order
  until the queue is empty.\<close>

theorem req_queue_remove:
  assumes "q_inv ops q" "c < length (reqs q)"
  shows "(\<exists>b q'. q_remove_client ops q c t = Some (b, q') \<and> q_inv ops q' \<and>
      q_contents q' = filter (\<lambda>r. \<not> (q_cid ops r = c \<and> q_rid ops r \<le> t)) (q_contents q) \<and>
      (b \<longleftrightarrow> (case q_contents q of [] \<Rightarrow> False | r # rs \<Rightarrow> q_cid ops r = c \<and> q_rid ops r \<le> t))) \<and>
    (\<exists>q'. fold_opt (\<lambda>_ (acc, q). map_option (\<lambda>(r, q'). (acc @ [r], q')) (q_remove ops q)) (q_contents q) ([], q) =
      Some (map Some (q_contents q), q') \<and> q_contents q' = [])"
  using rq.drop_ok [OF assms, of t] rq.pops [OF assms(1) refl] by blast

theorem req_queue_remove_witness:
  "\<exists>b q'. q_remove_client request_ops (Req_queue_new 5) 2 9 = Some (b, q') \<and> \<not> b"
  using req_queue_remove [OF Req_queue_new_inv(1), of 2 5 request_ops 9] by (auto simp: Req_queue_new_inv Req_queue_new_length)

end
