(* ===== verification/Pre_Prepares.thy ===== *)
theory Pre_Prepares
  imports Req_Queue
begin

text \<open>
  Pre-prepare messages (\<^verbatim>\<open>Pre_prepare.h\<close>, \<^verbatim>\<open>Pre_prepare.cc\<close>): batching the queued requests, the walk over
  the requests of a received batch, and verification. The body \<open>m_rest\<close> holds the request set, the
  non-deterministic choices and the authenticator, in this order. \<^verbatim>\<open>DigestBuilder\<close> hashes the concatenation
  of what it is fed.
\<close>

section \<open>The class\<close>

record pre_prepare = message +
  pp_view :: view
  pp_seqno :: seqno
  pp_digest :: digest
  pp_rset_size :: int
  pp_non_det_size :: int
  pp_pad :: "byte list"

definition sizeof_Pre_prepare_rep :: nat where
  "sizeof_Pre_prepare_rep = 64"

definition pre_prepare_bytes :: "pre_prepare \<Rightarrow> byte list" where
  "pre_prepare_bytes p = header_bytes p @ le_bytes 8 (pp_view p) @ le_bytes 8 (pp_seqno p) @ digest_bytes (pp_digest p) @
     le_bytes 4 (pp_rset_size p) @ le_bytes 2 (pp_non_det_size p) @ pp_pad p"

text \<open>\<^verbatim>\<open>non_det_choices\<close> asserts that the choices start at an aligned address.\<close>

definition non_det_choices :: "pre_prepare \<Rightarrow> nat option" where
  "non_det_choices p = do {
     th_assert (ALIGNED (pp_rset_size p));
     if pp_rset_size p < 0 then None else Some (nat (pp_rset_size p)) }"

definition choices :: "pre_prepare \<Rightarrow> byte list option" where
  "choices p = do {
     off \<leftarrow> non_det_choices p;
     if pp_non_det_size p < 0 \<or> int (length (m_rest p)) < int off + pp_non_det_size p then None
     else Some (take (nat (pp_non_det_size p)) (drop off (m_rest p))) }"

definition pp_clone :: "pre_prepare \<Rightarrow> view \<Rightarrow> pre_prepare" where
  "pp_clone p v = p\<lparr>m_max := ALIGNED_SIZE (m_max p), m_scratch := True, pp_view := v\<rparr>"

definition pp_re_authenticate :: "crypto \<Rightarrow> node \<Rightarrow> pre_prepare \<Rightarrow> pre_prepare option" where
  "pp_re_authenticate cr nd p = do {
     off \<leftarrow> non_det_choices p;
     Some (p\<lparr>m_rest := put_bytes (m_rest p) (nat (int off + pp_non_det_size p))
       (gen_auth_out (cr_H cr) nd (pre_prepare_bytes p))\<rparr>) }"

definition pp_id :: "node \<Rightarrow> pre_prepare \<Rightarrow> int" where
  "pp_id nd p = primary_of nd (pp_view p)"

definition pp_match :: "pre_prepare \<Rightarrow> prepare \<Rightarrow> bool option" where
  "pp_match pp p = do {
     th_assert (pp_view pp = p_view p \<and> pp_seqno pp = p_seqno p);
     Some (digest_eq (pp_digest pp) (p_digest p)) }"

section \<open>Building a batch\<close>

definition whole_request :: "request \<Rightarrow> byte list" where
  "whole_request r = take (nat (m_size r)) (request_bytes r @ m_rest r)"

text \<open>The loop of \<^verbatim>\<open>fill\<close> over the queue: \<open>body\<close> is what was copied and \<open>dig\<close> what the digest builder was
  fed. Every round removes a request, so a fuel of one more than the number of principals is enough.\<close>

fun fill_requests :: "nat \<Rightarrow> int \<Rightarrow> request req_queue \<Rightarrow> byte list \<Rightarrow> byte list \<Rightarrow>
    (byte list \<times> byte list \<times> request req_queue) option" where
  "fill_requests 0 max_req q body dig = None"
| "fill_requests (Suc k) max_req q body dig = do {
     req \<leftarrow> q_first q;
     case req of
       None \<Rightarrow> Some (body, dig, q)
     | Some r \<Rightarrow>
         if int (length body) + m_size r > max_req then Some (body, dig, q)
         else do {
           let body' = body @ whole_request r;
           th_assert (ALIGNED (int (length body')));
           (_, q') \<leftarrow> q_remove request_ops q;
           fill_requests k max_req q' body' (dig @ digest_bytes (r_od r)) } }"

text \<open>\<open>nd_choice s\<close> is what the service's callback writes for sequence number \<open>s\<close>.\<close>

definition pp_fill :: "crypto \<Rightarrow> node \<Rightarrow> int \<Rightarrow> (seqno \<Rightarrow> byte list) \<Rightarrow> pre_prepare \<Rightarrow> view \<Rightarrow> seqno \<Rightarrow> request req_queue \<Rightarrow>
    (pre_prepare \<times> request req_queue) option" where
  "pp_fill cr nd max_nd nd_choice p v s q = do {
     let max_req = msize p - int sizeof_Pre_prepare_rep - max_nd - auth_size nd (- 1);
     (body, dig, q') \<leftarrow> fill_requests (Suc (length (reqs q))) max_req q [] [];
     let nd_bytes = (if body \<noteq> [] then nd_choice s else []);
     th_assert (ALIGNED (int (length nd_bytes)));
     let p1 = p\<lparr>pp_view := v, pp_seqno := s, pp_rset_size := int (length body),
                pp_non_det_size := to_int16 (int (length nd_bytes)), pp_digest := cr_hash cr (dig @ nd_bytes),
                m_rest := body @ nd_bytes @ drop (length body + length nd_bytes) (m_rest p)\<rparr>;
     let old_size = int sizeof_Pre_prepare_rep + int (length body) + int (length nd_bytes);
     p2 \<leftarrow> set_size sizeof_Pre_prepare_rep p1 (old_size + auth_size nd (- 1));
     Some (p2\<lparr>m_rest := put_bytes (m_rest p2) (length body + length nd_bytes)
               (gen_auth_out (cr_H cr) nd (pre_prepare_bytes p2))\<rparr>, q') }"

text \<open>The constructor in the agreement region: \<open>buf\<close> is the slot's old contents.\<close>

definition Pre_prepare_new :: "crypto \<Rightarrow> node \<Rightarrow> int \<Rightarrow> (seqno \<Rightarrow> byte list) \<Rightarrow> int \<Rightarrow> pre_prepare \<Rightarrow> view \<Rightarrow> seqno \<Rightarrow>
    request req_queue \<Rightarrow> (pre_prepare \<times> request req_queue) option" where
  "Pre_prepare_new cr nd max_nd nd_choice Max_message_size buf v s q =
     pp_fill cr nd max_nd nd_choice (buf\<lparr>m_tag := Pre_prepare_tag, m_max := - 1, m_size := Max_message_size\<rparr>) v s q"

section \<open>Walking over a batch\<close>

definition header_at :: "byte list \<Rightarrow> message option" where
  "header_at bs =
     (if length bs < sizeof_Message_rep then None
      else Some \<lparr>m_tag = le_sint (take 2 bs), m_extra = le_sint (take 2 (drop 2 bs)), m_size = le_sint (take 4 (drop 4 bs)),
        m_max = - 1, m_scratch = False, m_rest = drop 8 bs\<rparr>)"

text \<open>The loop that \<^verbatim>\<open>check_digest\<close> and \<^verbatim>\<open>verify\<close> share: \<open>ok r\<close> is the test on each request. The result is
  what the digest builder was fed, \<open>Some None\<close> when a request is rejected, \<open>None\<close> when the walk reads past
  the message.\<close>

function walk_requests :: "(request \<Rightarrow> bool option) \<Rightarrow> byte list \<Rightarrow> int \<Rightarrow> int \<Rightarrow> byte list \<Rightarrow> byte list option option" where
  "walk_requests ok bs rset nxt dig =
     (if nxt < rset then
        if rset - nxt < int sizeof_Message_rep then Some None
        else (case header_at (drop (nat nxt) bs) of
          None \<Rightarrow> None
        | Some h \<Rightarrow>
            if \<not> ALIGNED nxt \<or> \<not> has_tag h Request_tag (int sizeof_Request_rep) then Some None
            else (case request_at (drop (nat nxt) bs) of
              None \<Rightarrow> None
            | Some r \<Rightarrow>
                (case ok r of
                   None \<Rightarrow> None
                 | Some False \<Rightarrow> Some None
                 | Some True \<Rightarrow> walk_requests ok bs rset (nxt + m_size h) (dig @ digest_bytes (r_od r)))))
      else Some (Some dig))"
  by pat_completeness auto
termination
  by (relation "measure (\<lambda>(ok, bs, rset, nxt, dig). nat (rset - nxt))")
    (auto simp: has_tag_def sizeof_Request_rep_def split: if_splits)

text \<open>\<^verbatim>\<open>int min_size = sizeof(Pre_prepare_rep) + sz + auth_size\<close>: the sum is narrowed to \<^verbatim>\<open>int\<close>.\<close>

definition pp_min_size :: "node \<Rightarrow> pre_prepare \<Rightarrow> int" where
  "pp_min_size nd p = to_int32 (int sizeof_Pre_prepare_rep + to_int32 (pp_rset_size p + pp_non_det_size p) +
     auth_size nd (primary_of nd (pp_view p)))"

definition check_digest :: "crypto \<Rightarrow> node \<Rightarrow> pre_prepare \<Rightarrow> bool option" where
  "check_digest cr nd p =
     (if m_size p \<ge> pp_min_size nd p then do {
        res \<leftarrow> walk_requests (\<lambda>r. Some True) (m_rest p) (pp_rset_size p) 0 [];
        case res of
          None \<Rightarrow> Some False
        | Some dig \<Rightarrow> do {
            nd_bytes \<leftarrow> choices p;
            Some (digest_eq (cr_hash cr (dig @ nd_bytes)) (pp_digest p)) } }
      else Some False)"

definition NAC :: int where "NAC = 1"
definition NRC :: int where "NRC = 2"

text \<open>\<open>has_req c d\<close> is \<^verbatim>\<open>replica->has_req\<close>: whether the replica has the request itself.\<close>

definition pp_verify :: "crypto \<Rightarrow> node \<Rightarrow> (int \<Rightarrow> digest \<Rightarrow> bool) \<Rightarrow> int \<Rightarrow> pre_prepare \<Rightarrow> bool option" where
  "pp_verify cr nd has_req mode p =
     (if m_size p \<ge> pp_min_size nd p then do {
        res \<leftarrow> walk_requests
          (\<lambda>r. if mode = NRC then Some True
               else do { b \<leftarrow> Request_verify cr nd r; Some (b \<or> has_req (r_cid r) (r_od r)) })
          (m_rest p) (pp_rset_size p) 0 [];
        case res of
          None \<Rightarrow> Some False
        | Some dig \<Rightarrow> do {
            nd_bytes \<leftarrow> choices p;
            if digest_eq (cr_hash cr (dig @ nd_bytes)) (pp_digest p)
            then if mode = NAC then Some True
                 else verify_auth_in (cr_sc cr) (cr_H cr) nd (primary_of nd (pp_view p)) (pre_prepare_bytes p)
                   (drop (nat (pp_rset_size p + pp_non_det_size p)) (m_rest p))
            else Some False } }
      else Some False)"

definition pp_convert :: "'a message_scheme \<Rightarrow> bool" where
  "pp_convert m = has_tag m Pre_prepare_tag (int sizeof_Pre_prepare_rep)"

text \<open>The \<^verbatim>\<open>Requests_iter\<close>: the requests of a verified batch.\<close>

definition Requests_iter_get :: "pre_prepare \<Rightarrow> int \<Rightarrow> (request option \<times> int) option" where
  "Requests_iter_get p nxt =
     (if nxt < pp_rset_size p then do {
        r \<leftarrow> request_at (drop (nat nxt) (m_rest p));
        Some (Some r, nxt + m_size r) }
      else Some (None, nxt))"

end
