(* ===== verification/Prepared_Cert.thy ===== *)
theory Prepared_Cert
  imports Pre_Prepares
begin

text \<open>
  \<^verbatim>\<open>Prepared_cert.h\<close> and \<^verbatim>\<open>Prepared_cert.cc\<close>: a pre-prepare together with the certificate of matching
  prepares. The step relation \<open>pc_reach\<close> collects the calls a replica makes on one such certificate during
  one view; the quorum argument for agreement within a view is proved on it.
\<close>

section \<open>The class\<close>

record prepared_cert =
  pc_cert :: "prepare certificate"
  pc_pp :: "pre_prepare option"
  pc_t_sent :: int
  pc_primary :: bool

definition Prepared_cert_new :: "int \<Rightarrow> node \<Rightarrow> prepared_cert" where
  "Prepared_cert_new Mx nd = \<lparr>pc_cert = Certificate_new Mx nd (max_faulty nd * 2), pc_pp = None, pc_t_sent = 0,
     pc_primary = False\<rparr>"

definition pc_add :: "(prepare \<Rightarrow> bool) \<Rightarrow> node \<Rightarrow> prepared_cert \<Rightarrow> prepare \<Rightarrow> (bool \<times> prepared_cert) option" where
  "pc_add verify nd P m = do {
     (b, C) \<leftarrow> cert_add prepare_ops verify nd (pc_cert P) m;
     Some (b, P\<lparr>pc_cert := C\<rparr>) }"

definition pc_add_mine :: "node \<Rightarrow> int \<Rightarrow> prepared_cert \<Rightarrow> prepare \<Rightarrow> (bool \<times> prepared_cert) option" where
  "pc_add_mine nd now P m = do {
     th_assert (node_id nd \<noteq> primary_of nd (p_view m));
     (b, C) \<leftarrow> cert_add_mine prepare_ops nd now (pc_cert P) m;
     Some (b, P\<lparr>pc_cert := C\<rparr>) }"

definition pc_add_mine_pp :: "node \<Rightarrow> int \<Rightarrow> prepared_cert \<Rightarrow> pre_prepare \<Rightarrow> (bool \<times> prepared_cert) option" where
  "pc_add_mine_pp nd now P m = do {
     th_assert (node_id nd = primary_of nd (pp_view m));
     th_assert (pc_pp P = None);
     Some (True, P\<lparr>pc_pp := Some m, pc_primary := True, pc_t_sent := now\<rparr>) }"

definition pc_add_old :: "prepared_cert \<Rightarrow> pre_prepare \<Rightarrow> prepared_cert option" where
  "pc_add_old P m = do {
     th_assert (pc_pp P = None);
     th_assert (\<not> m_scratch m);
     Some (P\<lparr>pc_pp := Some m\<rparr>) }"

definition my_prepare :: "prepared_cert \<Rightarrow> prepare option" where
  "my_prepare P = mine (pc_cert P)"

definition my_pre_prepare :: "prepared_cert \<Rightarrow> pre_prepare option" where
  "my_pre_prepare P = (if pc_primary P then pc_pp P else None)"

definition pc_num_correct :: "prepared_cert \<Rightarrow> int" where
  "pc_num_correct P = num_correct (pc_cert P)"

text \<open>With no value chosen \<^verbatim>\<open>pp->match(pc.cvalue())\<close> would read through a null pointer; \<open>pc_is_complete\<close> then
  has the value \<open>None\<close>.\<close>

definition pc_is_complete :: "prepared_cert \<Rightarrow> bool option" where
  "pc_is_complete P =
     (case pc_pp P of
        None \<Rightarrow> Some False
      | Some pp \<Rightarrow>
          if is_complete (pc_cert P) then do { v \<leftarrow> cvalue (pc_cert P); pp_match pp v } else Some False)"

definition is_pp_complete :: "prepared_cert \<Rightarrow> bool" where
  "is_pp_complete P \<longleftrightarrow> pc_pp P \<noteq> None"

definition rem_pre_prepare :: "prepared_cert \<Rightarrow> pre_prepare option \<times> prepared_cert" where
  "rem_pre_prepare P = (pc_pp P, P\<lparr>pc_pp := None\<rparr>)"

definition pc_prepare :: "prepared_cert \<Rightarrow> prepare option" where
  "pc_prepare P = cvalue (pc_cert P)"

definition pc_mark_stale :: "node \<Rightarrow> prepared_cert \<Rightarrow> prepared_cert option" where
  "pc_mark_stale nd P = do {
     b \<leftarrow> pc_is_complete P;
     if \<not> b then do {
       C \<leftarrow> cert_mark_stale (pc_cert P);
       Some (P\<lparr>pc_pp := (if primary nd \<noteq> node_id nd then None else pc_pp P), pc_cert := C\<rparr>) }
     else Some P }"

definition pc_clear :: "prepared_cert \<Rightarrow> prepared_cert" where
  "pc_clear P = P\<lparr>pc_pp := None, pc_t_sent := 0, pc_cert := cert_clear (pc_cert P), pc_primary := False\<rparr>"

definition pc_is_empty :: "prepared_cert \<Rightarrow> bool" where
  "pc_is_empty P \<longleftrightarrow> pc_pp P = None \<and> cert_is_empty (pc_cert P)"

text \<open>The loop over the values of the certificate in \<^verbatim>\<open>is_pp_correct\<close> and \<^verbatim>\<open>add(Pre_prepare)\<close>: is there a value
  with \<open>f\<close> senders that matches?\<close>

fun has_weak_match :: "int \<Rightarrow> pre_prepare \<Rightarrow> (prepare option \<times> int) list \<Rightarrow> bool option" where
  "has_weak_match f pp [] = Some False"
| "has_weak_match f pp ((v, n) # vs) =
     (if n \<ge> f then do {
        p \<leftarrow> v;
        b \<leftarrow> pp_match pp p;
        if b then Some True else has_weak_match f pp vs }
      else has_weak_match f pp vs)"

definition is_pp_correct :: "node \<Rightarrow> prepared_cert \<Rightarrow> bool option" where
  "is_pp_correct nd P =
     (case pc_pp P of None \<Rightarrow> Some False
      | Some pp \<Rightarrow> has_weak_match (max_faulty nd) pp (Val_iter_all (pc_cert P)))"

definition pc_add_pp :: "(int \<Rightarrow> pre_prepare \<Rightarrow> bool option) \<Rightarrow> node \<Rightarrow> prepared_cert \<Rightarrow> pre_prepare \<Rightarrow>
    (bool \<times> prepared_cert) option" where
  "pc_add_pp verify nd P m =
     (if pc_pp P = None then
        (case mine (pc_cert P) of
           None \<Rightarrow> do {
             b0 \<leftarrow> verify 0 m;
             if b0 then Some (True, P\<lparr>pc_pp := Some m\<rparr>)
             else do {
               b1 \<leftarrow> verify NRC m;
               b2 \<leftarrow> (if b1 then has_weak_match (max_faulty nd) m (Val_iter_all (pc_cert P)) else Some False);
               Some (if b2 then (True, P\<lparr>pc_pp := Some m\<rparr>) else (False, P)) } }
         | Some p \<Rightarrow> do {
             b \<leftarrow> pp_match m p;
             b1 \<leftarrow> (if b then verify NRC m else Some False);
             Some (if b1 then (True, P\<lparr>pc_pp := Some m\<rparr>) else (False, P)) })
      else Some (False, P))"

section \<open>Reachable prepared certificates\<close>

text \<open>
  One view and sequence number. \<open>P_add_pp m b\<close> is \<^verbatim>\<open>add(m)\<close> for a pre-prepare whose authenticator is valid
  iff \<open>b\<close>; \<^verbatim>\<open>verify\<close> in the modes the code uses here returns true only for a valid authenticator of the
  primary. The replica hands over only prepares of other replicas than the primary (the guard of
  \<^verbatim>\<open>Replica::handle(Prepare*)\<close>).
\<close>

datatype pc_event = P_add prepare bool | P_add_mine prepare int | P_add_pp pre_prepare bool |
  P_add_mine_pp pre_prepare | P_mark_stale | P_clear

definition pp_slot :: "view \<Rightarrow> seqno \<Rightarrow> pre_prepare \<Rightarrow> bool" where
  "pp_slot v n m \<longleftrightarrow> pp_view m = v \<and> pp_seqno m = n \<and> length (pp_digest m) = num_words"

inductive pc_reach :: "view \<Rightarrow> seqno \<Rightarrow> int \<Rightarrow> node \<Rightarrow> pc_event list \<Rightarrow> prepared_cert \<Rightarrow> bool"
  for v n Mx nd where
  new: "pc_reach v n Mx nd [] (Prepared_cert_new Mx nd)"
| add: "pc_reach v n Mx nd es P \<Longrightarrow> prepare_slot v n m \<Longrightarrow> p_id m \<noteq> primary_of nd v \<Longrightarrow> (b \<Longrightarrow> p_id m \<noteq> node_id nd) \<Longrightarrow>
    pc_add (\<lambda>_. b) nd P m = Some (r, P') \<Longrightarrow> pc_reach v n Mx nd (es @ [P_add m b]) P'"
| add_mine: "pc_reach v n Mx nd es P \<Longrightarrow> prepare_slot v n m \<Longrightarrow> my_prepare P = None \<Longrightarrow>
    pc_add_mine nd now P m = Some (r, P') \<Longrightarrow> pc_reach v n Mx nd (es @ [P_add_mine m now]) P'"
| add_pp: "pc_reach v n Mx nd es P \<Longrightarrow> pp_slot v n m \<Longrightarrow> (\<And>mode. verify mode m = Some True \<Longrightarrow> b) \<Longrightarrow>
    pc_add_pp verify nd P m = Some (r, P') \<Longrightarrow> pc_reach v n Mx nd (es @ [P_add_pp m b]) P'"
| add_mine_pp: "pc_reach v n Mx nd es P \<Longrightarrow> pp_slot v n m \<Longrightarrow> pc_add_mine_pp nd now P m = Some (r, P') \<Longrightarrow>
    pc_reach v n Mx nd (es @ [P_add_mine_pp m]) P'"
| mark_stale: "pc_reach v n Mx nd es P \<Longrightarrow> pc_mark_stale nd P = Some P' \<Longrightarrow> pc_reach v n Mx nd (es @ [P_mark_stale]) P'"
| clear: "pc_reach v n Mx nd es P \<Longrightarrow> pc_reach v n Mx nd (es @ [P_clear]) (pc_clear P)"

text \<open>The calls on the certificate of prepares.\<close>

fun prepare_calls :: "pc_event list \<Rightarrow> prepare cert_event list" where
  "prepare_calls [] = []"
| "prepare_calls (e # es) = (case e of P_add m b \<Rightarrow> [Add m b] | P_add_mine m now \<Rightarrow> [Add_mine m now]
     | P_clear \<Rightarrow> [Clear] | P_mark_stale \<Rightarrow> [Mark_stale] | _ \<Rightarrow> []) @ prepare_calls es"

text \<open>What a replica is known to have said about the digest for this view and sequence number.\<close>

definition stated :: "node \<Rightarrow> view \<Rightarrow> pc_event list \<Rightarrow> int \<Rightarrow> digest \<Rightarrow> bool" where
  "stated nd v es j d \<longleftrightarrow>
     (\<exists>m. P_add m True \<in> set es \<and> p_id m = j \<and> p_digest m = d) \<or>
     (\<exists>m now. P_add_mine m now \<in> set es \<and> j = node_id nd \<and> p_digest m = d) \<or>
     (\<exists>m. (P_add_pp m True \<in> set es \<or> P_add_mine_pp m \<in> set es) \<and> j = primary_of nd v \<and> pp_digest m = d)"

lemma prepare_calls_append: "prepare_calls (es @ es') = prepare_calls es @ prepare_calls es'"
  by (induction es) auto

lemma prepare_calls_set:
  "Add m b \<in> set (prepare_calls es) \<longleftrightarrow> P_add m b \<in> set es"
  "Add_mine m now \<in> set (prepare_calls es) \<longleftrightarrow> P_add_mine m now \<in> set es"
  by (induction es) (auto split: pc_event.splits)

lemma pc_reach_cert:
  assumes "pc_reach v n Mx nd es P"
  shows "cert_reach prepare_ops (prepare_slot v n) Mx nd (max_faulty nd * 2) (prepare_calls es) (pc_cert P)"
  using assms
proof induction
  case new
  then show ?case by (auto simp: Prepared_cert_new_def intro: cert_reach.new)
next
  case (add es P m b r P')
  then obtain C' where "cert_add prepare_ops (\<lambda>_. b) nd (pc_cert P) m = Some (r, C')" "P' = P\<lparr>pc_cert := C'\<rparr>"
    by (auto simp: pc_add_def split: Option.bind_splits)
  then show ?case using cert_reach.add [OF add.IH add(2), of b r C'] add(4)
    by (simp add: prepare_calls_append prepare_ops_def)
next
  case (add_mine es P m now r P')
  then obtain C' where "cert_add_mine prepare_ops nd now (pc_cert P) m = Some (r, C')" "P' = P\<lparr>pc_cert := C'\<rparr>"
    by (auto simp: pc_add_mine_def split: Option.bind_splits if_splits)
  then show ?case using cert_reach.add_mine [OF add_mine.IH add_mine(2), of now r C'] add_mine(3)
    by (simp add: prepare_calls_append my_prepare_def)
next
  case (add_pp es P m verify b r P')
  then have "pc_cert P' = pc_cert P"
    by (auto simp: pc_add_pp_def split: if_splits option.splits Option.bind_splits)
  then show ?case using add_pp.IH by (simp add: prepare_calls_append)
next
  case (add_mine_pp es P m now r P')
  then have "pc_cert P' = pc_cert P" by (auto simp: pc_add_mine_pp_def split: if_splits)
  then show ?case using add_mine_pp.IH by (simp add: prepare_calls_append)
next
  case (mark_stale es P P')
  have "cert_mark_stale (pc_cert P) = Some (pc_cert P')"
  proof (cases "pc_is_complete P = Some True")
    case True
    then have "is_complete (pc_cert P)" by (auto simp: pc_is_complete_def split: option.splits if_splits)
    then show ?thesis using True mark_stale(2) by (simp add: pc_mark_stale_def cert_mark_stale_def)
  next
    case False
    then show ?thesis using mark_stale(2) by (auto simp: pc_mark_stale_def split: Option.bind_splits if_splits)
  qed
  from cert_reach.mark_stale [OF mark_stale.IH this] show ?case by (simp add: prepare_calls_append)
next
  case (clear es P)
  from cert_reach.clear [OF clear.IH] show ?case by (simp add: prepare_calls_append pc_clear_def)
qed

text \<open>The pre-prepare in a certificate was authenticated by the primary or made by this replica.\<close>

lemma pc_reach_pp:
  assumes "pc_reach v n Mx nd es P" "pc_pp P = Some m"
  shows "pp_slot v n m \<and> (P_add_pp m True \<in> set es \<or> P_add_mine_pp m \<in> set es)"
  using assms
proof (induction arbitrary: m)
  case (add_pp es P x verify b r P')
  then have "pc_pp P = Some m \<or> m = x \<and> (\<exists>mode. verify mode x = Some True)"
    by (auto simp: pc_add_pp_def split: if_splits option.splits Option.bind_splits)
  then show ?case using add_pp.IH [of m] add_pp(2,3) by auto
qed (auto simp: Prepared_cert_new_def pc_add_def pc_add_mine_def pc_add_mine_pp_def pc_mark_stale_def pc_clear_def
    split: Option.bind_splits if_splits)

text \<open>The primary of the view never counts among the prepares.\<close>

lemma pc_reach_not_primary:
  assumes "pc_reach v n Mx nd es P" "said prepare_ops nd (prepare_calls es) j m"
  shows "j \<noteq> primary_of nd v"
  using assms
proof (induction arbitrary: j m)
  case (add_mine es P x now r P')
  have "node_id nd \<noteq> primary_of nd v"
    using add_mine(2,4) by (auto simp: pc_add_mine_def prepare_slot_def split: if_splits)
  then show ?case using add_mine.IH [of j m] add_mine.prems
    by (auto simp: said_def prepare_calls_append)
next
  case (add es P x b r P')
  then show ?case using add.IH [of j m] by (auto simp: said_def prepare_calls_append prepare_ops_def)
qed (auto simp: said_def prepare_calls_append)

lemma said_stated: "said prepare_ops nd (prepare_calls es) j m \<Longrightarrow> stated nd v es j (p_digest m)"
  by (auto simp: said_def stated_def prepare_calls_set prepare_ops_def)

text \<open>A complete prepared certificate: the primary and \<open>2f\<close> other replicas stated its digest.\<close>

lemma prepared_quorum:
  assumes "pc_reach v n Mx nd es P" "node_ok nd" "0 \<le> v" "is_replica nd (node_id nd)" "num_replicas nd \<le> Mx" "Mx \<le> 2 ^ 31"
    and "pc_is_complete P = Some True"
  shows "\<exists>pp Q. pc_pp P = Some pp \<and> Q \<subseteq> {0..<num_replicas nd} \<and> 2 * max_faulty nd + 1 \<le> int (card Q) \<and>
    (\<forall>j \<in> Q. stated nd v es j (pp_digest pp))"
proof -
  from assms(7) obtain pp w where pp: "pc_pp P = Some pp" "is_complete (pc_cert P)" "cvalue (pc_cert P) = Some w"
    "pp_match pp w = Some True" by (auto simp: pc_is_complete_def split: option.splits if_splits Option.bind_splits)
  have f: "0 \<le> max_faulty nd" "0 \<le> max_faulty nd * 2" using assms(2) by (auto simp: node_ok_def)
  from pcm.reach_complete [OF pc_reach_cert [OF assms(1)] assms(4) f(1) assms(5,6) f(2) pp(2)] pp(3)
  obtain S where S: "prepare_slot v n w" "S \<subseteq> {0..<num_replicas nd}" "max_faulty nd * 2 \<le> int (card S)"
    "\<forall>j \<in> S. \<exists>m'. said prepare_ops nd (prepare_calls es) j m' \<and> p_digest m' = p_digest w"
    by (auto split: if_splits)
  note pps = pc_reach_pp [OF assms(1) pp(1)]
  have dig: "pp_digest pp = p_digest w"
    using pp(4) S(1) pps by (auto simp: pp_match_def prepare_slot_def pp_slot_def digest_eq_iff split: if_splits)
  let ?p = "primary_of nd v"
  have "?p \<notin> S" using S(4) pc_reach_not_primary [OF assms(1)] by blast
  moreover have "is_replica nd ?p"
    using assms(2,3) pos_mod_bound [of "num_replicas nd" v] by (simp add: primary_of_mod is_replica_def node_ok_def)
  moreover have "finite S" using S(2) finite_subset by blast
  ultimately have Q: "insert ?p S \<subseteq> {0..<num_replicas nd}" "2 * max_faulty nd + 1 \<le> int (card (insert ?p S))"
    using S(2,3) by (auto simp: is_replica_def)
  have "stated nd v es j (pp_digest pp)" if "j \<in> insert ?p S" for j
  proof (cases "j = ?p")
    case True
    then show ?thesis using pps unfolding stated_def by blast
  next
    case False
    with that S(4) obtain m' where "said prepare_ops nd (prepare_calls es) j m'" "p_digest m' = p_digest w" by blast
    then show ?thesis using said_stated dig by metis
  qed
  with pp(1) Q show ?thesis by blast
qed

section \<open>Properties\<close>

text \<open>C1: Agreement within a view: if two replicas each hold a complete prepared certificate for the same view
  and sequence number, their pre-prepares have the same digest, provided at most \<open>f\<close> replicas are faulty and
  no correct replica states two digests for that view and sequence number.\<close>

theorem prepared_certificates_agree:
  assumes "pc_reach v n Mx nd1 es1 P1" "pc_reach v n Mx nd2 es2 P2" "node_ok nd1" "node_ok nd2" "0 \<le> v"
    and "max_faulty nd1 = max_faulty nd2" "is_replica nd1 (node_id nd1)" "is_replica nd2 (node_id nd2)"
    and "num_replicas nd1 \<le> Mx" "Mx \<le> 2 ^ 31" "finite faulty" "int (card faulty) \<le> max_faulty nd1"
    and "pc_is_complete P1 = Some True" "pc_is_complete P2 = Some True"
    and honest: "\<And>j d d'. j \<notin> faulty \<Longrightarrow> stated nd1 v es1 j d \<Longrightarrow> stated nd2 v es2 j d' \<Longrightarrow> d = d'"
  shows "\<exists>pp1 pp2. pc_pp P1 = Some pp1 \<and> pc_pp P2 = Some pp2 \<and> pp_digest pp1 = pp_digest pp2"
proof -
  have n: "0 \<le> max_faulty nd1" "num_replicas nd1 = 3 * max_faulty nd1 + 1" "num_replicas nd2 = num_replicas nd1"
    using assms(3,4,6) by (auto simp: node_ok_def)
  from prepared_quorum [OF assms(1,3,5,7,9,10,13)] obtain pp1 Q1 where 1: "pc_pp P1 = Some pp1"
    "Q1 \<subseteq> {0..<num_replicas nd1}" "2 * max_faulty nd1 + 1 \<le> int (card Q1)" "\<forall>j \<in> Q1. stated nd1 v es1 j (pp_digest pp1)"
    by blast
  from prepared_quorum [OF assms(2,4,5,8) _ assms(10,14)] n(3) assms(6,9) obtain pp2 Q2 where 2: "pc_pp P2 = Some pp2"
    "Q2 \<subseteq> {0..<num_replicas nd1}" "2 * max_faulty nd1 + 1 \<le> int (card Q2)" "\<forall>j \<in> Q2. stated nd2 v es2 j (pp_digest pp2)"
    by auto
  from int_quorums_share [OF n(1,2) 1(2) 2(2) 1(3) 2(3) assms(11,12)] obtain j where "j \<in> Q1" "j \<in> Q2" "j \<notin> faulty" by blast
  then show ?thesis using 1 2 honest by blast
qed

definition wit_pp :: pre_prepare where
  "wit_pp = \<lparr>m_tag = 3, m_extra = 0, m_size = 160, m_max = - 1, m_scratch = False, m_rest = [], pp_view = 0, pp_seqno = 5,
     pp_digest = digest_zero, pp_rset_size = 0, pp_non_det_size = 0, pp_pad = [0, 0]\<rparr>"

definition wit_prepare :: "int \<Rightarrow> prepare" where
  "wit_prepare i = Prepare_new wit_crypto (wit_node i) 0 5 digest_zero None"

definition wit_pc :: "int \<Rightarrow> int \<Rightarrow> int \<Rightarrow> prepared_cert option" where
  "wit_pc me a b = do {
     (_, P1) \<leftarrow> pc_add_pp (\<lambda>mode m. Some True) (wit_node me) (Prepared_cert_new 4 (wit_node me)) wit_pp;
     (_, P2) \<leftarrow> pc_add (\<lambda>_. True) (wit_node me) P1 (wit_prepare a);
     (_, P3) \<leftarrow> pc_add (\<lambda>_. True) (wit_node me) P2 (wit_prepare b);
     Some P3 }"

lemma wit_pc_complete:
  "(wit_pc 1 2 3 \<bind> pc_is_complete) = Some True" "(wit_pc 2 1 3 \<bind> pc_is_complete) = Some True"
  by code_simp+

lemma wit_pc_reach:
  assumes "wit_pc me a b = Some P" "a \<noteq> 0" "b \<noteq> 0" "a \<noteq> me" "b \<noteq> me"
  shows "pc_reach 0 5 4 (wit_node me) [P_add_pp wit_pp True, P_add (wit_prepare a) True, P_add (wit_prepare b) True] P"
proof -
  from assms(1) obtain r1 P1 r2 P2 r3 where
    1: "pc_add_pp (\<lambda>mode m. Some True) (wit_node me) (Prepared_cert_new 4 (wit_node me)) wit_pp = Some (r1, P1)" and
    2: "pc_add (\<lambda>_. True) (wit_node me) P1 (wit_prepare a) = Some (r2, P2)" and
    3: "pc_add (\<lambda>_. True) (wit_node me) P2 (wit_prepare b) = Some (r3, P)"
    by (auto simp: wit_pc_def split: Option.bind_splits)
  have sl: "pp_slot 0 5 wit_pp" "prepare_slot 0 5 (wit_prepare i)" "p_id (wit_prepare i) = i" for i
    by (simp_all add: pp_slot_def wit_pp_def prepare_slot_def wit_prepare_def Prepare_new_def digest_zero_def wit_node_sel Let_def)
  have prim: "primary_of (wit_node me) 0 = 0" by (simp add: primary_of_def wit_node_sel)
  have "pc_reach 0 5 4 (wit_node me) ([] @ [P_add_pp wit_pp True]) P1"
    by (rule pc_reach.add_pp [OF pc_reach.new sl(1) _ 1]) simp
  then have "pc_reach 0 5 4 (wit_node me) ([P_add_pp wit_pp True] @ [P_add (wit_prepare a) True]) P2"
    by (intro pc_reach.add [OF _ sl(2) _ _ 2]) (simp_all add: sl prim assms wit_node_sel)
  then have "pc_reach 0 5 4 (wit_node me) (([P_add_pp wit_pp True] @ [P_add (wit_prepare a) True]) @ [P_add (wit_prepare b) True]) P"
    by (rule pc_reach.add [OF _ sl(2) _ _ 3]) (simp_all add: sl prim assms wit_node_sel)
  then show ?thesis by simp
qed

theorem prepared_certificates_agree_witness:
  "\<exists>P1 P2 pp1 pp2. wit_pc 1 2 3 = Some P1 \<and> wit_pc 2 1 3 = Some P2 \<and> pc_pp P1 = Some pp1 \<and> pc_pp P2 = Some pp2 \<and>
     pp_digest pp1 = pp_digest pp2"
proof -
  from wit_pc_complete obtain P1 P2 where P: "wit_pc 1 2 3 = Some P1" "wit_pc 2 1 3 = Some P2"
    "pc_is_complete P1 = Some True" "pc_is_complete P2 = Some True" by (auto split: Option.bind_splits)
  have r: "pc_reach 0 5 4 (wit_node 1) [P_add_pp wit_pp True, P_add (wit_prepare 2) True, P_add (wit_prepare 3) True] P1"
    "pc_reach 0 5 4 (wit_node 2) [P_add_pp wit_pp True, P_add (wit_prepare 1) True, P_add (wit_prepare 3) True] P2"
    by (rule wit_pc_reach [OF P(1)], simp_all) (rule wit_pc_reach [OF P(2)], simp_all)
  have "\<exists>pp1 pp2. pc_pp P1 = Some pp1 \<and> pc_pp P2 = Some pp2 \<and> pp_digest pp1 = pp_digest pp2"
    by (rule prepared_certificates_agree [OF r wit_node_ok wit_node_ok _ _ _ _ _ _ _ _ P(3,4), where faulty = "{}"])
      (auto simp: wit_node_sel is_replica_def stated_def wit_pp_def wit_prepare_def Prepare_new_def Let_def)
  with P show ?thesis by blast
qed

end
