(* ===== verification/Status_Messages.thy ===== *)
theory Status_Messages
  imports Estimators
begin

text \<open>
  Status messages (\<^verbatim>\<open>Status.h\<close>, \<^verbatim>\<open>Status.cc\<close>): what a replica has, so that the others can send what it misses. The part after the
  fixed fields is one block of bytes: two bitmaps when the sender has the new view, otherwise a bitmap of view-change messages and a
  list of missing pre-prepares; the authenticator follows.
\<close>

definition Status_tag :: int where "Status_tag = 7"

record status = message +
  s_v :: view
  s_ls :: seqno
  s_le :: seqno
  s_id :: int
  s_sz :: int
  s_brsz :: int

definition sizeof_Status_rep :: int where "sizeof_Status_rep = 40"
definition sizeof_BR_info :: int where "sizeof_BR_info = 16"
definition sizeof_PP_info :: int where "sizeof_PP_info = 24"

definition vcs_size :: "build \<Rightarrow> int" where
  "vcs_size b = (Max_num_replicas b + 7) div 8"

definition status_fields :: "status \<Rightarrow> byte list" where
  "status_fields m = header_bytes m @ le_bytes 8 (s_v m) @ le_bytes 8 (s_ls m) @ le_bytes 8 (s_le m) @ le_bytes 4 (s_id m) @
     le_bytes 2 (s_sz m) @ le_bytes 2 (s_brsz m)"

definition has_nv_info :: "status \<Rightarrow> bool" where
  "has_nv_info m \<longleftrightarrow> m_extra m AND 1 \<noteq> 0"

definition has_nv_m :: "status \<Rightarrow> bool" where
  "has_nv_m m \<longleftrightarrow> m_extra m AND 2 \<noteq> 0"

section \<open>Construction\<close>

text \<open>The fields are written in place: \<open>buf\<close> is the scratch buffer after the fixed fields. \<^verbatim>\<open>bzero\<close> gets the size as a
  \<^verbatim>\<open>short\<close>, so a negative one is out of range.\<close>

definition Status_new :: "build \<Rightarrow> int \<Rightarrow> node \<Rightarrow> byte list \<Rightarrow> view \<Rightarrow> seqno \<Rightarrow> seqno \<Rightarrow> bool \<Rightarrow> bool \<Rightarrow> status option" where
  "Status_new b mx nd buf v ls le hnvi hnvm =
     (let m = \<lparr>m_tag = Status_tag, m_extra = (if hnvi then 1 else 0) + (if hnvm then 2 else 0), m_size = ALIGNED_SIZE mx, m_max = ALIGNED_SIZE mx,
                m_scratch = True, m_rest = buf, s_v = v, s_ls = ls, s_le = le, s_id = node_id nd, s_sz = 0, s_brsz = 0\<rparr>
      in if hnvi
         then let sz = to_int16 ((ls + max_out b - le + 7) sdiv 8)
              in if sz < 0 \<or> int (length buf) < 2 * sz then None
                 else Some (m\<lparr>s_sz := sz, m_rest := replicate (nat sz) 0 @ replicate (nat sz) 0 @ drop (2 * nat sz) buf\<rparr>)
         else Some (m\<lparr>m_rest := replicate (nat (vcs_size b)) 0 @ drop (nat (vcs_size b)) buf\<rparr>))"

text \<open>\<^verbatim>\<open>mark\<close> and \<^verbatim>\<open>test\<close> on the bitmap that starts at \<open>off\<close>.\<close>

definition st_mark :: "build \<Rightarrow> seqno \<Rightarrow> nat \<Rightarrow> status \<Rightarrow> status option" where
  "st_mark b n off m =
     (let offset = to_int32 (n - s_le m) in
      if offset > 0 \<and> offset \<le> max_out b
      then do { r \<leftarrow> Bits_set (m_rest m) (8 * off + nat offset); Some (m\<lparr>m_rest := r\<rparr>) }
      else Some m)"

definition st_test :: "build \<Rightarrow> seqno \<Rightarrow> nat \<Rightarrow> status \<Rightarrow> bool option" where
  "st_test b n off m =
     (let offset = to_int32 (n - s_le m) in
      if offset > 0 \<and> offset \<le> max_out b then Bits_test (m_rest m) (8 * off + nat offset) else Some False)"

definition mark_prepared :: "build \<Rightarrow> seqno \<Rightarrow> status \<Rightarrow> status option" where
  "mark_prepared b n m = do { th_assert (has_nv_info m); st_mark b n 0 m }"

definition mark_committed :: "build \<Rightarrow> seqno \<Rightarrow> status \<Rightarrow> status option" where
  "mark_committed b n m = do { th_assert (has_nv_info m); st_mark b n (nat (s_sz m)) m }"

definition st_is_prepared :: "build \<Rightarrow> seqno \<Rightarrow> status \<Rightarrow> bool option" where
  "st_is_prepared b n m = do { th_assert (has_nv_info m); st_test b n 0 m }"

definition st_is_committed :: "build \<Rightarrow> seqno \<Rightarrow> status \<Rightarrow> bool option" where
  "st_is_committed b n m = do { th_assert (has_nv_info m); st_test b n (nat (s_sz m)) m }"

definition mark_vcs :: "build \<Rightarrow> int \<Rightarrow> status \<Rightarrow> status option" where
  "mark_vcs b i m = do {
     th_assert (\<not> has_nv_info m);
     th_assert (i \<ge> 0 \<and> i < vcs_size b * 8);
     r \<leftarrow> Bits_set (m_rest m) (nat i);
     Some (m\<lparr>m_rest := r\<rparr>) }"

definition has_vc :: "build \<Rightarrow> int \<Rightarrow> status \<Rightarrow> bool option" where
  "has_vc b i m = do {
     th_assert (\<not> has_nv_info m);
     th_assert (i \<ge> 0 \<and> i < vcs_size b * 8);
     Bits_test (m_rest m) (nat i) }"

text \<open>The bytes of a \<^verbatim>\<open>PP_info\<close>; the map of missing big requests is always \<^verbatim>\<open>~0\<close>.\<close>

definition pp_info_bytes :: "view \<Rightarrow> int \<Rightarrow> bool \<Rightarrow> byte list" where
  "pp_info_bytes v n prf = le_bytes 8 v @ le_bytes 4 n @ le_bytes 4 (if prf then 1 else 0) @ le_bytes 8 (- 1)"

definition pps_at :: "build \<Rightarrow> int \<Rightarrow> nat" where
  "pps_at b k = nat (vcs_size b + k * sizeof_PP_info)"

definition append_pps :: "build \<Rightarrow> int \<Rightarrow> view \<Rightarrow> seqno \<Rightarrow> bool \<Rightarrow> status \<Rightarrow> status option" where
  "append_pps b mx v n prf m = do {
     th_assert (\<not> has_nv_info m);
     th_assert (sizeof_Status_rep + int (pps_at b (s_sz m)) < mx);
     if length (m_rest m) < pps_at b (s_sz m + 1) then None
     else Some (m\<lparr>m_rest := put_bytes (m_rest m) (pps_at b (s_sz m)) (pp_info_bytes v (to_int32 (n - s_ls m)) prf), s_sz := to_int16 (s_sz m + 1)\<rparr>) }"

definition st_old_size :: "build \<Rightarrow> status \<Rightarrow> int" where
  "st_old_size b m = sizeof_Status_rep +
     (if \<not> has_nv_info m then vcs_size b + s_sz m * sizeof_PP_info else s_sz m * 2 + s_brsz m * sizeof_BR_info)"

definition status_bytes :: "build \<Rightarrow> status \<Rightarrow> byte list" where
  "status_bytes b m = status_fields m @ take (nat (st_old_size b m - sizeof_Status_rep)) (m_rest m)"

definition st_authenticate :: "build \<Rightarrow> crypto \<Rightarrow> node \<Rightarrow> status \<Rightarrow> status option" where
  "st_authenticate b cr nd m = do {
     let sz = st_old_size b m;
     m1 \<leftarrow> set_size (nat sizeof_Status_rep) m (sz + auth_size nd (- 1));
     Some (m1\<lparr>m_rest := put_bytes (m_rest m1) (nat (sz - sizeof_Status_rep)) (gen_auth_out (cr_H cr) nd (status_bytes b m1))\<rparr>) }"

section \<open>Receiving\<close>

definition Status_verify :: "build \<Rightarrow> crypto \<Rightarrow> node \<Rightarrow> status \<Rightarrow> bool option" where
  "Status_verify b cr nd m =
     (if \<not> is_replica nd (s_id m) \<or> s_id m = node_id nd \<or> s_v m < 0 then Some False
      else if m_size m - st_old_size b m < auth_size nd (s_id m) then Some False
      else do {
        ok \<leftarrow> verify_auth_in (cr_sc cr) (cr_H cr) nd (s_id m) (status_bytes b m) (drop (nat (st_old_size b m - sizeof_Status_rep)) (m_rest m));
        if \<not> ok then Some False
        else
          let d = to_int32 (s_le m - s_ls m) in
          if d < 0 \<or> d > max_out b then Some False
          else if \<not> has_nv_info m then Some (\<not> (s_sz m < 0 \<or> s_sz m > max_out b))
          else Some (s_sz m = (max_out b - d + 7) sdiv 8) })"

definition Status_convert :: "'a message_scheme \<Rightarrow> bool" where
  "Status_convert m = has_tag m Status_tag sizeof_Status_rep"

text \<open>The missing pre-prepares in the order of \<^verbatim>\<open>PPS_iter\<close>: minimum view, number, whether a proof is wanted.\<close>

definition pps_entry :: "build \<Rightarrow> status \<Rightarrow> nat \<Rightarrow> (view \<times> seqno \<times> bool) option" where
  "pps_entry b m k =
     (let e = drop (pps_at b (int k)) (m_rest m) in
      if length e < nat sizeof_PP_info then None
      else Some (le_sint (take 8 e), le_sint (take 4 (drop 8 e)) + s_ls m, le_sint (take 4 (drop 12 e)) \<noteq> 0))"

definition pps_list :: "build \<Rightarrow> status \<Rightarrow> (view \<times> seqno \<times> bool) list option" where
  "pps_list b m = do {
     th_assert (\<not> has_nv_info m);
     fold_opt (\<lambda>k xs. do { x \<leftarrow> pps_entry b m k; Some (xs @ [x]) }) [0..<nat (s_sz m)] [] }"

section \<open>The bitmaps\<close>

text \<open>The loop of \<^verbatim>\<open>send_status\<close> over the numbers above the last executed one; \<open>P\<close> and \<open>C\<close> say what has prepared and committed.\<close>

definition mark_all :: "build \<Rightarrow> (seqno \<Rightarrow> bool) \<Rightarrow> (seqno \<Rightarrow> bool) \<Rightarrow> seqno list \<Rightarrow> status \<Rightarrow> status option" where
  "mark_all b P C ns m = fold_opt (\<lambda>n m.
     if P n then do {
       m1 \<leftarrow> mark_prepared b n m;
       if C n then mark_committed b n m1 else Some m1 }
     else Some m) ns m"

definition bit_at :: "byte list \<Rightarrow> nat \<Rightarrow> bool" where
  "bit_at buf k = bit (buf ! (k div 8)) (k mod 8)"

lemma and_pow_byte: "(x AND 2 ^ k \<noteq> (0::byte)) = bit x k"
  using and_exp_eq_0_iff_not_bit by blast

lemma bit_or_pow_byte: "j < 8 \<Longrightarrow> bit (x OR push_bit i (1::byte)) j \<longleftrightarrow> j = i \<or> bit x j"
  by (auto simp: bit_or_iff bit_push_bit_iff bit_1_iff push_bit_of_1 bit_exp_iff)

lemma Bits_test_bit_at: "i div 8 < length buf \<Longrightarrow> Bits_test buf i = Some (bit_at buf i)"
  by (simp add: Bits_test_def arr_get_def bit_at_def and_pow_byte)

lemma bit_at_update:
  assumes "i div 8 < length buf"
  shows "bit_at (buf[i div 8 := buf ! (i div 8) OR push_bit (i mod 8) 1]) k \<longleftrightarrow> k = i \<or> bit_at buf k"
proof (cases "k div 8 = i div 8")
  case True
  moreover have "k = 8 * (k div 8) + k mod 8" "i = 8 * (i div 8) + i mod 8" by simp_all
  ultimately have "k = i \<longleftrightarrow> k mod 8 = i mod 8" by linarith
  with True show ?thesis using assms bit_or_pow_byte [of "k mod 8" "buf ! (i div 8)" "i mod 8"] by (simp add: bit_at_def)
next
  case False
  moreover from False have "k \<noteq> i" by auto
  ultimately show ?thesis by (simp add: bit_at_def)
qed

lemma Bits_set_bit_at:
  assumes "i div 8 < length buf"
  shows "\<exists>buf'. Bits_set buf i = Some buf' \<and> length buf' = length buf \<and> (\<forall>k. bit_at buf' k \<longleftrightarrow> k = i \<or> bit_at buf k)"
  using assms bit_at_update [OF assms] by (simp add: Bits_set_def arr_get_def arr_set_def)

text \<open>The bits that a run of the loop has set: the bitmap of commits starts \<open>8 * sz\<close> bits after that of prepares, so the number
  at distance \<open>8 * sz\<close> from the last executed one is outside its bitmap.\<close>

definition marked :: "(seqno \<Rightarrow> bool) \<Rightarrow> (seqno \<Rightarrow> bool) \<Rightarrow> status \<Rightarrow> seqno set \<Rightarrow> nat \<Rightarrow> bool" where
  "marked P C m S k \<longleftrightarrow> (\<exists>n \<in> S. P n \<and> (int k = n - s_le m \<or> C n \<and> int k = 8 * s_sz m + (n - s_le m)))"

lemma st_mark_ok:
  assumes "0 < n - s_le m" "n - s_le m \<le> max_out b" "max_out b \<le> 65536" "off + nat (n - s_le m) div 8 < length (m_rest m)"
  shows "\<exists>r. st_mark b n off m = Some (m\<lparr>m_rest := r\<rparr>) \<and> length r = length (m_rest m) \<and>
    (\<forall>k. bit_at r k \<longleftrightarrow> int k = int (8 * off) + (n - s_le m) \<or> bit_at (m_rest m) k)"
proof -
  have o: "to_int32 (n - s_le m) = n - s_le m" using assms(1-3) by (intro to_int32_id) simp_all
  have "(8 * off + nat (n - s_le m)) div 8 < length (m_rest m)" using assms(4) by simp
  from Bits_set_bit_at [OF this] obtain r where r: "Bits_set (m_rest m) (8 * off + nat (n - s_le m)) = Some r" "length r = length (m_rest m)"
    "\<forall>k. bit_at r k \<longleftrightarrow> k = 8 * off + nat (n - s_le m) \<or> bit_at (m_rest m) k"
    by blast
  have "(k = 8 * off + nat (n - s_le m)) = (int k = int (8 * off) + (n - s_le m))" for k
    using assms(1) by linarith
  then show ?thesis using r assms(1,2) by (auto simp: st_mark_def Let_def o)
qed

definition st_room :: "build \<Rightarrow> status \<Rightarrow> seqno set \<Rightarrow> bool" where
  "st_room b m S \<longleftrightarrow> has_nv_info m \<and> max_out b \<le> 65536 \<and> 0 \<le> s_sz m \<and> 2 * s_sz m < int (length (m_rest m)) \<and>
     (\<forall>n \<in> S. 0 < n - s_le m \<and> n - s_le m \<le> max_out b \<and> n - s_le m \<le> 8 * s_sz m)"

lemma mark_one_ok:
  assumes "st_room b m {n}"
  shows "\<exists>r. (if P n then do { m1 \<leftarrow> mark_prepared b n m; if C n then mark_committed b n m1 else Some m1 } else Some m) = Some (m\<lparr>m_rest := r\<rparr>) \<and>
     length r = length (m_rest m) \<and> (\<forall>k. bit_at r k \<longleftrightarrow> marked P C m {n} k \<or> bit_at (m_rest m) k)"
proof (cases "P n")
  case True
  have h: "has_nv_info m" "max_out b \<le> 65536" "0 \<le> s_sz m" "2 * s_sz m < int (length (m_rest m))" "0 < n - s_le m"
    "n - s_le m \<le> max_out b" "n - s_le m \<le> 8 * s_sz m"
    using assms by (auto simp: st_room_def)
  have d: "nat (n - s_le m) div 8 \<le> nat (s_sz m)" using h(7) by linarith
  obtain r where r: "st_mark b n 0 m = Some (m\<lparr>m_rest := r\<rparr>)" "length r = length (m_rest m)"
    "\<forall>k. bit_at r k \<longleftrightarrow> int k = n - s_le m \<or> bit_at (m_rest m) k"
  proof -
    have "0 + nat (n - s_le m) div 8 < length (m_rest m)" using h(3,4) d by linarith
    from st_mark_ok [OF h(5,6,2) this] show ?thesis using that by (elim exE conjE) simp
  qed
  let ?m = "m\<lparr>m_rest := r\<rparr>"
  have "\<exists>r2. st_mark b n (nat (s_sz ?m)) ?m = Some (?m\<lparr>m_rest := r2\<rparr>) \<and> length r2 = length (m_rest ?m) \<and>
      (\<forall>k. bit_at r2 k \<longleftrightarrow> int k = int (8 * nat (s_sz ?m)) + (n - s_le ?m) \<or> bit_at (m_rest ?m) k)"
  proof (rule st_mark_ok)
    have "nat (s_sz m) + nat (n - s_le m) div 8 < length r" using h(3,4) d r(2) by linarith
    then show "nat (s_sz ?m) + nat (n - s_le ?m) div 8 < length (m_rest ?m)" by simp
  qed (use h in simp_all)
  then obtain r2 where r2: "st_mark b n (nat (s_sz m)) ?m = Some (?m\<lparr>m_rest := r2\<rparr>)" "length r2 = length (m_rest m)"
    "\<forall>k. bit_at r2 k \<longleftrightarrow> int k = int (8 * nat (s_sz m)) + (n - s_le m) \<or> bit_at r k"
    using r(2) by (elim exE conjE) simp
  have nv: "has_nv_info ?m" using h(1) by (simp add: has_nv_info_def)
  have mp: "mark_prepared b n m = Some ?m" using h(1) r(1) by (simp add: mark_prepared_def)
  have mc: "mark_committed b n ?m = Some (m\<lparr>m_rest := r2\<rparr>)" using nv r2(1) by (simp add: mark_committed_def)
  have b2: "bit_at r2 k \<longleftrightarrow> int k = 8 * s_sz m + (n - s_le m) \<or> int k = n - s_le m \<or> bit_at (m_rest m) k" for k
    using r2(3) r(3) h(3) by simp
  show ?thesis
  proof (cases "C n")
    case c: True
    then have "\<forall>k. bit_at r2 k \<longleftrightarrow> marked P C m {n} k \<or> bit_at (m_rest m) k" unfolding b2 using True by (simp add: marked_def disj_ac)
    moreover have "do { m1 \<leftarrow> mark_prepared b n m; if C n then mark_committed b n m1 else Some m1 } = Some (m\<lparr>m_rest := r2\<rparr>)"
      unfolding mp using c mc by simp
    ultimately show ?thesis using True r2(2) by metis
  next
    case c: False
    then have "\<forall>k. bit_at r k \<longleftrightarrow> marked P C m {n} k \<or> bit_at (m_rest m) k" using True r(3) by (simp add: marked_def)
    moreover have "do { m1 \<leftarrow> mark_prepared b n m; if C n then mark_committed b n m1 else Some m1 } = Some ?m"
      unfolding mp using c by simp
    ultimately show ?thesis using True r(2) by metis
  qed
next
  case False
  then show ?thesis by (intro exI [of _ "m_rest m"]) (simp add: marked_def)
qed

lemma mark_all_ok:
  assumes "st_room b m (set ns)"
  shows "\<exists>r. mark_all b P C ns m = Some (m\<lparr>m_rest := r\<rparr>) \<and> length r = length (m_rest m) \<and>
    (\<forall>k. bit_at r k \<longleftrightarrow> marked P C m (set ns) k \<or> bit_at (m_rest m) k)"
  using assms
proof (induction ns arbitrary: m)
  case Nil
  then show ?case by (intro exI [of _ "m_rest m"]) (simp add: mark_all_def marked_def)
next
  case (Cons n ns)
  have "st_room b m {n}" using Cons.prems by (simp add: st_room_def)
  from mark_one_ok [OF this, of P C] obtain r where
    r: "(if P n then do { m1 \<leftarrow> mark_prepared b n m; if C n then mark_committed b n m1 else Some m1 } else Some m) = Some (m\<lparr>m_rest := r\<rparr>)"
      "length r = length (m_rest m)" "\<forall>k. bit_at r k \<longleftrightarrow> marked P C m {n} k \<or> bit_at (m_rest m) k"
    by blast
  have "st_room b (m\<lparr>m_rest := r\<rparr>) (set ns)" using Cons.prems r(2) by (simp add: st_room_def has_nv_info_def)
  from Cons.IH [OF this] obtain r2 where r2: "mark_all b P C ns (m\<lparr>m_rest := r\<rparr>) = Some (m\<lparr>m_rest := r2\<rparr>)" "length r2 = length r"
    "\<forall>k. bit_at r2 k \<longleftrightarrow> marked P C m (set ns) k \<or> bit_at r k"
    by (auto simp: marked_def)
  have "mark_all b P C (n # ns) m = Some (m\<lparr>m_rest := r2\<rparr>)"
    using r(1) r2(1) by (simp only: mark_all_def fold_opt.simps r(1) bind.bind_lunit)
  moreover have "marked P C m (set (n # ns)) k \<longleftrightarrow> marked P C m {n} k \<or> marked P C m (set ns) k" for k
    by (auto simp: marked_def)
  ultimately show ?case using r(2,3) r2(2,3) by auto
qed

lemma st_test_ok:
  assumes "0 < n - s_le m" "n - s_le m \<le> max_out b" "max_out b \<le> 65536" "off + nat (n - s_le m) div 8 < length (m_rest m)"
  shows "st_test b n off m = Some (bit_at (m_rest m) (8 * off + nat (n - s_le m)))"
proof -
  have "to_int32 (n - s_le m) = n - s_le m" using assms(1-3) by (intro to_int32_id) simp_all
  then show ?thesis using assms by (simp add: st_test_def Bits_test_bit_at)
qed

text \<open>The message as \<^verbatim>\<open>send_status\<close> builds it when the replica has the new view.\<close>

definition status_with_nv :: "build \<Rightarrow> int \<Rightarrow> crypto \<Rightarrow> node \<Rightarrow> byte list \<Rightarrow> view \<Rightarrow> seqno \<Rightarrow> seqno \<Rightarrow> bool \<Rightarrow> (seqno \<Rightarrow> bool) \<Rightarrow> (seqno \<Rightarrow> bool) \<Rightarrow>
    status option" where
  "status_with_nv b mx cr nd buf v ls le hnvm P C = do {
     m0 \<leftarrow> Status_new b mx nd buf v ls le True hnvm;
     m1 \<leftarrow> mark_all b P C [le + 1..to_int32 (ls + max_out b)] m0;
     st_authenticate b cr nd m1 }"

definition status_ok :: "build \<Rightarrow> int \<Rightarrow> node \<Rightarrow> byte list \<Rightarrow> seqno \<Rightarrow> seqno \<Rightarrow> bool" where
  "status_ok b mx nd buf ls le \<longleftrightarrow> build_ok b \<and> max_out b \<le> 65536 \<and> 0 \<le> ls \<and> ls \<le> le \<and> le \<le> ls + max_out b \<and> ls < 2147000000 \<and>
     int (length buf) = mx - sizeof_Status_rep \<and> 0 \<le> auth_size nd (- 1) \<and>
     sizeof_Status_rep + 2 * ((max_out b + 7) div 8) + auth_size nd (- 1) + 8 \<le> mx"

lemma Status_new_with_nv:
  assumes "status_ok b mx nd buf ls le"
  shows "\<exists>m. Status_new b mx nd buf v ls le True hnvm = Some m \<and> has_nv_info m \<and> s_sz m = (ls + max_out b - le + 7) div 8 \<and> s_le m = le \<and> s_ls m = ls \<and>
    s_brsz m = 0 \<and> m_max m = ALIGNED_SIZE mx \<and> length (m_rest m) = length buf \<and> (\<forall>k < 16 * nat (s_sz m). \<not> bit_at (m_rest m) k)"
proof -
  let ?s = "(ls + max_out b - le + 7) div 8"
  have h: "0 \<le> ls + max_out b - le" "ls + max_out b - le \<le> max_out b" "max_out b \<le> 65536" "int (length buf) = mx - 40" "0 \<le> auth_size nd (- 1)"
    "40 + 2 * ((max_out b + 7) div 8) + auth_size nd (- 1) + 8 \<le> mx"
    using assms by (simp_all add: status_ok_def sizeof_Status_rep_def)
  have s: "0 \<le> ?s" "?s \<le> (max_out b + 7) div 8" "?s < 32768" using h(1-3) by linarith+
  have sd: "(ls + max_out b - le + 7) sdiv 8 = ?s" using h(1) by (intro sdiv_nonneg) simp_all
  have t: "to_int16 ?s = ?s" using s by (intro to_int16_id) simp_all
  have len: "2 * ?s \<le> int (length buf)" using h(4-6) s(2) by linarith
  have e: "(if hnvm then 2 else 0) + 1 AND 1 \<noteq> (0::int)" by simp
  have "\<not> bit_at (replicate (nat ?s) 0 @ replicate (nat ?s) 0 @ drop (2 * nat ?s) buf) k" if "k < 16 * nat ?s" for k
  proof -
    have "k div 8 < 2 * nat ?s" using that by linarith
    then have "(replicate (nat ?s) 0 @ replicate (nat ?s) 0 @ drop (2 * nat ?s) buf) ! (k div 8) = 0"
      by (auto simp: nth_append)
    then show ?thesis by (simp add: bit_at_def)
  qed
  then show ?thesis using s(1) len e by (auto simp: Status_new_def Let_def sd t has_nv_info_def nat_le_iff)
qed

lemma ALIGNED_SIZE_mono: "x + 8 \<le> y \<Longrightarrow> ALIGNED_SIZE x \<le> ALIGNED_SIZE y"
  using aligned_size_bounds [of x] aligned_size_bounds [of y] by linarith

lemma status_sizes:
  assumes "status_ok b mx nd buf ls le"
  shows "0 \<le> (ls + max_out b - le + 7) div 8" "2 * ((ls + max_out b - le + 7) div 8) + auth_size nd (- 1) + 8 \<le> int (length buf)"
    "ls + max_out b - le \<le> 8 * ((ls + max_out b - le + 7) div 8)" "to_int32 (ls + max_out b) = ls + max_out b"
    "ALIGNED_SIZE (40 + 2 * ((ls + max_out b - le + 7) div 8) + auth_size nd (- 1)) \<le> ALIGNED_SIZE mx"
proof -
  let ?s = "(ls + max_out b - le + 7) div 8"
  have h: "0 \<le> ls + max_out b - le" "ls + max_out b - le \<le> max_out b" "max_out b \<le> 65536" "int (length buf) = mx - 40" "0 \<le> auth_size nd (- 1)"
    "40 + 2 * ((max_out b + 7) div 8) + auth_size nd (- 1) + 8 \<le> mx" "0 \<le> ls" "ls < 2147000000" "0 < max_out b"
    using assms by (auto simp: status_ok_def sizeof_Status_rep_def build_ok_def)
  show 1: "0 \<le> ?s" and 3: "ls + max_out b - le \<le> 8 * ?s" using h(1) by linarith+
  have "?s \<le> (max_out b + 7) div 8" using h(2) by (intro zdiv_mono1) simp_all
  then show 2: "2 * ?s + auth_size nd (- 1) + 8 \<le> int (length buf)" using h(4,6) by linarith
  show "to_int32 (ls + max_out b) = ls + max_out b" using h by (intro to_int32_id) simp_all
  show "ALIGNED_SIZE (40 + 2 * ?s + auth_size nd (- 1)) \<le> ALIGNED_SIZE mx"
    using 2 h(4) by (intro ALIGNED_SIZE_mono) simp
qed

text \<open>The parts of the message before authentication.\<close>

lemma status_marked:
  assumes "status_ok b mx nd buf ls le"
  shows "\<exists>m r. Status_new b mx nd buf v ls le True hnvm = Some m \<and> mark_all b P C [le + 1..to_int32 (ls + max_out b)] m = Some (m\<lparr>m_rest := r\<rparr>) \<and>
    has_nv_info m \<and> s_sz m = (ls + max_out b - le + 7) div 8 \<and> s_le m = le \<and> s_ls m = ls \<and> s_brsz m = 0 \<and> m_max m = ALIGNED_SIZE mx \<and>
    length r = length buf \<and> length (m_rest m) = length buf \<and> (\<forall>k. bit_at r k \<longleftrightarrow> marked P C m {le <..ls + max_out b} k \<or> bit_at (m_rest m) k) \<and>
    (\<forall>k < 16 * nat (s_sz m). \<not> bit_at (m_rest m) k)"
proof -
  note z = status_sizes [OF assms]
  obtain m where m: "Status_new b mx nd buf v ls le True hnvm = Some m" "has_nv_info m" "s_sz m = (ls + max_out b - le + 7) div 8" "s_le m = le" "s_ls m = ls"
    "s_brsz m = 0" "m_max m = ALIGNED_SIZE mx" "length (m_rest m) = length buf" "\<forall>k < 16 * nat (s_sz m). \<not> bit_at (m_rest m) k"
    using Status_new_with_nv [OF assms] by blast
  have S: "set [le + 1..to_int32 (ls + max_out b)] = {le <..ls + max_out b}" by (auto simp: z(4))
  have "st_room b m (set [le + 1..to_int32 (ls + max_out b)])"
    unfolding S using m assms z by (auto simp: st_room_def status_ok_def)
  from mark_all_ok [OF this, of P C] m S show ?thesis by auto
qed

text \<open>The bytes after the fixed fields once the size is set, and the authenticator.\<close>

definition st_sized :: "int \<Rightarrow> int \<Rightarrow> byte list \<Rightarrow> byte list" where
  "st_sized sz au r = take (nat (40 + 2 * sz + au) - 40) r @ replicate (nat (ALIGNED_SIZE (40 + 2 * sz + au)) - nat (40 + 2 * sz + au)) 0 @
     drop (nat (ALIGNED_SIZE (40 + 2 * sz + au)) - 40) r"

definition st_auth :: "crypto \<Rightarrow> node \<Rightarrow> status \<Rightarrow> byte list" where
  "st_auth cr nd m = gen_auth_out (cr_H cr) nd
     (status_fields (m\<lparr>m_size := ALIGNED_SIZE (40 + 2 * s_sz m + auth_size nd (- 1))\<rparr>) @ take (nat (2 * s_sz m)) (m_rest m))"

lemma st_authenticate_nv:
  assumes "has_nv_info m" "s_brsz m = 0" "0 \<le> s_sz m" "0 \<le> auth_size nd (- 1)" "ALIGNED_SIZE (40 + 2 * s_sz m + auth_size nd (- 1)) \<le> m_max m"
    "2 * s_sz m + auth_size nd (- 1) \<le> int (length (m_rest m))"
  shows "st_authenticate b cr nd m = Some (m\<lparr>m_size := ALIGNED_SIZE (40 + 2 * s_sz m + auth_size nd (- 1)),
    m_rest := put_bytes (st_sized (s_sz m) (auth_size nd (- 1)) (m_rest m)) (nat (2 * s_sz m)) (st_auth cr nd m)\<rparr>)"
proof -
  let ?au = "auth_size nd (- 1)" and ?sz = "s_sz m"
  let ?m1 = "m\<lparr>m_size := ALIGNED_SIZE (40 + 2 * ?sz + ?au), m_rest := st_sized ?sz ?au (m_rest m)\<rparr>"
  have old: "st_old_size b m = 40 + 2 * ?sz" using assms(1,2) by (simp add: st_old_size_def sizeof_Status_rep_def)
  have old1: "st_old_size b ?m1 = 40 + 2 * ?sz" using assms(1,2) by (simp add: st_old_size_def sizeof_Status_rep_def has_nv_info_def)
  have ss: "set_size (nat sizeof_Status_rep) m (40 + 2 * ?sz + ?au) = Some ?m1"
    using assms(5) by (simp add: set_size_def st_sized_def sizeof_Status_rep_def Let_def)
  have "nat (2 * ?sz) \<le> nat (40 + 2 * ?sz + ?au) - 40" using assms(3,4) by linarith
  then have "take (nat (2 * ?sz)) (st_sized ?sz ?au (m_rest m)) = take (nat (2 * ?sz)) (m_rest m)"
    using assms(6) by (simp add: st_sized_def min_def) linarith
  then have "gen_auth_out (cr_H cr) nd (status_bytes b ?m1) = st_auth cr nd m"
    using old1 by (simp add: status_bytes_def st_auth_def sizeof_Status_rep_def status_fields_def header_bytes_def)
  then show ?thesis using ss by (simp add: st_authenticate_def old sizeof_Status_rep_def)
qed

lemma bit_at_take: "k < 8 * q \<Longrightarrow> take q xs = take q ys \<Longrightarrow> bit_at xs k = bit_at ys k"
  by (metis bit_at_def less_mult_imp_div_less mult.commute nth_take)

lemma length_put_bytes: "off \<le> length buf \<Longrightarrow> length buf \<le> length (put_bytes buf off bs)"
  by (simp add: put_bytes_def)

lemma length_st_sized: "0 \<le> sz \<Longrightarrow> 0 \<le> au \<Longrightarrow> 2 * sz + au + 8 \<le> int (length r) \<Longrightarrow> length (st_sized sz au r) = length r"
  using aligned_size_bounds [of "40 + 2 * sz + au"] by (simp add: st_sized_def) linarith

lemma take_st_sized: "0 \<le> sz \<Longrightarrow> 0 \<le> au \<Longrightarrow> 2 * sz + au \<le> int (length r) \<Longrightarrow> take (nat (2 * sz)) (st_sized sz au r) = take (nat (2 * sz)) r"
  by (simp add: st_sized_def min_def) linarith

text \<open>What \<^verbatim>\<open>send_status\<close> sends when the replica has the new view.\<close>

lemma status_with_nv_bits:
  assumes "status_ok b mx nd buf ls le"
  shows "\<exists>m. status_with_nv b mx cr nd buf v ls le hnvm P C = Some m \<and> has_nv_info m \<and>
    s_sz m = (ls + max_out b - le + 7) div 8 \<and> s_le m = le \<and> 2 * s_sz m < int (length (m_rest m)) \<and>
    (\<forall>k < 16 * nat (s_sz m). bit_at (m_rest m) k \<longleftrightarrow> marked P C m {le <..ls + max_out b} k)"
proof -
  let ?au = "auth_size nd (- 1)" and ?S = "{le <..ls + max_out b}"
  note z = status_sizes [OF assms]
  have au: "0 \<le> ?au" using assms by (simp add: status_ok_def)
  obtain m0 r where m0: "Status_new b mx nd buf v ls le True hnvm = Some m0"
    "mark_all b P C [le + 1..to_int32 (ls + max_out b)] m0 = Some (m0\<lparr>m_rest := r\<rparr>)" "has_nv_info m0"
    "s_sz m0 = (ls + max_out b - le + 7) div 8" "s_le m0 = le" "s_brsz m0 = 0" "m_max m0 = ALIGNED_SIZE mx" "length r = length buf"
    and bits: "\<forall>k. bit_at r k \<longleftrightarrow> marked P C m0 ?S k \<or> bit_at (m_rest m0) k" "\<forall>k < 16 * nat (s_sz m0). \<not> bit_at (m_rest m0) k"
    using status_marked [OF assms, of v hnvm P C] by blast
  let ?m = "m0\<lparr>m_rest := r\<rparr>" and ?sz = "s_sz m0"
  let ?rest = "put_bytes (st_sized ?sz ?au r) (nat (2 * ?sz)) (st_auth cr nd ?m)"
  let ?f = "?m\<lparr>m_size := ALIGNED_SIZE (40 + 2 * ?sz + ?au), m_rest := ?rest\<rparr>"
  have sz: "0 \<le> ?sz" "2 * ?sz + ?au + 8 \<le> int (length r)" using z(1,2) m0(4,8) by simp_all
  have "st_authenticate b cr nd ?m = Some (?m\<lparr>m_size := ALIGNED_SIZE (40 + 2 * s_sz ?m + ?au),
      m_rest := put_bytes (st_sized (s_sz ?m) ?au (m_rest ?m)) (nat (2 * s_sz ?m)) (st_auth cr nd ?m)\<rparr>)"
    by (rule st_authenticate_nv) (use m0 z(5) sz au in \<open>simp_all add: has_nv_info_def\<close>)
  then have res: "status_with_nv b mx cr nd buf v ls le hnvm P C = Some ?f" using m0(1,2) by (simp add: status_with_nv_def)
  have len: "length (st_sized ?sz ?au r) = length r" by (rule length_st_sized [OF sz(1) au sz(2)])
  have "nat (2 * ?sz) \<le> length (st_sized ?sz ?au r)" using len sz au by linarith
  then have "take (nat (2 * ?sz)) ?rest = take (nat (2 * ?sz)) (st_sized ?sz ?au r)" "length r \<le> length ?rest"
    using length_put_bytes len by (simp_all add: put_bytes_def)
  moreover have "take (nat (2 * ?sz)) (st_sized ?sz ?au r) = take (nat (2 * ?sz)) r" using sz au by (intro take_st_sized) simp_all
  ultimately have tk: "take (nat (2 * ?sz)) ?rest = take (nat (2 * ?sz)) r" and ln: "length r \<le> length ?rest" by simp_all
  have "bit_at ?rest k \<longleftrightarrow> marked P C ?f ?S k" if "k < 16 * nat ?sz" for k
    using bit_at_take [OF _ tk, of k] bits that sz(1) by (simp add: marked_def nat_mult_distrib)
  then show ?thesis
    using res m0(3-5) ln sz au by (intro exI [of _ ?f]) (auto simp: has_nv_info_def)
qed

text \<open>C14: the bitmaps of a status message read back what was marked. For every number above the last executed one and in the window, the
  receiver reads that the number has prepared exactly when the sender had marked it, and the same for commits, except for the number
  whose distance from the last executed one is the number of bits in the bitmap.\<close>

theorem status_bitmaps_read_back:
  assumes "status_ok b mx nd buf ls le" "le < n" "n \<le> ls + max_out b"
  shows "\<exists>m. status_with_nv b mx cr nd buf v ls le hnvm P C = Some m \<and> st_is_prepared b n m = Some (P n) \<and>
    (n - le < 8 * s_sz m \<longrightarrow> st_is_committed b n m = Some (P n \<and> C n))"
proof -
  let ?S = "{le <..ls + max_out b}"
  note z = status_sizes [OF assms(1)]
  obtain m where m: "status_with_nv b mx cr nd buf v ls le hnvm P C = Some m" "has_nv_info m"
    "s_sz m = (ls + max_out b - le + 7) div 8" "s_le m = le" "2 * s_sz m < int (length (m_rest m))"
    and bits: "\<And>k. k < 16 * nat (s_sz m) \<Longrightarrow> bit_at (m_rest m) k \<longleftrightarrow> marked P C m ?S k"
    using status_with_nv_bits [OF assms(1), of cr v hnvm P C] by blast
  have b: "max_out b \<le> 65536" "n - le \<le> max_out b" "n - le \<le> 8 * s_sz m" "0 < n - le" using assms z(3) m(3) by (auto simp: status_ok_def)
  have "0 + nat (n - s_le m) div 8 < length (m_rest m)" using b m(4,5) by linarith
  then have "st_test b n 0 m = Some (bit_at (m_rest m) (nat (n - le)))" using st_test_ok [of n m b 0] b m(4) by simp
  moreover have "marked P C m ?S (nat (n - le)) \<longleftrightarrow> P n" using assms(2,3) b m(3,4) z(3) by (auto simp: marked_def)
  moreover have "nat (n - le) < 16 * nat (s_sz m)" using b by linarith
  ultimately have 1: "st_is_prepared b n m = Some (P n)" using bits m(2) by (simp add: st_is_prepared_def)
  have "st_is_committed b n m = Some (P n \<and> C n)" if lt: "n - le < 8 * s_sz m"
  proof -
    have "nat (s_sz m) + nat (n - s_le m) div 8 < length (m_rest m)" using lt b m(4,5) by linarith
    then have "st_test b n (nat (s_sz m)) m = Some (bit_at (m_rest m) (8 * nat (s_sz m) + nat (n - le)))"
      using st_test_ok [of n m b "nat (s_sz m)"] b m(4) by simp
    moreover have "marked P C m ?S (8 * nat (s_sz m) + nat (n - le)) \<longleftrightarrow> P n \<and> C n" using assms(2,3) b m(3,4) z(1,3) by (auto simp: marked_def)
    moreover have "8 * nat (s_sz m) + nat (n - le) < 16 * nat (s_sz m)" using lt b by linarith
    ultimately show ?thesis using bits m(2) by (simp add: st_is_committed_def)
  qed
  with 1 m(1) show ?thesis by blast
qed

theorem status_bitmaps_read_back_witness:
  "status_ok default_build 9000 (wit_node 0) (replicate 8960 0) 0 0 \<and>
   (\<exists>m. status_with_nv default_build 9000 wit_crypto (wit_node 0) (replicate 8960 0) 0 0 0 True (\<lambda>n. n = 7) (\<lambda>n. True) = Some m \<and>
     st_is_prepared default_build 7 m = Some True \<and> (st_is_committed default_build 7 m = Some True \<or> 8 * s_sz m \<le> 7))"
proof -
  have "status_ok default_build 9000 (wit_node 0) (replicate 8960 0) 0 0"
    using default_build_ok by (simp add: status_ok_def sizeof_Status_rep_def auth_size_def wit_node_def default_build_def HMAC_size_def)
  with status_bitmaps_read_back [OF this, of 7 wit_crypto 0 True "\<lambda>n. n = 7" "\<lambda>n. True"] show ?thesis
    by (auto simp: default_build_def)
qed

lemma byte_bits_eq: "(\<And>j. j < 8 \<Longrightarrow> bit x j \<longleftrightarrow> bit y j) \<Longrightarrow> x = (y::byte)"
  by (rule bit_word_eqI) simp

lemma bit_at_eq_update:
  assumes "length xs = length ys" "q < length ys" "\<And>k. k div 8 \<noteq> q \<Longrightarrow> bit_at xs k \<longleftrightarrow> bit_at ys k"
  shows "xs = ys[q := xs ! q]"
proof (rule nth_equalityI)
  fix i
  assume i: "i < length xs"
  show "xs ! i = ys[q := xs ! q] ! i"
  proof (cases "i = q")
    case False
    have "bit (xs ! i) j \<longleftrightarrow> bit (ys ! i) j" if "j < 8" for j
      using assms(3) [of "8 * i + j"] that False by (simp add: bit_at_def)
    then have "xs ! i = ys ! i" by (rule byte_bits_eq)
    then show ?thesis using False by simp
  qed (use assms(2) in simp)
qed (use assms(1) in simp)

lemma st_sized_update:
  assumes "0 \<le> sz" "0 < au" "2 * sz + au \<le> int (length r)" "q = nat (2 * sz)"
  shows "st_sized sz au (r[q := x]) = (st_sized sz au r)[q := x]"
proof -
  have "q < nat (40 + 2 * sz + au) - 40" "q < nat (ALIGNED_SIZE (40 + 2 * sz + au)) - 40" "q < length r"
    using assms aligned_size_bounds [of "40 + 2 * sz + au"] by linarith+
  then show ?thesis by (simp add: st_sized_def take_update_swap list_update_append1 drop_update_cancel)
qed

lemma put_bytes_update: "bs \<noteq> [] \<Longrightarrow> put_bytes (buf[q := x]) q bs = put_bytes buf q bs"
  by (cases bs) (simp_all add: put_bytes_def)

text \<open>In the excepted case, which is that of a replica with nothing executed after its stable checkpoint, the commit of the last number of the
  window is not in the message: its bit is the first one after the bitmaps, where the authenticator goes.\<close>

theorem status_last_commit_lost:
  assumes "status_ok b mx nd buf ls le" "le < ls + max_out b" "8 dvd ls + max_out b - le" "0 < auth_size nd (- 1)"
    "\<And>s. gen_auth_out (cr_H cr) nd s \<noteq> []"
  shows "status_with_nv b mx cr nd buf v ls le hnvm P (C(ls + max_out b := x)) = status_with_nv b mx cr nd buf v ls le hnvm P C"
proof -
  let ?au = "auth_size nd (- 1)" and ?S = "{le <..ls + max_out b}" and ?n = "ls + max_out b" and ?C' = "C(ls + max_out b := x)"
  note z = status_sizes [OF assms(1)]
  obtain m0 r where m0: "Status_new b mx nd buf v ls le True hnvm = Some m0"
    "mark_all b P C [le + 1..to_int32 ?n] m0 = Some (m0\<lparr>m_rest := r\<rparr>)" "has_nv_info m0"
    "s_sz m0 = (?n - le + 7) div 8" "s_le m0 = le" "s_brsz m0 = 0" "m_max m0 = ALIGNED_SIZE mx" "length r = length buf"
    and bits: "\<And>k. bit_at r k \<longleftrightarrow> marked P C m0 ?S k \<or> bit_at (m_rest m0) k"
    using status_marked [OF assms(1), of v hnvm P C] by blast
  obtain r' where r': "mark_all b P ?C' [le + 1..to_int32 ?n] m0 = Some (m0\<lparr>m_rest := r'\<rparr>)" "length r' = length buf"
    and bits': "\<And>k. bit_at r' k \<longleftrightarrow> marked P ?C' m0 ?S k \<or> bit_at (m_rest m0) k"
    using status_marked [OF assms(1), of v hnvm P ?C'] m0(1) by auto
  have n: "?n - le = 8 * s_sz m0" using assms(3) m0(4) by (auto elim!: dvdE)
  let ?q = "nat (2 * s_sz m0)"
  have sz: "0 \<le> s_sz m0" "2 * s_sz m0 + ?au + 8 \<le> int (length r)" using z(1,2) m0(4,8) by simp_all
  have q: "?q < length r" using sz assms(4) by linarith
  have "bit_at r' k \<longleftrightarrow> bit_at r k" if "k div 8 \<noteq> ?q" for k
  proof -
    have "int k \<noteq> 8 * s_sz m0 + (?n - le)" using that n sz(1) by linarith
    then have "marked P ?C' m0 ?S k \<longleftrightarrow> marked P C m0 ?S k" unfolding marked_def m0(5) by (metis fun_upd_apply)
    then show ?thesis by (simp add: bits bits')
  qed
  then have eq: "r' = r[?q := r' ! ?q]" using q m0(8) r'(2) by (intro bit_at_eq_update) simp_all
  have A: "st_authenticate b cr nd (m0\<lparr>m_rest := u\<rparr>) = Some (m0\<lparr>m_size := ALIGNED_SIZE (40 + 2 * s_sz m0 + ?au),
      m_rest := put_bytes (st_sized (s_sz m0) ?au u) ?q (st_auth cr nd (m0\<lparr>m_rest := u\<rparr>))\<rparr>)" if "length u = length buf" for u
    using st_authenticate_nv [of "m0\<lparr>m_rest := u\<rparr>" nd b cr] m0 z(5) sz assms(4) that by (simp add: has_nv_info_def)
  have "st_auth cr nd (m0\<lparr>m_rest := r'\<rparr>) = st_auth cr nd (m0\<lparr>m_rest := r\<rparr>)"
    by (subst eq) (simp add: st_auth_def status_fields_def header_bytes_def)
  moreover have "st_sized (s_sz m0) ?au r' = (st_sized (s_sz m0) ?au r)[?q := r' ! ?q]"
    using sz assms(4) by (subst eq) (intro st_sized_update, simp_all)
  moreover have "st_auth cr nd (m0\<lparr>m_rest := r\<rparr>) \<noteq> []" unfolding st_auth_def by (rule assms(5))
  ultimately show ?thesis
    using m0(1,2,8) r' A by (simp add: status_with_nv_def put_bytes_update)
qed

theorem status_last_commit_lost_witness:
  "status_ok default_build 9000 (wit_node 0) (replicate 8960 0) 0 0 \<and>
   status_with_nv default_build 9000 wit_crypto (wit_node 0) (replicate 8960 0) 0 0 0 True (\<lambda>n. True) ((\<lambda>n. False)(256 := True)) =
   status_with_nv default_build 9000 wit_crypto (wit_node 0) (replicate 8960 0) 0 0 0 True (\<lambda>n. True) (\<lambda>n. False)"
proof -
  have ok: "status_ok default_build 9000 (wit_node 0) (replicate 8960 0) 0 0"
    using default_build_ok by (simp add: status_ok_def sizeof_Status_rep_def auth_size_def wit_node_def default_build_def HMAC_size_def)
  have "gen_auth_out (cr_H wit_crypto) (wit_node 0) s \<noteq> []" for s
    by (simp add: gen_auth_out_def gen_auth_def wit_node_def wit_crypto_def upt_rec gen_mac_out_def gen_mac_def)
  with status_last_commit_lost [OF ok, of wit_crypto 0 True "\<lambda>n. True" "\<lambda>n. False" True] ok show ?thesis
    by (simp add: default_build_def auth_size_def wit_node_def HMAC_size_def)
qed

end
