(* ===== verification/Rep_Infos.thy ===== *)
theory Rep_Infos
  imports Req_Queue Timers
begin

text \<open>
  \<^verbatim>\<open>Rep_info.h\<close> and \<^verbatim>\<open>Rep_info.cc\<close>: the last reply to every principal. The reply messages live in the first
  part of the replicated memory, which the state component checkpoints, transfers and rolls back; only the
  flags are private. The memory is a record of the word that holds the number of principals, the reply slots
  and the service's own part, of type \<open>'a\<close>. \<open>cow\<close> is the effect on the state component, of type \<open>'st\<close>, of
  announcing a write to the slot of a principal (\<^verbatim>\<open>replica->modify\<close>).
\<close>

record 'a mem =
  mem_count :: int
  mem_slots :: "reply list"
  mem_app :: 'a

record rinfo =
  ri_tentative :: bool
  ri_lsent :: int

record rep_info =
  ri_nps :: nat
  ireps :: "rinfo list"

definition rep_slot_size :: "nat \<Rightarrow> nat" where
  "rep_slot_size MAX_REPLY_SIZE = MAX_REPLY_SIZE + nat MAC_size"

text \<open>A slot after \<^verbatim>\<open>bzero\<close> and the three assignments of the constructor. The \<^verbatim>\<open>Reply\<close> object over it has
  \<^verbatim>\<open>max_size == -1\<close>.\<close>

definition fresh_slot :: "nat \<Rightarrow> reply" where
  "fresh_slot MAX_REPLY_SIZE = \<lparr>m_tag = Reply_tag, m_extra = 0, m_size = 0, m_max = - 1, m_scratch = False,
     m_rest = replicate (rep_slot_size MAX_REPLY_SIZE) 0, y_v = 0, y_rid = 0, y_digest = digest_zero, y_replica = 0, y_reply_size = - 1\<rparr>"

text \<open>\<open>sz\<close> is the size of the memory in bytes.\<close>

definition Rep_info_new :: "nat \<Rightarrow> 'a mem \<Rightarrow> nat \<Rightarrow> nat \<Rightarrow> (rep_info \<times> 'a mem) option" where
  "Rep_info_new MAX_REPLY_SIZE M sz n = do {
     th_assert (n \<noteq> 0);
     th_assert ((n + 1) * (sizeof_Reply_rep + rep_slot_size MAX_REPLY_SIZE) \<le> sz);
     M' \<leftarrow> (if mem_count M \<noteq> 0 then do { th_assert (int n = mem_count M); Some M }
            else Some (M\<lparr>mem_slots := replicate n (fresh_slot MAX_REPLY_SIZE), mem_count := int n\<rparr>));
     th_assert (list_all (\<lambda>r. m_tag r = Reply_tag) (take n (mem_slots M')));
     Some (\<lparr>ri_nps = n, ireps = replicate n \<lparr>ri_tentative = True, ri_lsent = zeroTime\<rparr>\<rparr>, M') }"

definition upd_irep :: "rep_info \<Rightarrow> nat \<Rightarrow> rinfo \<Rightarrow> rep_info option" where
  "upd_irep R c x = do { xs \<leftarrow> arr_set (ireps R) c x; Some (R\<lparr>ireps := xs\<rparr>) }"

definition put_slot :: "'a mem \<Rightarrow> nat \<Rightarrow> reply \<Rightarrow> 'a mem option" where
  "put_slot M c r = do { rs \<leftarrow> arr_set (mem_slots M) c r; Some (M\<lparr>mem_slots := rs\<rparr>) }"

definition commit_reply :: "rep_info \<Rightarrow> nat \<Rightarrow> rep_info option" where
  "commit_reply R c = upd_irep R c \<lparr>ri_tentative = False, ri_lsent = zeroTime\<rparr>"

definition is_committed :: "rep_info \<Rightarrow> nat \<Rightarrow> bool option" where
  "is_committed R c = do { x \<leftarrow> arr_get (ireps R) c; Some (\<not> ri_tentative x) }"

definition rep_reply :: "'a mem \<Rightarrow> nat \<Rightarrow> reply option" where
  "rep_reply M c = arr_get (mem_slots M) c"

definition req_id :: "'a mem \<Rightarrow> nat \<Rightarrow> request_id option" where
  "req_id M c = do { r \<leftarrow> rep_reply M c; Some (y_rid r) }"

definition rep_digest :: "'a mem \<Rightarrow> nat \<Rightarrow> digest option" where
  "rep_digest M c = do { r \<leftarrow> rep_reply M c; Some (y_digest r) }"

text \<open>\<^verbatim>\<open>new_reply\<close> returns the buffer and its length; the caller writes the reply into it before it calls
  \<^verbatim>\<open>end_reply\<close>.\<close>

definition new_reply :: "('st \<Rightarrow> 'a mem \<Rightarrow> nat \<Rightarrow> 'st option) \<Rightarrow> nat \<Rightarrow> rep_info \<Rightarrow> 'st \<Rightarrow> 'a mem \<Rightarrow> nat \<Rightarrow>
    (int \<times> rep_info \<times> 'st \<times> 'a mem) option" where
  "new_reply cow MAX_REPLY_SIZE R S M c = do {
     r \<leftarrow> rep_reply M c;
     S' \<leftarrow> cow S M c;
     R' \<leftarrow> upd_irep R c \<lparr>ri_tentative = True, ri_lsent = zeroTime\<rparr>;
     M' \<leftarrow> put_slot M c (r\<lparr>y_reply_size := - 1\<rparr>);
     Some (int MAX_REPLY_SIZE, R', S', M') }"

definition write_reply :: "'a mem \<Rightarrow> nat \<Rightarrow> byte list \<Rightarrow> 'a mem option" where
  "write_reply M c bs = do { r \<leftarrow> rep_reply M c; put_slot M c (r\<lparr>m_rest := put_bytes (m_rest r) 0 bs\<rparr>) }"

definition end_reply :: "crypto \<Rightarrow> 'a mem \<Rightarrow> nat \<Rightarrow> request_id \<Rightarrow> int \<Rightarrow> 'a mem option" where
  "end_reply cr M c rid sz = do {
     r \<leftarrow> rep_reply M c;
     th_assert (y_reply_size r = - 1);
     let r1 = r\<lparr>y_rid := rid, y_reply_size := sz, y_digest := cr_hash cr (take (nat sz) (m_rest r))\<rparr>;
     r2 \<leftarrow> set_size sizeof_Reply_rep r1 (int sizeof_Reply_rep + sz + MAC_size);
     put_slot M c (r2\<lparr>m_rest := put_bytes (m_rest r2) (nat sz) (replicate (nat MAC_size) 0)\<rparr>) }"

text \<open>What \<^verbatim>\<open>send_reply\<close> does with the reply: it is sent to the principal or, for the node itself, handed to the
  replica.\<close>

datatype reply_action = Send_reply reply int | Handle_own_reply reply

text \<open>The assignments that undo the changes to the stored message.\<close>

definition restore_slot :: "reply \<Rightarrow> reply" where
  "restore_slot r = r\<lparr>m_extra := 0, y_v := 0, y_replica := 0,
     m_rest := put_bytes (m_rest r) (nat (y_reply_size r)) (replicate (nat MAC_size) 0)\<rparr>"

definition send_reply :: "crypto \<Rightarrow> node \<Rightarrow> int \<Rightarrow> int \<Rightarrow> rep_info \<Rightarrow> 'a mem \<Rightarrow> nat \<Rightarrow> view \<Rightarrow> int \<Rightarrow> bool \<Rightarrow>
    (reply_action option \<times> rep_info \<times> 'a mem) option" where
  "send_reply cr nd clock_mhz now R M c v i tentative = do {
     r \<leftarrow> rep_reply M c;
     th_assert (y_reply_size r \<noteq> - 1);
     th_assert (m_extra r = 0 \<and> y_v r = 0 \<and> y_replica r = 0);
     x0 \<leftarrow> arr_get (ireps R) c;
     let x1 = (if \<not> tentative \<and> ri_tentative x0 then \<lparr>ri_tentative = False, ri_lsent = zeroTime\<rparr> else x0);
     if \<not> equalTime (ri_lsent x1) zeroTime \<and> diffTime clock_mhz now (ri_lsent x1) \<le> 10000
     then do { R' \<leftarrow> upd_irep R c x1; Some (None, R', M) }
     else do {
       let x2 = (if \<not> equalTime (ri_lsent x1) zeroTime then x1\<lparr>ri_lsent := now\<rparr> else x1);
       R' \<leftarrow> upd_irep R c x2;
       let r1 = r\<lparr>m_extra := (if ri_tentative x2 then 1 else m_extra r), y_v := v, y_replica := i\<rparr>;
       p \<leftarrow> i_to_p nd (int c);
       let r2 = (if int c \<noteq> node_id nd
                 then r1\<lparr>m_rest := put_bytes (m_rest r1) (nat (y_reply_size r1)) (gen_mac_out (cr_H cr) p (reply_bytes r1))\<rparr>
                 else r1);
       let act = (if int c \<noteq> node_id nd then Send_reply r2 (int c) else Handle_own_reply r2);
       M' \<leftarrow> put_slot M c (restore_slot r2);
       Some (Some act, R', M') } }"

definition rep_new_state :: "'r req_ops \<Rightarrow> rep_info \<Rightarrow> 'a mem \<Rightarrow> 'r req_queue \<Rightarrow> (bool \<times> rep_info \<times> 'r req_queue) option" where
  "rep_new_state ops R M q = fold_opt (\<lambda>i (first, R, q). do {
     R' \<leftarrow> commit_reply R i;
     rid \<leftarrow> req_id M i;
     (b, q') \<leftarrow> q_remove_client ops q i rid;
     Some (first \<or> b, R', q') }) [0..<ri_nps R] (False, R, q)"

section \<open>A stored reply is the same on every replica\<close>

text \<open>The canonical form of a stored reply: no view, no sender, no tentative mark and no MAC, so that the memory is
  the same on all replicas.\<close>

definition canonical :: "reply \<Rightarrow> bool" where
  "canonical r \<longleftrightarrow> m_extra r = 0 \<and> y_v r = 0 \<and> y_replica r = 0 \<and> 0 \<le> y_reply_size r \<and>
     nat (y_reply_size r) + nat MAC_size \<le> length (m_rest r) \<and>
     take (nat MAC_size) (drop (nat (y_reply_size r)) (m_rest r)) = replicate (nat MAC_size) 0"

lemma put_bytes_put_bytes:
  assumes "length a = length b" "n + length a \<le> length xs"
  shows "put_bytes (put_bytes xs n a) n b = put_bytes xs n b"
  using assms by (simp add: put_bytes_def)

lemma put_bytes_same:
  assumes "take k (drop n xs) = bs" "length bs = k"
  shows "put_bytes xs n bs = xs"
proof -
  have "drop n xs = bs @ drop (n + k) xs"
    using assms(1) append_take_drop_id [of k "drop n xs"] by (simp add: add.commute)
  then have "take n xs @ bs @ drop (n + k) xs = xs" by (metis append_take_drop_id)
  then show ?thesis using assms(2) by (simp add: put_bytes_def)
qed

lemma restore_canonical:
  assumes "canonical r"
  shows "restore_slot (r\<lparr>m_extra := e, y_v := v, y_replica := i\<rparr>) = r"
    and "length mac = nat MAC_size \<Longrightarrow>
      restore_slot (r\<lparr>m_extra := e, y_v := v, y_replica := i, m_rest := put_bytes (m_rest r) (nat (y_reply_size r)) mac\<rparr>) = r"
proof -
  let ?z = "replicate (nat MAC_size) (0 :: byte)" and ?n = "nat (y_reply_size r)"
  have z: "put_bytes (m_rest r) ?n ?z = m_rest r"
    using assms by (intro put_bytes_same [of "nat MAC_size"]) (simp_all add: canonical_def)
  show "restore_slot (r\<lparr>m_extra := e, y_v := v, y_replica := i\<rparr>) = r"
    using assms z by (simp add: restore_slot_def canonical_def)
  assume "length mac = nat MAC_size"
  then have "put_bytes (put_bytes (m_rest r) ?n mac) ?n ?z = m_rest r"
    using put_bytes_put_bytes [of mac ?z ?n "m_rest r"] assms z by (simp add: canonical_def)
  then show "restore_slot (r\<lparr>m_extra := e, y_v := v, y_replica := i, m_rest := put_bytes (m_rest r) ?n mac\<rparr>) = r"
    using assms by (simp add: restore_slot_def canonical_def)
qed

text \<open>\<open>rep_ok\<close>: the flags array has an entry per principal and no reply has a time stamp.\<close>

definition rep_ok :: "rep_info \<Rightarrow> bool" where
  "rep_ok R \<longleftrightarrow> length (ireps R) = ri_nps R \<and> (\<forall>x \<in> set (ireps R). ri_lsent x = zeroTime)"

lemma upd_irep_ok: "rep_ok R \<Longrightarrow> upd_irep R c x = Some R' \<Longrightarrow> ri_lsent x = zeroTime \<Longrightarrow> rep_ok R' \<and> ri_nps R' = ri_nps R"
  by (auto simp: rep_ok_def upd_irep_def arr_set_def dest!: subsetD [OF set_update_subset_insert] split: if_splits)

lemma commit_reply_ok: "rep_ok R \<Longrightarrow> commit_reply R c = Some R' \<Longrightarrow> rep_ok R' \<and> ri_nps R' = ri_nps R"
  unfolding commit_reply_def by (drule (1) upd_irep_ok) simp_all

lemma new_reply_ok: "rep_ok R \<Longrightarrow> new_reply cow mx R S M c = Some (n, R', S', M') \<Longrightarrow> rep_ok R' \<and> ri_nps R' = ri_nps R"
  using upd_irep_ok [of R c "\<lparr>ri_tentative = True, ri_lsent = zeroTime\<rparr>" R']
  by (auto simp: new_reply_def split: Option.bind_splits)

lemma rep_new_state_ok:
  assumes "rep_ok R" "rep_new_state ops R M q = Some (b, R', q')"
  shows "rep_ok R' \<and> ri_nps R' = ri_nps R"
proof -
  have "(\<lambda>(b, Q, q). rep_ok Q \<and> ri_nps Q = ri_nps R) (b, R', q')"
    by (rule fold_opt_inv [OF assms(2) [unfolded rep_new_state_def]])
      (use assms(1) commit_reply_ok in \<open>auto split: Option.bind_splits\<close>)
  then show ?thesis by simp
qed

lemma lsent_zero: "rep_ok R \<Longrightarrow> arr_get (ireps R) c = Some x \<Longrightarrow> ri_lsent x = zeroTime"
  by (auto simp: rep_ok_def arr_get_def split: if_splits)

text \<open>C31: Sending a reply leaves the replicated memory as it was, so that the replicas' states do not diverge by
  the replies they send: when the stored reply is in canonical form the memory after \<^verbatim>\<open>send_reply\<close> is the memory
  before. The reply handed out carries the view and the sender, and is marked tentative unless the stored
  reply was committed or is being sent as committed.\<close>

theorem send_reply_restores_memory:
  assumes "rep_reply M c = Some r" "canonical r" "send_reply cr nd mhz now R M c v i tentative = Some (a, R', M')"
    and "\<And>k s. length (cr_H cr k s) = HMAC_size"
  shows "M' = M \<and> (\<forall>r' d. a = Some (Send_reply r' d) \<longrightarrow> y_v r' = v \<and> y_replica r' = i \<and> y_rid r' = y_rid r \<and>
    y_digest r' = y_digest r \<and> d = int c \<and> (m_extra r' = 1 \<longleftrightarrow> tentative \<and> is_committed R c = Some False))"
proof -
  have mac: "length (gen_mac_out (cr_H cr) p s) = nat MAC_size" for p s
    using assms(4) by (simp add: gen_mac_out_def gen_mac_def MAC_size_def HMAC_size_def)
  have same: "put_slot M c r = Some M"
    using assms(1) by (auto simp: rep_reply_def put_slot_def arr_get_def arr_set_def split: if_splits)
  show ?thesis
    using assms(1-3) restore_canonical(1) [OF assms(2)] restore_canonical(2) [OF assms(2) mac] same
    by (auto simp: send_reply_def Let_def is_committed_def canonical_def arr_get_def upd_irep_def arr_set_def
        split: Option.bind_splits if_splits)
qed

definition wit_mem :: "unit mem" where
  "wit_mem = \<lparr>mem_count = 4, mem_slots = replicate 4 ((fresh_slot 8)\<lparr>y_reply_size := 8\<rparr>), mem_app = ()\<rparr>"

definition wit_reps :: rep_info where
  "wit_reps = \<lparr>ri_nps = 4, ireps = replicate 4 \<lparr>ri_tentative = True, ri_lsent = zeroTime\<rparr>\<rparr>"

theorem send_reply_restores_memory_witness:
  "\<exists>a R'. send_reply wit_crypto (wit_node 0) 1 0 wit_reps wit_mem 3 7 0 True = Some (a, R', wit_mem)"
proof -
  let ?r = "(fresh_slot 8)\<lparr>y_reply_size := 8\<rparr>"
  have r: "rep_reply wit_mem 3 = Some ?r" by (simp add: rep_reply_def wit_mem_def arr_get_def)
  have c: "canonical ?r" by (simp add: canonical_def fresh_slot_def rep_slot_size_def MAC_size_def)
  have "send_reply wit_crypto (wit_node 0) 1 0 wit_reps wit_mem 3 7 0 True \<noteq> None"
    using r by (simp add: send_reply_def wit_reps_def arr_get_def equalTime_def upd_irep_def arr_set_def Let_def put_slot_def
        wit_mem_def i_to_p_def wit_node_def fresh_slot_def)
  then obtain a R' M' where s: "send_reply wit_crypto (wit_node 0) 1 0 wit_reps wit_mem 3 7 0 True = Some (a, R', M')" by auto
  have "M' = wit_mem"
    by (rule send_reply_restores_memory [OF r c s, THEN conjunct1]) (simp add: wit_crypto_def HMAC_size_def)
  then show ?thesis using s by blast
qed

text \<open>The limit on the rate at which a reply is resent never takes effect. The time stamp of the last
  transmission is only renewed when it is already set, it starts at zero and no operation sets it: it stays
  zero, and every call of \<^verbatim>\<open>send_reply\<close> that passes its assertions sends the reply.\<close>

theorem send_reply_never_throttled:
  assumes "rep_ok R" "send_reply cr nd mhz now R M c v i tentative = Some (a, R', M')"
  shows "a \<noteq> None \<and> rep_ok R' \<and> ri_nps R' = ri_nps R"
proof -
  obtain x0 where x0: "arr_get (ireps R) c = Some x0" using assms(2)
    by (auto simp: send_reply_def split: Option.bind_splits if_splits)
  define x1 where "x1 = (if \<not> tentative \<and> ri_tentative x0 then \<lparr>ri_tentative = False, ri_lsent = zeroTime\<rparr> else x0)"
  have z: "equalTime (ri_lsent x1) zeroTime" "ri_lsent x1 = zeroTime"
    using lsent_zero [OF assms(1) x0] by (simp_all add: x1_def equalTime_def)
  have "a \<noteq> None \<and> upd_irep R c x1 = Some R'"
    using assms(2) x0 z(1) by (auto simp: send_reply_def Let_def simp flip: x1_def split: Option.bind_splits if_splits)
  then show ?thesis using upd_irep_ok [OF assms(1) _ z(2)] by blast
qed

theorem send_reply_never_throttled_witness:
  "\<exists>a R1 R2. send_reply wit_crypto (wit_node 0) 1 5 wit_reps wit_mem 3 7 0 True = Some (a, R1, wit_mem) \<and>
     send_reply wit_crypto (wit_node 0) 1 6 R1 wit_mem 3 7 0 True = Some (a, R2, wit_mem) \<and> a \<noteq> None"
proof -
  let ?send = "\<lambda>t R. send_reply wit_crypto (wit_node 0) 1 t R wit_mem 3 7 0 True"
  have same: "?send 5 wit_reps = ?send 6 wit_reps" by (simp add: send_reply_def wit_reps_def arr_get_def equalTime_def)
  obtain a where a: "?send 5 wit_reps = Some (a, wit_reps, wit_mem)"
    by (simp add: send_reply_def wit_reps_def arr_get_def equalTime_def upd_irep_def arr_set_def Let_def put_slot_def
        wit_mem_def i_to_p_def wit_node_def fresh_slot_def rep_reply_def restore_slot_def rep_slot_size_def MAC_size_def
        put_bytes_def numeral_eq_Suc gen_mac_out_def gen_mac_def wit_crypto_def)
  have "rep_ok wit_reps" by (simp add: rep_ok_def wit_reps_def)
  with send_reply_never_throttled [OF _ a] a same show ?thesis by metis
qed

end
