(* ===== verification/Id_Sets.thy ===== *)
theory Id_Sets
  imports Prelude
begin

text \<open>
  \<^verbatim>\<open>Set.h\<close> and \<^verbatim>\<open>Set.t\<close>: a set of messages with at most one message per identifier, in which a replica keeps the
  stable checkpoint messages that lie above its window. The template's element type is a parameter and \<open>eid\<close>
  is its \<^verbatim>\<open>id()\<close>.
\<close>

record 'a idset =
  s_max :: int
  s_elems :: "'a option list"
  s_cur :: int

definition Set_new :: "int \<Rightarrow> 'a idset" where
  "Set_new sz = \<lparr>s_max = sz, s_elems = replicate (nat sz) None, s_cur = 0\<rparr>"

definition set_store :: "('a \<Rightarrow> int) \<Rightarrow> 'a idset \<Rightarrow> 'a \<Rightarrow> bool \<times> 'a idset" where
  "set_store eid S e =
     (if eid e \<ge> s_max S \<or> eid e < 0 \<or> s_elems S ! nat (eid e) \<noteq> None then (False, S)
      else (True, S\<lparr>s_elems := (s_elems S)[nat (eid e) := Some e], s_cur := s_cur S + 1\<rparr>))"

definition set_fetch :: "'a idset \<Rightarrow> int \<Rightarrow> 'a option" where
  "set_fetch S i = (if i \<ge> s_max S \<or> i < 0 then None else s_elems S ! nat i)"

definition set_remove :: "'a idset \<Rightarrow> int \<Rightarrow> 'a option \<times> 'a idset" where
  "set_remove S i =
     (if i \<ge> s_max S \<or> i < 0 \<or> s_elems S ! nat i = None then (None, S)
      else (s_elems S ! nat i, S\<lparr>s_elems := (s_elems S)[nat i := None], s_cur := s_cur S - 1\<rparr>))"

definition set_clear :: "'a idset \<Rightarrow> 'a idset" where
  "set_clear S = S\<lparr>s_elems := map (\<lambda>_. None) (s_elems S)\<rparr>"

definition ids_size :: "'a idset \<Rightarrow> int" where
  "ids_size S = s_cur S"

section \<open>The contract of a set of identified elements\<close>

text \<open>\<open>fetch\<close> is a finite map from identifiers to elements with that identifier, and \<open>size\<close> is the number of
  its entries.\<close>

locale identified_set =
  fixes fetch :: "'s \<Rightarrow> int \<Rightarrow> 'a option"
    and store :: "'s \<Rightarrow> 'a \<Rightarrow> bool \<times> 's"
    and remove :: "'s \<Rightarrow> int \<Rightarrow> 'a option \<times> 's"
    and size :: "'s \<Rightarrow> int"
    and eid :: "'a \<Rightarrow> int"
    and bound :: "'s \<Rightarrow> int"
    and invar :: "'s \<Rightarrow> bool"
  assumes fetch_dom: "invar s \<Longrightarrow> fetch s i = Some e \<Longrightarrow> 0 \<le> i \<and> i < bound s \<and> eid e = i"
    and size_card: "invar s \<Longrightarrow> size s = int (card (dom (fetch s)))"
    and store_ok: "invar s \<Longrightarrow> 0 \<le> eid e \<Longrightarrow> eid e < bound s \<Longrightarrow> fetch s (eid e) = None \<Longrightarrow>
      \<exists>s'. store s e = (True, s') \<and> invar s' \<and> bound s' = bound s \<and> fetch s' = (fetch s)(eid e \<mapsto> e)"
    and remove_ok: "invar s \<Longrightarrow>
      \<exists>s'. remove s i = (fetch s i, s') \<and> invar s' \<and> bound s' = bound s \<and> fetch s' = (fetch s)(i := None)"
begin

text \<open>Replacing the element of an identifier: what the replica does with a newer checkpoint message.\<close>

lemma replace_fetch:
  assumes "invar s" "0 \<le> eid e" "eid e < bound s" "remove s (eid e) = (x, s1)" "store s1 e = (b, s2)"
  shows "b \<and> invar s2 \<and> fetch s2 = (fetch s)(eid e \<mapsto> e)"
proof -
  have r: "invar s1" "bound s1 = bound s" "fetch s1 = (fetch s)(eid e := None)"
    using remove_ok [OF assms(1), of "eid e"] assms(4) by auto
  then show ?thesis using store_ok [OF r(1), of e] assms(2,3,5) by auto
qed

text \<open>More than \<open>f\<close> entries include one whose identifier is not in a given set of \<open>f\<close> identifiers.\<close>

lemma size_beyond:
  assumes "invar s" "finite B" "int (card B) < size s"
  shows "\<exists>i e. fetch s i = Some e \<and> i \<notin> B"
proof (rule ccontr)
  assume "\<not> (\<exists>i e. fetch s i = Some e \<and> i \<notin> B)"
  then have "dom (fetch s) \<subseteq> B" by (metis domD subsetI)
  then have "card (dom (fetch s)) \<le> card B" using assms(2) by (simp add: card_mono)
  with assms(3) size_card [OF assms(1)] show False by simp
qed

end

section \<open>The class meets it\<close>

definition set_inv :: "('a \<Rightarrow> int) \<Rightarrow> 'a idset \<Rightarrow> bool" where
  "set_inv eid S \<longleftrightarrow> 0 \<le> s_max S \<and> length (s_elems S) = nat (s_max S) \<and>
     (\<forall>i e. set_fetch S i = Some e \<longrightarrow> eid e = i) \<and> s_cur S = int (card (dom (set_fetch S)))"

lemma set_fetch_update:
  assumes "0 \<le> i" "i < s_max S" "length (s_elems S) = nat (s_max S)"
  shows "set_fetch (S\<lparr>s_elems := (s_elems S)[nat i := x], s_cur := c\<rparr>) = (set_fetch S)(i := x)"
proof
  fix j show "set_fetch (S\<lparr>s_elems := (s_elems S)[nat i := x], s_cur := c\<rparr>) j = ((set_fetch S)(i := x)) j"
    using assms by (auto simp: set_fetch_def nth_list_update eq_nat_nat_iff)
qed

lemma finite_dom_set_fetch: "finite (dom (set_fetch S))"
  by (rule finite_subset [of _ "{0..<s_max S}"]) (auto simp: set_fetch_def split: if_splits)

interpretation ids: identified_set set_fetch "set_store eid" set_remove ids_size eid s_max "set_inv eid"
  for eid :: "'a \<Rightarrow> int"
proof unfold_locales
  fix S :: "'a idset" and i e
  assume "set_inv eid S" "set_fetch S i = Some e"
  then show "0 \<le> i \<and> i < s_max S \<and> eid e = i" by (auto simp: set_inv_def set_fetch_def split: if_splits)
next
  fix S :: "'a idset" assume "set_inv eid S"
  then show "ids_size S = int (card (dom (set_fetch S)))" by (simp add: set_inv_def ids_size_def)
next
  fix S :: "'a idset" and e
  assume S: "set_inv eid S" "0 \<le> eid e" "eid e < s_max S" "set_fetch S (eid e) = None"
  define S' where "S' = S\<lparr>s_elems := (s_elems S)[nat (eid e) := Some e], s_cur := s_cur S + 1\<rparr>"
  have f: "set_fetch S' = (set_fetch S)(eid e \<mapsto> e)"
    unfolding S'_def using S by (intro set_fetch_update) (auto simp: set_inv_def)
  have "eid e \<notin> dom (set_fetch S)" using S(4) by auto
  then have "card (dom (set_fetch S')) = Suc (card (dom (set_fetch S)))"
    unfolding f by (simp add: finite_dom_set_fetch)
  then have "set_inv eid S'" using S(1) f by (auto simp: set_inv_def S'_def)
  moreover have "set_store eid S e = (True, S')" using S(2-4) by (auto simp: set_store_def set_fetch_def S'_def)
  ultimately show "\<exists>S'. set_store eid S e = (True, S') \<and> set_inv eid S' \<and> s_max S' = s_max S \<and> set_fetch S' = (set_fetch S)(eid e \<mapsto> e)"
    using f by (auto simp: S'_def)
next
  fix S :: "'a idset" and i
  assume S: "set_inv eid S"
  show "\<exists>S'. set_remove S i = (set_fetch S i, S') \<and> set_inv eid S' \<and> s_max S' = s_max S \<and> set_fetch S' = (set_fetch S)(i := None)"
  proof (cases "set_fetch S i")
    case None
    then have "set_remove S i = (None, S)" "(set_fetch S)(i := None) = set_fetch S"
      by (auto simp: set_remove_def set_fetch_def fun_eq_iff split: if_splits)
    with None S show ?thesis by auto
  next
    case (Some e)
    then have r: "0 \<le> i" "i < s_max S" by (auto simp: set_fetch_def split: if_splits)
    define S' where "S' = S\<lparr>s_elems := (s_elems S)[nat i := None], s_cur := s_cur S - 1\<rparr>"
    have f: "set_fetch S' = (set_fetch S)(i := None)"
      unfolding S'_def using S r by (intro set_fetch_update) (auto simp: set_inv_def)
    have "card (dom (set_fetch S)) = Suc (card (dom (set_fetch S) - {i}))"
      using Some by (intro card.remove finite_dom_set_fetch) auto
    moreover have "dom (set_fetch S') = dom (set_fetch S) - {i}" unfolding f by auto
    ultimately have "set_inv eid S'" using S f by (auto simp: set_inv_def S'_def split: if_splits)
    moreover have "set_remove S i = (set_fetch S i, S')" using Some r by (auto simp: set_remove_def set_fetch_def S'_def)
    ultimately show ?thesis using f by (auto simp: S'_def)
  qed
qed

lemma Set_new_inv: "0 \<le> sz \<Longrightarrow> set_inv eid (Set_new sz)"
proof -
  have "set_fetch (Set_new sz) = (\<lambda>_. None :: 'a option)" by (auto simp: set_fetch_def Set_new_def fun_eq_iff)
  then show "0 \<le> sz \<Longrightarrow> set_inv eid (Set_new sz)" by (simp add: set_inv_def Set_new_def)
qed

text \<open>\<^verbatim>\<open>Set::clear\<close> does not reset the element count: a set of which an element has been stored reports a
  positive size after it was cleared, although it holds nothing, and so no longer meets its invariant.\<close>

theorem set_clear_stale_size:
  assumes "set_inv eid S" "0 \<le> eid e" "eid e < s_max S" "set_fetch S (eid e) = None"
  shows "\<exists>S'. set_store eid S e = (True, S') \<and> 0 < ids_size (set_clear S') \<and> (\<forall>i. set_fetch (set_clear S') i = None) \<and>
    \<not> set_inv eid (set_clear S')"
proof -
  obtain S' where S': "set_store eid S e = (True, S')" "set_inv eid S'" "set_fetch S' = (set_fetch S)(eid e \<mapsto> e)"
    using ids.store_ok [OF assms] by blast
  have "dom (set_fetch S') \<noteq> {}" using S'(3) by auto
  then have p: "0 < ids_size S'" using ids.size_card [OF S'(2)] finite_dom_set_fetch [of S'] by (simp add: card_gt_0_iff)
  have n: "set_fetch (set_clear S') i = None" for i
    using S'(2) by (auto simp: set_fetch_def set_clear_def set_inv_def)
  have "\<not> set_inv eid (set_clear S')"
  proof
    assume "set_inv eid (set_clear S')"
    then have "ids_size (set_clear S') = int (card (dom (set_fetch (set_clear S'))))" by (rule ids.size_card)
    moreover have "dom (set_fetch (set_clear S')) = {}" using n by auto
    ultimately show False using p by (simp add: ids_size_def set_clear_def)
  qed
  with S'(1) p n show ?thesis by (auto simp: ids_size_def set_clear_def)
qed

theorem set_clear_stale_size_witness: "\<exists>S'. set_store (\<lambda>x. x) (Set_new 4) 2 = (True, S') \<and> 0 < ids_size (set_clear S')"
proof -
  have "set_fetch (Set_new 4) (2 :: int) = (None :: int option)" by (simp add: set_fetch_def Set_new_def)
  with set_clear_stale_size [OF Set_new_inv [of 4 "\<lambda>x. x"], of 2] show ?thesis by (auto simp: Set_new_def)
qed

end
