(* ===== verification/Replica_State.thy ===== *)
theory Replica_State
  imports Prepared_Cert Regions Status_Messages Rep_Infos Id_Sets
begin

text \<open>
  The state of a replica (\<^verbatim>\<open>Replica.h\<close>) and the parts of it that the handlers of \<^verbatim>\<open>Replica.cc\<close> share: sending,
  timers, the request iterator, the session keys. Two components are parameters here: \<^verbatim>\<open>State\<close> (checkpoints,
  digests and transfer of the replicated memory) of type \<open>'st\<close> and \<^verbatim>\<open>View_info\<close> (view-change messages) of type
  \<open>'vi\<close>, each with a record of the operations the replica calls. Messages that these components send by
  themselves are not part of the replica's output.
\<close>

section \<open>Interfaces of the state and view components\<close>

record ('st, 'a) state_ops =
  so_in_fetch :: "'st \<Rightarrow> bool"
  so_in_check :: "'st \<Rightarrow> bool"
  so_full_digest :: "'st \<Rightarrow> 'a mem \<Rightarrow> 'st option"
  so_cow :: "'st \<Rightarrow> 'a mem \<Rightarrow> nat \<Rightarrow> 'st option"
  so_checkpoint :: "'st \<Rightarrow> 'a mem \<Rightarrow> seqno \<Rightarrow> 'st option"
  so_digest :: "'st \<Rightarrow> seqno \<Rightarrow> digest option"
  so_discard :: "'st \<Rightarrow> 'a mem \<Rightarrow> seqno \<Rightarrow> seqno \<Rightarrow> 'st option"
  so_rollback :: "'st \<Rightarrow> 'a mem \<Rightarrow> (seqno \<times> 'st \<times> 'a mem) option"
  so_start_fetch :: "'st \<Rightarrow> seqno \<Rightarrow> (seqno \<times> digest \<times> bool) option \<Rightarrow> 'st option"
  so_start_check :: "'st \<Rightarrow> seqno \<Rightarrow> 'st option"
  so_mark_stale :: "'st \<Rightarrow> 'st"
  so_retrans_fetch :: "'st \<Rightarrow> int \<Rightarrow> bool"
  so_send_fetch :: "'st \<Rightarrow> bool \<Rightarrow> 'st option"
  so_enforce_bound :: "'st \<Rightarrow> 'a mem \<Rightarrow> seqno \<Rightarrow> seqno \<Rightarrow> bool \<Rightarrow> (bool \<times> 'st \<times> 'a mem) option"

text \<open>A new view that is ready to be processed: the arguments of \<^verbatim>\<open>process_new_view\<close>. The view component returns
  it where the code calls \<^verbatim>\<open>replica->process_new_view\<close>.\<close>

record new_view_call =
  nc_min :: seqno
  nc_d :: digest
  nc_max :: seqno
  nc_ms :: seqno

record ('vi, 'st) view_ops =
  vo_has_new_view :: "'vi \<Rightarrow> view \<Rightarrow> bool"
  vo_has_nv_message :: "'vi \<Rightarrow> view \<Rightarrow> bool"
  vo_add_missing_pp :: "'vi \<Rightarrow> pre_prepare \<Rightarrow> ('vi \<times> new_view_call option) option"
  vo_add_missing_prepare :: "'vi \<Rightarrow> prepare \<Rightarrow> ('vi \<times> new_view_call option) option"
  vo_mark_stable :: "'vi \<Rightarrow> seqno \<Rightarrow> 'vi option"
  vo_mark_stale :: "'vi \<Rightarrow> 'vi option"
  vo_add_complete :: "'vi \<Rightarrow> pre_prepare \<Rightarrow> 'vi option"
  vo_add_incomplete :: "'vi \<Rightarrow> seqno \<Rightarrow> digest \<Rightarrow> 'vi option"
  vo_view_change :: "'vi \<Rightarrow> view \<Rightarrow> seqno \<Rightarrow> 'st \<Rightarrow> ('vi \<times> new_view_call option) option"
  vo_fetch_request :: "'vi \<Rightarrow> seqno \<Rightarrow> (pre_prepare option \<times> digest \<times> 'vi) option"
  vo_max_view :: "'vi \<Rightarrow> view option"
  vo_max_maj_view :: "'vi \<Rightarrow> view option"
  vo_clear :: "'vi \<Rightarrow> 'vi"
  vo_enforce_bound :: "'vi \<Rightarrow> seqno \<Rightarrow> seqno \<Rightarrow> bool \<Rightarrow> (bool \<times> 'vi) option"

section \<open>State and environment\<close>

text \<open>What the replica sends, with its destination: \<open>All_replicas\<close> or a principal.\<close>

datatype out_msg = Out_pre_prepare pre_prepare | Out_prepare prepare | Out_commit commit | Out_checkpoint checkpoint |
  Out_request request | Out_reply reply | Out_query query_stable | Out_reply_stable reply_stable | Out_new_key request_id |
  Out_new_view | Out_status view seqno seqno bool bool "seqno list" "seqno list" | Out_callback reply

record ('st, 'a, 'vi) replica =
  rp_nd :: node
  rp_seqno :: seqno
  rp_nbreqs :: int
  rp_nbrounds :: int
  rp_last_stable :: seqno
  rp_low_bound :: seqno
  rp_last_prepared :: seqno
  rp_last_executed :: seqno
  rp_last_tentative :: seqno
  rp_rqueue :: "request req_queue"
  rp_ro_rqueue :: "request req_queue"
  rp_plog :: "prepared_cert log"
  rp_clog :: "commit certificate log"
  rp_elog :: "checkpoint certificate clog"
  rp_sset :: "checkpoint idset"
  rp_replies :: rep_info
  rp_mem :: "'a mem"
  rp_state :: 'st
  rp_tm :: timers
  rp_last_status :: int
  rp_vi :: 'vi
  rp_limbo :: bool
  rp_has_nv_state :: bool
  rp_rec_ready :: bool
  rp_recovering :: bool
  rp_vc_recovering :: bool
  rp_corrupt :: bool
  rp_se :: stable_estimator
  rp_qs :: "query_stable option"
  rp_rr :: "request option"
  rp_rr_reps :: "reply certificate"
  rp_rr_views :: "view list"
  rp_recovery_point :: seqno
  rp_max_rec_n :: seqno
  rp_last_new_key :: "request_id option"
  rp_agreement :: agreement_region
  rp_checkpoints :: checkpoint_region
  rp_out :: "(out_msg \<times> int) list"

text \<open>The environment of one event: the build, the cryptographic functions, the clock, the size constants, the
  service's callbacks and the components' operations. \<open>e_exec\<close> is \<^verbatim>\<open>exec_command\<close>: from the command, the
  non-deterministic choices, the client and the read-only flag it computes the error code, the reply and the new
  service state, announcing its writes to the state component. \<open>e_slot n\<close> is what the slot of number \<open>n\<close> in the
  agreement region holds before a pre-prepare is built there; the regions themselves are kept for their
  window, since the certificates of the model hold the messages.\<close>

record ('st, 'a, 'vi) env =
  e_b :: build
  e_cr :: crypto
  e_now :: int
  e_mhz :: int
  e_max_msg :: int
  e_max_reply :: nat
  e_prepare_size :: nat
  e_commit_size :: nat
  e_checkpoint_size :: nat
  e_slot :: "seqno \<Rightarrow> pre_prepare"
  e_max_nd :: int
  e_nd :: "seqno \<Rightarrow> byte list"
  e_ksz :: int
  e_rnd :: "int \<Rightarrow> key"
  e_nonce :: int
  e_exec :: "byte list \<Rightarrow> byte list \<Rightarrow> int \<Rightarrow> bool \<Rightarrow> 'a \<Rightarrow> 'st \<Rightarrow> (int \<times> byte list \<times> 'a \<times> 'st) option"
  e_so :: "('st, 'a) state_ops"
  e_vo :: "('vi, 'st) view_ops"

definition emit :: "out_msg \<Rightarrow> int \<Rightarrow> ('st, 'a, 'vi) replica \<Rightarrow> ('st, 'a, 'vi) replica" where
  "emit m d R = R\<lparr>rp_out := rp_out R @ [(m, d)]\<rparr>"

definition rp_view :: "('st, 'a, 'vi) replica \<Rightarrow> view" where
  "rp_view R = cur_view (rp_nd R)"

definition rp_id :: "('st, 'a, 'vi) replica \<Rightarrow> int" where
  "rp_id R = node_id (rp_nd R)"

definition is_primary :: "('st, 'a, 'vi) replica \<Rightarrow> bool" where
  "is_primary R \<longleftrightarrow> node_id (rp_nd R) = primary (rp_nd R)"

section \<open>Timers\<close>

text \<open>The timers in the order in which the constructors of \<^verbatim>\<open>Node\<close> and \<^verbatim>\<open>Replica\<close> create them.\<close>

definition atimer :: nat where "atimer = 0"
definition vtimer :: nat where "vtimer = 1"
definition stimer :: nat where "stimer = 2"
definition rtimer :: nat where "rtimer = 3"
definition ntimer :: nat where "ntimer = 4"

definition tm :: "(timers \<Rightarrow> timers) \<Rightarrow> ('st, 'a, 'vi) replica \<Rightarrow> ('st, 'a, 'vi) replica" where
  "tm g R = R\<lparr>rp_tm := g (rp_tm R)\<rparr>"

definition start_timer :: "('st, 'a, 'vi) env \<Rightarrow> nat \<Rightarrow> ('st, 'a, 'vi) replica \<Rightarrow> ('st, 'a, 'vi) replica" where
  "start_timer E i = tm (\<lambda>T. t_start (e_now E) T i)"

definition restart_timer :: "('st, 'a, 'vi) env \<Rightarrow> nat \<Rightarrow> ('st, 'a, 'vi) replica \<Rightarrow> ('st, 'a, 'vi) replica" where
  "restart_timer E i = tm (\<lambda>T. t_restart (e_now E) T i)"

definition stop_timer :: "nat \<Rightarrow> ('st, 'a, 'vi) replica \<Rightarrow> ('st, 'a, 'vi) replica" where
  "stop_timer i = tm (\<lambda>T. t_stop T i)"

definition restop_timer :: "nat \<Rightarrow> ('st, 'a, 'vi) replica \<Rightarrow> ('st, 'a, 'vi) replica" where
  "restop_timer i = tm (\<lambda>T. t_restop T i)"

section \<open>Construction\<close>

text \<open>The constructor leaves \<^verbatim>\<open>vc_recovering\<close>, \<^verbatim>\<open>corrupt\<close> and \<^verbatim>\<open>rr_views\<close> uninitialised; they are read only after a recovery
  has set them, and start here as false and zero. \<open>vt\<close>, \<open>st\<close> and \<open>rt\<close> are the timeouts read from the configuration, \<open>at\<close> that of the authentication timer and
  \<open>rnd1\<close>, \<open>rnd2\<close> the random values that spread them; \<open>S\<close> and \<open>V\<close> are the initial state and view components.\<close>

definition Replica_new :: "('st, 'a, 'vi) env \<Rightarrow> node \<Rightarrow> 'a mem \<Rightarrow> nat \<Rightarrow> 'st \<Rightarrow> 'vi \<Rightarrow> int \<Rightarrow> int \<Rightarrow> int \<Rightarrow> int \<Rightarrow> int \<Rightarrow> int \<Rightarrow>
    ('st, 'a, 'vi) replica option" where
  "Replica_new E nd M msz S V at vt st rt rnd1 rnd2 = do {
     (ri, M') \<leftarrow> Rep_info_new (e_max_reply E) M msz (nat (num_principals nd));
     th_assert (is_replica nd (node_id nd));
     let mx = Max_num_replicas (e_b E);
     let T0 = ITimer_new (e_mhz E) timers_new at;
     let T1 = ITimer_new (e_mhz E) T0 (vt + rnd1 mod 100);
     let T2 = ITimer_new (e_mhz E) T1 (st + rnd2 mod 100);
     let T3 = t_start (e_now E) (ITimer_new (e_mhz E) T2 rt) rtimer;
     let T4 = ITimer_new (e_mhz E) T3 (30000 div max_out (e_b E));
     Some \<lparr>rp_nd = nd, rp_seqno = 0, rp_nbreqs = 0, rp_nbrounds = 0, rp_last_stable = 0, rp_low_bound = 0,
       rp_last_prepared = 0, rp_last_executed = 0, rp_last_tentative = 0,
       rp_rqueue = Req_queue_new (nat (num_principals nd)), rp_ro_rqueue = Req_queue_new (nat (num_principals nd)),
       rp_plog = Log_new (Prepared_cert_new mx nd) (max_out (e_b E)) 1,
       rp_clog = Log_new (Certificate_new mx nd 0) (max_out (e_b E)) 1,
       rp_elog = CheckpointLog_new (e_b E) (Certificate_new mx nd 0),
       rp_sset = Set_new (num_replicas nd), rp_replies = ri, rp_mem = M', rp_state = S, rp_tm = T4,
       rp_last_status = zeroTime, rp_vi = V, rp_limbo = False, rp_has_nv_state = True, rp_rec_ready = False,
       rp_recovering = False, rp_vc_recovering = False, rp_corrupt = False, rp_se = Stable_estimator_new nd, rp_qs = None,
       rp_rr = None, rp_rr_reps = Certificate_new mx nd 0, rp_rr_views = replicate (nat (num_replicas nd)) 0,
       rp_recovery_point = Seqno_max, rp_max_rec_n = 0, rp_last_new_key = None,
       rp_agreement = agreement_region_new (e_b E) (nat (e_max_msg E)) (e_prepare_size E) (e_commit_size E),
       rp_checkpoints = checkpoint_region_new (e_b E) (e_checkpoint_size E), rp_out = []\<rparr> }"

section \<open>Predicates on the state\<close>

definition has_new_view :: "('st, 'a, 'vi) env \<Rightarrow> ('st, 'a, 'vi) replica \<Rightarrow> bool" where
  "has_new_view E R \<longleftrightarrow> rp_view R = 0 \<or> (rp_has_nv_state R \<and> vo_has_new_view (e_vo E) (rp_vi R) (rp_view R))"

definition in_fetch_state :: "('st, 'a, 'vi) env \<Rightarrow> ('st, 'a, 'vi) replica \<Rightarrow> bool" where
  "in_fetch_state E R = so_in_fetch (e_so E) (rp_state R)"

definition in_check_state :: "('st, 'a, 'vi) env \<Rightarrow> ('st, 'a, 'vi) replica \<Rightarrow> bool" where
  "in_check_state E R = so_in_check (e_so E) (rp_state R)"

definition delay_vc :: "('st, 'a, 'vi) env \<Rightarrow> ('st, 'a, 'vi) replica \<Rightarrow> bool" where
  "delay_vc E R \<longleftrightarrow> in_check_state E R \<or> in_fetch_state E R"

definition has_req :: "('st, 'a, 'vi) replica \<Rightarrow> int \<Rightarrow> digest \<Rightarrow> bool" where
  "has_req R c d = (case first_client (rp_rqueue R) (nat c) of
     Some (Some r) \<Rightarrow> digest_eq (r_od r) d | _ \<Rightarrow> False)"

text \<open>An authenticator check never aborts at a replica; \<open>yes\<close> reads its answer.\<close>

definition yes :: "bool option \<Rightarrow> bool" where
  "yes x \<longleftrightarrow> x = Some True"

text \<open>The requests of a batch in the order of \<^verbatim>\<open>Requests_iter\<close>. Every request is at least one byte long, so a fuel of
  one more than the size of the request set is enough; a request of size zero makes the loop endless.\<close>

fun pp_requests :: "nat \<Rightarrow> pre_prepare \<Rightarrow> int \<Rightarrow> request list option" where
  "pp_requests 0 p nxt = None"
| "pp_requests (Suc k) p nxt = do {
     (r, nxt') \<leftarrow> Requests_iter_get p nxt;
     case r of None \<Rightarrow> Some []
     | Some r \<Rightarrow> do { rs \<leftarrow> pp_requests k p nxt'; Some (r # rs) } }"

definition batch :: "pre_prepare \<Rightarrow> request list option" where
  "batch p = pp_requests (Suc (nat (pp_rset_size p))) p 0"

definition command :: "request \<Rightarrow> byte list" where
  "command r = take (nat (r_command_size r)) (m_rest r)"

section \<open>New session keys\<close>

text \<open>\<^verbatim>\<open>New_key::refresh_keys\<close>: a fresh key for the messages of every other replica, and for the node itself; \<open>rnd\<close> are
  the random keys. The message that carries the encrypted keys is represented by its timestamp.\<close>

definition refresh_keys :: "int \<Rightarrow> (int \<Rightarrow> key) \<Rightarrow> node \<Rightarrow> (request_id \<times> node) option" where
  "refresh_keys now rnd nd = do {
     (rid, nd1) \<leftarrow> new_rid now nd;
     let ps = map (\<lambda>(i, p). if int i = node_id nd then set_out_key now p (rnd (int i)) rid
                             else if int i < num_replicas nd then set_in_key p (rnd (int i)) else p)
                (enumerate 0 (principals nd1));
     Some (rid, nd1\<lparr>principals := ps\<rparr>) }"

definition Node_send_new_key :: "('st, 'a, 'vi) env \<Rightarrow> ('st, 'a, 'vi) replica \<Rightarrow> ('st, 'a, 'vi) replica option" where
  "Node_send_new_key E R = do {
     (rid, nd) \<leftarrow> refresh_keys (e_now E) (e_rnd E) (rp_nd R);
     Some (restart_timer E atimer (stop_timer atimer (emit (Out_new_key rid) All_replicas (R\<lparr>rp_nd := nd, rp_last_new_key := Some rid\<rparr>)))) }"

text \<open>The loops of \<^verbatim>\<open>send_new_key\<close> count with an \<^verbatim>\<open>int\<close> lower and upper limit.\<close>

definition seqnos :: "int \<Rightarrow> int \<Rightarrow> seqno list" where
  "seqnos lo hi = [lo..hi]"

definition mark_stale_elog :: "build \<Rightarrow> seqno list \<Rightarrow> checkpoint certificate clog \<Rightarrow> checkpoint certificate clog option" where
  "mark_stale_elog b ns l = fold_opt (\<lambda>n l.
     if n smod checkpoint_interval b = 0 then do {
       C \<leftarrow> clog_fetch b l n; C' \<leftarrow> cert_mark_stale C; clog_put b l n C' }
     else Some l) ns l"

definition mark_stale_plog :: "node \<Rightarrow> seqno list \<Rightarrow> prepared_cert log \<Rightarrow> prepared_cert log option" where
  "mark_stale_plog nd ns l = fold_opt (\<lambda>n l. do { P \<leftarrow> log_fetch l n; P' \<leftarrow> pc_mark_stale nd P; log_put l n P' }) ns l"

definition mark_stale_clog :: "seqno list \<Rightarrow> commit certificate log \<Rightarrow> commit certificate log option" where
  "mark_stale_clog ns l = fold_opt (\<lambda>n l. do { C \<leftarrow> log_fetch l n; C' \<leftarrow> cert_mark_stale C; log_put l n C' }) ns l"

definition send_new_key :: "('st, 'a, 'vi) env \<Rightarrow> ('st, 'a, 'vi) replica \<Rightarrow> ('st, 'a, 'vi) replica option" where
  "send_new_key E R = do {
     R1 \<leftarrow> Node_send_new_key E R;
     let mx = to_int32 (rp_last_stable R1 + max_out (e_b E));
     let mn = to_int32 (rp_last_stable R1 + 1);
     el \<leftarrow> mark_stale_elog (e_b E) (seqnos mn mx) (rp_elog R1);
     let mn' = (if rp_last_executed R1 > rp_last_stable R1 then to_int32 (rp_last_executed R1 + 1) else mn);
     pl \<leftarrow> mark_stale_plog (rp_nd R1) (seqnos mn' mx) (rp_plog R1);
     cl \<leftarrow> mark_stale_clog (seqnos mn' mx) (rp_clog R1);
     vi \<leftarrow> vo_mark_stale (e_vo E) (rp_vi R1);
     Some (R1\<lparr>rp_elog := el, rp_plog := pl, rp_clog := cl, rp_vi := vi, rp_state := so_mark_stale (e_so E) (rp_state R1)\<rparr>) }"

end
