(* ===== verification/Replica_Exec.thy ===== *)
theory Replica_Exec
  imports Replica_State
begin

text \<open>
  Ordering and execution in \<^verbatim>\<open>Replica.cc\<close>: pre-prepares, read-only requests, stable checkpoints, view changes and new
  views, recovery replies, tentative and committed execution. The operations stand in the order of their calls;
  only \<^verbatim>\<open>mark_stable\<close> calls itself.
\<close>

section \<open>Helpers\<close>

text \<open>An index into an array by an \<^verbatim>\<open>int\<close> identifier.\<close>

definition slot_of :: "int \<Rightarrow> nat option" where
  "slot_of i = (if i < 0 then None else Some (nat i))"

text \<open>The reply with the zero bytes up to the next multiple of the alignment.\<close>

definition pad_reply :: "byte list \<Rightarrow> byte list" where
  "pad_reply bs = (if int (length bs) mod ALIGNMENT = 0 then bs
     else bs @ replicate (nat (ALIGNMENT - int (length bs) mod ALIGNMENT)) 0)"

text \<open>A change of the node's own message through the pointer returned by \<^verbatim>\<open>mine()\<close>; the chosen value is the same
  object.\<close>

definition update_mine :: "('m \<Rightarrow> 'm) \<Rightarrow> 'm certificate \<Rightarrow> 'm certificate" where
  "update_mine g C = (case mym C of None \<Rightarrow> C
     | Some m \<Rightarrow> C\<lparr>mym := Some (g m),
         vals := (case c_val C of None \<Rightarrow> vals C
                  | Some i \<Rightarrow> if mv_m (vals C ! i) = Some m then (vals C)[i := (vals C ! i)\<lparr>mv_m := Some (g m)\<rparr>] else vals C)\<rparr>)"

section \<open>Read-only requests\<close>

definition full_reply :: "node \<Rightarrow> request \<Rightarrow> byte list \<Rightarrow> bool" where
  "full_reply nd req bs \<longleftrightarrow> length bs < 50 \<or> r_replier req = node_id nd \<or> r_replier req < 0"

definition execute_read_only :: "('st, 'a, 'vi) env \<Rightarrow> request \<Rightarrow> ('st, 'a, 'vi) replica \<Rightarrow> (bool \<times> ('st, 'a, 'vi) replica) option" where
  "execute_read_only E req R =
     (if rp_last_tentative R = rp_last_executed R \<and> \<not> in_fetch_state E R \<and> \<not> in_check_state E R then do {
        let nd = rp_nd R;
        rep \<leftarrow> Reply_new (rp_view R) (r_rid req) (node_id nd) (replicate (nat (e_max_msg E) - sizeof_Reply_rep) 0) (e_max_msg E);
        (err, bs, app, st) \<leftarrow> e_exec E (command req) [] (r_cid req) True (mem_app (rp_mem R)) (rp_state R);
        th_assert (int (length (pad_reply bs)) \<le> store_reply_max rep + MAC_size);
        let R1 = R\<lparr>rp_mem := (rp_mem R)\<lparr>mem_app := app\<rparr>, rp_state := st\<rparr>;
        R2 \<leftarrow> (if err = 0 then do {
            p \<leftarrow> i_to_p nd (r_cid req);
            rep' \<leftarrow> Reply_authenticate (e_cr E) (rep\<lparr>m_rest := put_bytes (m_rest rep) 0 (pad_reply bs)\<rparr>) p (int (length bs)) True;
            Some (emit (Out_reply (if full_reply nd req bs then rep'
              else Reply_digest_new (e_cr E) (rp_view R) (r_rid req) (node_id nd) (y_digest rep') p True)) (r_cid req) R1) }
          else Some R1);
        Some (True, R2) }
      else Some (False, R))"

text \<open>The loop that executes the buffered read-only requests. Every round takes one request off the queue, which has
  at most one per principal.\<close>

fun drain_ro :: "nat \<Rightarrow> ('st, 'a, 'vi) env \<Rightarrow> ('st, 'a, 'vi) replica \<Rightarrow> ('st, 'a, 'vi) replica option" where
  "drain_ro 0 E R = None"
| "drain_ro (Suc k) E R = do {
     (m, q) \<leftarrow> q_remove request_ops (rp_ro_rqueue R);
     case m of None \<Rightarrow> Some (R\<lparr>rp_ro_rqueue := q\<rparr>)
     | Some req \<Rightarrow> do {
         (b, R') \<leftarrow> execute_read_only E req (R\<lparr>rp_ro_rqueue := q\<rparr>);
         drain_ro k E R' } }"

definition execute_buffered_ro :: "('st, 'a, 'vi) env \<Rightarrow> ('st, 'a, 'vi) replica \<Rightarrow> ('st, 'a, 'vi) replica option" where
  "execute_buffered_ro E R = drain_ro (Suc (length (reqs (rp_ro_rqueue R)))) E R"

section \<open>Pre-prepares\<close>

definition congestion_window :: int where
  "congestion_window = 1"

definition log_my_pre_prepare :: "('st, 'a, 'vi) env \<Rightarrow> pre_prepare \<Rightarrow> seqno \<Rightarrow> ('st, 'a, 'vi) replica \<Rightarrow> ('st, 'a, 'vi) replica option" where
  "log_my_pre_prepare E pp n R = do {
     P \<leftarrow> log_fetch (rp_plog R) n;
     (b, P') \<leftarrow> pc_add_mine_pp (rp_nd R) (e_now E) P pp;
     pl \<leftarrow> log_put (rp_plog R) n P';
     Some (R\<lparr>rp_plog := pl\<rparr>) }"

definition send_pre_prepare :: "('st, 'a, 'vi) env \<Rightarrow> ('st, 'a, 'vi) replica \<Rightarrow> ('st, 'a, 'vi) replica option" where
  "send_pre_prepare E R = do {
     th_assert (primary (rp_nd R) = node_id (rp_nd R));
     if nelems (rp_rqueue R) > 0 \<and> rp_seqno R + 1 \<le> rp_last_executed R + congestion_window \<and>
        rp_seqno R + 1 \<le> max_out (e_b E) + rp_last_stable R \<and> has_new_view E R
     then do {
       let n = rp_seqno R + 1;
       (pp, q) \<leftarrow> Pre_prepare_new (e_cr E) (rp_nd R) (e_max_nd E) (e_nd E) (e_max_msg E) (e_slot E n) (rp_view R) n (rp_rqueue R);
       log_my_pre_prepare E pp n (emit (Out_pre_prepare pp) All_replicas
         (R\<lparr>rp_nbreqs := rp_nbreqs R + nelems (rp_rqueue R), rp_nbrounds := rp_nbrounds R + 1, rp_seqno := n, rp_rqueue := q\<rparr>)) }
     else Some R }"

section \<open>Stable checkpoints\<close>

definition try_end_recovery :: "('st, 'a, 'vi) env \<Rightarrow> ('st, 'a, 'vi) replica \<Rightarrow> ('st, 'a, 'vi) replica option" where
  "try_end_recovery E R =
     (if rp_recovering R \<and> rp_last_stable R \<ge> rp_recovery_point R \<and> \<not> in_check_state E R \<and> is_complete (rp_rr_reps R)
      then execute_buffered_ro E (R\<lparr>rp_recovering := False\<rparr>)
      else Some R)"

text \<open>A sequence number stored in the first eight bytes of a reply.\<close>

definition reply_seqno :: "reply \<Rightarrow> seqno" where
  "reply_seqno r = le_sint (take 8 (m_rest r))"

definition max_rec_scan :: "('st, 'a, 'vi) replica \<Rightarrow> (bool \<times> seqno) option" where
  "max_rec_scan R = fold_opt (\<lambda>i (chg, mx). do {
     r \<leftarrow> rep_reply (rp_mem R) i;
     Some (if y_reply_size r = 8 \<and> reply_seqno r > mx then (True, reply_seqno r) else (chg, mx)) })
     [0..<nat (num_replicas (rp_nd R))] (False, rp_max_rec_n R)"

definition update_max_rec :: "('st, 'a, 'vi) env \<Rightarrow> ('st, 'a, 'vi) replica \<Rightarrow> ('st, 'a, 'vi) replica option" where
  "update_max_rec E R = do {
     (chg, mx) \<leftarrow> max_rec_scan R;
     let R1 = R\<lparr>rp_max_rec_n := mx\<rparr>;
     if chg then send_new_key E R1 else Some R1 }"

text \<open>\<^verbatim>\<open>mark_stable\<close> up to the truncation of the logs.\<close>

definition ms_catch_up :: "('st, 'a, 'vi) env \<Rightarrow> seqno \<Rightarrow> bool \<Rightarrow> ('st, 'a, 'vi) replica \<Rightarrow> ('st, 'a, 'vi) replica option" where
  "ms_catch_up E n have_state R = do {
     let R1 = R\<lparr>rp_last_stable := n, rp_low_bound := max (rp_low_bound R) n\<rparr>;
     R2 \<leftarrow> (if have_state \<and> n > rp_last_executed R1 then do {
         let R1' = R1\<lparr>rp_last_executed := n, rp_last_tentative := n\<rparr>;
         (b, ri, q) \<leftarrow> rep_new_state request_ops (rp_replies R1') (rp_mem R1') (rp_rqueue R1');
         R1'' \<leftarrow> update_max_rec E (R1'\<lparr>rp_replies := ri, rp_rqueue := q\<rparr>);
         Some (R1''\<lparr>rp_last_prepared := max (rp_last_prepared R1'') n\<rparr>) }
       else Some R1);
     Some (R2\<lparr>rp_seqno := max (rp_seqno R2) n\<rparr>) }"

text \<open>The truncation of the logs and regions.\<close>

definition ms_truncate :: "('st, 'a, 'vi) env \<Rightarrow> seqno \<Rightarrow> ('st, 'a, 'vi) replica \<Rightarrow> ('st, 'a, 'vi) replica option" where
  "ms_truncate E n R = do {
     let pl = log_truncate pc_clear (rp_plog R) (n + 1);
     let cl = log_truncate cert_clear (rp_clog R) (n + 1);
     let ar = ar_truncate (e_b E) (rp_agreement R) (n + 1);
     vi \<leftarrow> vo_mark_stable (e_vo E) (rp_vi R) n;
     el \<leftarrow> clog_truncate (e_b E) cert_clear (rp_elog R) n;
     cg \<leftarrow> cg_truncate (e_b E) (rp_checkpoints R) n;
     st \<leftarrow> so_discard (e_so E) (rp_state R) (rp_mem R) n (rp_last_executed R);
     Some (R\<lparr>rp_plog := pl, rp_clog := cl, rp_agreement := ar, rp_vi := vi, rp_elog := el, rp_checkpoints := cg,
       rp_state := st\<rparr>) }"

text \<open>The node's own message for the stable checkpoint.\<close>

definition ms_own_checkpoint :: "('st, 'a, 'vi) env \<Rightarrow> seqno \<Rightarrow> ('st, 'a, 'vi) replica \<Rightarrow> ('st, 'a, 'vi) replica option" where
  "ms_own_checkpoint E n R = do {
     C \<leftarrow> clog_fetch (e_b E) (rp_elog R) n;
     C' \<leftarrow> (case mine C of
         None \<Rightarrow> do {
           d \<leftarrow> so_digest (e_so E) (rp_state R) n;
           (b, C1) \<leftarrow> cert_add_mine checkpoint_ops (rp_nd R) (e_now E) C (Checkpoint_new (e_cr E) (rp_nd R) n d True);
           Some (make_complete C1) }
       | Some c \<Rightarrow> Some (update_mine (\<lambda>c. Checkpoint_re_authenticate (e_cr E) (rp_nd R) c True) C));
     el \<leftarrow> clog_put (e_b E) (rp_elog R) n C';
     Some (R\<lparr>rp_elog := el\<rparr>) }"

definition ck_verify :: "('st, 'a, 'vi) env \<Rightarrow> ('st, 'a, 'vi) replica \<Rightarrow> checkpoint \<Rightarrow> bool" where
  "ck_verify E R m = yes (Checkpoint_verify (e_cr E) (rp_nd R) m)"

text \<open>The loop over \<^verbatim>\<open>sset\<close>: one replica.\<close>

definition ms_transfer_one :: "('st, 'a, 'vi) env \<Rightarrow> nat \<Rightarrow> seqno \<times> ('st, 'a, 'vi) replica \<Rightarrow> (seqno \<times> ('st, 'a, 'vi) replica) option" where
  "ms_transfer_one E i s = (case s of (new_ls, R) \<Rightarrow>
     (case set_fetch (rp_sset R) (int i) of
        None \<Rightarrow> Some (new_ls, R)
      | Some c \<Rightarrow>
          if k_seqno c < rp_last_stable R then Some (new_ls, R\<lparr>rp_sset := snd (set_remove (rp_sset R) (int i))\<rparr>)
          else if k_seqno c \<le> rp_last_stable R + max_out (e_b E) then do {
            C \<leftarrow> clog_fetch (e_b E) (rp_elog R) (k_seqno c);
            (b, C') \<leftarrow> cert_add checkpoint_ops (ck_verify E R) (rp_nd R) C c;
            el \<leftarrow> clog_put (e_b E) (rp_elog R) (k_seqno c) C';
            Some (if is_complete C' \<and> k_seqno c > new_ls then k_seqno c else new_ls,
              R\<lparr>rp_elog := el, rp_sset := snd (set_remove (rp_sset R) (int i))\<rparr>) }
          else Some (new_ls, R)))"

definition ms_transfer :: "('st, 'a, 'vi) env \<Rightarrow> ('st, 'a, 'vi) replica \<Rightarrow> (seqno \<times> ('st, 'a, 'vi) replica) option" where
  "ms_transfer E R = fold_opt (ms_transfer_one E) [0..<nat (num_replicas (rp_nd R))] (rp_last_stable R, R)"

text \<open>\<^verbatim>\<open>elog.within_range(n) && elog.fetch(n).mine()\<close>\<close>

definition have_checkpoint :: "('st, 'a, 'vi) env \<Rightarrow> seqno \<Rightarrow> ('st, 'a, 'vi) replica \<Rightarrow> bool option" where
  "have_checkpoint E n R =
     (if clog_within_range (e_b E) (rp_elog R) n then do {
        C \<leftarrow> clog_fetch (e_b E) (rp_elog R) n;
        Some (mine C \<noteq> None) }
      else Some False)"

fun mark_stable_n :: "nat \<Rightarrow> ('st, 'a, 'vi) env \<Rightarrow> seqno \<Rightarrow> bool \<Rightarrow> ('st, 'a, 'vi) replica \<Rightarrow> ('st, 'a, 'vi) replica option" where
  "mark_stable_n 0 E n have_state R = None"
| "mark_stable_n (Suc k) E n have_state R =
     (if n \<le> rp_last_stable R then Some R
      else do {
        R1 \<leftarrow> ms_catch_up E n have_state R;
        R2 \<leftarrow> ms_truncate E n R1;
        R3 \<leftarrow> (if have_state then do { R' \<leftarrow> ms_own_checkpoint E n R2; try_end_recovery E R' } else Some R2);
        (new_ls, R4) \<leftarrow> ms_transfer E R3;
        R5 \<leftarrow> (if new_ls > rp_last_stable R4 then do {
            h \<leftarrow> have_checkpoint E new_ls R4;
            mark_stable_n k E new_ls h R4 }
          else Some R4);
        if is_primary R5 then send_pre_prepare E R5 else Some R5 })"

text \<open>A call of \<^verbatim>\<open>mark_stable\<close> by itself follows the removal of an element of \<^verbatim>\<open>sset\<close>, which has at most one per replica.\<close>

definition mark_stable :: "('st, 'a, 'vi) env \<Rightarrow> seqno \<Rightarrow> bool \<Rightarrow> ('st, 'a, 'vi) replica \<Rightarrow> ('st, 'a, 'vi) replica option" where
  "mark_stable E n have_state R = mark_stable_n (nat (num_replicas (rp_nd R)) + 2) E n have_state R"

section \<open>View changes\<close>

text \<open>One request of the new view: the loop of \<^verbatim>\<open>process_new_view\<close>.\<close>

definition nv_one :: "('st, 'a, 'vi) env \<Rightarrow> seqno \<Rightarrow> ('st, 'a, 'vi) replica \<Rightarrow> ('st, 'a, 'vi) replica option" where
  "nv_one E i R = do {
     (pp, d, vi) \<leftarrow> vo_fetch_request (e_vo E) (rp_vi R) i;
     let R1 = R\<lparr>rp_vi := vi\<rparr>;
     P \<leftarrow> log_fetch (rp_plog R1) i;
     if is_primary R1 then do {
       m \<leftarrow> pp;
       (b, P') \<leftarrow> pc_add_mine_pp (rp_nd R1) (e_now E) P m;
       pl \<leftarrow> log_put (rp_plog R1) i P';
       Some (R1\<lparr>rp_plog := pl\<rparr>) }
     else do {
       let p = Prepare_new (e_cr E) (rp_nd R1) (rp_view R1) i d None;
       (b, P') \<leftarrow> pc_add_mine (rp_nd R1) (e_now E) P p;
       m \<leftarrow> pp;
       th_assert (digest_eq (pp_digest m) (p_digest p));
       P'' \<leftarrow> pc_add_old P' m;
       pl \<leftarrow> log_put (rp_plog R1) i P'';
       Some (emit (Out_prepare p) All_replicas (R1\<lparr>rp_plog := pl\<rparr>)) } }"

definition process_new_view :: "('st, 'a, 'vi) env \<Rightarrow> new_view_call \<Rightarrow> ('st, 'a, 'vi) replica \<Rightarrow> ('st, 'a, 'vi) replica option" where
  "process_new_view E nvc R = do {
     th_assert (nc_ms nvc \<ge> 0 \<and> nc_ms nvc \<le> nc_min nvc);
     let R0 = (restop_timer vtimer R)\<lparr>rp_limbo := False, rp_vc_recovering := True\<rparr>;
     let R1 = (if primary_of (rp_nd R0) (rp_view R0) = node_id (rp_nd R0) then emit Out_new_view All_replicas R0 else R0);
     let mn = max (nc_min nvc) (rp_last_stable R1);
     let R2 = R1\<lparr>rp_seqno := nc_max nvc - 1, rp_low_bound := mn\<rparr>;
     R3 \<leftarrow> (if nc_ms nvc > rp_last_stable R2 then mark_stable E (nc_ms nvc) (rp_last_executed R2 \<ge> nc_ms nvc) R2 else Some R2);
     th_assert (mn \<ge> rp_last_stable R3 \<and> nc_max nvc - rp_last_stable R3 - 1 \<le> max_out (e_b E));
     R4 \<leftarrow> fold_opt (nv_one E) [mn + 1..nc_max nvc - 1] R3;
     R5 \<leftarrow> (if is_primary R4 then do { R' \<leftarrow> send_pre_prepare E R4; Some (start_timer E ntimer R') } else Some R4);
     R6 \<leftarrow> (if rp_last_executed R5 < mn then do {
         st \<leftarrow> so_start_fetch (e_so E) (rp_state R5) (rp_last_executed R5) (Some (mn, nc_d nvc, mn \<le> nc_ms nvc));
         Some (R5\<lparr>rp_has_nv_state := False, rp_state := st\<rparr>) }
       else execute_buffered_ro E (R5\<lparr>rp_has_nv_state := True\<rparr>));
     Some (if \<not> is_primary R6 \<and> nelems (rp_rqueue R6) > 0 then restart_timer E vtimer R6 else R6) }"

text \<open>The rollback of a tentative execution, which several operations share.\<close>

definition rollback_tentative :: "('st, 'a, 'vi) env \<Rightarrow> ('st, 'a, 'vi) replica \<Rightarrow> ('st, 'a, 'vi) replica option" where
  "rollback_tentative E R =
     (if rp_last_tentative R > rp_last_executed R then do {
        th_assert (\<not> in_fetch_state E R);
        (rc, st, M) \<leftarrow> so_rollback (e_so E) (rp_state R) (rp_mem R);
        Some (R\<lparr>rp_last_tentative := rc, rp_last_executed := rc, rp_state := st, rp_mem := M\<rparr>) }
      else Some R)"

text \<open>One sequence number of the window in \<^verbatim>\<open>send_view_change\<close>.\<close>

definition vc_one :: "('st, 'a, 'vi) env \<Rightarrow> seqno \<Rightarrow> ('st, 'a, 'vi) replica \<Rightarrow> ('st, 'a, 'vi) replica option" where
  "vc_one E i R = do {
     P \<leftarrow> log_fetch (rp_plog R) i;
     C \<leftarrow> log_fetch (rp_clog R) i;
     b \<leftarrow> pc_is_complete P;
     vi \<leftarrow> (if b then do { pp \<leftarrow> fst (rem_pre_prepare P); vo_add_complete (e_vo E) (rp_vi R) pp }
           else (case my_prepare P of
               Some p \<Rightarrow> vo_add_incomplete (e_vo E) (rp_vi R) i (p_digest p)
             | None \<Rightarrow> (case my_pre_prepare P of
                 Some pp \<Rightarrow> vo_add_incomplete (e_vo E) (rp_vi R) i (pp_digest pp)
               | None \<Rightarrow> Some (rp_vi R))));
     pl \<leftarrow> log_put (rp_plog R) i (pc_clear P);
     cl \<leftarrow> log_put (rp_clog R) i (cert_clear C);
     Some (R\<lparr>rp_vi := vi, rp_plog := pl, rp_clog := cl\<rparr>) }"

definition new_view_opt :: "('st, 'a, 'vi) env \<Rightarrow> new_view_call option \<Rightarrow> ('st, 'a, 'vi) replica \<Rightarrow> ('st, 'a, 'vi) replica option" where
  "new_view_opt E nvc R = (case nvc of None \<Rightarrow> Some R | Some c \<Rightarrow> process_new_view E c R)"

definition send_view_change :: "('st, 'a, 'vi) env \<Rightarrow> ('st, 'a, 'vi) replica \<Rightarrow> ('st, 'a, 'vi) replica option" where
  "send_view_change E R = do {
     let v = rp_view R + 1;
     let R0 = restop_timer ntimer (stop_timer vtimer (R\<lparr>rp_limbo := True,
       rp_nd := (rp_nd R)\<lparr>cur_view := v, cur_primary := v smod num_replicas (rp_nd R)\<rparr>\<rparr>));
     R1 \<leftarrow> rollback_tentative E R0;
     let R2 = R1\<lparr>rp_last_prepared := rp_last_executed R1\<rparr>;
     R3 \<leftarrow> fold_opt (vc_one E) [rp_last_stable R2 + 1..rp_last_stable R2 + max_out (e_b E)] R2;
     (vi, nvc) \<leftarrow> vo_view_change (e_vo E) (rp_vi R3) v (rp_last_executed R3) (rp_state R3);
     new_view_opt E nvc (R3\<lparr>rp_vi := vi\<rparr>) }"

section \<open>Replies to the replica's own requests\<close>

definition enforce_view :: "('st, 'a, 'vi) env \<Rightarrow> view \<Rightarrow> ('st, 'a, 'vi) replica \<Rightarrow> ('st, 'a, 'vi) replica option" where
  "enforce_view E rec_view R = do {
     th_assert (rp_recovering R);
     if rec_view \<ge> rp_view R \<or> rp_vc_recovering R \<or> (rp_limbo R \<and> rec_view + 1 = rp_view R) then Some R
     else send_view_change E (R\<lparr>rp_corrupt := True, rp_vi := vo_clear (e_vo E) (rp_vi R),
       rp_nd := (rp_nd R)\<lparr>cur_view := rec_view - 1\<rparr>\<rparr>) }"

definition rep_verify :: "('st, 'a, 'vi) env \<Rightarrow> ('st, 'a, 'vi) replica \<Rightarrow> reply \<Rightarrow> bool" where
  "rep_verify E R m = yes (Reply_verify (e_cr E) (rp_nd R) m)"

text \<open>The reply to a request that is not a recovery request; the callback gets the certified reply.\<close>

definition handle_request_reply :: "('st, 'a, 'vi) env \<Rightarrow> reply \<Rightarrow> bool \<Rightarrow> ('st, 'a, 'vi) replica \<Rightarrow> ('st, 'a, 'vi) replica option" where
  "handle_request_reply E m own R = do {
     let C = rp_rr_reps R;
     (added, C1) \<leftarrow> (if own \<and> mine C = None then cert_add_mine reply_ops (rp_nd R) (e_now E) C m
       else if \<not> own then cert_add reply_ops (rep_verify E R) (rp_nd R) C m else Some (False, C));
     if added \<and> is_complete C1 then do {
       cv \<leftarrow> cvalue C1;
       th_assert (Reply_full cv);
       let C2 = snd (cvalue_clear C1);
       Some (emit (Out_callback cv) (node_id (rp_nd R)) (R\<lparr>rp_rr_reps := C2, rp_rr := None\<rparr>)) }
     else Some (R\<lparr>rp_rr_reps := C1\<rparr>) }"

definition handle_recovery_reply :: "('st, 'a, 'vi) env \<Rightarrow> reply \<Rightarrow> bool \<Rightarrow> ('st, 'a, 'vi) replica \<Rightarrow> ('st, 'a, 'vi) replica option" where
  "handle_recovery_reply E m own R = do {
     (added, C) \<leftarrow> (if own then cert_add_mine reply_ops (rp_nd R) (e_now E) (rp_rr_reps R) m
       else cert_add reply_ops (rep_verify E R) (rp_nd R) (rp_rr_reps R) m);
     let R1 = R\<lparr>rp_rr_reps := C\<rparr>;
     if added then do {
       let mv = to_int32 (y_v m);
       i \<leftarrow> slot_of (y_replica m);
       old \<leftarrow> arr_get (rp_rr_views R1) i;
       views \<leftarrow> arr_set (rp_rr_views R1) i (if old < mv then mv else old);
       let R2 = R1\<lparr>rp_rr_views := views\<rparr>;
       if is_complete C then do {
         cv \<leftarrow> cvalue C;
         th_assert (y_reply_size cv = 8);
         let new_rp = reply_seqno cv sdiv checkpoint_interval (e_b E) * checkpoint_interval (e_b E) + max_out (e_b E);
         let R3 = R2\<lparr>rp_recovery_point := max (rp_recovery_point R2) new_rp\<rparr>;
         rec_view \<leftarrow> K_max (max_faulty (rp_nd R3) + 1) views View_max;
         R4 \<leftarrow> enforce_view E rec_view R3;
         R5 \<leftarrow> try_end_recovery E R4;
         Some (R5\<lparr>rp_rr := None\<rparr>) }
       else Some R2 }
     else Some R1 }"

definition handle_reply :: "('st, 'a, 'vi) env \<Rightarrow> reply \<Rightarrow> bool \<Rightarrow> ('st, 'a, 'vi) replica \<Rightarrow> ('st, 'a, 'vi) replica option" where
  "handle_reply E m own R = (case rp_rr R of
     None \<Rightarrow> Some R
   | Some rr \<Rightarrow>
       if r_rid rr \<noteq> y_rid m then Some R
       else if \<not> is_recovery rr then handle_request_reply E m own R
       else if own \<or> is_tentative m then handle_recovery_reply E m own R
       else Some R)"

text \<open>\<^verbatim>\<open>replies.send_reply\<close> with what it does with the reply. The stored reply is restored before the node's own
  reply is handled.\<close>

definition do_send_reply :: "('st, 'a, 'vi) env \<Rightarrow> int \<Rightarrow> bool \<Rightarrow> ('st, 'a, 'vi) replica \<Rightarrow> ('st, 'a, 'vi) replica option" where
  "do_send_reply E cid tentative R = do {
     c \<leftarrow> slot_of cid;
     (a, ri, M) \<leftarrow> send_reply (e_cr E) (rp_nd R) (e_mhz E) (e_now E) (rp_replies R) (rp_mem R) c (rp_view R) (node_id (rp_nd R)) tentative;
     let R1 = R\<lparr>rp_replies := ri, rp_mem := M\<rparr>;
     case a of None \<Rightarrow> Some R1
     | Some (Send_reply r d) \<Rightarrow> Some (emit (Out_reply r) d R1)
     | Some (Handle_own_reply r) \<Rightarrow> handle_reply E r True R1 }"

section \<open>Execution\<close>

definition prepared :: "('st, 'a, 'vi) replica \<Rightarrow> seqno \<Rightarrow> pre_prepare option option" where
  "prepared R n = do {
     P \<leftarrow> log_fetch (rp_plog R) n;
     b \<leftarrow> pc_is_complete P;
     Some (if b then pc_pp P else None) }"

definition committed :: "('st, 'a, 'vi) replica \<Rightarrow> seqno \<Rightarrow> pre_prepare option option" where
  "committed R n = do {
     pp \<leftarrow> prepared R n;
     C \<leftarrow> log_fetch (rp_clog R) n;
     Some (if is_complete C then pp else None) }"

text \<open>The end of the execution of a request: the reply is completed and sent.\<close>

definition finish_request :: "('st, 'a, 'vi) env \<Rightarrow> bool \<Rightarrow> request \<Rightarrow> nat \<Rightarrow> byte list \<Rightarrow> ('st, 'a, 'vi) replica \<Rightarrow> ('st, 'a, 'vi) replica option" where
  "finish_request E cmt req c bs R = do {
     M1 \<leftarrow> write_reply (rp_mem R) c (pad_reply bs);
     M2 \<leftarrow> end_reply (e_cr E) M1 c (r_rid req) (int (length bs));
     let R1 = R\<lparr>rp_mem := M2\<rparr>;
     if bs \<noteq> [] \<and> \<not> is_replica (rp_nd R1) (r_cid req) then
       if full_reply (rp_nd R1) req bs then do_send_reply E (r_cid req) (\<not> cmt) R1
       else do {
         d \<leftarrow> rep_digest M2 c;
         p \<leftarrow> i_to_p (rp_nd R1) (r_cid req);
         Some (emit (Out_reply (Reply_digest_new (e_cr E) (rp_view R1) (r_rid req) (node_id (rp_nd R1)) d p (\<not> cmt))) (r_cid req) R1) }
     else Some R1 }"

text \<open>One request of the batch. A service that writes more than the buffer it was given has no defined behaviour.\<close>

definition exec_one :: "('st, 'a, 'vi) env \<Rightarrow> bool \<Rightarrow> pre_prepare \<Rightarrow> request \<Rightarrow> ('st, 'a, 'vi) replica \<Rightarrow> ('st, 'a, 'vi) replica option" where
  "exec_one E cmt pp req R = do {
     c \<leftarrow> slot_of (r_cid req);
     rid \<leftarrow> req_id (rp_mem R) c;
     if rid \<ge> r_rid req then do_send_reply E (r_cid req) True R
     else do {
       (cap, ri, st, M) \<leftarrow> new_reply (so_cow (e_so E)) (e_max_reply E) (rp_replies R) (rp_state R) (rp_mem R) c;
       nds \<leftarrow> choices pp;
       let R1 = R\<lparr>rp_replies := ri, rp_state := st, rp_mem := M\<rparr>;
       if is_replica (rp_nd R1) (r_cid req) \<and> is_recovery req then
         if r_command_size req \<noteq> 8 then Some R1
         else do {
           R2 \<leftarrow> (if r_cid req \<noteq> node_id (rp_nd R1) then send_new_key E R1 else Some R1);
           finish_request E cmt req c (le_bytes 8 (rp_last_tentative R2)) (R2\<lparr>rp_max_rec_n := rp_last_tentative R2\<rparr>) }
       else do {
         (err, bs, app, st') \<leftarrow> e_exec E (command req) nds (r_cid req) False (mem_app M) st;
         th_assert (int (length bs) \<le> cap);
         finish_request E cmt req c bs (R1\<lparr>rp_mem := M\<lparr>mem_app := app\<rparr>, rp_state := st'\<rparr>) } } }"

definition execute_prepared :: "('st, 'a, 'vi) env \<Rightarrow> bool \<Rightarrow> ('st, 'a, 'vi) replica \<Rightarrow> ('st, 'a, 'vi) replica option" where
  "execute_prepared E cmt R =
     (if rp_last_tentative R < rp_last_executed R + 1 \<and> rp_last_executed R < rp_last_stable R + max_out (e_b E) \<and>
         \<not> in_fetch_state E R \<and> \<not> in_check_state E R \<and> has_new_view E R
      then do {
        ppo \<leftarrow> prepared R (rp_last_executed R + 1);
        case ppo of
          None \<Rightarrow> Some R
        | Some pp \<Rightarrow>
            if pp_view pp \<noteq> rp_view R then Some R
            else do {
              let R1 = R\<lparr>rp_last_tentative := rp_last_executed R + 1\<rparr>;
              th_assert (pp_seqno pp = rp_last_tentative R1);
              rs \<leftarrow> batch pp;
              R2 \<leftarrow> fold_opt (exec_one E cmt pp) rs R1;
              if (rp_last_executed R2 + 1) smod checkpoint_interval (e_b E) = 0 then do {
                st \<leftarrow> so_checkpoint (e_so E) (rp_state R2) (rp_mem R2) (rp_last_executed R2 + 1);
                Some (R2\<lparr>rp_state := st\<rparr>) }
              else Some R2 } }
      else Some R)"

text \<open>One request of a committed batch.\<close>

definition commit_one :: "('st, 'a, 'vi) env \<Rightarrow> request \<Rightarrow> ('st, 'a, 'vi) replica \<Rightarrow> ('st, 'a, 'vi) replica option" where
  "commit_one E req R = do {
     c \<leftarrow> slot_of (r_cid req);
     ri \<leftarrow> commit_reply (rp_replies R) c;
     let R1 = R\<lparr>rp_replies := ri\<rparr>;
     R2 \<leftarrow> (if is_replica (rp_nd R1) (r_cid req) then
           if r_cid req \<noteq> node_id (rp_nd R1) then do_send_reply E (r_cid req) False R1
           else do {
             r \<leftarrow> rep_reply (rp_mem R1) c;
             handle_reply E (if is_recovery req then Reply_copy r (r_cid req) else r) True R1 }
         else Some R1);
     (b, q) \<leftarrow> q_remove_client request_ops (rp_rqueue R2) c (r_rid req);
     Some ((if b then stop_timer vtimer else id) (R2\<lparr>rp_rqueue := q\<rparr>)) }"

text \<open>The checkpoint message after the last request of a checkpoint interval.\<close>

definition send_checkpoint :: "('st, 'a, 'vi) env \<Rightarrow> ('st, 'a, 'vi) replica \<Rightarrow> ('st, 'a, 'vi) replica option" where
  "send_checkpoint E R = do {
     let n = rp_last_executed R;
     d \<leftarrow> so_digest (e_so E) (rp_state R) n;
     let e = Checkpoint_new (e_cr E) (rp_nd R) n d False;
     C \<leftarrow> clog_fetch (e_b E) (rp_elog R) n;
     (b, C') \<leftarrow> cert_add_mine checkpoint_ops (rp_nd R) (e_now E) C e;
     el \<leftarrow> clog_put (e_b E) (rp_elog R) n C';
     let R1 = R\<lparr>rp_elog := el\<rparr>;
     R2 \<leftarrow> (if is_complete C' then mark_stable E n True R1 else Some R1);
     Some (emit (Out_checkpoint e) All_replicas R2) }"

text \<open>One round of the loop of \<^verbatim>\<open>execute_committed\<close>.\<close>

definition commit_next :: "('st, 'a, 'vi) env \<Rightarrow> pre_prepare \<Rightarrow> ('st, 'a, 'vi) replica \<Rightarrow> ('st, 'a, 'vi) replica option" where
  "commit_next E pp R = do {
     R1 \<leftarrow> execute_prepared E True R;
     let R2 = R1\<lparr>rp_last_executed := rp_last_executed R1 + 1\<rparr>;
     th_assert (pp_seqno pp = rp_last_executed R2);
     R3 \<leftarrow> execute_buffered_ro E R2;
     rs \<leftarrow> batch pp;
     R4 \<leftarrow> fold_opt (commit_one E) rs R3;
     if rp_last_executed R4 smod checkpoint_interval (e_b E) = 0 then send_checkpoint E R4 else Some R4 }"

text \<open>The loop; the first component of its result is false when the loop was left by \<^verbatim>\<open>return\<close>.\<close>

partial_function (option) commit_loop :: "('st, 'a, 'vi) env \<Rightarrow> ('st, 'a, 'vi) replica \<Rightarrow> (bool \<times> ('st, 'a, 'vi) replica) option" where
  "commit_loop E R =
     (if rp_last_executed R \<ge> rp_last_stable R + max_out (e_b E) \<or> rp_last_executed R < rp_last_stable R then Some (False, R)
      else Option.bind (committed R (rp_last_executed R + 1)) (\<lambda>ppo.
        case ppo of
          None \<Rightarrow> Some (True, R)
        | Some pp \<Rightarrow>
            if pp_view pp = rp_view R then Option.bind (commit_next E pp R) (commit_loop E)
            else Some (True, R)))"

declare commit_loop.simps [code]

definition execute_committed :: "('st, 'a, 'vi) env \<Rightarrow> ('st, 'a, 'vi) replica \<Rightarrow> ('st, 'a, 'vi) replica option" where
  "execute_committed E R =
     (if \<not> in_fetch_state E R \<and> \<not> in_check_state E R \<and> has_new_view E R then do {
        (go, R1) \<leftarrow> commit_loop E R;
        if go \<and> nelems (rp_rqueue R1) > 0 then
          if is_primary R1 then send_pre_prepare E R1 else Some (start_timer E vtimer R1)
        else Some R1 }
      else Some R)"

end
