(* ===== verification/Replica_Handlers.thy ===== *)
theory Replica_Handlers
  imports Replica_Exec
begin

text \<open>
  The message and timer handlers of \<^verbatim>\<open>Replica.cc\<close> for the normal case, checkpoints and the estimation phase of
  recovery.
\<close>

section \<open>Sending\<close>

definition send_prepare :: "('st, 'a, 'vi) env \<Rightarrow> seqno \<Rightarrow> ('st, 'a, 'vi) replica \<Rightarrow> ('st, 'a, 'vi) replica option" where
  "send_prepare E n R = do {
     P \<leftarrow> log_fetch (rp_plog R) n;
     case (my_prepare P, pc_pp P) of
       (None, Some pp) \<Rightarrow> do {
         let p = Prepare_new (e_cr E) (rp_nd R) (rp_view R) (pp_seqno pp) (pp_digest pp) None;
         (b, P') \<leftarrow> pc_add_mine (rp_nd R) (e_now E) P p;
         pl \<leftarrow> log_put (rp_plog R) n P';
         Some ((emit (Out_prepare p) All_replicas R)\<lparr>rp_plog := pl\<rparr>) }
     | _ \<Rightarrow> Some R }"

definition send_commit :: "('st, 'a, 'vi) env \<Rightarrow> seqno \<Rightarrow> ('st, 'a, 'vi) replica \<Rightarrow> ('st, 'a, 'vi) replica option" where
  "send_commit E s R = do {
     R1 \<leftarrow> (if s = rp_last_executed R + 1 then execute_prepared E False R else Some R);
     let c = Commit_new (e_cr E) (rp_nd R1) (rp_view R1) s;
     let R2 = (emit (Out_commit c) All_replicas R1)\<lparr>rp_last_prepared := max (rp_last_prepared R1) s\<rparr>;
     C \<leftarrow> log_fetch (rp_clog R2) s;
     (added, C') \<leftarrow> cert_add_mine commit_ops (rp_nd R2) (e_now E) C c;
     cl \<leftarrow> log_put (rp_clog R2) s C';
     let R3 = R2\<lparr>rp_clog := cl\<rparr>;
     if added \<and> is_complete C' then execute_committed E R3 else Some R3 }"

text \<open>The numbers that a status message reports as prepared and as committed.\<close>

definition status_scan :: "('st, 'a, 'vi) env \<Rightarrow> ('st, 'a, 'vi) replica \<Rightarrow> (seqno list \<times> seqno list) option" where
  "status_scan E R = fold_opt (\<lambda>n (ps, cs). do {
     P \<leftarrow> log_fetch (rp_plog R) n;
     b \<leftarrow> pc_is_complete P;
     if b \<or> in_check_state E R then do {
       C \<leftarrow> log_fetch (rp_clog R) n;
       Some (ps @ [n], if is_complete C \<or> in_check_state E R then cs @ [n] else cs) }
     else Some (ps, cs) })
     [rp_last_executed R + 1..to_int32 (rp_last_stable R + max_out (e_b E))] ([], [])"

text \<open>A status message sent without the new view also carries what the view component fills in.\<close>

definition send_status :: "('st, 'a, 'vi) env \<Rightarrow> ('st, 'a, 'vi) replica \<Rightarrow> ('st, 'a, 'vi) replica option" where
  "send_status E R =
     (if diffTime (e_mhz E) (e_now E) (rp_last_status R) > 100000 then do {
        let R1 = R\<lparr>rp_last_status := e_now E\<rparr>;
        case rp_qs R1 of
          Some q \<Rightarrow> (let q' = Query_stable_re_authenticate (e_cr E) (rp_nd R1) q
                     in Some (emit (Out_query q') All_replicas (R1\<lparr>rp_qs := Some q'\<rparr>)))
        | None \<Rightarrow> do {
            let R2 = (case rp_rr R1 of Some r \<Rightarrow> emit (Out_request r) All_replicas R1 | None \<Rightarrow> R1);
            if so_retrans_fetch (e_so E) (rp_state R2) (e_now E) then do {
              st \<leftarrow> so_send_fetch (e_so E) (rp_state R2) True;
              Some (R2\<lparr>rp_state := st\<rparr>) }
            else do {
              (ps, cs) \<leftarrow> (if has_new_view E R2 then status_scan E R2 else Some ([], []));
              Some (emit (Out_status (rp_view R2) (rp_last_stable R2) (rp_last_executed R2) (has_new_view E R2)
                (vo_has_nv_message (e_vo E) (rp_vi R2) (rp_view R2)) ps cs) All_replicas R2) } } }
      else Some R)"

section \<open>The window\<close>

text \<open>\<^verbatim>\<open>in_w\<close> and \<^verbatim>\<open>in_wv\<close> for a message with number \<open>n\<close>, view \<open>v\<close> and verification result \<open>ver\<close>.\<close>

definition in_w :: "('st, 'a, 'vi) env \<Rightarrow> seqno \<Rightarrow> bool option \<Rightarrow> ('st, 'a, 'vi) replica \<Rightarrow> (bool \<times> ('st, 'a, 'vi) replica) option" where
  "in_w E n ver R =
     (let offset = n - rp_last_stable R in
      if offset > 0 \<and> offset \<le> max_out (e_b E) then Some (True, R)
      else do {
        b \<leftarrow> (if offset > max_out (e_b E) then ver else Some False);
        R1 \<leftarrow> (if b then send_status E R else Some R);
        Some (False, R1) })"

definition in_wv :: "('st, 'a, 'vi) env \<Rightarrow> seqno \<Rightarrow> view \<Rightarrow> bool option \<Rightarrow> ('st, 'a, 'vi) replica \<Rightarrow> (bool \<times> ('st, 'a, 'vi) replica) option" where
  "in_wv E n v ver R =
     (let offset = n - rp_last_stable R in
      if offset > 0 \<and> offset \<le> max_out (e_b E) \<and> v = rp_view R then Some (True, R)
      else do {
        b \<leftarrow> (if v > rp_view R \<or> offset > max_out (e_b E) then ver else Some False);
        R1 \<leftarrow> (if b then send_status E R else Some R);
        Some (False, R1) })"

section \<open>Requests\<close>

text \<open>A request that was not executed: ordered by the primary, forwarded by a backup.\<close>

definition order_request :: "('st, 'a, 'vi) env \<Rightarrow> request \<Rightarrow> nat \<Rightarrow> ('st, 'a, 'vi) replica \<Rightarrow> ('st, 'a, 'vi) replica option" where
  "order_request E m c R =
     (if is_primary R then do {
        (busy, q1) \<leftarrow> in_progress (rp_rqueue R) c (r_rid m) (rp_view R);
        if busy then Some (R\<lparr>rp_rqueue := q1\<rparr>)
        else do {
          (b, q2) \<leftarrow> q_append request_ops q1 m;
          (if b then send_pre_prepare E else Some) (R\<lparr>rp_rqueue := q2\<rparr>) } }
      else do {
        (b, q) \<leftarrow> q_append request_ops (rp_rqueue R) m;
        let R1 = R\<lparr>rp_rqueue := q\<rparr>;
        Some (if b \<and> \<not> rp_limbo R1 then start_timer E vtimer (emit (Out_request m) (primary (rp_nd R1)) R1) else R1) })"

definition resend_reply :: "('st, 'a, 'vi) env \<Rightarrow> request \<Rightarrow> nat \<Rightarrow> ('st, 'a, 'vi) replica \<Rightarrow> ('st, 'a, 'vi) replica option" where
  "resend_reply E m c R = do {
     R1 \<leftarrow> do_send_reply E (r_cid m) True R;
     if \<not> is_primary R1 then do {
       done \<leftarrow> is_committed (rp_replies R1) c;
       if done then Some R1
       else do {
         (b, q) \<leftarrow> q_append request_ops (rp_rqueue R1) m;
         Some ((if b then start_timer E vtimer else id) (R1\<lparr>rp_rqueue := q\<rparr>)) } }
     else Some R1 }"

definition handle_request :: "('st, 'a, 'vi) env \<Rightarrow> request \<Rightarrow> ('st, 'a, 'vi) replica \<Rightarrow> ('st, 'a, 'vi) replica option" where
  "handle_request E m R = do {
     ok \<leftarrow> (if has_new_view E R then Request_verify (e_cr E) (rp_nd R) m else Some False);
     if ok \<and> (\<not> is_replica (rp_nd R) (r_cid m) \<or> \<not> is_read_only m) then
       if is_read_only m then do {
         (b, R1) \<leftarrow> execute_read_only E m R;
         if b then Some R1
         else do {
           (_, q) \<leftarrow> q_append request_ops (rp_ro_rqueue R1) m;
           Some (R1\<lparr>rp_ro_rqueue := q\<rparr>) } }
       else do {
         c \<leftarrow> slot_of (r_cid m);
         last_rid \<leftarrow> req_id (rp_mem R) c;
         if last_rid < r_rid m then order_request E m c R
         else if last_rid = r_rid m then resend_reply E m c R
         else Some R }
     else Some R }"

section \<open>Agreement messages\<close>

definition commit_if_prepared :: "('st, 'a, 'vi) env \<Rightarrow> seqno \<Rightarrow> ('st, 'a, 'vi) replica \<Rightarrow> ('st, 'a, 'vi) replica option" where
  "commit_if_prepared E n R = do {
     P \<leftarrow> log_fetch (rp_plog R) n;
     b \<leftarrow> pc_is_complete P;
     if b then send_commit E n R else Some R }"

definition handle_pre_prepare :: "('st, 'a, 'vi) env \<Rightarrow> pre_prepare \<Rightarrow> ('st, 'a, 'vi) replica \<Rightarrow> ('st, 'a, 'vi) replica option" where
  "handle_pre_prepare E m R = do {
     _ \<leftarrow> choices m;
     let ver = (\<lambda>mode p. pp_verify (e_cr E) (rp_nd R) (has_req R) mode p);
     (w, R1) \<leftarrow> in_wv E (pp_seqno m) (pp_view m) (ver 0 m) R;
     if w \<and> pp_seqno m > rp_low_bound R1 \<and> has_new_view E R1 then do {
       P \<leftarrow> log_fetch (rp_plog R1) (pp_seqno m);
       (added, P') \<leftarrow> pc_add_pp ver (rp_nd R1) P m;
       pl \<leftarrow> log_put (rp_plog R1) (pp_seqno m) P';
       let R2 = R1\<lparr>rp_plog := pl\<rparr>;
       if added then do {
         R3 \<leftarrow> send_prepare E (pp_seqno m) R2;
         commit_if_prepared E (pp_seqno m) R3 }
       else Some R2 }
     else if \<not> has_new_view E R1 then do {
       (vi, nvc) \<leftarrow> vo_add_missing_pp (e_vo E) (rp_vi R1) m;
       new_view_opt E nvc (R1\<lparr>rp_vi := vi\<rparr>) }
     else Some R1 }"

definition handle_prepare :: "('st, 'a, 'vi) env \<Rightarrow> prepare \<Rightarrow> ('st, 'a, 'vi) replica \<Rightarrow> ('st, 'a, 'vi) replica option" where
  "handle_prepare E m R = do {
     (w, R1) \<leftarrow> in_wv E (p_seqno m) (p_view m) (Prepare_verify (e_cr E) (rp_nd R) m) R;
     if w \<and> p_seqno m > rp_low_bound R1 \<and> primary (rp_nd R1) \<noteq> p_id m \<and> has_new_view E R1 then do {
       P \<leftarrow> log_fetch (rp_plog R1) (p_seqno m);
       (added, P') \<leftarrow> pc_add (\<lambda>p. yes (Prepare_verify (e_cr E) (rp_nd R1) p)) (rp_nd R1) P m;
       pl \<leftarrow> log_put (rp_plog R1) (p_seqno m) P';
       let R2 = R1\<lparr>rp_plog := pl\<rparr>;
       if added then commit_if_prepared E (p_seqno m) R2 else Some R2 }
     else if is_proof m \<and> \<not> has_new_view E R1 then do {
       (vi, nvc) \<leftarrow> vo_add_missing_prepare (e_vo E) (rp_vi R1) m;
       new_view_opt E nvc (R1\<lparr>rp_vi := vi\<rparr>) }
     else Some R1 }"

definition handle_commit :: "('st, 'a, 'vi) env \<Rightarrow> commit \<Rightarrow> ('st, 'a, 'vi) replica \<Rightarrow> ('st, 'a, 'vi) replica option" where
  "handle_commit E m R = do {
     (w, R1) \<leftarrow> in_wv E (c_seqno m) (c_view m) (Commit_verify (e_cr E) (rp_nd R) m) R;
     if w \<and> c_seqno m > rp_low_bound R1 then do {
       C \<leftarrow> log_fetch (rp_clog R1) (c_seqno m);
       (added, C') \<leftarrow> cert_add commit_ops (\<lambda>p. yes (Commit_verify (e_cr E) (rp_nd R1) p)) (rp_nd R1) C m;
       cl \<leftarrow> log_put (rp_clog R1) (c_seqno m) C';
       let R2 = R1\<lparr>rp_clog := cl\<rparr>;
       if added \<and> is_complete C' then execute_committed E R2 else Some R2 }
     else Some R1 }"

section \<open>Checkpoints\<close>

text \<open>Whether a stable checkpoint in the window is one the replica has missed.\<close>

definition late :: "('st, 'a, 'vi) env \<Rightarrow> checkpoint \<Rightarrow> ('st, 'a, 'vi) replica \<Rightarrow> bool option" where
  "late E m R = do {
     let l = (k_stable m \<and> rp_last_executed R < k_seqno m);
     if log_within_range (rp_clog R) (rp_last_executed R) then do {
       C \<leftarrow> log_fetch (rp_clog R) (rp_last_executed R);
       Some (if mine C \<noteq> None then l \<and> diffTime (e_mhz E) (e_now E) (t_sent C) > 200000 else l) }
     else Some l }"

definition add_checkpoint :: "('st, 'a, 'vi) env \<Rightarrow> checkpoint \<Rightarrow> ('st, 'a, 'vi) replica \<Rightarrow> ('st, 'a, 'vi) replica option" where
  "add_checkpoint E m R = do {
     C \<leftarrow> clog_fetch (e_b E) (rp_elog R) (k_seqno m);
     (added, C') \<leftarrow> cert_add checkpoint_ops (ck_verify E R) (rp_nd R) C m;
     el \<leftarrow> clog_put (e_b E) (rp_elog R) (k_seqno m) C';
     let R1 = R\<lparr>rp_elog := el\<rparr>;
     if added \<and> mine C' \<noteq> None \<and> is_complete C' then mark_stable E (k_seqno m) True R1 else Some R1 }"

definition keep_stable_checkpoint :: "('st, 'a, 'vi) env \<Rightarrow> checkpoint \<Rightarrow> ('st, 'a, 'vi) replica \<Rightarrow> ('st, 'a, 'vi) replica option" where
  "keep_stable_checkpoint E m R = do {
     let s1 = snd (set_remove (rp_sset R) (k_id m));
     cg \<leftarrow> store_above_window (e_b E) (node_id (rp_nd R)) (rp_checkpoints R) (k_id m) (k_seqno m) (k_stable m)
             (checkpoint_bytes m @ m_rest m);
     let s2 = snd (set_store k_id s1 m);
     let R1 = R\<lparr>rp_checkpoints := cg, rp_sset := s2\<rparr>;
     if ids_size s2 > max_faulty (rp_nd R1) then do {
       R2 \<leftarrow> rollback_tentative E R1;
       let R3 = stop_timer vtimer R2;
       st \<leftarrow> so_start_fetch (e_so E) (rp_state R3) (rp_last_executed R3) None;
       Some (R3\<lparr>rp_state := st\<rparr>) }
     else Some R1 }"

definition handle_checkpoint :: "('st, 'a, 'vi) env \<Rightarrow> checkpoint \<Rightarrow> ('st, 'a, 'vi) replica \<Rightarrow> ('st, 'a, 'vi) replica option" where
  "handle_checkpoint E m R =
     (if k_seqno m \<le> rp_last_stable R then Some R
      else do {
        l \<leftarrow> (if k_seqno m \<le> rp_last_stable R + max_out (e_b E) then late E m R else Some True);
        if \<not> l then add_checkpoint E m R
        else do {
          b \<leftarrow> Checkpoint_verify (e_cr E) (rp_nd R) m;
          if \<not> b then Some R
          else if \<not> k_stable m then send_status E R
          else (case set_fetch (rp_sset R) (k_id m) of
              None \<Rightarrow> keep_stable_checkpoint E m R
            | Some c \<Rightarrow> if k_seqno c < k_seqno m then keep_stable_checkpoint E m R else Some R) } })"

section \<open>A new state\<close>

text \<open>The call of the state component when a state transfer to checkpoint \<open>c\<close> ends.\<close>

definition ns_catch_up :: "('st, 'a, 'vi) env \<Rightarrow> seqno \<Rightarrow> ('st, 'a, 'vi) replica \<Rightarrow> ('st, 'a, 'vi) replica option" where
  "ns_catch_up E c R = do {
     let R1 = R\<lparr>rp_last_executed := c, rp_last_tentative := c\<rparr>;
     (b, ri, q) \<leftarrow> rep_new_state request_ops (rp_replies R1) (rp_mem R1) (rp_rqueue R1);
     let R2 = (if b then stop_timer vtimer else id) (R1\<lparr>rp_replies := ri, rp_rqueue := q\<rparr>);
     R3 \<leftarrow> update_max_rec E R2;
     let R4 = R3\<lparr>rp_last_prepared := max (rp_last_prepared R3) c\<rparr>;
     R5 \<leftarrow> (if c > rp_last_stable R4 + max_out (e_b E) then do {
         h \<leftarrow> have_checkpoint E (c - max_out (e_b E)) R4;
         mark_stable E (c - max_out (e_b E)) h R4 }
       else Some R4);
     d \<leftarrow> so_digest (e_so E) (rp_state R5) c;
     let ck = Checkpoint_new (e_cr E) (rp_nd R5) c d False;
     C \<leftarrow> clog_fetch (e_b E) (rp_elog R5) c;
     (_, C') \<leftarrow> cert_add_mine checkpoint_ops (rp_nd R5) (e_now E) C ck;
     el \<leftarrow> clog_put (e_b E) (rp_elog R5) c C';
     Some (emit (Out_checkpoint ck) All_replicas (R5\<lparr>rp_elog := el\<rparr>)) }"

definition stable_reports :: "('st, 'a, 'vi) replica \<Rightarrow> seqno \<Rightarrow> int option" where
  "stable_reports R c = fold_opt (\<lambda>i k. case set_fetch (rp_sset R) (int i) of
       None \<Rightarrow> Some k
     | Some ck \<Rightarrow> if k_seqno ck \<ge> c then do { th_assert (k_stable ck); Some (k + 1) } else Some k)
     [0..<nat (num_replicas (rp_nd R))] 0"

definition new_state :: "('st, 'a, 'vi) env \<Rightarrow> seqno \<Rightarrow> ('st, 'a, 'vi) replica \<Rightarrow> ('st, 'a, 'vi) replica option" where
  "new_state E c R = do {
     let R0 = (if vo_has_new_view (e_vo E) (rp_vi R) (rp_view R) \<and> c \<ge> rp_low_bound R then R\<lparr>rp_has_nv_state := True\<rparr> else R);
     R1 \<leftarrow> (if c > rp_last_executed R0 then ns_catch_up E c R0 else Some R0);
     k \<leftarrow> stable_reports R1 c;
     R2 \<leftarrow> (if k > max_faulty (rp_nd R1) then mark_stable E c True R1 else Some R1);
     let R3 = R2\<lparr>rp_seqno := max (rp_seqno R2) c\<rparr>;
     R4 \<leftarrow> execute_committed E R3;
     R5 \<leftarrow> execute_buffered_ro E R4;
     if nelems (rp_rqueue R5) > 0
     then if is_primary R5 then send_pre_prepare E R5 else Some (restart_timer E vtimer R5)
     else Some R5 }"

section \<open>Recovery\<close>

text \<open>The last checkpoint taken, as a replica reports it.\<close>

definition last_checkpoint :: "('st, 'a, 'vi) env \<Rightarrow> ('st, 'a, 'vi) replica \<Rightarrow> seqno" where
  "last_checkpoint E R = rp_last_executed R sdiv checkpoint_interval (e_b E) * checkpoint_interval (e_b E)"

definition handle_query_stable :: "('st, 'a, 'vi) env \<Rightarrow> query_stable \<Rightarrow> ('st, 'a, 'vi) replica \<Rightarrow> ('st, 'a, 'vi) replica option" where
  "handle_query_stable E m R = do {
     b \<leftarrow> Query_stable_verify (e_cr E) (rp_nd R) m;
     if b then do {
       p \<leftarrow> i_to_p (rp_nd R) (qs_id m);
       Some (emit (Out_reply_stable (Reply_stable_new (e_cr E) (rp_nd R) (last_checkpoint E R) (rp_last_prepared R) (qs_nonce m) p))
         (qs_id m) R) }
     else Some (case rp_last_new_key R of None \<Rightarrow> R | Some rid \<Rightarrow> emit (Out_new_key rid) (qs_id m) R) }"

text \<open>The loops of \<^verbatim>\<open>enforce_bound\<close>: whether every entry above the bound is empty. A loop stops at the first entry
  that is not.\<close>

fun all_empty :: "('c \<Rightarrow> bool) \<Rightarrow> (seqno \<Rightarrow> 'c option) \<Rightarrow> seqno list \<Rightarrow> bool option" where
  "all_empty em fetch [] = Some True"
| "all_empty em fetch (n # ns) = do { x \<leftarrow> fetch n; if em x then all_empty em fetch ns else Some False }"

definition bound_holds :: "('st, 'a, 'vi) env \<Rightarrow> seqno \<Rightarrow> ('st, 'a, 'vi) replica \<Rightarrow> bool" where
  "bound_holds E b R \<longleftrightarrow> \<not> rp_corrupt R \<and> rp_last_stable R \<le> b - max_out (e_b E) \<and> rp_seqno R \<le> b \<and> rp_low_bound R \<le> b \<and>
     rp_last_prepared R \<le> b \<and> rp_last_tentative R \<le> b \<and> rp_last_executed R \<le> b \<and>
     (rp_last_tentative R = rp_last_executed R \<or> rp_last_tentative R = rp_last_executed R + 1)"

definition logs_hold :: "('st, 'a, 'vi) env \<Rightarrow> seqno \<Rightarrow> ('st, 'a, 'vi) replica \<Rightarrow> bool option" where
  "logs_hold E b R =
     (if \<not> bound_holds E b R then Some False
      else do {
        c1 \<leftarrow> all_empty pc_is_empty (log_fetch (rp_plog R)) [b + 1..log_max_seqno (rp_plog R)];
        c2 \<leftarrow> (if c1 then all_empty cert_is_empty (log_fetch (rp_clog R)) [b + 1..log_max_seqno (rp_clog R)] else Some False);
        if c2 then all_empty cert_is_empty (clog_fetch (e_b E) (rp_elog R)) [b + 1..clog_max_seqno (e_b E) (rp_elog R)]
        else Some False })"

definition enforce_bound :: "('st, 'a, 'vi) env \<Rightarrow> seqno \<Rightarrow> ('st, 'a, 'vi) replica \<Rightarrow> ('st, 'a, 'vi) replica option" where
  "enforce_bound E b R = do {
     th_assert (rp_recovering R \<and> se_est (rp_se R) \<ge> 0);
     ok \<leftarrow> logs_hold E b R;
     ks \<leftarrow> low_estimate (e_b E) (rp_nd R) (rp_se R);
     R1 \<leftarrow> (if ok then Some R
       else do {
         el \<leftarrow> clog_clear cert_clear (rp_elog R) ks;
         Some (R\<lparr>rp_seqno := ks, rp_last_prepared := ks, rp_low_bound := ks, rp_last_stable := ks, rp_last_tentative := 0,
           rp_last_executed := 0, rp_limbo := False, rp_plog := log_clear pc_clear (rp_plog R) (ks + 1),
           rp_clog := log_clear cert_clear (rp_clog R) (ks + 1), rp_elog := el\<rparr>) });
     (c1, vi) \<leftarrow> vo_enforce_bound (e_vo E) (rp_vi R1) b ks (\<not> ok);
     (c2, st, M) \<leftarrow> so_enforce_bound (e_so E) (rp_state R1) (rp_mem R1) b ks (\<not> (ok \<and> c1));
     Some (R1\<lparr>rp_vi := vi, rp_state := st, rp_mem := M, rp_corrupt := \<not> (ok \<and> c1 \<and> c2)\<rparr>) }"

text \<open>The request that a recovering replica sends: its command is the recovery point.\<close>

definition recovery_request :: "('st, 'a, 'vi) env \<Rightarrow> ('st, 'a, 'vi) replica \<Rightarrow> (request \<times> node) option" where
  "recovery_request E R = do {
     (rid, nd) \<leftarrow> new_rid (e_now E) (rp_nd R);
     r0 \<leftarrow> Request_new nd rid (- 1) (replicate (nat (e_max_msg E) - sizeof_Request_rep) 0) (e_max_msg E);
     len \<leftarrow> store_command_max nd r0;
     th_assert (len \<ge> 8);
     r \<leftarrow> Request_sign (e_cr E) (e_ksz E) nd (store_command r0 (le_bytes 8 (rp_recovery_point R))) 8;
     Some (r, nd) }"

definition handle_reply_stable :: "('st, 'a, 'vi) env \<Rightarrow> reply_stable \<Rightarrow> ('st, 'a, 'vi) replica \<Rightarrow> ('st, 'a, 'vi) replica option" where
  "handle_reply_stable E m R = (case rp_qs R of
     None \<Rightarrow> Some R
   | Some q \<Rightarrow>
       if qs_nonce q \<noteq> rs_nonce m then Some R
       else do {
         (fin, se) \<leftarrow> se_add (e_b E) (e_cr E) (rp_nd R) (rp_se R) m False;
         let R1 = R\<lparr>rp_se := se\<rparr>;
         if \<not> fin then Some R1
         else do {
           let rp = se_est se + max_out (e_b E);
           R2 \<leftarrow> enforce_bound E rp (R1\<lparr>rp_qs := None, rp_recovery_point := rp\<rparr>);
           (r, nd) \<leftarrow> recovery_request E R2;
           let R3 = stop_timer vtimer (emit (Out_request r) (primary nd) (R2\<lparr>rp_nd := nd, rp_rr := Some r\<rparr>));
           st \<leftarrow> so_start_check (e_so E) (rp_state R3) (rp_last_executed R3);
           q1 \<leftarrow> q_clear (nat (num_principals nd)) (rp_rqueue R3);
           q2 \<leftarrow> q_clear (nat (num_principals nd)) (rp_ro_rqueue R3);
           Some (R3\<lparr>rp_state := st, rp_rqueue := q1, rp_ro_rqueue := q2\<rparr>) } })"

section \<open>Null requests, requests of the replica, timers\<close>

text \<open>A pre-prepare built in a buffer of its own, outside the agreement region.\<close>

definition scratch_pre_prepare :: "('st, 'a, 'vi) env \<Rightarrow> pre_prepare" where
  "scratch_pre_prepare E = \<lparr>m_tag = Pre_prepare_tag, m_extra = 0, m_size = ALIGNED_SIZE (e_max_msg E), m_max = ALIGNED_SIZE (e_max_msg E),
     m_scratch = True, m_rest = replicate (nat (e_max_msg E) - sizeof_Pre_prepare_rep) 0, pp_view = 0, pp_seqno = 0, pp_digest = digest_zero,
     pp_rset_size = 0, pp_non_det_size = 0, pp_pad = [0, 0]\<rparr>"

definition send_null :: "('st, 'a, 'vi) env \<Rightarrow> ('st, 'a, 'vi) replica \<Rightarrow> ('st, 'a, 'vi) replica option" where
  "send_null E R = do {
     th_assert (is_primary R);
     let ci = checkpoint_interval (e_b E);
     let max_rec_point = max_out (e_b E) + (rp_max_rec_n R + ci - 1) sdiv ci * ci;
     R1 \<leftarrow> (if rp_max_rec_n R \<noteq> 0 \<and> max_rec_point > rp_last_stable R \<and> has_new_view E R \<and> nelems (rp_rqueue R) = 0 \<and>
             rp_seqno R \<le> rp_last_executed R \<and> rp_seqno R + 1 \<le> max_out (e_b E) + rp_last_stable R
         then do {
           let n = rp_seqno R + 1;
           (pp, _) \<leftarrow> pp_fill (e_cr E) (rp_nd R) (e_max_nd E) (e_nd E) (scratch_pre_prepare E) (rp_view R) n
                       (Req_queue_new (nat (num_principals (rp_nd R))));
           log_my_pre_prepare E pp n (emit (Out_pre_prepare pp) All_replicas (R\<lparr>rp_seqno := n\<rparr>)) }
         else Some R);
     Some (restart_timer E ntimer R1) }"

definition send_request :: "request \<Rightarrow> ('st, 'a, 'vi) replica \<Rightarrow> bool \<times> ('st, 'a, 'vi) replica" where
  "send_request m R =
     (if rp_rr R \<noteq> None then (False, R)
      else (True, (if rp_rec_ready R then emit (Out_request m) (cur_primary (rp_nd R)) R else R)\<lparr>rp_rr := Some m\<rparr>))"

definition vtimer_handler :: "('st, 'a, 'vi) env \<Rightarrow> ('st, 'a, 'vi) replica \<Rightarrow> ('st, 'a, 'vi) replica option" where
  "vtimer_handler E R = (if \<not> delay_vc E R then send_view_change E R else Some (restart_timer E vtimer R))"

definition stimer_handler :: "('st, 'a, 'vi) env \<Rightarrow> ('st, 'a, 'vi) replica \<Rightarrow> ('st, 'a, 'vi) replica option" where
  "stimer_handler E R = do { R1 \<leftarrow> send_status E R; Some (restart_timer E stimer R1) }"

definition ntimer_handler :: "('st, 'a, 'vi) env \<Rightarrow> ('st, 'a, 'vi) replica \<Rightarrow> ('st, 'a, 'vi) replica option" where
  "ntimer_handler E R = send_null E R"

section \<open>The main loop\<close>

text \<open>\<^verbatim>\<open>recv\<close> before its loop.\<close>

definition recv_init :: "('st, 'a, 'vi) env \<Rightarrow> ('st, 'a, 'vi) replica \<Rightarrow> ('st, 'a, 'vi) replica option" where
  "recv_init E R = do {
     R1 \<leftarrow> Node_send_new_key E R;
     st \<leftarrow> so_full_digest (e_so E) (rp_state R1) (rp_mem R1);
     let R2 = start_timer E atimer (start_timer E stimer (R1\<lparr>rp_state := st\<rparr>));
     let R3 = (if is_primary R2 then start_timer E ntimer R2 else R2)\<lparr>rp_rec_ready := True\<rparr>;
     Some (case rp_rr R3 of None \<Rightarrow> R3 | Some r \<Rightarrow> emit (Out_request r) (primary (rp_nd R3)) R3) }"

text \<open>What happens to a replica: a message arrives, the state component reports a fetched checkpoint, the application
  sends a request, a timer expires.\<close>

datatype event = Ev_request request | Ev_reply reply | Ev_pre_prepare pre_prepare | Ev_prepare prepare | Ev_commit commit |
  Ev_checkpoint checkpoint | Ev_query_stable query_stable | Ev_reply_stable reply_stable | Ev_new_state seqno |
  Ev_send_request request | Ev_vtimer | Ev_stimer | Ev_ntimer

text \<open>The messages that the loop drops: while the replica estimates the stable checkpoint only four kinds are handled,
  while it checks its state no agreement message is.\<close>

definition New_key_tag :: int where "New_key_tag = 11"

fun event_tag :: "event \<Rightarrow> int option" where
  "event_tag (Ev_request m) = Some Request_tag"
| "event_tag (Ev_reply m) = Some Reply_tag"
| "event_tag (Ev_pre_prepare m) = Some Pre_prepare_tag"
| "event_tag (Ev_prepare m) = Some Prepare_tag"
| "event_tag (Ev_commit m) = Some Commit_tag"
| "event_tag (Ev_checkpoint m) = Some Checkpoint_tag"
| "event_tag (Ev_query_stable m) = Some Query_stable_tag"
| "event_tag (Ev_reply_stable m) = Some Reply_stable_tag"
| "event_tag _ = None"

definition dropped :: "('st, 'a, 'vi) env \<Rightarrow> int \<Rightarrow> ('st, 'a, 'vi) replica \<Rightarrow> bool" where
  "dropped E t R \<longleftrightarrow> (rp_qs R \<noteq> None \<and> t \<noteq> New_key_tag \<and> t \<noteq> Query_stable_tag \<and> t \<noteq> Reply_stable_tag \<and> t \<noteq> Status_tag) \<or>
     (in_check_state E R \<and> t < 6 \<and> t \<noteq> Reply_tag)"

fun dispatch :: "('st, 'a, 'vi) env \<Rightarrow> event \<Rightarrow> ('st, 'a, 'vi) replica \<Rightarrow> ('st, 'a, 'vi) replica option" where
  "dispatch E (Ev_request m) R = handle_request E m R"
| "dispatch E (Ev_reply m) R = handle_reply E m False R"
| "dispatch E (Ev_pre_prepare m) R = handle_pre_prepare E m R"
| "dispatch E (Ev_prepare m) R = handle_prepare E m R"
| "dispatch E (Ev_commit m) R = handle_commit E m R"
| "dispatch E (Ev_checkpoint m) R = handle_checkpoint E m R"
| "dispatch E (Ev_query_stable m) R = handle_query_stable E m R"
| "dispatch E (Ev_reply_stable m) R = handle_reply_stable E m R"
| "dispatch E (Ev_new_state c) R = new_state E c R"
| "dispatch E (Ev_send_request m) R = Some (snd (send_request m R))"
| "dispatch E Ev_vtimer R = vtimer_handler E R"
| "dispatch E Ev_stimer R = stimer_handler E R"
| "dispatch E Ev_ntimer R = ntimer_handler E R"

definition handle_event :: "('st, 'a, 'vi) env \<Rightarrow> event \<Rightarrow> ('st, 'a, 'vi) replica \<Rightarrow> ('st, 'a, 'vi) replica option" where
  "handle_event E ev R = (case event_tag ev of
     Some t \<Rightarrow> if dropped E t R then Some R else dispatch E ev R
   | None \<Rightarrow> dispatch E ev R)"

end
