(* ===== verification/Replica_Progress.thy ===== *)
theory Replica_Progress
  imports Replica_Handlers
begin

text \<open>
  What the handlers keep. \<open>calm\<close> relates the states before and after an operation that neither orders nor advances:
  view, window and counters stay and no pre-prepare is sent. \<open>advances\<close> allows the counters to grow, moves the logs
  with the window and gives every pre-prepare sent a fresh sequence number. Both are preorders, so an operation is
  shown to be in one of them by composing the lemmas of the operations it calls.
\<close>

section \<open>The window of the logs\<close>

definition wlogs :: "build \<Rightarrow> seqno \<Rightarrow> ('st, 'a, 'vi) replica \<Rightarrow> bool" where
  "wlogs b h R \<longleftrightarrow> log_ok (rp_plog R) \<and> head (rp_plog R) = h + 1 \<and> max_size (rp_plog R) = max_out b \<and>
     log_ok (rp_clog R) \<and> head (rp_clog R) = h + 1 \<and> max_size (rp_clog R) = max_out b \<and>
     clog_inv b (rp_elog R) \<and> cl_head (rp_elog R) = h"

definition windowed :: "build \<Rightarrow> ('st, 'a, 'vi) replica \<Rightarrow> bool" where
  "windowed b R \<longleftrightarrow> wlogs b (rp_last_stable R) R"

lemma log_put_frame:
  "log_put l n x = Some l' \<Longrightarrow> log_ok l' = log_ok l \<and> head l' = head l \<and> max_size l' = max_size l"
  by (auto simp: log_put_def log_ok_def arr_set_def split: if_splits)

lemma clog_put_frame:
  "clog_put b l n x = Some l' \<Longrightarrow> clog_inv b l' = clog_inv b l \<and> cl_head l' = cl_head l"
  by (auto simp: clog_put_def clog_inv_def arr_set_def split: if_splits)

section \<open>Pre-prepares sent\<close>

fun pp_mark :: "out_msg \<times> int \<Rightarrow> (view \<times> seqno) list" where
  "pp_mark (Out_pre_prepare p, d) = [(pp_view p, pp_seqno p)]"
| "pp_mark _ = []"

definition pps_sent :: "(out_msg \<times> int) list \<Rightarrow> (view \<times> seqno) list" where
  "pps_sent ms = concat (map pp_mark ms)"

lemma pps_sent_simps [simp]: "pps_sent [] = []" "pps_sent (m # ms) = pp_mark m @ pps_sent ms" "pps_sent (ms @ ms') = pps_sent ms @ pps_sent ms'"
  by (simp_all add: pps_sent_def)

section \<open>Operations that keep the counters\<close>

definition same_group :: "node \<Rightarrow> node \<Rightarrow> bool" where
  "same_group nd nd' \<longleftrightarrow> node_id nd' = node_id nd \<and> max_faulty nd' = max_faulty nd \<and> num_replicas nd' = num_replicas nd \<and>
     cur_view nd' = cur_view nd \<and> cur_primary nd' = cur_primary nd"

definition calm :: "build \<Rightarrow> ('st, 'a, 'vi) replica \<Rightarrow> ('st, 'a, 'vi) replica \<Rightarrow> bool" where
  "calm b R R' \<longleftrightarrow> same_group (rp_nd R) (rp_nd R') \<and> (rp_recovering R' \<longrightarrow> rp_recovering R) \<and>
     rp_last_stable R' = rp_last_stable R \<and> rp_low_bound R' = rp_low_bound R \<and> rp_seqno R' = rp_seqno R \<and>
     rp_last_executed R' = rp_last_executed R \<and> rp_last_prepared R' = rp_last_prepared R \<and> rp_sset R' = rp_sset R \<and>
     (\<forall>h. wlogs b h R \<longrightarrow> wlogs b h R') \<and> (\<exists>ms. rp_out R' = rp_out R @ ms \<and> pps_sent ms = [])"

lemma same_group_refl [simp]: "same_group nd nd"
  by (simp add: same_group_def)

lemma calm_refl [simp]: "calm b R R"
  by (simp add: calm_def)

lemma calm_trans [trans]: "calm b R R1 \<Longrightarrow> calm b R1 R2 \<Longrightarrow> calm b R R2"
  unfolding calm_def same_group_def by (elim conjE exE) auto

text \<open>Updates of fields that \<open>calm\<close> does not mention.\<close>

lemma calm_left [simp]:
  "calm b (R\<lparr>rp_mem := x0\<rparr>) R' = calm b R R'"
  "calm b (R\<lparr>rp_state := x1\<rparr>) R' = calm b R R'"
  "calm b (R\<lparr>rp_replies := x2\<rparr>) R' = calm b R R'"
  "calm b (R\<lparr>rp_max_rec_n := x3\<rparr>) R' = calm b R R'"
  "calm b (R\<lparr>rp_rqueue := x4\<rparr>) R' = calm b R R'"
  "calm b (R\<lparr>rp_ro_rqueue := x5\<rparr>) R' = calm b R R'"
  "calm b (R\<lparr>rp_tm := x6\<rparr>) R' = calm b R R'"
  "calm b (R\<lparr>rp_vi := x7\<rparr>) R' = calm b R R'"
  "calm b (R\<lparr>rp_last_tentative := x8\<rparr>) R' = calm b R R'"
  "calm b (R\<lparr>rp_rr := x9\<rparr>) R' = calm b R R'"
  "calm b (R\<lparr>rp_rr_reps := x10\<rparr>) R' = calm b R R'"
  "calm b (R\<lparr>rp_rr_views := x11\<rparr>) R' = calm b R R'"
  "calm b (R\<lparr>rp_recovery_point := x12\<rparr>) R' = calm b R R'"
  "calm b (R\<lparr>rp_nbreqs := x13\<rparr>) R' = calm b R R'"
  "calm b (R\<lparr>rp_nbrounds := x14\<rparr>) R' = calm b R R'"
  "calm b (R\<lparr>rp_limbo := x15\<rparr>) R' = calm b R R'"
  "calm b (R\<lparr>rp_has_nv_state := x16\<rparr>) R' = calm b R R'"
  "calm b (R\<lparr>rp_qs := x17\<rparr>) R' = calm b R R'"
  "calm b (R\<lparr>rp_se := x18\<rparr>) R' = calm b R R'"
  "calm b (R\<lparr>rp_last_status := x19\<rparr>) R' = calm b R R'"
  "calm b (R\<lparr>rp_last_new_key := x20\<rparr>) R' = calm b R R'"
  "calm b (R\<lparr>rp_agreement := x21\<rparr>) R' = calm b R R'"
  "calm b (R\<lparr>rp_checkpoints := x22\<rparr>) R' = calm b R R'"
  by (simp_all add: calm_def wlogs_def)

lemma calm_right [simp]:
  "calm b R (R'\<lparr>rp_mem := x0\<rparr>) = calm b R R'"
  "calm b R (R'\<lparr>rp_state := x1\<rparr>) = calm b R R'"
  "calm b R (R'\<lparr>rp_replies := x2\<rparr>) = calm b R R'"
  "calm b R (R'\<lparr>rp_max_rec_n := x3\<rparr>) = calm b R R'"
  "calm b R (R'\<lparr>rp_rqueue := x4\<rparr>) = calm b R R'"
  "calm b R (R'\<lparr>rp_ro_rqueue := x5\<rparr>) = calm b R R'"
  "calm b R (R'\<lparr>rp_tm := x6\<rparr>) = calm b R R'"
  "calm b R (R'\<lparr>rp_vi := x7\<rparr>) = calm b R R'"
  "calm b R (R'\<lparr>rp_last_tentative := x8\<rparr>) = calm b R R'"
  "calm b R (R'\<lparr>rp_rr := x9\<rparr>) = calm b R R'"
  "calm b R (R'\<lparr>rp_rr_reps := x10\<rparr>) = calm b R R'"
  "calm b R (R'\<lparr>rp_rr_views := x11\<rparr>) = calm b R R'"
  "calm b R (R'\<lparr>rp_recovery_point := x12\<rparr>) = calm b R R'"
  "calm b R (R'\<lparr>rp_nbreqs := x13\<rparr>) = calm b R R'"
  "calm b R (R'\<lparr>rp_nbrounds := x14\<rparr>) = calm b R R'"
  "calm b R (R'\<lparr>rp_limbo := x15\<rparr>) = calm b R R'"
  "calm b R (R'\<lparr>rp_has_nv_state := x16\<rparr>) = calm b R R'"
  "calm b R (R'\<lparr>rp_qs := x17\<rparr>) = calm b R R'"
  "calm b R (R'\<lparr>rp_se := x18\<rparr>) = calm b R R'"
  "calm b R (R'\<lparr>rp_last_status := x19\<rparr>) = calm b R R'"
  "calm b R (R'\<lparr>rp_last_new_key := x20\<rparr>) = calm b R R'"
  "calm b R (R'\<lparr>rp_agreement := x21\<rparr>) = calm b R R'"
  "calm b R (R'\<lparr>rp_checkpoints := x22\<rparr>) = calm b R R'"
  by (simp_all add: calm_def wlogs_def)

lemma emit_calm: "pp_mark (m, d) = [] \<Longrightarrow> calm b R (emit m d R)"
  by (simp add: calm_def emit_def wlogs_def)

lemmas timer_defs = tm_def start_timer_def restart_timer_def stop_timer_def restop_timer_def

lemma put_calm:
  "log_put (rp_plog R) n x = Some pl \<Longrightarrow> calm b R (R\<lparr>rp_plog := pl\<rparr>)"
  "log_put (rp_clog R) n y = Some cl \<Longrightarrow> calm b R (R\<lparr>rp_clog := cl\<rparr>)"
  "clog_put b (rp_elog R) n z = Some el \<Longrightarrow> calm b R (R\<lparr>rp_elog := el\<rparr>)"
  by (simp_all add: calm_def wlogs_def log_put_frame clog_put_frame)

lemma fold_opt_calm:
  assumes "fold_opt f xs R = Some R'" "\<And>x R R'. x \<in> set xs \<Longrightarrow> Q R \<Longrightarrow> f x R = Some R' \<Longrightarrow> calm b R R'"
    "\<And>R R'. Q R \<Longrightarrow> calm b R R' \<Longrightarrow> Q R'" "Q R"
  shows "calm b R R'"
proof -
  have "calm b R R' \<and> Q R'"
  proof (rule fold_opt_inv [OF assms(1), where P = "\<lambda>S. calm b R S \<and> Q S"])
    show "calm b R s' \<and> Q s'" if "x \<in> set xs" "calm b R s \<and> Q s" "f x s = Some s'" for x s s'
      using that assms(2,3) calm_trans by meson
  qed (simp add: assms(4))
  then show ?thesis ..
qed

lemma execute_read_only_calm: "execute_read_only E req R = Some (d, R') \<Longrightarrow> calm b R R'"
  by (auto simp: execute_read_only_def Let_def calm_def wlogs_def emit_def split: if_splits Option.bind_splits)

lemma drain_ro_calm: "drain_ro k E R = Some R' \<Longrightarrow> calm b R R'"
proof (induction k arbitrary: R)
  case (Suc k)
  then show ?case
    by (auto split: option.splits elim!: bind_SomeE dest!: execute_read_only_calm [where b = b]) (blast intro: calm_trans)
qed simp

lemma execute_buffered_ro_calm: "execute_buffered_ro E R = Some R' \<Longrightarrow> calm b R R'"
  unfolding execute_buffered_ro_def by (rule drain_ro_calm)

lemma try_end_recovery_calm:
  assumes "try_end_recovery E R = Some R'"
  shows "calm b R R'"
proof -
  have "calm b R (R\<lparr>rp_recovering := False\<rparr>)" by (simp add: calm_def wlogs_def)
  then show ?thesis
    using assms calm_trans execute_buffered_ro_calm by (fastforce simp: try_end_recovery_def split: if_splits)
qed

lemma log_my_pre_prepare_calm: "log_my_pre_prepare E pp n R = Some R' \<Longrightarrow> calm b R R'"
  by (auto simp: log_my_pre_prepare_def split: Option.bind_splits intro: put_calm)

lemma refresh_keys_group: "refresh_keys now rnd nd = Some (rid, nd') \<Longrightarrow> same_group nd nd'"
  by (auto simp: refresh_keys_def new_rid_def new_tstamp_def same_group_def Let_def split: Option.bind_splits if_splits)

lemma Node_send_new_key_calm: "Node_send_new_key E R = Some R' \<Longrightarrow> calm b R R'"
  by (auto simp: Node_send_new_key_def calm_def wlogs_def emit_def timer_defs refresh_keys_group split: Option.bind_splits)

lemma mark_stale_logs:
  "mark_stale_elog b ns l = Some l' \<Longrightarrow> clog_inv b l' = clog_inv b l \<and> cl_head l' = cl_head l"
  "mark_stale_plog nd ns p = Some p' \<Longrightarrow> log_ok p' = log_ok p \<and> head p' = head p \<and> max_size p' = max_size p"
  "mark_stale_clog ns c = Some c' \<Longrightarrow> log_ok c' = log_ok c \<and> head c' = head c \<and> max_size c' = max_size c"
proof -
  assume "mark_stale_elog b ns l = Some l'"
  then show "clog_inv b l' = clog_inv b l \<and> cl_head l' = cl_head l"
    unfolding mark_stale_elog_def
    by (rule fold_opt_inv) (auto dest: clog_put_frame split: Option.bind_splits if_splits)
next
  assume "mark_stale_plog nd ns p = Some p'"
  then show "log_ok p' = log_ok p \<and> head p' = head p \<and> max_size p' = max_size p"
    unfolding mark_stale_plog_def
    by (rule fold_opt_inv) (auto dest: log_put_frame split: Option.bind_splits)
next
  assume "mark_stale_clog ns c = Some c'"
  then show "log_ok c' = log_ok c \<and> head c' = head c \<and> max_size c' = max_size c"
    unfolding mark_stale_clog_def
    by (rule fold_opt_inv) (auto dest: log_put_frame split: Option.bind_splits)
qed

lemma send_new_key_calm: "send_new_key E R = Some R' \<Longrightarrow> calm (e_b E) R R'"
  unfolding send_new_key_def Let_def
proof (elim bind_SomeE)
  fix R1 el pl cl vi ns1 ns2
  assume "Node_send_new_key E R = Some R1" and l: "mark_stale_elog (e_b E) ns1 (rp_elog R1) = Some el"
    "mark_stale_plog (rp_nd R1) ns2 (rp_plog R1) = Some pl" "mark_stale_clog ns2 (rp_clog R1) = Some cl"
    and R': "Some (R1\<lparr>rp_elog := el, rp_plog := pl, rp_clog := cl, rp_vi := vi, rp_state := so_mark_stale (e_so E) (rp_state R1)\<rparr>) = Some R'"
  note Node_send_new_key_calm [OF this(1)]
  also have "calm (e_b E) R1 R'"
    using R' mark_stale_logs(1) [OF l(1)] mark_stale_logs(2) [OF l(2)] mark_stale_logs(3) [OF l(3)]
    by (auto simp: calm_def wlogs_def)
  finally show "calm (e_b E) R R'" .
qed

lemma update_max_rec_calm: "update_max_rec E R = Some R' \<Longrightarrow> calm (e_b E) R R'"
  by (auto simp: update_max_rec_def Let_def elim!: bind_SomeE dest!: send_new_key_calm split: if_splits)

section \<open>Replies\<close>

lemma handle_request_reply_calm: "handle_request_reply E m own R = Some R' \<Longrightarrow> calm b R R'"
  by (auto simp: handle_request_reply_def Let_def calm_def wlogs_def emit_def split: Option.bind_splits if_splits)

text \<open>A replica that is not recovering never changes its view because of a reply.\<close>

lemma handle_recovery_reply_calm:
  "handle_recovery_reply E m own R = Some R' \<Longrightarrow> \<not> rp_recovering R \<Longrightarrow> calm b R R'"
  by (auto simp: handle_recovery_reply_def enforce_view_def Let_def calm_def wlogs_def split: Option.bind_splits if_splits)

lemma handle_reply_calm:
  "handle_reply E m own R = Some R' \<Longrightarrow> \<not> rp_recovering R \<Longrightarrow> calm b R R'"
  by (auto simp: handle_reply_def handle_request_reply_calm handle_recovery_reply_calm split: option.splits if_splits)

lemma do_send_reply_calm: "do_send_reply E cid t R = Some R' \<Longrightarrow> \<not> rp_recovering R \<Longrightarrow> calm b R R'"
  by (auto simp: do_send_reply_def Let_def elim!: bind_SomeE dest!: handle_reply_calm [where b = b]
      split: option.splits reply_action.splits)
    (use emit_calm in \<open>fastforce simp: calm_def wlogs_def emit_def\<close>)

section \<open>Execution\<close>

lemma finish_request_calm:
  "finish_request E cmt req c bs R = Some R' \<Longrightarrow> \<not> rp_recovering R \<Longrightarrow> calm b R R'"
  by (auto simp: finish_request_def Let_def elim!: bind_SomeE dest!: do_send_reply_calm [where b = b] split: if_splits)
    (simp add: calm_def wlogs_def emit_def)

lemma keys_then_finish_calm:
  assumes "send_new_key E R1 = Some R2" "finish_request E cmt req c bs (R2\<lparr>rp_max_rec_n := n\<rparr>) = Some R'" "\<not> rp_recovering R1"
  shows "calm (e_b E) R1 R'"
proof -
  note k = send_new_key_calm [OF assms(1)]
  then have "\<not> rp_recovering R2" using assms(3) by (auto simp: calm_def)
  with finish_request_calm [OF assms(2), of "e_b E"] k show ?thesis by (auto intro: calm_trans)
qed

lemma exec_one_calm:
  assumes "exec_one E cmt pp req R = Some R'" "\<not> rp_recovering R"
  shows "calm (e_b E) R R'"
  using assms unfolding exec_one_def Let_def
  by (auto elim!: bind_SomeE split: if_splits)
    ((rule do_send_reply_calm; assumption) | (drule (1) keys_then_finish_calm; simp) |
      (drule finish_request_calm [where b = "e_b E"]; simp))+

lemma calm_recovering: "calm b R R' \<Longrightarrow> \<not> rp_recovering R \<Longrightarrow> \<not> rp_recovering R'"
  by (auto simp: calm_def)

lemma execute_prepared_calm:
  assumes "execute_prepared E cmt R = Some R'" "\<not> rp_recovering R"
  shows "calm (e_b E) R R'"
proof -
  have f: "calm (e_b E) R R2" if "fold_opt (exec_one E cmt pp) rs (R\<lparr>rp_last_tentative := n\<rparr>) = Some R2" for pp rs R2 n
  proof -
    have "calm (e_b E) (R\<lparr>rp_last_tentative := n\<rparr>) R2"
      by (rule fold_opt_calm [OF that, where Q = "\<lambda>R. \<not> rp_recovering R"])
        (use assms(2) exec_one_calm calm_recovering in \<open>blast | simp\<close>)+
    then show ?thesis by simp
  qed
  show ?thesis
    using assms(1) unfolding execute_prepared_def Let_def
    by (auto elim!: bind_SomeE split: if_splits option.splits dest!: f)
qed

lemma commit_one_calm: "commit_one E req R = Some R' \<Longrightarrow> \<not> rp_recovering R \<Longrightarrow> calm b R R'"
  unfolding commit_one_def Let_def
  by (auto elim!: bind_SomeE split: if_splits simp: timer_defs)
    ((drule do_send_reply_calm [where b = b]; simp) | (drule handle_reply_calm [where b = b]; simp))+

section \<open>Operations that advance\<close>

definition advances :: "build \<Rightarrow> ('st, 'a, 'vi) replica \<Rightarrow> ('st, 'a, 'vi) replica \<Rightarrow> bool" where
  "advances b R R' \<longleftrightarrow> same_group (rp_nd R) (rp_nd R') \<and> (rp_recovering R' \<longrightarrow> rp_recovering R) \<and>
     rp_last_stable R \<le> rp_last_stable R' \<and> rp_low_bound R \<le> rp_low_bound R' \<and> rp_seqno R \<le> rp_seqno R' \<and>
     rp_last_executed R \<le> rp_last_executed R' \<and> rp_last_prepared R \<le> rp_last_prepared R' \<and>
     (windowed b R \<longrightarrow> windowed b R') \<and>
     (\<exists>ms. rp_out R' = rp_out R @ ms \<and> sorted_wrt (<) (map snd (pps_sent ms)) \<and>
        (\<forall>(v, n) \<in> set (pps_sent ms). v = rp_view R \<and> rp_seqno R < n \<and> n \<le> rp_seqno R'))"

lemma calm_advances: "calm b R R' \<Longrightarrow> advances b R R'"
  by (auto simp: calm_def advances_def windowed_def)

lemma advances_refl [simp]: "advances b R R"
  by (simp add: calm_advances)

lemma advances_trans [trans]:
  assumes "advances b R R1" "advances b R1 R2"
  shows "advances b R R2"
proof -
  obtain m1 where m1: "rp_out R1 = rp_out R @ m1" "sorted_wrt (<) (map snd (pps_sent m1))"
    "\<forall>(v, n) \<in> set (pps_sent m1). v = rp_view R \<and> rp_seqno R < n \<and> n \<le> rp_seqno R1"
    using assms(1) by (auto simp: advances_def)
  obtain m2 where m2: "rp_out R2 = rp_out R1 @ m2" "sorted_wrt (<) (map snd (pps_sent m2))"
    "\<forall>(v, n) \<in> set (pps_sent m2). v = rp_view R1 \<and> rp_seqno R1 < n \<and> n \<le> rp_seqno R2"
    using assms(2) by (auto simp: advances_def)
  have s: "rp_view R1 = rp_view R" "rp_seqno R \<le> rp_seqno R1" "rp_seqno R1 \<le> rp_seqno R2"
    using assms by (auto simp: advances_def same_group_def rp_view_def)
  have "sorted_wrt (<) (map snd (pps_sent (m1 @ m2)))"
    using m1(2,3) m2(2,3) by (fastforce simp: sorted_wrt_append)
  moreover have "\<forall>(v, n) \<in> set (pps_sent (m1 @ m2)). v = rp_view R \<and> rp_seqno R < n \<and> n \<le> rp_seqno R2"
    using m1(3) m2(3) s by fastforce
  moreover have "rp_out R2 = rp_out R @ (m1 @ m2)" using m1(1) m2(1) by simp
  ultimately show ?thesis
    using assms unfolding advances_def same_group_def by (intro conjI) (auto simp del: pps_sent_simps)
qed

section \<open>Stable checkpoints\<close>

lemma ms_catch_up_frame:
  assumes "ms_catch_up E n hs R = Some R1"
  shows "same_group (rp_nd R) (rp_nd R1) \<and> (rp_recovering R1 \<longrightarrow> rp_recovering R) \<and> rp_last_stable R1 = n \<and>
    rp_low_bound R1 = max (rp_low_bound R) n \<and> rp_seqno R1 = max (rp_seqno R) n \<and> rp_last_executed R \<le> rp_last_executed R1 \<and>
    rp_last_prepared R \<le> rp_last_prepared R1 \<and> rp_sset R1 = rp_sset R \<and> (\<forall>h. wlogs (e_b E) h R \<longrightarrow> wlogs (e_b E) h R1) \<and>
    (\<exists>ms. rp_out R1 = rp_out R @ ms \<and> pps_sent ms = [])"
proof (cases "hs \<and> n > rp_last_executed R")
  case True
  obtain ri q R0 where R0: "update_max_rec E (R\<lparr>rp_last_stable := n, rp_low_bound := max (rp_low_bound R) n, rp_last_executed := n,
      rp_last_tentative := n, rp_replies := ri, rp_rqueue := q\<rparr>) = Some R0"
    "R1 = R0\<lparr>rp_last_prepared := max (rp_last_prepared R0) n, rp_seqno := max (rp_seqno R0) n\<rparr>"
    using assms True unfolding ms_catch_up_def Let_def by (auto elim!: bind_SomeE)
  from update_max_rec_calm [OF R0(1)] show ?thesis using True by (auto simp: calm_def R0(2) wlogs_def)
next
  case False
  then show ?thesis using assms unfolding ms_catch_up_def Let_def by (auto simp: wlogs_def)
qed

lemma clog_truncate_frame:
  assumes "clog_truncate b clr l n = Some l'" "clog_inv b l" "cl_head l < n"
  shows "clog_inv b l' \<and> cl_head l' = n"
proof -
  have "checkpoint_interval b dvd n" using assms(1,3) by (auto simp: clog_truncate_def dvd_eq_mod_eq_0 split: if_splits)
  with ck.trunc_ok [OF assms(2), of n _ clr] assms(1,3) show ?thesis by fastforce
qed

lemma ms_truncate_frame:
  assumes "ms_truncate E n R = Some R'"
  shows "rp_nd R' = rp_nd R \<and> rp_recovering R' = rp_recovering R \<and> rp_last_stable R' = rp_last_stable R \<and> rp_low_bound R' = rp_low_bound R \<and>
    rp_seqno R' = rp_seqno R \<and> rp_last_executed R' = rp_last_executed R \<and> rp_last_prepared R' = rp_last_prepared R \<and>
    rp_sset R' = rp_sset R \<and> rp_out R' = rp_out R \<and> (\<forall>h < n. wlogs (e_b E) h R \<longrightarrow> wlogs (e_b E) n R')"
  using assms unfolding ms_truncate_def Let_def
  by (auto elim!: bind_SomeE dest!: clog_truncate_frame simp: wlogs_def log_truncate_frame)

lemma ms_start_advances:
  assumes "ms_catch_up E n hs R = Some R1" "ms_truncate E n R1 = Some R2" "rp_last_stable R < n"
  shows "advances (e_b E) R R2 \<and> rp_last_stable R2 = n \<and> rp_sset R2 = rp_sset R"
  using ms_catch_up_frame [OF assms(1)] ms_truncate_frame [OF assms(2)] assms(3)
  by (auto simp: advances_def windowed_def)

lemma ms_own_checkpoint_calm: "ms_own_checkpoint E n R = Some R' \<Longrightarrow> calm (e_b E) R R'"
  unfolding ms_own_checkpoint_def by (auto elim!: bind_SomeE intro: put_calm(3) split: option.splits)

lemma sset_advances: "advances b R (R'\<lparr>rp_sset := s\<rparr>) = advances b R R'"
  by (simp add: advances_def windowed_def wlogs_def)

lemma ms_transfer_one_frame:
  assumes "ms_transfer_one E i (l, R) = Some (l', R')"
  shows "advances (e_b E) R R' \<and> rp_last_stable R' = rp_last_stable R \<and> rp_nd R' = rp_nd R"
proof -
  have e: "advances (e_b E) R (R\<lparr>rp_elog := el\<rparr>)" if "clog_put (e_b E) (rp_elog R) n C = Some el" for n C el
    by (rule calm_advances [OF put_calm(3) [OF that]])
  show ?thesis
    using assms unfolding ms_transfer_one_def
    by (auto elim!: bind_SomeE split: option.splits if_splits simp: sset_advances e)
qed

lemma ms_transfer_frame:
  assumes "ms_transfer E R = Some (l, R')"
  shows "advances (e_b E) R R' \<and> rp_last_stable R' = rp_last_stable R"
proof -
  have "advances (e_b E) R (snd (l, R')) \<and> rp_last_stable (snd (l, R')) = rp_last_stable R"
    using assms unfolding ms_transfer_def
    by (rule fold_opt_inv) (auto dest!: ms_transfer_one_frame intro: advances_trans)
  then show ?thesis by simp
qed

section \<open>Ordering\<close>

lemma send_pre_prepare_advances:
  assumes "send_pre_prepare E R = Some R'"
  shows "advances (e_b E) R R'"
proof -
  have pp: "pp_view pp = v \<and> pp_seqno pp = n" if "Pre_prepare_new cr nd a c mx sl v n q = Some (pp, q')" for cr nd a c mx sl v n q pp q'
    using that unfolding Pre_prepare_new_def pp_fill_def Let_def set_size_def by (auto elim!: bind_SomeE split: if_splits)
  have "advances (e_b E) R R'" if "log_my_pre_prepare E pp (rp_seqno R + 1) (emit (Out_pre_prepare pp) All_replicas
         (R\<lparr>rp_nbreqs := a, rp_nbrounds := c, rp_seqno := rp_seqno R + 1, rp_rqueue := q\<rparr>)) = Some R'"
    "pp_view pp = rp_view R" "pp_seqno pp = rp_seqno R + 1" for pp a c q
    using log_my_pre_prepare_calm [OF that(1), of "e_b E"] that(2,3)
    by (auto simp: calm_def advances_def emit_def windowed_def wlogs_def)
  with assms pp show ?thesis unfolding send_pre_prepare_def Let_def by (auto elim!: bind_SomeE split: if_splits)
qed

lemma mark_stable_n_advances: "mark_stable_n k E n hs R = Some R' \<Longrightarrow> advances (e_b E) R R'"
proof (induction k arbitrary: n hs R R')
  case (Suc k)
  show ?case
  proof (cases "n \<le> rp_last_stable R")
    case False
    then obtain R1 R2 R3 l R4 R5 where
      12: "ms_catch_up E n hs R = Some R1" "ms_truncate E n R1 = Some R2"
      and 3: "(if hs then do { S \<leftarrow> ms_own_checkpoint E n R2; try_end_recovery E S } else Some R2) = Some R3"
      and 4: "ms_transfer E R3 = Some (l, R4)"
      and 5: "(if l > rp_last_stable R4 then do { h \<leftarrow> have_checkpoint E l R4; mark_stable_n k E l h R4 } else Some R4) = Some R5"
      and 6: "(if is_primary R5 then send_pre_prepare E R5 else Some R5) = Some R'"
      using Suc.prems by (auto elim!: bind_SomeE)
    have "advances (e_b E) R R2" using ms_start_advances [OF 12] False by simp
    also have "advances (e_b E) R2 R3"
      using 3 by (auto elim!: bind_SomeE split: if_splits dest!: ms_own_checkpoint_calm try_end_recovery_calm [where b = "e_b E"] intro: calm_advances calm_trans)
    also have "advances (e_b E) R3 R4" using ms_transfer_frame [OF 4] ..
    also have "advances (e_b E) R4 R5" using 5 Suc.IH by (auto elim!: bind_SomeE split: if_splits)
    also have "advances (e_b E) R5 R'" using 6 send_pre_prepare_advances by (auto split: if_splits)
    finally show ?thesis .
  qed (use Suc.prems in simp)
qed simp

lemma mark_stable_advances: "mark_stable E n hs R = Some R' \<Longrightarrow> advances (e_b E) R R'"
  unfolding mark_stable_def by (rule mark_stable_n_advances)

section \<open>Committed execution\<close>

lemma send_checkpoint_advances:
  assumes "send_checkpoint E R = Some R'"
  shows "advances (e_b E) R R'"
proof -
  obtain C' el e R2 where el: "clog_put (e_b E) (rp_elog R) (rp_last_executed R) C' = Some el"
    and 2: "(if is_complete C' then mark_stable E (rp_last_executed R) True (R\<lparr>rp_elog := el\<rparr>) else Some (R\<lparr>rp_elog := el\<rparr>)) = Some R2"
    and R': "R' = emit (Out_checkpoint e) All_replicas R2"
    using assms unfolding send_checkpoint_def Let_def by (auto elim!: bind_SomeE)
  note calm_advances [OF put_calm(3) [OF el]]
  also have "advances (e_b E) (R\<lparr>rp_elog := el\<rparr>) R2" using 2 by (auto split: if_splits dest: mark_stable_advances)
  also have "advances (e_b E) R2 R'" unfolding R' by (rule calm_advances [OF emit_calm]) simp
  finally show ?thesis .
qed

lemma commit_next_advances:
  assumes "commit_next E pp R = Some R'" "\<not> rp_recovering R"
  shows "advances (e_b E) R R' \<and> rp_last_executed R < rp_last_executed R'"
proof -
  obtain R1 R3 rs R4 where 1: "execute_prepared E True R = Some R1"
    and 3: "execute_buffered_ro E (R1\<lparr>rp_last_executed := rp_last_executed R1 + 1\<rparr>) = Some R3"
    and 4: "fold_opt (commit_one E) rs R3 = Some R4"
    and 5: "(if rp_last_executed R4 smod checkpoint_interval (e_b E) = 0 then send_checkpoint E R4 else Some R4) = Some R'"
    using assms(1) unfolding commit_next_def Let_def by (auto elim!: bind_SomeE simp: th_assert_def split: if_splits)
  let ?R2 = "R1\<lparr>rp_last_executed := rp_last_executed R1 + 1\<rparr>"
  note c1 = execute_prepared_calm [OF 1 assms(2)]
  note c3 = execute_buffered_ro_calm [OF 3, of "e_b E"]
  have nr: "\<not> rp_recovering R3" using calm_recovering [OF c3] calm_recovering [OF c1 assms(2)] by simp
  have c4: "calm (e_b E) R3 R4"
    by (rule fold_opt_calm [OF 4, where Q = "\<lambda>R. \<not> rp_recovering R"]) (use nr commit_one_calm calm_recovering in blast)+
  have "advances (e_b E) R R1" by (rule calm_advances [OF c1])
  also have "advances (e_b E) R1 ?R2" by (simp add: advances_def windowed_def wlogs_def)
  also have "advances (e_b E) ?R2 R3" by (rule calm_advances [OF c3])
  also have "advances (e_b E) R3 R4" by (rule calm_advances [OF c4])
  also have last: "advances (e_b E) R4 R'" using 5 send_checkpoint_advances by (auto split: if_splits)
  finally have a: "advances (e_b E) R R'" .
  have "rp_last_executed R4 = rp_last_executed R + 1" using c1 c3 c4 by (simp add: calm_def)
  moreover have "rp_last_executed R4 \<le> rp_last_executed R'" using last by (simp add: advances_def)
  ultimately show ?thesis using a by linarith
qed

lemma advances_recovering: "advances b R R' \<Longrightarrow> \<not> rp_recovering R \<Longrightarrow> \<not> rp_recovering R'"
  by (auto simp: advances_def)

lemma commit_loop_advances:
  assumes "commit_loop E R = Some (go, R')" "\<not> rp_recovering R"
  shows "advances (e_b E) R R'"
proof -
  have "\<not> rp_recovering R \<longrightarrow> advances (e_b E) R (snd (go, R'))"
  proof (rule commit_loop.raw_induct [OF _ assms(1), where P = "\<lambda>E R r. \<not> rp_recovering R \<longrightarrow> advances (e_b E) R (snd r)"])
    fix f and E :: "('a, 'b, 'c) env" and R r
    assume IH: "\<And>E R r. f E R = Some r \<Longrightarrow> \<not> rp_recovering R \<longrightarrow> advances (e_b E) R (snd r)"
      and body: "(if rp_last_executed R \<ge> rp_last_stable R + max_out (e_b E) \<or> rp_last_executed R < rp_last_stable R then Some (False, R)
        else Option.bind (committed R (rp_last_executed R + 1)) (\<lambda>ppo.
          case ppo of None \<Rightarrow> Some (True, R)
          | Some pp \<Rightarrow> if pp_view pp = rp_view R then Option.bind (commit_next E pp R) (f E) else Some (True, R))) = Some r"
    show "\<not> rp_recovering R \<longrightarrow> advances (e_b E) R (snd r)"
    proof
      assume nr: "\<not> rp_recovering R"
      have step: "advances (e_b E) R (snd r)" if "commit_next E pp R = Some R1" "f E R1 = Some r" for pp R1
        using commit_next_advances [OF that(1) nr] IH [OF that(2)] advances_trans advances_recovering nr by blast
      from body show "advances (e_b E) R (snd r)"
        by (auto split: if_splits option.splits elim!: bind_SomeE dest: step)
    qed
  qed
  with assms(2) show ?thesis by simp
qed

lemma start_timer_calm [simp]: "calm b R (start_timer E i R') = calm b R R'" "calm b R (restart_timer E i R') = calm b R R'"
    "calm b R (stop_timer i R') = calm b R R'" "calm b R (restop_timer i R') = calm b R R'"
  by (simp_all add: timer_defs)

lemma execute_committed_advances:
  assumes "execute_committed E R = Some R'" "\<not> rp_recovering R"
  shows "advances (e_b E) R R'"
proof -
  have "advances (e_b E) R R'" if "commit_loop E R = Some (go, R1)"
    "(if go \<and> nelems (rp_rqueue R1) > 0 then if is_primary R1 then send_pre_prepare E R1 else Some (start_timer E vtimer R1) else Some R1) = Some R'"
    for go R1
  proof -
    note commit_loop_advances [OF that(1) assms(2)]
    also have "advances (e_b E) R1 R'"
      using that(2) by (auto split: if_splits intro: send_pre_prepare_advances calm_advances)
    finally show ?thesis .
  qed
  with assms(1) show ?thesis unfolding execute_committed_def by (auto elim!: bind_SomeE split: if_splits)
qed

section \<open>The normal case\<close>

lemma send_prepare_calm: "send_prepare E n R = Some R' \<Longrightarrow> calm b R R'"
  unfolding send_prepare_def Let_def
  by (auto elim!: bind_SomeE split: option.splits simp: calm_def wlogs_def emit_def log_put_frame)

lemma send_commit_advances:
  assumes "send_commit E s R = Some R'" "\<not> rp_recovering R"
  shows "advances (e_b E) R R'"
proof -
  obtain R1 C added C' cl where 1: "(if s = rp_last_executed R + 1 then execute_prepared E False R else Some R) = Some R1"
    and cl: "log_put (rp_clog R1) s C' = Some cl"
    and 2: "(if added \<and> is_complete C' then execute_committed E ((emit (Out_commit (Commit_new (e_cr E) (rp_nd R1) (rp_view R1) s)) All_replicas R1)
        \<lparr>rp_last_prepared := max (rp_last_prepared R1) s, rp_clog := cl\<rparr>)
      else Some ((emit (Out_commit (Commit_new (e_cr E) (rp_nd R1) (rp_view R1) s)) All_replicas R1)
        \<lparr>rp_last_prepared := max (rp_last_prepared R1) s, rp_clog := cl\<rparr>)) = Some R'"
    using assms(1) unfolding send_commit_def Let_def by (elim bind_SomeE) (auto simp: emit_def elim!: bind_SomeE)
  let ?R = "(emit (Out_commit (Commit_new (e_cr E) (rp_nd R1) (rp_view R1) s)) All_replicas R1)
        \<lparr>rp_last_prepared := max (rp_last_prepared R1) s, rp_clog := cl\<rparr>"
  have c1: "calm (e_b E) R R1" using 1 execute_prepared_calm assms(2) by (auto split: if_splits)
  note calm_advances [OF this]
  also have a: "advances (e_b E) R1 ?R" using log_put_frame [OF cl] by (auto simp: advances_def windowed_def wlogs_def emit_def)
  also have "advances (e_b E) ?R R'"
    using 2 execute_committed_advances [of E ?R R'] advances_recovering [OF a] calm_recovering [OF c1 assms(2)]
    by (auto split: if_splits)
  finally show ?thesis .
qed

lemma advances_left [simp]:
  "advances b (R\<lparr>rp_rqueue := x\<rparr>) R' = advances b R R'" "advances b (R\<lparr>rp_ro_rqueue := y\<rparr>) R' = advances b R R'"
  "advances b (R\<lparr>rp_mem := z\<rparr>) R' = advances b R R'"
  by (simp_all add: advances_def windowed_def wlogs_def rp_view_def)

lemma calm_then_advances: "calm b R R1 \<Longrightarrow> advances b R1 R' \<Longrightarrow> advances b R R'"
  by (rule advances_trans [OF calm_advances])

lemma send_status_calm: "send_status E R = Some R' \<Longrightarrow> calm b R R' \<and> rp_vi R' = rp_vi R \<and> rp_has_nv_state R' = rp_has_nv_state R"
  unfolding send_status_def Let_def
  by (auto elim!: bind_SomeE split: if_splits option.splits simp: calm_def wlogs_def emit_def)

lemma in_wv_calm:
  assumes "in_wv E n v ver R = Some (w, R')"
  shows "calm b R R' \<and> has_new_view E R' = has_new_view E R \<and> (w \<longrightarrow> R' = R)"
proof -
  have "calm b R R' \<and> rp_vi R' = rp_vi R \<and> rp_has_nv_state R' = rp_has_nv_state R \<and> (w \<longrightarrow> R' = R)"
    using assms unfolding in_wv_def Let_def
    by (auto elim!: bind_SomeE split: if_splits dest: send_status_calm [where b = b])
  then show ?thesis by (auto simp: has_new_view_def rp_view_def calm_def same_group_def)
qed

lemma forward_request_calm: "calm b R (emit (Out_request m) d (R\<lparr>rp_rqueue := q\<rparr>))"
  by (simp add: calm_def wlogs_def emit_def timer_defs)

lemma order_request_advances: "order_request E m c R = Some R' \<Longrightarrow> advances (e_b E) R R'"
  unfolding order_request_def Let_def
  by (auto elim!: bind_SomeE split: if_splits dest!: send_pre_prepare_advances simp: calm_advances forward_request_calm)

lemma resend_reply_calm:
  assumes "resend_reply E m c R = Some R'" "\<not> rp_recovering R"
  shows "calm b R R'"
proof -
  obtain R1 where R1: "do_send_reply E (r_cid m) True R = Some R1" and R': "calm b R1 R'"
    using assms(1) unfolding resend_reply_def by (auto elim!: bind_SomeE split: if_splits)
  show ?thesis by (rule calm_trans [OF do_send_reply_calm [OF R1 assms(2)] R'])
qed

lemma handle_request_advances:
  assumes "handle_request E m R = Some R'" "\<not> rp_recovering R"
  shows "advances (e_b E) R R'"
  using assms unfolding handle_request_def Let_def
  by (auto elim!: bind_SomeE split: if_splits dest!: execute_read_only_calm [where b = "e_b E"] order_request_advances
      simp: calm_advances resend_reply_calm)

lemma commit_if_prepared_advances:
  "commit_if_prepared E n R = Some R' \<Longrightarrow> \<not> rp_recovering R \<Longrightarrow> advances (e_b E) R R'"
  unfolding commit_if_prepared_def by (auto elim!: bind_SomeE split: if_splits dest: send_commit_advances)

lemma handle_pre_prepare_advances:
  assumes "handle_pre_prepare E m R = Some R'" "\<not> rp_recovering R" "has_new_view E R"
  shows "advances (e_b E) R R'"
proof -
  have step: "advances (e_b E) R R'" if "log_put (rp_plog R) n P = Some pl" "send_prepare E n (R\<lparr>rp_plog := pl\<rparr>) = Some R3"
    "commit_if_prepared E n R3 = Some R'" for n P pl R3
  proof -
    have c: "calm (e_b E) R R3" using put_calm(1) [OF that(1), of "e_b E"] send_prepare_calm [OF that(2)] calm_trans by blast
    with commit_if_prepared_advances [OF that(3)] calm_recovering [OF c assms(2)] show ?thesis by (blast intro: calm_then_advances)
  qed
  show ?thesis
    using assms unfolding handle_pre_prepare_def Let_def
    by (auto elim!: bind_SomeE split: if_splits dest!: in_wv_calm [where b = "e_b E"] simp: calm_advances put_calm(1) step)
qed

lemma handle_prepare_advances:
  assumes "handle_prepare E m R = Some R'" "\<not> rp_recovering R" "has_new_view E R"
  shows "advances (e_b E) R R'"
proof -
  have step: "advances (e_b E) R R'" if "log_put (rp_plog R) n P = Some pl" "commit_if_prepared E n (R\<lparr>rp_plog := pl\<rparr>) = Some R'" for n P pl
    using put_calm(1) [OF that(1), of "e_b E"] commit_if_prepared_advances [OF that(2)] assms(2) by (auto intro: calm_then_advances)
  show ?thesis
    using assms unfolding handle_prepare_def Let_def
    by (auto elim!: bind_SomeE split: if_splits dest!: in_wv_calm [where b = "e_b E"] simp: calm_advances put_calm(1) step)
qed

lemma handle_commit_advances:
  assumes "handle_commit E m R = Some R'" "\<not> rp_recovering R"
  shows "advances (e_b E) R R'"
proof -
  have step: "advances (e_b E) R R'" if "log_put (rp_clog R) n P = Some cl" "execute_committed E (R\<lparr>rp_clog := cl\<rparr>) = Some R'" for n P cl
    using put_calm(2) [OF that(1), of "e_b E"] execute_committed_advances [OF that(2)] assms(2) by (auto intro: calm_then_advances)
  show ?thesis
    using assms unfolding handle_commit_def Let_def
    by (auto elim!: bind_SomeE split: if_splits dest!: in_wv_calm [where b = "e_b E"] simp: calm_advances put_calm(2) step)
qed

lemma add_checkpoint_advances:
  assumes "add_checkpoint E m R = Some R'"
  shows "advances (e_b E) R R'"
proof -
  have step: "advances (e_b E) R R'" if "clog_put (e_b E) (rp_elog R) n P = Some el" "mark_stable E k True (R\<lparr>rp_elog := el\<rparr>) = Some R'" for n P el k
    using put_calm(3) [OF that(1)] mark_stable_advances [OF that(2)] by (rule calm_then_advances)
  show ?thesis
    using assms unfolding add_checkpoint_def Let_def
    by (auto elim!: bind_SomeE split: if_splits simp: calm_advances put_calm(3) step)
qed

text \<open>A stable checkpoint above the window is never kept: storing it aborts.\<close>

lemma keep_stable_checkpoint_aborts:
  "k_id m < Max_num_replicas (e_b E) \<Longrightarrow> keep_stable_checkpoint E m R = None"
  by (simp add: keep_stable_checkpoint_def store_above_window_def Let_def)

lemma handle_checkpoint_advances:
  assumes "handle_checkpoint E m R = Some R'" "num_replicas (rp_nd R) \<le> Max_num_replicas (e_b E)"
  shows "advances (e_b E) R R'"
proof -
  have "keep_stable_checkpoint E m R = None" if "Checkpoint_verify (e_cr E) (rp_nd R) m = Some True"
    by (rule keep_stable_checkpoint_aborts) (use that assms(2) in \<open>auto simp: Checkpoint_verify_def is_replica_def split: if_splits\<close>)
  then show ?thesis
    using assms unfolding handle_checkpoint_def
    by (auto elim!: bind_SomeE split: if_splits option.splits dest: add_checkpoint_advances send_status_calm
        simp: calm_advances [OF conjunct1 [OF send_status_calm]])
qed

end
