(* ===== verification/Replica_Props.thy ===== *)
theory Replica_Props
  imports Replica_Progress
begin

text \<open>
  Properties of the replica: what the handlers of the agreement protocol keep, at-most-once execution, completeness of
  committed execution, termination of \<^verbatim>\<open>mark_stable\<close>, and the error behaviour found in recovery and checkpoints. The
  witnesses run a group of four replicas whose state and view components do nothing; the service counts the
  requests it executes.
\<close>

section \<open>A concrete replica\<close>

definition wit_build :: build where
  "wit_build = \<lparr>max_out = 8, checkpoint_interval = 4, Max_num_replicas = 4, max_num_clients = 1\<rparr>"

lemma wit_build_ok: "build_ok wit_build"
  unfolding build_ok_def wit_build_def by (auto intro!: exI [of _ 3])

definition wit_so :: "(unit, nat) state_ops" where
  "wit_so = \<lparr>so_in_fetch = (\<lambda>_. False), so_in_check = (\<lambda>_. False), so_full_digest = (\<lambda>s M. Some s), so_cow = (\<lambda>s M c. Some s),
     so_checkpoint = (\<lambda>s M n. Some s), so_digest = (\<lambda>s n. Some digest_zero), so_discard = (\<lambda>s M n e. Some s),
     so_rollback = (\<lambda>s M. Some (0, s, M)), so_start_fetch = (\<lambda>s n x. Some s), so_start_check = (\<lambda>s n. Some s),
     so_mark_stale = id, so_retrans_fetch = (\<lambda>s t. False), so_send_fetch = (\<lambda>s f. Some s),
     so_enforce_bound = (\<lambda>s M b k c. Some (\<not> c, s, M))\<rparr>"

definition wit_vo :: "(unit, unit) view_ops" where
  "wit_vo = \<lparr>vo_has_new_view = (\<lambda>v n. True), vo_has_nv_message = (\<lambda>v n. True), vo_add_missing_pp = (\<lambda>v m. Some (v, None)),
     vo_add_missing_prepare = (\<lambda>v m. Some (v, None)), vo_mark_stable = (\<lambda>v n. Some v), vo_mark_stale = (\<lambda>v. Some v),
     vo_add_complete = (\<lambda>v m. Some v), vo_add_incomplete = (\<lambda>v n d. Some v), vo_view_change = (\<lambda>v n e s. Some (v, None)),
     vo_fetch_request = (\<lambda>v n. None), vo_max_view = (\<lambda>v. Some 0), vo_max_maj_view = (\<lambda>v. Some 0), vo_clear = id,
     vo_enforce_bound = (\<lambda>v b k c. Some (\<not> c, v))\<rparr>"

definition wit_env :: "(unit, nat, unit) env" where
  "wit_env = \<lparr>e_b = wit_build, e_cr = wit_sig_crypto, e_now = 1, e_mhz = 1, e_max_msg = 512, e_max_reply = 64, e_prepare_size = 8,
     e_commit_size = 8, e_checkpoint_size = 8, e_slot = (\<lambda>n. wit_pp\<lparr>m_rest := replicate 448 0\<rparr>), e_max_nd = 8, e_nd = (\<lambda>n. []),
     e_ksz = 8, e_rnd = (\<lambda>i. [1]), e_nonce = 5, e_exec = (\<lambda>c nds i ro a s. Some (0, [1, 2, 3], Suc a, s)), e_so = wit_so, e_vo = wit_vo\<rparr>"

definition wit_replica :: "int \<Rightarrow> (unit, nat, unit) replica option" where
  "wit_replica i = Replica_new wit_env (wit_node i) \<lparr>mem_count = 0, mem_slots = [], mem_app = 0\<rparr> 4096 () () 10 100 100 100 3 4"

section \<open>What the agreement handlers keep\<close>

fun agreement_event :: "event \<Rightarrow> bool" where
  "agreement_event (Ev_request m) = True"
| "agreement_event (Ev_pre_prepare m) = True"
| "agreement_event (Ev_prepare m) = True"
| "agreement_event (Ev_commit m) = True"
| "agreement_event (Ev_checkpoint m) = True"
| "agreement_event _ = False"

text \<open>Sequences of agreement messages handled by a replica that has its view; the environment (clock, random numbers,
  service) may be another one at every step.\<close>

inductive agreement_run :: "build \<Rightarrow> ('st, 'a, 'vi) replica \<Rightarrow> ('st, 'a, 'vi) replica \<Rightarrow> bool" for b R where
  run_start: "agreement_run b R R"
| run_step: "agreement_run b R R1 \<Longrightarrow> e_b E = b \<Longrightarrow> has_new_view E R1 \<Longrightarrow> agreement_event ev \<Longrightarrow>
    handle_event E ev R1 = Some R2 \<Longrightarrow> agreement_run b R R2"

lemma agreement_event_advances:
  assumes "agreement_event ev" "handle_event E ev R = Some R'" "\<not> rp_recovering R" "has_new_view E R"
    and "num_replicas (rp_nd R) \<le> Max_num_replicas (e_b E)"
  shows "advances (e_b E) R R'"
  using assms handle_request_advances [of E _ R R'] handle_pre_prepare_advances [of E _ R R'] handle_prepare_advances [of E _ R R']
    handle_commit_advances [of E _ R R'] handle_checkpoint_advances [of E _ R R']
  by (cases ev) (auto simp: handle_event_def split: if_splits)

lemma Log_new_build: "build_ok b \<Longrightarrow> log_ok (Log_new x (max_out b) h)"
  using Log_new_ok by (auto simp: build_ok_def)

lemma fresh_heads: "head (Log_new x n h) = h" "max_size (Log_new x n h) = n" "cl_head (CheckpointLog_new b y) = 0"
  by (simp_all add: Log_new_def CheckpointLog_new_def)

lemma Replica_new_windowed:
  assumes "build_ok (e_b E)" "Replica_new E nd M sz S V at vt st rt r1 r2 = Some R"
  shows "windowed (e_b E) R \<and> \<not> rp_recovering R"
  using assms(2) unfolding Replica_new_def Let_def
  by (auto elim!: bind_SomeE simp: windowed_def wlogs_def th_assert_def Log_new_build [OF assms(1)] fresh_heads
      CheckpointLog_new_inv [OF build_ok_interval [OF assms(1)]] split: if_splits)

text \<open>C3: Along every sequence of agreement messages that a replica handles in its view, the view, the group and the
  primary stay, the sequence-number counters never go back, the three logs stay aligned with the last stable
  checkpoint, and the pre-prepares it sends all carry its view and strictly increasing sequence numbers that were
  not assigned before: a correct primary never assigns one number to two batches.\<close>

theorem agreement_run_advances:
  assumes "agreement_run b R R'" "\<not> rp_recovering R" "num_replicas (rp_nd R) \<le> Max_num_replicas b"
  shows "rp_view R' = rp_view R \<and> primary (rp_nd R') = primary (rp_nd R) \<and> rp_last_stable R \<le> rp_last_stable R' \<and>
    rp_last_executed R \<le> rp_last_executed R' \<and> rp_last_prepared R \<le> rp_last_prepared R' \<and> rp_low_bound R \<le> rp_low_bound R' \<and>
    (windowed b R \<longrightarrow> windowed b R') \<and>
    (\<exists>ms. rp_out R' = rp_out R @ ms \<and> sorted_wrt (<) (map snd (pps_sent ms)) \<and>
       (\<forall>(v, n) \<in> set (pps_sent ms). v = rp_view R \<and> rp_seqno R < n \<and> n \<le> rp_seqno R'))"
proof -
  have "advances b R R'"
    using assms(1)
  proof (induction rule: agreement_run.induct)
    case (run_step R1 E ev R2)
    have r: "\<not> rp_recovering R1" "num_replicas (rp_nd R1) = num_replicas (rp_nd R)"
      using run_step.IH assms(2) by (auto simp: advances_def same_group_def)
    have "advances (e_b E) R1 R2"
      using agreement_event_advances [OF run_step.hyps(4,5) r(1) run_step.hyps(3)] r(2) assms(3) run_step.hyps(2) by simp
    with run_step.IH run_step.hyps(2) show ?case using advances_trans by blast
  qed simp
  then show ?thesis by (auto simp: advances_def same_group_def rp_view_def primary_def)
qed

theorem agreement_run_advances_witness:
  "\<exists>R r R'. wit_replica 0 = Some R \<and> wit_request [1, 2, 3] = Some r \<and> handle_event wit_env (Ev_request r) R = Some R' \<and>
     rp_view R' = rp_view R \<and> windowed wit_build R' \<and> pps_sent (rp_out R') = [(0, 1)]"
proof -
  have "do { R \<leftarrow> wit_replica 0; r \<leftarrow> wit_request [1, 2, 3]; R' \<leftarrow> handle_event wit_env (Ev_request r) R;
      Some (rp_recovering R, has_new_view wit_env R, num_replicas (rp_nd R), pps_sent (rp_out R')) } = Some (False, True, 4, [(0, 1)])"
    by code_simp
  then obtain R r R' where R: "wit_replica 0 = Some R" "wit_request [1, 2, 3] = Some r" "handle_event wit_env (Ev_request r) R = Some R'"
    "\<not> rp_recovering R" "has_new_view wit_env R" "num_replicas (rp_nd R) = 4" "pps_sent (rp_out R') = [(0, 1)]"
    by (auto elim!: bind_SomeE)
  have "agreement_run wit_build R R'"
    by (rule run_step [OF run_start _ R(5) _ R(3)]) (simp_all add: wit_env_def)
  from agreement_run_advances [OF this R(4)] R(6) have "rp_view R' = rp_view R" "windowed wit_build R \<longrightarrow> windowed wit_build R'"
    by (simp_all add: wit_build_def)
  moreover have "windowed wit_build R"
    using Replica_new_windowed [of wit_env] wit_build_ok R(1) unfolding wit_replica_def by (fastforce simp: wit_env_def)
  ultimately show ?thesis using R by blast
qed

section \<open>At-most-once execution\<close>

lemma req_id_put: "put_slot M c r = Some M' \<Longrightarrow> req_id M' k = (if k = c then Some (y_rid r) else req_id M k) \<and> mem_app M' = mem_app M"
  by (auto simp: put_slot_def req_id_def rep_reply_def arr_set_def arr_get_def nth_list_update elim!: bind_SomeE split: if_splits)

lemma rep_reply_put: "put_slot M c r = Some M' \<Longrightarrow> rep_reply M' c = Some r"
  by (auto simp: put_slot_def rep_reply_def arr_set_def arr_get_def elim!: bind_SomeE split: if_splits)

lemma req_id_same: "rep_reply M c = Some r \<Longrightarrow> y_rid r' = y_rid r \<Longrightarrow> put_slot M c r' = Some M' \<Longrightarrow> req_id M' = req_id M \<and> mem_app M' = mem_app M"
  using req_id_put [of M c r' M'] by (auto simp: req_id_def fun_eq_iff)

lemma req_id_app [simp]: "req_id (M\<lparr>mem_app := a\<rparr>) = req_id M"
  by (simp add: req_id_def rep_reply_def fun_eq_iff)

lemma send_reply_mem:
  "send_reply cr nd mhz now ri M c v i t = Some (a, ri', M') \<Longrightarrow> req_id M' = req_id M \<and> mem_app M' = mem_app M"
  unfolding send_reply_def Let_def
  by (elim bind_SomeE) (auto simp: th_assert_def restore_slot_def elim!: bind_SomeE split: if_splits
    dest!: req_id_same [rotated 2, of _ _ _ M'])

lemma handle_reply_mem: "handle_reply E m own R = Some R' \<Longrightarrow> \<not> rp_recovering R \<Longrightarrow> rp_mem R' = rp_mem R"
  unfolding handle_reply_def handle_request_reply_def handle_recovery_reply_def enforce_view_def Let_def
  by (auto simp: emit_def elim!: bind_SomeE split: option.splits if_splits)

lemma do_send_reply_mem:
  "do_send_reply E cid t R = Some R' \<Longrightarrow> \<not> rp_recovering R \<Longrightarrow> req_id (rp_mem R') = req_id (rp_mem R) \<and> mem_app (rp_mem R') = mem_app (rp_mem R)"
  unfolding do_send_reply_def Let_def
  by (auto simp: emit_def elim!: bind_SomeE dest!: send_reply_mem handle_reply_mem split: option.splits reply_action.splits)

lemma end_reply_mem:
  "end_reply cr M c rid sz = Some M' \<Longrightarrow> req_id M' k = (if k = c then Some rid else req_id M k) \<and> mem_app M' = mem_app M"
  unfolding end_reply_def Let_def set_size_def
  by (auto simp: th_assert_def elim!: bind_SomeE split: if_splits dest!: req_id_put [where k = k])

lemma write_reply_mem: "write_reply M c bs = Some M' \<Longrightarrow> req_id M' = req_id M \<and> mem_app M' = mem_app M"
  unfolding write_reply_def by (auto elim!: bind_SomeE dest!: req_id_same [rotated 2])

lemma finish_request_mem:
  "finish_request E cmt req c bs R = Some R' \<Longrightarrow> \<not> rp_recovering R \<Longrightarrow>
   req_id (rp_mem R') k = (if k = c then Some (r_rid req) else req_id (rp_mem R) k) \<and> mem_app (rp_mem R') = mem_app (rp_mem R)"
  unfolding finish_request_def Let_def
  by (auto simp: emit_def elim!: bind_SomeE split: if_splits dest!: do_send_reply_mem write_reply_mem end_reply_mem [where k = k])

lemma new_reply_mem:
  "new_reply cow mx ri st M c = Some (cap, ri', st', M') \<Longrightarrow> req_id M' = req_id M \<and> mem_app M' = mem_app M"
  unfolding new_reply_def by (auto elim!: bind_SomeE dest!: req_id_same [rotated 2])

lemma send_new_key_mem: "send_new_key E R = Some R' \<Longrightarrow> rp_mem R' = rp_mem R \<and> (rp_recovering R' = rp_recovering R)"
  unfolding send_new_key_def Node_send_new_key_def Let_def by (auto simp: timer_defs emit_def elim!: bind_SomeE)

text \<open>A request that is not executed again: its number is not above the one of the stored reply, or it is a recovery
  request of the wrong size, which is skipped.\<close>

definition spent :: "('st, 'a, 'vi) replica \<Rightarrow> request \<Rightarrow> bool" where
  "spent R req \<longleftrightarrow> (is_replica (rp_nd R) (r_cid req) \<and> is_recovery req \<and> r_command_size req \<noteq> 8) \<or>
     (\<exists>c rid. slot_of (r_cid req) = Some c \<and> req_id (rp_mem R) c = Some rid \<and> r_rid req \<le> rid)"

lemma exec_one_spends:
  assumes "exec_one E cmt pp req R = Some R'" "\<not> rp_recovering R"
  shows "spent R' req \<and> (\<forall>c rid. req_id (rp_mem R) c = Some rid \<longrightarrow> (\<exists>rid'. req_id (rp_mem R') c = Some rid' \<and> rid \<le> rid')) \<and>
    (spent R req \<longrightarrow> req_id (rp_mem R') = req_id (rp_mem R) \<and> mem_app (rp_mem R') = mem_app (rp_mem R))"
proof -
  obtain c rid where c: "slot_of (r_cid req) = Some c" "req_id (rp_mem R) c = Some rid"
    using assms(1) by (auto simp: exec_one_def elim!: bind_SomeE)
  have g: "is_replica (rp_nd R') i = is_replica (rp_nd R) i" for i
    using exec_one_calm [OF assms] by (auto simp: calm_def same_group_def is_replica_def)
  let ?skip = "is_replica (rp_nd R) (r_cid req) \<and> is_recovery req \<and> r_command_size req \<noteq> 8"
  have same: "req_id (rp_mem R') = req_id (rp_mem R) \<and> mem_app (rp_mem R') = mem_app (rp_mem R)" if "r_rid req \<le> rid \<or> ?skip"
    using assms c that unfolding exec_one_def Let_def
    by (auto elim!: bind_SomeE dest!: do_send_reply_mem new_reply_mem split: if_splits)
  have fin: "req_id (rp_mem R') k = (if k = c then Some (r_rid req) else req_id (rp_mem R) k)" if "\<not> r_rid req \<le> rid" "\<not> ?skip" for k
    using assms c that unfolding exec_one_def Let_def
    by (auto elim!: bind_SomeE dest!: finish_request_mem [where k = k] new_reply_mem send_new_key_mem split: if_splits)
  show ?thesis
  proof (cases "r_rid req \<le> rid \<or> ?skip")
    case True
    then show ?thesis using same [OF True] c g by (auto simp: spent_def)
  next
    case False
    then have "\<not> spent R req" using c by (auto simp: spent_def)
    then show ?thesis using fin False c by (auto simp: spent_def)
  qed
qed

lemma spent_kept:
  assumes "spent R req" "is_replica (rp_nd R') (r_cid req) = is_replica (rp_nd R) (r_cid req)"
    and "\<forall>c rid. req_id (rp_mem R) c = Some rid \<longrightarrow> (\<exists>rid'. req_id (rp_mem R') c = Some rid' \<and> rid \<le> rid')"
  shows "spent R' req"
  using assms unfolding spent_def by (meson order_trans)

lemma batch_spends:
  assumes "fold_opt (exec_one E cmt pp) rs R = Some R'" "\<not> rp_recovering R"
  shows "\<not> rp_recovering R' \<and> (\<forall>req. req \<in> set rs \<or> spent R req \<longrightarrow> spent R' req)"
  using assms
proof (induction rs arbitrary: R)
  case (Cons r rs)
  then obtain R1 where R1: "exec_one E cmt pp r R = Some R1" "fold_opt (exec_one E cmt pp) rs R1 = Some R'"
    by (auto elim!: bind_SomeE)
  note one = exec_one_spends [OF R1(1) Cons.prems(2)] and c = exec_one_calm [OF R1(1) Cons.prems(2)]
  have "is_replica (rp_nd R1) i = is_replica (rp_nd R) i" for i using c by (auto simp: calm_def same_group_def is_replica_def)
  then have "spent R1 req" if "spent R req" for req using spent_kept that one by blast
  with Cons.IH [OF R1(2) calm_recovering [OF c Cons.prems(2)]] one show ?case by auto
qed simp

lemma spent_batch_harmless:
  assumes "fold_opt (exec_one E cmt pp) rs R = Some R'" "\<not> rp_recovering R" "\<forall>req \<in> set rs. spent R req"
  shows "mem_app (rp_mem R') = mem_app (rp_mem R)"
  using assms
proof (induction rs arbitrary: R)
  case (Cons r rs)
  then obtain R1 where R1: "exec_one E cmt pp r R = Some R1" "fold_opt (exec_one E cmt pp) rs R1 = Some R'"
    by (auto elim!: bind_SomeE)
  note one = exec_one_spends [OF R1(1) Cons.prems(2)] and c = exec_one_calm [OF R1(1) Cons.prems(2)]
  have "is_replica (rp_nd R1) i = is_replica (rp_nd R) i" for i using c by (auto simp: calm_def same_group_def is_replica_def)
  then have "\<forall>req \<in> set rs. spent R1 req" using spent_kept Cons.prems(3) one by (metis list.set_intros(2))
  with Cons.IH [OF R1(2) calm_recovering [OF c Cons.prems(2)]] one Cons.prems(3) show ?case by simp
qed simp



section \<open>Committed requests are executed\<close>

lemma commit_loop_stops:
  assumes "commit_loop E R = Some (go, R')"
  shows "rp_last_executed R' < rp_last_stable R' \<or> rp_last_stable R' + max_out (e_b E) \<le> rp_last_executed R' \<or>
      (\<forall>pp. committed R' (rp_last_executed R' + 1) = Some (Some pp) \<longrightarrow> pp_view pp \<noteq> rp_view R')"
proof -
  let ?P = "\<lambda>E R'. rp_last_executed R' < rp_last_stable R' \<or> rp_last_stable R' + max_out (e_b E) \<le> rp_last_executed R' \<or>
      (\<forall>pp. committed R' (rp_last_executed R' + 1) = Some (Some pp) \<longrightarrow> pp_view pp \<noteq> rp_view R')"
  have "?P E (snd (go, R'))"
    by (rule commit_loop.raw_induct [OF _ assms, where P = "\<lambda>E R r. ?P E (snd r)"])
      (auto split: if_splits option.splits elim!: bind_SomeE, blast)
  then show ?thesis by simp
qed

text \<open>The rounds of the loop: it goes on while the window has room and the next batch is committed in this view. A round
  can abort only because one of the operations it calls does.\<close>

definition commit_room :: "('st, 'a, 'vi) env \<Rightarrow> ('st, 'a, 'vi) replica \<Rightarrow> bool" where
  "commit_room E R \<longleftrightarrow> rp_last_stable R \<le> rp_last_executed R \<and> rp_last_executed R < rp_last_stable R + max_out (e_b E)"

inductive commit_rounds :: "('st, 'a, 'vi) env \<Rightarrow> ('st, 'a, 'vi) replica \<Rightarrow> ('st, 'a, 'vi) replica \<Rightarrow> bool" for E where
  no_round: "commit_rounds E R R"
| one_round: "commit_room E R \<Longrightarrow> committed R (rp_last_executed R + 1) = Some (Some pp) \<Longrightarrow> pp_view pp = rp_view R \<Longrightarrow>
    commit_next E pp R = Some R1 \<Longrightarrow> commit_rounds E R1 R2 \<Longrightarrow> commit_rounds E R R2"

definition round_aborts :: "('st, 'a, 'vi) env \<Rightarrow> ('st, 'a, 'vi) replica \<Rightarrow> bool" where
  "round_aborts E R \<longleftrightarrow> committed R (rp_last_executed R + 1) = None \<or>
     (\<exists>pp. committed R (rp_last_executed R + 1) = Some (Some pp) \<and> pp_view pp = rp_view R \<and> commit_next E pp R = None)"

lemma commit_loop_returns:
  "\<not> rp_recovering R \<Longrightarrow> commit_loop E R = None \<Longrightarrow> \<exists>R'. commit_rounds E R R' \<and> (round_aborts E R' \<or> B \<le> rp_last_stable R')"
proof (induction "nat (B + max_out (e_b E) - rp_last_executed R)" arbitrary: R rule: less_induct)
  case less
  show ?case
  proof (cases "round_aborts E R \<or> B \<le> rp_last_stable R")
    case True
    then show ?thesis using no_round by blast
  next
    case False
    with less.prems(2) obtain pp R1 where pp: "committed R (rp_last_executed R + 1) = Some (Some pp)" "pp_view pp = rp_view R"
      "commit_next E pp R = Some R1" "commit_loop E R1 = None" "commit_room E R"
      by (subst (asm) commit_loop.simps)
        (auto simp: round_aborts_def commit_room_def split: if_splits option.splits Option.bind_splits)
    note n = commit_next_advances [OF pp(3) less.prems(1)]
    have "nat (B + max_out (e_b E) - rp_last_executed R1) < nat (B + max_out (e_b E) - rp_last_executed R)"
      using n pp(5) False by (auto simp: commit_room_def)
    moreover have "\<not> rp_recovering R1" using advances_recovering n less.prems(1) by blast
    ultimately obtain R' where "commit_rounds E R1 R'" "round_aborts E R' \<or> B \<le> rp_last_stable R'"
      using less.hyps pp(4) by blast
    with one_round [OF pp(5,1,2,3)] show ?thesis by blast
  qed
qed


text \<open>Four replicas agree on one request: replica 1 handles the pre-prepare of the primary, the prepare of replica 2 and
  the commits of 2 and 3; its state before the last commit is looked at by \<^verbatim>\<open>execute_committed\<close>.\<close>

definition wit_committed :: "(unit, nat, unit) replica option" where
  "wit_committed = do {
     R0 \<leftarrow> wit_replica 0; r \<leftarrow> wit_request [1, 2, 3]; R1 \<leftarrow> handle_event wit_env (Ev_request r) R0;
     pp \<leftarrow> (case rp_out R1 of [(Out_pre_prepare pp, _)] \<Rightarrow> Some pp | _ \<Rightarrow> None);
     B0 \<leftarrow> wit_replica 1;
     B1 \<leftarrow> handle_event wit_env (Ev_pre_prepare pp) B0;
     B2 \<leftarrow> handle_event wit_env (Ev_prepare (Prepare_new wit_sig_crypto (wit_node 2) 0 1 (pp_digest pp) None)) B1;
     B3 \<leftarrow> handle_event wit_env (Ev_commit (Commit_new wit_sig_crypto (wit_node 2) 0 1)) B2;
     C \<leftarrow> log_fetch (rp_clog B3) 1;
     (_, C') \<leftarrow> cert_add commit_ops (\<lambda>_. True) (wit_node 1) C (Commit_new wit_sig_crypto (wit_node 3) 0 1);
     cl \<leftarrow> log_put (rp_clog B3) 1 C';
     Some (B3\<lparr>rp_clog := cl\<rparr>) }"


section \<open>Termination of mark_stable\<close>

definition live :: "('st, 'a, 'vi) replica \<Rightarrow> nat set" where
  "live R = {i. i < nat (num_replicas (rp_nd R)) \<and> set_fetch (rp_sset R) (int i) \<noteq> None}"

definition sset_ok :: "('st, 'a, 'vi) replica \<Rightarrow> bool" where
  "sset_ok R \<longleftrightarrow> length (s_elems (rp_sset R)) = nat (s_max (rp_sset R))"

lemma finite_live: "finite (live R)" "card (live R) \<le> nat (num_replicas (rp_nd R))"
proof -
  have "live R \<subseteq> {..<nat (num_replicas (rp_nd R))}" by (auto simp: live_def)
  then show "finite (live R)" "card (live R) \<le> nat (num_replicas (rp_nd R))"
    using finite_subset card_mono [of "{..<nat (num_replicas (rp_nd R))}" "live R"] by auto
qed

lemma set_remove_fetch:
  assumes "length (s_elems S) = nat (s_max S)" "set_fetch S i \<noteq> None"
  shows "set_fetch (snd (set_remove S i)) j = (if j = i then None else set_fetch S j) \<and>
    length (s_elems (snd (set_remove S i))) = nat (s_max (snd (set_remove S i)))"
proof -
  have i: "0 \<le> i" "i < s_max S" "s_elems S ! nat i \<noteq> None" using assms(2) by (auto simp: set_fetch_def split: if_splits)
  then have "set_remove S i = (s_elems S ! nat i, S\<lparr>s_elems := (s_elems S)[nat i := None], s_cur := s_cur S - 1\<rparr>)"
    by (auto simp: set_remove_def)
  then show ?thesis using set_fetch_update [OF i(1,2) assms(1), where x = None] assms(1) by simp
qed

lemma ms_transfer_one_live:
  assumes "ms_transfer_one E i (l, R) = Some (l', R')" "sset_ok R" "i < nat (num_replicas (rp_nd R))"
  shows "sset_ok R' \<and> live R' \<subseteq> live R \<and> (l' \<noteq> l \<longrightarrow> live R' \<subset> live R)"
proof (cases "set_fetch (rp_sset R) (int i)")
  case None
  then show ?thesis using assms by (simp add: ms_transfer_one_def)
next
  case (Some c)
  let ?S = "snd (set_remove (rp_sset R) (int i))"
  have rm: "set_fetch ?S j = (if j = int i then None else set_fetch (rp_sset R) j)" "length (s_elems ?S) = nat (s_max ?S)" for j
    using set_remove_fetch [of "rp_sset R" "int i" j] assms(2) Some by (simp_all add: sset_ok_def)
  have r: "R' = R \<and> l' = l \<or> rp_sset R' = ?S \<and> rp_nd R' = rp_nd R"
    using assms(1) Some unfolding ms_transfer_one_def by (auto elim!: bind_SomeE split: if_splits)
  have "live R' \<subset> live R" if "rp_sset R' = ?S" "rp_nd R' = rp_nd R"
  proof -
    have "live R' = live R - {i}" using that(2) rm(1) by (auto simp: live_def that(1))
    moreover have "i \<in> live R" using Some assms(3) by (simp add: live_def)
    ultimately show ?thesis by auto
  qed
  moreover have "sset_ok R'" if "rp_sset R' = ?S" using rm(2) that by (simp add: sset_ok_def)
  ultimately show ?thesis using r assms(2) by blast
qed

lemma ms_transfer_live:
  assumes "ms_transfer E R = Some (l, R')" "sset_ok R"
  shows "sset_ok R' \<and> (l > rp_last_stable R' \<longrightarrow> card (live R') < card (live R))"
proof -
  let ?P = "\<lambda>(l, R'). sset_ok R' \<and> live R' \<subseteq> live R \<and> (l \<noteq> rp_last_stable R \<longrightarrow> live R' \<subset> live R) \<and> rp_nd R' = rp_nd R"
  have "?P (l, R')"
    using assms(1) unfolding ms_transfer_def
  proof (rule fold_opt_inv)
    show "?P (rp_last_stable R, R)" using assms(2) by simp
    fix i s s'
    assume i: "i \<in> set [0..<nat (num_replicas (rp_nd R))]" and P: "?P s" and t: "ms_transfer_one E i s = Some s'"
    obtain l1 R1 l2 R2 where s: "s = (l1, R1)" "s' = (l2, R2)" by fastforce
    from t have t: "ms_transfer_one E i (l1, R1) = Some (l2, R2)" by (simp add: s)
    have "sset_ok R1" "i < nat (num_replicas (rp_nd R1))" using P i by (auto simp: s)
    from ms_transfer_one_live [OF t this] ms_transfer_one_frame [OF t] P show "?P s'" by (simp add: s) blast
  qed
  then have "sset_ok R'" "l \<noteq> rp_last_stable R \<longrightarrow> live R' \<subset> live R" by auto
  then show ?thesis using psubset_card_mono [OF finite_live(1) [of R], of "live R'"] ms_transfer_frame [OF assms(1)] by auto
qed

lemma mark_stable_fuel:
  "sset_ok R \<Longrightarrow> card (live R) < k \<Longrightarrow> card (live R) < k' \<Longrightarrow> mark_stable_n k E n hs R = mark_stable_n k' E n hs R"
proof (induction k arbitrary: k' n hs R)
  case (Suc k)
  then obtain j where j: "k' = Suc j" by (cases k') auto
  have rec: "mark_stable_n k E l h R4 = mark_stable_n j E l h R4"
    if 12: "ms_catch_up E n hs R = Some R1" "ms_truncate E n R1 = Some R2" "\<not> n \<le> rp_last_stable R"
      and 3: "(if hs then do { S \<leftarrow> ms_own_checkpoint E n R2; try_end_recovery E S } else Some R2) = Some R3"
      and 4: "ms_transfer E R3 = Some (l, R4)" "l > rp_last_stable R4" for R1 R2 R3 R4 l h
  proof -
    have c2: "rp_sset R2 = rp_sset R" "num_replicas (rp_nd R2) = num_replicas (rp_nd R)"
      using ms_start_advances [OF 12(1,2)] 12(3) by (auto simp: advances_def same_group_def)
    have "calm (e_b E) R2 R3"
      using 3 by (auto elim!: bind_SomeE split: if_splits dest!: ms_own_checkpoint_calm try_end_recovery_calm [where b = "e_b E"] intro: calm_trans)
    then have "rp_sset R3 = rp_sset R" "num_replicas (rp_nd R3) = num_replicas (rp_nd R)"
      using c2 by (auto simp: calm_def same_group_def)
    then have "sset_ok R3" "live R3 = live R" using Suc.prems(1) by (simp_all add: sset_ok_def live_def)
    with ms_transfer_live [OF 4(1)] 4(2) have l: "sset_ok R4" "card (live R4) < card (live R)" by auto
    show ?thesis by (rule Suc.IH [OF l(1)]) (use l(2) Suc.prems(2,3) j in linarith)+
  qed
  show ?case
  proof (cases "n \<le> rp_last_stable R")
    case False
    then show ?thesis unfolding j mark_stable_n.simps
      by (simp only: if_False, intro Option.bind_cong refl) (auto simp: rec split: if_splits intro!: Option.bind_cong)
  qed (simp add: j)
qed simp



section \<open>Recovery\<close>

text \<open>C36: The request that a recovering replica sends is not marked as a recovery request: no code sets the bit that
  \<^verbatim>\<open>is_recovery\<close> tests. Its replies are therefore handled as those of an ordinary request, they change neither
  the recovery point nor the view, and when they are complete the certificate is emptied, so that the condition of
  \<^verbatim>\<open>try_end_recovery\<close> does not become true: the recovery does not end.\<close>

theorem recovery_request_unmarked:
  assumes "recovery_request E R = Some (r, nd)"
  shows "\<not> is_recovery r \<and>
    (\<forall>m own R1 R2. rp_rr R1 = Some r \<and> 0 < complete (rp_rr_reps R1) \<and> handle_reply E m own R1 = Some R2 \<longrightarrow>
       rp_recovering R2 = rp_recovering R1 \<and> rp_recovery_point R2 = rp_recovery_point R1 \<and> rp_view R2 = rp_view R1 \<and>
       (rp_rr R2 = None \<longrightarrow> \<not> is_complete (rp_rr_reps R2)))"
proof -
  have r: "\<not> is_recovery r"
    using assms unfolding recovery_request_def Request_new_def Request_sign_def set_size_def set_extra_bit_def store_command_def Let_def
    by (auto elim!: bind_SomeE simp: is_recovery_def th_assert_def split: if_splits)
  have k: "complete C' = complete C" if "cert_add ops ver nd' C m = Some (b, C')" for ops :: "reply msg_ops" and ver nd' C m b C'
    using that unfolding cert_add_def add_value_def count_vote_def Let_def
    by (auto elim!: bind_SomeE simp: cert_clear_def th_assert_def split: if_splits option.splits)
  have k': "complete C' = complete C" if "cert_add_mine ops nd' t C m = Some (b, C')" for ops :: "reply msg_ops" and nd' t C m b C'
    using that unfolding cert_add_mine_def choose_value_def Let_def
    by (auto elim!: bind_SomeE simp: th_assert_def split: if_splits option.splits)
  have cl: "\<not> is_complete (snd (cvalue_clear C))" if "cvalue C = Some v" "0 < complete C" for C :: "reply certificate" and v
    using that by (auto simp: cvalue_clear_def cvalue_def is_complete_def num_correct_def cert_clear_def split: option.splits)
  show ?thesis
    using r cl unfolding handle_reply_def handle_request_reply_def Let_def
    by (auto elim!: bind_SomeE split: if_splits dest!: k k' simp: emit_def rp_view_def)
qed

theorem recovery_request_unmarked_witness:
  "\<exists>R r nd. wit_replica 1 = Some R \<and> recovery_request wit_env R = Some (r, nd) \<and> r_command_size r = 8 \<and> \<not> is_recovery r"
proof -
  have "do { R \<leftarrow> wit_replica 1; (r, nd) \<leftarrow> recovery_request wit_env R; Some (r_command_size r) } = Some 8" by code_simp
  then obtain R r nd where "wit_replica 1 = Some R" "recovery_request wit_env R = Some (r, nd)" "r_command_size r = 8"
    by (auto elim!: bind_SomeE)
  with recovery_request_unmarked show ?thesis by blast
qed

text \<open>A recovery request whose command does not have eight bytes stops every other replica that executes and commits
  it: its execution leaves the reply slot open, and the assertion of \<^verbatim>\<open>send_reply\<close> fails when the batch commits. One
  faulty replica can so abort all correct ones.\<close>

theorem malformed_recovery_aborts:
  assumes "exec_one E cmt pp req R = Some R1" "req_id (rp_mem R) (nat (r_cid req)) = Some rid" "rid < r_rid req"
    and "is_replica (rp_nd R) (r_cid req)" "is_recovery req" "r_command_size req \<noteq> 8"
    and "rp_nd R2 = rp_nd R" "r_cid req \<noteq> node_id (rp_nd R)" "mem_slots (rp_mem R2) = mem_slots (rp_mem R1)"
  shows "commit_one E' req R2 = None"
proof -
  have c: "slot_of (r_cid req) = Some (nat (r_cid req))" using assms(4) by (simp add: slot_of_def is_replica_def)
  have "\<not> r_rid req \<le> rid" using assms(3) by simp
  then obtain r where "rep_reply (rp_mem R1) (nat (r_cid req)) = Some r" "y_reply_size r = - 1"
    using assms(1,2,4-6) c unfolding exec_one_def new_reply_def Let_def by (auto elim!: bind_SomeE dest!: rep_reply_put)
  then have "rep_reply (rp_mem R2) (nat (r_cid req)) = Some r" "y_reply_size r = - 1" using assms(9) by (simp_all add: rep_reply_def)
  then have "do_send_reply E' (r_cid req) False (R2\<lparr>rp_replies := ri\<rparr>) = None" for ri
    using c by (simp add: do_send_reply_def send_reply_def)
  then show ?thesis
    using c assms(4,7,8) unfolding commit_one_def Let_def by (cases "commit_reply (rp_replies R2) (nat (r_cid req))") auto
qed

definition wit_bad_request :: "request option" where
  "wit_bad_request = map_option (\<lambda>r. r\<lparr>m_extra := 6\<rparr>) (wit_request [1, 2, 3])"

theorem malformed_recovery_aborts_witness:
  "\<exists>R r R1. wit_replica 0 = Some R \<and> wit_bad_request = Some r \<and> exec_one wit_env False wit_pp r R = Some R1 \<and> commit_one wit_env r R1 = None"
proof -
  have "do { R \<leftarrow> wit_replica 0; r \<leftarrow> wit_bad_request; R1 \<leftarrow> exec_one wit_env False wit_pp r R; rid \<leftarrow> req_id (rp_mem R) 3;
      Some (r_cid r, is_recovery r, r_command_size r, rid < r_rid r, num_replicas (rp_nd R), node_id (rp_nd R)) } = Some (3, True, 3, True, 4, 0)"
    by code_simp
  then obtain R r R1 rid where R: "wit_replica 0 = Some R" "wit_bad_request = Some r" "exec_one wit_env False wit_pp r R = Some R1"
    "req_id (rp_mem R) 3 = Some rid" "r_cid r = 3" "is_recovery r" "r_command_size r = 3" "rid < r_rid r"
    "num_replicas (rp_nd R) = 4" "node_id (rp_nd R) = 0"
    by (auto elim!: bind_SomeE)
  have "\<not> r_rid r \<le> rid" using R(8) by simp
  then have "rp_nd R1 = rp_nd R"
    using R(3-7,9) unfolding exec_one_def Let_def slot_of_def by (auto elim!: bind_SomeE simp: is_replica_def split: if_splits)
  then have "commit_one wit_env r R1 = None"
    using malformed_recovery_aborts [OF R(3), of rid R1 wit_env] R by (simp add: is_replica_def)
  with R show ?thesis by blast
qed

section \<open>Checkpoint messages\<close>

text \<open>C37: Two kinds of checkpoint message abort the replica. One in the window whose number is not a multiple of the
  checkpoint interval does so whoever sent it, because the log is read before the message is verified. One that
  another replica has marked as stable and that lies above the window does so when it is stored.\<close>

theorem checkpoint_message_aborts:
  assumes "windowed (e_b E) R" "num_replicas (rp_nd R) \<le> Max_num_replicas (e_b E)"
  shows "(rp_last_stable R < k_seqno m \<and> k_seqno m \<le> rp_last_stable R + max_out (e_b E) \<and> \<not> k_stable m \<and>
      \<not> checkpoint_interval (e_b E) dvd k_seqno m \<longrightarrow> handle_checkpoint E m R = None) \<and>
    (rp_last_stable R + max_out (e_b E) < k_seqno m \<and> k_stable m \<and> Checkpoint_verify (e_cr E) (rp_nd R) m = Some True \<and>
      set_fetch (rp_sset R) (k_id m) = None \<and> 0 \<le> max_out (e_b E) \<longrightarrow> handle_checkpoint E m R = None)"
proof (intro conjI impI, elim conjE)
  assume m: "rp_last_stable R < k_seqno m" "k_seqno m \<le> rp_last_stable R + max_out (e_b E)" "\<not> k_stable m"
    "\<not> checkpoint_interval (e_b E) dvd k_seqno m"
  have "log_fetch (rp_clog R) (rp_last_executed R) \<noteq> None" if "log_within_range (rp_clog R) (rp_last_executed R)"
    using that assms(1) log_fetch_iff [of "rp_clog R" "rp_last_executed R"] by (auto simp: windowed_def wlogs_def)
  then have "late E m R = Some False" using m(3) by (auto simp: late_def)
  moreover have "add_checkpoint E m R = None"
    using m(4) by (simp add: add_checkpoint_def clog_fetch_def dvd_eq_mod_eq_0 th_assert_def)
  ultimately show "handle_checkpoint E m R = None" using m(1,2) by (simp add: handle_checkpoint_def)
next
  assume m: "rp_last_stable R + max_out (e_b E) < k_seqno m \<and> k_stable m \<and> Checkpoint_verify (e_cr E) (rp_nd R) m = Some True \<and>
      set_fetch (rp_sset R) (k_id m) = None \<and> 0 \<le> max_out (e_b E)"
  then have "k_id m < Max_num_replicas (e_b E)"
    using assms(2) by (auto simp: Checkpoint_verify_def is_replica_def split: if_splits)
  with m show "handle_checkpoint E m R = None" by (simp add: handle_checkpoint_def keep_stable_checkpoint_aborts)
qed

theorem checkpoint_message_aborts_witness:
  "\<exists>R. wit_replica 0 = Some R \<and> handle_checkpoint wit_env (Checkpoint_new wit_sig_crypto (wit_node 2) 3 digest_zero False) R = None"
proof -
  have "map_option (\<lambda>R. (rp_last_stable R, num_replicas (rp_nd R))) (wit_replica 0) = Some (0, 4)" by code_simp
  then obtain R where R: "wit_replica 0 = Some R" "rp_last_stable R = 0" "num_replicas (rp_nd R) = 4" by auto
  have w: "windowed (e_b wit_env) R"
    using Replica_new_windowed [of wit_env] wit_build_ok R(1) unfolding wit_replica_def by (fastforce simp: wit_env_def)
  let ?m = "Checkpoint_new wit_sig_crypto (wit_node 2) 3 digest_zero False"
  have "k_seqno ?m = 3" "\<not> k_stable ?m" by (simp_all add: Checkpoint_new_def k_stable_def Let_def)
  then have "handle_checkpoint wit_env ?m R = None"
    using checkpoint_message_aborts [OF w, of ?m] R(2,3) by (simp add: wit_env_def wit_build_def)
  with R(1) show ?thesis by blast
qed

end
