(* ===== verification/View_Messages.thy ===== *)
theory View_Messages
  imports Prepared_Cert
begin

text \<open>
  The messages of the view-change protocol (\<^verbatim>\<open>View_change.cc\<close>, \<^verbatim>\<open>View_change_ack.cc\<close>, \<^verbatim>\<open>New_view.cc\<close>) in the static build, where
  the messages of this replica are built in place in the slots of the special region. Assertions may be compiled in or not
  (\<^verbatim>\<open>NDEBUG\<close>): the first argument of an operation that asserts something says which.
\<close>

definition vassert :: "bool \<Rightarrow> bool \<Rightarrow> unit option" where
  "vassert a c = (if a then th_assert c else Some ())"

lemma vassert_simps [simp]: "vassert False c = Some ()" "vassert a True = Some ()" "vassert True c = th_assert c"
  by (simp_all add: vassert_def)

lemma vassert_Some: "vassert a c = Some u \<longleftrightarrow> (a \<longrightarrow> c)"
  by (cases a; cases c) (simp_all add: vassert_def)

definition View_change_tag :: int where "View_change_tag = 8"
definition New_view_tag :: int where "New_view_tag = 9"
definition View_change_ack_tag :: int where "View_change_ack_tag = 10"

section \<open>View-change messages\<close>

record req_info =
  ri_lv :: view
  ri_v :: view
  ri_d :: digest

record view_change = message +
  vc_v :: view
  vc_ls :: seqno
  vc_ckpts :: "digest list"
  vc_id :: int
  vc_nckpts :: int
  vc_nreqs :: int
  vc_prepared :: "64 word list"
  vc_d :: digest
  vc_reqs :: "req_info list"

definition ckpt_slots :: "build \<Rightarrow> nat" where
  "ckpt_slots b = nat (max_out b div checkpoint_interval b + 1)"

definition prepared_size :: "build \<Rightarrow> nat" where
  "prepared_size b = nat ((max_out b + 63) div 64)"

definition sizeof_View_change_rep :: "build \<Rightarrow> int" where
  "sizeof_View_change_rep b = 64 + 32 * int (ckpt_slots b) + 8 * int (prepared_size b)"

definition sizeof_Req_info :: int where "sizeof_Req_info = 48"

definition AUTHENTICATOR_SIZE :: "build \<Rightarrow> int" where
  "AUTHENTICATOR_SIZE b = 32 * (Max_num_replicas b - 1)"

definition max_view_change_size :: "build \<Rightarrow> int" where
  "max_view_change_size b = sizeof_View_change_rep b + max_out b * sizeof_Req_info + AUTHENTICATOR_SIZE b"

definition req_info_bytes :: "req_info \<Rightarrow> byte list" where
  "req_info_bytes r = le_bytes 8 (ri_lv r) @ le_bytes 8 (ri_v r) @ digest_bytes (ri_d r)"

definition view_change_bytes :: "view_change \<Rightarrow> byte list" where
  "view_change_bytes m = header_bytes m @ le_bytes 8 (vc_v m) @ le_bytes 8 (vc_ls m) @ concat (map digest_bytes (vc_ckpts m)) @
     le_bytes 4 (vc_id m) @ le_bytes 2 (vc_nckpts m) @ le_bytes 2 (vc_nreqs m) @ concat (map (\<lambda>w. le_bytes 8 (uint w)) (vc_prepared m)) @
     digest_bytes (vc_d m) @ concat (map req_info_bytes (take (nat (vc_nreqs m)) (vc_reqs m)))"

text \<open>The selector of a bit is \<^verbatim>\<open>1 << k\<close> with an \<^verbatim>\<open>int\<close> on the left: from 32 on the shift is undefined, and at 31 the value is negative, so that
  its conversion to 64 bits has all higher bits set.\<close>

definition int_shift :: "nat \<Rightarrow> 64 word option" where
  "int_shift k = (if k < 31 then Some (push_bit k 1) else if k = 31 then Some (- push_bit 31 1) else None)"

definition vc_mark :: "bool \<Rightarrow> build \<Rightarrow> int \<Rightarrow> view_change \<Rightarrow> view_change option" where
  "vc_mark a b index m = do {
     vassert a (index \<ge> 0 \<and> index < int (prepared_size b) * 64);
     if index < 0 then None
     else do {
       chunk \<leftarrow> arr_get (vc_prepared m) (nat index div 64);
       s \<leftarrow> int_shift (nat index mod 64);
       Some (m\<lparr>vc_prepared := (vc_prepared m)[nat index div 64 := chunk OR s]\<rparr>) } }"

definition vc_test :: "bool \<Rightarrow> build \<Rightarrow> int \<Rightarrow> view_change \<Rightarrow> bool option" where
  "vc_test a b index m = do {
     vassert a (index \<ge> 0 \<and> index < int (prepared_size b) * 64);
     if index < 0 then None
     else do {
       chunk \<leftarrow> arr_get (vc_prepared m) (nat index div 64);
       s \<leftarrow> int_shift (nat index mod 64);
       Some (chunk AND s \<noteq> 0) } }"

text \<open>\<^verbatim>\<open>bzero\<close> is called with four bytes per chunk of eight: half of the bitmap keeps what was in the slot.\<close>

definition zero_prepared :: "nat \<Rightarrow> 64 word list \<Rightarrow> 64 word list" where
  "zero_prepared ps ws = map (\<lambda>k. if 2 * k + 2 \<le> ps then 0 else if 2 * k + 1 \<le> ps then push_bit 32 (drop_bit 32 (ws ! k)) else ws ! k) [0..<length ws]"

definition vc_init :: "build \<Rightarrow> view \<Rightarrow> seqno \<Rightarrow> int \<Rightarrow> view_change \<Rightarrow> view_change" where
  "vc_init b v ls ident m = m\<lparr>vc_v := v, vc_ls := ls, vc_id := ident, vc_nckpts := 0, vc_ckpts := replicate (ckpt_slots b) digest_zero,
     vc_prepared := zero_prepared (prepared_size b) (vc_prepared m), vc_nreqs := 0\<rparr>"

text \<open>The constructor on the slot of this replica, \<^verbatim>\<open>special_region::new_view_change\<close>. The field \<^verbatim>\<open>in_scratch_\<close> is not written and
  stays what the object in the slot has.\<close>

definition new_view_change :: "build \<Rightarrow> view \<Rightarrow> seqno \<Rightarrow> int \<Rightarrow> view_change \<Rightarrow> view_change" where
  "new_view_change b v ls ident slot =
     (vc_init b v ls ident (slot\<lparr>m_tag := View_change_tag, m_max := - 1\<rparr>))\<lparr>m_size := sizeof_View_change_rep b\<rparr>"

definition vc_add_checkpoint :: "bool \<Rightarrow> build \<Rightarrow> seqno \<Rightarrow> digest \<Rightarrow> view_change \<Rightarrow> view_change option" where
  "vc_add_checkpoint a b n d m = do {
     vassert a (n smod checkpoint_interval b = 0);
     vassert a (vc_ls m \<le> n \<and> n \<le> vc_ls m + max_out b);
     let index = to_int32 ((n - vc_ls m) sdiv checkpoint_interval b);
     if index < 0 then None
     else do {
       cs \<leftarrow> arr_set (vc_ckpts m) (nat index) d;
       Some (m\<lparr>vc_ckpts := cs, vc_nckpts := (if index \<ge> vc_nckpts m then to_int16 (index + 1) else vc_nckpts m)\<rparr>) } }"

text \<open>The requests between the last one and \<open>n\<close> become null requests.\<close>

definition fill_holes :: "nat \<Rightarrow> nat \<Rightarrow> req_info list \<Rightarrow> req_info list" where
  "fill_holes lo hi rs = map (\<lambda>i. if lo \<le> i \<and> i < hi then (rs ! i)\<lparr>ri_v := - 1, ri_lv := - 1\<rparr> else rs ! i) [0..<length rs]"

definition add_request :: "bool \<Rightarrow> build \<Rightarrow> seqno \<Rightarrow> view \<Rightarrow> view \<Rightarrow> digest \<Rightarrow> bool \<Rightarrow> view_change \<Rightarrow> view_change option" where
  "add_request a b n v lv d prepared m = do {
     vassert a (vc_ls m < n \<and> n \<le> vc_ls m + max_out b);
     vassert a (v < vc_v m \<and> lv < vc_v m);
     let index = to_int32 (n - vc_ls m - 1);
     m1 \<leftarrow> (if prepared then vc_mark a b index m else Some m);
     if index < 0 then None
     else do {
       rs \<leftarrow> arr_set (vc_reqs m1) (nat index) \<lparr>ri_lv = lv, ri_v = v, ri_d = d\<rparr>;
       Some (if index \<ge> vc_nreqs m1
             then m1\<lparr>vc_reqs := fill_holes (nat (vc_nreqs m1)) (nat index) rs, vc_nreqs := to_int16 (index + 1)\<rparr>
             else m1\<lparr>vc_reqs := rs\<rparr>) } }"

definition vc_max_seqno :: "view_change \<Rightarrow> seqno" where
  "vc_max_seqno m = vc_ls m + vc_nreqs m"

text \<open>The digest of the last checkpoint and its number, if the message has one.\<close>

definition last_ckpt :: "bool \<Rightarrow> build \<Rightarrow> view_change \<Rightarrow> (digest \<times> seqno) option option" where
  "last_ckpt a b m =
     (if vc_nckpts m > 0 then do {
        d \<leftarrow> arr_get (vc_ckpts m) (nat (vc_nckpts m - 1));
        vassert a (\<not> digest_eq d digest_zero);
        Some (Some (d, (vc_nckpts m - 1) * checkpoint_interval b + vc_ls m)) }
      else Some None)"

definition vc_ckpt :: "build \<Rightarrow> seqno \<Rightarrow> view_change \<Rightarrow> digest option option" where
  "vc_ckpt b n m =
     (if n smod checkpoint_interval b \<noteq> 0 \<or> vc_ls m > n then Some None
      else let index = to_int32 ((n - vc_ls m) sdiv checkpoint_interval b) in
        if index \<ge> vc_nckpts m then Some None
        else if index < 0 then None
        else do {
          d \<leftarrow> arr_get (vc_ckpts m) (nat index);
          Some (if is_zero d then None else Some d) })"

text \<open>View, last view, digest and whether the request prepared, or none for a null request.\<close>

definition proofs :: "bool \<Rightarrow> build \<Rightarrow> seqno \<Rightarrow> view_change \<Rightarrow> (view \<times> view \<times> digest \<times> bool) option option" where
  "proofs a b n m =
     (let index = to_int32 (n - vc_ls m - 1) in
      if index < 0 \<or> index \<ge> vc_nreqs m then Some None
      else do {
        r \<leftarrow> arr_get (vc_reqs m) (nat index);
        if ri_v r < 0 then Some None
        else do {
          t \<leftarrow> vc_test a b index m;
          Some (Some (ri_v r, ri_lv r, ri_d r, t)) } })"

definition vc_req :: "bool \<Rightarrow> build \<Rightarrow> seqno \<Rightarrow> view_change \<Rightarrow> (view \<times> digest) option" where
  "vc_req a b n m = do {
     vassert a (n > vc_ls m);
     let index = to_int32 (n - vc_ls m - 1);
     if index \<ge> vc_nreqs m then Some (- 1, digest_zero)
     else do {
       t \<leftarrow> vc_test a b index m;
       if \<not> t then Some (- 1, digest_zero)
       else do {
         r \<leftarrow> arr_get (vc_reqs m) (nat index);
         Some (ri_v r, ri_d r) } } }"

definition vc_old_size :: "build \<Rightarrow> view_change \<Rightarrow> int" where
  "vc_old_size b m = sizeof_View_change_rep b + sizeof_Req_info * vc_nreqs m"

definition vc_re_authenticate :: "bool \<Rightarrow> build \<Rightarrow> crypto \<Rightarrow> node \<Rightarrow> view_change \<Rightarrow> view_change option" where
  "vc_re_authenticate a b cr nd m = do {
     vassert a (vc_nreqs m \<ge> 0 \<and> vc_nreqs m \<le> max_out b \<and> vc_v m > 0);
     vassert a (vc_nckpts m \<ge> 0 \<and> vc_nckpts m \<le> int (ckpt_slots b));
     vassert a (vc_nckpts m = 0 \<or> \<not> digest_eq (vc_ckpts m ! nat (vc_nckpts m - 1)) digest_zero);
     vassert a (vc_ls m \<ge> 0 \<and> vc_ls m smod checkpoint_interval b = 0);
     m1 \<leftarrow> set_size (nat (vc_old_size b m)) m (vc_old_size b m + auth_size nd (- 1));
     let m2 = m1\<lparr>vc_d := digest_zero\<rparr>;
     let m3 = m2\<lparr>vc_d := cr_hash cr (view_change_bytes m2)\<rparr>;
     Some (m3\<lparr>m_rest := put_bytes (m_rest m3) 0 (gen_auth_out (cr_H cr) nd (view_change_bytes m3))\<rparr>) }"

definition verify_digest :: "crypto \<Rightarrow> view_change \<Rightarrow> bool" where
  "verify_digest cr m = digest_eq (vc_d m) (cr_hash cr (view_change_bytes (m\<lparr>vc_d := digest_zero\<rparr>)))"

definition View_change_verify :: "build \<Rightarrow> crypto \<Rightarrow> node \<Rightarrow> view_change \<Rightarrow> bool option" where
  "View_change_verify b cr nd m =
     (if \<not> is_replica nd (vc_id m) \<or> vc_nreqs m < 0 \<or> vc_nreqs m > max_out b \<or> vc_v m \<le> 0 then Some False
      else if vc_nckpts m < 0 \<or> vc_nckpts m > int (ckpt_slots b) then Some False
      else if vc_nckpts m > 0 \<and> is_zero (vc_ckpts m ! nat (vc_nckpts m - 1)) then Some False
      else if vc_ls m < 0 \<or> vc_ls m smod checkpoint_interval b \<noteq> 0 then Some False
      else if m_size m - vc_old_size b m < auth_size nd (vc_id m) then Some False
      else if \<exists>r \<in> set (take (nat (vc_nreqs m)) (vc_reqs m)). ri_lv r \<ge> vc_v m \<or> ri_v r \<ge> vc_v m then Some False
      else if \<not> verify_digest cr m then Some False
      else verify_auth_in (cr_sc cr) (cr_H cr) nd (vc_id m) (view_change_bytes m) (m_rest m))"

definition View_change_convert :: "build \<Rightarrow> 'a message_scheme \<Rightarrow> bool" where
  "View_change_convert b m = has_tag m View_change_tag (sizeof_View_change_rep b)"

section \<open>Acknowledgements\<close>

record view_change_ack = message +
  va_v :: view
  va_id :: int
  va_vcid :: int
  va_vcd :: digest

definition sizeof_View_change_ack_rep :: int where "sizeof_View_change_ack_rep = 56"

text \<open>The size of the C++ object, which \<^verbatim>\<open>verify\<close> uses in place of the size of the message.\<close>

definition sizeof_View_change_ack :: int where "sizeof_View_change_ack = 16"

definition view_change_ack_bytes :: "view_change_ack \<Rightarrow> byte list" where
  "view_change_ack_bytes m = header_bytes m @ le_bytes 8 (va_v m) @ le_bytes 4 (va_id m) @ le_bytes 4 (va_vcid m) @ digest_bytes (va_vcd m)"

definition vca_re_authenticate :: "crypto \<Rightarrow> principal \<Rightarrow> view_change_ack \<Rightarrow> view_change_ack" where
  "vca_re_authenticate cr p m = m\<lparr>m_rest := put_bytes (m_rest m) 0 (gen_mac_out (cr_H cr) p (view_change_ack_bytes m))\<rparr>"

text \<open>\<^verbatim>\<open>init\<close> on the object in a slot, for the replica whose view-change is acknowledged.\<close>

definition new_view_change_ack :: "bool \<Rightarrow> build \<Rightarrow> crypto \<Rightarrow> node \<Rightarrow> view \<Rightarrow> int \<Rightarrow> digest \<Rightarrow> view_change_ack \<Rightarrow> view_change_ack option" where
  "new_view_change_ack a b cr nd v vcid d slot = do {
     vassert a (vcid \<ge> 0 \<and> vcid < Max_num_replicas b);
     let m = slot\<lparr>m_tag := View_change_ack_tag, m_max := - 1, va_v := v, va_id := node_id nd, va_vcid := vcid, va_vcd := d\<rparr>;
     m1 \<leftarrow> set_size (nat sizeof_View_change_ack_rep) m (sizeof_View_change_ack_rep + MAC_size);
     p \<leftarrow> i_to_p nd (primary_of nd v);
     Some (vca_re_authenticate cr p m1) }"

definition View_change_ack_verify :: "crypto \<Rightarrow> node \<Rightarrow> view_change_ack \<Rightarrow> bool option" where
  "View_change_ack_verify cr nd m =
     (if \<not> is_replica nd (va_id m) \<or> va_id m = node_id nd \<or> va_id m = va_vcid m \<or> primary_of nd (va_v m) = va_id m then Some False
      else if va_v m \<le> 0 \<or> \<not> is_replica nd (va_vcid m) then Some False
      else if m_size m - sizeof_View_change_ack < MAC_size then Some False
      else do {
        p \<leftarrow> i_to_p nd (va_id m);
        Some (verify_mac_in (cr_sc cr) (cr_H cr) p (view_change_ack_bytes m) (m_rest m)) })"

definition View_change_ack_match :: "bool \<Rightarrow> view_change_ack \<Rightarrow> view_change_ack \<Rightarrow> bool option" where
  "View_change_ack_match a m p = do {
     vassert a (va_v m = va_v p);
     Some (va_vcid m = va_vcid p \<and> digest_eq (va_vcd m) (va_vcd p)) }"

definition View_change_ack_convert :: "'a message_scheme \<Rightarrow> bool" where
  "View_change_ack_convert m = has_tag m View_change_ack_tag sizeof_View_change_ack_rep"

section \<open>New-view messages\<close>

record new_view = message +
  nv_v :: view
  nv_min :: seqno
  nv_max :: seqno
  nv_vcds :: "digest list"
  nv_picked :: "byte list"

definition sizeof_New_view_rep :: int where "sizeof_New_view_rep = 32"
definition sizeof_VC_info :: int where "sizeof_VC_info = 32"

definition max_new_view_size :: "build \<Rightarrow> int" where
  "max_new_view_size b = sizeof_New_view_rep + Max_num_replicas b * sizeof_VC_info + max_out b + AUTHENTICATOR_SIZE b"

definition nv_old_size :: "node \<Rightarrow> new_view \<Rightarrow> int" where
  "nv_old_size nd m = sizeof_New_view_rep + sizeof_VC_info * num_replicas nd + nv_max m - nv_min m"

definition new_view_bytes :: "node \<Rightarrow> new_view \<Rightarrow> byte list" where
  "new_view_bytes nd m = header_bytes m @ le_bytes 8 (nv_v m) @ le_bytes 8 (nv_min m) @ le_bytes 8 (nv_max m) @
     concat (map digest_bytes (take (nat (num_replicas nd)) (nv_vcds m))) @ take (nat (nv_max m - nv_min m)) (nv_picked m)"

text \<open>A replica number is stored as a \<^verbatim>\<open>char\<close>; \<open>sc\<close> is whether that type is signed.\<close>

definition char_val :: "bool \<Rightarrow> byte \<Rightarrow> int" where
  "char_val sc x = (if sc then sint x else uint x)"

text \<open>The constructor on the slot of this replica, \<^verbatim>\<open>special_region::new_new_view\<close>.\<close>

definition new_new_view :: "node \<Rightarrow> view \<Rightarrow> new_view \<Rightarrow> new_view" where
  "new_new_view nd v slot = slot\<lparr>m_tag := New_view_tag, m_max := - 1, nv_v := v, nv_min := - 1, nv_max := - 1,
     nv_vcds := replicate (nat (num_replicas nd)) digest_zero @ drop (nat (num_replicas nd)) (nv_vcds slot)\<rparr>"

definition add_view_change :: "bool \<Rightarrow> node \<Rightarrow> int \<Rightarrow> digest \<Rightarrow> new_view \<Rightarrow> new_view option" where
  "add_view_change a nd i d m = do {
     vassert a (is_replica nd i);
     if i < 0 then None
     else do {
       old \<leftarrow> arr_get (nv_vcds m) (nat i);
       vassert a (digest_eq old digest_zero);
       ds \<leftarrow> arr_set (nv_vcds m) (nat i) d;
       Some (m\<lparr>nv_vcds := ds\<rparr>) } }"

definition set_min :: "bool \<Rightarrow> seqno \<Rightarrow> new_view \<Rightarrow> new_view option" where
  "set_min a n m = do { vassert a (nv_min m = - 1); Some (m\<lparr>nv_min := n\<rparr>) }"

definition set_max :: "bool \<Rightarrow> build \<Rightarrow> seqno \<Rightarrow> new_view \<Rightarrow> new_view option" where
  "set_max a b n m = do {
     vassert a (nv_min m \<ge> 0);
     vassert a (n \<ge> nv_min m \<and> n - nv_min m \<le> max_out b + 1);
     Some (m\<lparr>nv_max := n\<rparr>) }"

definition nv_pick :: "bool \<Rightarrow> build \<Rightarrow> node \<Rightarrow> int \<Rightarrow> seqno \<Rightarrow> new_view \<Rightarrow> new_view option" where
  "nv_pick a b nd i n m = do {
     vassert a (nv_min m \<ge> 0);
     vassert a (is_replica nd i);
     vassert a (\<not> digest_eq (nv_vcds m ! nat i) digest_zero);
     vassert a (n \<ge> nv_min m \<and> n \<le> nv_min m + max_out b);
     if n < nv_min m then None
     else do {
       ps \<leftarrow> arr_set (nv_picked m) (nat (n - nv_min m)) (of_int i);
       Some (m\<lparr>nv_picked := ps\<rparr>) } }"

definition nv_re_authenticate :: "bool \<Rightarrow> build \<Rightarrow> crypto \<Rightarrow> node \<Rightarrow> new_view \<Rightarrow> new_view option" where
  "nv_re_authenticate a b cr nd m = do {
     vassert a ((max_new_view_size b - nv_old_size nd m) mod 2 ^ 64 \<ge> auth_size nd (- 1));
     m1 \<leftarrow> set_size (nat (nv_old_size nd m)) m (nv_old_size nd m + auth_size nd (- 1));
     Some (m1\<lparr>m_rest := put_bytes (m_rest m1) 0 (gen_auth_out (cr_H cr) nd (new_view_bytes nd m1))\<rparr>) }"

definition which_picked :: "bool \<Rightarrow> bool \<Rightarrow> seqno \<Rightarrow> new_view \<Rightarrow> int option" where
  "which_picked a sc n m = do {
     vassert a (n \<ge> nv_min m \<and> n < nv_max m);
     if n < nv_min m then None else do { c \<leftarrow> arr_get (nv_picked m) (nat (n - nv_min m)); Some (char_val sc c) } }"

text \<open>\<^verbatim>\<open>view_change(id, d)\<close>, and \<^verbatim>\<open>view_change(id)\<close>, which does not check its argument.\<close>

definition nv_view_change :: "node \<Rightarrow> int \<Rightarrow> new_view \<Rightarrow> digest option option" where
  "nv_view_change nd i m =
     (if i < 0 \<or> i \<ge> num_replicas nd then Some None
      else do { d \<leftarrow> arr_get (nv_vcds m) (nat i); Some (if is_zero d then None else Some d) })"

definition nv_has_view_change :: "nat \<Rightarrow> new_view \<Rightarrow> bool option" where
  "nv_has_view_change i m = do { d \<leftarrow> arr_get (nv_vcds m) i; Some (\<not> is_zero d) }"

definition picked_ok :: "bool \<Rightarrow> node \<Rightarrow> new_view \<Rightarrow> byte \<Rightarrow> bool" where
  "picked_ok sc nd m c \<longleftrightarrow> is_replica nd (char_val sc c) \<and> \<not> is_zero (nv_vcds m ! nat (char_val sc c))"

definition New_view_verify :: "build \<Rightarrow> crypto \<Rightarrow> node \<Rightarrow> int \<Rightarrow> new_view \<Rightarrow> bool option" where
  "New_view_verify b cr nd Max_message_size m =
     (if nv_v m \<le> 0 \<or> nv_min m < 0 \<or> nv_max m < 0 \<or> nv_max m < nv_min m \<or> nv_max m - nv_min m > max_out b + 1 then Some False
      else if \<not> list_all (picked_ok (cr_sc cr) nd m) (take (nat (nv_max m - nv_min m)) (nv_picked m)) then Some False
      else if Max_message_size - nv_old_size nd m < auth_size nd (primary_of nd (nv_v m)) then Some False
      else verify_auth_in (cr_sc cr) (cr_H cr) nd (primary_of nd (nv_v m)) (new_view_bytes nd m) (m_rest m))"

definition New_view_convert :: "'a message_scheme \<Rightarrow> bool" where
  "New_view_convert m = has_tag m New_view_tag sizeof_New_view_rep"

end
