(* ===== verification/NV_Infos.thy ===== *)
theory NV_Infos
  imports View_Messages Status_Messages Timers Seq_Log
begin

text \<open>
  The information about one new-view message (\<^verbatim>\<open>NV_info.cc\<close>): the view-change messages it names, the choice of the checkpoint and of the
  requests that go over to the new view, and the check of that choice by the other replicas. A pointer to a view-change message
  of replica \<open>i\<close> always points to slot \<open>i\<close> of the special region, so it is a flag here and the slots \<open>R\<close> are an argument. The calls to the
  replica are collected in \<open>ni_out\<close>.
\<close>

record venv =
  ve_a :: bool
  ve_b :: build
  ve_cr :: crypto
  ve_now :: int
  ve_max_msg :: int
  ve_max_nd :: int
  ve_nd :: "seqno \<Rightarrow> byte list"

datatype vcall = Process_new_view seqno digest seqno seqno | Send_status | Send_view_change view_change int |
  Send_ack view_change_ack int | Send_proof prepare int

section \<open>Requests of earlier views\<close>

record oreq =
  or_lv :: view
  or_v :: view
  or_d :: digest
  or_m :: "pre_prepare option"
  or_ods :: "(digest \<times> view) list"

definition vi_pre_prepare :: "bool \<Rightarrow> oreq log \<Rightarrow> seqno \<Rightarrow> digest \<Rightarrow> pre_prepare option option" where
  "vi_pre_prepare a L n d =
     (if log_within_range L n then do {
        r \<leftarrow> log_fetch L n;
        case or_m r of
          Some p \<Rightarrow> if digest_eq (or_d r) d then do {
              vassert a (digest_eq (pp_digest p) (or_d r) \<and> pp_seqno p = n);
              Some (Some p) }
            else Some None
        | None \<Rightarrow> Some None }
      else Some None)"

definition vi_prepare :: "node \<Rightarrow> oreq log \<Rightarrow> seqno \<Rightarrow> digest \<Rightarrow> bool option" where
  "vi_prepare nd L n d =
     (if log_within_range L n then do {
        r \<leftarrow> log_fetch L n;
        Some (digest_eq (or_d r) d \<or> list_ex (\<lambda>x. digest_eq (fst x) d) (take (nat (max_faulty nd + 2)) (or_ods r))) }
      else Some False)"

section \<open>State\<close>

record vc_slot =
  vs_vc :: bool
  vs_acks :: int
  vs_reps :: bitmap
  vs_sum :: bool

record ckpt_sum =
  cs_n :: seqno
  cs_d :: digest
  cs_proofs :: int
  cs_le :: int
  cs_max :: seqno
  cs_id :: int

record req_sum =
  rs_v :: view
  rs_d :: digest
  rs_proofs :: int
  rs_pproofs :: int
  rs_reps :: bitmap
  rs_pi :: "pre_prepare option"
  rs_le :: int
  rs_id :: int

record nv_info =
  ni_v :: view
  ni_has :: bool
  ni_nv :: new_view
  ni_target :: int
  ni_cur :: int
  ni_vcs :: "vc_slot list"
  ni_ckpts :: "ckpt_sum list"
  ni_chosen :: int
  ni_min :: seqno
  ni_max :: seqno
  ni_base :: seqno
  ni_reqs :: "req_sum list list"
  ni_comp :: "int list"
  ni_ncomp :: int
  ni_complete :: bool
  ni_sent :: int
  ni_out :: "vcall list"

definition VC_info_new :: "node \<Rightarrow> vc_slot" where
  "VC_info_new nd = \<lparr>vs_vc = False, vs_acks = 0, vs_reps = Bitmap_new (nat (num_replicas nd)) False, vs_sum = False\<rparr>"

definition VC_info_clear :: "vc_slot \<Rightarrow> vc_slot" where
  "VC_info_clear s = s\<lparr>vs_vc := False, vs_acks := 0, vs_reps := bm_clear (vs_reps s), vs_sum := False\<rparr>"

text \<open>\<open>slot\<close> is the new-view slot of the special region, \<open>mn\<close> the value of \<^verbatim>\<open>min\<close>, which the constructor does not set.\<close>

definition NV_info_new :: "node \<Rightarrow> new_view \<Rightarrow> seqno \<Rightarrow> nv_info" where
  "NV_info_new nd slot mn = \<lparr>ni_v = 0, ni_has = False, ni_nv = slot, ni_target = 0, ni_cur = 0,
     ni_vcs = replicate (nat (num_replicas nd)) (VC_info_new nd), ni_ckpts = [], ni_chosen = - 1, ni_min = mn, ni_max = - 1, ni_base = - 1,
     ni_reqs = [], ni_comp = [], ni_ncomp = 0, ni_complete = False, ni_sent = zeroTime, ni_out = []\<rparr>"

definition nv_clear :: "nv_info \<Rightarrow> nv_info" where
  "nv_clear N = N\<lparr>ni_v := 0, ni_has := False, ni_target := 0, ni_vcs := map VC_info_clear (ni_vcs N), ni_cur := 0, ni_ckpts := [],
     ni_chosen := - 1, ni_max := - 1, ni_base := - 1, ni_min := - 1, ni_sent := zeroTime, ni_reqs := [], ni_comp := [], ni_ncomp := 0,
     ni_complete := False\<rparr>"

definition nv_make_complete :: "view \<Rightarrow> nv_info \<Rightarrow> nv_info" where
  "nv_make_complete v N = N\<lparr>ni_v := v, ni_complete := True\<rparr>"

definition nv_call :: "vcall \<Rightarrow> nv_info \<Rightarrow> nv_info" where
  "nv_call c N = N\<lparr>ni_out := ni_out N @ [c]\<rparr>"

definition nv_primary :: "node \<Rightarrow> nv_info \<Rightarrow> bool" where
  "nv_primary nd N \<longleftrightarrow> primary_of nd (ni_v N) = node_id nd"

text \<open>The message of replica \<open>i\<close>, none for a null pointer; \<open>the_vc\<close> is an access through the pointer.\<close>

definition nv_vc :: "view_change list \<Rightarrow> nat \<Rightarrow> nv_info \<Rightarrow> view_change option option" where
  "nv_vc R i N = do {
     s \<leftarrow> arr_get (ni_vcs N) i;
     if vs_vc s then do { m \<leftarrow> arr_get R i; Some (Some m) } else Some None }"

definition the_vc :: "view_change list \<Rightarrow> int \<Rightarrow> nv_info \<Rightarrow> view_change option" where
  "the_vc R i N = (if i < 0 then None else do { r \<leftarrow> nv_vc R (nat i) N; r })"

definition the_nv :: "nv_info \<Rightarrow> new_view option" where
  "the_nv N = (if ni_has N then Some (ni_nv N) else None)"

definition at_index :: "'a list \<Rightarrow> int \<Rightarrow> 'a option" where
  "at_index xs i = (if i < 0 then None else arr_get xs (nat i))"

definition get_req :: "seqno \<Rightarrow> nat \<Rightarrow> nv_info \<Rightarrow> req_sum option" where
  "get_req i j N = do { row \<leftarrow> at_index (ni_reqs N) (i - ni_base N); arr_get row j }"

definition put_req :: "seqno \<Rightarrow> nat \<Rightarrow> req_sum \<Rightarrow> nv_info \<Rightarrow> nv_info option" where
  "put_req i j c N = do {
     row \<leftarrow> at_index (ni_reqs N) (i - ni_base N);
     row' \<leftarrow> arr_set row j c;
     Some (N\<lparr>ni_reqs := (ni_reqs N)[nat (i - ni_base N) := row']\<rparr>) }"

section \<open>Completing a new view\<close>

text \<open>The highest checkpoint that is known to be stable.\<close>

definition stable_of :: "view_change option \<Rightarrow> seqno" where
  "stable_of m = (case m of None \<Rightarrow> 0 | Some m \<Rightarrow> vc_ls m)"

definition last_of :: "bool \<Rightarrow> build \<Rightarrow> view_change option \<Rightarrow> seqno option" where
  "last_of a b m = (case m of None \<Rightarrow> Some 0 | Some m \<Rightarrow> do { r \<leftarrow> last_ckpt a b m; Some (case r of None \<Rightarrow> 0 | Some (d, n) \<Rightarrow> n) })"

definition vc_list :: "view_change list \<Rightarrow> nv_info \<Rightarrow> view_change option list option" where
  "vc_list R N = fold_opt (\<lambda>i ms. do { m \<leftarrow> nv_vc R i N; Some (ms @ [m]) }) [0..<length (ni_vcs N)] []"

definition known_stable :: "venv \<Rightarrow> node \<Rightarrow> view_change list \<Rightarrow> nv_info \<Rightarrow> seqno option" where
  "known_stable E nd R N = do {
     vassert (ve_a E) (ni_complete N);
     ms \<leftarrow> vc_list R N;
     max_stable1 \<leftarrow> K_max (max_faulty nd + 1) (map stable_of ms) Seqno_max;
     vassert (ve_a E) (max_stable1 \<le> ni_min N);
     ls \<leftarrow> fold_opt (\<lambda>m xs. do { x \<leftarrow> last_of (ve_a E) (ve_b E) m; Some (xs @ [x]) }) ms [];
     k2 \<leftarrow> K_max (threshold nd) ls Seqno_max;
     let max_stable2 = (if k2 > ni_min N then ni_min N else k2);
     Some (if max_stable1 > max_stable2 then max_stable1 else max_stable2) }"

definition make_new_view :: "venv \<Rightarrow> node \<Rightarrow> view_change list \<Rightarrow> nv_info \<Rightarrow> nv_info option" where
  "make_new_view E nd R N = do {
     vassert (ve_a E) (nv_primary nd N);
     vassert (ve_a E) (ni_complete N);
     vassert (ve_a E) (equalTime (ni_sent N) zeroTime);
     nv0 \<leftarrow> the_nv N;
     nv1 \<leftarrow> set_min (ve_a E) (ni_min N) nv0;
     ck \<leftarrow> at_index (ni_ckpts N) (ni_chosen N);
     nv2 \<leftarrow> nv_pick (ve_a E) (ve_b E) nd (cs_id ck) (ni_min N) nv1;
     nv3 \<leftarrow> fold_opt (\<lambda>i nv. do {
              c \<leftarrow> at_index (ni_comp N) (i - ni_base N);
              vassert (ve_a E) (c \<ge> 0);
              if c < 0 then None
              else do {
                cur \<leftarrow> get_req i (nat c) N;
                vassert (ve_a E) (rs_pi cur \<noteq> None \<or> rs_v cur = - 1);
                nv_pick (ve_a E) (ve_b E) nd (rs_id cur) i nv } }) [ni_min N + 1..ni_max N - 1] nv2;
     nv4 \<leftarrow> set_max (ve_a E) (ve_b E) (ni_max N) nv3;
     nv5 \<leftarrow> nv_re_authenticate (ve_a E) (ve_b E) (ve_cr E) nd nv4;
     let N1 = N\<lparr>ni_nv := nv5, ni_sent := ve_now E\<rparr>;
     ks \<leftarrow> known_stable E nd R N1;
     Some (nv_call (Process_new_view (ni_min N1) (cs_d ck) (nv_max nv5) ks) N1) }"

text \<open>What a replica that is not the primary does when it has everything.\<close>

definition backup_new_view :: "venv \<Rightarrow> node \<Rightarrow> view_change list \<Rightarrow> nv_info \<Rightarrow> nv_info option" where
  "backup_new_view E nd R N = do {
     nv \<leftarrow> the_nv N;
     p \<leftarrow> which_picked (ve_a E) (cr_sc (ve_cr E)) (nv_min nv) nv;
     vc \<leftarrow> the_vc R p N;
     r \<leftarrow> vc_ckpt (ve_b E) (vc_ls vc) vc;
     let d = (case r of None \<Rightarrow> digest_zero | Some d \<Rightarrow> d);
     vassert (ve_a E) (\<not> is_zero d);
     ks \<leftarrow> known_stable E nd R N;
     Some (nv_call (Process_new_view (vc_ls vc) d (nv_max nv) ks) N) }"

definition finish_if_done :: "venv \<Rightarrow> node \<Rightarrow> view_change list \<Rightarrow> nv_info \<Rightarrow> nv_info option" where
  "finish_if_done E nd R N =
     (if ni_ncomp N = ni_max N - ni_min N - 1
      then let N1 = N\<lparr>ni_complete := True\<rparr> in if nv_primary nd N1 then make_new_view E nd R N1 else backup_new_view E nd R N1
      else Some N)"

definition check_comp :: "venv \<Rightarrow> node \<Rightarrow> oreq log \<Rightarrow> view_change list \<Rightarrow> seqno \<Rightarrow> nat \<Rightarrow> nv_info \<Rightarrow> nv_info option" where
  "check_comp E nd L R i j N = do {
     vassert (ve_a E) (\<not> ni_complete N);
     c \<leftarrow> at_index (ni_comp N) (i - ni_base N);
     cur \<leftarrow> get_req i j N;
     if c < 0 \<and> rs_proofs cur \<ge> max_faulty nd + 1 \<and> rs_le cur \<ge> threshold nd then do {
       cur1 \<leftarrow> (if rs_pi cur = None then do {
                  opp \<leftarrow> vi_pre_prepare (ve_a E) L i (rs_d cur);
                  Some (case opp of Some p \<Rightarrow> cur\<lparr>rs_pi := Some (pp_clone p (ni_v N)), rs_pproofs := num_replicas nd\<rparr> | None \<Rightarrow> cur) }
                else Some cur);
       own \<leftarrow> (if rs_pproofs cur1 \<le> max_faulty nd then vi_prepare nd L i (rs_d cur1) else Some False);
       let cur2 = (if own then cur1\<lparr>rs_pproofs := num_replicas nd\<rparr> else cur1);
       N1 \<leftarrow> put_req i j cur2 N;
       if rs_v cur2 < 0 \<or> rs_pi cur2 \<noteq> None \<and> rs_pproofs cur2 > max_faulty nd
       then finish_if_done E nd R (N1\<lparr>ni_comp := (ni_comp N1)[nat (i - ni_base N1) := int j], ni_ncomp := ni_ncomp N1 + 1\<rparr>)
       else Some N1 }
     else finish_if_done E nd R N }"

section \<open>Proofs for a request\<close>

definition positive_proof :: "view_change \<Rightarrow> req_sum \<Rightarrow> req_sum option" where
  "positive_proof vc cur = do {
     bm \<leftarrow> (if vc_id vc < 0 then None else bm_insert (rs_reps cur) (nat (vc_id vc)));
     Some (cur\<lparr>rs_proofs := rs_proofs cur + 1, rs_pproofs := rs_pproofs cur + 1, rs_reps := bm\<rparr>) }"

definition get_proofs :: "bool \<Rightarrow> build \<Rightarrow> view_change \<Rightarrow> seqno \<Rightarrow> req_sum \<Rightarrow> req_sum option" where
  "get_proofs a b vc i cur = do {
     r \<leftarrow> proofs a b i vc;
     case r of
       None \<Rightarrow> Some (if i > vc_ls vc \<and> rs_v cur < 0 then cur\<lparr>rs_proofs := rs_proofs cur + 1\<rparr> else cur)
     | Some (v, lv, d, prepared) \<Rightarrow>
         if prepared then if lv \<ge> rs_v cur \<and> digest_eq d (rs_d cur) then positive_proof vc cur else Some cur
         else if v \<ge> rs_v cur \<and> digest_eq d (rs_d cur) then positive_proof vc cur
         else Some (if rs_v cur \<le> lv then cur\<lparr>rs_proofs := rs_proofs cur + 1\<rparr> else cur) }"

definition req_sum_new :: "node \<Rightarrow> view \<Rightarrow> digest \<Rightarrow> int \<Rightarrow> int \<Rightarrow> req_sum" where
  "req_sum_new nd v d le ident = \<lparr>rs_v = v, rs_d = d, rs_proofs = 0, rs_pproofs = 0, rs_reps = Bitmap_new (nat (num_replicas nd)) False,
     rs_pi = None, rs_le = le, rs_id = ident\<rparr>"

definition vc_proofs :: "bool \<Rightarrow> build \<Rightarrow> view_change list \<Rightarrow> seqno \<Rightarrow> nv_info \<Rightarrow> req_sum \<Rightarrow> req_sum option" where
  "vc_proofs a b R i N cur = fold_opt (\<lambda>j cur. do {
     s \<leftarrow> arr_get (ni_vcs N) j;
     if vs_sum s then do { vc \<leftarrow> the_vc R (int j) N; get_proofs a b vc i cur } else Some cur }) [0..<length (ni_vcs N)] cur"

text \<open>One step of the loop over the summaries for a number: \<open>rv\<close> and \<open>rd\<close> are the request of the message \<open>vc\<close>. The state is
  whether a summary matches, the number of summaries with a lower view, and the rest.\<close>

definition sum_entry :: "venv \<Rightarrow> node \<Rightarrow> oreq log \<Rightarrow> view_change list \<Rightarrow> view_change \<Rightarrow> seqno \<Rightarrow> view \<Rightarrow> digest \<Rightarrow> nat \<Rightarrow>
    bool \<times> bool \<times> int \<times> nv_info \<Rightarrow> (bool \<times> bool \<times> int \<times> nv_info) option" where
  "sum_entry E nd L R vc i rv rd j = (\<lambda>(fin, mt, n_le, N).
     if fin then Some (fin, mt, n_le, N)
     else do {
       cur \<leftarrow> get_req i j N;
       (mt1, n_le1, cur1) \<leftarrow>
         (if rs_v cur = rv \<and> digest_eq (rs_d cur) rd then do {
            c \<leftarrow> positive_proof vc cur;
            Some (True, n_le, c\<lparr>rs_le := rs_le c + 1\<rparr>) }
          else do {
            c \<leftarrow> get_proofs (ve_a E) (ve_b E) vc i cur;
            Some (mt, (if rs_v c < rv then n_le + 1 else n_le), (if rs_v c > rv then c\<lparr>rs_le := rs_le c + 1\<rparr> else c)) });
       N1 \<leftarrow> put_req i j cur1 N;
       N2 \<leftarrow> check_comp E nd L R i j N1;
       Some (ni_complete N2, mt1, n_le1, N2) })"

definition sum_number :: "venv \<Rightarrow> node \<Rightarrow> oreq log \<Rightarrow> view_change list \<Rightarrow> view_change \<Rightarrow> seqno \<Rightarrow> bool \<times> nv_info \<Rightarrow> (bool \<times> nv_info) option" where
  "sum_number E nd L R vc i = (\<lambda>(fin, N).
     if fin then Some (fin, N)
     else do {
       row \<leftarrow> at_index (ni_reqs N) (i - ni_base N);
       (rv, rd) \<leftarrow> vc_req (ve_a E) (ve_b E) i vc;
       (fin1, mt, n_le, N1) \<leftarrow> fold_opt (sum_entry E nd L R vc i rv rd) [0..<length row] (False, False, 0, N);
       if fin1 then Some (True, N1)
       else if mt then Some (False, N1)
       else do {
         row1 \<leftarrow> at_index (ni_reqs N1) (i - ni_base N1);
         cur \<leftarrow> vc_proofs (ve_a E) (ve_b E) R i N1 (req_sum_new nd rv rd (n_le + 1) (vc_id vc));
         let N2 = N1\<lparr>ni_reqs := (ni_reqs N1)[nat (i - ni_base N1) := row1 @ [cur]]\<rparr>;
         N3 \<leftarrow> check_comp E nd L R i (length row1) N2;
         Some (False, N3) } })"

definition summarize_reqs :: "venv \<Rightarrow> node \<Rightarrow> oreq log \<Rightarrow> view_change list \<Rightarrow> view_change \<Rightarrow> nv_info \<Rightarrow> nv_info option" where
  "summarize_reqs E nd L R vc N = do {
     nv \<leftarrow> the_nv N;
     if vc_id vc < 0 then None
     else do {
       h \<leftarrow> nv_has_view_change (nat (vc_id vc)) nv;
       vassert (ve_a E) h;
       s \<leftarrow> arr_get (ni_vcs N) (nat (vc_id vc));
       vassert (ve_a E) (\<not> vs_sum s);
       vassert (ve_a E) (\<not> ni_complete N);
       let N1 = N\<lparr>ni_vcs := (ni_vcs N)[nat (vc_id vc) := s\<lparr>vs_sum := True\<rparr>]\<rparr>;
       let i = (if ni_min N1 > vc_ls vc then ni_min N1 else vc_ls vc);
       (_, N2) \<leftarrow> fold_opt (sum_number E nd L R vc) [i + 1..ni_max N1 - 1] (False, N1);
       Some N2 } }"

section \<open>Choosing the checkpoint\<close>

definition sum_named :: "venv \<Rightarrow> node \<Rightarrow> oreq log \<Rightarrow> view_change list \<Rightarrow> new_view \<Rightarrow> nat \<Rightarrow> bool \<times> nv_info \<Rightarrow> (bool \<times> nv_info) option" where
  "sum_named E nd L R nv i = (\<lambda>(fin, N).
     if fin then Some (fin, N)
     else do {
       h \<leftarrow> nv_has_view_change i nv;
       if h then do {
         vc \<leftarrow> the_vc R (int i) N;
         N' \<leftarrow> summarize_reqs E nd L R vc N;
         Some (ni_complete N', N') }
       else Some (False, N) })"

text \<open>The first choice, with the requests of all messages that the new view names, and the choice of a higher checkpoint. The first component is whether
  the function returns at once.\<close>

definition choose_first :: "venv \<Rightarrow> node \<Rightarrow> oreq log \<Rightarrow> view_change list \<Rightarrow> nat \<Rightarrow> ckpt_sum \<Rightarrow> nv_info \<Rightarrow> (bool \<times> nv_info) option" where
  "choose_first E nd L R index cur N = do {
     let mx = cs_max cur + 1;
     let k = mx - (cs_n cur + 1);
     if k < 0 then None
     else do {
       let N0 = N\<lparr>ni_chosen := int index, ni_min := cs_n cur, ni_base := cs_n cur + 1, ni_max := mx, ni_reqs := ni_reqs N @ replicate (nat k) [],
                   ni_comp := replicate (length (ni_comp N) + nat k) (- 1)\<rparr>;
       nv \<leftarrow> the_nv N0;
       fold_opt (sum_named E nd L R nv) [0..<length (ni_vcs N0)] (False, N0) } }"

definition choose_higher :: "nat \<Rightarrow> ckpt_sum \<Rightarrow> nv_info \<Rightarrow> (bool \<times> nv_info) option" where
  "choose_higher index cur N = do {
     old \<leftarrow> at_index (ni_ckpts N) (ni_chosen N);
     if cs_n old < cs_n cur then do {
       nc \<leftarrow> fold_opt (\<lambda>i nc. do { c \<leftarrow> at_index (ni_comp N) (i - ni_base N); Some (if c \<ge> 0 then nc - 1 else nc) })
               [ni_min N + 1..cs_n cur] (ni_ncomp N);
       Some (False, N\<lparr>ni_ncomp := nc, ni_chosen := int index, ni_min := cs_n cur,
                        ni_max := (if cs_max cur + 1 < ni_max N then cs_max cur + 1 else ni_max N)\<rparr>) }
     else Some (False, N) }"

definition choose_ckpt :: "venv \<Rightarrow> node \<Rightarrow> oreq log \<Rightarrow> view_change list \<Rightarrow> nat \<Rightarrow> nv_info \<Rightarrow> nv_info option" where
  "choose_ckpt E nd L R index N = do {
     vassert (ve_a E) (nv_primary nd N);
     cur \<leftarrow> arr_get (ni_ckpts N) index;
     vassert (ve_a E) (cs_proofs cur \<ge> max_faulty nd + 1 \<and> cs_le cur \<ge> threshold nd);
     (fin, N1) \<leftarrow> (if ni_chosen N < 0 then choose_first E nd L R index cur N else choose_higher index cur N);
     if fin then Some N1
     else if ni_ncomp N1 = ni_max N1 - ni_min N1 - 1 then make_new_view E nd R (N1\<lparr>ni_complete := True\<rparr>)
     else Some N1 }"

text \<open>One step of the loop over the candidate checkpoints: a match, the number of candidates below, the highest number, the rest.\<close>

definition sum_ckpt :: "venv \<Rightarrow> node \<Rightarrow> oreq log \<Rightarrow> view_change list \<Rightarrow> view_change \<Rightarrow> digest \<Rightarrow> nat \<Rightarrow>
    bool \<times> int \<times> seqno \<times> nv_info \<Rightarrow> (bool \<times> int \<times> seqno \<times> nv_info) option" where
  "sum_ckpt E nd L R vc vclc i = (\<lambda>(mt, n_le, mx, N). do {
     cur \<leftarrow> arr_get (ni_ckpts N) i;
     let up = (\<lambda>c. c\<lparr>cs_le := cs_le c + 1, cs_max := (if vc_max_seqno vc > cs_max c then vc_max_seqno vc else cs_max c)\<rparr>);
     (mt1, n_le1, mx1, cur1) \<leftarrow>
       (if cs_n cur = vc_ls vc \<and> digest_eq (cs_d cur) vclc then Some (True, n_le, mx, up (cur\<lparr>cs_proofs := cs_proofs cur + 1\<rparr>))
        else do {
          r \<leftarrow> vc_ckpt (ve_b E) (cs_n cur) vc;
          let c = (case r of None \<Rightarrow> cur | Some d \<Rightarrow> if digest_eq d (cs_d cur) then cur\<lparr>cs_proofs := cs_proofs cur + 1\<rparr> else cur);
          Some (if cs_n c > vc_ls vc then (mt, n_le, mx, up c)
                else if cs_n c < vc_ls vc then (mt, n_le + 1, (if cs_max c > mx then cs_max c else mx), c)
                else (mt, n_le, mx, c)) });
     let N1 = N\<lparr>ni_ckpts := (ni_ckpts N)[i := cur1]\<rparr>;
     N2 \<leftarrow> (if cs_proofs cur1 \<ge> max_faulty nd + 1 \<and> cs_le cur1 \<ge> threshold nd then choose_ckpt E nd L R i N1 else Some N1);
     Some (mt1, n_le1, mx1, N2) })"

definition summarize :: "venv \<Rightarrow> node \<Rightarrow> oreq log \<Rightarrow> view_change list \<Rightarrow> view_change \<Rightarrow> nv_info \<Rightarrow> nv_info option" where
  "summarize E nd L R vc N = do {
     vassert (ve_a E) (\<not> ni_complete N);
     let was_chosen = (ni_chosen N \<ge> 0);
     r \<leftarrow> vc_ckpt (ve_b E) (vc_ls vc) vc;
     let vclc = (case r of None \<Rightarrow> digest_zero | Some d \<Rightarrow> d);
     (mt, n_le, mx, N1) \<leftarrow> fold_opt (sum_ckpt E nd L R vc vclc) [0..<length (ni_ckpts N)] (False, 0, vc_max_seqno vc, N);
     N2 \<leftarrow> (if \<not> mt \<and> \<not> is_zero vclc then do {
            nv \<leftarrow> the_nv N1;
            np \<leftarrow> fold_opt (\<lambda>i np. do {
                    h \<leftarrow> nv_has_view_change i nv;
                    if h then do {
                      m \<leftarrow> the_vc R (int i) N1;
                      r \<leftarrow> vc_ckpt (ve_b E) (vc_ls vc) m;
                      Some (case r of Some d \<Rightarrow> if digest_eq d vclc then np + 1 else np | None \<Rightarrow> np) }
                    else Some np }) [0..<length (ni_vcs N1)] 0;
            let ns = \<lparr>cs_n = vc_ls vc, cs_d = vclc, cs_proofs = np, cs_le = n_le + 1, cs_max = mx, cs_id = vc_id vc\<rparr>;
            let N' = N1\<lparr>ni_ckpts := ni_ckpts N1 @ [ns]\<rparr>;
            if np \<ge> max_faulty nd + 1 \<and> n_le + 1 \<ge> threshold nd then choose_ckpt E nd L R (length (ni_ckpts N1)) N' else Some N' }
          else Some N1);
     if was_chosen \<and> \<not> ni_complete N2 then do {
       N3 \<leftarrow> summarize_reqs E nd L R vc N2;
       Some (nv_call Send_status N3) }
     else Some N2 }"

section \<open>Checking a new view\<close>

text \<open>What the loops over the view-change messages count: \<open>n_proofs\<close> and \<open>n_le\<close> for the checkpoint, \<open>n_lt\<close> for the upper limit.\<close>

definition ckpt_counts :: "build \<Rightarrow> view_change list \<Rightarrow> int \<Rightarrow> seqno \<Rightarrow> digest \<Rightarrow> nv_info \<Rightarrow> (int \<times> int) option" where
  "ckpt_counts b R cid mn d N = fold_opt (\<lambda>i (np, nle).
     if int i = cid then Some (np, nle)
     else do {
       m \<leftarrow> nv_vc R i N;
       case m of
         None \<Rightarrow> Some (np, nle)
       | Some vc \<Rightarrow> do {
           r \<leftarrow> vc_ckpt b mn vc;
           Some (case r of Some dd \<Rightarrow> if digest_eq dd d then np + 1 else np | None \<Rightarrow> np, if vc_ls vc \<le> mn then nle + 1 else nle) } })
     [0..<length (ni_vcs N)] (1, 1)"

definition lt_count :: "view_change list \<Rightarrow> seqno \<Rightarrow> nv_info \<Rightarrow> int option" where
  "lt_count R mx N = fold_opt (\<lambda>i k. do {
     m \<leftarrow> nv_vc R i N;
     Some (case m of None \<Rightarrow> k | Some vc \<Rightarrow> if vc_max_seqno vc < mx then k + 1 else k) }) [0..<length (ni_vcs N)] 0"

definition req_counts :: "bool \<Rightarrow> build \<Rightarrow> view_change list \<Rightarrow> seqno \<Rightarrow> nv_info \<Rightarrow> req_sum \<Rightarrow> req_sum option" where
  "req_counts a b R i N cur = fold_opt (\<lambda>j cur. do {
     m \<leftarrow> nv_vc R j N;
     case m of
       None \<Rightarrow> Some cur
     | Some vc \<Rightarrow> do {
         c \<leftarrow> get_proofs a b vc i cur;
         (rv, _) \<leftarrow> vc_req a b i vc;
         Some (if rv \<le> rs_v c then c\<lparr>rs_le := rs_le c + 1\<rparr> else c) } }) [0..<length (ni_vcs N)] cur"

definition check_number :: "venv \<Rightarrow> node \<Rightarrow> oreq log \<Rightarrow> view_change list \<Rightarrow> seqno \<Rightarrow> bool \<times> nv_info \<Rightarrow> (bool \<times> nv_info) option" where
  "check_number E nd L R i = (\<lambda>(ok, N).
     if \<not> ok then Some (ok, N)
     else do {
       nv \<leftarrow> the_nv N;
       vci \<leftarrow> which_picked (ve_a E) (cr_sc (ve_cr E)) i nv;
       vc \<leftarrow> the_vc R vci N;
       if i \<le> vc_ls vc then Some (False, N)
       else do {
         row \<leftarrow> at_index (ni_reqs N) (i - ni_base N);
         (v, d) \<leftarrow> vc_req (ve_a E) (ve_b E) i vc;
         cur \<leftarrow> req_counts (ve_a E) (ve_b E) R i N (req_sum_new nd v d 0 (vc_id vc));
         let N1 = N\<lparr>ni_reqs := (ni_reqs N)[nat (i - ni_base N) := row @ [cur]]\<rparr>;
         if rs_proofs cur < max_faulty nd + 1 \<or> rs_le cur < threshold nd then Some (False, N1)
         else do { N2 \<leftarrow> check_comp E nd L R i 0 N1; Some (True, N2) } } })"

definition check_new_view :: "venv \<Rightarrow> node \<Rightarrow> oreq log \<Rightarrow> view_change list \<Rightarrow> nv_info \<Rightarrow> (bool \<times> nv_info) option" where
  "check_new_view E nd L R N = do {
     vassert (ve_a E) (\<not> nv_primary nd N);
     nv \<leftarrow> the_nv N;
     cid \<leftarrow> which_picked (ve_a E) (cr_sc (ve_cr E)) (nv_min nv) nv;
     vc \<leftarrow> the_vc R cid N;
     let N1 = N\<lparr>ni_min := vc_ls vc\<rparr>;
     if vc_ls vc \<noteq> nv_min nv then Some (False, N1)
     else do {
       let N2 = N1\<lparr>ni_base := vc_ls vc + 1\<rparr>;
       r \<leftarrow> vc_ckpt (ve_b E) (vc_ls vc) vc;
       case r of
         None \<Rightarrow> Some (False, N2)
       | Some d \<Rightarrow> do {
           (np, nle) \<leftarrow> ckpt_counts (ve_b E) R cid (vc_ls vc) d N2;
           if np < max_faulty nd + 1 \<or> nle < threshold nd then Some (False, N2)
           else do {
             let N3 = N2\<lparr>ni_chosen := 0\<rparr>;
             nlt \<leftarrow> lt_count R (nv_max nv) N3;
             if nlt < threshold nd then Some (False, N3)
             else do {
               let N4 = N3\<lparr>ni_max := nv_max nv\<rparr>;
               if ni_base N4 = nv_max nv then do {
                 let N5 = N4\<lparr>ni_complete := True\<rparr>;
                 ks \<leftarrow> known_stable E nd R N5;
                 Some (True, nv_call (Process_new_view (ni_min N5) d (nv_max nv) ks) N5) }
               else do {
                 let k = ni_max N4 - ni_min N4 - 1;
                 if k < 0 then None
                 else fold_opt (check_number E nd L R) [ni_base N4..nv_max nv - 1]
                        (True, N4\<lparr>ni_reqs := ni_reqs N4 @ replicate (nat k) [], ni_comp := replicate (length (ni_comp N4) + nat k) (- 1)\<rparr>) } } } } } }"

section \<open>Adding messages\<close>

text \<open>\<^verbatim>\<open>persist\<close>: the message is copied to its slot of the special region. Deleting a message frees its object and, when it is in the
  scratch region, its contents; an object in the special region is not on the heap, so deleting it is undefined.\<close>

definition vc_persist :: "venv \<Rightarrow> view_change list \<Rightarrow> view_change \<Rightarrow> (view_change \<times> view_change list) option" where
  "vc_persist E R m = do {
     vassert (ve_a E) (m_scratch m);
     vassert (ve_a E) (m_size m \<le> max_view_change_size (ve_b E));
     if m_size m > max_view_change_size (ve_b E) \<or> vc_id m < 0 then None
     else do {
       old \<leftarrow> arr_get R (nat (vc_id m));
       let m' = m\<lparr>m_scratch := m_scratch old, m_max := m_max old\<rparr>;
       R' \<leftarrow> arr_set R (nat (vc_id m)) m';
       Some (m', R') } }"

definition nv_persist :: "venv \<Rightarrow> new_view \<Rightarrow> new_view \<Rightarrow> new_view option" where
  "nv_persist E slot m = do {
     vassert (ve_a E) (m_scratch m);
     vassert (ve_a E) (m_size m \<le> max_new_view_size (ve_b E));
     if m_size m > max_new_view_size (ve_b E) then None else Some (m\<lparr>m_scratch := m_scratch slot, m_max := m_max slot\<rparr>) }"

definition delete_msg :: "'a message_scheme \<Rightarrow> unit option" where
  "delete_msg m = (if m_scratch m then Some () else None)"

text \<open>Adding a new-view message. The one of this replica is in its slot; a message of the wrong view is deleted unless it is that one.\<close>

definition nv_add_nv :: "venv \<Rightarrow> node \<Rightarrow> new_view \<Rightarrow> nv_info \<Rightarrow> (bool \<times> nv_info) option" where
  "nv_add_nv E nd m N = do {
     let own = (primary_of nd (nv_v m) = node_id nd);
     ok \<leftarrow> (if ve_a E \<and> \<not> own then New_view_verify (ve_b E) (ve_cr E) nd (ve_max_msg E) m else Some True);
     vassert (ve_a E) ok;
     if nv_v m \<le> ni_v N then do {
       _ \<leftarrow> (if own then Some () else delete_msg m);
       Some (False, N) }
     else do {
       let N1 = (if ni_v N \<noteq> 0 then nv_clear N else N);
       m' \<leftarrow> (if own then Some m else nv_persist E (ni_nv N1) m);
       t \<leftarrow> fold_opt (\<lambda>i t. do { d \<leftarrow> nv_view_change nd (int i) m'; Some (if d = None then t else t + 1) }) [0..<nat (num_replicas nd)] (ni_target N1);
       Some (True, N1\<lparr>ni_v := nv_v m', ni_has := True, ni_nv := m', ni_target := t\<rparr>) } }"

text \<open>Adding a view-change message; the answer, the slots of the special region and the rest.\<close>

definition nv_add_vc :: "venv \<Rightarrow> node \<Rightarrow> oreq log \<Rightarrow> view_change list \<Rightarrow> view_change \<Rightarrow> bool \<Rightarrow> nv_info \<Rightarrow>
    (bool \<times> view_change list \<times> nv_info) option" where
  "nv_add_vc E nd L R m verified N = do {
     vassert (ve_a E) (vc_v m = ni_v N);
     if vc_id m < 0 then None
     else do {
       let k = nat (vc_id m);
       s \<leftarrow> arr_get (ni_vcs N) k;
       if vs_vc s \<or> ni_complete N then Some (False, R, N)
       else do {
         let prim = nv_primary nd N;
         named \<leftarrow> (if prim then Some True else do {
                     nv \<leftarrow> the_nv N;
                     r \<leftarrow> nv_view_change nd (vc_id m) nv;
                     Some (case r of None \<Rightarrow> False | Some d \<Rightarrow> digest_eq d (vc_d m)) });
         if \<not> named then Some (False, R, N)
         else if \<not> verified \<and> (prim \<or> \<not> verify_digest (ve_cr E) m \<or> vs_acks s < max_faulty nd) then Some (False, R, N)
         else do {
           (m', R') \<leftarrow> vc_persist E R m;
           let N1 = N\<lparr>ni_vcs := (ni_vcs N)[k := s\<lparr>vs_vc := True\<rparr>], ni_cur := ni_cur N + 1\<rparr>;
           N2 \<leftarrow> (if prim \<and> vc_id m' = node_id nd then do {
                  nv \<leftarrow> the_nv N1;
                  nv' \<leftarrow> add_view_change (ve_a E) nd (vc_id m') (vc_d m') nv;
                  summarize E nd L R' m' (N1\<lparr>ni_nv := nv'\<rparr>) }
                else Some N1);
           (_, N3) \<leftarrow> (if \<not> prim \<and> ni_cur N2 = ni_target N2 then check_new_view E nd L R' N2 else Some (True, N2));
           Some (True, R', N3) } } } }"

definition nv_add_vca :: "venv \<Rightarrow> node \<Rightarrow> oreq log \<Rightarrow> view_change list \<Rightarrow> view_change_ack \<Rightarrow> nv_info \<Rightarrow> (bool \<times> nv_info) option" where
  "nv_add_vca E nd L R m N = do {
     ok \<leftarrow> (if ve_a E then View_change_ack_verify (ve_cr E) nd m else Some True);
     vassert (ve_a E) (ok \<and> va_v m = ni_v N);
     let vci = va_vcid m;
     let prim = nv_primary nd N;
     if ni_complete N then Some (False, N)
     else do {
       nv \<leftarrow> the_nv N;
       r \<leftarrow> nv_view_change nd vci nv;
       s \<leftarrow> at_index (ni_vcs N) vci;
       if (if prim then \<not> vs_vc s else r = None) then Some (False, N)
       else do {
         d \<leftarrow> (if prim then do { vc \<leftarrow> the_vc R vci N; Some (vc_d vc) } else Some (case r of Some d \<Rightarrow> d | None \<Rightarrow> digest_zero));
         t \<leftarrow> (if r = None \<and> digest_eq (va_vcd m) d then if va_id m < 0 then None else bm_test (vs_reps s) (nat (va_id m)) else Some True);
         N2 \<leftarrow> (if t then Some N
                else do {
                  bm \<leftarrow> bm_insert (vs_reps s) (nat (va_id m));
                  let s1 = s\<lparr>vs_reps := bm, vs_acks := vs_acks s + 1\<rparr>;
                  let N1 = N\<lparr>ni_vcs := (ni_vcs N)[nat vci := s1]\<rparr>;
                  if vs_acks s1 = max_faulty nd * 2 - 1 \<and> prim then do {
                    vc \<leftarrow> the_vc R vci N1;
                    nv' \<leftarrow> add_view_change (ve_a E) nd vci (vc_d vc) nv;
                    summarize E nd L R vc (N1\<lparr>ni_nv := nv'\<rparr>) }
                  else Some N1 });
         _ \<leftarrow> delete_msg m;
         Some (True, N2) } } }"

section \<open>Stale and stable\<close>

text \<open>\<open>mark_stale\<close> with the number of this replica; the answer is whether a pointer to its view-change message is returned.\<close>

definition nv_mark_stale :: "venv \<Rightarrow> node \<Rightarrow> oreq log \<Rightarrow> view_change list \<Rightarrow> nv_info \<Rightarrow> (bool \<times> view_change list \<times> nv_info) option" where
  "nv_mark_stale E nd L R N =
     (if ni_complete N then Some (False, R, N)
      else do {
        pres \<leftarrow> nv_vc R (nat (node_id nd)) N;
        let ov = ni_v N;
        let N1 = nv_clear N;
        if ov > 0 \<and> primary_of nd ov = node_id nd then do {
          (_, N2) \<leftarrow> nv_add_nv E nd (new_new_view nd ov (ni_nv N1)) N1;
          m \<leftarrow> pres;
          (_, R', N3) \<leftarrow> nv_add_vc E nd L R m True N2;
          Some (False, R', N3) }
        else Some (pres \<noteq> None, R, N1) })"

definition nv_mark_stable :: "node \<Rightarrow> seqno \<Rightarrow> nv_info \<Rightarrow> nv_info" where
  "nv_mark_stable nd ls N =
     (if ni_v N > 0 \<and> \<not> ni_complete N \<and> ni_chosen N \<ge> 0 \<and> ls \<ge> ni_max N \<and> \<not> nv_primary nd N
      then nv_call (Process_new_view ls digest_zero ls ls) (N\<lparr>ni_complete := True\<rparr>)
      else N)"

section \<open>Requests of the new view\<close>

definition null_pre_prepare :: "venv \<Rightarrow> pre_prepare" where
  "null_pre_prepare E = \<lparr>m_tag = Pre_prepare_tag, m_extra = 0, m_size = ALIGNED_SIZE (ve_max_msg E), m_max = ALIGNED_SIZE (ve_max_msg E),
     m_scratch = True, m_rest = replicate (nat (ve_max_msg E) - sizeof_Pre_prepare_rep) 0, pp_view = 0, pp_seqno = 0, pp_digest = digest_zero,
     pp_rset_size = 0, pp_non_det_size = 0, pp_pad = [0, 0]\<rparr>"

definition nv_fetch_request :: "venv \<Rightarrow> node \<Rightarrow> view_change list \<Rightarrow> seqno \<Rightarrow> nv_info \<Rightarrow> (pre_prepare \<times> digest \<times> nv_info) option" where
  "nv_fetch_request E nd R n N = do {
     vassert (ve_a E) (ni_complete N);
     nv \<leftarrow> the_nv N;
     vassert (ve_a E) (n > nv_min nv \<and> n < nv_max nv);
     p \<leftarrow> which_picked (ve_a E) (cr_sc (ve_cr E)) n nv;
     vc \<leftarrow> the_vc R p N;
     (pv, d) \<leftarrow> vc_req (ve_a E) (ve_b E) n vc;
     (pp, d', N1) \<leftarrow>
       (if pv \<ge> 0 \<and> \<not> digest_eq d digest_zero then do {
          c \<leftarrow> at_index (ni_comp N) (n - ni_base N);
          if c < 0 then None
          else do {
            cur \<leftarrow> get_req n (nat c) N;
            N' \<leftarrow> put_req n (nat c) (cur\<lparr>rs_pi := None\<rparr>) N;
            pp \<leftarrow> rs_pi cur;
            Some (pp, d, N') } }
        else do {
          (pp, _) \<leftarrow> pp_fill (ve_cr E) nd (ve_max_nd E) (ve_nd E) (null_pre_prepare E) (ni_v N) n (Req_queue_new (nat (num_principals nd)));
          Some (pp, pp_digest pp, N) });
     pp' \<leftarrow> (if nv_primary nd N then pp_re_authenticate (ve_cr E) nd pp else Some pp);
     Some (pp', d', N1) }"

definition nv_set_received_vcs :: "venv \<Rightarrow> node \<Rightarrow> view_change list \<Rightarrow> nv_info \<Rightarrow> status \<Rightarrow> status option" where
  "nv_set_received_vcs E nd R N m = fold_opt (\<lambda>i m. do {
     s \<leftarrow> arr_get (ni_vcs N) i;
     nv \<leftarrow> the_nv N;
     h \<leftarrow> nv_has_view_change i nv;
     if (if nv_primary nd N then vs_vc s \<and> h else vs_vc s \<or> \<not> h) then mark_vcs (ve_b E) (int i) m else Some m }) [0..<nat (num_replicas nd)] m"

text \<open>The lowest view for which a proven request has no pre-prepare, and whether some of these lack proofs.\<close>

definition missing_view :: "node \<Rightarrow> view \<Rightarrow> req_sum list \<Rightarrow> view \<times> bool" where
  "missing_view nd v row = fold (\<lambda>cur (vpp, need).
     if rs_v cur \<ge> 0 \<and> rs_v cur < vpp \<and> rs_proofs cur \<ge> max_faulty nd + 1 \<and> rs_le cur \<ge> threshold nd
     then (rs_v cur, need \<or> rs_pproofs cur \<le> max_faulty nd) else (vpp, need)) row (v, False)"

definition nv_set_missing_pps :: "venv \<Rightarrow> node \<Rightarrow> nv_info \<Rightarrow> status \<Rightarrow> status option" where
  "nv_set_missing_pps E nd N m = fold_opt (\<lambda>i m. do {
     c \<leftarrow> at_index (ni_comp N) (i - ni_base N);
     if c \<ge> 0 then Some m
     else do {
       row \<leftarrow> at_index (ni_reqs N) (i - ni_base N);
       let (vpp, need) = missing_view nd (ni_v N) row;
       if vpp < ni_v N then append_pps (ve_b E) (ve_max_msg E) vpp i need m else Some m } }) [ni_base N..ni_max N - 1] m"

definition missing_index :: "seqno \<Rightarrow> digest \<Rightarrow> nv_info \<Rightarrow> nat option option" where
  "missing_index n d N =
     (if ni_chosen N \<ge> 0 \<and> n > ni_min N \<and> n < ni_max N then do {
        c \<leftarrow> at_index (ni_comp N) (n - ni_base N);
        if c < 0 then do {
          row \<leftarrow> at_index (ni_reqs N) (n - ni_base N);
          Some (find (\<lambda>j. digest_eq (rs_d (row ! j)) d) [0..<length row]) }
        else Some None }
      else Some None)"

definition nv_add_missing_pp :: "venv \<Rightarrow> node \<Rightarrow> oreq log \<Rightarrow> view_change list \<Rightarrow> pre_prepare \<Rightarrow> nv_info \<Rightarrow> nv_info option" where
  "nv_add_missing_pp E nd L R pp N = do {
     k \<leftarrow> missing_index (pp_seqno pp) (pp_digest pp) N;
     N1 \<leftarrow> (case k of
            None \<Rightarrow> Some N
          | Some j \<Rightarrow> do {
              cur \<leftarrow> get_req (pp_seqno pp) j N;
              ok \<leftarrow> (if rs_pi cur = None then check_digest (ve_cr E) nd pp else Some False);
              if ok then do {
                N' \<leftarrow> put_req (pp_seqno pp) j (cur\<lparr>rs_pi := Some (pp_clone pp (ni_v N))\<rparr>) N;
                check_comp E nd L R (pp_seqno pp) j N' }
              else Some N });
     _ \<leftarrow> delete_msg pp;
     Some N1 }"

definition nv_add_missing_prepare :: "venv \<Rightarrow> node \<Rightarrow> oreq log \<Rightarrow> view_change list \<Rightarrow> prepare \<Rightarrow> nv_info \<Rightarrow> nv_info option" where
  "nv_add_missing_prepare E nd L R p N = do {
     k \<leftarrow> missing_index (p_seqno p) (p_digest p) N;
     N1 \<leftarrow> (case k of
            None \<Rightarrow> Some N
          | Some j \<Rightarrow> do {
              cur \<leftarrow> get_req (p_seqno p) j N;
              t \<leftarrow> (if rs_pproofs cur \<le> max_faulty nd then if p_id p < 0 then None else bm_test (rs_reps cur) (nat (p_id p)) else Some True);
              if t then Some N
              else do {
                bm \<leftarrow> bm_insert (rs_reps cur) (nat (p_id p));
                N' \<leftarrow> put_req (p_seqno p) j (cur\<lparr>rs_pproofs := rs_pproofs cur + 1, rs_reps := bm\<rparr>) N;
                check_comp E nd L R (p_seqno p) j N' } });
     _ \<leftarrow> delete_msg p;
     Some N1 }"

end
