(* ===== verification/View_Infos.thy ===== *)
theory View_Infos
  imports NV_Infos
begin

text \<open>
  The view-change component of a replica (\<^verbatim>\<open>View_info.cc\<close>): the log of requests of earlier views, the view-change messages and acknowledgements
  that were received, and one \<^verbatim>\<open>NV_info\<close> for each replica. In the static build a pointer to a message is a pointer into the special
  region: \<open>vn_vcs\<close>, \<open>vn_my\<close> and the acknowledgements are flags, the messages are in \<open>vn_slots\<close> and \<open>vn_aslots\<close>. What is sent and the
  calls of \<^verbatim>\<open>process_new_view\<close> are in \<open>vn_out\<close>, in their order.
\<close>

section \<open>State\<close>

record vca_info =
  vk_v :: view
  vk_acks :: "bool list"

record view_info =
  vn_v :: view
  vn_id :: int
  vn_ls :: seqno
  vn_oplog :: "oreq log"
  vn_views :: "view list"
  vn_vcs :: "bool list"
  vn_my :: "bool list"
  vn_acks :: "vca_info list"
  vn_nvs :: "nv_info list"
  vn_sent :: int
  vn_slots :: "view_change list"
  vn_aslots :: "view_change_ack list list"
  vn_out :: "vcall list"

definition OReq_info_new :: "node \<Rightarrow> oreq" where
  "OReq_info_new nd = \<lparr>or_lv = - 1, or_v = - 1, or_d = digest_zero, or_m = None, or_ods = replicate (nat (max_faulty nd + 2)) (digest_zero, - 1)\<rparr>"

definition OReq_info_clear :: "oreq \<Rightarrow> oreq" where
  "OReq_info_clear r = r\<lparr>or_m := None, or_v := - 1, or_lv := - 1, or_d := digest_zero, or_ods := map (\<lambda>x. (fst x, - 1)) (or_ods r)\<rparr>"

definition VCA_info_new :: "node \<Rightarrow> vca_info" where
  "VCA_info_new nd = \<lparr>vk_v = 0, vk_acks = replicate (nat (num_replicas nd)) False\<rparr>"

definition VCA_info_clear :: "vca_info \<Rightarrow> vca_info" where
  "VCA_info_clear k = k\<lparr>vk_acks := map (\<lambda>_. False) (vk_acks k), vk_v := 0\<rparr>"

text \<open>The constructor; the slots of the special region and the values of the fields it does not set (\<^verbatim>\<open>min\<close> of the \<^verbatim>\<open>NV_info\<close>, \<^verbatim>\<open>vc_sent\<close>) are
  arguments.\<close>

definition View_info_new :: "build \<Rightarrow> node \<Rightarrow> view \<Rightarrow> view_change list \<Rightarrow> view_change_ack list list \<Rightarrow> new_view list \<Rightarrow> seqno \<Rightarrow> int \<Rightarrow> view_info" where
  "View_info_new b nd v slots aslots nvslots mn sent =
     (let n = nat (num_replicas nd) in
      \<lparr>vn_v = v, vn_id = node_id nd, vn_ls = 0, vn_oplog = Log_new (OReq_info_new nd) (max_out b) 1, vn_views = replicate n 0,
       vn_vcs = replicate n False, vn_my = replicate n False, vn_acks = replicate n (VCA_info_new nd),
       vn_nvs = map (\<lambda>s. NV_info_new nd s mn) (take n nvslots), vn_sent = sent, vn_slots = slots, vn_aslots = aslots, vn_out = []\<rparr>)"

definition vi_send :: "vcall \<Rightarrow> view_info \<Rightarrow> view_info" where
  "vi_send c V = V\<lparr>vn_out := vn_out V @ [c]\<rparr>"

text \<open>An operation of one \<^verbatim>\<open>NV_info\<close>: its calls are moved to the output of the whole.\<close>

definition vi_nv :: "int \<Rightarrow> (view_change list \<Rightarrow> nv_info \<Rightarrow> ('r \<times> view_change list \<times> nv_info) option) \<Rightarrow> view_info \<Rightarrow> ('r \<times> view_info) option" where
  "vi_nv i f V = do {
     N \<leftarrow> at_index (vn_nvs V) i;
     (r, R, N') \<leftarrow> f (vn_slots V) N;
     Some (r, V\<lparr>vn_nvs := (vn_nvs V)[nat i := N'\<lparr>ni_out := []\<rparr>], vn_slots := R, vn_out := vn_out V @ ni_out N'\<rparr>) }"

definition vi_vc :: "int \<Rightarrow> view_info \<Rightarrow> view_change option option" where
  "vi_vc i V = do {
     h \<leftarrow> at_index (vn_vcs V) i;
     if h then do { m \<leftarrow> at_index (vn_slots V) i; Some (Some m) } else Some None }"

section \<open>The log of earlier views\<close>

definition vi_add_complete :: "bool \<Rightarrow> pre_prepare \<Rightarrow> view_info \<Rightarrow> view_info option" where
  "vi_add_complete a pp V = do {
     vassert a (pp_view pp = vn_v V);
     ri \<leftarrow> log_fetch (vn_oplog V) (pp_seqno pp);
     vassert a (pp_view pp \<ge> 0 \<and> pp_view pp > or_v ri);
     L \<leftarrow> log_put (vn_oplog V) (pp_seqno pp)
            ((OReq_info_clear ri)\<lparr>or_v := pp_view pp, or_lv := pp_view pp, or_d := pp_digest pp, or_m := Some pp\<rparr>);
     Some (V\<lparr>vn_oplog := L\<rparr>) }"

text \<open>The loop that remembers a digest: it stops at the entry with that digest, otherwise the entry with the lowest view is replaced.\<close>

fun ods_scan :: "digest \<Rightarrow> nat list \<Rightarrow> (digest \<times> view) list \<Rightarrow> view \<Rightarrow> nat \<Rightarrow> (nat \<times> bool) option" where
  "ods_scan d [] ods minv mini = Some (mini, False)"
| "ods_scan d (i # is) ods minv mini = do {
     x \<leftarrow> arr_get ods i;
     if digest_eq (fst x) d then Some (i, True)
     else if snd x < minv then ods_scan d is ods (snd x) i
     else ods_scan d is ods minv mini }"

definition ods_add :: "node \<Rightarrow> digest \<Rightarrow> view \<Rightarrow> (digest \<times> view) list \<Rightarrow> (digest \<times> view) list option" where
  "ods_add nd d lv ods = do {
     (i, found) \<leftarrow> ods_scan d [0..<nat (max_faulty nd + 2)] ods View_max 0;
     x \<leftarrow> arr_get ods i;
     arr_set ods i (if found then fst x else d, lv) }"

definition vi_add_incomplete :: "node \<Rightarrow> seqno \<Rightarrow> digest \<Rightarrow> view_info \<Rightarrow> view_info option" where
  "vi_add_incomplete nd n d V = do {
     ri \<leftarrow> log_fetch (vn_oplog V) n;
     ri' \<leftarrow> (if digest_eq (or_d ri) d then Some (if or_m ri \<noteq> None then ri\<lparr>or_lv := vn_v V\<rparr> else ri\<lparr>or_v := vn_v V\<rparr>)
             else do {
               ri1 \<leftarrow> (case or_m ri of
                        Some m \<Rightarrow> do { _ \<leftarrow> delete_msg m; Some (ri\<lparr>or_m := None\<rparr>) }
                      | None \<Rightarrow> Some (ri\<lparr>or_lv := or_v ri\<rparr>));
               ods \<leftarrow> ods_add nd (or_d ri1) (or_lv ri1) (or_ods ri1);
               Some (ri1\<lparr>or_ods := ods, or_d := d, or_v := vn_v V\<rparr>) });
     L \<leftarrow> log_put (vn_oplog V) n ri';
     Some (V\<lparr>vn_oplog := L\<rparr>) }"

definition vi_send_proofs :: "venv \<Rightarrow> node \<Rightarrow> seqno \<Rightarrow> view \<Rightarrow> int \<Rightarrow> view_info \<Rightarrow> view_info option" where
  "vi_send_proofs E nd n v dest V =
     (if log_within_range (vn_oplog V) n then do {
        ri \<leftarrow> log_fetch (vn_oplog V) n;
        p \<leftarrow> i_to_p nd dest;
        fold_opt (\<lambda>i V. do {
          x \<leftarrow> arr_get (or_ods ri) i;
          Some (if snd x \<ge> v then vi_send (Send_proof (Prepare_new (ve_cr E) nd (snd x) n (fst x) (Some p)) dest) V else V) })
          [0..<nat (max_faulty nd + 2)] V }
      else Some V)"

text \<open>\<^verbatim>\<open>pre_prepare(n, v)\<close>; the variant with a digest is \<open>vi_pre_prepare\<close>.\<close>

definition vi_pre_prepare_view :: "bool \<Rightarrow> seqno \<Rightarrow> view \<Rightarrow> view_info \<Rightarrow> pre_prepare option option" where
  "vi_pre_prepare_view a n v V =
     (if log_within_range (vn_oplog V) n then do {
        ri \<leftarrow> log_fetch (vn_oplog V) n;
        case or_m ri of
          Some m \<Rightarrow> if or_v ri \<ge> v then do { vassert a (pp_seqno m = n); Some (Some m) } else Some None
        | None \<Rightarrow> Some None }
      else Some None)"

section \<open>Moving to a view\<close>

definition discard_old :: "view_info \<Rightarrow> view_info" where
  "discard_old V = V\<lparr>
     vn_vcs := map (\<lambda>i. vn_vcs V ! i \<and> \<not> vc_v (vn_slots V ! i) < vn_v V) [0..<length (vn_vcs V)],
     vn_my := map (\<lambda>_. False) (vn_my V),
     vn_acks := map (\<lambda>k. if vk_v k < vn_v V then (VCA_info_clear k)\<lparr>vk_v := vn_v V\<rparr> else k) (vn_acks V),
     vn_nvs := map (\<lambda>N. if ni_v N < vn_v V then nv_clear N else N) (vn_nvs V)\<rparr>"

text \<open>This replica's view-change message. \<open>dig\<close> is \<^verbatim>\<open>state->digest\<close>.\<close>

definition ckpt_numbers :: "build \<Rightarrow> seqno \<Rightarrow> seqno \<Rightarrow> seqno list" where
  "ckpt_numbers b ls le = (if le < ls then [] else map (\<lambda>k. ls + k * checkpoint_interval b) [0..(le - ls) div checkpoint_interval b])"

definition own_view_change :: "venv \<Rightarrow> node \<Rightarrow> (seqno \<Rightarrow> digest option) \<Rightarrow> seqno \<Rightarrow> view_info \<Rightarrow> view_change option" where
  "own_view_change E nd dig le V = do {
     let a = ve_a E;
     let b = ve_b E;
     slot \<leftarrow> at_index (vn_slots V) (vn_id V);
     vc1 \<leftarrow> fold_opt (\<lambda>i vc. case dig i of Some d \<Rightarrow> vc_add_checkpoint a b i d vc | None \<Rightarrow> Some vc)
              (ckpt_numbers b (vn_ls V) le) (new_view_change b (vn_v V) (vn_ls V) (vn_id V) slot);
     vc2 \<leftarrow> fold_opt (\<lambda>i vc. do {
              ri \<leftarrow> log_fetch (vn_oplog V) i;
              if or_v ri \<ge> 0 then add_request a b i (or_v ri) (or_lv ri) (or_d ri) (or_m ri \<noteq> None) vc else Some vc })
              [vn_ls V + 1..vn_ls V + max_out b] vc1;
     vc_re_authenticate a b (ve_cr E) nd vc2 }"

text \<open>An acknowledgement is built in the slot of this replica for the sender of the view-change.\<close>

definition vi_make_ack :: "venv \<Rightarrow> node \<Rightarrow> int \<Rightarrow> digest \<Rightarrow> view_info \<Rightarrow> view_info option" where
  "vi_make_ack E nd i d V = do {
     row \<leftarrow> at_index (vn_aslots V) (node_id nd);
     slot \<leftarrow> at_index row i;
     m \<leftarrow> new_view_change_ack (ve_a E) (ve_b E) (ve_cr E) nd (vn_v V) i d slot;
     my \<leftarrow> arr_set (vn_my V) (nat i) True;
     Some (vi_send (Send_ack m (primary_of nd (vn_v V)))
       (V\<lparr>vn_aslots := (vn_aslots V)[nat (node_id nd) := row[nat i := m]], vn_my := my\<rparr>)) }"

definition vi_nv_add_vc :: "venv \<Rightarrow> node \<Rightarrow> int \<Rightarrow> view_change \<Rightarrow> bool \<Rightarrow> view_info \<Rightarrow> (bool \<times> view_info) option" where
  "vi_nv_add_vc E nd i vc verified V = vi_nv i (\<lambda>R N. nv_add_vc E nd (vn_oplog V) R vc verified N) V"

definition vi_nv_add_vca :: "venv \<Rightarrow> node \<Rightarrow> int \<Rightarrow> view_change_ack \<Rightarrow> view_info \<Rightarrow> (bool \<times> view_info) option" where
  "vi_nv_add_vca E nd i m V = vi_nv i (\<lambda>R N. do { (r, N') \<leftarrow> nv_add_vca E nd (vn_oplog V) R m N; Some (r, R, N') }) V"

definition vi_nv_add_nv :: "venv \<Rightarrow> node \<Rightarrow> int \<Rightarrow> new_view \<Rightarrow> view_info \<Rightarrow> (bool \<times> view_info) option" where
  "vi_nv_add_nv E nd i m V = vi_nv i (\<lambda>R N. do { (r, N') \<leftarrow> nv_add_nv E nd m N; Some (r, R, N') }) V"

text \<open>View-change messages for a view that are already there go to the \<^verbatim>\<open>NV_info\<close>.\<close>

definition move_vcs :: "venv \<Rightarrow> node \<Rightarrow> int \<Rightarrow> view \<Rightarrow> view_info \<Rightarrow> view_info option" where
  "move_vcs E nd k v V = fold_opt (\<lambda>i V. do {
     m \<leftarrow> vi_vc (int i) V;
     case m of
       None \<Rightarrow> Some V
     | Some vc \<Rightarrow>
         if vc_v vc = v then do {
           (r, V') \<leftarrow> vi_nv_add_vc E nd k vc True V;
           Some (if r then V'\<lparr>vn_vcs := (vn_vcs V')[i := False]\<rparr> else V') }
         else Some V }) [0..<nat (num_replicas nd)] V"

text \<open>The acknowledgement of replica \<open>i\<close> for the view-change of replica \<open>j\<close>, if one is buffered.\<close>

definition move_ack :: "venv \<Rightarrow> node \<Rightarrow> int \<Rightarrow> nat \<Rightarrow> int \<Rightarrow> view_info \<Rightarrow> view_info option" where
  "move_ack E nd k i j V = do {
     vaci \<leftarrow> arr_get (vn_acks V) i;
     if vk_v vaci = vn_v V then do {
       h \<leftarrow> at_index (vk_acks vaci) j;
       if h then do {
         row \<leftarrow> arr_get (vn_aslots V) i;
         m \<leftarrow> at_index row j;
         (r, V') \<leftarrow> vi_nv_add_vca E nd k m V;
         Some (if r then V'\<lparr>vn_acks := (vn_acks V')[i := vaci\<lparr>vk_acks := (vk_acks vaci)[nat j := False]\<rparr>]\<rparr> else V') }
       else Some V }
     else Some V }"

definition vi_view_change :: "venv \<Rightarrow> node \<Rightarrow> view \<Rightarrow> seqno \<Rightarrow> (seqno \<Rightarrow> digest option) \<Rightarrow> view_info \<Rightarrow> view_info option" where
  "vi_view_change E nd v le dig V = do {
     let V1 = discard_old (V\<lparr>vn_v := v\<rparr>);
     vc \<leftarrow> own_view_change E nd dig le V1;
     let me = vn_id V1;
     vcs \<leftarrow> arr_set (vn_vcs V1) (nat me) True;
     views \<leftarrow> arr_set (vn_views V1) (nat me) v;
     let V2 = vi_send (Send_view_change vc All_replicas)
                (V1\<lparr>vn_slots := (vn_slots V1)[nat me := vc], vn_sent := ve_now E, vn_vcs := vcs, vn_views := views\<rparr>);
     let primv = primary_of nd v;
     if primv \<noteq> me
     then fold_opt (\<lambda>i V. do {
            m \<leftarrow> vi_vc (int i) V;
            case m of
              None \<Rightarrow> Some V
            | Some lvc \<Rightarrow> if vc_v lvc = v \<and> int i \<noteq> me \<and> int i \<noteq> primv then vi_make_ack E nd (int i) (vc_d vc) V else Some V })
            [0..<nat (num_replicas nd)] V2
     else do {
       N \<leftarrow> at_index (vn_nvs V2) me;
       vassert (ve_a E) (ni_v N \<le> v);
       let nv = new_new_view nd v (ni_nv N);
       (_, V3) \<leftarrow> vi_nv_add_nv E nd me nv (V2\<lparr>vn_nvs := (vn_nvs V2)[nat me := N\<lparr>ni_nv := nv\<rparr>]\<rparr>);
       V4 \<leftarrow> move_vcs E nd me v V3;
       fold_opt (\<lambda>i V. fold_opt (\<lambda>j V. move_ack E nd me i (int j) V) [0..<nat (num_replicas nd)] V) [0..<nat (num_replicas nd)] V4 } }"

section \<open>Received messages\<close>

text \<open>The view of the message is stored in an \<^verbatim>\<open>int\<close>.\<close>

definition vi_add_vc :: "venv \<Rightarrow> node \<Rightarrow> view_change \<Rightarrow> view_info \<Rightarrow> (bool \<times> view_info) option" where
  "vi_add_vc E nd vc V = do {
     let vci = vc_id vc;
     let vcv = to_int32 (vc_v vc);
     if vcv < vn_v V then do { _ \<leftarrow> delete_msg vc; Some (False, V) }
     else do {
       let k = primary_of nd vcv;
       let primv = primary_of nd (vn_v V);
       N \<leftarrow> at_index (vn_nvs V) k;
       (stored, V') \<leftarrow>
         (if ni_v N = vcv then do {
            verified \<leftarrow> View_change_verify (ve_b E) (ve_cr E) nd vc;
            (stored, V1) \<leftarrow> vi_nv_add_vc E nd k vc verified V;
            V2 \<leftarrow> (if stored \<and> vn_id V = primv \<and> vcv = vn_v V
                   then fold_opt (\<lambda>i V. move_ack E nd k i vci V) [0..<nat (num_replicas nd)] V1 else Some V1);
            V3 \<leftarrow> (if verified then do {
                     lv \<leftarrow> at_index (vn_views V2) vci;
                     Some (if vcv > lv then V2\<lparr>vn_views := (vn_views V2)[nat vci := vcv]\<rparr> else V2) }
                   else Some V2);
            Some (stored, V3) }
          else do {
            lv \<leftarrow> at_index (vn_views V) vci;
            ok \<leftarrow> (if vcv > lv then View_change_verify (ve_b E) (ve_cr E) nd vc else Some False);
            if \<not> ok then Some (False, V)
            else do {
              (vc', R) \<leftarrow> vc_persist E (vn_slots V) vc;
              let V1 = V\<lparr>vn_slots := R, vn_vcs := (vn_vcs V)[nat vci := True], vn_views := (vn_views V)[nat vci := vcv]\<rparr>;
              V2 \<leftarrow> (if vn_id V1 \<noteq> primv \<and> vci \<noteq> primv \<and> vcv = vn_v V1 then do {
                     my \<leftarrow> at_index (vn_my V1) vci;
                     vassert (ve_a E) (\<not> my);
                     vi_make_ack E nd vci (vc_d vc') V1 }
                   else Some V1);
              Some (True, V2) } });
       _ \<leftarrow> (if stored then Some () else delete_msg vc);
       Some (stored, V') } }"

text \<open>A stored new-view message is copied and not deleted. The first component of the result is whether the message was deleted.\<close>

definition vi_add_nv :: "venv \<Rightarrow> node \<Rightarrow> new_view \<Rightarrow> view_info \<Rightarrow> (bool \<times> view_info) option" where
  "vi_add_nv E nd nv V = do {
     let nvi = primary_of nd (nv_v nv);
     let nvv = to_int32 (nv_v nv);
     ok \<leftarrow> (if nvv \<ge> vn_v V then New_view_verify (ve_b E) (ve_cr E) nd (ve_max_msg E) nv else Some False);
     if ok then do {
       N \<leftarrow> at_index (vn_nvs V) nvi;
       if nv_v nv > ni_v N then do {
         (stored, V1) \<leftarrow> vi_nv_add_nv E nd nvi nv V;
         V2 \<leftarrow> (if stored then move_vcs E nd nvi nvv V1 else Some V1);
         Some (False, V2) }
       else do { _ \<leftarrow> delete_msg nv; Some (True, V) } }
     else do { _ \<leftarrow> delete_msg nv; Some (True, V) } }"

definition sizeof_ack_slot :: "build \<Rightarrow> int" where
  "sizeof_ack_slot b = sizeof_View_change_ack_rep + AUTHENTICATOR_SIZE b"

definition vca_persist :: "venv \<Rightarrow> view_change_ack \<Rightarrow> view_info \<Rightarrow> view_info option" where
  "vca_persist E m V = do {
     vassert (ve_a E) (m_scratch m);
     vassert (ve_a E) (m_size m \<le> sizeof_ack_slot (ve_b E));
     if m_size m > sizeof_ack_slot (ve_b E) then None
     else do {
       row \<leftarrow> at_index (vn_aslots V) (va_id m);
       old \<leftarrow> at_index row (va_vcid m);
       Some (V\<lparr>vn_aslots := (vn_aslots V)[nat (va_id m) := row[nat (va_vcid m) := m\<lparr>m_scratch := m_scratch old, m_max := m_max old\<rparr>]]\<rparr>) } }"

definition vi_add_vca :: "venv \<Rightarrow> node \<Rightarrow> view_change_ack \<Rightarrow> view_info \<Rightarrow> view_info option" where
  "vi_add_vca E nd vca V = do {
     let vci = va_vcid vca;
     let vcv = to_int32 (va_v vca);
     ok \<leftarrow> View_change_ack_verify (ve_cr E) nd vca;
     if \<not> ok then do { _ \<leftarrow> delete_msg vca; Some V }
     else do {
       let prim = primary_of nd vcv;
       N \<leftarrow> at_index (vn_nvs V) prim;
       (stored, V1) \<leftarrow> (if ni_v N = vcv then vi_nv_add_vca E nd prim vca V else Some (False, V));
       if stored then Some V1
       else if vn_id V1 = prim then do {
         vcai \<leftarrow> at_index (vn_acks V1) (va_id vca);
         if vk_v vcai \<le> vcv then do {
           let vcai1 = (if vk_v vcai < vcv then VCA_info_clear vcai else vcai);
           V2 \<leftarrow> vca_persist E vca V1;
           _ \<leftarrow> delete_msg vca;
           acks \<leftarrow> (if vci < 0 then None else arr_set (vk_acks vcai1) (nat vci) True);
           Some (V2\<lparr>vn_acks := (vn_acks V2)[nat (va_id vca) := vcai1\<lparr>vk_acks := acks, vk_v := vn_v V2\<rparr>]\<rparr>) }
         else do { _ \<leftarrow> delete_msg vca; Some V1 } }
       else do { _ \<leftarrow> delete_msg vca; Some V1 } } }"

section \<open>Observers\<close>

definition vi_max_view :: "node \<Rightarrow> view_info \<Rightarrow> view option" where
  "vi_max_view nd V = K_max (max_faulty nd + 1) (take (nat (num_replicas nd)) (vn_views V)) View_max"

definition vi_max_maj_view :: "node \<Rightarrow> view_info \<Rightarrow> view option" where
  "vi_max_maj_view nd V = K_max (threshold nd) (take (nat (num_replicas nd)) (vn_views V)) View_max"

definition vi_has_new_view :: "node \<Rightarrow> view_info \<Rightarrow> view \<Rightarrow> bool option" where
  "vi_has_new_view nd V v = do { N \<leftarrow> at_index (vn_nvs V) (primary_of nd v); Some (ni_complete N) }"

definition vi_has_nv_message :: "node \<Rightarrow> view_info \<Rightarrow> view \<Rightarrow> bool option" where
  "vi_has_nv_message nd V v = do { N \<leftarrow> at_index (vn_nvs V) (primary_of nd v); Some (ni_v N \<noteq> 0) }"

definition vi_set_received_vcs :: "venv \<Rightarrow> node \<Rightarrow> view_info \<Rightarrow> status \<Rightarrow> status option" where
  "vi_set_received_vcs E nd V m = do {
     vassert (ve_a E) (s_v m = vn_v V);
     N \<leftarrow> at_index (vn_nvs V) (primary_of nd (vn_v V));
     if ni_v N = vn_v V then nv_set_received_vcs E nd (vn_slots V) N m
     else fold_opt (\<lambda>i m. do {
       r \<leftarrow> vi_vc (int i) V;
       case r of Some vc \<Rightarrow> if vc_v vc = vn_v V then mark_vcs (ve_b E) (int i) m else Some m | None \<Rightarrow> Some m }) [0..<nat (num_replicas nd)] m }"

definition vi_set_missing_pps :: "venv \<Rightarrow> node \<Rightarrow> view_info \<Rightarrow> status \<Rightarrow> status option" where
  "vi_set_missing_pps E nd V m = do {
     vassert (ve_a E) (s_v m = vn_v V);
     N \<leftarrow> at_index (vn_nvs V) (primary_of nd (vn_v V));
     if ni_has N then nv_set_missing_pps E nd N m else Some m }"

definition my_view_change :: "node \<Rightarrow> view_info \<Rightarrow> view_change option option" where
  "my_view_change nd V = do {
     m \<leftarrow> vi_vc (vn_id V) V;
     case m of
       Some vc \<Rightarrow> Some (Some vc)
     | None \<Rightarrow> do { N \<leftarrow> at_index (vn_nvs V) (primary_of nd (vn_v V)); nv_vc (vn_slots V) (nat (vn_id V)) N } }"

definition my_new_view :: "view_info \<Rightarrow> new_view option option" where
  "my_new_view V = do { N \<leftarrow> at_index (vn_nvs V) (vn_id V); Some (the_nv N) }"

definition my_vc_ack :: "bool \<Rightarrow> node \<Rightarrow> int \<Rightarrow> view_info \<Rightarrow> view_change_ack option option" where
  "my_vc_ack a nd i V = do {
     vassert a (is_replica nd i);
     h \<leftarrow> at_index (vn_my V) i;
     if h then do { row \<leftarrow> at_index (vn_aslots V) (node_id nd); m \<leftarrow> at_index row i; Some (Some m) } else Some None }"

section \<open>Stability, staleness, recovery\<close>

definition vi_mark_stable :: "node \<Rightarrow> seqno \<Rightarrow> view_info \<Rightarrow> view_info option" where
  "vi_mark_stable nd ls V = do {
     (_, V') \<leftarrow> vi_nv (primary_of nd (vn_v V)) (\<lambda>R N. Some ((), R, nv_mark_stable nd ls N))
       (V\<lparr>vn_ls := ls, vn_oplog := log_truncate OReq_info_clear (vn_oplog V) (ls + 1)\<rparr>);
     Some V' }"

text \<open>\<^verbatim>\<open>clear\<close> and \<^verbatim>\<open>mark_stale\<close> delete messages that are in the special region.\<close>

definition delete_slot :: "bool list \<Rightarrow> nat \<Rightarrow> unit option" where
  "delete_slot ps i = do { h \<leftarrow> arr_get ps i; if h then None else Some () }"

definition vi_clear :: "node \<Rightarrow> view_info \<Rightarrow> view_info option" where
  "vi_clear nd V = do {
     _ \<leftarrow> fold_opt (\<lambda>i _. do { _ \<leftarrow> delete_slot (vn_vcs V) i; delete_slot (vn_my V) i }) [0..<nat (num_replicas nd)] ();
     Some (V\<lparr>vn_oplog := log_clear OReq_info_clear (vn_oplog V) (vn_ls V + 1), vn_views := map (\<lambda>_. vn_v V) (vn_views V),
       vn_acks := map VCA_info_clear (vn_acks V), vn_nvs := map nv_clear (vn_nvs V), vn_sent := zeroTime\<rparr>) }"

definition vi_enforce_bound :: "build \<Rightarrow> seqno \<Rightarrow> seqno \<Rightarrow> bool \<Rightarrow> view_info \<Rightarrow> (bool \<times> view_info) option" where
  "vi_enforce_bound b bnd ks corrupt V =
     (if corrupt \<or> vn_ls V > bnd - max_out b
      then Some (False, V\<lparr>vn_ls := ks, vn_oplog := log_clear OReq_info_clear (vn_oplog V) (ks + 1)\<rparr>)
      else do {
        ok \<leftarrow> fold_opt (\<lambda>i ok. if ok then do { ri \<leftarrow> log_fetch (vn_oplog V) i; Some (\<not> or_v ri \<ge> 0) } else Some False) [bnd..vn_ls V + max_out b] True;
        Some (ok, if ok then V else V\<lparr>vn_oplog := log_clear OReq_info_clear (vn_oplog V) (ks + 1)\<rparr>) })"

definition vi_mark_stale :: "venv \<Rightarrow> node \<Rightarrow> view_info \<Rightarrow> view_info option" where
  "vi_mark_stale E nd V = fold_opt (\<lambda>i V. do {
     V1 \<leftarrow> (if int i \<noteq> vn_id V then do {
            _ \<leftarrow> delete_slot (vn_vcs V) i;
            lv \<leftarrow> arr_get (vn_views V) i;
            Some (if lv \<ge> vn_v V then V\<lparr>vn_views := (vn_views V)[i := vn_v V]\<rparr> else V) }
          else Some V);
     let V2 = V1\<lparr>vn_my := (vn_my V1)[i := False]\<rparr>;
     (pres, V3) \<leftarrow> vi_nv (int i) (nv_mark_stale E nd (vn_oplog V2)) V2;
     V4 \<leftarrow> (if pres then do {
            m \<leftarrow> at_index (vn_slots V3) (vn_id V3);
            Some (if vc_v m = vn_v V3 then V3\<lparr>vn_vcs := (vn_vcs V3)[nat (vn_id V3) := True]\<rparr> else V3) }
          else Some V3);
     k \<leftarrow> arr_get (vn_acks V4) i;
     Some (V4\<lparr>vn_acks := (vn_acks V4)[i := VCA_info_clear k]\<rparr>) }) [0..<nat (num_replicas nd)] V"

text \<open>Requests of the new view and what completes it.\<close>

definition vi_fetch_request :: "venv \<Rightarrow> node \<Rightarrow> seqno \<Rightarrow> view_info \<Rightarrow> ((pre_prepare \<times> digest) \<times> view_info) option" where
  "vi_fetch_request E nd n V = vi_nv (primary_of nd (vn_v V)) (\<lambda>R N. do {
     (pp, d, N') \<leftarrow> nv_fetch_request E nd R n N;
     Some ((pp, d), R, N') }) V"

definition vi_add_missing_pp :: "venv \<Rightarrow> node \<Rightarrow> pre_prepare \<Rightarrow> view_info \<Rightarrow> view_info option" where
  "vi_add_missing_pp E nd pp V = do {
     (_, V') \<leftarrow> vi_nv (primary_of nd (vn_v V)) (\<lambda>R N. do { N' \<leftarrow> nv_add_missing_pp E nd (vn_oplog V) R pp N; Some ((), R, N') }) V;
     Some V' }"

definition vi_add_missing_prepare :: "venv \<Rightarrow> node \<Rightarrow> prepare \<Rightarrow> view_info \<Rightarrow> view_info option" where
  "vi_add_missing_prepare E nd p V = do {
     (_, V') \<leftarrow> vi_nv (primary_of nd (vn_v V)) (\<lambda>R N. do { N' \<leftarrow> nv_add_missing_prepare E nd (vn_oplog V) R p N; Some ((), R, N') }) V;
     Some V' }"

end
