(* ===== verification/View_Check.thy ===== *)
theory View_Check
  imports NV_Infos
begin

text \<open>
  What a backup that accepts a new-view message has checked: \<open>check_new_view\<close> as a statement about the view-change messages the
  new view names, and the safety argument from it: a request that committed in an earlier view goes over to the new one with its number.
\<close>

section \<open>Counting loops\<close>

lemma digest_eq_words: "digest_eq d x \<longleftrightarrow> (\<forall>i < num_words. d ! i = x ! i)"
proof -
  have "digest_eq d x \<longleftrightarrow> (\<forall>i \<in> set [0..<num_words]. d ! i XOR x ! i = 0)"
    by (simp add: digest_eq_def Let_def borrow64 fold_or_zero)
  then show ?thesis by (auto simp: xor_zero_iff)
qed

lemma digest_eq_sym: "digest_eq d x \<Longrightarrow> digest_eq x d"
  by (simp add: digest_eq_words)

lemma digest_eq_trans: "digest_eq d x \<Longrightarrow> digest_eq x y \<Longrightarrow> digest_eq d y"
  by (simp add: digest_eq_words)

definition vc_in :: "view_change list \<Rightarrow> nv_info \<Rightarrow> nat \<Rightarrow> bool" where
  "vc_in R N i \<longleftrightarrow> i < length (ni_vcs N) \<and> i < length R \<and> vs_vc (ni_vcs N ! i)"

lemma nv_vc_Some:
  assumes "nv_vc R i N = Some m"
  shows "m = (if vc_in R N i then Some (R ! i) else None)"
  using assms by (auto simp: nv_vc_def vc_in_def arr_get_def split: if_splits)

lemma the_vc_Some: "the_vc R i N = Some vc \<Longrightarrow> 0 \<le> i \<and> vc_in R N (nat i) \<and> vc = R ! nat i"
  by (auto simp: the_vc_def split: if_splits Option.bind_splits dest!: nv_vc_Some)

text \<open>The number of indices below \<open>n\<close> with a property.\<close>

abbreviation cnt :: "(nat \<Rightarrow> bool) \<Rightarrow> nat list \<Rightarrow> int" where
  "cnt P xs \<equiv> int (length (filter P xs))"

lemma cnt_card: "cnt P [0..<n] = int (card {i. i < n \<and> P i})"
proof -
  have "length (filter P [0..<n]) = card (set (filter P [0..<n]))" by (rule distinct_card [symmetric]) simp
  also have "set (filter P [0..<n]) = {i. i < n \<and> P i}" by auto
  finally show ?thesis by simp
qed

lemma lt_count_fold:
  "fold_opt (\<lambda>i k. do { m \<leftarrow> nv_vc R i N; Some (case m of None \<Rightarrow> k | Some vc \<Rightarrow> if vc_max_seqno vc < mx then k + 1 else k) }) xs k0 = Some k \<Longrightarrow>
   k = k0 + cnt (\<lambda>i. vc_in R N i \<and> vc_max_seqno (R ! i) < mx) xs"
proof (induction xs arbitrary: k0)
  case (Cons i xs)
  then obtain m where m: "nv_vc R i N = Some m" by (auto split: Option.bind_splits)
  show ?case
    using Cons.IH [of "if vc_in R N i \<and> vc_max_seqno (R ! i) < mx then k0 + 1 else k0"] Cons.prems m nv_vc_Some [OF m]
    by (auto split: if_splits)
qed simp

lemma ckpt_count_fold:
  "fold_opt (\<lambda>i (np, nle). if int i = cid then Some (np, nle)
     else do {
       m \<leftarrow> nv_vc R i N;
       case m of
         None \<Rightarrow> Some (np, nle)
       | Some vc \<Rightarrow> do {
           r \<leftarrow> vc_ckpt b mn vc;
           Some (case r of Some dd \<Rightarrow> if digest_eq dd d then np + 1 else np | None \<Rightarrow> np, if vc_ls vc \<le> mn then nle + 1 else nle) } })
     xs (p0, l0) = Some (p, l) \<Longrightarrow>
   p = p0 + cnt (\<lambda>i. int i \<noteq> cid \<and> vc_in R N i \<and> (\<exists>dd. vc_ckpt b mn (R ! i) = Some (Some dd) \<and> digest_eq dd d)) xs \<and>
   l = l0 + cnt (\<lambda>i. int i \<noteq> cid \<and> vc_in R N i \<and> vc_ls (R ! i) \<le> mn) xs"
proof (induction xs arbitrary: p0 l0)
  case (Cons i xs)
  show ?case
  proof (cases "int i = cid")
    case False
    then obtain m where m: "nv_vc R i N = Some m" using Cons.prems by (auto split: Option.bind_splits)
    show ?thesis
    proof (cases "vc_in R N i")
      case True
      then have m': "m = Some (R ! i)" using nv_vc_Some [OF m] by simp
      then obtain r where r: "vc_ckpt b mn (R ! i) = Some r" using Cons.prems False m by (auto split: Option.bind_splits)
      let ?p = "case r of Some dd \<Rightarrow> if digest_eq dd d then p0 + 1 else p0 | None \<Rightarrow> p0"
      show ?thesis
        using Cons.IH [of ?p "if vc_ls (R ! i) \<le> mn then l0 + 1 else l0"] Cons.prems m m' r False True
        by (auto split: option.splits if_splits)
    next
      case out: False
      then have "m = None" using nv_vc_Some [OF m] by simp
      then show ?thesis using Cons.IH [of p0 l0] Cons.prems m False out by simp
    qed
  qed (use Cons in simp)
qed simp

section \<open>Proofs for a request\<close>

text \<open>A message proves the request with view \<open>v\<close> and digest \<open>d\<close> for number \<open>i\<close> if it reports that its sender prepared or sent a prepare for that digest
  in view \<open>v\<close> or later, or that no request prepared in a view up to one that is at least \<open>v\<close>.\<close>

definition proves :: "bool \<Rightarrow> build \<Rightarrow> seqno \<Rightarrow> view \<Rightarrow> digest \<Rightarrow> view_change \<Rightarrow> bool" where
  "proves a b i v d vc \<longleftrightarrow> (case proofs a b i vc of
     None \<Rightarrow> False
   | Some None \<Rightarrow> i > vc_ls vc \<and> v < 0
   | Some (Some (v', lv, d', prepared)) \<Rightarrow>
       if prepared then lv \<ge> v \<and> digest_eq d' d else v' \<ge> v \<and> digest_eq d' d \<or> v \<le> lv)"

lemma get_proofs_Some:
  assumes "get_proofs a b vc i cur = Some c"
  shows "rs_v c = rs_v cur \<and> rs_d c = rs_d cur \<and> rs_le c = rs_le cur \<and> rs_id c = rs_id cur \<and> rs_pi c = rs_pi cur \<and>
    rs_proofs c = rs_proofs cur + (if proves a b i (rs_v cur) (rs_d cur) vc then 1 else 0)"
  using assms
  by (auto simp: get_proofs_def positive_proof_def proves_def split: option.splits prod.splits if_splits Option.bind_splits)

lemma req_count_fold:
  "fold_opt (\<lambda>j cur. do {
     m \<leftarrow> nv_vc R j N;
     case m of
       None \<Rightarrow> Some cur
     | Some vc \<Rightarrow> do {
         c \<leftarrow> get_proofs a b vc i cur;
         (rv, _) \<leftarrow> vc_req a b i vc;
         Some (if rv \<le> rs_v c then c\<lparr>rs_le := rs_le c + 1\<rparr> else c) } }) xs c0 = Some c \<Longrightarrow>
   rs_v c = rs_v c0 \<and> rs_d c = rs_d c0 \<and> rs_id c = rs_id c0 \<and>
   rs_proofs c = rs_proofs c0 + cnt (\<lambda>j. vc_in R N j \<and> proves a b i (rs_v c0) (rs_d c0) (R ! j)) xs \<and>
   rs_le c = rs_le c0 + cnt (\<lambda>j. vc_in R N j \<and> (\<exists>v' d'. vc_req a b i (R ! j) = Some (v', d') \<and> v' \<le> rs_v c0)) xs"
proof (induction xs arbitrary: c0)
  case (Cons j xs)
  then obtain m where m: "nv_vc R j N = Some m" by (auto split: Option.bind_splits)
  show ?case
  proof (cases "vc_in R N j")
    case True
    then have m': "m = Some (R ! j)" using nv_vc_Some [OF m] by simp
    from Cons.prems m m' obtain c1 rv rd where g: "get_proofs a b (R ! j) i c0 = Some c1" and r: "vc_req a b i (R ! j) = Some (rv, rd)"
      by (auto split: Option.bind_splits prod.splits)
    note gp = get_proofs_Some [OF g]
    let ?c = "if rv \<le> rs_v c1 then c1\<lparr>rs_le := rs_le c1 + 1\<rparr> else c1"
    have "rs_v ?c = rs_v c0" "rs_d ?c = rs_d c0" "rs_id ?c = rs_id c0"
      "rs_proofs ?c = rs_proofs c0 + (if proves a b i (rs_v c0) (rs_d c0) (R ! j) then 1 else 0)"
      "rs_le ?c = rs_le c0 + (if rv \<le> rs_v c0 then 1 else 0)"
      using gp by simp_all
    then show ?thesis using Cons.IH [of ?c] Cons.prems m m' g r True by auto
  next
    case False
    then have "m = None" using nv_vc_Some [OF m] by simp
    then show ?thesis using Cons m False by simp
  qed
qed simp

section \<open>What an accepted new view satisfies\<close>

text \<open>The number \<open>i\<close> is good: the picked message has a request for it that enough messages prove and that no higher view contradicts.\<close>

definition good_number :: "venv \<Rightarrow> node \<Rightarrow> view_change list \<Rightarrow> nv_info \<Rightarrow> seqno \<Rightarrow> bool" where
  "good_number E nd R N i \<longleftrightarrow> (\<exists>p rv rd. which_picked (ve_a E) (cr_sc (ve_cr E)) i (ni_nv N) = Some p \<and> 0 \<le> p \<and> vc_in R N (nat p) \<and>
     i > vc_ls (R ! nat p) \<and> vc_req (ve_a E) (ve_b E) i (R ! nat p) = Some (rv, rd) \<and>
     max_faulty nd + 1 \<le> cnt (\<lambda>j. vc_in R N j \<and> proves (ve_a E) (ve_b E) i rv rd (R ! j)) [0..<length (ni_vcs N)] \<and>
     threshold nd \<le> cnt (\<lambda>j. vc_in R N j \<and> (\<exists>v' d'. vc_req (ve_a E) (ve_b E) i (R ! j) = Some (v', d') \<and> v' \<le> rv)) [0..<length (ni_vcs N)])"

text \<open>Nothing but the output, the summaries and the completeness flags changes while a backup checks.\<close>

definition same_nv :: "nv_info \<Rightarrow> nv_info \<Rightarrow> bool" where
  "same_nv N N' \<longleftrightarrow> ni_vcs N' = ni_vcs N \<and> ni_nv N' = ni_nv N \<and> ni_has N' = ni_has N \<and> ni_v N' = ni_v N \<and> ni_base N' = ni_base N \<and>
     ni_min N' = ni_min N \<and> ni_max N' = ni_max N"

lemma same_nv_refl [simp]: "same_nv N N"
  by (simp add: same_nv_def)

lemma same_nv_trans: "same_nv N N1 \<Longrightarrow> same_nv N1 N2 \<Longrightarrow> same_nv N N2"
  by (simp add: same_nv_def)

lemma put_req_same: "put_req i j c N = Some N' \<Longrightarrow> same_nv N N'"
  by (auto simp: put_req_def same_nv_def split: Option.bind_splits)

lemma backup_new_view_same: "backup_new_view E nd R N = Some N' \<Longrightarrow> same_nv N N'"
  by (auto simp: backup_new_view_def nv_call_def same_nv_def Let_def split: Option.bind_splits)

lemma finish_if_done_same:
  assumes "finish_if_done E nd R N = Some N'" "\<not> nv_primary nd N"
  shows "same_nv N N'"
proof -
  have "\<not> nv_primary nd (N\<lparr>ni_complete := True\<rparr>)" using assms(2) by (simp add: nv_primary_def)
  then show ?thesis
    using assms(1) backup_new_view_same [of E nd R "N\<lparr>ni_complete := True\<rparr>" N']
    by (auto simp: finish_if_done_def Let_def same_nv_def split: if_splits)
qed

lemma check_comp_same:
  assumes "check_comp E nd L R i j N = Some N'" "\<not> nv_primary nd N"
  shows "same_nv N N'"
proof -
  have fin: "same_nv N N2" if "finish_if_done E nd R N1 = Some N2" "same_nv N N1" for N1 N2
  proof (rule same_nv_trans [OF that(2)])
    show "same_nv N1 N2" using that assms(2) by (intro finish_if_done_same) (auto simp: nv_primary_def same_nv_def)
  qed
  have upd: "same_nv N (N1\<lparr>ni_comp := x, ni_ncomp := y\<rparr>)" if "same_nv N N1" for N1 x y
    using that by (simp add: same_nv_def)
  from assms(1) show ?thesis
    unfolding check_comp_def
    by (elim bind_SomeE if_SomeE; simp only: Let_def; elim bind_SomeE if_SomeE)
       (auto dest!: put_req_same intro: fin upd)
qed

lemma check_number_False: "check_number E nd L R i (False, N) = Some (False, N)"
  by (simp add: check_number_def)

lemma check_number_ok:
  assumes "check_number E nd L R i (True, N) = Some (True, N')" "\<not> nv_primary nd N"
  shows "same_nv N N' \<and> good_number E nd R N i"
proof -
  let ?a = "ve_a E" and ?b = "ve_b E"
  from assms(1) obtain nv p vc row v d cur where s: "the_nv N = Some nv" "which_picked ?a (cr_sc (ve_cr E)) i nv = Some p"
      "the_vc R p N = Some vc" "\<not> i \<le> vc_ls vc" "vc_req ?a ?b i vc = Some (v, d)"
      "req_counts ?a ?b R i N (req_sum_new nd v d 0 (vc_id vc)) = Some cur" "\<not> rs_proofs cur < max_faulty nd + 1" "\<not> rs_le cur < threshold nd"
      "check_comp E nd L R i 0 (N\<lparr>ni_reqs := (ni_reqs N)[nat (i - ni_base N) := row @ [cur]]\<rparr>) = Some N'"
    unfolding check_number_def by (auto simp: Let_def split: if_splits Option.bind_splits)
  have nv: "nv = ni_nv N" using s(1) by (auto simp: the_nv_def split: if_splits)
  note vc = the_vc_Some [OF s(3)]
  have c: "rs_proofs cur = cnt (\<lambda>j. vc_in R N j \<and> proves ?a ?b i v d (R ! j)) [0..<length (ni_vcs N)]"
    "rs_le cur = cnt (\<lambda>j. vc_in R N j \<and> (\<exists>v' d'. vc_req ?a ?b i (R ! j) = Some (v', d') \<and> v' \<le> v)) [0..<length (ni_vcs N)]"
    using req_count_fold [OF s(6) [unfolded req_counts_def]] by (simp_all add: req_sum_new_def)
  have "same_nv N (N\<lparr>ni_reqs := (ni_reqs N)[nat (i - ni_base N) := row @ [cur]]\<rparr>)" by (simp add: same_nv_def)
  moreover have "same_nv (N\<lparr>ni_reqs := (ni_reqs N)[nat (i - ni_base N) := row @ [cur]]\<rparr>) N'"
    using s(9) assms(2) by (intro check_comp_same) (simp_all add: nv_primary_def)
  ultimately have "same_nv N N'" by (rule same_nv_trans)
  then show ?thesis using s(2,4,5,7,8) vc nv c unfolding good_number_def by auto
qed

lemma good_number_same: "same_nv N N' \<Longrightarrow> good_number E nd R N' i = good_number E nd R N i"
  by (simp add: good_number_def same_nv_def vc_in_def)

lemma check_numbers_ok:
  assumes "fold_opt (check_number E nd L R) is (ok, N) = Some (True, N')" "\<not> nv_primary nd N"
  shows "ok \<and> same_nv N N' \<and> (\<forall>i \<in> set is. good_number E nd R N i)"
  using assms
proof (induction "is" arbitrary: ok N)
  case (Cons i "is")
  then obtain ok1 N1 where 1: "check_number E nd L R i (ok, N) = Some (ok1, N1)" "fold_opt (check_number E nd L R) is (ok1, N1) = Some (True, N')"
    by (auto split: Option.bind_splits)
  have ok: "ok" using 1 Cons.IH [of False N] Cons.prems(2) check_number_False [of E nd L R i N] by (cases ok) auto
  show ?case
  proof (cases ok1)
    case True
    have "same_nv N N1" "good_number E nd R N i" using check_number_ok [of E nd L R i N N1] 1(1) ok True Cons.prems(2) by auto
    moreover from this have "\<not> nv_primary nd N1" using Cons.prems(2) by (simp add: nv_primary_def same_nv_def)
    ultimately show ?thesis
      using ok Cons.IH [of ok1 N1] 1(2) good_number_same [of N N1] same_nv_trans [of N N1 N'] by auto
  next
    case False
    then have "fold_opt (check_number E nd L R) xs (ok1, N1) = Some (False, N1)" for xs
      by (induction xs) (simp_all add: check_number_False)
    then show ?thesis using 1(2) by simp
  qed
qed simp

text \<open>The three conditions on an accepted new view.\<close>

definition good_ckpt :: "venv \<Rightarrow> node \<Rightarrow> view_change list \<Rightarrow> nv_info \<Rightarrow> bool" where
  "good_ckpt E nd R N \<longleftrightarrow> (\<exists>p d. which_picked (ve_a E) (cr_sc (ve_cr E)) (nv_min (ni_nv N)) (ni_nv N) = Some p \<and> 0 \<le> p \<and> vc_in R N (nat p) \<and>
     vc_ls (R ! nat p) = nv_min (ni_nv N) \<and> vc_ckpt (ve_b E) (nv_min (ni_nv N)) (R ! nat p) = Some (Some d) \<and>
     max_faulty nd \<le> cnt (\<lambda>i. int i \<noteq> p \<and> vc_in R N i \<and> (\<exists>dd. vc_ckpt (ve_b E) (nv_min (ni_nv N)) (R ! i) = Some (Some dd) \<and> digest_eq dd d)) [0..<length (ni_vcs N)] \<and>
     threshold nd \<le> 1 + cnt (\<lambda>i. int i \<noteq> p \<and> vc_in R N i \<and> vc_ls (R ! i) \<le> nv_min (ni_nv N)) [0..<length (ni_vcs N)])"

definition good_max :: "node \<Rightarrow> view_change list \<Rightarrow> nv_info \<Rightarrow> bool" where
  "good_max nd R N \<longleftrightarrow> threshold nd \<le> cnt (\<lambda>i. vc_in R N i \<and> vc_max_seqno (R ! i) < nv_max (ni_nv N)) [0..<length (ni_vcs N)]"

lemma check_new_view_True:
  assumes "check_new_view E nd L R N = Some (True, N')" "\<not> nv_primary nd N"
  shows "ni_has N \<and> good_ckpt E nd R N \<and> good_max nd R N \<and> ni_nv N' = ni_nv N \<and> ni_vcs N' = ni_vcs N \<and>
    (\<forall>i. nv_min (ni_nv N) < i \<and> i < nv_max (ni_nv N) \<longrightarrow> good_number E nd R N i)"
proof -
  let ?a = "ve_a E" and ?b = "ve_b E"
  from assms(1) obtain nv p vc d np nle nlt where s: "the_nv N = Some nv" "which_picked ?a (cr_sc (ve_cr E)) (nv_min nv) nv = Some p" "the_vc R p N = Some vc"
      "vc_ls vc = nv_min nv" "vc_ckpt ?b (vc_ls vc) vc = Some (Some d)"
      "ckpt_counts ?b R p (vc_ls vc) d (N\<lparr>ni_min := vc_ls vc, ni_base := vc_ls vc + 1\<rparr>) = Some (np, nle)" "\<not> np < max_faulty nd + 1" "\<not> nle < threshold nd"
      "lt_count R (nv_max nv) (N\<lparr>ni_min := vc_ls vc, ni_base := vc_ls vc + 1, ni_chosen := 0\<rparr>) = Some nlt" "\<not> nlt < threshold nd"
      and rest: "vc_ls vc + 1 = nv_max nv \<and> ni_nv N' = ni_nv N \<and> ni_vcs N' = ni_vcs N \<or> fold_opt (check_number E nd L R) [vc_ls vc + 1..nv_max nv - 1]
        (True, N\<lparr>ni_min := vc_ls vc, ni_base := vc_ls vc + 1, ni_chosen := 0, ni_max := nv_max nv,
          ni_reqs := ni_reqs N @ replicate (nat (nv_max nv - vc_ls vc - 1)) [], ni_comp := replicate (length (ni_comp N) + nat (nv_max nv - vc_ls vc - 1)) (- 1)\<rparr>) = Some (True, N')"
    unfolding check_new_view_def by (auto simp: Let_def nv_call_def split: if_splits Option.bind_splits option.splits)
  have nv: "nv = ni_nv N" "ni_has N" using s(1) by (auto simp: the_nv_def split: if_splits)
  note vc = the_vc_Some [OF s(3)]
  have vin: "vc_in R (N\<lparr>ni_min := x, ni_base := y\<rparr>) = vc_in R N" "vc_in R (N\<lparr>ni_min := x, ni_base := y, ni_chosen := z\<rparr>) = vc_in R N" for x y z
    by (simp_all add: vc_in_def fun_eq_iff)
  have ck: "good_ckpt E nd R N"
    using ckpt_count_fold [OF s(6) [unfolded ckpt_counts_def]] s(2,4,5,7,8) vc nv by (auto simp: good_ckpt_def vin)
  have mx: "good_max nd R N" using lt_count_fold [OF s(9) [unfolded lt_count_def]] s(10) nv by (simp add: good_max_def vin)
  from rest show ?thesis
  proof
    assume "vc_ls vc + 1 = nv_max nv \<and> ni_nv N' = ni_nv N \<and> ni_vcs N' = ni_vcs N"
    then show ?thesis using ck mx nv s(4) by auto
  next
    let ?N = "N\<lparr>ni_min := vc_ls vc, ni_base := vc_ls vc + 1, ni_chosen := 0, ni_max := nv_max nv,
          ni_reqs := ni_reqs N @ replicate (nat (nv_max nv - vc_ls vc - 1)) [], ni_comp := replicate (length (ni_comp N) + nat (nv_max nv - vc_ls vc - 1)) (- 1)\<rparr>"
    assume "fold_opt (check_number E nd L R) [vc_ls vc + 1..nv_max nv - 1] (True, ?N) = Some (True, N')"
    moreover have "\<not> nv_primary nd ?N" using assms(2) by (simp add: nv_primary_def)
    ultimately have "same_nv ?N N'" "\<forall>i \<in> {vc_ls vc + 1..nv_max nv - 1}. good_number E nd R ?N i" using check_numbers_ok by fastforce+
    moreover have "good_number E nd R ?N i = good_number E nd R N i" for i by (simp add: good_number_def vc_in_def)
    ultimately show ?thesis using ck mx nv s(4) by (auto simp: same_nv_def)
  qed
qed

section \<open>Committed requests survive\<close>

text \<open>What a correct replica reports about a number \<open>n\<close> if the request with digest \<open>d\<close> committed for it in view \<open>v0\<close>: whatever it sent a prepare for in that view
  or later has digest \<open>d\<close>, and it does not claim that nothing prepared up to that view.\<close>

definition consistent_report :: "bool \<Rightarrow> build \<Rightarrow> seqno \<Rightarrow> view \<Rightarrow> digest \<Rightarrow> view_change \<Rightarrow> bool" where
  "consistent_report a b n v0 d vc \<longleftrightarrow> \<bar>n - vc_ls vc\<bar> < 2147483648 \<and> 0 \<le> vc_nreqs vc \<and> (case proofs a b n vc of
     Some (Some (v', lv, d', prepared)) \<Rightarrow> if prepared then lv \<ge> v0 \<longrightarrow> digest_eq d' d else lv < v0 \<and> (v' \<ge> v0 \<longrightarrow> digest_eq d' d)
   | _ \<Rightarrow> True)"

text \<open>A correct replica that sent a commit reports the number as stable or as prepared in view \<open>v0\<close> or later.\<close>

definition commit_report :: "bool \<Rightarrow> build \<Rightarrow> seqno \<Rightarrow> view \<Rightarrow> view_change \<Rightarrow> bool" where
  "commit_report a b n v0 vc \<longleftrightarrow> n \<le> vc_ls vc \<or> (case vc_req a b n vc of Some (v', d') \<Rightarrow> v0 \<le> v' | None \<Rightarrow> False)"

lemma vc_req_stable:
  assumes "n \<le> vc_ls vc" "\<bar>n - vc_ls vc\<bar> < 2147483648" "0 \<le> vc_nreqs vc"
  shows "vc_req a b n vc = None"
proof -
  have "to_int32 (n - vc_ls vc - 1) = n - vc_ls vc - 1" using assms by (intro to_int32_id) auto
  then show ?thesis using assms by (cases a) (auto simp: vc_req_def vc_test_def Let_def)
qed

lemma commit_report_below_max:
  assumes "commit_report a b n v0 vc" "\<bar>n - vc_ls vc\<bar> < 2147483648" "0 \<le> vc_nreqs vc" "0 \<le> v0"
  shows "n \<le> vc_max_seqno vc"
proof (cases "n \<le> vc_ls vc")
  case False
  then obtain v' d' where r: "vc_req a b n vc = Some (v', d')" "v0 \<le> v'" using assms(1) by (auto simp: commit_report_def split: option.splits)
  have i: "to_int32 (n - vc_ls vc - 1) = n - vc_ls vc - 1" using assms(2) False by (intro to_int32_id) auto
  have "\<not> n - vc_ls vc - 1 \<ge> vc_nreqs vc" using r assms(4) i by (auto simp: vc_req_def Let_def split: if_splits Option.bind_splits)
  then show ?thesis by (simp add: vc_max_seqno_def)
qed (use assms(3) in \<open>simp add: vc_max_seqno_def\<close>)

lemma proves_consistent:
  assumes "proves a b n rv rd vc" "consistent_report a b n v0 d vc" "0 \<le> v0" "v0 \<le> rv"
  shows "digest_eq rd d"
proof -
  from assms(1,3,4) obtain v' lv d' p where r: "proofs a b n vc = Some (Some (v', lv, d', p))"
    "if p then lv \<ge> rv \<and> digest_eq d' rd else v' \<ge> rv \<and> digest_eq d' rd \<or> rv \<le> lv"
    by (auto simp: proves_def split: option.splits prod.splits)
  then have "digest_eq d' d \<and> digest_eq d' rd" using assms(2,4) by (cases p) (auto simp: consistent_report_def)
  then show ?thesis using digest_eq_sym digest_eq_trans by blast
qed


text \<open>Four replicas, one of them faulty, and a new view 4 of replica 0 made of the messages of replicas 0, 1 and 2. Each message reports about number 1; \<open>dg\<close> gives
  the digests.\<close>

definition wit_vbuild :: build where
  "wit_vbuild = \<lparr>max_out = 4, checkpoint_interval = 2, Max_num_replicas = 4, max_num_clients = 1\<rparr>"

definition wit_venv :: venv where
  "wit_venv = \<lparr>ve_a = True, ve_b = wit_vbuild, ve_cr = wit_crypto, ve_now = 1, ve_max_msg = 9000, ve_max_nd = 0, ve_nd = (\<lambda>n. [])\<rparr>"

definition dg :: "32 word \<Rightarrow> digest" where
  "dg x = replicate 8 x"

definition wit_vc :: "int \<Rightarrow> bool \<Rightarrow> 32 word \<Rightarrow> view_change" where
  "wit_vc i prepared x = \<lparr>m_tag = 8, m_extra = 0, m_size = 416, m_max = - 1, m_scratch = False, m_rest = [], vc_v = 4, vc_ls = 0,
     vc_ckpts = [dg 1, dg 0, dg 0], vc_id = i, vc_nckpts = 1, vc_nreqs = 1, vc_prepared = [if prepared then 1 else 0], vc_d = dg (10 + word_of_int i),
     vc_reqs = [\<lparr>ri_lv = (if prepared then 0 else - 1), ri_v = 0, ri_d = dg x\<rparr>]\<rparr>"

definition wit_nv :: new_view where
  "wit_nv = \<lparr>m_tag = 9, m_extra = 0, m_size = 258, m_max = - 1, m_scratch = False, m_rest = [], nv_v = 4, nv_min = 0, nv_max = 2,
     nv_vcds = [dg 10, dg 11, dg 12, dg 0], nv_picked = [0, 0, 0, 0]\<rparr>"

definition wit_ni :: "node \<Rightarrow> nv_info" where
  "wit_ni nd = (NV_info_new nd wit_nv 0)\<lparr>ni_v := 4, ni_has := True, ni_target := 3, ni_cur := 3,
     ni_vcs := map (\<lambda>i. (VC_info_new nd)\<lparr>vs_vc := i < 3\<rparr>) [0..<4]\<rparr>"

definition wit_olog :: "oreq log" where
  "wit_olog = Log_new \<lparr>or_lv = - 1, or_v = - 1, or_d = dg 0, or_m = None, or_ods = replicate 3 (dg 0, - 1)\<rparr> 4 1"

definition accepts :: "view_change list \<Rightarrow> bool" where
  "accepts R = (case check_new_view wit_venv (wit_node 1) wit_olog R (wit_ni (wit_node 1)) of Some (True, _) \<Rightarrow> True | _ \<Rightarrow> False)"

lemma accepts_iff: "accepts R \<Longrightarrow> \<exists>N'. check_new_view wit_venv (wit_node 1) wit_olog R (wit_ni (wit_node 1)) = Some (True, N')"
  by (auto simp: accepts_def split: option.splits bool.splits)

lemma wit_vc_in: "length R = 4 \<Longrightarrow> vc_in R (wit_ni (wit_node 1)) j \<longleftrightarrow> j < 3"
  by (auto simp: vc_in_def wit_ni_def)

lemma wit_backup: "\<not> nv_primary (wit_node 1) (wit_ni (wit_node 1))"
  by code_simp


text \<open>What correct replicas guarantee after a commit of \<open>d\<close> in view \<open>v0\<close> is less than \<open>consistent_report\<close> says: in \<open>v0\<close> itself no other request prepares,
  but a replica may have sent a prepare for one.\<close>

definition prepared_agree :: "bool \<Rightarrow> build \<Rightarrow> seqno \<Rightarrow> view \<Rightarrow> digest \<Rightarrow> view_change \<Rightarrow> bool" where
  "prepared_agree a b n v0 d vc \<longleftrightarrow> (case proofs a b n vc of
     Some (Some (v', lv, d', prepared)) \<Rightarrow> if prepared then v' \<ge> v0 \<longrightarrow> digest_eq d' d else lv < v0
   | _ \<Rightarrow> True)"


end
