(* ===== verification/View_Props.thy ===== *)
theory View_Props
  imports View_Infos View_Check
begin

text \<open>
  Properties of the view-change component that hold for every message and state: what a backup does with acknowledgements, what happens to the slots of the
  special region, and the inputs on which the component aborts or reads stale data.
\<close>

section \<open>View-change messages\<close>

lemma zero_prepared_keeps: "k < length ws \<Longrightarrow> ps \<le> 2 * k \<Longrightarrow> zero_prepared ps ws ! k = ws ! k"
  by (simp add: zero_prepared_def)

lemma length_zero_prepared [simp]: "length (zero_prepared ps ws) = length ws"
  by (simp add: zero_prepared_def)

text \<open>C35: a new view-change message keeps the prepared marks of the message that was in the slot before, for the upper half of the window: the bitmap
  of 64-bit chunks is cleared with the size of a chunk taken as four bytes.\<close>

theorem stale_prepared_marks:
  assumes "int (prepared_size b) \<le> 2 * (i div 64)" "0 \<le> i"
  shows "vc_test a b i (new_view_change b v ls me slot) = vc_test a b i slot"
proof -
  let ?k = "nat i div 64"
  have "int ?k = i div 64" using assms(2) by (simp add: zdiv_int)
  then have "prepared_size b \<le> 2 * ?k" using assms(1) by linarith
  then have "arr_get (zero_prepared (prepared_size b) (vc_prepared slot)) ?k = arr_get (vc_prepared slot) ?k"
    by (simp add: arr_get_def zero_prepared_keeps)
  then show ?thesis by (simp add: vc_test_def new_view_change_def vc_init_def)
qed

text \<open>A slot in which every request of the window was marked as prepared: the next message for it has nothing marked at first, but a
  request at distance 130 from the stable checkpoint is found prepared.\<close>

definition wit_slot :: view_change where
  "wit_slot = \<lparr>m_tag = 8, m_extra = 0, m_size = 0, m_max = - 1, m_scratch = False, m_rest = [], vc_v = 1, vc_ls = 0, vc_ckpts = replicate 3 digest_zero,
     vc_id = 1, vc_nckpts = 0, vc_nreqs = 0, vc_prepared = replicate 4 (- 1), vc_d = digest_zero, vc_reqs = []\<rparr>"

theorem stale_prepared_marks_witness:
  "int (prepared_size default_build) \<le> 2 * (130 div 64) \<and> vc_test True default_build 130 (new_view_change default_build 2 0 1 wit_slot) = Some True"
proof -
  have p: "int (prepared_size default_build) \<le> 2 * (130 div 64)" by (simp add: prepared_size_def default_build_def)
  have "vc_test True default_build 130 wit_slot = Some True" by code_simp
  with p stale_prepared_marks [OF p, of True 2 0 1 wit_slot] show ?thesis by simp
qed

text \<open>A request in the upper half of a chunk: marking or testing it shifts an \<^verbatim>\<open>int\<close> by 32 or more.\<close>

lemma upper_half_undefined:
  assumes "0 \<le> i" "32 \<le> nat i mod 64"
  shows "vc_test a b i m = None" "vc_mark a b i m = None"
proof -
  have "int_shift (nat i mod 64) = None" using assms(2) by (simp add: int_shift_def)
  then show "vc_test a b i m = None" "vc_mark a b i m = None"
    using assms(1) by (auto simp: vc_test_def vc_mark_def split: Option.bind_splits)
qed

lemma upper_half_undefined_request:
  assumes "0 \<le> n - vc_ls m - 1" "n - vc_ls m - 1 < 2147483648" "32 \<le> nat (n - vc_ls m - 1) mod 64"
  shows "add_request a b n v lv d True m = None"
proof -
  have "to_int32 (n - vc_ls m - 1) = n - vc_ls m - 1" using assms by (intro to_int32_id) auto
  then show ?thesis
    using upper_half_undefined(2) [OF assms(1,3)] by (auto simp: add_request_def Let_def split: Option.bind_splits)
qed

section \<open>New-view messages\<close>

text \<open>The slot of a new-view message is one byte too small for a full window: with the largest number of replicas, completing the
  message fails an assertion.\<close>

lemma new_view_full_window_aborts:
  assumes "num_replicas nd = Max_num_replicas b" "2 \<le> num_replicas nd" "num_replicas nd < 1000000" "0 \<le> node_id nd" "node_id nd < num_replicas nd"
    and "nv_max m - nv_min m = max_out b + 1"
  shows "nv_re_authenticate True b cr nd m = None"
proof -
  have "max_new_view_size b - nv_old_size nd m = 32 * (num_replicas nd - 1) - 1"
    using assms(1,6) by (simp add: max_new_view_size_def nv_old_size_def AUTHENTICATOR_SIZE_def sizeof_New_view_rep_def sizeof_VC_info_def)
  moreover have "auth_size nd (- 1) = 32 * (num_replicas nd - 1)" using assms(5) by (simp add: auth_size_def HMAC_size_def)
  ultimately show ?thesis using assms(2,3) by (simp add: nv_re_authenticate_def)
qed

text \<open>A new-view message whose range is empty passes \<^verbatim>\<open>verify\<close> whenever its authenticator is right, and aborts the backup that checks it.\<close>

lemma empty_new_view_accepted:
  assumes "0 < nv_v m" "0 \<le> nv_min m" "nv_max m = nv_min m" "0 \<le> max_out b" "nv_old_size nd m + auth_size nd (primary_of nd (nv_v m)) \<le> mx"
  shows "New_view_verify b cr nd mx m = verify_auth_in (cr_sc cr) (cr_H cr) nd (primary_of nd (nv_v m)) (new_view_bytes nd m) (m_rest m)"
  using assms by (simp add: New_view_verify_def)

lemma empty_new_view_aborts:
  assumes "ve_a E" "the_nv N = Some nv" "nv_max nv = nv_min nv"
  shows "check_new_view E nd L R N = None"
  using assms by (auto simp: check_new_view_def which_picked_def split: Option.bind_splits)

section \<open>Acknowledgements\<close>

text \<open>A backup never counts an acknowledgement: whatever acknowledgements it gets, its state does not change.\<close>

theorem backup_ignores_acks:
  assumes "nv_add_vca E nd L R m N = Some (r, N')" "\<not> nv_primary nd N"
  shows "N' = N"
  using assms unfolding nv_add_vca_def
  by (auto simp: Let_def split: if_splits option.splits Option.bind_splits)

definition wit_ack :: view_change_ack where
  "wit_ack = \<lparr>m_tag = 10, m_extra = 0, m_size = 88, m_max = 88, m_scratch = True, m_rest = replicate 32 5, va_v = 4, va_id = 3, va_vcid = 2, va_vcd = dg 12\<rparr>"

theorem backup_ignores_acks_witness:
  "nv_add_vca wit_venv (wit_node 1) wit_olog [] wit_ack (wit_ni (wit_node 1)) = Some (True, wit_ni (wit_node 1))"
proof -
  have "(case nv_add_vca wit_venv (wit_node 1) wit_olog [] wit_ack (wit_ni (wit_node 1)) of Some (True, _) \<Rightarrow> True | _ \<Rightarrow> False)" by code_simp
  then obtain N' where N': "nv_add_vca wit_venv (wit_node 1) wit_olog [] wit_ack (wit_ni (wit_node 1)) = Some (True, N')"
    by (auto split: option.splits bool.splits)
  with backup_ignores_acks [OF N' wit_backup] show ?thesis by simp
qed

text \<open>So the path for messages that the backup cannot verify itself is dead: such a message is refused although enough others acknowledged it.\<close>

lemma unverified_refused:
  assumes "nv_add_vc E nd L R m False N = Some (r, R', N')" "0 < max_faulty nd" "\<forall>s \<in> set (ni_vcs N). vs_acks s = 0"
  shows "\<not> r \<and> R' = R \<and> N' = N"
proof -
  have "vs_acks s < max_faulty nd" if "arr_get (ni_vcs N) k = Some s" for s k
    using that assms(2,3) by (auto simp: arr_get_def split: if_splits)
  then show ?thesis
    using assms(1) unfolding nv_add_vc_def by (auto simp: Let_def split: if_splits option.splits Option.bind_splits)
qed

section \<open>Slots\<close>

lemma vi_make_ack_keeps: "vi_make_ack E nd i d V = Some V' \<Longrightarrow> vn_slots V' = vn_slots V \<and> vn_nvs V' = vn_nvs V"
  by (auto simp: vi_make_ack_def vi_send_def split: Option.bind_splits)

lemma vc_persist_Some:
  assumes "vc_persist E R m = Some (m', R')"
  shows "0 \<le> vc_id m \<and> nat (vc_id m) < length R \<and> R' = R[nat (vc_id m) := m'] \<and> vc_v m' = vc_v m \<and> vc_d m' = vc_d m \<and> vc_id m' = vc_id m"
  using assms by (auto simp: vc_persist_def arr_get_def arr_set_def Let_def split: if_splits Option.bind_splits)

text \<open>C34: a view-change message for another view overwrites the one that a new-view in progress refers to. When a message is stored outside the new-view
  information, the slot of its sender holds it from then on, and every new-view information that had a message of that sender now reads
  the new one, with its other view.\<close>

theorem later_view_change_overwrites:
  assumes "vi_add_vc E nd vc V = Some (True, V')" "at_index (vn_nvs V) (primary_of nd (to_int32 (vc_v vc))) = Some N" "ni_v N \<noteq> to_int32 (vc_v vc)"
    and "k < length (vn_nvs V)" "nat (vc_id vc) < length (ni_vcs (vn_nvs V ! k))" "vs_vc (ni_vcs (vn_nvs V ! k) ! nat (vc_id vc))"
  shows "\<exists>m. nv_vc (vn_slots V') (nat (vc_id vc)) (vn_nvs V' ! k) = Some (Some m) \<and> vc_v m = vc_v vc \<and> vc_d m = vc_d vc"
proof -
  from assms(1-3) obtain m' R' where p: "vc_persist E (vn_slots V) vc = Some (m', R')" and V': "vn_slots V' = R'" "vn_nvs V' = vn_nvs V"
    unfolding vi_add_vc_def
    by (auto simp: Let_def dest!: vi_make_ack_keeps split: if_splits Option.bind_splits)
  note q = vc_persist_Some [OF p]
  have "nv_vc (vn_slots V') (nat (vc_id vc)) (vn_nvs V' ! k) = Some (Some m')"
    using assms(5,6) q V' by (simp add: nv_vc_def arr_get_def)
  then show ?thesis using q by blast
qed

text \<open>A backup in view 4 that has the new-view message of that view and the view-change of replica 2, and a view-change of replica 2 for view 5.\<close>

definition wit_view :: view_info where
  "wit_view = (View_info_new wit_vbuild (wit_node 1) 4 [wit_vc 0 True 7, wit_vc 1 True 7, wit_vc 2 False 7, wit_vc 3 False 0] [] (replicate 4 wit_nv) 0 0)
     \<lparr>vn_nvs := [wit_ni (wit_node 1), NV_info_new (wit_node 1) wit_nv 0, NV_info_new (wit_node 1) wit_nv 0, NV_info_new (wit_node 1) wit_nv 0]\<rparr>"

definition wit_vc5 :: view_change where
  "wit_vc5 = (wit_vc 2 False 9)\<lparr>m_size := 312, m_max := 312, m_scratch := True, m_rest := replicate 96 5, vc_v := 5, vc_d := digest_zero\<rparr>"

theorem later_view_change_overwrites_witness:
  "\<exists>V' m. vi_add_vc wit_venv (wit_node 1) wit_vc5 wit_view = Some (True, V') \<and>
    nv_vc (vn_slots V') 2 (vn_nvs V' ! 0) = Some (Some m) \<and> vc_v m = 5 \<and> ni_v (vn_nvs wit_view ! 0) = 4"
proof -
  have "(case vi_add_vc wit_venv (wit_node 1) wit_vc5 wit_view of Some (True, _) \<Rightarrow> True | _ \<Rightarrow> False)" by code_simp
  then obtain V' where V': "vi_add_vc wit_venv (wit_node 1) wit_vc5 wit_view = Some (True, V')"
    by (auto split: option.splits bool.splits)
  have v: "primary_of (wit_node 1) (to_int32 (vc_v wit_vc5)) = 1" "vc_v wit_vc5 = 5" "to_int32 (vc_v wit_vc5) = 5" "nat (vc_id wit_vc5) = 2" by code_simp+
  have n: "vn_nvs wit_view = [wit_ni (wit_node 1), NV_info_new (wit_node 1) wit_nv 0, NV_info_new (wit_node 1) wit_nv 0, NV_info_new (wit_node 1) wit_nv 0]"
    by (simp add: wit_view_def)
  have "\<exists>m. nv_vc (vn_slots V') (nat (vc_id wit_vc5)) (vn_nvs V' ! 0) = Some (Some m) \<and> vc_v m = vc_v wit_vc5 \<and> vc_d m = vc_d wit_vc5"
  proof (rule later_view_change_overwrites [OF V', of "NV_info_new (wit_node 1) wit_nv 0"])
    show "at_index (vn_nvs wit_view) (primary_of (wit_node 1) (to_int32 (vc_v wit_vc5))) = Some (NV_info_new (wit_node 1) wit_nv 0)"
      unfolding v(1) n by (simp add: at_index_def arr_get_def)
    show "ni_v (NV_info_new (wit_node 1) wit_nv 0) \<noteq> to_int32 (vc_v wit_vc5)" unfolding v(3) by (simp add: NV_info_new_def)
  qed (simp_all add: n v(4) wit_ni_def)
  then show ?thesis using V' v n by (auto simp: wit_ni_def)
qed

section \<open>Aborts\<close>

text \<open>A view-change message with an identifier that is no replica's aborts the replica that gets it, before the message is verified: the identifier is used as an
  index.\<close>

theorem bad_sender_aborts:
  assumes "\<not> is_replica nd (vc_id vc)" "vn_v V \<le> to_int32 (vc_v vc)" "length (vn_views V) = nat (num_replicas nd)"
    and "\<forall>N \<in> set (vn_nvs V). length (ni_vcs N) = nat (num_replicas nd)"
  shows "vi_add_vc E nd vc V = None"
proof -
  let ?i = "vc_id vc"
  have out: "?i < 0 \<or> nat (num_replicas nd) \<le> nat ?i" using assms(1) by (auto simp: is_replica_def)
  then have v: "at_index (vn_views V) ?i = None" using assms(3) by (auto simp: at_index_def arr_get_def)
  have n: "nv_add_vc E nd (vn_oplog V) R vc x N = None" if "at_index (vn_nvs V) k = Some N" for R x N k
  proof -
    have "length (ni_vcs N) = nat (num_replicas nd)" using that assms(4) by (auto simp: at_index_def arr_get_def split: if_splits)
    then have g: "\<not> ?i < 0 \<Longrightarrow> arr_get (ni_vcs N) (nat ?i) = None" using out by (auto simp: arr_get_def)
    show ?thesis
      by (cases "?i < 0"; cases "vassert (ve_a E) (vc_v vc = ni_v N)") (simp_all only: nv_add_vc_def g Let_def bind.bind_lunit bind.bind_lzero if_True if_False not_False_eq_True)
  qed
  show ?thesis
  proof (cases "at_index (vn_nvs V) (primary_of nd (to_int32 (vc_v vc)))")
    case (Some N)
    have a: "vi_nv_add_vc E nd (primary_of nd (to_int32 (vc_v vc))) vc x V = None" for x
      using Some n [OF Some] by (simp add: vi_nv_add_vc_def vi_nv_def)
    have lt: "\<not> to_int32 (vc_v vc) < vn_v V" using assms(2) by simp
    show ?thesis
      unfolding vi_add_vc_def Let_def if_not_P [OF lt] Some bind.bind_lunit a v
      by (cases "View_change_verify (ve_b E) (ve_cr E) nd vc") (simp_all add: a v)
  qed (use assms(2) in \<open>simp add: vi_add_vc_def Let_def\<close>)
qed

theorem bad_sender_aborts_witness:
  "vi_add_vc wit_venv (wit_node 1) (wit_vc5\<lparr>vc_id := 4\<rparr>) wit_view = None"
proof (rule bad_sender_aborts)
  show "\<not> is_replica (wit_node 1) (vc_id (wit_vc5\<lparr>vc_id := 4\<rparr>))" by code_simp
  show "vn_v wit_view \<le> to_int32 (vc_v (wit_vc5\<lparr>vc_id := 4\<rparr>))" by code_simp
  show "length (vn_views wit_view) = nat (num_replicas (wit_node 1))" by code_simp
  show "\<forall>N \<in> set (vn_nvs wit_view). length (ni_vcs N) = nat (num_replicas (wit_node 1))"
    by (simp add: wit_view_def wit_ni_def NV_info_new_def wit_node_def)
qed

section \<open>The new primary\<close>

lemma own_message_fields:
  assumes "own_view_change E nd dig le V = Some vc" "at_index (vn_slots V) (vn_id V) = Some slot"
  shows "m_scratch vc = m_scratch slot \<and> vc_v vc = vn_v V \<and> vc_id vc = vn_id V"
proof -
  let ?P = "\<lambda>m. m_scratch m = m_scratch slot \<and> vc_v m = vn_v V \<and> vc_id m = vn_id V"
  from assms obtain vc1 vc2 where
    1: "fold_opt (\<lambda>i vc. case dig i of Some d \<Rightarrow> vc_add_checkpoint (ve_a E) (ve_b E) i d vc | None \<Rightarrow> Some vc) (ckpt_numbers (ve_b E) (vn_ls V) le)
          (new_view_change (ve_b E) (vn_v V) (vn_ls V) (vn_id V) slot) = Some vc1"
    and 2: "fold_opt (\<lambda>i vc. do { ri \<leftarrow> log_fetch (vn_oplog V) i;
          if or_v ri \<ge> 0 then add_request (ve_a E) (ve_b E) i (or_v ri) (or_lv ri) (or_d ri) (or_m ri \<noteq> None) vc else Some vc })
          [vn_ls V + 1..vn_ls V + max_out (ve_b E)] vc1 = Some vc2"
    and 3: "vc_re_authenticate (ve_a E) (ve_b E) (ve_cr E) nd vc2 = Some vc"
    unfolding own_view_change_def by (auto simp: Let_def split: Option.bind_splits)
  have P1: "?P vc1"
    using 1 by (rule fold_opt_inv)
      (auto simp: new_view_change_def vc_init_def vc_add_checkpoint_def Let_def split: option.splits if_splits Option.bind_splits)
  have "?P vc2"
    by (rule fold_opt_inv [where P = ?P, OF 2 P1])
      (auto simp: add_request_def vc_mark_def Let_def split: if_splits Option.bind_splits)
  then show ?thesis using 3 by (auto simp: vc_re_authenticate_def set_size_def Let_def split: Option.bind_splits if_splits)
qed

lemma region_message_refused:
  assumes "ve_a E" "\<not> m_scratch m" "\<not> ni_complete N" "nv_primary nd N" "\<forall>s \<in> set (ni_vcs N). \<not> vs_vc s"
  shows "nv_add_vc E nd L R m True N = None"
proof -
  have p: "vc_persist E R m = None" using assms(1,2) by (simp add: vc_persist_def)
  have s: "\<not> vs_vc s" if "arr_get (ni_vcs N) k = Some s" for k s using that assms(5) by (auto simp: arr_get_def split: if_splits)
  show ?thesis
    using assms(1,3,4) p s
    by (cases "vc_v m = ni_v N"; cases "vc_id m < 0"; cases "arr_get (ni_vcs N) (nat (vc_id m))") (simp_all add: nv_add_vc_def Let_def)
qed

definition fresh_nv :: "node \<Rightarrow> nv_info \<Rightarrow> bool" where
  "fresh_nv nd N \<longleftrightarrow> \<not> ni_complete N \<and> nv_primary nd N \<and> (\<forall>s \<in> set (ni_vcs N). \<not> vs_vc s)"

lemma move_vcs_aborts:
  assumes "ve_a E" "at_index (vn_nvs V) k = Some N" "fresh_nv nd N" "\<forall>m \<in> set (vn_slots V). \<not> m_scratch m"
    and "vi_vc (int me) V = Some (Some vc)" "vc_v vc = v" "me < nat (num_replicas nd)"
  shows "move_vcs E nd k v V = None"
proof -
  let ?g = "\<lambda>i V. do {
     m \<leftarrow> vi_vc (int i) V;
     case m of
       None \<Rightarrow> Some V
     | Some vc \<Rightarrow>
         if vc_v vc = v then do {
           (r, V') \<leftarrow> vi_nv_add_vc E nd k vc True V;
           Some (if r then V'\<lparr>vn_vcs := (vn_vcs V')[i := False]\<rparr> else V') }
         else Some V }"
  have ref: "vi_nv_add_vc E nd k m True V = None" if "vi_vc i V = Some (Some m)" for m i
  proof -
    have "m \<in> set (vn_slots V)" using that by (auto simp: vi_vc_def at_index_def arr_get_def split: if_splits Option.bind_splits)
    then have "nv_add_vc E nd (vn_oplog V) (vn_slots V) m True N = None"
      using assms(1,3,4) by (intro region_message_refused) (auto simp: fresh_nv_def)
    then show ?thesis using assms(2) by (simp add: vi_nv_add_vc_def vi_nv_def)
  qed
  have step: "?g i V = None \<or> ?g i V = Some V" for i
    using ref [of "int i"] by (cases "vi_vc (int i) V") (auto split: option.splits)
  have stop: "?g me V = None" using assms(5,6) ref [of "int me"] by simp
  have "fold_opt ?g xs V = None" if "me \<in> set xs" for xs
    using that
  proof (induction xs)
    case (Cons i xs)
    show ?case
    proof (cases "?g i V")
      case None
      then show ?thesis by (simp only: fold_opt.simps bind.bind_lzero)
    next
      case (Some V')
      then have "V' = V" "i \<noteq> me" using step [of i] stop by (simp_all only: option.simps) auto
      then show ?thesis using Cons Some by (simp only: fold_opt.simps bind.bind_lunit) simp
    qed
  qed simp
  then show ?thesis unfolding move_vcs_def using assms(7) by simp
qed

lemma own_new_view_fresh:
  assumes "nv_add_nv E nd m N = Some (r, N1)" "ni_v N = 0" "0 < nv_v m" "primary_of nd (nv_v m) = node_id nd"
    and "\<not> ni_complete N" "\<forall>s \<in> set (ni_vcs N). \<not> vs_vc s"
  shows "fresh_nv nd N1"
  using assms by (auto simp: nv_add_nv_def fresh_nv_def nv_primary_def Let_def split: if_splits Option.bind_splits)

text \<open>C33: with assertions compiled in, the primary of a new view aborts when it moves to that view: its view-change message, which was built in its slot of the special
  region, is added to the new-view information, and \<^verbatim>\<open>persist\<close> asserts that the message is in the scratch region.\<close>

theorem new_primary_aborts:
  assumes "ve_a E" "vn_id V = node_id nd" "primary_of nd v = node_id nd" "0 \<le> node_id nd" "node_id nd < num_replicas nd"
    and "\<forall>m \<in> set (vn_slots V). \<not> m_scratch m" "length (vn_vcs V) = nat (num_replicas nd)"
    and "at_index (vn_nvs V) (node_id nd) = Some N" "ni_v N < v" "0 < v"
  shows "vi_view_change E nd v le dig V = None"
proof (rule ccontr)
  let ?me = "nat (node_id nd)"
  let ?V1 = "discard_old (V\<lparr>vn_v := v\<rparr>)"
  assume "vi_view_change E nd v le dig V \<noteq> None"
  then obtain V' where V': "vi_view_change E nd v le dig V = Some V'" by blast
  have d: "vn_id ?V1 = node_id nd" "vn_slots ?V1 = vn_slots V" "vn_v ?V1 = v" "length (vn_vcs ?V1) = nat (num_replicas nd)"
    "at_index (vn_nvs ?V1) (node_id nd) = Some (nv_clear N)"
    using assms(2,4,7-9) by (auto simp: discard_old_def at_index_def arr_get_def split: if_splits)
  let ?nv = "new_new_view nd v (ni_nv (nv_clear N))"
  let ?V2 = "\<lambda>vc. vi_send (Send_view_change vc All_replicas) (?V1\<lparr>vn_slots := (vn_slots V)[?me := vc], vn_sent := ve_now E, vn_vcs := (vn_vcs ?V1)[?me := True],
    vn_views := (vn_views ?V1)[?me := v]\<rparr>)"
  let ?V3 = "\<lambda>vc. (?V2 vc)\<lparr>vn_nvs := (vn_nvs ?V1)[?me := (nv_clear N)\<lparr>ni_nv := ?nv\<rparr>]\<rparr>"
  have n2: "at_index (vn_nvs (?V2 vc)) (node_id nd) = Some (nv_clear N)" "vn_nvs (?V2 vc) = vn_nvs ?V1" for vc using d(5) by (simp_all add: vi_send_def)
  obtain vc r V4 V5 where vc: "own_view_change E nd dig le ?V1 = Some vc"
    and V4: "vi_nv_add_nv E nd (node_id nd) ?nv (?V3 vc) = Some (r, V4)" and V5: "move_vcs E nd (node_id nd) v V4 = Some V5"
    using V' assms(3)
    by (simp add: vi_view_change_def Let_def d n2 arr_set_def split: if_splits Option.bind_splits) (auto split: Option.bind_splits)
  have slot: "at_index (vn_slots ?V1) (vn_id ?V1) = Some (vn_slots V ! ?me)" and me: "?me < length (vn_slots V)"
    using vc d by (auto simp: own_view_change_def at_index_def arr_get_def Let_def split: if_splits Option.bind_splits)
  note f = own_message_fields [OF vc slot, unfolded d]
  have len: "?me < length (vn_nvs ?V1)" using d(5) by (auto simp: at_index_def arr_get_def split: if_splits)
  let ?N0 = "(nv_clear N)\<lparr>ni_nv := ?nv\<rparr>"
  obtain N1 where N1: "nv_add_nv E nd ?nv ?N0 = Some (r, N1)"
    and V4': "V4 = (?V3 vc)\<lparr>vn_nvs := (vn_nvs (?V3 vc))[?me := N1\<lparr>ni_out := []\<rparr>], vn_out := vn_out (?V3 vc) @ ni_out N1\<rparr>"
    using V4 len assms(4) by (auto simp: vi_nv_add_nv_def vi_nv_def at_index_def arr_get_def split: Option.bind_splits)
  have "fresh_nv nd N1"
    by (rule own_new_view_fresh [OF N1]) (use assms(3,10) in \<open>auto simp: nv_clear_def VC_info_clear_def new_new_view_def\<close>)
  then have fresh: "fresh_nv nd (N1\<lparr>ni_out := []\<rparr>)" by (simp add: fresh_nv_def nv_primary_def)
  have nth: "at_index (vn_nvs V4) (node_id nd) = Some (N1\<lparr>ni_out := []\<rparr>)" using len assms(4) by (simp add: V4' at_index_def arr_get_def)
  have slots: "vn_slots V4 = (vn_slots V)[?me := vc]" "vn_vcs V4 = (vn_vcs ?V1)[?me := True]" by (simp_all add: V4' vi_send_def)
  have "\<not> m_scratch vc" using f assms(6) me by simp
  then have "\<forall>m \<in> set (vn_slots V4). \<not> m_scratch m" using assms(6) set_update_subset_insert [of "vn_slots V" ?me vc] by (auto simp: slots)
  moreover have "vi_vc (int ?me) V4 = Some (Some vc)" using slots d(4) assms(4,5) me by (simp add: vi_vc_def at_index_def arr_get_def)
  ultimately have "move_vcs E nd (node_id nd) v V4 = None"
    using f assms(4,5) by (intro move_vcs_aborts [OF assms(1) nth fresh, where me = ?me and vc = vc]) auto
  with V5 show False by simp
qed

theorem new_primary_aborts_witness:
  "vi_view_change wit_venv (wit_node 1) 5 0 (\<lambda>n. None) wit_view = None"
proof (rule new_primary_aborts)
  show "ve_a wit_venv" by code_simp
  show "vn_id wit_view = node_id (wit_node 1)" "primary_of (wit_node 1) 5 = node_id (wit_node 1)" "0 \<le> node_id (wit_node 1)"
    "node_id (wit_node 1) < num_replicas (wit_node 1)" "length (vn_vcs wit_view) = nat (num_replicas (wit_node 1))" "(0::int) < 5"
    by code_simp+
  show "\<forall>m \<in> set (vn_slots wit_view). \<not> m_scratch m" by (simp add: wit_view_def View_info_new_def Let_def wit_vc_def)
  show "at_index (vn_nvs wit_view) (node_id (wit_node 1)) = Some (NV_info_new (wit_node 1) wit_nv 0)"
    by (simp add: wit_view_def at_index_def arr_get_def wit_node_def)
  show "ni_v (NV_info_new (wit_node 1) wit_nv 0) < 5" by (simp add: NV_info_new_def)
qed

text \<open>A new view with a named view-change message whose stable checkpoint is above the chosen one aborts the backup that checks it, with or without
  assertions: \<^verbatim>\<open>req\<close> is called on it with numbers that are stable there.\<close>

definition wit_higher :: "view_change list" where
  "wit_higher = [wit_vc 0 True 7, wit_vc 1 True 7, wit_vc 2 False 7, (wit_vc 3 False 0)\<lparr>vc_ls := 2, vc_nreqs := 0\<rparr>]"

definition wit_ni4 :: nv_info where
  "wit_ni4 = (wit_ni (wit_node 1))\<lparr>ni_vcs := map (\<lambda>i. (VC_info_new (wit_node 1))\<lparr>vs_vc := True\<rparr>) [0..<4]\<rparr>"

lemma higher_stable_aborts:
  "check_new_view wit_venv (wit_node 1) wit_olog wit_higher wit_ni4 = None \<and>
   check_new_view (wit_venv\<lparr>ve_a := False\<rparr>) (wit_node 1) wit_olog wit_higher wit_ni4 = None"
proof
  show "check_new_view wit_venv (wit_node 1) wit_olog wit_higher wit_ni4 = None"
  proof -
    have "(case check_new_view wit_venv (wit_node 1) wit_olog wit_higher wit_ni4 of None \<Rightarrow> True | _ \<Rightarrow> False)" by code_simp
    then show ?thesis by (simp split: option.splits)
  qed
  show "check_new_view (wit_venv\<lparr>ve_a := False\<rparr>) (wit_node 1) wit_olog wit_higher wit_ni4 = None"
  proof -
    have "(case check_new_view (wit_venv\<lparr>ve_a := False\<rparr>) (wit_node 1) wit_olog wit_higher wit_ni4 of None \<Rightarrow> True | _ \<Rightarrow> False)" by code_simp
    then show ?thesis by (simp split: option.splits)
  qed
qed

end
