(* ===== verification/View_Run.thy ===== *)
theory View_Run
  imports View_Props
begin

text \<open>
  Runs of the view-change component (\<^verbatim>\<open>View_info.cc\<close>) between recoveries: any sequence of its operations but \<^verbatim>\<open>clear\<close>, \<^verbatim>\<open>shutdown\<close> and
  \<^verbatim>\<open>restart\<close>. What the highest views in \<^verbatim>\<open>last_views\<close> rest on: the verified view-change messages of the run.
\<close>

section \<open>What the operations do to the recorded views\<close>

definition view_part :: "view_info \<Rightarrow> view list \<times> view \<times> int" where
  "view_part V = (vn_views V, vn_v V, vn_id V)"

named_theorems view_part_intros

lemma vi_send_part [simp]: "view_part (vi_send c V) = view_part V"
  by (simp add: view_part_def vi_send_def)

lemma vi_flush_part [view_part_intros]: "view_part (V\<lparr>vn_out := out\<rparr>) = view_part V"
  by (simp add: view_part_def)

lemma vi_nv_part [view_part_intros]: "vi_nv i f V = Some (r, V') \<Longrightarrow> view_part V' = view_part V"
  by (auto simp: vi_nv_def view_part_def elim!: bind_SomeE split: prod.splits)

lemma nv_op_part [view_part_intros]:
  "vi_nv_add_vc E nd i vc ok V = Some (r, V') \<Longrightarrow> view_part V' = view_part V"
  "vi_nv_add_vca E nd i m V = Some (r, V') \<Longrightarrow> view_part V' = view_part V"
  "vi_nv_add_nv E nd i nv V = Some (r, V') \<Longrightarrow> view_part V' = view_part V"
  by (auto simp: vi_nv_add_vc_def vi_nv_add_vca_def vi_nv_add_nv_def intro: vi_nv_part)

lemma move_ack_part [view_part_intros]: "move_ack E nd k i j V = Some V' \<Longrightarrow> view_part V' = view_part V"
  by (auto simp: move_ack_def view_part_def elim!: bind_SomeE if_SomeE split: prod.splits if_splits dest!: nv_op_part(2))

lemma move_vcs_part [view_part_intros]: "move_vcs E nd k v V = Some V' \<Longrightarrow> view_part V' = view_part V"
  unfolding move_vcs_def
proof (erule fold_opt_inv [where P = "\<lambda>W. view_part W = view_part V"])
  fix i W W'
  assume w: "view_part W = view_part V" and "do {
     m \<leftarrow> vi_vc (int i) W;
     case m of None \<Rightarrow> Some W
     | Some vc \<Rightarrow> if vc_v vc = v then do {
           (r, V') \<leftarrow> vi_nv_add_vc E nd k vc True W;
           Some (if r then V'\<lparr>vn_vcs := (vn_vcs V')[i := False]\<rparr> else V') }
         else Some W } = Some W'"
  then show "view_part W' = view_part V"
    by (auto elim!: bind_SomeE split: option.splits if_splits prod.splits dest!: nv_op_part(1) simp: view_part_def)
qed simp

lemma vi_make_ack_part [view_part_intros]: "vi_make_ack E nd i d V = Some V' \<Longrightarrow> view_part V' = view_part V"
  by (auto simp: vi_make_ack_def view_part_def vi_send_def elim!: bind_SomeE)

lemma log_op_part [view_part_intros]:
  "vi_add_complete a pp V = Some V' \<Longrightarrow> view_part V' = view_part V"
  "vi_add_incomplete nd n d V = Some V' \<Longrightarrow> view_part V' = view_part V"
  "vi_enforce_bound b bnd ks c V = Some (r, V') \<Longrightarrow> view_part V' = view_part V"
  by (auto simp: vi_add_complete_def vi_add_incomplete_def vi_enforce_bound_def view_part_def elim!: bind_SomeE split: if_splits)

lemma vi_send_proofs_part [view_part_intros]: "vi_send_proofs E nd n v dest V = Some V' \<Longrightarrow> view_part V' = view_part V"
  unfolding vi_send_proofs_def
  by (auto elim!: bind_SomeE split: if_splits intro: fold_opt_inv [where P = "\<lambda>W. view_part W = view_part V"])

lemma vi_mark_stable_part [view_part_intros]: "vi_mark_stable nd ls V = Some V' \<Longrightarrow> view_part V' = view_part V"
  by (auto simp: vi_mark_stable_def elim!: bind_SomeE dest!: vi_nv_part split: prod.splits) (simp add: view_part_def)

lemma vi_request_part [view_part_intros]:
  "vi_fetch_request E nd n V = Some (r, V') \<Longrightarrow> view_part V' = view_part V"
  "vi_add_missing_pp E nd pp V = Some V' \<Longrightarrow> view_part V' = view_part V"
  "vi_add_missing_prepare E nd p V = Some V' \<Longrightarrow> view_part V' = view_part V"
  by (auto simp: vi_fetch_request_def vi_add_missing_pp_def vi_add_missing_prepare_def elim!: bind_SomeE split: prod.splits intro: vi_nv_part)


lemma vi_add_nv_part [view_part_intros]: "vi_add_nv E nd nv V = Some (r, V') \<Longrightarrow> view_part V' = view_part V"
  by (auto simp: vi_add_nv_def Let_def elim!: bind_SomeE if_SomeE split: if_splits prod.splits dest!: nv_op_part(3) move_vcs_part)

lemma vca_persist_part [view_part_intros]: "vca_persist E m V = Some V' \<Longrightarrow> view_part V' = view_part V"
  by (auto simp: vca_persist_def view_part_def elim!: bind_SomeE if_SomeE split: if_splits)

lemma vi_add_vca_part [view_part_intros]: "vi_add_vca E nd m V = Some V' \<Longrightarrow> view_part V' = view_part V"
  by (auto simp: vi_add_vca_def Let_def view_part_def elim!: bind_SomeE split: if_splits prod.splits dest!: nv_op_part(2) vca_persist_part)

lemma acks_part: "fold_opt (\<lambda>i V. move_ack E nd k i j V) xs V = Some V' \<Longrightarrow> view_part V' = view_part V"
  by (erule fold_opt_inv [where P = "\<lambda>W. view_part W = view_part V"]) (auto dest: move_ack_part)

text \<open>A view-change message changes at most the view of its sender, to the view of the message, and only if it was verified.\<close>

lemma vi_add_vc_views:
  assumes "vi_add_vc E nd m V = Some (r, V')"
  shows "vn_v V' = vn_v V \<and> vn_id V' = vn_id V \<and> (vn_views V' = vn_views V \<or>
    View_change_verify (ve_b E) (ve_cr E) nd m = Some True \<and> 0 \<le> vc_id m \<and> nat (vc_id m) < length (vn_views V) \<and>
      vn_views V ! nat (vc_id m) < to_int32 (vc_v m) \<and> vn_views V' = (vn_views V)[nat (vc_id m) := to_int32 (vc_v m)])"
  using assms
  by (auto simp: vi_add_vc_def Let_def view_part_def at_index_def arr_get_def elim!: bind_SomeE if_SomeE split: if_splits prod.splits
      dest!: nv_op_part(1) acks_part vi_make_ack_part)

text \<open>A move to a view records it for this replica.\<close>

lemma make_acks_part:
  assumes "fold_opt (\<lambda>i V. do {
            m \<leftarrow> vi_vc (int i) V;
            case m of None \<Rightarrow> Some V | Some lvc \<Rightarrow> if P i lvc then vi_make_ack E nd (int i) d V else Some V }) xs W = Some V'"
  shows "view_part V' = view_part W"
  using assms
  by (rule fold_opt_inv [where P = "\<lambda>U. view_part U = view_part W"])
    (auto elim!: bind_SomeE split: option.splits if_splits dest!: vi_make_ack_part)

lemma all_acks_part:
  assumes "fold_opt (\<lambda>i V. fold_opt (\<lambda>j V. move_ack E nd k i (int j) V) ys V) xs W = Some V'"
  shows "view_part V' = view_part W"
  using assms
proof (rule fold_opt_inv [where P = "\<lambda>U. view_part U = view_part W"])
  fix i U U'
  assume u: "view_part U = view_part W" and "fold_opt (\<lambda>j V. move_ack E nd k i (int j) V) ys U = Some U'"
  from this(2) show "view_part U' = view_part W"
    by (rule fold_opt_inv [where P = "\<lambda>Z. view_part Z = view_part W"]) (auto simp: u dest: move_ack_part)
qed simp

lemma vi_view_change_views:
  assumes "vi_view_change E nd v le dig V = Some V'"
  shows "vn_v V' = v \<and> vn_id V' = vn_id V \<and> vn_views V' = (vn_views V)[nat (vn_id V) := v]"
  using assms unfolding vi_view_change_def Let_def
  by (elim bind_SomeE if_SomeE)
    (auto dest!: make_acks_part all_acks_part nv_op_part(3) move_vcs_part elim!: bind_SomeE
      simp: view_part_def discard_old_def vi_send_def arr_set_def split: if_splits prod.splits)


text \<open>\<^verbatim>\<open>mark_stale\<close> lowers recorded views to the current one.\<close>

lemma lowered_view:
  assumes "\<forall>i. ws ! i = vs ! i \<or> v \<le> vs ! i \<and> ws ! i = (v::int)" "v \<le> ws ! k" "k < length ws"
  shows "\<forall>i. ws[k := v] ! i = vs ! i \<or> v \<le> vs ! i \<and> ws[k := v] ! i = v"
proof
  fix i
  show "ws[k := v] ! i = vs ! i \<or> v \<le> vs ! i \<and> ws[k := v] ! i = v"
    using assms(2,3) spec [OF assms(1), of i] by (cases "i = k") auto
qed

lemma vi_mark_stale_views:
  assumes "vi_mark_stale E nd V = Some V'"
  shows "vn_v V' = vn_v V \<and> vn_id V' = vn_id V \<and> length (vn_views V') = length (vn_views V) \<and>
    (\<forall>i. vn_views V' ! i = vn_views V ! i \<or> vn_v V \<le> vn_views V ! i \<and> vn_views V' ! i = vn_v V)"
  using assms unfolding vi_mark_stale_def
proof (rule fold_opt_inv [where P = "\<lambda>W. vn_v W = vn_v V \<and> vn_id W = vn_id V \<and> length (vn_views W) = length (vn_views V) \<and>
    (\<forall>i. vn_views W ! i = vn_views V ! i \<or> vn_v V \<le> vn_views V ! i \<and> vn_views W ! i = vn_v V)"])
  fix i and W W' :: view_info
  assume w: "vn_v W = vn_v V \<and> vn_id W = vn_id V \<and> length (vn_views W) = length (vn_views V) \<and>
    (\<forall>i. vn_views W ! i = vn_views V ! i \<or> vn_v V \<le> vn_views V ! i \<and> vn_views W ! i = vn_v V)"
  assume "do {
     V1 \<leftarrow> (if int i \<noteq> vn_id W then do {
            _ \<leftarrow> delete_slot (vn_vcs W) i;
            lv \<leftarrow> arr_get (vn_views W) i;
            Some (if lv \<ge> vn_v W then W\<lparr>vn_views := (vn_views W)[i := vn_v W]\<rparr> else W) }
          else Some W);
     let V2 = V1\<lparr>vn_my := (vn_my V1)[i := False]\<rparr>;
     (pres, V3) \<leftarrow> vi_nv (int i) (nv_mark_stale E nd (vn_oplog V2)) V2;
     V4 \<leftarrow> (if pres then do {
            m \<leftarrow> at_index (vn_slots V3) (vn_id V3);
            Some (if vc_v m = vn_v V3 then V3\<lparr>vn_vcs := (vn_vcs V3)[nat (vn_id V3) := True]\<rparr> else V3) }
          else Some V3);
     k \<leftarrow> arr_get (vn_acks V4) i;
     Some (V4\<lparr>vn_acks := (vn_acks V4)[i := VCA_info_clear k]\<rparr>) } = Some W'"
  then have "vn_v W' = vn_v W \<and> vn_id W' = vn_id W \<and> (vn_views W' = vn_views W \<or>
      vn_v W \<le> vn_views W ! i \<and> i < length (vn_views W) \<and> vn_views W' = (vn_views W)[i := vn_v W])"
    by (auto simp: Let_def view_part_def arr_get_def elim!: bind_SomeE if_SomeE split: if_splits prod.splits dest!: vi_nv_part)
  with w show "vn_v W' = vn_v V \<and> vn_id W' = vn_id V \<and> length (vn_views W') = length (vn_views V) \<and>
    (\<forall>i. vn_views W' ! i = vn_views V ! i \<or> vn_v V \<le> vn_views V ! i \<and> vn_views W' ! i = vn_v V)"
    using lowered_view [of "vn_views W" "vn_views V" "vn_v V" i] by auto
qed simp

section \<open>Runs\<close>

text \<open>\<open>view_run n V S\<close>: one of \<open>n\<close> replicas can have the view component \<open>V\<close> after it was created; \<open>S\<close> are the senders and views of the view-change
  messages that it received and that passed verification. The environment and the keys of the node may change from step to step.\<close>

definition verified :: "venv \<Rightarrow> node \<Rightarrow> view_change \<Rightarrow> (int \<times> view) set" where
  "verified E nd m = (if View_change_verify (ve_b E) (ve_cr E) nd m = Some True then {(vc_id m, vc_v m)} else {})"

inductive view_run :: "nat \<Rightarrow> view_info \<Rightarrow> (int \<times> view) set \<Rightarrow> bool" for n where
  start: "nat (num_replicas nd) = n \<Longrightarrow> view_run n (View_info_new b nd 0 slots aslots nvslots mn sent) {}"
| add_vc: "view_run n V S \<Longrightarrow> vi_add_vc E nd m V = Some (r, V') \<Longrightarrow> view_run n V' (S \<union> verified E nd m)"
| add_nv: "view_run n V S \<Longrightarrow> vi_add_nv E nd nv V = Some (r, V') \<Longrightarrow> view_run n V' S"
| add_vca: "view_run n V S \<Longrightarrow> vi_add_vca E nd a V = Some V' \<Longrightarrow> view_run n V' S"
| view_change: "view_run n V S \<Longrightarrow> vn_v V \<le> v \<Longrightarrow> v < View_max \<Longrightarrow> vi_view_change E nd v le dig V = Some V' \<Longrightarrow> view_run n V' S"
| add_missing_pp: "view_run n V S \<Longrightarrow> vi_add_missing_pp E nd pp V = Some V' \<Longrightarrow> view_run n V' S"
| add_missing_prepare: "view_run n V S \<Longrightarrow> vi_add_missing_prepare E nd p V = Some V' \<Longrightarrow> view_run n V' S"
| fetch_request: "view_run n V S \<Longrightarrow> vi_fetch_request E nd i V = Some (x, V') \<Longrightarrow> view_run n V' S"
| add_complete: "view_run n V S \<Longrightarrow> vi_add_complete as pp V = Some V' \<Longrightarrow> view_run n V' S"
| add_incomplete: "view_run n V S \<Longrightarrow> vi_add_incomplete nd i d V = Some V' \<Longrightarrow> view_run n V' S"
| send_proofs: "view_run n V S \<Longrightarrow> vi_send_proofs E nd i v dest V = Some V' \<Longrightarrow> view_run n V' S"
| mark_stable: "view_run n V S \<Longrightarrow> vi_mark_stable nd ls V = Some V' \<Longrightarrow> view_run n V' S"
| mark_stale: "view_run n V S \<Longrightarrow> vi_mark_stale E nd V = Some V' \<Longrightarrow> view_run n V' S"
| enforce_bound: "view_run n V S \<Longrightarrow> vi_enforce_bound b bnd ks cr V = Some (r, V') \<Longrightarrow> view_run n V' S"
| flushed: "view_run n V S \<Longrightarrow> view_run n (V\<lparr>vn_out := out\<rparr>) S"

text \<open>A recorded view beyond the current one is that of a verified message of the replica it is recorded for.\<close>

definition views_vouched :: "nat \<Rightarrow> view_info \<Rightarrow> (int \<times> view) set \<Rightarrow> bool" where
  "views_vouched n V S \<longleftrightarrow> length (vn_views V) = n \<and> 0 \<le> vn_v V \<and> vn_v V < View_max \<and>
     (\<forall>i < n. 0 \<le> vn_views V ! i \<and> vn_views V ! i < View_max \<and>
       (vn_views V ! i \<le> vn_v V \<or> (\<exists>w. (int i, w) \<in> S \<and> vn_views V ! i \<le> to_int32 w)))"

lemma views_vouched_part: "view_part V' = view_part V \<Longrightarrow> views_vouched n V S \<Longrightarrow> views_vouched n V' S"
  by (simp add: view_part_def views_vouched_def)

lemma views_vouched_update:
  assumes "views_vouched n V S" "vn_views V' = (vn_views V)[k := v]" "vn_v V \<le> vn_v V'" "vn_v V' < View_max" "0 \<le> v" "v < View_max" "S \<subseteq> S'"
    and "v \<le> vn_v V' \<or> (\<exists>w. (int k, w) \<in> S' \<and> v \<le> to_int32 w)"
  shows "views_vouched n V' S'"
  unfolding views_vouched_def
proof (intro conjI allI impI)
  fix i assume i: "i < n"
  have old: "0 \<le> vn_views V ! i" "vn_views V ! i < View_max" "vn_views V ! i \<le> vn_v V \<or> (\<exists>w. (int i, w) \<in> S \<and> vn_views V ! i \<le> to_int32 w)"
    and len: "length (vn_views V) = n"
    using assms(1) i by (auto simp: views_vouched_def)
  show "0 \<le> vn_views V' ! i" "vn_views V' ! i < View_max" "vn_views V' ! i \<le> vn_v V' \<or> (\<exists>w. (int i, w) \<in> S' \<and> vn_views V' ! i \<le> to_int32 w)"
    using assms(3-) old len i by (cases "i = k"; force simp: assms(2))+
qed (use assms in \<open>auto simp: views_vouched_def\<close>)

lemma view_run_vouched: "view_run n V S \<Longrightarrow> views_vouched n V S"
proof (induction rule: view_run.induct)
  case (start nd b slots aslots nvslots mn sent)
  then show ?case by (simp add: views_vouched_def View_info_new_def Let_def View_max_def)
next
  case (add_vc V S E nd m r V')
  from vi_add_vc_views [OF add_vc.hyps(2)] show ?case
  proof (elim conjE disjE)
    assume "View_change_verify (ve_b E) (ve_cr E) nd m = Some True"
    then have v: "verified E nd m = {(vc_id m, vc_v m)}" by (simp add: verified_def)
    have rng: "to_int32 (vc_v m) < View_max" using to_int32_range [of "vc_v m"] by (simp add: View_max_def)
    assume eqs: "vn_views V' = (vn_views V)[nat (vc_id m) := to_int32 (vc_v m)]" "vn_v V' = vn_v V"
      and lt: "vn_views V ! nat (vc_id m) < to_int32 (vc_v m)" and i: "0 \<le> vc_id m" "nat (vc_id m) < length (vn_views V)"
    have "0 \<le> vn_views V ! nat (vc_id m)" using add_vc.IH i by (auto simp: views_vouched_def)
    with lt have "0 \<le> to_int32 (vc_v m)" by simp
    moreover have "vn_v V < View_max" using add_vc.IH by (simp add: views_vouched_def)
    ultimately show ?thesis using i v eqs(2) rng by (intro views_vouched_update [OF add_vc.IH eqs(1)]) auto
  qed (use add_vc.IH in \<open>auto simp: views_vouched_def\<close>)
next
  case (view_change V S v E nd le dig V')
  have "0 \<le> v" using view_change.IH view_change.hyps(2) by (simp add: views_vouched_def)
  then show ?case using vi_view_change_views [OF view_change.hyps(4)] view_change.hyps(2,3)
    by (intro views_vouched_update [OF view_change.IH]) auto
next
  case (mark_stale V S E nd V')
  from vi_mark_stale_views [OF mark_stale.hyps(2)] mark_stale.IH show ?case unfolding views_vouched_def by (metis order.refl)
qed (blast intro: views_vouched_part view_part_intros)+

text \<open>C4: the view to which a replica moves because of the messages of others (\<^verbatim>\<open>max_view\<close>) always exists, at most \<open>f\<close> replicas are recorded with a later one, and if it is
  later than the current view, then at least \<open>f + 1\<close> replicas sent verified view-change messages for it or a later view, so one that is not faulty did.\<close>

theorem max_view_vouched:
  assumes "view_run n V S" "nat (num_replicas nd) = n" "node_ok nd"
  shows "\<exists>w. vi_max_view nd V = Some w \<and> int (card {i. i < n \<and> w < vn_views V ! i}) \<le> max_faulty nd \<and>
    (vn_v V < w \<longrightarrow> max_faulty nd + 1 \<le> int (card {i. i < n \<and> (\<exists>w'. (int i, w') \<in> S \<and> w \<le> to_int32 w')}))"
proof -
  have ok: "views_vouched n V S" by (rule view_run_vouched [OF assms(1)])
  then have len: "length (vn_views V) = n" by (simp add: views_vouched_def)
  have cnt: "length (filter P (vn_views V)) = card {i. i < n \<and> P (vn_views V ! i)}" for P
    using length_filter_conv_card [of P "vn_views V"] len by simp
  have "filter ((\<le>) 0) (vn_views V) = vn_views V" using ok by (intro filter_True) (auto simp: views_vouched_def in_set_conv_nth)
  moreover have "max_faulty nd + 1 \<le> int n" "1 \<le> max_faulty nd + 1" using assms(2,3) by (auto simp: node_ok_def)
  moreover have "\<forall>u \<in> set (vn_views V). u < View_max" using ok by (auto simp: views_vouched_def in_set_conv_nth)
  ultimately obtain w where w: "K_max (max_faulty nd + 1) (vn_views V) View_max = Some w"
      "max_faulty nd + 1 \<le> int (length (filter ((\<le>) w) (vn_views V)))" "int (length (filter ((<) w) (vn_views V))) < max_faulty nd + 1"
    using K_max_spec [of "max_faulty nd + 1" "vn_views V" View_max] len by auto
  have "{i. i < n \<and> w \<le> vn_views V ! i} \<subseteq> {i. i < n \<and> (\<exists>w'. (int i, w') \<in> S \<and> w \<le> to_int32 w')}" if "vn_v V < w"
    using ok that by (force simp: views_vouched_def)
  then have "vn_v V < w \<longrightarrow> card {i. i < n \<and> w \<le> vn_views V ! i} \<le> card {i. i < n \<and> (\<exists>w'. (int i, w') \<in> S \<and> w \<le> to_int32 w')}"
    by (auto intro!: card_mono)
  with w show ?thesis using assms(2) len by (auto simp: vi_max_view_def cnt)
qed


definition wit_view0 :: view_info where
  "wit_view0 = View_info_new wit_vbuild (wit_node 1) 0 [wit_vc 0 True 7, wit_vc 1 True 7, wit_vc 2 False 7, wit_vc 3 False 0] [] (replicate 4 wit_nv) 0 0"

definition wit_joined :: "view_info option" where
  "wit_joined = do {
     (_, V1) \<leftarrow> vi_add_vc wit_venv (wit_node 1) wit_vc5 wit_view0;
     (_, V2) \<leftarrow> vi_add_vc wit_venv (wit_node 1) (wit_vc5\<lparr>vc_id := 3\<rparr>) V1;
     Some V2 }"

text \<open>Replica 1 in view 0 gets the view-change messages of replicas 2 and 3 for view 5.\<close>

theorem max_view_vouched_witness:
  "\<exists>V. wit_joined = Some V \<and> vi_max_view (wit_node 1) V = Some 5 \<and>
    2 \<le> card {i. i < 4 \<and> (\<exists>w'. (int i, w') \<in> {(2, 5), (3, 5)} \<and> 5 \<le> to_int32 w')}"
proof -
  have "(case wit_joined of Some V \<Rightarrow> vi_max_view (wit_node 1) V = Some 5 \<and> vn_v V = 0 | None \<Rightarrow> False)" by code_simp
  then obtain V where V: "wit_joined = Some V" "vi_max_view (wit_node 1) V = Some 5" "vn_v V = 0" by (auto split: option.splits)
  from V(1) obtain r V1 r' where s: "vi_add_vc wit_venv (wit_node 1) wit_vc5 wit_view0 = Some (r, V1)"
      "vi_add_vc wit_venv (wit_node 1) (wit_vc5\<lparr>vc_id := 3\<rparr>) V1 = Some (r', V)"
    by (auto simp: wit_joined_def elim!: bind_SomeE)
  have "view_run 4 wit_view0 {}" unfolding wit_view0_def by (rule view_run.start) (simp add: wit_node_def)
  from view_run.add_vc [OF view_run.add_vc [OF this s(1)] s(2)]
  have run: "view_run 4 V (verified wit_venv (wit_node 1) wit_vc5 \<union> verified wit_venv (wit_node 1) (wit_vc5\<lparr>vc_id := 3\<rparr>))" by simp
  have "verified wit_venv (wit_node 1) wit_vc5 = {(2, 5)}" "verified wit_venv (wit_node 1) (wit_vc5\<lparr>vc_id := 3\<rparr>) = {(3, 5)}" by code_simp+
  with run have run: "view_run 4 V {(2, 5), (3, 5)}" by (simp add: insert_commute)
  have ok: "node_ok (wit_node 1)" by (rule wit_node_ok) simp
  have n: "nat (num_replicas (wit_node 1)) = 4" "max_faulty (wit_node 1) = 1" by (simp_all add: wit_node_def)
  from max_view_vouched [OF run n(1) ok] V show ?thesis by (auto simp: n)
qed

end
