(* ===== verification/Replica_Views.thy ===== *)
theory Replica_Views
  imports Replica_Props View_Run
begin

text \<open>
  The handlers of \<^verbatim>\<open>Replica.cc\<close> for status, view-change, new-view and view-change-ack messages, on a replica whose view component is the \<open>view_info\<close> of
  \<open>View_Infos\<close>. The messages that these handlers send on behalf of the view component are appended to its \<open>vn_out\<close>, the others to \<open>rp_out\<close>; the calls of
  \<^verbatim>\<open>process_new_view\<close> and \<^verbatim>\<open>send_status\<close> that the component asks for are made when its operation returns (\<open>run_calls\<close>).
\<close>

definition venv_of :: "('st, 'a, 'vi) env \<Rightarrow> venv" where
  "venv_of E = \<lparr>ve_a = True, ve_b = e_b E, ve_cr = e_cr E, ve_now = e_now E, ve_max_msg = e_max_msg E, ve_max_nd = e_max_nd E, ve_nd = e_nd E\<rparr>"

section \<open>Calls of the view component\<close>

fun is_call :: "vcall \<Rightarrow> bool" where
  "is_call (Process_new_view mn d mx ms) = True"
| "is_call Send_status = True"
| "is_call _ = False"

fun call_one :: "('st, 'a, view_info) env \<Rightarrow> vcall \<Rightarrow> ('st, 'a, view_info) replica \<Rightarrow> ('st, 'a, view_info) replica option" where
  "call_one E (Process_new_view mn d mx ms) R = process_new_view E \<lparr>nc_min = mn, nc_d = d, nc_max = mx, nc_ms = ms\<rparr> R"
| "call_one E Send_status R = send_status E R"
| "call_one E _ R = Some R"

definition run_calls :: "('st, 'a, view_info) env \<Rightarrow> ('st, 'a, view_info) replica \<Rightarrow> ('st, 'a, view_info) replica option" where
  "run_calls E R = fold_opt (call_one E) (filter is_call (vn_out (rp_vi R)))
     (R\<lparr>rp_vi := (rp_vi R)\<lparr>vn_out := filter (\<lambda>c. \<not> is_call c) (vn_out (rp_vi R))\<rparr>\<rparr>)"

section \<open>View-change, new-view and acknowledgement messages\<close>

definition handle_view_change :: "('st, 'a, view_info) env \<Rightarrow> view_change \<Rightarrow> ('st, 'a, view_info) replica \<Rightarrow> ('st, 'a, view_info) replica option" where
  "handle_view_change E m R = do {
     R1 \<leftarrow> (if vc_id m = primary (rp_nd R) \<and> vc_v m > rp_view R then do {
              ok \<leftarrow> View_change_verify (e_b E) (e_cr E) (rp_nd R) m;
              if ok then send_view_change E R else Some R }
            else Some R);
     (modified, V) \<leftarrow> vi_add_vc (venv_of E) (rp_nd R1) m (rp_vi R1);
     R2 \<leftarrow> run_calls E (R1\<lparr>rp_vi := V\<rparr>);
     if \<not> modified then Some R2
     else do {
       _ \<leftarrow> delete_msg m;
       maxv \<leftarrow> vi_max_view (rp_nd R2) (rp_vi R2);
       if maxv > rp_view R2
       then send_view_change E (R2\<lparr>rp_nd := (rp_nd R2)\<lparr>cur_view := maxv - 1\<rparr>, rp_vc_recovering := True\<rparr>)
       else if rp_limbo R2 \<and> primary (rp_nd R2) \<noteq> node_id (rp_nd R2) then do {
         majv \<leftarrow> vi_max_maj_view (rp_nd R2) (rp_vi R2);
         th_assert (majv \<le> rp_view R2);
         Some (if majv = rp_view R2 then (restart_timer E vtimer R2)\<lparr>rp_limbo := False, rp_vc_recovering := True\<rparr> else R2) }
       else Some R2 } }"

definition handle_new_view :: "('st, 'a, view_info) env \<Rightarrow> new_view \<Rightarrow> ('st, 'a, view_info) replica \<Rightarrow> ('st, 'a, view_info) replica option" where
  "handle_new_view E m R = do {
     (_, V) \<leftarrow> vi_add_nv (venv_of E) (rp_nd R) m (rp_vi R);
     run_calls E (R\<lparr>rp_vi := V\<rparr>) }"

definition handle_view_change_ack :: "('st, 'a, view_info) env \<Rightarrow> view_change_ack \<Rightarrow> ('st, 'a, view_info) replica \<Rightarrow> ('st, 'a, view_info) replica option" where
  "handle_view_change_ack E m R = do {
     V \<leftarrow> vi_add_vca (venv_of E) (rp_nd R) m (rp_vi R);
     run_calls E (R\<lparr>rp_vi := V\<rparr>) }"

section \<open>Retransmission\<close>

text \<open>\<^verbatim>\<open>retransmit\<close> authenticates the message again, in place, and records the time. A certificate has its own message both in \<^verbatim>\<open>mym\<close> and among its values.\<close>

definition cert_resent :: "int \<Rightarrow> 'm \<Rightarrow> 'm certificate \<Rightarrow> 'm certificate" where
  "cert_resent now m C = C\<lparr>mym := Some m, t_sent := now, vals := map (\<lambda>x. if mv_m x = mym C then x\<lparr>mv_m := Some m\<rparr> else x) (vals C)\<rparr>"

definition resend_checkpoint :: "('st, 'a, 'vi) env \<Rightarrow> seqno \<Rightarrow> int \<Rightarrow> ('st, 'a, 'vi) replica \<Rightarrow> (checkpoint option \<times> ('st, 'a, 'vi) replica) option" where
  "resend_checkpoint E n dest R = do {
     C \<leftarrow> clog_fetch (e_b E) (rp_elog R) n;
     case mine C of
       None \<Rightarrow> Some (None, R)
     | Some k \<Rightarrow> do {
         let k' = Checkpoint_re_authenticate (e_cr E) (rp_nd R) k False;
         el \<leftarrow> clog_put (e_b E) (rp_elog R) n (cert_resent (e_now E) k' C);
         Some (Some k', emit (Out_checkpoint k') dest (R\<lparr>rp_elog := el\<rparr>)) } }"

definition resend_commit :: "('st, 'a, 'vi) env \<Rightarrow> seqno \<Rightarrow> int \<Rightarrow> ('st, 'a, 'vi) replica \<Rightarrow> ('st, 'a, 'vi) replica option" where
  "resend_commit E n dest R = do {
     C \<leftarrow> log_fetch (rp_clog R) n;
     case mine C of
       None \<Rightarrow> Some R
     | Some c \<Rightarrow> do {
         let c' = Commit_re_authenticate (e_cr E) (rp_nd R) c;
         cl \<leftarrow> log_put (rp_clog R) n (cert_resent (e_now E) c' C);
         Some (emit (Out_commit c') dest (R\<lparr>rp_clog := cl\<rparr>)) } }"

definition resend_prepare :: "('st, 'a, 'vi) env \<Rightarrow> seqno \<Rightarrow> int \<Rightarrow> ('st, 'a, 'vi) replica \<Rightarrow> ('st, 'a, 'vi) replica option" where
  "resend_prepare E n dest R = do {
     P \<leftarrow> log_fetch (rp_plog R) n;
     case my_prepare P of
       None \<Rightarrow> Some R
     | Some p \<Rightarrow> do {
         p' \<leftarrow> Prepare_re_authenticate (e_cr E) (rp_nd R) p (i_to_p (rp_nd R) dest);
         pl \<leftarrow> log_put (rp_plog R) n (P\<lparr>pc_cert := cert_resent (e_now E) p' (pc_cert P)\<rparr>);
         Some (emit (Out_prepare p') dest (R\<lparr>rp_plog := pl\<rparr>)) } }"

text \<open>The pre-prepare of the certificate for \<open>n\<close>: the one this replica sent, with the time of its transmission, or any.\<close>

definition resend_pp :: "('st, 'a, 'vi) env \<Rightarrow> seqno \<Rightarrow> int \<Rightarrow> bool \<Rightarrow> ('st, 'a, 'vi) replica \<Rightarrow> ('st, 'a, 'vi) replica option" where
  "resend_pp E n dest own R = do {
     P \<leftarrow> log_fetch (rp_plog R) n;
     case (if own then my_pre_prepare P else pc_pp P) of
       None \<Rightarrow> Some R
     | Some pp \<Rightarrow> do {
         pp' \<leftarrow> pp_re_authenticate (e_cr E) (rp_nd R) pp;
         pl \<leftarrow> log_put (rp_plog R) n (P\<lparr>pc_pp := Some pp', pc_t_sent := (if own then e_now E else pc_t_sent P)\<rparr>);
         Some (emit (Out_pre_prepare pp') dest (R\<lparr>rp_plog := pl\<rparr>)) } }"

text \<open>The messages of the view component; the first result of \<open>vi_resend_vc\<close> is whether there is a message.\<close>

definition vi_resend_vc :: "venv \<Rightarrow> node \<Rightarrow> int \<Rightarrow> view_info \<Rightarrow> (bool \<times> view_info) option" where
  "vi_resend_vc E nd dest V = do {
     m \<leftarrow> my_view_change nd V;
     case m of
       None \<Rightarrow> Some (False, V)
     | Some vc \<Rightarrow> do {
         vc' \<leftarrow> vc_re_authenticate (ve_a E) (ve_b E) (ve_cr E) nd vc;
         Some (True, vi_send (Send_view_change vc' dest) (V\<lparr>vn_slots := (vn_slots V)[nat (vn_id V) := vc'], vn_sent := ve_now E\<rparr>)) } }"

definition vi_resend_nv :: "venv \<Rightarrow> node \<Rightarrow> view_info \<Rightarrow> (bool \<times> view_info) option" where
  "vi_resend_nv E nd V = do {
     N \<leftarrow> at_index (vn_nvs V) (vn_id V);
     case the_nv N of
       None \<Rightarrow> Some (False, V)
     | Some nv \<Rightarrow> do {
         nv' \<leftarrow> nv_re_authenticate (ve_a E) (ve_b E) (ve_cr E) nd nv;
         Some (True, V\<lparr>vn_nvs := (vn_nvs V)[nat (vn_id V) := N\<lparr>ni_nv := nv', ni_sent := ve_now E\<rparr>]\<rparr>) } }"

definition vi_resend_ack :: "venv \<Rightarrow> node \<Rightarrow> principal \<Rightarrow> int \<Rightarrow> nat \<Rightarrow> view_change_ack \<Rightarrow> view_info \<Rightarrow> view_info option" where
  "vi_resend_ack E nd p dest i m V = do {
     row \<leftarrow> at_index (vn_aslots V) (node_id nd);
     let m' = vca_re_authenticate (ve_cr E) p m;
     Some (vi_send (Send_ack m' dest) (V\<lparr>vn_aslots := (vn_aslots V)[nat (node_id nd) := row[i := m']]\<rparr>)) }"

definition vi_resend_pp :: "venv \<Rightarrow> node \<Rightarrow> seqno \<Rightarrow> view \<Rightarrow> view_info \<Rightarrow> (pre_prepare option \<times> view_info) option" where
  "vi_resend_pp E nd n v V = do {
     m \<leftarrow> vi_pre_prepare_view (ve_a E) n v V;
     case m of
       None \<Rightarrow> Some (None, V)
     | Some pp \<Rightarrow> do {
         pp' \<leftarrow> pp_re_authenticate (ve_cr E) nd pp;
         ri \<leftarrow> log_fetch (vn_oplog V) n;
         L \<leftarrow> log_put (vn_oplog V) n (ri\<lparr>or_m := Some pp'\<rparr>);
         Some (Some pp', V\<lparr>vn_oplog := L\<rparr>) } }"

section \<open>Status messages\<close>

text \<open>A number for which the sender in the same view may miss messages.\<close>

definition status_one :: "('st, 'a, 'vi) env \<Rightarrow> status \<Rightarrow> seqno \<Rightarrow> ('st, 'a, 'vi) replica \<Rightarrow> ('st, 'a, 'vi) replica option" where
  "status_one E m n R = do {
     c \<leftarrow> st_is_committed (e_b E) n m;
     if c then Some R
     else do {
       R1 \<leftarrow> resend_commit E n (s_id m) R;
       p \<leftarrow> st_is_prepared (e_b E) n m;
       if p then Some R1
       else if primary (rp_nd R1) = node_id (rp_nd R1) then resend_pp E n (s_id m) True R1
       else resend_prepare E n (s_id m) R1 } }"

text \<open>A pre-prepare that the sender misses for the new view, and the proofs it wants.\<close>

definition status_pp :: "('st, 'a, view_info) env \<Rightarrow> status \<Rightarrow> view \<times> seqno \<times> bool \<Rightarrow> ('st, 'a, view_info) replica \<Rightarrow> ('st, 'a, view_info) replica option" where
  "status_pp E m = (\<lambda>(ppv, ppn, ppp) R. do {
     let prim = primary_of (rp_nd R) (rp_view R);
     R1 \<leftarrow> (if s_id m = prim then do {
              (pp, V) \<leftarrow> vi_resend_pp (venv_of E) (rp_nd R) ppn ppv (rp_vi R);
              Some (case pp of Some p \<Rightarrow> emit (Out_pre_prepare p) (s_id m) (R\<lparr>rp_vi := V\<rparr>) | None \<Rightarrow> R) }
            else if prim = node_id (rp_nd R) \<and> log_within_range (rp_plog R) ppn then resend_pp E ppn (s_id m) False R
            else Some R);
     if ppp then do {
       V \<leftarrow> vi_send_proofs (venv_of E) (rp_nd R1) ppn ppv (s_id m) (rp_vi R1);
       Some (R1\<lparr>rp_vi := V\<rparr>) }
     else Some R1 })"

definition status_ack :: "('st, 'a, view_info) env \<Rightarrow> principal \<Rightarrow> status \<Rightarrow> nat \<Rightarrow> ('st, 'a, view_info) replica \<Rightarrow> ('st, 'a, view_info) replica option" where
  "status_ack E p m i R =
     (if s_id m = int i then Some R
      else do {
        a \<leftarrow> my_vc_ack True (rp_nd R) (int i) (rp_vi R);
        case a of
          None \<Rightarrow> Some R
        | Some vca \<Rightarrow> do {
            h \<leftarrow> has_vc (e_b E) (int i) m;
            if h then Some R
            else do {
              V \<leftarrow> vi_resend_ack (venv_of E) (rp_nd R) p (s_id m) i vca (rp_vi R);
              Some (R\<lparr>rp_vi := V\<rparr>) } } })"

definition resend_vc :: "('st, 'a, view_info) env \<Rightarrow> int \<Rightarrow> ('st, 'a, view_info) replica \<Rightarrow> (bool \<times> ('st, 'a, view_info) replica) option" where
  "resend_vc E dest R = do {
     (sent, V) \<leftarrow> vi_resend_vc (venv_of E) (rp_nd R) dest (rp_vi R);
     Some (sent, R\<lparr>rp_vi := V\<rparr>) }"

text \<open>The sender is in the same view and does not have the new view.\<close>

definition status_no_nv :: "('st, 'a, view_info) env \<Rightarrow> principal \<Rightarrow> status \<Rightarrow> ('st, 'a, view_info) replica \<Rightarrow> ('st, 'a, view_info) replica option" where
  "status_no_nv E p m R = do {
     h \<leftarrow> has_vc (e_b E) (node_id (rp_nd R)) m;
     R1 \<leftarrow> (if h then Some R else do { (sent, R') \<leftarrow> resend_vc E (s_id m) R; th_assert sent; Some R' });
     let prim = primary_of (rp_nd R1) (rp_view R1);
     nv \<leftarrow> (if prim = node_id (rp_nd R1) then vi_has_new_view (rp_nd R1) (rp_vi R1) (rp_view R1) else Some False);
     if \<not> has_nv_m m
     then if nv then do {
            (sent, V) \<leftarrow> vi_resend_nv (venv_of E) (rp_nd R1) (rp_vi R1);
            Some (if sent then emit Out_new_view (s_id m) (R1\<lparr>rp_vi := V\<rparr>) else R1) }
          else Some R1
     else do {
       R2 \<leftarrow> (if nv then Some R1 else fold_opt (status_ack E p m) [0..<nat (num_replicas (rp_nd R1))] R1);
       es \<leftarrow> pps_list (e_b E) m;
       fold_opt (status_pp E m) es R2 } }"

text \<open>A checkpoint that the sender may miss.\<close>

definition status_ckpt :: "('st, 'a, 'vi) env \<Rightarrow> int \<Rightarrow> seqno \<Rightarrow> ('st, 'a, 'vi) replica \<Rightarrow> ('st, 'a, 'vi) replica option" where
  "status_ckpt E dest n R =
     (if n smod checkpoint_interval (e_b E) = 0 then do {
        (c, R') \<leftarrow> resend_checkpoint E n dest R;
        th_assert (case c of None \<Rightarrow> True | Some k \<Rightarrow> n = rp_last_stable R \<or> \<not> k_stable k);
        Some R' }
      else Some R)"

definition handle_status :: "('st, 'a, view_info) env \<Rightarrow> status \<Rightarrow> ('st, 'a, view_info) replica \<Rightarrow> ('st, 'a, view_info) replica option" where
  "handle_status E m R =
     (if s_id m = node_id (rp_nd R) then Some R
      else do {
        ok \<leftarrow> Status_verify (e_b E) (e_cr E) (rp_nd R) m;
        if \<not> (ok \<and> rp_qs R = None)
        then Some (case rp_last_new_key R of
                     Some rid \<Rightarrow> if rp_qs R = None \<or> \<not> ok then emit (Out_new_key rid) (s_id m) R else R
                   | None \<Rightarrow> R)
        else do {
          p \<leftarrow> i_to_p (rp_nd R) (s_id m);
          if rp_last_stable R > s_ls m + max_out (e_b E) then do {
            (c, R') \<leftarrow> resend_checkpoint E (rp_last_stable R) (s_id m) R;
            th_assert (case c of None \<Rightarrow> False | Some k \<Rightarrow> k_stable k);
            Some R' }
          else do {
            let mx = to_int32 (min (rp_last_stable R) (s_ls m) + max_out (e_b E));
            R1 \<leftarrow> fold_opt (status_ckpt E (s_id m)) [to_int32 (max (rp_last_stable R) (s_ls m + 1))..mx] R;
            if s_v m < rp_view R1 then do { (_, R') \<leftarrow> resend_vc E (s_id m) R1; Some R' }
            else if s_v m = rp_view R1
            then if has_nv_info m
                 then fold_opt (status_one E m) [to_int32 (max (rp_last_stable R1 + 1) (s_le m + 1))..mx] R1
                 else status_no_nv E p m R1
            else Some R1 } } })"


section \<open>The main loop\<close>

datatype view_event = Ev_status status | Ev_view_change view_change | Ev_new_view new_view | Ev_view_change_ack view_change_ack

fun view_event_tag :: "view_event \<Rightarrow> int" where
  "view_event_tag (Ev_status m) = Status_tag"
| "view_event_tag (Ev_view_change m) = View_change_tag"
| "view_event_tag (Ev_new_view m) = New_view_tag"
| "view_event_tag (Ev_view_change_ack m) = View_change_ack_tag"

fun dispatch_view :: "('st, 'a, view_info) env \<Rightarrow> view_event \<Rightarrow> ('st, 'a, view_info) replica \<Rightarrow> ('st, 'a, view_info) replica option" where
  "dispatch_view E (Ev_status m) R = handle_status E m R"
| "dispatch_view E (Ev_view_change m) R = handle_view_change E m R"
| "dispatch_view E (Ev_new_view m) R = handle_new_view E m R"
| "dispatch_view E (Ev_view_change_ack m) R = handle_view_change_ack E m R"

definition handle_view_event :: "('st, 'a, view_info) env \<Rightarrow> view_event \<Rightarrow> ('st, 'a, view_info) replica \<Rightarrow> ('st, 'a, view_info) replica option" where
  "handle_view_event E ev R = (if dropped E (view_event_tag ev) R then Some R else dispatch_view E ev R)"

section \<open>The view of a replica\<close>

lemma same_group_trans: "same_group a b \<Longrightarrow> same_group b c \<Longrightarrow> same_group a c"
  by (simp add: same_group_def)

lemma advances_group: "advances b R R' \<Longrightarrow> same_group (rp_nd R) (rp_nd R')"
  by (simp add: advances_def)

lemma calm_group: "calm b R R' \<Longrightarrow> same_group (rp_nd R) (rp_nd R')"
  by (simp add: calm_def)

lemma nv_one_nd: "nv_one E i R = Some R' \<Longrightarrow> rp_nd R' = rp_nd R"
  by (auto simp: nv_one_def Let_def emit_def elim!: bind_SomeE split: if_splits prod.splits)

lemma nv_all_nd: "fold_opt (nv_one E) is R = Some R' \<Longrightarrow> rp_nd R' = rp_nd R"
  by (erule fold_opt_inv [where P = "\<lambda>W. rp_nd W = rp_nd R"]) (auto dest: nv_one_nd)

lemma vc_one_nd: "vc_one E i R = Some R' \<Longrightarrow> rp_nd R' = rp_nd R"
  by (auto simp: vc_one_def elim!: bind_SomeE)

lemma vc_all_nd: "fold_opt (vc_one E) is R = Some R' \<Longrightarrow> rp_nd R' = rp_nd R"
  by (erule fold_opt_inv [where P = "\<lambda>W. rp_nd W = rp_nd R"]) (auto dest: vc_one_nd)

lemma process_new_view_group:
  assumes "process_new_view E nvc R = Some R'"
  shows "same_group (rp_nd R) (rp_nd R')"
  using assms unfolding process_new_view_def Let_def
  by (auto elim!: bind_SomeE if_SomeE dest!: mark_stable_advances [THEN advances_group] nv_all_nd send_pre_prepare_advances [THEN advances_group]
      execute_buffered_ro_calm [THEN calm_group] simp: timer_defs emit_def same_group_def split: if_splits)

lemma rollback_tentative_nd: "rollback_tentative E R = Some R' \<Longrightarrow> rp_nd R' = rp_nd R"
  by (auto simp: rollback_tentative_def elim!: bind_SomeE split: if_splits prod.splits)

lemma new_view_opt_group: "new_view_opt E nvc R = Some R' \<Longrightarrow> same_group (rp_nd R) (rp_nd R')"
  by (auto simp: new_view_opt_def dest: process_new_view_group split: option.splits)

lemma send_view_change_view:
  assumes "send_view_change E R = Some R'"
  shows "cur_view (rp_nd R') = cur_view (rp_nd R) + 1"
  using assms unfolding send_view_change_def Let_def
  by (auto elim!: bind_SomeE dest!: rollback_tentative_nd vc_all_nd new_view_opt_group simp: timer_defs same_group_def rp_view_def split: prod.splits)

lemma run_calls_group:
  assumes "run_calls E R = Some R'"
  shows "same_group (rp_nd R) (rp_nd R')"
  using assms unfolding run_calls_def
proof (rule fold_opt_inv [where P = "\<lambda>W. same_group (rp_nd R) (rp_nd W)"])
  fix c W W'
  assume w: "same_group (rp_nd R) (rp_nd W)" and c: "call_one E c W = Some W'"
  have "same_group (rp_nd W) (rp_nd W')"
    using c by (cases c) (auto dest: process_new_view_group send_status_calm [THEN conjunct1, THEN calm_group])
  with w show "same_group (rp_nd R) (rp_nd W')" by (rule same_group_trans)
qed simp

text \<open>A view-change message never moves a replica to an earlier view, and the other messages leave it in its view.\<close>

lemma handle_view_change_view:
  assumes "handle_view_change E m R = Some R'"
  shows "rp_view R \<le> rp_view R'"
  using assms unfolding handle_view_change_def rp_view_def
  by (auto elim!: bind_SomeE dest!: send_view_change_view run_calls_group simp: timer_defs same_group_def split: prod.splits if_splits)

lemma handle_other_view:
  "handle_new_view E nv R = Some R' \<Longrightarrow> rp_view R' = rp_view R"
  "handle_view_change_ack E a R = Some R' \<Longrightarrow> rp_view R' = rp_view R"
  by (auto simp: handle_new_view_def handle_view_change_ack_def rp_view_def same_group_def elim!: bind_SomeE dest!: run_calls_group split: prod.splits)


section \<open>Status messages only cause retransmissions\<close>

text \<open>What a certificate counts, without the bytes of its messages.\<close>

definition tally :: "'m certificate \<Rightarrow> bitmap \<times> int list \<times> nat option \<times> nat \<times> int" where
  "tally C = (bmap C, map mv_count (vals C), c_val C, cur_size C, complete C)"

definition pc_tally :: "prepared_cert \<Rightarrow> (bitmap \<times> int list \<times> nat option \<times> nat \<times> int) \<times> pre_prepare option \<times> bool" where
  "pc_tally P = (tally (pc_cert P), map_option (\<lambda>pp. pp\<lparr>m_rest := []\<rparr>) (pc_pp P), pc_primary P)"

definition tallies :: "('st, 'a, 'vi) replica \<Rightarrow> (seqno \<times> _ list) \<times> (seqno \<times> _ list) \<times> (seqno \<times> _ list)" where
  "tallies R = ((head (rp_plog R), map pc_tally (elems (rp_plog R))), (head (rp_clog R), map tally (elems (rp_clog R))),
     (cl_head (rp_elog R), map tally (cl_certs (rp_elog R))))"

fun sent_to :: "int \<Rightarrow> vcall \<Rightarrow> bool" where
  "sent_to d (Send_view_change m e) = (e = d)"
| "sent_to d (Send_ack m e) = (e = d)"
| "sent_to d (Send_proof m e) = (e = d)"
| "sent_to d _ = False"

definition vi_resends :: "int \<Rightarrow> view_info \<Rightarrow> view_info \<Rightarrow> bool" where
  "vi_resends d V V' \<longleftrightarrow> view_part V' = view_part V \<and> (\<exists>cs. vn_out V' = vn_out V @ cs \<and> (\<forall>c \<in> set cs. sent_to d c))"

definition resends :: "int \<Rightarrow> ('st, 'a, view_info) replica \<Rightarrow> ('st, 'a, view_info) replica \<Rightarrow> bool" where
  "resends d R R' \<longleftrightarrow> tallies R' = tallies R \<and> vi_resends d (rp_vi R) (rp_vi R') \<and> (\<exists>pl cl el V ms.
     R' = R\<lparr>rp_plog := pl, rp_clog := cl, rp_elog := el, rp_vi := V, rp_out := rp_out R @ ms\<rparr> \<and> (\<forall>x \<in> set ms. snd x = d))"

lemma vi_resends_refl [simp]: "vi_resends d V V"
  by (simp add: vi_resends_def)

lemma vi_resends_trans: "vi_resends d V V1 \<Longrightarrow> vi_resends d V1 V2 \<Longrightarrow> vi_resends d V V2"
  unfolding vi_resends_def by (metis append.assoc set_append Un_iff)

lemma resends_refl [simp]: "resends d R R"
  unfolding resends_def by (intro conjI exI [of _ "rp_plog R"] exI [of _ "rp_clog R"] exI [of _ "rp_elog R"] exI [of _ "rp_vi R"] exI [of _ "[]"]) simp_all

lemma resends_trans:
  assumes "resends d R R1" "resends d R1 R2"
  shows "resends d R R2"
proof -
  from assms(1) obtain pl cl el V ms where 1: "R1 = R\<lparr>rp_plog := pl, rp_clog := cl, rp_elog := el, rp_vi := V, rp_out := rp_out R @ ms\<rparr>" "\<forall>x \<in> set ms. snd x = d"
    by (auto simp: resends_def)
  from assms(2) obtain pl' cl' el' V' ms' where 2: "R2 = R1\<lparr>rp_plog := pl', rp_clog := cl', rp_elog := el', rp_vi := V', rp_out := rp_out R1 @ ms'\<rparr>"
      "\<forall>x \<in> set ms'. snd x = d"
    by (auto simp: resends_def)
  have "R2 = R\<lparr>rp_plog := pl', rp_clog := cl', rp_elog := el', rp_vi := V', rp_out := rp_out R @ (ms @ ms')\<rparr>" unfolding 2(1) 1(1) by simp
  moreover have "\<forall>x \<in> set (ms @ ms'). snd x = d" using 1(2) 2(2) by auto
  moreover have "tallies R2 = tallies R" "vi_resends d (rp_vi R) (rp_vi R2)" using assms by (auto simp: resends_def intro: vi_resends_trans)
  ultimately show ?thesis unfolding resends_def by metis
qed

lemma fold_resends:
  assumes "fold_opt f xs R = Some R'" "\<And>x W W'. f x W = Some W' \<Longrightarrow> resends d W W'"
  shows "resends d R R'"
  by (rule fold_opt_inv [OF assms(1), where P = "resends d R"]) (auto intro: resends_trans assms(2))

lemma tally_resent [simp]: "tally (cert_resent now m C) = tally C"
  by (simp add: tally_def cert_resent_def comp_def if_distrib cong: if_cong)

lemma log_put_tally: "log_fetch l n = Some x \<Longrightarrow> log_put l n x' = Some l' \<Longrightarrow> f x' = f x \<Longrightarrow> head l' = head l \<and> map f (elems l') = map f (elems l)"
  by (auto simp: log_fetch_def log_put_def arr_get_def arr_set_def map_update elim!: bind_SomeE split: if_splits) (metis list_update_id nth_map)

lemma clog_put_tally:
  "clog_fetch b l n = Some x \<Longrightarrow> clog_put b l n x' = Some l' \<Longrightarrow> f x' = f x \<Longrightarrow> cl_head l' = cl_head l \<and> map f (cl_certs l') = map f (cl_certs l)"
  by (auto simp: clog_fetch_def clog_put_def arr_get_def arr_set_def map_update elim!: bind_SomeE split: if_splits) (metis list_update_id nth_map)

lemma emit_resends:
  assumes "R1 = R\<lparr>rp_plog := pl, rp_clog := cl, rp_elog := el, rp_vi := V\<rparr>" "tallies R1 = tallies R" "vi_resends d (rp_vi R) V"
  shows "resends d R R1" "resends d R (emit m d R1)"
proof -
  have "resends d R R1" unfolding resends_def
    by (intro conjI exI [of _ pl] exI [of _ cl] exI [of _ el] exI [of _ V] exI [of _ "[]"]) (use assms in simp_all)
  moreover have "resends d R1 (emit m d R1)" unfolding resends_def
    by (intro conjI exI [of _ "rp_plog R1"] exI [of _ "rp_clog R1"] exI [of _ "rp_elog R1"] exI [of _ "rp_vi R1"] exI [of _ "[(m, d)]"])
      (simp_all add: emit_def tallies_def)
  ultimately show "resends d R R1" "resends d R (emit m d R1)" by (auto intro: resends_trans)
qed


lemma plog_resends:
  assumes "log_fetch (rp_plog R) n = Some P" "log_put (rp_plog R) n P' = Some pl" "pc_tally P' = pc_tally P"
  shows "resends d R (emit m d (R\<lparr>rp_plog := pl\<rparr>))"
proof -
  have "tallies (R\<lparr>rp_plog := pl\<rparr>) = tallies R" using log_put_tally [OF assms(1,2), of pc_tally] assms(3) by (simp add: tallies_def)
  then show ?thesis by (intro emit_resends(2) [where cl = "rp_clog R" and el = "rp_elog R" and V = "rp_vi R"]) simp_all
qed

lemma clog_resends:
  assumes "log_fetch (rp_clog R) n = Some C" "log_put (rp_clog R) n C' = Some cl" "tally C' = tally C"
  shows "resends d R (emit m d (R\<lparr>rp_clog := cl\<rparr>))"
proof -
  have "tallies (R\<lparr>rp_clog := cl\<rparr>) = tallies R" using log_put_tally [OF assms(1,2), of tally] assms(3) by (simp add: tallies_def)
  then show ?thesis by (intro emit_resends(2) [where pl = "rp_plog R" and el = "rp_elog R" and V = "rp_vi R"]) simp_all
qed

lemma elog_resends:
  assumes "clog_fetch b (rp_elog R) n = Some C" "clog_put b (rp_elog R) n C' = Some el" "tally C' = tally C"
  shows "resends d R (emit m d (R\<lparr>rp_elog := el\<rparr>))"
proof -
  have "tallies (R\<lparr>rp_elog := el\<rparr>) = tallies R" using clog_put_tally [OF assms(1,2), of tally] assms(3) by (simp add: tallies_def)
  then show ?thesis by (intro emit_resends(2) [where pl = "rp_plog R" and cl = "rp_clog R" and V = "rp_vi R"]) simp_all
qed

lemma resend_checkpoint_resends: "resend_checkpoint E n d R = Some (c, R') \<Longrightarrow> resends d R R'"
  by (auto simp: resend_checkpoint_def Let_def elim!: bind_SomeE split: option.splits intro!: elog_resends)

lemma resend_commit_resends: "resend_commit E n d R = Some R' \<Longrightarrow> resends d R R'"
  by (auto simp: resend_commit_def Let_def elim!: bind_SomeE split: option.splits intro!: clog_resends)

lemma resend_prepare_resends: "resend_prepare E n d R = Some R' \<Longrightarrow> resends d R R'"
  by (auto simp: resend_prepare_def elim!: bind_SomeE split: option.splits intro!: plog_resends simp: pc_tally_def)

lemma resend_pp_resends: "resend_pp E n d own R = Some R' \<Longrightarrow> resends d R R'"
  by (auto simp: resend_pp_def pp_re_authenticate_def elim!: bind_SomeE split: option.splits if_splits intro!: plog_resends
      simp: pc_tally_def my_pre_prepare_def)

text \<open>The messages of the view component.\<close>

lemma vi_ops_resend:
  "vi_resend_vc VE nd d V = Some (b, V') \<Longrightarrow> vi_resends d V V'"
  "vi_resend_nv VE nd V = Some (b, V') \<Longrightarrow> vi_resends d V V'"
  "vi_resend_ack VE nd p d i m V = Some V' \<Longrightarrow> vi_resends d V V'"
  "vi_resend_pp VE nd n v V = Some (q, V') \<Longrightarrow> vi_resends d V V'"
  by (auto simp: vi_resend_vc_def vi_resend_nv_def vi_resend_ack_def vi_resend_pp_def vi_resends_def view_part_def vi_send_def Let_def
      elim!: bind_SomeE split: option.splits)

lemma vi_send_proofs_resends: "vi_send_proofs VE nd n v d V = Some V' \<Longrightarrow> vi_resends d V V'"
  unfolding vi_send_proofs_def
proof (elim if_SomeE bind_SomeE)
  fix ri p
  assume "fold_opt (\<lambda>i V. do { x \<leftarrow> arr_get (or_ods ri) i;
     Some (if snd x \<ge> v then vi_send (Send_proof (Prepare_new (ve_cr VE) nd (snd x) n (fst x) (Some p)) d) V else V) })
          [0..<nat (max_faulty nd + 2)] V = Some V'"
  then show "vi_resends d V V'"
    by (rule fold_opt_inv [where P = "vi_resends d V"]) (auto simp: vi_resends_def vi_send_def view_part_def elim!: bind_SomeE)
qed simp

lemma set_vi_resends: "vi_resends d (rp_vi R) V \<Longrightarrow> resends d R (R\<lparr>rp_vi := V\<rparr>)" "vi_resends d (rp_vi R) V \<Longrightarrow> resends d R (emit m d (R\<lparr>rp_vi := V\<rparr>))"
  by (rule emit_resends [where pl = "rp_plog R" and cl = "rp_clog R" and el = "rp_elog R" and V = V], simp_all add: tallies_def)+


text \<open>The steps of the handler.\<close>

lemma status_one_resends: "status_one E m n R = Some R' \<Longrightarrow> resends (s_id m) R R'"
  by (auto simp: status_one_def elim!: bind_SomeE split: if_splits
      dest!: resend_commit_resends resend_pp_resends resend_prepare_resends) (erule (1) resends_trans)+

lemma resend_vc_resends: "resend_vc E d R = Some (b, R') \<Longrightarrow> resends d R R'"
  by (auto simp: resend_vc_def elim!: bind_SomeE intro: set_vi_resends vi_ops_resend)

lemma status_ckpt_resends: "status_ckpt E d n R = Some R' \<Longrightarrow> resends d R R'"
  by (auto simp: status_ckpt_def elim!: bind_SomeE split: if_splits prod.splits intro: resend_checkpoint_resends)

lemma status_ack_resends: "status_ack E p m i R = Some R' \<Longrightarrow> resends (s_id m) R R'"
  by (auto simp: status_ack_def elim!: bind_SomeE split: if_splits option.splits intro!: set_vi_resends) (erule vi_ops_resend(3))

lemma status_pp_resends:
  assumes "status_pp E m e R = Some R'"
  shows "resends (s_id m) R R'"
proof -
  obtain ppv ppn ppp where e: "e = (ppv, ppn, ppp)" by (cases e)
  from assms obtain R1 where "(if s_id m = primary_of (rp_nd R) (rp_view R) then do {
              (pp, V) \<leftarrow> vi_resend_pp (venv_of E) (rp_nd R) ppn ppv (rp_vi R);
              Some (case pp of Some p \<Rightarrow> emit (Out_pre_prepare p) (s_id m) (R\<lparr>rp_vi := V\<rparr>) | None \<Rightarrow> R) }
            else if primary_of (rp_nd R) (rp_view R) = node_id (rp_nd R) \<and> log_within_range (rp_plog R) ppn then resend_pp E ppn (s_id m) False R
            else Some R) = Some R1"
      and R': "(if ppp then do {
       V \<leftarrow> vi_send_proofs (venv_of E) (rp_nd R1) ppn ppv (s_id m) (rp_vi R1);
       Some (R1\<lparr>rp_vi := V\<rparr>) } else Some R1) = Some R'"
    unfolding status_pp_def Let_def e by (auto elim: bind_SomeE)
  from this(1) have "resends (s_id m) R R1"
    by (auto elim!: bind_SomeE split: if_splits option.splits intro!: set_vi_resends intro: vi_ops_resend(4) resend_pp_resends)
  moreover have "resends (s_id m) R1 R'"
    using R' by (auto elim!: bind_SomeE split: if_splits intro: set_vi_resends vi_send_proofs_resends)
  ultimately show ?thesis by (rule resends_trans)
qed

lemma status_no_nv_resends:
  assumes "status_no_nv E p m R = Some R'"
  shows "resends (s_id m) R R'"
proof -
  from assms obtain h R1 nv where R1: "(if h then Some R else do { (sent, R') \<leftarrow> resend_vc E (s_id m) R; th_assert sent; Some R' }) = Some R1"
      and R': "(if \<not> has_nv_m m
     then if nv then do {
            (sent, V) \<leftarrow> vi_resend_nv (venv_of E) (rp_nd R1) (rp_vi R1);
            Some (if sent then emit Out_new_view (s_id m) (R1\<lparr>rp_vi := V\<rparr>) else R1) }
          else Some R1
     else do {
       R2 \<leftarrow> (if nv then Some R1 else fold_opt (status_ack E p m) [0..<nat (num_replicas (rp_nd R1))] R1);
       es \<leftarrow> pps_list (e_b E) m;
       fold_opt (status_pp E m) es R2 }) = Some R'"
    unfolding status_no_nv_def Let_def by (elim bind_SomeE) auto
  from R1 have "resends (s_id m) R R1" by (auto elim!: bind_SomeE split: if_splits prod.splits intro: resend_vc_resends)
  moreover have "resends (s_id m) R1 R'"
  proof (cases "has_nv_m m")
    case True
    with R' obtain R2 es where R2: "(if nv then Some R1 else fold_opt (status_ack E p m) [0..<nat (num_replicas (rp_nd R1))] R1) = Some R2"
        and es: "fold_opt (status_pp E m) es R2 = Some R'"
      by (auto elim!: bind_SomeE)
    have "resends (s_id m) R1 R2" using R2 by (auto split: if_splits intro: fold_resends [OF _ status_ack_resends])
    then show ?thesis using fold_resends [OF es status_pp_resends] by (rule resends_trans)
  next
    case False
    with R' show ?thesis by (auto elim!: bind_SomeE split: if_splits prod.splits intro!: set_vi_resends intro: vi_ops_resend(2))
  qed
  ultimately show ?thesis by (rule resends_trans)
qed



text \<open>The primary of four replicas has sent a pre-prepare for number 1; a status message of replica 2 that reports nothing as prepared makes it send the
  pre-prepare to replica 2 again.\<close>

definition wit_vo_vi :: "(view_info, unit) view_ops" where
  "wit_vo_vi = \<lparr>vo_has_new_view = (\<lambda>v n. True), vo_has_nv_message = (\<lambda>v n. True), vo_add_missing_pp = (\<lambda>v m. Some (v, None)),
     vo_add_missing_prepare = (\<lambda>v m. Some (v, None)), vo_mark_stable = (\<lambda>v n. Some v), vo_mark_stale = (\<lambda>v. Some v),
     vo_add_complete = (\<lambda>v m. Some v), vo_add_incomplete = (\<lambda>v n d. Some v), vo_view_change = (\<lambda>v n e s. Some (v, None)),
     vo_fetch_request = (\<lambda>v n. None), vo_max_view = (\<lambda>v. Some 0), vo_max_maj_view = (\<lambda>v. Some 0), vo_clear = id,
     vo_enforce_bound = (\<lambda>v b k c. Some (\<not> c, v))\<rparr>"

definition wit_env_vi :: "(unit, nat, view_info) env" where
  "wit_env_vi = \<lparr>e_b = wit_build, e_cr = wit_sig_crypto, e_now = 1, e_mhz = 1, e_max_msg = 512, e_max_reply = 64, e_prepare_size = 8,
     e_commit_size = 8, e_checkpoint_size = 8, e_slot = (\<lambda>n. wit_pp\<lparr>m_rest := replicate 448 0\<rparr>), e_max_nd = 8, e_nd = (\<lambda>n. []),
     e_ksz = 8, e_rnd = (\<lambda>i. [1]), e_nonce = 5, e_exec = (\<lambda>c nds i ro a s. Some (0, [1, 2, 3], Suc a, s)), e_so = wit_so, e_vo = wit_vo_vi\<rparr>"

definition wit_status_run :: "((unit, nat, view_info) replica \<times> status \<times> (unit, nat, view_info) replica) option" where
  "wit_status_run = do {
     R0 \<leftarrow> Replica_new wit_env_vi (wit_node 0) \<lparr>mem_count = 0, mem_slots = [], mem_app = 0\<rparr> 4096 () wit_view0 10 100 100 100 3 4;
     r \<leftarrow> wit_request [1, 2, 3];
     R \<leftarrow> handle_event wit_env_vi (Ev_request r) R0;
     m0 \<leftarrow> Status_new wit_build 512 (wit_node 2) (replicate 472 0) 0 0 0 True False;
     m \<leftarrow> st_authenticate wit_build wit_sig_crypto (wit_node 2) m0;
     R' \<leftarrow> handle_status wit_env_vi m R;
     Some (R, m, R') }"


end
